(* ===== verification/Kata_Prelude.thy ===== *)
theory Kata_Prelude
  imports Complex_Main "HOL-Library.AList" "HOL-Library.List_Lexorder" "HOL-Library.Char_ord"
begin

text \<open>
  Shared vocabulary of the development: Python dictionaries as association lists in insertion
  order, results of fallible code as sums, Python strings (as sequences of code points up to 255),
  zero-padded decimal formatting, JSON values, and the locale of fallible step machines with which
  every stateful component of the repository is run.
\<close>

named_theorems dict_simps \<open>lookup after an update or a deletion in a dictionary\<close>
named_theorems res_simps \<open>inversion of results of fallible code\<close>

section \<open>Results of fallible code\<close>

text \<open>A Python function that may raise returns \<open>Inl\<close> of the exception or \<open>Inr\<close> of its value.\<close>

definition bindE :: "'e + 'a \<Rightarrow> ('a \<Rightarrow> 'e + 'b) \<Rightarrow> 'e + 'b" where
  "bindE m f = (case m of Inl e \<Rightarrow> Inl e | Inr x \<Rightarrow> f x)"

lemma bindE_simps [simp]:
  "bindE (Inl e) f = Inl e"
  "bindE (Inr x) f = f x"
  by (simp_all add: bindE_def)

lemma bindE_Inr [res_simps]: "bindE m f = Inr y \<longleftrightarrow> (\<exists>x. m = Inr x \<and> f x = Inr y)"
  by (cases m) auto

lemma bindE_cong [fundef_cong]:
  "m = m' \<Longrightarrow> (\<And>x. m' = Inr x \<Longrightarrow> f x = f' x) \<Longrightarrow> bindE m f = bindE m' f'"
  by (cases m') auto

text \<open>Running a list of inputs stops at the first exception, as the Python loop does.\<close>

fun runE :: "('s \<Rightarrow> 'i \<Rightarrow> 'e + 's) \<Rightarrow> 's \<Rightarrow> 'i list \<Rightarrow> 'e + 's" where
  "runE f s [] = Inr s"
| "runE f s (x # xs) = bindE (f s x) (\<lambda>s'. runE f s' xs)"

lemma runE_append: "runE f s (xs @ ys) = bindE (runE f s xs) (\<lambda>s'. runE f s' ys)"
  by (induction xs arbitrary: s) (auto simp: bindE_def split: sum.splits)

lemma runE_snoc [res_simps]:
  "runE f s (xs @ [x]) = Inr t \<longleftrightarrow> (\<exists>u. runE f s xs = Inr u \<and> f u x = Inr t)"
  by (auto simp: runE_append res_simps)

text \<open>
  A machine whose steps may fail, with an invariant: the contract between a component's
  operations and everything that runs sequences of them.
\<close>

locale fallible_machine =
  fixes step :: "'s \<Rightarrow> 'i \<Rightarrow> 'e + 's"
    and inv :: "'s \<Rightarrow> bool"
  assumes step_inv: "inv s \<Longrightarrow> step s i = Inr s' \<Longrightarrow> inv s'"
begin

lemma run_inv: "inv s \<Longrightarrow> runE step s is = Inr s' \<Longrightarrow> inv s'"
  by (induction "is" arbitrary: s) (auto simp: res_simps dest: step_inv)

lemma run_step_mono:
  assumes mono: "\<And>s i s'. inv s \<Longrightarrow> step s i = Inr s' \<Longrightarrow> R s s'"
    and refl: "\<And>s. R s s"
    and trans: "\<And>s t u. R s t \<Longrightarrow> R t u \<Longrightarrow> R s u"
  shows "inv s \<Longrightarrow> runE step s is = Inr s' \<Longrightarrow> R s s'"
proof (induction "is" arbitrary: s)
  case Nil
  then show ?case by (simp add: refl)
next
  case (Cons i "is")
  then obtain t where t: "step s i = Inr t" "runE step t is = Inr s'"
    by (auto simp: res_simps)
  with Cons.prems(1) have "inv t" by (blast intro: step_inv)
  with t Cons.IH have "R t s'" by blast
  with mono [OF Cons.prems(1) t(1)] show ?case by (rule trans)
qed

lemma run_prefix:
  "inv s \<Longrightarrow> runE step s (is @ js) = Inr s' \<Longrightarrow>
     \<exists>t. runE step s is = Inr t \<and> inv t \<and> runE step t js = Inr s'"
  by (auto simp: runE_append res_simps dest: run_inv)

end

text \<open>A check applied to an optional argument only when it is given.\<close>

fun opt_all :: "('a \<Rightarrow> bool) \<Rightarrow> 'a option \<Rightarrow> bool" where
  "opt_all P None = True"
| "opt_all P (Some x) = P x"

section \<open>Dictionaries in insertion order\<close>

type_synonym ('k, 'v) dict = "('k \<times> 'v) list"

definition dget :: "('k, 'v) dict \<Rightarrow> 'k \<Rightarrow> 'v option" where
  "dget d k = map_of d k"

definition dset :: "('k, 'v) dict \<Rightarrow> 'k \<Rightarrow> 'v \<Rightarrow> ('k, 'v) dict" where
  "dset d k v = AList.update k v d"

definition ddel :: "('k, 'v) dict \<Rightarrow> 'k \<Rightarrow> ('k, 'v) dict" where
  "ddel d k = filter (\<lambda>p. fst p \<noteq> k) d"

definition dkeys :: "('k, 'v) dict \<Rightarrow> 'k list" where
  "dkeys d = map fst d"

definition dvals :: "('k, 'v) dict \<Rightarrow> 'v list" where
  "dvals d = map snd d"

definition dict_ok :: "('k, 'v) dict \<Rightarrow> bool" where
  "dict_ok d \<longleftrightarrow> distinct (map fst d)"

lemma dget_empty [simp, dict_simps]: "dget [] k = None"
  by (simp add: dget_def)

lemma dget_dset [dict_simps]: "dget (dset d k v) k' = (if k' = k then Some v else dget d k')"
  by (simp add: dget_def dset_def update_conv')

lemma dget_ddel [dict_simps]: "dget (ddel d k) k' = (if k' = k then None else dget d k')"
  by (induction d) (auto simp: dget_def ddel_def)

lemma dict_ok_empty [simp]: "dict_ok []"
  by (simp add: dict_ok_def)

lemma dict_ok_dset [simp, intro]: "dict_ok d \<Longrightarrow> dict_ok (dset d k v)"
  by (simp add: dict_ok_def dset_def distinct_update)

lemma dict_ok_ddel [simp, intro]: "dict_ok d \<Longrightarrow> dict_ok (ddel d k)"
  unfolding dict_ok_def ddel_def by (rule distinct_map_filter)

lemma set_dict_iff: "dict_ok d \<Longrightarrow> (k, v) \<in> set d \<longleftrightarrow> dget d k = Some v"
  by (auto simp: dict_ok_def dget_def intro: map_of_is_SomeI dest: map_of_SomeD)

lemma dgetD: "dget d k = Some v \<Longrightarrow> (k, v) \<in> set d"
  by (simp add: dget_def map_of_SomeD)

lemma dget_in_dvals: "dget d k = Some v \<Longrightarrow> v \<in> set (dvals d)"
  by (force simp: dvals_def dest: dgetD)

lemma dvals_iff: "dict_ok d \<Longrightarrow> v \<in> set (dvals d) \<longleftrightarrow> (\<exists>k. dget d k = Some v)"
  by (force simp: dvals_def set_dict_iff [symmetric])

lemma dkeys_iff: "k \<in> set (dkeys d) \<longleftrightarrow> (\<exists>v. dget d k = Some v)"
  using map_of_eq_None_iff [of d k] by (auto simp: dkeys_def dget_def)

section \<open>Python strings\<close>

text \<open>
  A Python string is modelled by its code points, restricted to the range 0 to 255 of \<open>char\<close>.
  \<open>py_isspace\<close> is \<open>str.isspace\<close> on that range, \<open>py_strip\<close> is \<open>str.strip()\<close>.
\<close>

definition py_isspace :: "char \<Rightarrow> bool" where
  "py_isspace c \<longleftrightarrow> c \<in> set [CHR 0x09, CHR 0x0A, CHR 0x0B, CHR 0x0C, CHR 0x0D, CHR 0x1C, CHR 0x1D,
     CHR 0x1E, CHR 0x1F, CHR 0x20, CHR 0x85, CHR 0xA0]"

definition py_strip :: "string \<Rightarrow> string" where
  "py_strip s = rev (dropWhile py_isspace (rev (dropWhile py_isspace s)))"

text \<open>\<open>str.lower()\<close> on that range.\<close>

definition lower_char :: "char \<Rightarrow> char" where
  "lower_char c = (let n = (of_char c :: nat) in
     if (65 \<le> n \<and> n \<le> 90) \<or> (192 \<le> n \<and> n \<le> 222 \<and> n \<noteq> 215) then char_of (n + 32) else c)"

definition py_lower :: "string \<Rightarrow> string" where
  "py_lower s = map lower_char s"

definition has_nul :: "string \<Rightarrow> bool" where
  "has_nul s \<longleftrightarrow> CHR 0x00 \<in> set s"

definition hex_digit :: "char \<Rightarrow> bool" where
  "hex_digit c \<longleftrightarrow> c \<in> set ''0123456789abcdef''"

text \<open>\<open>_SHA256_RE.fullmatch\<close>: sixty-four lowercase hexadecimal digits.\<close>

definition is_sha256 :: "string \<Rightarrow> bool" where
  "is_sha256 s \<longleftrightarrow> length s = 64 \<and> list_all hex_digit s"

text \<open>The check of \<open>_require_nonempty\<close>: visible text without NUL.\<close>

definition is_nonempty :: "string \<Rightarrow> bool" where
  "is_nonempty s \<longleftrightarrow> py_strip s \<noteq> [] \<and> \<not> has_nul s"

subsection \<open>Zero-padded decimals\<close>

fun nat_digits :: "nat \<Rightarrow> string" where
  "nat_digits n = (if n < 10 then [char_of (48 + n)]
     else nat_digits (n div 10) @ [char_of (48 + n mod 10)])"

declare nat_digits.simps [simp del]

definition pad_zeros :: "nat \<Rightarrow> string \<Rightarrow> string" where
  "pad_zeros w s = replicate (w - length s) (CHR ''0'') @ s"

text \<open>Python's \<open>f"{n:0wd}"\<close>, the sign counting towards the width.\<close>

definition fmt_0d :: "nat \<Rightarrow> int \<Rightarrow> string" where
  "fmt_0d w n = (if n < 0 then CHR ''-'' # pad_zeros (w - 1) (nat_digits (nat (- n)))
     else pad_zeros w (nat_digits (nat n)))"

definition dec_val :: "string \<Rightarrow> nat" where
  "dec_val s = foldl (\<lambda>a c. 10 * a + (of_char c - 48)) 0 s"

lemma dec_val_snoc: "dec_val (s @ [c]) = 10 * dec_val s + (of_char c - 48)"
  by (simp add: dec_val_def)

lemma dec_val_nat_digits: "dec_val (nat_digits n) = n"
proof (induction n rule: nat_digits.induct)
  case (1 n)
  show ?case
  proof (cases "n < 10")
    case True
    then show ?thesis by (simp add: nat_digits.simps [of n] dec_val_def)
  next
    case False
    then have "dec_val (nat_digits n) = 10 * dec_val (nat_digits (n div 10)) + n mod 10"
      by (simp add: nat_digits.simps [of n] dec_val_snoc)
    with False "1.IH" show ?thesis by simp
  qed
qed

lemma dec_val_replicate_zero: "dec_val (replicate k (CHR ''0'') @ s) = dec_val s"
proof -
  have "foldl (\<lambda>a c. 10 * a + (of_char c - 48)) (0::nat) (replicate k (CHR ''0'')) = 0"
    by (induction k) simp_all
  then show ?thesis by (simp add: dec_val_def)
qed

lemma dec_val_fmt_0d: "0 \<le> n \<Longrightarrow> int (dec_val (fmt_0d w n)) = n"
  by (simp add: fmt_0d_def pad_zeros_def dec_val_replicate_zero dec_val_nat_digits)

lemma fmt_0d_inject: "0 \<le> m \<Longrightarrow> 0 \<le> n \<Longrightarrow> fmt_0d w m = fmt_0d w n \<longleftrightarrow> m = n"
  by (metis dec_val_fmt_0d)

section \<open>JSON values\<close>

text \<open>
  Values the repository keeps as canonical JSON. A Python float is a rational or one of the three
  non-finite values; an object is an association list, kept sorted by key, as
  \<open>json.dumps(sort_keys=True)\<close> writes it.
\<close>

datatype pyfloat = Fin rat | PInf | NInf | NaN

fun isfinite :: "pyfloat \<Rightarrow> bool" where
  "isfinite (Fin _) = True"
| "isfinite _ = False"

datatype json = JNull | JBool bool | JInt int | JFloat pyfloat | JStr string
  | JList "json list" | JObj "(string \<times> json) list"

type_synonym jobj = "(string \<times> json) list"

fun jfinite :: "json \<Rightarrow> bool" where
  "jfinite (JFloat f) = isfinite f"
| "jfinite (JList xs) = list_all jfinite xs"
| "jfinite (JObj kvs) = list_all (\<lambda>(k, v). jfinite v) kvs"
| "jfinite _ = True"

fun jnorm :: "json \<Rightarrow> json" where
  "jnorm (JList xs) = JList (map jnorm xs)"
| "jnorm (JObj kvs) = JObj (sort_key fst (map (\<lambda>(k, v). (k, jnorm v)) kvs))"
| "jnorm j = j"

text \<open>
  Python's \<open>==\<close> on such values: booleans, integers and floats compare by value, lists pointwise,
  objects key by key (both sides sorted).
\<close>

fun num_of :: "json \<Rightarrow> rat option" where
  "num_of (JBool b) = Some (if b then 1 else 0)"
| "num_of (JInt i) = Some (of_int i)"
| "num_of (JFloat (Fin r)) = Some r"
| "num_of _ = None"

fun py_eq :: "json \<Rightarrow> json \<Rightarrow> bool"
  and py_eq_list :: "json list \<Rightarrow> json list \<Rightarrow> bool"
  and py_eq_obj :: "jobj \<Rightarrow> jobj \<Rightarrow> bool" where
  "py_eq a b = (case a of
     JNull \<Rightarrow> b = JNull
   | JStr s \<Rightarrow> b = JStr s
   | JList xs \<Rightarrow> (case b of JList ys \<Rightarrow> py_eq_list xs ys | _ \<Rightarrow> False)
   | JObj xs \<Rightarrow> (case b of JObj ys \<Rightarrow> py_eq_obj xs ys | _ \<Rightarrow> False)
   | _ \<Rightarrow> (case (num_of a, num_of b) of (Some x, Some y) \<Rightarrow> x = y | _ \<Rightarrow> a = b \<and> a \<noteq> JFloat NaN))"
| "py_eq_list [] [] = True"
| "py_eq_list (x # xs) (y # ys) = (py_eq x y \<and> py_eq_list xs ys)"
| "py_eq_list _ _ = False"
| "py_eq_obj [] [] = True"
| "py_eq_obj ((k, x) # xs) ((l, y) # ys) = (k = l \<and> py_eq x y \<and> py_eq_obj xs ys)"
| "py_eq_obj _ _ = False"

declare py_eq.simps [simp del]

text \<open>Access to a JSON object: \<open>d.get(key)\<close> reads an absent key as \<open>None\<close>.\<close>

definition jget :: "jobj \<Rightarrow> string \<Rightarrow> json" where
  "jget p k = (case map_of p k of None \<Rightarrow> JNull | Some v \<Rightarrow> v)"

definition jhas :: "jobj \<Rightarrow> string \<Rightarrow> bool" where
  "jhas p k \<longleftrightarrow> k \<in> fst ` set p"

fun jset :: "jobj \<Rightarrow> string \<Rightarrow> json \<Rightarrow> jobj" where
  "jset [] k v = [(k, v)]"
| "jset ((l, w) # p) k v = (if k < l then (k, v) # (l, w) # p
     else if k = l then (k, v) # p else (l, w) # jset p k v)"

definition jcanon :: "jobj \<Rightarrow> jobj option" where
  "jcanon p = (if jfinite (JObj p)
     then (case jnorm (JObj p) of JObj q \<Rightarrow> Some q | _ \<Rightarrow> None) else None)"

lemma jget_jset: "jget (jset p k v) l = (if l = k then v else jget p l)"
  by (induction p k v rule: jset.induct) (auto simp: jget_def)

lemma jhas_jset: "jhas (jset p k v) l \<longleftrightarrow> l = k \<or> jhas p l"
  by (induction p k v rule: jset.induct) (auto simp: jhas_def)

lemma py_eq_list_refl: "(\<And>x. x \<in> set xs \<Longrightarrow> py_eq x x) \<Longrightarrow> py_eq_list xs xs"
  by (induction xs) auto

lemma py_eq_obj_refl: "(\<And>x. x \<in> snd ` set p \<Longrightarrow> py_eq x x) \<Longrightarrow> py_eq_obj p p"
  by (induction p) auto

lemma py_eq_refl: "jfinite a \<Longrightarrow> py_eq a a"
proof (induction a)
  case (JFloat f)
  then show ?case by (cases f) (auto simp: py_eq.simps)
next
  case (JList xs)
  then have "py_eq_list xs xs" by (auto simp: list_all_iff intro: py_eq_list_refl)
  then show ?case by (simp add: py_eq.simps)
next
  case (JObj p)
  then have "py_eq_obj p p" by (fastforce simp: list_all_iff intro: py_eq_obj_refl)
  then show ?case by (simp add: py_eq.simps)
qed (simp_all add: py_eq.simps)

lemma sort_key_sorted: "sorted (map f xs) \<Longrightarrow> sort_key f xs = xs"
  by (induction xs) (auto intro: insort_is_Cons)

lemma jnorm_idem: "jnorm (jnorm v) = jnorm v"
proof (induction v)
  case (JObj kvs)
  let ?ys = "sort_key fst (map (\<lambda>(k, v). (k, jnorm v)) kvs)"
  have "map (\<lambda>(k, v). (k, jnorm v)) ?ys = ?ys"
    by (rule map_idI) (use JObj in fastforce)
  then show ?case by (simp add: sort_key_sorted)
qed auto

lemma jfinite_jnorm [simp]: "jfinite (jnorm v) = jfinite v"
proof (induction v)
  case (JObj kvs)
  then show ?case by (fastforce simp: list_all_iff)
qed (auto simp: list_all_iff)

lemma jcanon_idem:
  assumes "jcanon p = Some q"
  shows "jcanon q = Some q"
proof -
  from assms have q: "jnorm (JObj p) = JObj q" "jfinite (JObj p)"
    by (auto simp: jcanon_def split: if_splits)
  have "jfinite (JObj q)" using jfinite_jnorm [of "JObj p"] q(2) unfolding q(1) by (rule iffD2)
  moreover have "jnorm (JObj q) = JObj q" using jnorm_idem [of "JObj p"] unfolding q(1) .
  ultimately show ?thesis unfolding jcanon_def by (simp only: if_True json.case)
qed

section \<open>Normal forms of JSON values\<close>

text \<open>\<open>_unique_object\<close>: a decoded object may not name a key twice, at any depth.\<close>

fun unique_object :: "json \<Rightarrow> bool" where
  "unique_object (JList xs) = list_all unique_object xs"
| "unique_object (JObj kvs) = (distinct (map fst kvs) \<and> list_all (\<lambda>(k, v). unique_object v) kvs)"
| "unique_object _ = True"

lemma distinct_map_sort_key: "distinct (map f (sort_key g xs)) = distinct (map f xs)"
  by (simp add: distinct_map)

lemma map_fst_norm: "map fst (map (\<lambda>(k, v). (k, jnorm v)) kvs) = map fst kvs"
  by (induction kvs) auto

lemma unique_object_jnorm [simp]: "unique_object (jnorm v) = unique_object v"
proof (induction v)
  case (JObj kvs)
  let ?xs = "map (\<lambda>(k, v). (k, jnorm v)) kvs"
  have "distinct (map fst (sort_key fst ?xs)) = distinct (map fst ?xs)"
    by (rule distinct_map_sort_key)
  also have "map fst ?xs = map fst kvs" by (rule map_fst_norm)
  finally have "distinct (map fst (sort_key fst ?xs)) = distinct (map fst kvs)" .
  with JObj show ?case by (fastforce simp: list_all_iff)
qed (auto simp: list_all_iff)

text \<open>A payload in the form the registry keeps: finite numbers, unique and sorted keys.\<close>

definition payload_ok :: "jobj \<Rightarrow> bool" where
  "payload_ok p \<longleftrightarrow> jfinite (JObj p) \<and> unique_object (JObj p) \<and> jnorm (JObj p) = JObj p"

lemma jcanon_payload_ok:
  assumes "jcanon p = Some q" "unique_object (JObj p)"
  shows "payload_ok q"
proof -
  from assms(1) have q: "jnorm (JObj p) = JObj q" "jfinite (JObj p)"
    by (auto simp: jcanon_def split: if_splits)
  from q(1) have "jfinite (JObj q) = jfinite (JObj p)" "unique_object (JObj q) = unique_object (JObj p)"
    "jnorm (JObj q) = JObj q"
    using jfinite_jnorm [of "JObj p"] unique_object_jnorm [of "JObj p"] jnorm_idem [of "JObj p"]
    by presburger+
  with q(2) assms(2) show ?thesis by (simp add: payload_ok_def)
qed

lemma payload_ok_jcanon [simp]: "payload_ok p \<Longrightarrow> jcanon p = Some p"
  by (simp add: payload_ok_def jcanon_def)

lemma payload_ok_iff:
  "payload_ok p \<longleftrightarrow> sorted_wrt (<) (map fst p)
     \<and> (\<forall>v \<in> snd ` set p. jfinite v \<and> unique_object v \<and> jnorm v = v)"
proof -
  have "jnorm (JObj p) = JObj p \<longleftrightarrow> sorted (map fst p) \<and> (\<forall>v \<in> snd ` set p. jnorm v = v)"
  proof
    assume l: "jnorm (JObj p) = JObj p"
    then have s: "sort_key fst (map (\<lambda>(k, v). (k, jnorm v)) p) = p" by simp
    then have "sorted (map fst p)" by (metis sorted_sort_key)
    moreover from this have "map (\<lambda>(k, v). (k, jnorm v)) p = p"
      using s by (subst (asm) sort_key_sorted) (simp_all only: map_fst_norm)
    then have "\<forall>v \<in> snd ` set p. jnorm v = v" by (auto simp: map_idI list_eq_iff_nth_eq in_set_conv_nth split: prod.splits) (metis snd_conv)
    ultimately show "sorted (map fst p) \<and> (\<forall>v \<in> snd ` set p. jnorm v = v)" by blast
  next
    assume r: "sorted (map fst p) \<and> (\<forall>v \<in> snd ` set p. jnorm v = v)"
    then have "map (\<lambda>(k, v). (k, jnorm v)) p = p" by (intro map_idI) force
    with r show "jnorm (JObj p) = JObj p" by (simp add: sort_key_sorted)
  qed
  then show ?thesis
    by (auto simp: payload_ok_def strict_sorted_iff list_all_iff)
qed

lemma payload_ok_Nil [simp]: "payload_ok []"
  by (simp add: payload_ok_def)

lemma jset_keys: "fst ` set (jset p k v) = insert k (fst ` set p)"
  by (induction p k v rule: jset.induct) auto

lemma jset_vals: "snd ` set (jset p k v) \<subseteq> insert v (snd ` set p)"
  by (induction p k v rule: jset.induct) auto

lemma jset_sorted: "sorted_wrt (<) (map fst p) \<Longrightarrow> sorted_wrt (<) (map fst (jset p k v))"
proof (induction p k v rule: jset.induct)
  case (2 l w p k v)
  have "set (map fst (jset p k v)) = insert k (set (map fst p))"
    using jset_keys [of p k v] by simp
  with 2 show ?case by auto
qed simp

lemma payload_ok_jset:
  assumes "payload_ok p" "jfinite v" "unique_object v" "jnorm v = v"
  shows "payload_ok (jset p k v)"
  using assms jset_sorted [of p k v] jset_vals [of p k v] unfolding payload_ok_iff by blast

definition newline :: string where
  "newline = [char_of (10 :: nat)]"

end
