(* ===== verification/Promotion_Events.thy ===== *)
theory Promotion_Events
  imports Kata_Prelude "HOL-Library.Monad_Syntax"
begin

text \<open>
  Lifecycle events of the checkpoint-promotion controller
  (\<^verbatim>\<open>src/python/risk_score/promotion_state.py\<close>): the state enumerations and their transition
  tables, the hash-chained event record, its canonical JSON body, its verification, construction
  and parsing.
\<close>

section \<open>States and transition tables\<close>

datatype CandidateState = DISCOVERED | CLAIMED | SUPERSEDED | EVALUATING_INTEGRITY
  | EVALUATING_SCREEN | EVALUATING_FINALIST | EVALUATING_CONFIRMATION | REJECTED
  | C_QUARANTINED | CONFIRMED

datatype GenerationState = PROMOTION_INTENT | CANARY | ROLLOUT | ACTIVE | ROLLBACK_PENDING
  | ROLLED_BACK | G_QUARANTINED

datatype Transition = CHAMPION_BOOTSTRAPPED | CANDIDATE_DISCOVERED | CANDIDATE_CLAIMED
  | CANDIDATE_SUPERSEDED | EVALUATION_INTEGRITY_STARTED | EVALUATION_SCREEN_STARTED
  | EVALUATION_FINALIST_STARTED | EVALUATION_CONFIRMATION_STARTED | CANDIDATE_REJECTED
  | CANDIDATE_QUARANTINED | CANDIDATE_CONFIRMED | GENERATION_PROMOTION_INTENT
  | GENERATION_CANARY_STARTED | GENERATION_ROLLOUT_STARTED | GENERATION_ACTIVATED
  | GENERATION_ROLLBACK_STARTED | GENERATION_ROLLED_BACK | GENERATION_QUARANTINED
  | REFERENCE_PINNED | REFERENCE_UNPINNED

definition transition_table :: "(Transition \<times> string) list" where
  "transition_table =
    [(CHAMPION_BOOTSTRAPPED, ''champion.bootstrapped''),
     (CANDIDATE_DISCOVERED, ''candidate.discovered''),
     (CANDIDATE_CLAIMED, ''candidate.claimed''),
     (CANDIDATE_SUPERSEDED, ''candidate.superseded''),
     (EVALUATION_INTEGRITY_STARTED, ''evaluation.integrity_started''),
     (EVALUATION_SCREEN_STARTED, ''evaluation.screen_started''),
     (EVALUATION_FINALIST_STARTED, ''evaluation.finalist_started''),
     (EVALUATION_CONFIRMATION_STARTED, ''evaluation.confirmation_started''),
     (CANDIDATE_REJECTED, ''candidate.rejected''),
     (CANDIDATE_QUARANTINED, ''candidate.quarantined''),
     (CANDIDATE_CONFIRMED, ''candidate.confirmed''),
     (GENERATION_PROMOTION_INTENT, ''generation.promotion_intent''),
     (GENERATION_CANARY_STARTED, ''generation.canary_started''),
     (GENERATION_ROLLOUT_STARTED, ''generation.rollout_started''),
     (GENERATION_ACTIVATED, ''generation.activated''),
     (GENERATION_ROLLBACK_STARTED, ''generation.rollback_started''),
     (GENERATION_ROLLED_BACK, ''generation.rolled_back''),
     (GENERATION_QUARANTINED, ''generation.quarantined''),
     (REFERENCE_PINNED, ''reference.pinned''),
     (REFERENCE_UNPINNED, ''reference.unpinned'')]"

definition transition_value :: "Transition \<Rightarrow> string" where
  "transition_value t = the (map_of transition_table t)"

definition transition_of :: "string \<Rightarrow> Transition option" where
  "transition_of s = map_of (map (\<lambda>(t, v). (v, t)) transition_table) s"

lemma transition_of_value [simp]: "transition_of (transition_value t) = Some t"
  by (cases t) (simp_all add: transition_of_def transition_value_def transition_table_def)

fun candidate_target :: "Transition \<Rightarrow> CandidateState option" where
  "candidate_target CANDIDATE_DISCOVERED = Some DISCOVERED"
| "candidate_target CANDIDATE_CLAIMED = Some CLAIMED"
| "candidate_target CANDIDATE_SUPERSEDED = Some SUPERSEDED"
| "candidate_target EVALUATION_INTEGRITY_STARTED = Some EVALUATING_INTEGRITY"
| "candidate_target EVALUATION_SCREEN_STARTED = Some EVALUATING_SCREEN"
| "candidate_target EVALUATION_FINALIST_STARTED = Some EVALUATING_FINALIST"
| "candidate_target EVALUATION_CONFIRMATION_STARTED = Some EVALUATING_CONFIRMATION"
| "candidate_target CANDIDATE_REJECTED = Some REJECTED"
| "candidate_target CANDIDATE_QUARANTINED = Some C_QUARANTINED"
| "candidate_target CANDIDATE_CONFIRMED = Some CONFIRMED"
| "candidate_target _ = None"

fun state_to_candidate_transition :: "CandidateState \<Rightarrow> Transition" where
  "state_to_candidate_transition DISCOVERED = CANDIDATE_DISCOVERED"
| "state_to_candidate_transition CLAIMED = CANDIDATE_CLAIMED"
| "state_to_candidate_transition SUPERSEDED = CANDIDATE_SUPERSEDED"
| "state_to_candidate_transition EVALUATING_INTEGRITY = EVALUATION_INTEGRITY_STARTED"
| "state_to_candidate_transition EVALUATING_SCREEN = EVALUATION_SCREEN_STARTED"
| "state_to_candidate_transition EVALUATING_FINALIST = EVALUATION_FINALIST_STARTED"
| "state_to_candidate_transition EVALUATING_CONFIRMATION = EVALUATION_CONFIRMATION_STARTED"
| "state_to_candidate_transition REJECTED = CANDIDATE_REJECTED"
| "state_to_candidate_transition C_QUARANTINED = CANDIDATE_QUARANTINED"
| "state_to_candidate_transition CONFIRMED = CANDIDATE_CONFIRMED"

fun generation_target :: "Transition \<Rightarrow> GenerationState option" where
  "generation_target GENERATION_PROMOTION_INTENT = Some PROMOTION_INTENT"
| "generation_target GENERATION_CANARY_STARTED = Some CANARY"
| "generation_target GENERATION_ROLLOUT_STARTED = Some ROLLOUT"
| "generation_target GENERATION_ACTIVATED = Some ACTIVE"
| "generation_target GENERATION_ROLLBACK_STARTED = Some ROLLBACK_PENDING"
| "generation_target GENERATION_ROLLED_BACK = Some ROLLED_BACK"
| "generation_target GENERATION_QUARANTINED = Some G_QUARANTINED"
| "generation_target _ = None"

fun state_to_generation_transition :: "GenerationState \<Rightarrow> Transition" where
  "state_to_generation_transition PROMOTION_INTENT = GENERATION_PROMOTION_INTENT"
| "state_to_generation_transition CANARY = GENERATION_CANARY_STARTED"
| "state_to_generation_transition ROLLOUT = GENERATION_ROLLOUT_STARTED"
| "state_to_generation_transition ACTIVE = GENERATION_ACTIVATED"
| "state_to_generation_transition ROLLBACK_PENDING = GENERATION_ROLLBACK_STARTED"
| "state_to_generation_transition ROLLED_BACK = GENERATION_ROLLED_BACK"
| "state_to_generation_transition G_QUARANTINED = GENERATION_QUARANTINED"

fun legal_candidate :: "CandidateState \<Rightarrow> CandidateState list" where
  "legal_candidate DISCOVERED = [CLAIMED, SUPERSEDED, C_QUARANTINED]"
| "legal_candidate CLAIMED = [SUPERSEDED, EVALUATING_INTEGRITY, C_QUARANTINED]"
| "legal_candidate EVALUATING_INTEGRITY = [EVALUATING_SCREEN, SUPERSEDED, REJECTED, C_QUARANTINED]"
| "legal_candidate EVALUATING_SCREEN = [EVALUATING_FINALIST, SUPERSEDED, REJECTED, C_QUARANTINED]"
| "legal_candidate EVALUATING_FINALIST =
     [EVALUATING_CONFIRMATION, SUPERSEDED, REJECTED, C_QUARANTINED]"
| "legal_candidate EVALUATING_CONFIRMATION =
     [EVALUATING_CONFIRMATION, CONFIRMED, REJECTED, C_QUARANTINED]"
| "legal_candidate SUPERSEDED = []"
| "legal_candidate REJECTED = []"
| "legal_candidate C_QUARANTINED = []"
| "legal_candidate CONFIRMED = []"

fun legal_generation :: "GenerationState \<Rightarrow> GenerationState list" where
  "legal_generation PROMOTION_INTENT = [CANARY, ROLLBACK_PENDING, G_QUARANTINED]"
| "legal_generation CANARY = [ROLLOUT, ROLLBACK_PENDING, G_QUARANTINED]"
| "legal_generation ROLLOUT = [ACTIVE, ROLLBACK_PENDING, G_QUARANTINED]"
| "legal_generation ACTIVE = [ROLLBACK_PENDING]"
| "legal_generation ROLLBACK_PENDING = [ROLLED_BACK, G_QUARANTINED]"
| "legal_generation ROLLED_BACK = []"
| "legal_generation G_QUARANTINED = []"

definition evaluating_states :: "CandidateState list" where
  "evaluating_states =
     [EVALUATING_INTEGRITY, EVALUATING_SCREEN, EVALUATING_FINALIST, EVALUATING_CONFIRMATION]"

lemma candidate_target_state [simp]:
  "candidate_target (state_to_candidate_transition s) = Some s"
  by (cases s) simp_all

lemma generation_target_state [simp]:
  "generation_target (state_to_generation_transition s) = Some s"
  by (cases s) simp_all

lemma targets_disjoint: "candidate_target t = Some s \<Longrightarrow> generation_target t = None"
  by (cases t) simp_all

section \<open>The event record\<close>

datatype perror = RegistryCorruptionError | IllegalTransitionError | EventConflictError
  | ChampionConflictError | StaleChampionError | PassReportError | ValueErrorP
  | NotADirectoryError | FileNotFoundErrorP

text \<open>
  What the module takes from its environment: SHA-256 of a byte string; the compact encoding and
  the decoding of the \<^verbatim>\<open>json\<close> package (UTF-8 on both sides; decoded objects list their members
  in textual order, the constants \<^verbatim>\<open>NaN\<close> and \<^verbatim>\<open>Infinity\<close> already refused); the acceptance test
  of \<^verbatim>\<open>datetime.fromisoformat\<close> for a UTC time stamp; and the current time.
\<close>

record promo_env =
  sha256_bytes :: "string \<Rightarrow> string"
  dumps :: "json \<Rightarrow> string"
  loads :: "string \<Rightarrow> json option"
  fromisoformat_ok :: "string \<Rightarrow> bool"
  utc_now :: string

definition canonical_sha256 :: "promo_env \<Rightarrow> json \<Rightarrow> string" where
  "canonical_sha256 env v = sha256_bytes env (dumps env v)"

record provenance =
  controller_hash :: string
  source_hash :: string
  original_hash :: string
  config_hash :: string
  schedule_hash :: string
  policy_hash :: string

definition provenance_ok :: "provenance \<Rightarrow> bool" where
  "provenance_ok p \<longleftrightarrow> is_sha256 (controller_hash p) \<and> is_sha256 (source_hash p)
     \<and> is_sha256 (original_hash p) \<and> is_sha256 (config_hash p)
     \<and> is_sha256 (schedule_hash p) \<and> is_sha256 (policy_hash p)"

record event =
  ev_schema_version :: int
  ev_sequence :: int
  ev_previous_hash :: string
  ev_timestamp_utc :: string
  ev_prov :: provenance
  ev_candidate_hash :: "string option"
  ev_candidate_path :: "string option"
  ev_champion_hash :: string
  ev_transition :: Transition
  ev_evaluation_key :: "string option"
  ev_reason :: string
  ev_actor :: string
  ev_payload :: jobj
  ev_event_hash :: string

definition EVENT_SCHEMA_VERSION :: int where
  "EVENT_SCHEMA_VERSION = 1"

definition EVENT_SEQUENCE_WIDTH :: nat where
  "EVENT_SEQUENCE_WIDTH = 20"

definition GENESIS_HASH :: string where
  "GENESIS_HASH = replicate 64 (CHR ''0'')"

definition MAX_JSON_BYTES :: int where
  "MAX_JSON_BYTES = 64 * 1024 * 1024"

fun jopt :: "string option \<Rightarrow> json" where
  "jopt None = JNull"
| "jopt (Some s) = JStr s"

definition body_dict :: "event \<Rightarrow> jobj" where
  "body_dict e =
    [(''actor'', JStr (ev_actor e)),
     (''candidate_hash'', jopt (ev_candidate_hash e)),
     (''candidate_path'', jopt (ev_candidate_path e)),
     (''champion_hash'', JStr (ev_champion_hash e)),
     (''config_hash'', JStr (config_hash (ev_prov e))),
     (''controller_hash'', JStr (controller_hash (ev_prov e))),
     (''evaluation_key'', jopt (ev_evaluation_key e)),
     (''original_hash'', JStr (original_hash (ev_prov e))),
     (''payload'', JObj (ev_payload e)),
     (''policy_hash'', JStr (policy_hash (ev_prov e))),
     (''previous_hash'', JStr (ev_previous_hash e)),
     (''reason'', JStr (ev_reason e)),
     (''schedule_hash'', JStr (schedule_hash (ev_prov e))),
     (''schema_version'', JInt (ev_schema_version e)),
     (''sequence'', JInt (ev_sequence e)),
     (''source_hash'', JStr (source_hash (ev_prov e))),
     (''timestamp_utc'', JStr (ev_timestamp_utc e)),
     (''transition'', JStr (transition_value (ev_transition e)))]"

definition event_to_dict :: "event \<Rightarrow> jobj" where
  "event_to_dict e = jset (body_dict e) ''event_hash'' (JStr (ev_event_hash e))"

definition valid_utc_timestamp :: "promo_env \<Rightarrow> string \<Rightarrow> bool" where
  "valid_utc_timestamp env s \<longleftrightarrow>
     s \<noteq> [] \<and> last s = CHR ''Z'' \<and> fromisoformat_ok env (butlast s @ ''+00:00'')"

definition event_verify :: "promo_env \<Rightarrow> event \<Rightarrow> perror + unit" where
  "event_verify env e =
    (if ev_schema_version e \<noteq> EVENT_SCHEMA_VERSION then Inl RegistryCorruptionError
     else if ev_sequence e < 1 then Inl RegistryCorruptionError
     else if ev_sequence e \<ge> 10 ^ EVENT_SEQUENCE_WIDTH then Inl RegistryCorruptionError
     else if \<not> is_sha256 (ev_previous_hash e) then Inl RegistryCorruptionError
     else if \<not> valid_utc_timestamp env (ev_timestamp_utc e) then Inl RegistryCorruptionError
     else if \<not> provenance_ok (ev_prov e) then Inl RegistryCorruptionError
     else if \<not> is_sha256 (ev_champion_hash e) then Inl RegistryCorruptionError
     else if \<not> is_sha256 (ev_event_hash e) then Inl RegistryCorruptionError
     else if \<not> is_nonempty (ev_reason e) \<or> \<not> is_nonempty (ev_actor e)
       then Inl RegistryCorruptionError
     else if \<not> opt_all is_nonempty (ev_evaluation_key e) then Inl RegistryCorruptionError
     else if (ev_candidate_hash e = None) \<noteq> (ev_candidate_path e = None)
       then Inl RegistryCorruptionError
     else if \<not> opt_all is_sha256 (ev_candidate_hash e)
         \<or> \<not> opt_all is_nonempty (ev_candidate_path e) then Inl RegistryCorruptionError
     else if jcanon (ev_payload e) = None then Inl RegistryCorruptionError
     else if ev_event_hash e \<noteq> canonical_sha256 env (JObj (body_dict e))
       then Inl RegistryCorruptionError
     else Inr ())"

text \<open>\<open>PromotionEvent.build\<close>: assemble the body, hash it, verify the result.\<close>

definition event_build :: "promo_env \<Rightarrow> int \<Rightarrow> string \<Rightarrow> string \<Rightarrow> provenance \<Rightarrow> string option
    \<Rightarrow> string option \<Rightarrow> string \<Rightarrow> Transition \<Rightarrow> string option \<Rightarrow> string \<Rightarrow> string \<Rightarrow> jobj
    \<Rightarrow> perror + event" where
  "event_build env seq prev ts prov ch cp champ tr ek reason actor payload =
    (case jcanon payload of None \<Rightarrow> Inl ValueErrorP
     | Some p \<Rightarrow>
       let e0 = \<lparr>ev_schema_version = EVENT_SCHEMA_VERSION, ev_sequence = seq,
              ev_previous_hash = prev, ev_timestamp_utc = ts, ev_prov = prov,
              ev_candidate_hash = ch, ev_candidate_path = cp, ev_champion_hash = champ,
              ev_transition = tr, ev_evaluation_key = ek, ev_reason = reason,
              ev_actor = actor, ev_payload = p, ev_event_hash = []\<rparr>;
           e = e0\<lparr>ev_event_hash := canonical_sha256 env (JObj (body_dict e0))\<rparr>
       in bindE (event_verify env e) (\<lambda>_. Inr e))"

fun as_str :: "json \<Rightarrow> string option" where
  "as_str (JStr s) = Some s"
| "as_str _ = None"

fun as_opt_str :: "json \<Rightarrow> string option option" where
  "as_opt_str JNull = Some None"
| "as_opt_str (JStr s) = Some (Some s)"
| "as_opt_str _ = None"

fun as_int :: "json \<Rightarrow> int option" where
  "as_int (JInt i) = Some i"
| "as_int _ = None"

text \<open>\<open>_copy_json_object\<close> on a decoded payload: a missing object counts as empty.\<close>

fun as_payload :: "json \<Rightarrow> jobj option" where
  "as_payload JNull = Some []"
| "as_payload (JObj p) = jcanon p"
| "as_payload _ = None"

definition event_fields :: "string list" where
  "event_fields = [''schema_version'', ''sequence'', ''previous_hash'', ''timestamp_utc'',
     ''controller_hash'', ''source_hash'', ''candidate_hash'', ''candidate_path'',
     ''champion_hash'', ''original_hash'', ''transition'', ''evaluation_key'', ''config_hash'',
     ''schedule_hash'', ''policy_hash'', ''reason'', ''actor'', ''payload'', ''event_hash'']"

definition event_of_fields :: "jobj \<Rightarrow> event option" where
  "event_of_fields p = do {
     tr \<leftarrow> Option.bind (as_str (jget p ''transition'')) transition_of;
     sv \<leftarrow> as_int (jget p ''schema_version'');
     sq \<leftarrow> as_int (jget p ''sequence'');
     prev \<leftarrow> as_str (jget p ''previous_hash'');
     ts \<leftarrow> as_str (jget p ''timestamp_utc'');
     ctl \<leftarrow> as_str (jget p ''controller_hash'');
     src \<leftarrow> as_str (jget p ''source_hash'');
     champ \<leftarrow> as_str (jget p ''champion_hash'');
     orig \<leftarrow> as_str (jget p ''original_hash'');
     cfg \<leftarrow> as_str (jget p ''config_hash'');
     sch \<leftarrow> as_str (jget p ''schedule_hash'');
     pol \<leftarrow> as_str (jget p ''policy_hash'');
     eh \<leftarrow> as_str (jget p ''event_hash'');
     reason \<leftarrow> as_str (jget p ''reason'');
     actor \<leftarrow> as_str (jget p ''actor'');
     ek \<leftarrow> as_opt_str (jget p ''evaluation_key'');
     ch \<leftarrow> as_opt_str (jget p ''candidate_hash'');
     cp \<leftarrow> as_opt_str (jget p ''candidate_path'');
     pl \<leftarrow> as_payload (jget p ''payload'');
     Some \<lparr>ev_schema_version = sv, ev_sequence = sq, ev_previous_hash = prev,
       ev_timestamp_utc = ts,
       ev_prov = \<lparr>controller_hash = ctl, source_hash = src, original_hash = orig,
          config_hash = cfg, schedule_hash = sch, policy_hash = pol\<rparr>,
       ev_candidate_hash = ch, ev_candidate_path = cp, ev_champion_hash = champ,
       ev_transition = tr, ev_evaluation_key = ek, ev_reason = reason, ev_actor = actor,
       ev_payload = pl, ev_event_hash = eh\<rparr> }"

definition event_from_dict :: "promo_env \<Rightarrow> json \<Rightarrow> perror + event" where
  "event_from_dict env v =
    (case v of JObj p \<Rightarrow>
       if set (map fst p) \<noteq> set event_fields then Inl RegistryCorruptionError
       else (case event_of_fields p of None \<Rightarrow> Inl RegistryCorruptionError
             | Some e \<Rightarrow> bindE (event_verify env e) (\<lambda>_. Inr e))
     | _ \<Rightarrow> Inl RegistryCorruptionError)"

end
