(* ===== verification/Promotion_Builder.thy ===== *)
theory Promotion_Builder
  imports Promotion_Events
begin

text \<open>
  The in-memory projection of the promotion registry: \<^verbatim>\<open>_RegistryBuilder\<close> of
  \<^verbatim>\<open>src/python/risk_score/promotion_state.py\<close>, which replays the immutable event log, one
  definition per method, and the retention queries of \<^verbatim>\<open>RegistryState\<close>.
\<close>

record candidate_record =
  cr_candidate_hash :: string
  cr_candidate_path :: string
  cr_state :: CandidateState
  cr_parent_champion_hash :: string
  cr_tested_champion_hash :: "string option"
  cr_evaluation_key :: "string option"
  cr_generation_id :: "string option"
  cr_last_sequence :: int

record generation_record =
  gr_generation_id :: string
  gr_candidate_hash :: string
  gr_candidate_path :: "string option"
  gr_previous_champion_hash :: "string option"
  gr_evaluation_key :: "string option"
  gr_state :: GenerationState
  gr_restore_champion_hash :: "string option"
  gr_last_sequence :: int

record reference_pin =
  pin_id :: string
  pin_reference_hash :: string
  pin_kind :: string
  pin_owner :: string
  pin_reason :: string
  pin_created_sequence :: int

record builder =
  b_candidates :: "(string, candidate_record) dict"
  b_generations :: "(string, generation_record) dict"
  b_pins :: "(string, reference_pin) dict"
  b_champion :: "string option"
  b_generation_id :: "string option"
  b_original_hash :: "string option"
  b_path_to_hash :: "(string, string) dict"
  b_seen_pin_ids :: "string list"

definition builder_init :: builder where
  "builder_init = \<lparr>b_candidates = [], b_generations = [], b_pins = [], b_champion = None,
     b_generation_id = None, b_original_hash = None, b_path_to_hash = [], b_seen_pin_ids = []\<rparr>"

section \<open>Replay of one event\<close>

text \<open>Reading a required text or hash field of the payload.\<close>

definition require_nonempty :: "json \<Rightarrow> perror + string" where
  "require_nonempty v = (case v of
     JStr s \<Rightarrow> if is_nonempty s then Inr s else Inl IllegalTransitionError
   | _ \<Rightarrow> Inl IllegalTransitionError)"

definition require_sha256 :: "json \<Rightarrow> perror + string" where
  "require_sha256 v = (case v of
     JStr s \<Rightarrow> if is_sha256 s then Inr s else Inl IllegalTransitionError
   | _ \<Rightarrow> Inl IllegalTransitionError)"

definition event_generation_id :: "event \<Rightarrow> perror + string" where
  "event_generation_id e = require_nonempty (jget (ev_payload e) ''generation_id'')"

definition event_restore_hash :: "event \<Rightarrow> perror + string" where
  "event_restore_hash e = require_sha256 (jget (ev_payload e) ''restore_champion_hash'')"

text \<open>
  \<open>_validate_candidate_identity\<close>: a path names one hash for ever, and a hash moves to a new path
  only by an event that names the old one. Returns the candidate's hash and path as well.
\<close>

definition validate_candidate_identity :: "builder \<Rightarrow> event \<Rightarrow> perror + (builder \<times> string \<times> string)" where
  "validate_candidate_identity b e =
    (case (ev_candidate_hash e, ev_candidate_path e) of
       (Some ch, Some cp) \<Rightarrow>
         (let prev = jget (ev_payload e) ''previous_candidate_path'';
              ok = Inr (b\<lparr>b_path_to_hash := dset (b_path_to_hash b) cp ch\<rparr>, ch, cp) in
          if (case dget (b_path_to_hash b) cp of None \<Rightarrow> False | Some h \<Rightarrow> h \<noteq> ch)
            then Inl RegistryCorruptionError
          else (case dget (b_candidates b) ch of
             None \<Rightarrow> if prev \<noteq> JNull then Inl RegistryCorruptionError else ok
           | Some cur \<Rightarrow>
               if cp \<noteq> cr_candidate_path cur
               then (if prev \<noteq> JStr (cr_candidate_path cur) then Inl RegistryCorruptionError else ok)
               else if prev \<noteq> JNull then Inl RegistryCorruptionError else ok))
     | _ \<Rightarrow> Inl IllegalTransitionError)"

definition apply_bootstrap :: "builder \<Rightarrow> event \<Rightarrow> perror + builder" where
  "apply_bootstrap b e =
    (if b_champion b \<noteq> None \<or> b_generations b \<noteq> [] \<or> b_candidates b \<noteq> [] \<or> b_pins b \<noteq> []
        \<or> ev_sequence e \<noteq> 1 then Inl IllegalTransitionError
     else if ev_candidate_hash e \<noteq> None \<or> ev_candidate_path e \<noteq> None
       then Inl IllegalTransitionError
     else bindE (event_generation_id e) (\<lambda>g.
       Inr (b\<lparr>b_champion := Some (ev_champion_hash e), b_generation_id := Some g,
         b_generations := dset (b_generations b) g
           \<lparr>gr_generation_id = g, gr_candidate_hash = ev_champion_hash e,
            gr_candidate_path = None, gr_previous_champion_hash = None,
            gr_evaluation_key = None, gr_state = ACTIVE, gr_restore_champion_hash = None,
            gr_last_sequence = ev_sequence e\<rparr>\<rparr>)))"

definition apply_candidate :: "builder \<Rightarrow> event \<Rightarrow> CandidateState \<Rightarrow> perror + builder" where
  "apply_candidate b0 e target =
    bindE (validate_candidate_identity b0 e) (\<lambda>(b, ch, cp).
     if Some (ev_champion_hash e) \<noteq> b_champion b then Inl IllegalTransitionError
     else if target = DISCOVERED then
       (case dget (b_candidates b) ch of
          Some _ \<Rightarrow> Inl IllegalTransitionError
        | None \<Rightarrow> Inr (b\<lparr>b_candidates := dset (b_candidates b) ch
            \<lparr>cr_candidate_hash = ch, cr_candidate_path = cp, cr_state = DISCOVERED,
             cr_parent_champion_hash = ev_champion_hash e, cr_tested_champion_hash = None,
             cr_evaluation_key = None, cr_generation_id = None,
             cr_last_sequence = ev_sequence e\<rparr>\<rparr>))
     else (case dget (b_candidates b) ch of
        None \<Rightarrow> Inl IllegalTransitionError
      | Some cur \<Rightarrow>
        if target \<notin> set (legal_candidate (cr_state cur)) then Inl IllegalTransitionError
        else
          let upd = (\<lambda>tested ek. Inr (b\<lparr>b_candidates := dset (b_candidates b) ch
                (cur\<lparr>cr_candidate_path := cp, cr_state := target,
                  cr_tested_champion_hash := tested, cr_evaluation_key := ek,
                  cr_last_sequence := ev_sequence e\<rparr>)\<rparr>))
          in if target \<in> set evaluating_states then
               (if ev_evaluation_key e = None then Inl IllegalTransitionError
                else upd (Some (ev_champion_hash e)) (ev_evaluation_key e))
             else if target = CONFIRMED then
               (if ev_evaluation_key e = None
                   \<or> ev_evaluation_key e \<noteq> cr_evaluation_key cur
                   \<or> Some (ev_champion_hash e) \<noteq> cr_tested_champion_hash cur
                then Inl IllegalTransitionError
                else upd (cr_tested_champion_hash cur) (cr_evaluation_key cur))
             else if ev_evaluation_key e \<noteq> None \<and> ev_evaluation_key e \<noteq> cr_evaluation_key cur
               then Inl IllegalTransitionError
             else upd (cr_tested_champion_hash cur) (cr_evaluation_key cur)))"

text \<open>\<open>_active_generation_for\<close>: the most recently written active generation of a champion.\<close>

fun max_by_sequence :: "generation_record \<Rightarrow> generation_record list \<Rightarrow> generation_record" where
  "max_by_sequence m [] = m"
| "max_by_sequence m (g # gs) =
     max_by_sequence (if gr_last_sequence m < gr_last_sequence g then g else m) gs"

definition active_generation_for :: "builder \<Rightarrow> string option \<Rightarrow> string option" where
  "active_generation_for b champion =
    (case champion of None \<Rightarrow> None
     | Some h \<Rightarrow>
       (case filter (\<lambda>g. gr_candidate_hash g = h \<and> gr_state g = ACTIVE) (dvals (b_generations b)) of
          [] \<Rightarrow> None
        | g # gs \<Rightarrow> Some (gr_generation_id (max_by_sequence g gs))))"

definition apply_intent :: "builder \<Rightarrow> event \<Rightarrow> string \<Rightarrow> string \<Rightarrow> string \<Rightarrow> perror + builder" where
  "apply_intent b e ch cp g =
    (case dget (b_candidates b) ch of
       None \<Rightarrow> Inl IllegalTransitionError
     | Some cand \<Rightarrow>
       if cr_state cand \<noteq> CONFIRMED then Inl IllegalTransitionError
       else if dget (b_generations b) g \<noteq> None then Inl IllegalTransitionError
       else if cr_generation_id cand \<noteq> None then Inl IllegalTransitionError
       else if Some (ev_champion_hash e) \<noteq> b_champion b
            \<or> cr_tested_champion_hash cand \<noteq> Some (ev_champion_hash e)
            \<or> cr_evaluation_key cand \<noteq> ev_evaluation_key e then Inl IllegalTransitionError
       else Inr (b\<lparr>b_generations := dset (b_generations b) g
                \<lparr>gr_generation_id = g, gr_candidate_hash = ch, gr_candidate_path = Some cp,
                 gr_previous_champion_hash = Some (ev_champion_hash e),
                 gr_evaluation_key = ev_evaluation_key e, gr_state = PROMOTION_INTENT,
                 gr_restore_champion_hash = None, gr_last_sequence = ev_sequence e\<rparr>,
              b_candidates := dset (b_candidates b) ch
                (cand\<lparr>cr_candidate_path := cp, cr_generation_id := Some g,
                  cr_last_sequence := ev_sequence e\<rparr>)\<rparr>))"

definition generation_restore :: "event \<Rightarrow> generation_record \<Rightarrow> GenerationState
    \<Rightarrow> perror + string option" where
  "generation_restore e gen target =
    (if target = ROLLBACK_PENDING \<or> target = ROLLED_BACK then
       bindE (event_restore_hash e) (\<lambda>supplied.
         if Some supplied \<noteq> gr_previous_champion_hash gen then Inl IllegalTransitionError
         else if gr_restore_champion_hash gen \<noteq> None
            \<and> gr_restore_champion_hash gen \<noteq> Some supplied then Inl IllegalTransitionError
         else Inr (Some supplied))
     else Inr (gr_restore_champion_hash gen))"

definition apply_generation :: "builder \<Rightarrow> event \<Rightarrow> GenerationState \<Rightarrow> perror + builder" where
  "apply_generation b0 e target =
    bindE (validate_candidate_identity b0 e) (\<lambda>(b, ch, cp).
    bindE (event_generation_id e) (\<lambda>g.
     if target = PROMOTION_INTENT then apply_intent b e ch cp g
     else (case dget (b_generations b) g of
        None \<Rightarrow> Inl IllegalTransitionError
      | Some gen \<Rightarrow>
        if gr_candidate_hash gen \<noteq> ch \<or> gr_candidate_path gen \<noteq> Some cp
          then Inl RegistryCorruptionError
        else if Some (ev_champion_hash e) \<noteq> gr_previous_champion_hash gen
          then Inl IllegalTransitionError
        else if ev_evaluation_key e \<noteq> None \<and> ev_evaluation_key e \<noteq> gr_evaluation_key gen
          then Inl IllegalTransitionError
        else if target \<notin> set (legal_generation (gr_state gen)) then Inl IllegalTransitionError
        else bindE (generation_restore e gen target) (\<lambda>restore.
          let gen' = gen\<lparr>gr_state := target, gr_restore_champion_hash := restore,
                  gr_last_sequence := ev_sequence e\<rparr>;
              put = (\<lambda>b. b\<lparr>b_generations := dset (b_generations b) g gen'\<rparr>)
          in if target = ACTIVE then
               (if b_champion b \<noteq> gr_previous_champion_hash gen then Inl IllegalTransitionError
                else Inr (put (b\<lparr>b_champion := Some (gr_candidate_hash gen),
                                 b_generation_id := Some g\<rparr>)))
             else if target = ROLLED_BACK then
               (if b_champion b \<noteq> Some (gr_candidate_hash gen)
                   \<and> b_champion b \<noteq> gr_previous_champion_hash gen
                then Inl IllegalTransitionError
                else Inr (put (b\<lparr>b_champion := restore,
                                 b_generation_id := active_generation_for b restore\<rparr>)))
             else Inr (put b)))))"

definition apply_pin :: "builder \<Rightarrow> event \<Rightarrow> perror + builder" where
  "apply_pin b e =
    (if ev_candidate_hash e \<noteq> None \<or> ev_candidate_path e \<noteq> None then Inl IllegalTransitionError
     else if Some (ev_champion_hash e) \<noteq> b_champion b then Inl IllegalTransitionError
     else bindE (require_nonempty (jget (ev_payload e) ''pin_id'')) (\<lambda>pid.
          bindE (require_sha256 (jget (ev_payload e) ''reference_hash'')) (\<lambda>ref.
          bindE (require_nonempty (jget (ev_payload e) ''kind'')) (\<lambda>kind.
          bindE (require_nonempty (jget (ev_payload e) ''owner'')) (\<lambda>owner.
            if pid \<in> set (b_seen_pin_ids b) then Inl IllegalTransitionError
            else Inr (b\<lparr>b_seen_pin_ids := pid # b_seen_pin_ids b,
                   b_pins := dset (b_pins b) pid
                     \<lparr>pin_id = pid, pin_reference_hash = ref, pin_kind = kind,
                      pin_owner = owner, pin_reason = ev_reason e,
                      pin_created_sequence = ev_sequence e\<rparr>\<rparr>))))))"

definition apply_unpin :: "builder \<Rightarrow> event \<Rightarrow> perror + builder" where
  "apply_unpin b e =
    (if ev_candidate_hash e \<noteq> None \<or> ev_candidate_path e \<noteq> None then Inl IllegalTransitionError
     else if Some (ev_champion_hash e) \<noteq> b_champion b then Inl IllegalTransitionError
     else bindE (require_nonempty (jget (ev_payload e) ''pin_id'')) (\<lambda>pid.
          bindE (require_sha256 (jget (ev_payload e) ''reference_hash'')) (\<lambda>ref.
            (case dget (b_pins b) pid of
               None \<Rightarrow> Inl IllegalTransitionError
             | Some existing \<Rightarrow>
                 if pin_reference_hash existing \<noteq> ref then Inl IllegalTransitionError
                 else Inr (b\<lparr>b_pins := ddel (b_pins b) pid\<rparr>)))))"

definition builder_apply :: "builder \<Rightarrow> event \<Rightarrow> perror + builder" where
  "builder_apply b0 e =
    (let orig = original_hash (ev_prov e) in
     if b_original_hash b0 \<noteq> None \<and> b_original_hash b0 \<noteq> Some orig
       then Inl RegistryCorruptionError
     else let b = b0\<lparr>b_original_hash := Some orig\<rparr> in
       if ev_transition e = CHAMPION_BOOTSTRAPPED then apply_bootstrap b e
       else if b_champion b = None then Inl IllegalTransitionError
       else (case candidate_target (ev_transition e) of
          Some target \<Rightarrow> apply_candidate b e target
        | None \<Rightarrow> (case generation_target (ev_transition e) of
             Some target \<Rightarrow> apply_generation b e target
           | None \<Rightarrow>
               if ev_transition e = REFERENCE_PINNED then apply_pin b e
               else if ev_transition e = REFERENCE_UNPINNED then apply_unpin b e
               else Inl IllegalTransitionError)))"

text \<open>\<open>_state_from_events\<close>: the projection together with the log's position.\<close>

record registry_state =
  rs_events :: "event list"
  rs_builder :: builder
  rs_last_sequence :: int
  rs_last_event_hash :: string

definition state_from_events :: "event list \<Rightarrow> perror + registry_state" where
  "state_from_events es =
    bindE (runE builder_apply builder_init es) (\<lambda>b.
      Inr \<lparr>rs_events = es, rs_builder = b,
        rs_last_sequence = (if es = [] then 0 else ev_sequence (last es)),
        rs_last_event_hash = (if es = [] then GENESIS_HASH else ev_event_hash (last es))\<rparr>)"

section \<open>Retention queries\<close>

text \<open>The value of a candidate state, as it appears in a retention reason.\<close>

fun candidate_state_value :: "CandidateState \<Rightarrow> string" where
  "candidate_state_value DISCOVERED = ''discovered''"
| "candidate_state_value CLAIMED = ''claimed''"
| "candidate_state_value SUPERSEDED = ''superseded''"
| "candidate_state_value EVALUATING_INTEGRITY = ''evaluating_integrity''"
| "candidate_state_value EVALUATING_SCREEN = ''evaluating_screen''"
| "candidate_state_value EVALUATING_FINALIST = ''evaluating_finalist''"
| "candidate_state_value EVALUATING_CONFIRMATION = ''evaluating_confirmation''"
| "candidate_state_value REJECTED = ''rejected''"
| "candidate_state_value C_QUARANTINED = ''quarantined''"
| "candidate_state_value CONFIRMED = ''confirmed''"

definition protected_candidate_states :: "CandidateState list" where
  "protected_candidate_states = [DISCOVERED, CLAIMED, EVALUATING_INTEGRITY, EVALUATING_SCREEN,
     EVALUATING_FINALIST, EVALUATING_CONFIRMATION, C_QUARANTINED]"

definition live_generation_states :: "GenerationState list" where
  "live_generation_states =
     [PROMOTION_INTENT, CANARY, ROLLOUT, ACTIVE, ROLLBACK_PENDING, G_QUARANTINED]"

definition generation_live :: "builder \<Rightarrow> generation_record \<Rightarrow> bool" where
  "generation_live b g \<longleftrightarrow> gr_state g \<in> set live_generation_states
     \<and> \<not> (gr_state g = ACTIVE \<and> Some (gr_generation_id g) \<noteq> b_generation_id b)"

definition retention_reasons :: "builder \<Rightarrow> string \<Rightarrow> string list" where
  "retention_reasons b h =
    (if Some h = b_original_hash b then [''immutable-original''] else [])
    @ (if Some h = b_champion b then [''current-champion''] else [])
    @ map (\<lambda>c. ''candidate:'' @ candidate_state_value (cr_state c))
        (filter (\<lambda>c. cr_candidate_hash c = h
            \<and> (cr_state c \<in> set protected_candidate_states
               \<or> cr_state c = CONFIRMED \<and> cr_generation_id c = None)) (dvals (b_candidates b)))
    @ concat (map (\<lambda>g.
        (if gr_candidate_hash g = h then [''generation:'' @ gr_generation_id g @ '':candidate''] else [])
        @ (if gr_previous_champion_hash g = Some h
           then [''generation:'' @ gr_generation_id g @ '':rollback-champion''] else []))
        (filter (generation_live b) (dvals (b_generations b))))
    @ map (\<lambda>p. ''pin:'' @ pin_id p @ '':'' @ pin_kind p @ '':'' @ pin_owner p)
        (filter (\<lambda>p. pin_reference_hash p = h) (dvals (b_pins b)))"

definition retention_status :: "builder \<Rightarrow> string \<Rightarrow> perror + string list" where
  "retention_status b h =
    (if \<not> is_sha256 h then Inl ValueErrorP else Inr (sort (remdups (retention_reasons b h))))"

definition is_pinned :: "builder \<Rightarrow> string \<Rightarrow> perror + bool" where
  "is_pinned b h = bindE (retention_status b h) (\<lambda>reasons. Inr (reasons \<noteq> []))"

definition can_delete :: "builder \<Rightarrow> string \<Rightarrow> perror + bool" where
  "can_delete b h = bindE (retention_status b h) (\<lambda>reasons. Inr (reasons = []))"

text \<open>\<open>retained_hashes\<close>: every hash the registry mentions that has a reason to be kept.\<close>

definition referenced_hashes :: "builder \<Rightarrow> string list" where
  "referenced_hashes b =
    (case b_original_hash b of None \<Rightarrow> [] | Some h \<Rightarrow> [h])
    @ (case b_champion b of None \<Rightarrow> [] | Some h \<Rightarrow> [h])
    @ dkeys (b_candidates b)
    @ map gr_candidate_hash (dvals (b_generations b))
    @ concat (map (\<lambda>g. case gr_previous_champion_hash g of None \<Rightarrow> [] | Some h \<Rightarrow> [h])
        (dvals (b_generations b)))
    @ map pin_reference_hash (dvals (b_pins b))"

fun retained_from :: "builder \<Rightarrow> string list \<Rightarrow> perror + (string \<times> string list) list" where
  "retained_from b [] = Inr []"
| "retained_from b (h # hs) =
     bindE (retention_status b h) (\<lambda>reasons.
     bindE (retained_from b hs) (\<lambda>rest.
       Inr (if reasons = [] then rest else (h, reasons) # rest)))"

definition retained_hashes :: "builder \<Rightarrow> perror + (string \<times> string list) list" where
  "retained_hashes b = retained_from b (sort (remdups (referenced_hashes b)))"

end
