(* ===== verification/Promotion_Invariant.thy ===== *)
theory Promotion_Invariant
  imports Promotion_Builder
begin

text \<open>
  The invariant of the replayed promotion registry and its preservation by every event: each
  generation belongs to exactly one confirmed candidate that was evaluated against the champion
  it replaces, and the current champion always comes from a generation.
\<close>

section \<open>Inversion of the replay functions\<close>

lemma validate_identity_Inr:
  "validate_candidate_identity b e = Inr (b', ch, cp) \<Longrightarrow>
     ev_candidate_hash e = Some ch \<and> ev_candidate_path e = Some cp
     \<and> b' = b\<lparr>b_path_to_hash := dset (b_path_to_hash b) cp ch\<rparr>
     \<and> (\<forall>h. dget (b_path_to_hash b) cp = Some h \<longrightarrow> h = ch)"
  by (auto simp: validate_candidate_identity_def Let_def
      split: option.splits if_splits)

lemma require_nonempty_Inr [res_simps]:
  "require_nonempty v = Inr s \<longleftrightarrow> v = JStr s \<and> is_nonempty s"
  by (auto simp: require_nonempty_def split: json.splits)

lemma require_sha256_Inr [res_simps]:
  "require_sha256 v = Inr s \<longleftrightarrow> v = JStr s \<and> is_sha256 s"
  by (auto simp: require_sha256_def split: json.splits)

definition candidate_update_ok :: "event \<Rightarrow> CandidateState \<Rightarrow> candidate_record
    \<Rightarrow> string option \<Rightarrow> string option \<Rightarrow> bool" where
  "candidate_update_ok e target cur tested ek \<longleftrightarrow>
     target \<in> set (legal_candidate (cr_state cur))
     \<and> (if target \<in> set evaluating_states
        then tested = Some (ev_champion_hash e) \<and> ek = ev_evaluation_key e \<and> ek \<noteq> None
        else tested = cr_tested_champion_hash cur \<and> ek = cr_evaluation_key cur
          \<and> (target = CONFIRMED \<longrightarrow> ev_evaluation_key e = ek \<and> ek \<noteq> None
               \<and> tested = Some (ev_champion_hash e)))"

lemma apply_candidate_Inr:
  assumes "apply_candidate b e target = Inr b'"
  obtains ch cp b1 where
    "validate_candidate_identity b e = Inr (b1, ch, cp)"
    "b_champion b = Some (ev_champion_hash e)"
    "target = DISCOVERED" "dget (b_candidates b) ch = None"
    "b' = b1\<lparr>b_candidates := dset (b_candidates b) ch
            \<lparr>cr_candidate_hash = ch, cr_candidate_path = cp, cr_state = DISCOVERED,
             cr_parent_champion_hash = ev_champion_hash e, cr_tested_champion_hash = None,
             cr_evaluation_key = None, cr_generation_id = None,
             cr_last_sequence = ev_sequence e\<rparr>\<rparr>"
  | ch cp b1 cur tested ek where
    "validate_candidate_identity b e = Inr (b1, ch, cp)"
    "b_champion b = Some (ev_champion_hash e)"
    "target \<noteq> DISCOVERED" "dget (b_candidates b) ch = Some cur"
    "candidate_update_ok e target cur tested ek"
    "b' = b1\<lparr>b_candidates := dset (b_candidates b) ch
                (cur\<lparr>cr_candidate_path := cp, cr_state := target,
                  cr_tested_champion_hash := tested, cr_evaluation_key := ek,
                  cr_last_sequence := ev_sequence e\<rparr>)\<rparr>"
proof -
  from assms obtain b1 ch cp where v: "validate_candidate_identity b e = Inr (b1, ch, cp)"
    by (auto simp: apply_candidate_def res_simps)
  from validate_identity_Inr [OF v]
  have b1: "b_champion b1 = b_champion b" "b_candidates b1 = b_candidates b" by auto
  from assms v b1 have champ: "b_champion b = Some (ev_champion_hash e)"
    by (auto simp: apply_candidate_def split: if_splits)
  show ?thesis
  proof (cases "target = DISCOVERED")
    case True
    with assms v b1 champ show ?thesis
      by (intro that(1)) (auto simp: apply_candidate_def split: option.splits)
  next
    case False
    with assms v b1 champ obtain cur where cur: "dget (b_candidates b) ch = Some cur"
      by (auto simp: apply_candidate_def split: option.splits)
    show ?thesis
      by (rule that(2) [OF v champ False cur, of
            "if target \<in> set evaluating_states then Some (ev_champion_hash e)
             else cr_tested_champion_hash cur"
            "if target \<in> set evaluating_states then ev_evaluation_key e
             else cr_evaluation_key cur"])
         (use assms v b1 champ False cur in
           \<open>auto simp: apply_candidate_def candidate_update_ok_def Let_def split: if_splits\<close>)
  qed
qed

lemma active_generation_for_cong:
  "b_generations b = b_generations b' \<Longrightarrow> active_generation_for b h = active_generation_for b' h"
  by (cases h) (simp_all add: active_generation_for_def)

definition champion_update_ok :: "builder \<Rightarrow> GenerationState \<Rightarrow> string \<Rightarrow> generation_record
    \<Rightarrow> string option \<Rightarrow> string option \<Rightarrow> string option \<Rightarrow> bool" where
  "champion_update_ok b target g gen restore champ' gid' \<longleftrightarrow>
     (if target = ACTIVE then b_champion b = gr_previous_champion_hash gen
         \<and> champ' = Some (gr_candidate_hash gen) \<and> gid' = Some g
      else if target = ROLLED_BACK then
         (b_champion b = Some (gr_candidate_hash gen) \<or> b_champion b = gr_previous_champion_hash gen)
         \<and> champ' = restore \<and> gid' = active_generation_for b restore
      else champ' = b_champion b \<and> gid' = b_generation_id b)"

definition restore_ok :: "GenerationState \<Rightarrow> generation_record \<Rightarrow> string option \<Rightarrow> bool" where
  "restore_ok target gen restore \<longleftrightarrow>
     (if target = ROLLBACK_PENDING \<or> target = ROLLED_BACK
      then restore \<noteq> None \<and> restore = gr_previous_champion_hash gen
      else restore = gr_restore_champion_hash gen)"

lemma generation_restore_Inr:
  "generation_restore e gen target = Inr restore \<Longrightarrow> restore_ok target gen restore"
  by (auto simp: generation_restore_def restore_ok_def res_simps split: if_splits)

lemma apply_generation_Inr:
  assumes "apply_generation b e target = Inr b'"
  obtains ch cp b1 g cand where
    "validate_candidate_identity b e = Inr (b1, ch, cp)"
    "event_generation_id e = Inr g"
    "target = PROMOTION_INTENT"
    "dget (b_candidates b) ch = Some cand" "cr_state cand = CONFIRMED"
    "dget (b_generations b) g = None" "cr_generation_id cand = None"
    "b_champion b = Some (ev_champion_hash e)"
    "cr_tested_champion_hash cand = Some (ev_champion_hash e)"
    "cr_evaluation_key cand = ev_evaluation_key e"
    "b' = b1\<lparr>b_generations := dset (b_generations b) g
                \<lparr>gr_generation_id = g, gr_candidate_hash = ch, gr_candidate_path = Some cp,
                 gr_previous_champion_hash = Some (ev_champion_hash e),
                 gr_evaluation_key = ev_evaluation_key e, gr_state = PROMOTION_INTENT,
                 gr_restore_champion_hash = None, gr_last_sequence = ev_sequence e\<rparr>,
              b_candidates := dset (b_candidates b) ch
                (cand\<lparr>cr_candidate_path := cp, cr_generation_id := Some g,
                  cr_last_sequence := ev_sequence e\<rparr>)\<rparr>"
  | ch cp b1 g gen restore champ' gid' where
    "validate_candidate_identity b e = Inr (b1, ch, cp)"
    "event_generation_id e = Inr g"
    "target \<noteq> PROMOTION_INTENT"
    "dget (b_generations b) g = Some gen"
    "gr_candidate_hash gen = ch" "gr_candidate_path gen = Some cp"
    "gr_previous_champion_hash gen = Some (ev_champion_hash e)"
    "target \<in> set (legal_generation (gr_state gen))"
    "restore_ok target gen restore"
    "champion_update_ok b target g gen restore champ' gid'"
    "b' = b1\<lparr>b_champion := champ', b_generation_id := gid',
              b_generations := dset (b_generations b) g
                (gen\<lparr>gr_state := target, gr_restore_champion_hash := restore,
                  gr_last_sequence := ev_sequence e\<rparr>)\<rparr>"
proof -
  from assms obtain b1 ch cp g where v: "validate_candidate_identity b e = Inr (b1, ch, cp)"
    and g: "event_generation_id e = Inr g"
    by (auto simp: apply_generation_def res_simps)
  from validate_identity_Inr [OF v]
  have b1: "b_champion b1 = b_champion b" "b_candidates b1 = b_candidates b"
    "b_generations b1 = b_generations b" "b_generation_id b1 = b_generation_id b" by auto
  show ?thesis
  proof (cases "target = PROMOTION_INTENT")
    case True
    with assms v g have ap: "apply_intent b1 e ch cp g = Inr b'"
      by (simp add: apply_generation_def)
    then obtain cand where cand: "dget (b_candidates b) ch = Some cand"
      using b1 by (auto simp: apply_intent_def split: option.splits)
    show ?thesis
      by (rule that(1) [OF v g True cand])
         (use ap cand b1 in \<open>auto simp: apply_intent_def split: if_splits\<close>)
  next
    case False
    with assms v g b1 obtain gen where gen: "dget (b_generations b) g = Some gen"
      by (auto simp: apply_generation_def split: option.splits)
    with assms v g b1 False obtain restore where r: "generation_restore e gen target = Inr restore"
      by (auto simp: apply_generation_def res_simps split: if_splits)
    have ag: "active_generation_for b1 x = active_generation_for b x" for x
      using b1 by (intro active_generation_for_cong) simp
    note [simp] = b1 ag
    show ?thesis
      by (rule that(2) [OF v g False gen _ _ _ _ generation_restore_Inr [OF r], of
            "if target = ACTIVE then Some (gr_candidate_hash gen)
             else if target = ROLLED_BACK then restore else b_champion b"
            "if target = ACTIVE then Some g
             else if target = ROLLED_BACK then active_generation_for b restore
             else b_generation_id b"])
         (use assms v g False gen r in
           \<open>auto simp: apply_generation_def champion_update_ok_def Let_def split: if_splits\<close>)
  qed
qed

section \<open>The invariant\<close>

text \<open>
  A generation is either the bootstrap generation, which stays active for ever, or it belongs to
  a confirmed candidate tested against the champion the generation replaces.
\<close>

definition gen_ok :: "builder \<Rightarrow> string \<Rightarrow> generation_record \<Rightarrow> bool" where
  "gen_ok b g r \<longleftrightarrow> gr_generation_id r = g
    \<and> (case gr_previous_champion_hash r of
        None \<Rightarrow> gr_state r = ACTIVE \<and> gr_candidate_path r = None
      | Some p \<Rightarrow> (\<exists>c. dget (b_candidates b) (gr_candidate_hash r) = Some c \<and> cr_state c = CONFIRMED
            \<and> cr_generation_id c = Some g \<and> cr_tested_champion_hash c = Some p
            \<and> cr_evaluation_key c = gr_evaluation_key r
            \<and> gr_candidate_path r = Some (cr_candidate_path c)))
    \<and> (gr_restore_champion_hash r = None
        \<or> gr_restore_champion_hash r = gr_previous_champion_hash r)
    \<and> (gr_previous_champion_hash r \<noteq> None \<longrightarrow>
        (\<exists>g' r'. dget (b_generations b) g' = Some r'
           \<and> Some (gr_candidate_hash r') = gr_previous_champion_hash r))"

definition cand_ok :: "builder \<Rightarrow> string \<Rightarrow> candidate_record \<Rightarrow> bool" where
  "cand_ok b ch c \<longleftrightarrow> cr_candidate_hash c = ch
    \<and> (\<forall>g. cr_generation_id c = Some g \<longrightarrow>
        (\<exists>r. dget (b_generations b) g = Some r \<and> gr_candidate_hash r = ch
          \<and> gr_previous_champion_hash r \<noteq> None))
    \<and> (cr_generation_id c \<noteq> None \<longrightarrow> cr_state c = CONFIRMED)
    \<and> (cr_state c \<in> insert CONFIRMED (set evaluating_states) \<longrightarrow>
        cr_tested_champion_hash c \<noteq> None \<and> cr_evaluation_key c \<noteq> None)"

definition champ_ok :: "builder \<Rightarrow> bool" where
  "champ_ok b \<longleftrightarrow>
    (case b_champion b of
       None \<Rightarrow> b_generations b = [] \<and> b_candidates b = [] \<and> b_pins b = [] \<and> b_generation_id b = None
     | Some h \<Rightarrow> b_original_hash b \<noteq> None
         \<and> (\<exists>g r. dget (b_generations b) g = Some r \<and> gr_candidate_hash r = h)
         \<and> (\<forall>g. b_generation_id b = Some g \<longrightarrow>
              (\<exists>r. dget (b_generations b) g = Some r \<and> gr_candidate_hash r = h
                 \<and> gr_state r \<in> {ACTIVE, ROLLBACK_PENDING, G_QUARANTINED})))"

definition reg_inv :: "builder \<Rightarrow> bool" where
  "reg_inv b \<longleftrightarrow> dict_ok (b_candidates b) \<and> dict_ok (b_generations b) \<and> dict_ok (b_pins b)
    \<and> (\<forall>g r. dget (b_generations b) g = Some r \<longrightarrow> gen_ok b g r)
    \<and> (\<forall>ch c. dget (b_candidates b) ch = Some c \<longrightarrow> cand_ok b ch c)
    \<and> (\<forall>k p. dget (b_pins b) k = Some p \<longrightarrow> pin_id p = k \<and> k \<in> set (b_seen_pin_ids b))
    \<and> champ_ok b"

lemma reg_inv_init: "reg_inv builder_init"
  by (simp add: reg_inv_def builder_init_def champ_ok_def)

section \<open>Preservation\<close>

lemma legal_from_confirmed: "t \<in> set (legal_candidate s) \<Longrightarrow> s \<noteq> CONFIRMED"
  by (cases s) auto

lemma legal_not_discovered: "t \<in> set (legal_candidate s) \<Longrightarrow> t \<noteq> DISCOVERED"
  by (cases s) auto

lemma reg_inv_genD: "reg_inv b \<Longrightarrow> dget (b_generations b) g = Some r \<Longrightarrow> gen_ok b g r"
  by (simp add: reg_inv_def)

lemma reg_inv_candD: "reg_inv b \<Longrightarrow> dget (b_candidates b) ch = Some c \<Longrightarrow> cand_ok b ch c"
  by (simp add: reg_inv_def)

lemma gen_candidate_ex:
  assumes "reg_inv b" "dget (b_generations b) g = Some r" "gr_previous_champion_hash r = Some p"
  obtains c where "dget (b_candidates b) (gr_candidate_hash r) = Some c" "cr_state c = CONFIRMED"
    "cr_generation_id c = Some g" "cr_tested_champion_hash c = Some p"
    "cr_evaluation_key c = gr_evaluation_key r" "gr_candidate_path r = Some (cr_candidate_path c)"
  using reg_inv_genD [OF assms(1,2)] assms(3) by (auto simp: gen_ok_def)

text \<open>Replacing a candidate that no generation uses keeps every generation in order.\<close>

lemma gen_ok_candidate_upd:
  assumes "gen_ok b g r" and "gr_previous_champion_hash r \<noteq> None \<Longrightarrow> gr_candidate_hash r \<noteq> ch"
    and "b_generations b' = b_generations b" and "b_candidates b' = dset (b_candidates b) ch c"
  shows "gen_ok b' g r"
  using assms by (auto simp: gen_ok_def dict_simps split: option.splits)

lemma cand_ok_cong:
  "cand_ok b ch c \<Longrightarrow> b_generations b' = b_generations b \<Longrightarrow> cand_ok b' ch c"
  by (simp add: cand_ok_def)

lemma reg_inv_put_candidate:
  assumes inv: "reg_inv b" and c: "cand_ok b ch c" and champ: "b_champion b \<noteq> None"
    and unused: "\<And>g r. dget (b_generations b) g = Some r \<Longrightarrow> gr_previous_champion_hash r \<noteq> None
        \<Longrightarrow> gr_candidate_hash r \<noteq> ch"
  shows "reg_inv (b\<lparr>b_path_to_hash := ph, b_candidates := dset (b_candidates b) ch c\<rparr>)"
    (is "reg_inv ?b")
  unfolding reg_inv_def
proof (intro conjI allI impI)
  fix g r assume "dget (b_generations ?b) g = Some r"
  then have r: "dget (b_generations b) g = Some r" by simp
  show "gen_ok ?b g r"
    by (rule gen_ok_candidate_upd [OF reg_inv_genD [OF inv r]]) (use unused [OF r] in auto)
next
  fix x y assume "dget (b_candidates ?b) x = Some y"
  then show "cand_ok ?b x y"
    using reg_inv_candD [OF inv, of x y] c
    by (auto simp: dict_simps intro: cand_ok_cong split: if_splits)
qed (use inv champ in \<open>auto simp: reg_inv_def champ_ok_def\<close>)

lemma apply_candidate_inv:
  assumes inv: "reg_inv b" and app: "apply_candidate b e target = Inr b'"
  shows "reg_inv b'"
proof -
  from app show ?thesis
  proof (cases rule: apply_candidate_Inr)
    case (1 ch cp b1)
    have unused: "gr_candidate_hash r \<noteq> ch"
      if "dget (b_generations b) g = Some r" "gr_previous_champion_hash r \<noteq> None" for g r
      using inv that 1(4) by (metis gen_candidate_ex not_None_eq option.distinct(1))
    show ?thesis
      using validate_identity_Inr [OF 1(1)] 1 reg_inv_put_candidate [OF inv _ _ unused]
      by (auto simp: cand_ok_def evaluating_states_def)
  next
    case (2 ch cp b1 cur tested ek)
    from 2(5) have "target \<in> set (legal_candidate (cr_state cur))"
      by (simp add: candidate_update_ok_def)
    then have not_conf: "cr_state cur \<noteq> CONFIRMED" by (rule legal_from_confirmed)
    have unused: "gr_candidate_hash r \<noteq> ch"
      if "dget (b_generations b) g = Some r" "gr_previous_champion_hash r \<noteq> None" for g r
      using inv that 2(4) not_conf by (metis gen_candidate_ex not_None_eq option.inject)
    have "cand_ok b ch (cur\<lparr>cr_candidate_path := cp, cr_state := target,
                  cr_tested_champion_hash := tested, cr_evaluation_key := ek,
                  cr_last_sequence := ev_sequence e\<rparr>)"
      using reg_inv_candD [OF inv 2(4)] 2(5) not_conf
      by (auto simp: cand_ok_def candidate_update_ok_def split: if_splits)
    then show ?thesis
      using validate_identity_Inr [OF 2(1)] 2 reg_inv_put_candidate [OF inv _ _ unused]
      by auto
  qed
qed

lemma active_generation_for_Some:
  assumes "active_generation_for b (Some h) = Some g" and "reg_inv b"
  shows "\<exists>r. dget (b_generations b) g = Some r \<and> gr_candidate_hash r = h \<and> gr_state r = ACTIVE"
proof -
  have mem: "max_by_sequence m gs \<in> set (m # gs)" for m gs
    by (induction gs arbitrary: m) auto
  from assms(1) obtain m ms where f: "filter (\<lambda>g. gr_candidate_hash g = h \<and> gr_state g = ACTIVE)
      (dvals (b_generations b)) = m # ms" and g: "g = gr_generation_id (max_by_sequence m ms)"
    by (auto simp: active_generation_for_def split: list.splits)
  let ?r = "max_by_sequence m ms"
  from mem [of m ms] f have "?r \<in> set (dvals (b_generations b))"
    and r: "gr_candidate_hash ?r = h \<and> gr_state ?r = ACTIVE"
    by (metis (mono_tags, lifting) filter_set mem_Collect_eq Set.filter_eq)+
  with assms(2) obtain k where k: "dget (b_generations b) k = Some ?r"
    by (auto simp: reg_inv_def dvals_iff)
  with assms(2) have "k = g" by (auto simp: reg_inv_def gen_ok_def g)
  with k r show ?thesis by blast
qed

lemma gen_ok_gens_grow:
  assumes "gen_ok b g r"
    and "\<And>g' r'. dget (b_generations b) g' = Some r' \<Longrightarrow>
       \<exists>g'' r''. dget (b_generations b') g'' = Some r'' \<and> gr_candidate_hash r'' = gr_candidate_hash r'"
    and "\<And>c. gr_previous_champion_hash r \<noteq> None \<Longrightarrow>
       dget (b_candidates b) (gr_candidate_hash r) = Some c \<Longrightarrow>
       dget (b_candidates b') (gr_candidate_hash r) = Some c"
  shows "gen_ok b' g r"
  using assms unfolding gen_ok_def
  by (fastforce split: option.splits)

lemma cand_ok_gens_grow:
  assumes "cand_ok b ch c"
    and "\<And>g r. dget (b_generations b) g = Some r \<Longrightarrow>
       \<exists>r'. dget (b_generations b') g = Some r' \<and> gr_candidate_hash r' = gr_candidate_hash r
          \<and> gr_previous_champion_hash r' = gr_previous_champion_hash r"
  shows "cand_ok b' ch c"
  using assms unfolding cand_ok_def by (metis (no_types, lifting))

lemma apply_intent_inv:
  assumes inv: "reg_inv b" and cand: "dget (b_candidates b) ch = Some cand"
    and conf: "cr_state cand = CONFIRMED" and nog: "dget (b_generations b) g = None"
    and nogid: "cr_generation_id cand = None" and champ: "b_champion b = Some h"
    and tested: "cr_tested_champion_hash cand = Some h"
  shows "reg_inv (b\<lparr>b_path_to_hash := ph,
            b_generations := dset (b_generations b) g
                \<lparr>gr_generation_id = g, gr_candidate_hash = ch, gr_candidate_path = Some cp,
                 gr_previous_champion_hash = Some h,
                 gr_evaluation_key = cr_evaluation_key cand, gr_state = PROMOTION_INTENT,
                 gr_restore_champion_hash = None, gr_last_sequence = n\<rparr>,
              b_candidates := dset (b_candidates b) ch
                (cand\<lparr>cr_candidate_path := cp, cr_generation_id := Some g,
                  cr_last_sequence := n\<rparr>)\<rparr>)" (is "reg_inv ?b")
proof -
  have keep: "dget (b_generations ?b) g' = Some r'" if "dget (b_generations b) g' = Some r'" for g' r'
    using that nog by (auto simp: dict_simps)
  have other: "gr_candidate_hash r \<noteq> ch"
    if "dget (b_generations b) g' = Some r" "gr_previous_champion_hash r \<noteq> None" for g' r
    using inv that cand nogid by (metis gen_candidate_ex not_None_eq option.inject)
  from inv champ obtain gc rc where rc: "dget (b_generations b) gc = Some rc" "gr_candidate_hash rc = h"
    by (auto simp: reg_inv_def champ_ok_def)
  show ?thesis unfolding reg_inv_def
  proof (intro conjI allI impI)
    fix x r assume x: "dget (b_generations ?b) x = Some r"
    show "gen_ok ?b x r"
    proof (cases "x = g")
      case True
      have "gc \<noteq> g" using rc nog by auto
      with True x cand conf tested rc show ?thesis
        by (auto simp: gen_ok_def dict_simps intro!: exI [of _ gc])
    next
      case False
      with x have r: "dget (b_generations b) x = Some r" by (simp add: dict_simps)
      have "dget (b_candidates ?b) (gr_candidate_hash r) = Some c"
        if "gr_previous_champion_hash r \<noteq> None" "dget (b_candidates b) (gr_candidate_hash r) = Some c" for c
        using that other [OF r] by (simp add: dict_simps)
      then show ?thesis
        by (intro gen_ok_gens_grow [OF reg_inv_genD [OF inv r]]) (use keep in blast)+
    qed
  next
    fix x c assume x: "dget (b_candidates ?b) x = Some c"
    show "cand_ok ?b x c"
    proof (cases "x = ch")
      case True
      with x reg_inv_candD [OF inv cand] conf show ?thesis
        by (auto simp: cand_ok_def dict_simps)
    next
      case False
      with x have c: "dget (b_candidates b) x = Some c" by (simp add: dict_simps)
      show ?thesis
        by (rule cand_ok_gens_grow [OF reg_inv_candD [OF inv c]]) (use keep in auto)
    qed
  next
    from inv champ keep show "champ_ok ?b"
      by (fastforce simp: reg_inv_def champ_ok_def)
  qed (use inv in \<open>auto simp: reg_inv_def\<close>)
qed

lemma put_generation_inv:
  assumes inv: "reg_inv b" and gen: "dget (b_generations b) g = Some gen"
    and prev: "gr_previous_champion_hash gen = Some h"
    and gen': "gr_candidate_hash gen' = gr_candidate_hash gen"
      "gr_generation_id gen' = gr_generation_id gen"
      "gr_candidate_path gen' = gr_candidate_path gen"
      "gr_previous_champion_hash gen' = gr_previous_champion_hash gen"
      "gr_evaluation_key gen' = gr_evaluation_key gen"
      "gr_restore_champion_hash gen' = None
        \<or> gr_restore_champion_hash gen' = gr_previous_champion_hash gen"
    and champ: "champ_ok (b\<lparr>b_champion := champ', b_generation_id := gid',
              b_generations := dset (b_generations b) g gen'\<rparr>)" and some: "champ' \<noteq> None"
  shows "reg_inv (b\<lparr>b_path_to_hash := ph, b_champion := champ', b_generation_id := gid',
              b_generations := dset (b_generations b) g gen'\<rparr>)" (is "reg_inv ?b")
proof -
  have keep: "\<exists>r''. dget (b_generations ?b) g' = Some r'' \<and> gr_candidate_hash r'' = gr_candidate_hash r'
       \<and> gr_previous_champion_hash r'' = gr_previous_champion_hash r'"
    if "dget (b_generations b) g' = Some r'" for g' r'
    using that gen gen' by (auto simp: dict_simps)
  show ?thesis unfolding reg_inv_def
  proof (intro conjI allI impI)
    fix x r assume x: "dget (b_generations ?b) x = Some r"
    have "gen_ok ?b x y" if y: "dget (b_generations b) x = Some y" for y
      by (rule gen_ok_gens_grow [OF reg_inv_genD [OF inv y]]) (use keep in blast, simp)
    with x gen gen' prev show "gen_ok ?b x r"
      by (auto simp: dict_simps gen_ok_def split: if_splits)
  next
    fix x c assume "dget (b_candidates ?b) x = Some c"
    then have c: "dget (b_candidates b) x = Some c" by simp
    show "cand_ok ?b x c"
      by (rule cand_ok_gens_grow [OF reg_inv_candD [OF inv c]]) (use keep in auto)
  next
    show "champ_ok ?b" using champ some by (auto simp: champ_ok_def)
  qed (use inv in \<open>auto simp: reg_inv_def\<close>)
qed

abbreviation serving_states :: "GenerationState set" where
  "serving_states \<equiv> {ACTIVE, ROLLBACK_PENDING, G_QUARANTINED}"

lemma champ_okI:
  assumes "b_champion b = Some h" "b_original_hash b \<noteq> None"
    and "\<exists>g r. dget (b_generations b) g = Some r \<and> gr_candidate_hash r = h"
    and "\<And>g. b_generation_id b = Some g \<Longrightarrow>
      \<exists>r. dget (b_generations b) g = Some r \<and> gr_candidate_hash r = h \<and> gr_state r \<in> serving_states"
  shows "champ_ok b"
  using assms by (simp add: champ_ok_def)

lemma champ_okE:
  assumes "reg_inv b" "b_champion b = Some h"
  obtains g r where "b_original_hash b \<noteq> None" "dget (b_generations b) g = Some r"
    "gr_candidate_hash r = h"
    "\<forall>g. b_generation_id b = Some g \<longrightarrow>
      (\<exists>r. dget (b_generations b) g = Some r \<and> gr_candidate_hash r = h \<and> gr_state r \<in> serving_states)"
  using assms by (auto simp: reg_inv_def champ_ok_def)

text \<open>Rewriting a generation with the same candidate, the champion staying.\<close>

lemma champ_ok_keep:
  assumes inv: "reg_inv b" and champ: "b_champion b = Some h"
    and gen: "dget (b_generations b) g = Some gen" "gr_candidate_hash gen' = gr_candidate_hash gen"
    and st: "gr_state gen \<in> serving_states \<Longrightarrow> gr_state gen' \<in> serving_states"
  shows "champ_ok (b\<lparr>b_generations := dset (b_generations b) g gen'\<rparr>)" (is "champ_ok ?b")
proof -
  from inv champ obtain g0 r0 where o: "b_original_hash b \<noteq> None"
    and r0: "dget (b_generations b) g0 = Some r0" "gr_candidate_hash r0 = h"
    and gid: "\<forall>g. b_generation_id b = Some g \<longrightarrow>
      (\<exists>r. dget (b_generations b) g = Some r \<and> gr_candidate_hash r = h \<and> gr_state r \<in> serving_states)"
    by (rule champ_okE)
  show ?thesis
  proof (rule champ_okI)
    show "\<exists>x r. dget (b_generations ?b) x = Some r \<and> gr_candidate_hash r = h"
      using r0 gen by (intro exI [of _ g0]) (auto simp: dict_simps)
  next
    fix x assume "b_generation_id ?b = Some x"
    with gid gen st show "\<exists>r. dget (b_generations ?b) x = Some r \<and> gr_candidate_hash r = h
        \<and> gr_state r \<in> serving_states" by (cases "x = g") (auto simp: dict_simps)
  qed (use champ o in auto)
qed

lemma champ_ok_activate:
  assumes inv: "reg_inv b" and champ: "b_champion b = Some h"
    and st: "gr_state gen' = ACTIVE"
  shows "champ_ok (b\<lparr>b_champion := Some (gr_candidate_hash gen'), b_generation_id := Some g,
      b_generations := dset (b_generations b) g gen'\<rparr>)" (is "champ_ok ?b")
proof (rule champ_okI)
  have g: "dget (b_generations ?b) g = Some gen'" by (simp add: dict_simps)
  then show "\<exists>x r. dget (b_generations ?b) x = Some r \<and> gr_candidate_hash r = gr_candidate_hash gen'"
    by blast
  show "\<exists>r. dget (b_generations ?b) x = Some r \<and> gr_candidate_hash r = gr_candidate_hash gen'
      \<and> gr_state r \<in> serving_states" if "b_generation_id ?b = Some x" for x
    using that g st by auto
  show "b_original_hash ?b \<noteq> None" using inv champ by (auto elim: champ_okE)
qed simp

lemma champ_ok_rollback:
  assumes inv: "reg_inv b" and champ: "b_champion b = Some h"
    and gen: "dget (b_generations b) g = Some gen" "gr_candidate_hash gen' = gr_candidate_hash gen"
    and st: "gr_state gen \<noteq> ACTIVE" and prev: "gr_previous_champion_hash gen = Some p"
  shows "champ_ok (b\<lparr>b_champion := Some p, b_generation_id := active_generation_for b (Some p),
      b_generations := dset (b_generations b) g gen'\<rparr>)" (is "champ_ok ?b")
proof (rule champ_okI)
  from reg_inv_genD [OF inv gen(1)] prev obtain g2 r2
    where r2: "dget (b_generations b) g2 = Some r2" "gr_candidate_hash r2 = p"
    by (auto simp: gen_ok_def)
  then show "\<exists>x r. dget (b_generations ?b) x = Some r \<and> gr_candidate_hash r = p"
    using gen by (intro exI [of _ g2]) (auto simp: dict_simps)
  show "\<exists>r. dget (b_generations ?b) x = Some r \<and> gr_candidate_hash r = p
      \<and> gr_state r \<in> serving_states" if "b_generation_id ?b = Some x" for x
  proof -
    from that active_generation_for_Some [OF _ inv, of p x] obtain r
      where r: "dget (b_generations b) x = Some r" "gr_candidate_hash r = p" "gr_state r = ACTIVE"
      by auto
    with gen st have "x \<noteq> g" by auto
    with r show ?thesis by (auto simp: dict_simps)
  qed
  show "b_original_hash ?b \<noteq> None" using inv champ by (auto elim: champ_okE)
qed simp

lemma legal_generation_serving:
  "t \<in> set (legal_generation s) \<Longrightarrow> s \<in> serving_states \<Longrightarrow> t \<noteq> ROLLED_BACK \<Longrightarrow> t \<in> serving_states"
  by (cases s) auto

lemma apply_generation_inv:
  assumes inv: "reg_inv b" and app: "apply_generation b e target = Inr b'"
    and "b_champion b \<noteq> None"
  shows "reg_inv b'"
proof -
  from assms(3) obtain h where champ: "b_champion b = Some h" by blast
  from app show ?thesis
  proof (cases rule: apply_generation_Inr)
    case (1 ch cp b1 g cand)
    show ?thesis
      using validate_identity_Inr [OF 1(1)] 1(11)
        apply_intent_inv [OF inv 1(4-9)] 1(10) by simp
  next
    case (2 ch cp b1 g gen restore champ' gid')
    let ?gen = "gen\<lparr>gr_state := target, gr_restore_champion_hash := restore,
                  gr_last_sequence := ev_sequence e\<rparr>"
    let ?b = "b\<lparr>b_champion := champ', b_generation_id := gid',
              b_generations := dset (b_generations b) g ?gen\<rparr>"
    from reg_inv_genD [OF inv 2(4)] 2(9)
    have restore: "restore = None \<or> restore = gr_previous_champion_hash gen"
      by (auto simp: restore_ok_def gen_ok_def split: if_splits)
    have some: "champ' \<noteq> None"
      using 2(7,9,10) champ by (auto simp: champion_update_ok_def restore_ok_def split: if_splits)
    consider "target = ACTIVE" | "target = ROLLED_BACK" | "target \<noteq> ACTIVE" "target \<noteq> ROLLED_BACK"
      by blast
    then have "champ_ok ?b"
    proof cases
      case 1
      with 2(10) champ_ok_activate [OF inv champ, of ?gen g] show ?thesis
        by (simp add: champion_update_ok_def)
    next
      case t: 2
      have "gr_state gen \<noteq> ACTIVE" using 2(8) t by auto
      with t 2(9,10) champ_ok_rollback [OF inv champ 2(4) _ _ 2(7), of ?gen] 2(7) show ?thesis
        by (simp add: champion_update_ok_def restore_ok_def)
    next
      case 3
      with legal_generation_serving [OF 2(8)]
      have "gr_state gen \<in> serving_states \<Longrightarrow> gr_state ?gen \<in> serving_states" by simp
      from champ_ok_keep [OF inv champ 2(4) _ this] 3 2(10) show ?thesis
        by (simp add: champion_update_ok_def)
    qed
    from put_generation_inv [OF inv 2(4) 2(7) _ _ _ _ _ _ this some] restore 2(11)
      validate_identity_Inr [OF 2(1)]
    show ?thesis by auto
  qed
qed

lemma reg_inv_frame:
  assumes inv: "reg_inv b" and same: "b_candidates b' = b_candidates b"
      "b_generations b' = b_generations b" "b_champion b' = b_champion b"
      "b_generation_id b' = b_generation_id b"
    and orig: "b_original_hash b' \<noteq> None \<or> b_original_hash b' = b_original_hash b"
    and pins: "dict_ok (b_pins b')" "b_champion b = None \<Longrightarrow> b_pins b' = []"
      "\<And>k p. dget (b_pins b') k = Some p \<Longrightarrow> pin_id p = k \<and> k \<in> set (b_seen_pin_ids b')"
  shows "reg_inv b'"
proof -
  have "gen_ok b' g r = gen_ok b g r" "cand_ok b' x c = cand_ok b x c" for g r x c
    unfolding gen_ok_def cand_ok_def same by (rule refl)+
  with inv pins orig show ?thesis
    by (auto simp: reg_inv_def champ_ok_def same split: option.splits)
qed

lemma reg_inv_original: "reg_inv b \<Longrightarrow> reg_inv (b\<lparr>b_original_hash := Some h\<rparr>)"
  by (rule reg_inv_frame) (auto simp: reg_inv_def champ_ok_def split: option.splits)

lemma apply_bootstrap_inv:
  assumes "reg_inv b" "b_original_hash b \<noteq> None" "apply_bootstrap b e = Inr b'"
  shows "reg_inv b'"
  using assms
  by (auto simp: apply_bootstrap_def res_simps reg_inv_def gen_ok_def champ_ok_def dict_simps
      split: if_splits)

lemma apply_pin_inv:
  assumes "reg_inv b" "apply_pin b e = Inr b'"
  shows "reg_inv b'"
proof (rule reg_inv_frame [OF assms(1)])
  fix k p assume "dget (b_pins b') k = Some p"
  with assms show "pin_id p = k \<and> k \<in> set (b_seen_pin_ids b')"
    by (auto simp: apply_pin_def res_simps reg_inv_def dict_simps split: if_splits)
qed (use assms in \<open>auto simp: apply_pin_def res_simps reg_inv_def split: if_splits\<close>)

lemma apply_unpin_inv:
  assumes "reg_inv b" "apply_unpin b e = Inr b'"
  shows "reg_inv b'"
proof (rule reg_inv_frame [OF assms(1)])
  fix k p assume "dget (b_pins b') k = Some p"
  with assms show "pin_id p = k \<and> k \<in> set (b_seen_pin_ids b')"
    by (auto simp: apply_unpin_def res_simps reg_inv_def dict_simps split: if_splits option.splits)
qed (use assms in \<open>auto simp: apply_unpin_def res_simps reg_inv_def split: if_splits option.splits\<close>)

lemma builder_apply_inv:
  assumes inv: "reg_inv b" and app: "builder_apply b e = Inr b'"
  shows "reg_inv b'"
proof -
  let ?b = "b\<lparr>b_original_hash := Some (original_hash (ev_prov e))\<rparr>"
  from inv have "reg_inv ?b" by (rule reg_inv_original)
  with app show ?thesis
    by (auto simp: builder_apply_def Let_def split: if_splits option.splits
        elim: apply_bootstrap_inv apply_candidate_inv apply_generation_inv apply_pin_inv apply_unpin_inv)
qed

interpretation registry: fallible_machine builder_apply reg_inv
  by unfold_locales (rule builder_apply_inv)

lemma replay_inv: "runE builder_apply builder_init es = Inr b \<Longrightarrow> reg_inv b"
  using registry.run_inv [OF reg_inv_init] .

end
