(* ===== verification/Promotion_Registry.thy ===== *)
theory Promotion_Registry
  imports Promotion_Invariant
begin

text \<open>
  The durable event registry, class \<^verbatim>\<open>EventRegistry\<close> of
  \<^verbatim>\<open>src/python/risk_score/promotion_state.py\<close>: the directory of immutable event files, its strict
  reconstruction, the append of one event and the idempotent operations built on it. The directory is a list of named entries in scan order; an operation returns
  the event together with the directory after it.
\<close>

section \<open>Event files\<close>

datatype fentry = RegularFile string | SpecialFile

datatype events_path = Missing | NotADirectory | Directory "(string \<times> fentry) list"

definition py_isdigit :: "char \<Rightarrow> bool" where
  "py_isdigit c \<longleftrightarrow> (let n = (of_char c :: nat)
     in (48 \<le> n \<and> n \<le> 57) \<or> n = 178 \<or> n = 179 \<or> n = 185)"

definition ascii_digit :: "char \<Rightarrow> bool" where
  "ascii_digit c \<longleftrightarrow> (let n = (of_char c :: nat) in 48 \<le> n \<and> n \<le> 57)"

definition ends_with :: "string \<Rightarrow> string \<Rightarrow> bool" where
  "ends_with s t \<longleftrightarrow> length t \<le> length s \<and> drop (length s - length t) s = t"

text \<open>\<open>_EVENT_FILE_RE.fullmatch\<close>: twenty decimal digits and the suffix, read as a sequence.\<close>

definition event_file_seq :: "string \<Rightarrow> int option" where
  "event_file_seq name =
    (if length name = 25 \<and> drop 20 name = ''.json'' \<and> list_all ascii_digit (take 20 name)
     then Some (int (dec_val (take 20 name))) else None)"

fun scan_events :: "(string \<times> fentry) list \<Rightarrow> perror + (int \<times> fentry) list" where
  "scan_events [] = Inr []"
| "scan_events ((name, f) # rest) =
    (case event_file_seq name of
       Some q \<Rightarrow> bindE (scan_events rest) (\<lambda>ps. Inr ((q, f) # ps))
     | None \<Rightarrow>
        if take 1 name = ''.'' \<or> ends_with name ''.tmp'' then scan_events rest
        else if ends_with name ''.json'' \<and> list_ex py_isdigit (take 1 name)
          then Inl RegistryCorruptionError
        else scan_events rest)"

definition event_paths :: "events_path \<Rightarrow> perror + (int \<times> fentry) list" where
  "event_paths d = (case d of
     Missing \<Rightarrow> Inr []
   | NotADirectory \<Rightarrow> Inl RegistryCorruptionError
   | Directory entries \<Rightarrow> bindE (scan_events entries) (\<lambda>ps. Inr (sort_key fst ps)))"

definition read_regular_file :: "fentry \<Rightarrow> perror + string" where
  "read_regular_file f = (case f of
     SpecialFile \<Rightarrow> Inl RegistryCorruptionError
   | RegularFile data \<Rightarrow>
       if int (length data) > MAX_JSON_BYTES then Inl RegistryCorruptionError else Inr data)"

definition decode_json :: "promo_env \<Rightarrow> string \<Rightarrow> perror + json" where
  "decode_json env data = (case loads env data of
     None \<Rightarrow> Inl RegistryCorruptionError
   | Some v \<Rightarrow> if unique_object v then Inr (jnorm v) else Inl RegistryCorruptionError)"

definition event_bytes :: "promo_env \<Rightarrow> event \<Rightarrow> string" where
  "event_bytes env e = dumps env (JObj (event_to_dict e)) @ newline"

section \<open>Reconstruction\<close>

fun read_events :: "promo_env \<Rightarrow> int \<Rightarrow> string \<Rightarrow> (int \<times> fentry) list \<Rightarrow> perror + event list" where
  "read_events env expected prev [] = Inr []"
| "read_events env expected prev ((q, f) # ps) =
    (if q \<noteq> expected then Inl RegistryCorruptionError
     else bindE (read_regular_file f) (\<lambda>data.
          bindE (decode_json env data) (\<lambda>v.
          bindE (event_from_dict env v) (\<lambda>e.
            if data \<noteq> event_bytes env e then Inl RegistryCorruptionError
            else if ev_sequence e \<noteq> q then Inl RegistryCorruptionError
            else if ev_previous_hash e \<noteq> prev then Inl RegistryCorruptionError
            else bindE (read_events env (expected + 1) (ev_event_hash e) ps) (\<lambda>es.
              Inr (e # es))))))"

definition reconstruct :: "promo_env \<Rightarrow> events_path \<Rightarrow> perror + registry_state" where
  "reconstruct env d =
    bindE (event_paths d) (\<lambda>ps.
    bindE (read_events env 1 GENESIS_HASH ps) state_from_events)"

section \<open>Appending events\<close>

text \<open>The arguments every mutating operation shares.\<close>

record event_request =
  rq_prov :: provenance
  rq_champion_hash :: string
  rq_reason :: string
  rq_actor :: string
  rq_timestamp_utc :: "string option"

definition event_file_name :: "int \<Rightarrow> string" where
  "event_file_name q = fmt_0d EVENT_SEQUENCE_WIDTH q @ ''.json''"

fun ensure_directories :: "events_path \<Rightarrow> perror + (string \<times> fentry) list" where
  "ensure_directories Missing = Inr []"
| "ensure_directories NotADirectory = Inl NotADirectoryError"
| "ensure_directories (Directory entries) = Inr entries"

text \<open>\<open>_atomic_create_bytes\<close>: the hard link publishes a new name and refuses an existing one.\<close>

definition atomic_create_bytes :: "(string \<times> fentry) list \<Rightarrow> string \<Rightarrow> string
    \<Rightarrow> perror + (string \<times> fentry) list" where
  "atomic_create_bytes entries name data =
    (if name \<in> fst ` set entries then Inl EventConflictError
     else Inr (entries @ [(name, RegularFile data)]))"

definition append_event :: "promo_env \<Rightarrow> events_path \<Rightarrow> Transition \<Rightarrow> event_request
    \<Rightarrow> string option \<Rightarrow> string option \<Rightarrow> string option \<Rightarrow> jobj \<Rightarrow> perror + (event \<times> events_path)" where
  "append_event env d tr rq ch cp ek payload =
    (if \<not> is_sha256 (rq_champion_hash rq) then Inl IllegalTransitionError
     else if \<not> is_nonempty (rq_reason rq) then Inl IllegalTransitionError
     else if \<not> is_nonempty (rq_actor rq) then Inl IllegalTransitionError
     else if \<not> opt_all is_sha256 ch then Inl IllegalTransitionError
     else if \<not> opt_all is_nonempty cp then Inl IllegalTransitionError
     else if \<not> opt_all (valid_utc_timestamp env) (rq_timestamp_utc rq)
       then Inl IllegalTransitionError
     else
       let ts = (case rq_timestamp_utc rq of None \<Rightarrow> utc_now env | Some t \<Rightarrow> t) in
       bindE (reconstruct env d) (\<lambda>st.
       bindE (event_build env (rs_last_sequence st + 1) (rs_last_event_hash st) ts (rq_prov rq)
                ch cp (rq_champion_hash rq) tr ek (rq_reason rq) (rq_actor rq) payload) (\<lambda>e.
       bindE (state_from_events (rs_events st @ [e])) (\<lambda>_.
       bindE (ensure_directories d) (\<lambda>entries.
       bindE (atomic_create_bytes entries (event_file_name (ev_sequence e)) (event_bytes env e))
         (\<lambda>entries'. Inr (e, Directory entries')))))))"

definition registry_bootstrap_champion :: "promo_env \<Rightarrow> events_path \<Rightarrow> string \<Rightarrow> event_request
    \<Rightarrow> perror + (event \<times> events_path)" where
  "registry_bootstrap_champion env d generation_id rq =
    bindE (reconstruct env d) (\<lambda>st.
      if b_champion (rs_builder st) \<noteq> None then
        (case rs_events st of
           first # _ \<Rightarrow>
             if ev_transition first = CHAMPION_BOOTSTRAPPED
                \<and> ev_champion_hash first = rq_champion_hash rq
                \<and> jget (ev_payload first) ''generation_id'' = JStr generation_id
                \<and> ev_prov first = rq_prov rq
             then Inr (first, d) else Inl ChampionConflictError
         | [] \<Rightarrow> Inl ChampionConflictError)
      else append_event env d CHAMPION_BOOTSTRAPPED rq None None None
             [(''generation_id'', JStr generation_id)])"

section \<open>Idempotent transitions\<close>

definition previous_path_key :: string where
  "previous_path_key = ''previous_candidate_path''"

text \<open>A retry inherits the relocation that the recorded event carries.\<close>

definition merge_previous_path :: "jobj \<Rightarrow> event \<Rightarrow> jobj" where
  "merge_previous_path p e =
    (if \<not> jhas p previous_path_key \<and> jhas (ev_payload e) previous_path_key
     then jset p previous_path_key (jget (ev_payload e) previous_path_key) else p)"

text \<open>A candidate whose file has moved records the path it had.\<close>

definition record_relocation :: "jobj \<Rightarrow> string \<Rightarrow> string \<Rightarrow> perror + jobj" where
  "record_relocation p old new =
    (if old = new then Inr p
     else if jget p previous_path_key \<noteq> JNull \<and> jget p previous_path_key \<noteq> JStr old
       then Inl IllegalTransitionError
     else Inr (jset p previous_path_key (JStr old)))"

definition candidate_retry :: "registry_state \<Rightarrow> events_path \<Rightarrow> string \<Rightarrow> string \<Rightarrow> CandidateState
    \<Rightarrow> event_request \<Rightarrow> string option \<Rightarrow> jobj \<Rightarrow> perror + (event \<times> events_path)" where
  "candidate_retry st d ch cp target rq ek p =
    (case find (\<lambda>e. ev_transition e = state_to_candidate_transition target
               \<and> ev_candidate_hash e = Some ch) (rev (rs_events st)) of
       None \<Rightarrow> Inl RegistryCorruptionError
     | Some e \<Rightarrow>
        if ev_candidate_path e \<noteq> Some cp \<or> ev_champion_hash e \<noteq> rq_champion_hash rq
           \<or> ev_evaluation_key e \<noteq> ek \<or> ev_prov e \<noteq> rq_prov rq
           \<or> \<not> py_eq_obj (ev_payload e) (merge_previous_path p e)
        then Inl IllegalTransitionError else Inr (e, d))"

definition transition_candidate :: "promo_env \<Rightarrow> events_path \<Rightarrow> string \<Rightarrow> string \<Rightarrow> CandidateState
    \<Rightarrow> event_request \<Rightarrow> string option \<Rightarrow> jobj \<Rightarrow> perror + (event \<times> events_path)" where
  "transition_candidate env d ch cp target rq ek payload =
    bindE (reconstruct env d) (\<lambda>st.
    (case jcanon payload of
       None \<Rightarrow> Inl ValueErrorP
     | Some p \<Rightarrow>
       (case dget (b_candidates (rs_builder st)) ch of
          None \<Rightarrow> append_event env d (state_to_candidate_transition target) rq (Some ch) (Some cp) ek p
        | Some existing \<Rightarrow>
          let reentry = (target = EVALUATING_CONFIRMATION \<and> ek \<noteq> None
                         \<and> ek \<noteq> cr_evaluation_key existing) in
          if cr_state existing = target \<and> \<not> reentry then
            (if cr_candidate_path existing \<noteq> cp then Inl IllegalTransitionError
             else candidate_retry st d ch cp target rq ek p)
          else bindE (record_relocation p (cr_candidate_path existing) cp) (\<lambda>p'.
            append_event env d (state_to_candidate_transition target) rq (Some ch) (Some cp) ek p'))))"

text \<open>The payload of a generation event names its generation and, in a rollback, the champion to restore.\<close>

definition generation_payload :: "jobj \<Rightarrow> string \<Rightarrow> GenerationState \<Rightarrow> string option \<Rightarrow> perror + jobj" where
  "generation_payload p g target restore =
    (if jget p ''generation_id'' \<noteq> JNull \<and> jget p ''generation_id'' \<noteq> JStr g
       then Inl IllegalTransitionError
     else let q = jset p ''generation_id'' (JStr g) in
       if target = ROLLBACK_PENDING \<or> target = ROLLED_BACK then
         (case restore of
            None \<Rightarrow> Inl IllegalTransitionError
          | Some h \<Rightarrow>
            if jget q ''restore_champion_hash'' \<noteq> JNull
               \<and> jget q ''restore_champion_hash'' \<noteq> JStr h then Inl IllegalTransitionError
            else Inr (jset q ''restore_champion_hash'' (JStr h)))
       else Inr q)"

definition generation_retry :: "registry_state \<Rightarrow> events_path \<Rightarrow> string \<Rightarrow> GenerationState
    \<Rightarrow> event_request \<Rightarrow> string option \<Rightarrow> jobj \<Rightarrow> perror + (event \<times> events_path)" where
  "generation_retry st d g target rq ek p =
    (case find (\<lambda>e. ev_transition e = state_to_generation_transition target
               \<and> jget (ev_payload e) ''generation_id'' = JStr g) (rev (rs_events st)) of
       None \<Rightarrow> Inl RegistryCorruptionError
     | Some e \<Rightarrow>
        if ev_evaluation_key e \<noteq> ek \<or> ev_prov e \<noteq> rq_prov rq
           \<or> \<not> py_eq_obj (ev_payload e) (merge_previous_path p e)
        then Inl IllegalTransitionError else Inr (e, d))"

definition transition_generation :: "promo_env \<Rightarrow> events_path \<Rightarrow> string \<Rightarrow> string \<Rightarrow> string
    \<Rightarrow> GenerationState \<Rightarrow> event_request \<Rightarrow> string option \<Rightarrow> string option \<Rightarrow> jobj
    \<Rightarrow> perror + (event \<times> events_path)" where
  "transition_generation env d g ch cp target rq ek restore payload =
    (case jcanon payload of
       None \<Rightarrow> Inl ValueErrorP
     | Some p0 \<Rightarrow>
       bindE (generation_payload p0 g target restore) (\<lambda>p1.
       bindE (reconstruct env d) (\<lambda>st.
         let existing = dget (b_generations (rs_builder st)) g in
         bindE (case (existing, dget (b_candidates (rs_builder st)) ch) of
             (None, Some cand) \<Rightarrow> record_relocation p1 (cr_candidate_path cand) cp
           | _ \<Rightarrow> Inr p1) (\<lambda>p.
         let append = append_event env d (state_to_generation_transition target) rq
               (Some ch) (Some cp) ek p in
         (case existing of
            None \<Rightarrow> append
          | Some gen \<Rightarrow>
            if gr_state gen = target then
              (if gr_candidate_hash gen \<noteq> ch \<or> gr_candidate_path gen \<noteq> Some cp
                  \<or> gr_previous_champion_hash gen \<noteq> Some (rq_champion_hash rq)
               then Inl IllegalTransitionError
               else generation_retry st d g target rq ek p)
            else append)))))"

definition find_pin_event :: "registry_state \<Rightarrow> string \<Rightarrow> event option" where
  "find_pin_event st pid = find (\<lambda>e. ev_transition e = REFERENCE_PINNED
     \<and> jget (ev_payload e) ''pin_id'' = JStr pid) (rev (rs_events st))"

definition pin_reference :: "promo_env \<Rightarrow> events_path \<Rightarrow> string \<Rightarrow> string \<Rightarrow> string \<Rightarrow> string
    \<Rightarrow> event_request \<Rightarrow> perror + (event \<times> events_path)" where
  "pin_reference env d pid ref kind owner rq =
    bindE (reconstruct env d) (\<lambda>st.
    (case dget (b_pins (rs_builder st)) pid of
       Some existing \<Rightarrow>
         if pin_reference_hash existing = ref \<and> pin_kind existing = kind
            \<and> pin_owner existing = owner \<and> pin_reason existing = rq_reason rq
         then (case find_pin_event st pid of
             Some e \<Rightarrow> if ev_champion_hash e \<noteq> rq_champion_hash rq \<or> ev_prov e \<noteq> rq_prov rq
               then Inl IllegalTransitionError else Inr (e, d)
           | None \<Rightarrow> Inl IllegalTransitionError)
         else Inl IllegalTransitionError
     | None \<Rightarrow>
        (case find_pin_event st pid of
           Some e \<Rightarrow>
             if jget (ev_payload e) ''reference_hash'' = JStr ref
                \<and> jget (ev_payload e) ''kind'' = JStr kind
                \<and> jget (ev_payload e) ''owner'' = JStr owner
                \<and> ev_reason e = rq_reason rq \<and> ev_champion_hash e = rq_champion_hash rq
                \<and> ev_prov e = rq_prov rq
             then Inr (e, d) else Inl IllegalTransitionError
         | None \<Rightarrow> append_event env d REFERENCE_PINNED rq None None None
             [(''kind'', JStr kind), (''owner'', JStr owner), (''pin_id'', JStr pid),
              (''reference_hash'', JStr ref)])))"

definition unpin_reference :: "promo_env \<Rightarrow> events_path \<Rightarrow> string \<Rightarrow> event_request
    \<Rightarrow> perror + (event option \<times> events_path)" where
  "unpin_reference env d pid rq =
    bindE (reconstruct env d) (\<lambda>st.
    (case dget (b_pins (rs_builder st)) pid of
       None \<Rightarrow> Inr (None, d)
     | Some existing \<Rightarrow>
        bindE (append_event env d REFERENCE_UNPINNED rq None None None
                [(''pin_id'', JStr pid), (''reference_hash'', JStr (pin_reference_hash existing))])
          (\<lambda>(e, d'). Inr (Some e, d'))))"

end
