(* ===== verification/Promotion_Props.thy ===== *)
theory Promotion_Props
  imports Promotion_Invariant
begin

text \<open>
  What a replayed promotion log guarantees: provenance of the champion, the only events that move
  it, the lifecycles of candidates and generations, one-shot pins, and retention.
\<close>

section \<open>Lifecycles\<close>

definition candidate_edges :: "(CandidateState \<times> CandidateState) set" where
  "candidate_edges = {(s, t). t \<in> set (legal_candidate s)}"

definition generation_edges :: "(GenerationState \<times> GenerationState) set" where
  "generation_edges = {(s, t). t \<in> set (legal_generation s)}"

text \<open>
  How one projection may follow another: candidates and generations are never dropped, keep their
  identity and move along the tables; paths, the original and used pin identifiers are kept.
\<close>

definition cand_follow :: "candidate_record \<Rightarrow> candidate_record \<Rightarrow> bool" where
  "cand_follow c c' \<longleftrightarrow> (cr_state c, cr_state c') \<in> candidate_edges\<^sup>*
     \<and> cr_parent_champion_hash c' = cr_parent_champion_hash c
     \<and> (cr_generation_id c \<noteq> None \<longrightarrow> cr_generation_id c' = cr_generation_id c)"

definition gen_follow :: "generation_record \<Rightarrow> generation_record \<Rightarrow> bool" where
  "gen_follow r r' \<longleftrightarrow> (gr_state r, gr_state r') \<in> generation_edges\<^sup>*
     \<and> gr_candidate_hash r' = gr_candidate_hash r
     \<and> gr_previous_champion_hash r' = gr_previous_champion_hash r
     \<and> gr_evaluation_key r' = gr_evaluation_key r"

definition dict_follow :: "('v \<Rightarrow> 'v \<Rightarrow> bool) \<Rightarrow> ('k, 'v) dict \<Rightarrow> ('k, 'v) dict \<Rightarrow> bool" where
  "dict_follow R d d' \<longleftrightarrow> (\<forall>k v. dget d k = Some v \<longrightarrow> (\<exists>v'. dget d' k = Some v' \<and> R v v'))"

definition candidates_follow :: "builder \<Rightarrow> builder \<Rightarrow> bool" where
  "candidates_follow b b' \<longleftrightarrow> dict_follow cand_follow (b_candidates b) (b_candidates b')"

definition generations_follow :: "builder \<Rightarrow> builder \<Rightarrow> bool" where
  "generations_follow b b' \<longleftrightarrow> dict_follow gen_follow (b_generations b) (b_generations b')"

definition pins_follow :: "builder \<Rightarrow> builder \<Rightarrow> bool" where
  "pins_follow b b' \<longleftrightarrow> (\<forall>k. k \<in> set (b_seen_pin_ids b) \<longrightarrow> k \<in> set (b_seen_pin_ids b')
     \<and> (\<forall>p. dget (b_pins b') k = Some p \<longrightarrow> dget (b_pins b) k = Some p))"

definition identity_follow :: "builder \<Rightarrow> builder \<Rightarrow> bool" where
  "identity_follow b b' \<longleftrightarrow> dict_follow (=) (b_path_to_hash b) (b_path_to_hash b')
     \<and> (b_original_hash b \<noteq> None \<longrightarrow> b_original_hash b' = b_original_hash b)
     \<and> (b_champion b \<noteq> None \<longrightarrow> b_champion b' \<noteq> None)"

lemma cand_follow_refl [simp]: "cand_follow c c"
  by (simp add: cand_follow_def)

lemma gen_follow_refl [simp]: "gen_follow r r"
  by (simp add: gen_follow_def)

lemma cand_follow_trans: "cand_follow a b \<Longrightarrow> cand_follow b c \<Longrightarrow> cand_follow a c"
  by (auto simp: cand_follow_def)

lemma gen_follow_trans: "gen_follow a b \<Longrightarrow> gen_follow b c \<Longrightarrow> gen_follow a c"
  by (auto simp: gen_follow_def)

lemma dict_follow_trans:
  assumes "\<And>a b c. R a b \<Longrightarrow> R b c \<Longrightarrow> R a c" "dict_follow R x y" "dict_follow R y z"
  shows "dict_follow R x z"
  using assms unfolding dict_follow_def by meson

lemma dict_follow_dset:
  assumes "\<And>v. R v v" "\<And>w. dget d k = Some w \<Longrightarrow> R w v"
  shows "dict_follow R d (dset d k v)"
  using assms by (simp add: dict_follow_def dict_simps)

lemma dict_follow_refl: "(\<And>v. R v v) \<Longrightarrow> dict_follow R d d"
  by (simp add: dict_follow_def)

lemmas follow_defs = candidates_follow_def generations_follow_def identity_follow_def pins_follow_def

definition builder_follow :: "builder \<Rightarrow> builder \<Rightarrow> bool" where
  "builder_follow b b' \<longleftrightarrow> candidates_follow b b' \<and> generations_follow b b'
     \<and> identity_follow b b' \<and> pins_follow b b'"

lemma builder_follow_refl: "builder_follow b b"
  by (simp add: builder_follow_def follow_defs dict_follow_refl)

lemma identity_follow_trans: "identity_follow a b \<Longrightarrow> identity_follow b c \<Longrightarrow> identity_follow a c"
  using dict_follow_trans [of "(=)" "b_path_to_hash a" "b_path_to_hash b" "b_path_to_hash c"]
  by (simp add: identity_follow_def)

lemma pins_follow_trans: "pins_follow a b \<Longrightarrow> pins_follow b c \<Longrightarrow> pins_follow a c"
  unfolding pins_follow_def by blast

lemma builder_follow_trans: "builder_follow a b \<Longrightarrow> builder_follow b c \<Longrightarrow> builder_follow a c"
  unfolding builder_follow_def candidates_follow_def generations_follow_def
  using dict_follow_trans [of cand_follow] dict_follow_trans [of gen_follow]
  by (blast intro: cand_follow_trans gen_follow_trans identity_follow_trans pins_follow_trans)

text \<open>The steps of the replay, one lemma per kind of event.\<close>

lemma apply_candidate_follow:
  assumes "apply_candidate b e target = Inr b'"
  shows "builder_follow b b'"
  using assms
proof (cases rule: apply_candidate_Inr)
  case (1 ch cp b1)
  with validate_identity_Inr [OF 1(1)] show ?thesis
    by (auto simp: builder_follow_def follow_defs dict_simps intro: dict_follow_dset dict_follow_refl)
next
  case (2 ch cp b1 cur tested ek)
  then have "(cr_state cur, target) \<in> candidate_edges"
    by (simp add: candidate_edges_def candidate_update_ok_def)
  with 2 validate_identity_Inr [OF 2(1)] show ?thesis
    by (auto simp: builder_follow_def follow_defs dict_simps cand_follow_def
        intro!: dict_follow_dset dict_follow_refl)
qed

lemma apply_generation_follow:
  assumes "apply_generation b e target = Inr b'" "b_champion b \<noteq> None"
  shows "builder_follow b b'"
  using assms(1)
proof (cases rule: apply_generation_Inr)
  case (1 ch cp b1 g cand)
  with validate_identity_Inr [OF 1(1)] show ?thesis
    by (auto simp: builder_follow_def follow_defs dict_simps cand_follow_def
        intro!: dict_follow_dset dict_follow_refl)
next
  case (2 ch cp b1 g gen restore champ' gid')
  then have "(gr_state gen, target) \<in> generation_edges"
    by (simp add: generation_edges_def)
  moreover have "champ' \<noteq> None"
    using 2(7,9,10) assms(2) by (auto simp: champion_update_ok_def restore_ok_def split: if_splits)
  ultimately show ?thesis using 2 validate_identity_Inr [OF 2(1)]
    by (auto simp: builder_follow_def follow_defs dict_simps gen_follow_def
        intro!: dict_follow_dset dict_follow_refl)
qed

lemma apply_bootstrap_follow:
  assumes "apply_bootstrap b e = Inr b'"
  shows "builder_follow b b'"
  using assms
  by (auto simp: apply_bootstrap_def res_simps builder_follow_def follow_defs dict_follow_def
      split: if_splits)

lemma apply_pin_follow:
  assumes "apply_pin b e = Inr b'"
  shows "builder_follow b b'"
  using assms
  by (auto simp: apply_pin_def res_simps builder_follow_def follow_defs dict_follow_refl dict_simps
      split: if_splits)

lemma apply_unpin_follow:
  assumes "apply_unpin b e = Inr b'"
  shows "builder_follow b b'"
  using assms
  by (auto simp: apply_unpin_def res_simps builder_follow_def follow_defs dict_follow_refl dict_simps
      split: if_splits option.splits)

lemma builder_apply_follow:
  assumes "builder_apply b e = Inr b'"
  shows "builder_follow b b'"
proof -
  let ?b = "b\<lparr>b_original_hash := Some (original_hash (ev_prov e))\<rparr>"
  from assms have "builder_follow b ?b"
    by (auto simp: builder_apply_def Let_def builder_follow_def follow_defs dict_follow_refl
        split: if_splits)
  moreover from assms have "builder_follow ?b b'"
    by (auto simp: builder_apply_def Let_def split: if_splits option.splits
        dest: apply_candidate_follow apply_generation_follow apply_bootstrap_follow
          apply_pin_follow apply_unpin_follow)
  ultimately show ?thesis by (rule builder_follow_trans)
qed

lemma replay_follow:
  assumes "reg_inv b" "runE builder_apply b es = Inr b'"
  shows "builder_follow b b'"
  using registry.run_step_mono [where R = builder_follow, OF _ _ _ assms]
    builder_apply_follow builder_follow_refl builder_follow_trans by blast

section \<open>A sample log\<close>

text \<open>
  Events with one-letter candidates, used to run the theorems on concrete logs: a bootstrap, the
  full promotion of a candidate, and a rollback.
\<close>

definition sample_hash :: "char \<Rightarrow> string" where
  "sample_hash c = replicate 64 c"

definition sample_prov :: provenance where
  "sample_prov = (let h = sample_hash (CHR ''0'') in
     \<lparr>controller_hash = h, source_hash = h, original_hash = h,
      config_hash = h, schedule_hash = h, policy_hash = h\<rparr>)"

definition sample_event :: "int \<Rightarrow> Transition \<Rightarrow> char option \<Rightarrow> char \<Rightarrow> string option \<Rightarrow> jobj \<Rightarrow> event" where
  "sample_event n tr cand champ ek p = \<lparr>ev_schema_version = 1, ev_sequence = n,
     ev_previous_hash = [], ev_timestamp_utc = [], ev_prov = sample_prov,
     ev_candidate_hash = map_option sample_hash cand,
     ev_candidate_path = map_option (\<lambda>c. [c]) cand, ev_champion_hash = sample_hash champ,
     ev_transition = tr, ev_evaluation_key = ek, ev_reason = ''r'', ev_actor = ''a'',
     ev_payload = p, ev_event_hash = []\<rparr>"

definition sample_promotion :: "int \<Rightarrow> char \<Rightarrow> char \<Rightarrow> string \<Rightarrow> event list" where
  "sample_promotion n cand champ g =
    (let ev = (\<lambda>i tr p. sample_event (n + i) tr (Some cand) champ (Some ''k'') p);
         gp = [(''generation_id'', JStr g)]
     in [ev 0 CANDIDATE_DISCOVERED [], (ev 1 CANDIDATE_CLAIMED [])\<lparr>ev_evaluation_key := None\<rparr>,
         ev 2 EVALUATION_INTEGRITY_STARTED [], ev 3 EVALUATION_SCREEN_STARTED [],
         ev 4 EVALUATION_FINALIST_STARTED [], ev 5 EVALUATION_CONFIRMATION_STARTED [],
         ev 6 CANDIDATE_CONFIRMED [],
         ev 7 GENERATION_PROMOTION_INTENT gp, ev 8 GENERATION_CANARY_STARTED gp,
         ev 9 GENERATION_ROLLOUT_STARTED gp, ev 10 GENERATION_ACTIVATED gp])"

definition sample_rollback :: "int \<Rightarrow> char \<Rightarrow> char \<Rightarrow> string \<Rightarrow> event list" where
  "sample_rollback n cand champ g =
    (let ev = (\<lambda>i tr. sample_event (n + i) tr (Some cand) champ (Some ''k'')
         [(''generation_id'', JStr g), (''restore_champion_hash'', JStr (sample_hash champ))])
     in [ev 0 GENERATION_ROLLBACK_STARTED, ev 1 GENERATION_ROLLED_BACK])"

definition sample_boot :: event where
  "sample_boot = sample_event 1 CHAMPION_BOOTSTRAPPED None (CHR ''a'') None
     [(''generation_id'', JStr ''g0'')]"

definition sample_log :: "event list" where
  "sample_log = sample_boot # sample_promotion 2 (CHR ''b'') (CHR ''a'') ''g1''"

definition sample_state :: builder where
  "sample_state = projr (runE builder_apply builder_init sample_log)"

lemma Inr_projr: "\<not> isl x \<Longrightarrow> x = Inr (projr x)"
  by (cases x) auto

lemma sample_run: "runE builder_apply builder_init sample_log = Inr sample_state"
  unfolding sample_state_def by (rule Inr_projr) code_simp

section \<open>Safety of the champion\<close>

text \<open>
  C1. In every projection replayed from an event log, the current champion comes from a recorded
  generation: either the bootstrap generation, or a generation of a candidate that is CONFIRMED,
  has a non-null evaluation key, and was tested against the champion that the generation
  replaces. No other model can become champion.
\<close>

theorem champion_is_confirmed:
  assumes "runE builder_apply builder_init es = Inr b" and "b_champion b = Some h"
  shows "\<exists>g r. dget (b_generations b) g = Some r \<and> gr_candidate_hash r = h
    \<and> (gr_previous_champion_hash r = None
       \<or> (\<exists>c. dget (b_candidates b) h = Some c \<and> cr_state c = CONFIRMED
            \<and> cr_generation_id c = Some g \<and> cr_evaluation_key c \<noteq> None
            \<and> cr_evaluation_key c = gr_evaluation_key r
            \<and> cr_tested_champion_hash c = gr_previous_champion_hash r))"
proof -
  from assms(1) have inv: "reg_inv b" by (rule replay_inv)
  from inv assms(2) obtain g r where r: "dget (b_generations b) g = Some r" "gr_candidate_hash r = h"
    by (rule champ_okE)
  show ?thesis
  proof (cases "gr_previous_champion_hash r")
    case None
    with r show ?thesis by blast
  next
    case (Some p)
    from inv r(1) Some obtain c where c: "dget (b_candidates b) (gr_candidate_hash r) = Some c"
      "cr_state c = CONFIRMED" "cr_generation_id c = Some g" "cr_tested_champion_hash c = Some p"
      "cr_evaluation_key c = gr_evaluation_key r" by (rule gen_candidate_ex)
    moreover from reg_inv_candD [OF inv c(1)] c(2) have "cr_evaluation_key c \<noteq> None"
      by (simp add: cand_ok_def)
    ultimately show ?thesis using r Some by metis
  qed
qed

lemma champion_is_confirmed_witness:
  "runE builder_apply builder_init sample_log = Inr sample_state
   \<and> b_champion sample_state = Some (sample_hash (CHR ''b''))
   \<and> (\<exists>g r. dget (b_generations sample_state) g = Some r
        \<and> gr_candidate_hash r = sample_hash (CHR ''b''))"
proof -
  have c: "b_champion sample_state = Some (sample_hash (CHR ''b''))" by code_simp
  with champion_is_confirmed [OF sample_run c] sample_run show ?thesis by blast
qed

text \<open>Which handler an event reached, and what a generation event does to the champion.\<close>

lemma builder_apply_cases:
  assumes "builder_apply b e = Inr b'"
  obtains "ev_transition e = CHAMPION_BOOTSTRAPPED"
      "apply_bootstrap (b\<lparr>b_original_hash := Some (original_hash (ev_prov e))\<rparr>) e = Inr b'"
  | t where "candidate_target (ev_transition e) = Some t" "b_champion b \<noteq> None"
      "apply_candidate (b\<lparr>b_original_hash := Some (original_hash (ev_prov e))\<rparr>) e t = Inr b'"
  | t where "generation_target (ev_transition e) = Some t" "b_champion b \<noteq> None"
      "apply_generation (b\<lparr>b_original_hash := Some (original_hash (ev_prov e))\<rparr>) e t = Inr b'"
  | "ev_transition e = REFERENCE_PINNED" "b_champion b \<noteq> None"
      "apply_pin (b\<lparr>b_original_hash := Some (original_hash (ev_prov e))\<rparr>) e = Inr b'"
  | "ev_transition e = REFERENCE_UNPINNED" "b_champion b \<noteq> None"
      "apply_unpin (b\<lparr>b_original_hash := Some (original_hash (ev_prov e))\<rparr>) e = Inr b'"
  using assms by (auto simp: builder_apply_def Let_def split: if_splits option.splits)

lemma legal_to_active: "ACTIVE \<in> set (legal_generation s) \<Longrightarrow> s = ROLLOUT"
  by (cases s) auto

lemma legal_to_rolled_back: "ROLLED_BACK \<in> set (legal_generation s) \<Longrightarrow> s = ROLLBACK_PENDING"
  by (cases s) auto

lemma generation_champion_step:
  assumes "apply_generation b e t = Inr b'" and diff: "b_champion b' \<noteq> b_champion b"
  obtains g r where "dget (b_generations b) g = Some r" "t = ACTIVE" "gr_state r = ROLLOUT"
      "b_champion b = gr_previous_champion_hash r" "b_champion b' = Some (gr_candidate_hash r)"
      "b_generation_id b' = Some g"
  | g r where "dget (b_generations b) g = Some r" "t = ROLLED_BACK" "gr_state r = ROLLBACK_PENDING"
      "b_champion b = Some (gr_candidate_hash r)" "b_champion b' = gr_previous_champion_hash r"
  using assms(1)
proof (cases rule: apply_generation_Inr)
  case (1 ch cp b1 g cand)
  with diff validate_identity_Inr [OF 1(1)] show ?thesis by simp
next
  case (2 ch cp b1 g gen restore champ' gid')
  from 2 diff validate_identity_Inr [OF 2(1)] consider "t = ACTIVE" | "t = ROLLED_BACK"
    by (auto simp: champion_update_ok_def split: if_splits)
  then show ?thesis
  proof cases
    case 1
    with 2 legal_to_active show ?thesis
      by (intro that(1) [OF 2(4)]) (auto simp: champion_update_ok_def)
  next
    case t: 2
    with 2 diff legal_to_rolled_back show ?thesis
      by (intro that(2) [OF 2(4)]) (auto simp: champion_update_ok_def restore_ok_def)
  qed
qed

text \<open>
  C2. Compare-and-swap: an event that changes the champion of a projection is the bootstrap of
  an empty registry, or the activation of a generation in ROLLOUT whose recorded
  previous champion is the champion being replaced, or the completion of a pending rollback that
  restores exactly the previous champion of the generation whose candidate was serving.
\<close>

theorem champion_moves_only_by_cas:
  assumes step: "builder_apply b e = Inr b'" and diff: "b_champion b' \<noteq> b_champion b"
  shows "ev_transition e = CHAMPION_BOOTSTRAPPED \<and> b_champion b = None
           \<and> b_champion b' = Some (ev_champion_hash e)
    \<or> ev_transition e = GENERATION_ACTIVATED \<and> (\<exists>g r. dget (b_generations b) g = Some r
           \<and> gr_state r = ROLLOUT \<and> b_champion b = gr_previous_champion_hash r
           \<and> b_champion b' = Some (gr_candidate_hash r) \<and> b_generation_id b' = Some g)
    \<or> ev_transition e = GENERATION_ROLLED_BACK \<and> (\<exists>g r. dget (b_generations b) g = Some r
           \<and> gr_state r = ROLLBACK_PENDING \<and> b_champion b = Some (gr_candidate_hash r)
           \<and> b_champion b' = gr_previous_champion_hash r)"
proof -
  have tr: "generation_target (ev_transition e) = Some ACTIVE \<Longrightarrow> ev_transition e = GENERATION_ACTIVATED"
    "generation_target (ev_transition e) = Some ROLLED_BACK \<Longrightarrow> ev_transition e = GENERATION_ROLLED_BACK"
    by (cases "ev_transition e"; simp)+
  from step show ?thesis
  proof (cases rule: builder_apply_cases)
    case 1
    then show ?thesis by (auto simp: apply_bootstrap_def res_simps split: if_splits)
  next
    case (2 t)
    from 2(3) have "b_champion b' = b_champion b"
      by (rule apply_candidate_Inr) (auto dest!: validate_identity_Inr)
    with diff show ?thesis by blast
  next
    case (3 t)
    from 3(3) show ?thesis by (rule generation_champion_step) (use 3 tr diff in auto)
  next
    case 4
    with diff show ?thesis by (auto simp: apply_pin_def res_simps split: if_splits)
  next
    case 5
    with diff show ?thesis by (auto simp: apply_unpin_def res_simps split: if_splits option.splits)
  qed
qed

lemma champion_moves_only_by_cas_witness:
  "\<exists>b'. builder_apply builder_init sample_boot = Inr b' \<and> b_champion b' \<noteq> b_champion builder_init
     \<and> b_champion b' = Some (ev_champion_hash sample_boot)"
proof -
  let ?b = "projr (builder_apply builder_init sample_boot)"
  have s: "builder_apply builder_init sample_boot = Inr ?b" by (rule Inr_projr) code_simp
  have d: "b_champion ?b \<noteq> b_champion builder_init" by code_simp
  have "ev_transition sample_boot = CHAMPION_BOOTSTRAPPED" by code_simp
  with champion_moves_only_by_cas [OF s d] s d show ?thesis by auto
qed

text \<open>
  C28. Candidate lifecycle: replaying any further events never forgets a candidate, moves it only
  along the edges of \<open>_LEGAL_CANDIDATE_TRANSITIONS\<close>, keeps its parent champion, and leaves a
  candidate in a terminal state (SUPERSEDED, REJECTED, QUARANTINED, CONFIRMED) in that state.
\<close>

theorem candidate_lifecycle:
  assumes "runE builder_apply builder_init es = Inr b" and "runE builder_apply b es' = Inr b'"
    and "dget (b_candidates b) ch = Some c"
  shows "\<exists>c'. dget (b_candidates b') ch = Some c' \<and> (cr_state c, cr_state c') \<in> candidate_edges\<^sup>*
    \<and> cr_parent_champion_hash c' = cr_parent_champion_hash c
    \<and> (cr_state c \<in> {SUPERSEDED, REJECTED, C_QUARANTINED, CONFIRMED} \<longrightarrow> cr_state c' = cr_state c)"
proof -
  from replay_follow [OF replay_inv [OF assms(1)] assms(2)] assms(3) obtain c'
    where c': "dget (b_candidates b') ch = Some c'" "cand_follow c c'"
    by (auto simp: builder_follow_def candidates_follow_def dict_follow_def)
  have "cr_state c' = cr_state c" if "cr_state c \<in> {SUPERSEDED, REJECTED, C_QUARANTINED, CONFIRMED}"
  proof -
    from c'(2) have "(cr_state c, cr_state c') \<in> candidate_edges\<^sup>*" by (simp add: cand_follow_def)
    then show ?thesis using that
      by (cases rule: converse_rtranclE) (auto simp: candidate_edges_def)
  qed
  with c' show ?thesis by (auto simp: cand_follow_def)
qed

lemma candidate_lifecycle_witness:
  "\<exists>c'. dget (b_candidates sample_state) (sample_hash (CHR ''b'')) = Some c'
     \<and> cr_state c' = CONFIRMED \<and> cr_generation_id c' = Some ''g1''"
proof -
  let ?b = "projr (runE builder_apply builder_init (take 8 sample_log))"
  let ?c = "the (dget (b_candidates ?b) (sample_hash (CHR ''b'')))"
  have a: "runE builder_apply builder_init (take 8 sample_log) = Inr ?b" by (rule Inr_projr) code_simp
  have c: "dget (b_candidates ?b) (sample_hash (CHR ''b'')) = Some ?c"
    "cr_state ?c = CONFIRMED" by code_simp+
  from sample_run have "runE builder_apply builder_init (take 8 sample_log @ drop 8 sample_log)
      = Inr sample_state" by simp
  then obtain x where x: "runE builder_apply builder_init (take 8 sample_log) = Inr x"
    "runE builder_apply x (drop 8 sample_log) = Inr sample_state"
    unfolding runE_append bindE_Inr by blast
  then have "?b = x" by simp
  with x have r: "runE builder_apply ?b (drop 8 sample_log) = Inr sample_state" by simp
  have g: "cr_generation_id (the (dget (b_candidates sample_state) (sample_hash (CHR ''b'')))) = Some ''g1''"
    by code_simp
  from candidate_lifecycle [OF a r c(1)] c(2) g show ?thesis by auto
qed

text \<open>
  C29. Generation lifecycle: replaying any further events keeps every generation with its
  candidate, previous champion and evaluation key, moves it only along
  \<open>_LEGAL_GENERATION_TRANSITIONS\<close>, and never reopens a rolled-back or quarantined generation.
\<close>

theorem generation_lifecycle:
  assumes "runE builder_apply builder_init es = Inr b" and "runE builder_apply b es' = Inr b'"
    and "dget (b_generations b) g = Some r"
  shows "\<exists>r'. dget (b_generations b') g = Some r' \<and> (gr_state r, gr_state r') \<in> generation_edges\<^sup>*
    \<and> gr_candidate_hash r' = gr_candidate_hash r
    \<and> gr_previous_champion_hash r' = gr_previous_champion_hash r
    \<and> gr_evaluation_key r' = gr_evaluation_key r
    \<and> (gr_state r \<in> {ROLLED_BACK, G_QUARANTINED} \<longrightarrow> gr_state r' = gr_state r)"
proof -
  from replay_follow [OF replay_inv [OF assms(1)] assms(2)] assms(3) obtain r'
    where r': "dget (b_generations b') g = Some r'" "gen_follow r r'"
    by (auto simp: builder_follow_def generations_follow_def dict_follow_def)
  have "gr_state r' = gr_state r" if "gr_state r \<in> {ROLLED_BACK, G_QUARANTINED}"
  proof -
    from r'(2) have "(gr_state r, gr_state r') \<in> generation_edges\<^sup>*" by (simp add: gen_follow_def)
    then show ?thesis using that
      by (cases rule: converse_rtranclE) (auto simp: generation_edges_def)
  qed
  with r' show ?thesis by (auto simp: gen_follow_def)
qed

lemma generation_lifecycle_witness:
  "\<exists>b' r'. runE builder_apply sample_state (sample_rollback 13 (CHR ''b'') (CHR ''a'') ''g1'') = Inr b'
     \<and> dget (b_generations b') ''g1'' = Some r'
     \<and> gr_candidate_hash r' = sample_hash (CHR ''b'') \<and> gr_state r' = ROLLED_BACK"
proof -
  let ?es = "sample_rollback 13 (CHR ''b'') (CHR ''a'') ''g1''"
  let ?b = "projr (runE builder_apply sample_state ?es)"
  let ?r = "the (dget (b_generations sample_state) ''g1'')"
  have a: "runE builder_apply sample_state ?es = Inr ?b" by (rule Inr_projr) code_simp
  have r: "dget (b_generations sample_state) ''g1'' = Some ?r"
    "gr_candidate_hash ?r = sample_hash (CHR ''b'')" by code_simp+
  have s: "gr_state (the (dget (b_generations ?b) ''g1'')) = ROLLED_BACK" by code_simp
  from generation_lifecycle [OF sample_run a r(1)] r(2) s a show ?thesis by auto
qed

section \<open>Retention\<close>





section \<open>A rolled-back candidate that serves again\<close>

definition replay_log :: "event list" where
  "replay_log = sample_log @ sample_promotion 13 (CHR ''a'') (CHR ''b'') ''g2''
     @ sample_rollback 24 (CHR ''b'') (CHR ''a'') ''g1''
     @ sample_rollback 26 (CHR ''a'') (CHR ''b'') ''g2''"

text \<open>
  The registry does not compare a candidate with earlier champions: in a log where the bootstrap
  champion is promoted again over its successor, rolling back both generations in the order of
  their creation is accepted and ends with the successor serving as champion although its only
  generation is ROLLED_BACK.
\<close>

theorem rolled_back_candidate_serves:
  "\<exists>b r. runE builder_apply builder_init replay_log = Inr b
     \<and> b_champion b = Some (sample_hash (CHR ''b'')) \<and> dget (b_generations b) ''g1'' = Some r
     \<and> gr_candidate_hash r = sample_hash (CHR ''b'') \<and> gr_state r = ROLLED_BACK
     \<and> map gr_generation_id (filter (\<lambda>g. gr_candidate_hash g = sample_hash (CHR ''b''))
         (dvals (b_generations b))) = [''g1'']"
proof -
  have "case runE builder_apply builder_init replay_log of Inl _ \<Rightarrow> False
     | Inr b \<Rightarrow> b_champion b = Some (sample_hash (CHR ''b''))
        \<and> (case dget (b_generations b) ''g1'' of None \<Rightarrow> False
           | Some r \<Rightarrow> gr_candidate_hash r = sample_hash (CHR ''b'') \<and> gr_state r = ROLLED_BACK)
        \<and> map gr_generation_id (filter (\<lambda>g. gr_candidate_hash g = sample_hash (CHR ''b''))
            (dvals (b_generations b))) = [''g1'']"
    by code_simp
  then show ?thesis by (auto split: sum.splits option.splits)
qed

end
