(* ===== verification/Promotion_Log.thy ===== *)
theory Promotion_Log
  imports Promotion_Registry Promotion_Props
begin

text \<open>
  The durable log: the round trip of an event through its file, and the agreement of appending with
  reconstruction.
\<close>

section \<open>The round trip of an event\<close>

text \<open>
  What the registry relies on from the \<^verbatim>\<open>json\<close> package: decoding the encoding of a value with
  finite numbers and unique, sorted keys gives the value back.
\<close>

definition json_roundtrip :: "promo_env \<Rightarrow> bool" where
  "json_roundtrip env \<longleftrightarrow> (\<forall>v. jfinite v \<and> unique_object v \<and> jnorm v = v \<longrightarrow>
     loads env (dumps env v @ newline) = Some v)"

lemma body_dict_ok:
  assumes "payload_ok (ev_payload e)"
  shows "payload_ok (body_dict e)"
proof -
  from assms have p: "jfinite (JObj (ev_payload e))" "unique_object (JObj (ev_payload e))"
    "jnorm (JObj (ev_payload e)) = JObj (ev_payload e)" by (auto simp: payload_ok_def)
  have j: "jfinite (jopt x)" "unique_object (jopt x)" "jnorm (jopt x) = jopt x" for x
    by (cases x; simp)+
  have "sorted_wrt (<) (map fst (body_dict e))"
    unfolding body_dict_def by simp
  moreover have "\<forall>v \<in> snd ` set (body_dict e). jfinite v \<and> unique_object v \<and> jnorm v = v"
    using p j unfolding body_dict_def by (simp del: jfinite.simps(3) unique_object.simps(2) jnorm.simps(2))
  ultimately show ?thesis by (simp add: payload_ok_iff)
qed

lemma event_dict_ok: "payload_ok (ev_payload e) \<Longrightarrow> payload_ok (event_to_dict e)"
  unfolding event_to_dict_def by (rule payload_ok_jset) (simp_all add: body_dict_ok)

lemma event_fields_to_dict: "set (map fst (event_to_dict e)) = set event_fields"
  unfolding event_to_dict_def set_map jset_keys body_dict_def event_fields_def by auto

lemma jget_event_to_dict:
  "jget (event_to_dict e) k = (if k = ''event_hash'' then JStr (ev_event_hash e) else jget (body_dict e) k)"
  unfolding event_to_dict_def jget_jset by simp

lemma as_opt_str_jopt [simp]: "as_opt_str (jopt x) = Some x"
  by (cases x) simp_all

lemma event_of_fields_to_dict:
  assumes "payload_ok (ev_payload e)"
  shows "event_of_fields (event_to_dict e) = Some e"
  using payload_ok_jcanon [OF assms] unfolding event_of_fields_def jget_event_to_dict
  by (simp add: body_dict_def jget_def)

lemma event_from_to_dict:
  assumes "event_verify env e = Inr ()" "payload_ok (ev_payload e)"
  shows "event_from_dict env (JObj (event_to_dict e)) = Inr e"
  using assms unfolding event_from_dict_def
  by (simp only: event_fields_to_dict event_of_fields_to_dict json.case option.case bindE_simps) simp

lemma decode_event_bytes:
  assumes "json_roundtrip env" "payload_ok (ev_payload e)"
  shows "decode_json env (event_bytes env e) = Inr (JObj (event_to_dict e))"
proof -
  from event_dict_ok [OF assms(2)] have "jfinite (JObj (event_to_dict e))"
    "unique_object (JObj (event_to_dict e))" "jnorm (JObj (event_to_dict e)) = JObj (event_to_dict e)"
    by (auto simp: payload_ok_def)
  moreover from this assms(1)
  have "loads env (dumps env (JObj (event_to_dict e)) @ newline) = Some (JObj (event_to_dict e))"
    unfolding json_roundtrip_def by blast
  ultimately show ?thesis unfolding decode_json_def event_bytes_def by (simp only: option.case if_True)
qed

lemma event_build_Inr:
  assumes "event_build env seq prev ts prov ch cp champ tr ek reason actor payload = Inr e"
  shows "event_verify env e = Inr ()" "jcanon payload = Some (ev_payload e)"
    "ev_sequence e = seq" "ev_previous_hash e = prev" "ev_timestamp_utc e = ts" "ev_prov e = prov"
    "ev_candidate_hash e = ch" "ev_candidate_path e = cp" "ev_champion_hash e = champ"
    "ev_transition e = tr" "ev_evaluation_key e = ek" "ev_reason e = reason" "ev_actor e = actor"
  using assms by (auto simp: event_build_def res_simps Let_def split: option.splits)

lemma event_verify_Inr:
  assumes "event_verify env e = Inr ()"
  shows "1 \<le> ev_sequence e" "ev_sequence e < 10 ^ 20" "ev_schema_version e = 1"
    "ev_event_hash e = canonical_sha256 env (JObj (body_dict e))"
  using assms
  by (auto simp: event_verify_def EVENT_SEQUENCE_WIDTH_def EVENT_SCHEMA_VERSION_def split: if_splits)

section \<open>Reading the log\<close>

definition log_end :: "string \<Rightarrow> event list \<Rightarrow> string" where
  "log_end prev es = (if es = [] then prev else ev_event_hash (last es))"

text \<open>One file accepted by the reader.\<close>

definition file_event :: "promo_env \<Rightarrow> int \<times> fentry \<Rightarrow> event \<Rightarrow> bool" where
  "file_event env qf e \<longleftrightarrow> snd qf = RegularFile (event_bytes env e) \<and> fst qf = ev_sequence e
     \<and> int (length (event_bytes env e)) \<le> MAX_JSON_BYTES
     \<and> bindE (decode_json env (event_bytes env e)) (event_from_dict env) = Inr e"

lemma file_event_pair: "file_event env (q, f) e \<longleftrightarrow> f = RegularFile (event_bytes env e)
     \<and> q = ev_sequence e \<and> int (length (event_bytes env e)) \<le> MAX_JSON_BYTES
     \<and> (\<exists>v. decode_json env (event_bytes env e) = Inr v \<and> event_from_dict env v = Inr e)"
  by (simp add: file_event_def res_simps)

text \<open>A hash chain of consecutively numbered events that starts after a given hash.\<close>

fun chained :: "int \<Rightarrow> string \<Rightarrow> event list \<Rightarrow> bool" where
  "chained n prev [] = True"
| "chained n prev (e # es) \<longleftrightarrow> ev_sequence e = n \<and> ev_previous_hash e = prev
     \<and> chained (n + 1) (ev_event_hash e) es"

lemma chained_append:
  "chained n prev (es @ fs) \<longleftrightarrow> chained n prev es \<and> chained (n + int (length es)) (log_end prev es) fs"
  by (induction es arbitrary: n prev) (auto simp: log_end_def algebra_simps)

lemma chained_last: "chained n prev es \<Longrightarrow> es \<noteq> [] \<Longrightarrow> ev_sequence (last es) = n + int (length es) - 1"
  by (induction es arbitrary: n prev) (auto split: if_splits)

lemma read_events_iff:
  "read_events env n prev ps = Inr es \<longleftrightarrow> list_all2 (file_event env) ps es \<and> chained n prev es"
proof (induction ps arbitrary: n prev es)
  case Nil
  then show ?case by auto
next
  case (Cons p ps)
  obtain q f where p: "p = (q, f)" by (cases p)
  show ?case
  proof
    assume "read_events env n prev (p # ps) = Inr es"
    with Cons show "list_all2 (file_event env) (p # ps) es \<and> chained n prev es"
      by (auto simp: p res_simps read_regular_file_def file_event_pair
          split: if_splits fentry.splits)
  next
    assume r: "list_all2 (file_event env) (p # ps) es \<and> chained n prev es"
    then obtain e es' where es: "es = e # es'" "file_event env p e" "list_all2 (file_event env) ps es'"
      by (cases es) auto
    with r Cons have "read_events env (n + 1) (ev_event_hash e) ps = Inr es'" by simp
    with es r show "read_events env n prev (p # ps) = Inr es"
      by (auto simp: p res_simps file_event_pair read_regular_file_def)
  qed
qed


lemma read_events_snoc:
  assumes "read_events env n prev ps = Inr es" "file_event env p e"
    "ev_sequence e = n + int (length es)" "ev_previous_hash e = log_end prev es"
  shows "read_events env n prev (ps @ [p]) = Inr (es @ [e])"
  using assms by (simp add: read_events_iff chained_append list_all2_appendI)

lemma file_event_codec:
  assumes "json_roundtrip env" "event_verify env e = Inr ()" "payload_ok (ev_payload e)"
    "int (length (event_bytes env e)) \<le> MAX_JSON_BYTES"
  shows "file_event env (ev_sequence e, RegularFile (event_bytes env e)) e"
  using assms decode_event_bytes event_from_to_dict by (simp add: file_event_pair)

lemma file_event_verified:
  assumes "file_event env p e"
  shows "event_verify env e = Inr ()" "payload_ok (ev_payload e)"
proof -
  from assms obtain v where v: "decode_json env (event_bytes env e) = Inr v"
    "event_from_dict env v = Inr e" by (auto simp: file_event_def res_simps)
  then show "event_verify env e = Inr ()"
    by (auto simp: event_from_dict_def res_simps split: json.splits if_splits option.splits)
  from v(1) obtain w where w: "v = jnorm w" "unique_object v"
    by (auto simp: decode_json_def split: option.splits if_splits)
  from v(2) obtain p where p: "v = JObj p" "event_of_fields p = Some e"
    by (auto simp: event_from_dict_def res_simps split: json.splits if_splits option.splits)
  from p(2) have pl: "as_payload (jget p ''payload'') = Some (ev_payload e)"
    by (auto simp: event_of_fields_def bind_eq_Some_conv)
  have "unique_object (jget p ''payload'')"
    using w(2) p(1) by (auto simp: jget_def list_all_iff split: option.splits dest: map_of_SomeD)
  with pl show "payload_ok (ev_payload e)"
    by (cases "jget p ''payload''") (auto intro: jcanon_payload_ok)
qed

section \<open>Event file names\<close>

lemma length_nat_digits: "n < 10 ^ k \<Longrightarrow> 0 < k \<Longrightarrow> length (nat_digits n) \<le> k"
proof (induction n arbitrary: k rule: nat_digits.induct)
  case (1 n)
  show ?case
  proof (cases "n < 10")
    case True
    with 1 show ?thesis by (simp add: nat_digits.simps [of n])
  next
    case False
    from 1(3) obtain i where "k = Suc i" by (cases k) auto
    with 1(2) False obtain j where j: "k = Suc j" "0 < j" by (cases i) auto
    with 1(2) have "n div 10 < 10 ^ j" by (simp add: less_mult_imp_div_less mult.commute)
    with 1(1) [OF False] j False show ?thesis by (simp add: nat_digits.simps [of n])
  qed
qed

lemma ascii_nat_digits: "list_all ascii_digit (nat_digits n)"
proof (induction n rule: nat_digits.induct)
  case (1 n)
  have "ascii_digit (char_of (48 + m))" if "m < 10" for m :: nat
    using that by (simp add: ascii_digit_def of_char_of)
  with 1 show ?case by (subst nat_digits.simps) auto
qed

lemma event_file_seq_name:
  assumes "0 \<le> q" "q < 10 ^ 20"
  shows "event_file_seq (event_file_name q) = Some q"
proof -
  from assms have "nat q < 10 ^ 20" by (simp add: nat_less_iff)
  then have "length (nat_digits (nat q)) \<le> 20" by (rule length_nat_digits) simp
  then have "length (fmt_0d 20 q) = 20" using assms(1) by (simp add: fmt_0d_def pad_zeros_def)
  moreover have "list_all ascii_digit (fmt_0d 20 q)"
    using assms(1) ascii_nat_digits [of "nat q"]
    by (auto simp: fmt_0d_def pad_zeros_def list_all_iff ascii_digit_def)
  ultimately show ?thesis using dec_val_fmt_0d [OF assms(1), of 20]
    by (simp add: event_file_seq_def event_file_name_def EVENT_SEQUENCE_WIDTH_def)
qed

lemma scan_events_snoc:
  assumes "scan_events d = Inr ps" "event_file_seq name = Some q"
  shows "scan_events (d @ [(name, f)]) = Inr (ps @ [(q, f)])"
  using assms
  by (induction d arbitrary: ps rule: scan_events.induct) (auto simp: res_simps split: option.splits if_splits)

lemma scan_events_member:
  assumes "scan_events d = Inr ps" "(name, f) \<in> set d" "event_file_seq name = Some q"
  shows "(q, f) \<in> set ps"
  using assms
  by (induction d arbitrary: ps rule: scan_events.induct) (auto simp: res_simps split: option.splits if_splits)

lemma insort_key_snoc: "f a \<le> f x \<Longrightarrow> insort_key f a (ys @ [x]) = insort_key f a ys @ [x]"
  by (induction ys) auto

lemma sort_key_snoc: "(\<forall>a \<in> set xs. f a \<le> f x) \<Longrightarrow> sort_key f (xs @ [x]) = sort_key f xs @ [x]"
  by (induction xs) (auto simp: insort_key_snoc)

section \<open>Appending and reconstructing\<close>

lemma state_from_events_Inr:
  assumes "state_from_events es = Inr st"
  shows "runE builder_apply builder_init es = Inr (rs_builder st)" "rs_events st = es"
  using assms by (auto simp: state_from_events_def res_simps)

lemma reconstruct_Inr:
  assumes "reconstruct env d = Inr st"
  obtains ps where "event_paths d = Inr ps" "list_all2 (file_event env) ps (rs_events st)"
    "chained 1 GENESIS_HASH (rs_events st)" "state_from_events (rs_events st) = Inr st"
    "rs_last_sequence st = int (length (rs_events st))"
    "rs_last_event_hash st = log_end GENESIS_HASH (rs_events st)"
proof -
  from assms obtain ps es where p: "event_paths d = Inr ps" "list_all2 (file_event env) ps es"
    "chained 1 GENESIS_HASH es" "state_from_events es = Inr st"
    by (auto simp: reconstruct_def res_simps read_events_iff)
  then have s: "rs_events st = es" "rs_last_sequence st = (if es = [] then 0 else ev_sequence (last es))"
    "rs_last_event_hash st = log_end GENESIS_HASH es"
    by (auto simp: state_from_events_def res_simps log_end_def)
  with p chained_last [OF p(3)] show ?thesis by (intro that [of ps]) auto
qed

lemma file_seqs:
  assumes "list_all2 (file_event env) ps es" "chained n prev es" "(q, f) \<in> set ps"
  shows "n \<le> q \<and> q < n + int (length es)"
  using assms
proof (induction ps es arbitrary: n prev rule: list_all2_induct)
  case (Cons p ps e es)
  then show ?case by (fastforce simp: file_event_def)
qed simp

lemma append_event_Inr:
  assumes "append_event env d tr rq ch cp ek payload = Inr (e, d')"
  obtains st st' entries where "reconstruct env d = Inr st"
    "event_build env (rs_last_sequence st + 1) (rs_last_event_hash st)
       (case rq_timestamp_utc rq of None \<Rightarrow> utc_now env | Some t \<Rightarrow> t) (rq_prov rq)
       ch cp (rq_champion_hash rq) tr ek (rq_reason rq) (rq_actor rq) payload = Inr e"
    "state_from_events (rs_events st @ [e]) = Inr st'"
    "ensure_directories d = Inr entries"
    "event_file_name (ev_sequence e) \<notin> fst ` set entries"
    "d' = Directory (entries @ [(event_file_name (ev_sequence e), RegularFile (event_bytes env e))])"
  using assms
  by (auto simp: append_event_def Let_def res_simps atomic_create_bytes_def split: if_splits)

lemma ensure_directories_scan:
  assumes "ensure_directories d = Inr entries" "event_paths d = Inr ps"
  obtains qs where "scan_events entries = Inr qs" "ps = sort_key fst qs"
  using assms by (cases d) (auto simp: event_paths_def res_simps)

lemma append_reconstruct:
  assumes "append_event env d tr rq ch cp ek payload = Inr (e, d')"
    and "json_roundtrip env" "unique_object (JObj payload)"
    and "int (length (event_bytes env e)) \<le> MAX_JSON_BYTES"
  obtains st st' where "reconstruct env d = Inr st" "reconstruct env d' = Inr st'"
    "rs_events st' = rs_events st @ [e]" "builder_apply (rs_builder st) e = Inr (rs_builder st')"
proof -
  from assms(1) obtain st st' entries where a: "reconstruct env d = Inr st"
    "event_build env (rs_last_sequence st + 1) (rs_last_event_hash st)
       (case rq_timestamp_utc rq of None \<Rightarrow> utc_now env | Some t \<Rightarrow> t) (rq_prov rq)
       ch cp (rq_champion_hash rq) tr ek (rq_reason rq) (rq_actor rq) payload = Inr e"
    "state_from_events (rs_events st @ [e]) = Inr st'" "ensure_directories d = Inr entries"
    "d' = Directory (entries @ [(event_file_name (ev_sequence e), RegularFile (event_bytes env e))])"
    by (rule append_event_Inr)
  note e = event_build_Inr [OF a(2)]
  from a(1) obtain ps where r: "event_paths d = Inr ps" "list_all2 (file_event env) ps (rs_events st)"
    "chained 1 GENESIS_HASH (rs_events st)" "state_from_events (rs_events st) = Inr st"
    "rs_last_sequence st = int (length (rs_events st))"
    "rs_last_event_hash st = log_end GENESIS_HASH (rs_events st)" by (rule reconstruct_Inr)
  from a(4) r(1) obtain qs where q: "scan_events entries = Inr qs" "ps = sort_key fst qs"
    by (rule ensure_directories_scan)
  let ?new = "(ev_sequence e, RegularFile (event_bytes env e))"
  have "event_file_seq (event_file_name (ev_sequence e)) = Some (ev_sequence e)"
    using event_verify_Inr [OF e(1)] by (intro event_file_seq_name) simp_all
  with q(1) a(5) have "event_paths d' = Inr (sort_key fst (qs @ [?new]))"
    by (simp add: event_paths_def scan_events_snoc)
  moreover have "\<forall>p \<in> set qs. fst p \<le> fst ?new"
    using file_seqs [OF r(2,3)] q(2) e(3) r(5) by fastforce
  ultimately have paths: "event_paths d' = Inr (ps @ [?new])" by (simp add: sort_key_snoc q(2))
  have "file_event env ?new e"
    using assms(2-4) e(1,2) by (intro file_event_codec) (auto intro: jcanon_payload_ok)
  with r e have "read_events env 1 GENESIS_HASH (ps @ [?new]) = Inr (rs_events st @ [e])"
    by (intro read_events_snoc) (simp_all add: read_events_iff)
  with paths a(3) have "reconstruct env d' = Inr st'" by (simp add: reconstruct_def)
  moreover have "builder_apply (rs_builder st) e = Inr (rs_builder st')" "rs_events st' = rs_events st @ [e]"
    using state_from_events_Inr [OF a(3)] state_from_events_Inr [OF r(4)] by (auto simp: res_simps)
  ultimately show ?thesis using a(1) that by blast
qed


section \<open>Tamper evidence\<close>

lemma dumps_inject:
  assumes "json_roundtrip env" "dumps env v = dumps env w"
    "jfinite v" "unique_object v" "jnorm v = v" "jfinite w" "unique_object w" "jnorm w = w"
  shows "v = w"
proof -
  note rt = assms(1) [unfolded json_roundtrip_def, THEN spec]
  have "loads env (dumps env v @ newline) = Some v"
    by (rule rt [of v, THEN mp]) (intro conjI assms(3-5))
  moreover have "loads env (dumps env w @ newline) = Some w"
    by (rule rt [of w, THEN mp]) (intro conjI assms(6-8))
  ultimately show ?thesis unfolding assms(2) by (simp only: option.inject)
qed

lemma jopt_inject [simp]: "jopt x = jopt y \<longleftrightarrow> x = y"
  by (cases x; cases y) auto

lemma transition_value_inject: "transition_value s = transition_value t \<longleftrightarrow> s = t"
  using transition_of_value by (metis option.inject)

lemma body_dict_inject:
  assumes "body_dict e = body_dict f" "ev_event_hash e = ev_event_hash f"
  shows "e = f"
  using assms by (simp add: body_dict_def transition_value_inject)

text \<open>The text whose SHA-256 is the hash of an event, and two events whose different texts collide.\<close>

definition hashed_text :: "promo_env \<Rightarrow> event \<Rightarrow> string" where
  "hashed_text env e = dumps env (JObj (body_dict e))"

definition events_collide :: "promo_env \<Rightarrow> event \<Rightarrow> event \<Rightarrow> bool" where
  "events_collide env e f \<longleftrightarrow> hashed_text env e \<noteq> hashed_text env f
     \<and> sha256_bytes env (hashed_text env e) = sha256_bytes env (hashed_text env f)"

lemma event_hash_binds:
  assumes "json_roundtrip env" "file_event env p e" "file_event env q f"
    and "ev_event_hash e = ev_event_hash f"
  shows "e = f \<or> events_collide env e f"
proof (cases "dumps env (JObj (body_dict e)) = dumps env (JObj (body_dict f))")
  case True
  from file_event_verified [OF assms(2)] file_event_verified [OF assms(3)]
  have "payload_ok (body_dict e)" "payload_ok (body_dict f)" by (simp_all add: body_dict_ok)
  with dumps_inject [OF assms(1) True] have "body_dict e = body_dict f"
    unfolding payload_ok_def by blast
  with assms(4) show ?thesis by (simp add: body_dict_inject)
next
  case False
  from file_event_verified [OF assms(2)] file_event_verified [OF assms(3)]
  have "sha256_bytes env (dumps env (JObj (body_dict e))) = sha256_bytes env (dumps env (JObj (body_dict f)))"
    using assms(4) event_verify_Inr(4) by (metis canonical_sha256_def)
  with False show ?thesis by (simp add: events_collide_def hashed_text_def)
qed

lemma chain_binds:
  assumes "json_roundtrip env" "length es = length fs"
    and "list_all2 (file_event env) ps es" "chained n prev es"
    and "list_all2 (file_event env) qs fs" "chained n prev fs"
    and "log_end prev es = log_end prev fs"
  shows "es = fs \<or> (\<exists>k < length es. events_collide env (es ! k) (fs ! k) \<and> drop (Suc k) es = drop (Suc k) fs)"
  using assms(2-)
proof (induction es arbitrary: fs ps qs rule: rev_induct)
  case Nil
  then show ?case by simp
next
  case (snoc e es)
  from snoc.prems(1) obtain f gs where fs: "fs = gs @ [f]" "length es = length gs"
    by (cases fs rule: rev_cases) auto
  with snoc.prems(2,4) obtain p ps' q qs' where pq: "file_event env p e"
    "list_all2 (file_event env) ps' es" "file_event env q f" "list_all2 (file_event env) qs' gs"
    by (auto simp: list_all2_append2 list_all2_Cons2)
  from snoc.prems(6) fs have "ev_event_hash e = ev_event_hash f" by (simp add: log_end_def)
  from event_hash_binds [OF assms(1) pq(1,3) this] show ?case
  proof
    assume ef: "e = f"
    with snoc.prems fs have "chained n prev es" "chained n prev gs" "log_end prev es = log_end prev gs"
      by (simp_all add: chained_append)
    then have "es = gs \<or> (\<exists>k < length es. events_collide env (es ! k) (gs ! k) \<and> drop (Suc k) es = drop (Suc k) gs)"
      by (intro snoc.IH [OF fs(2) pq(2) _ pq(4)])
    then show ?thesis using ef fs by (auto simp: nth_append less_SucI intro: exI [of _ "length es"])
  next
    assume "events_collide env e f"
    then show ?thesis using fs by (auto intro!: exI [of _ "length es"] simp: nth_append)
  qed
qed

section \<open>Appending succeeds\<close>

lemma event_build_ok:
  assumes "jcanon payload = Some p" "jcanon p \<noteq> None" "1 \<le> seq" "seq < 10 ^ 20" "is_sha256 prev"
    "valid_utc_timestamp env ts" "provenance_ok prov" "is_sha256 champ"
    "\<forall>b. is_sha256 (sha256_bytes env b)" "is_nonempty reason" "is_nonempty actor"
    "opt_all is_nonempty ek" "(ch = None) = (cp = None)" "opt_all is_sha256 ch" "opt_all is_nonempty cp"
  shows "\<exists>e. event_build env seq prev ts prov ch cp champ tr ek reason actor payload = Inr e"
  using assms
  by (simp add: event_build_def Let_def event_verify_def EVENT_SCHEMA_VERSION_def
      EVENT_SEQUENCE_WIDTH_def canonical_sha256_def body_dict_def)

lemma append_event_ok:
  assumes "reconstruct env d = Inr st" "is_sha256 (rq_champion_hash rq)" "is_nonempty (rq_reason rq)"
    "is_nonempty (rq_actor rq)" "opt_all is_sha256 ch" "opt_all is_nonempty cp"
    "opt_all (valid_utc_timestamp env) (rq_timestamp_utc rq)"
    and build: "event_build env (rs_last_sequence st + 1) (rs_last_event_hash st)
       (case rq_timestamp_utc rq of None \<Rightarrow> utc_now env | Some t \<Rightarrow> t) (rq_prov rq)
       ch cp (rq_champion_hash rq) tr ek (rq_reason rq) (rq_actor rq) payload = Inr e"
    and step: "builder_apply (rs_builder st) e = Inr b"
  shows "\<exists>d'. append_event env d tr rq ch cp ek payload = Inr (e, d')"
proof -
  from assms(1) obtain ps where r: "event_paths d = Inr ps" "list_all2 (file_event env) ps (rs_events st)"
    "chained 1 GENESIS_HASH (rs_events st)" "state_from_events (rs_events st) = Inr st"
    "rs_last_sequence st = int (length (rs_events st))" by (rule reconstruct_Inr)
  then obtain entries where en: "ensure_directories d = Inr entries"
    by (cases d) (auto simp: event_paths_def)
  from en r(1) obtain qs where q: "scan_events entries = Inr qs" "ps = sort_key fst qs"
    by (rule ensure_directories_scan)
  note e = event_build_Inr [OF build]
  have "event_file_seq (event_file_name (ev_sequence e)) = Some (ev_sequence e)"
    using event_verify_Inr [OF e(1)] by (intro event_file_seq_name) simp_all
  with scan_events_member [OF q(1)] file_seqs [OF r(2,3)] q(2) e(3) r(5)
  have "event_file_name (ev_sequence e) \<notin> fst ` set entries" by fastforce
  moreover from state_from_events_Inr [OF r(4)] step
  have "\<exists>st'. state_from_events (rs_events st @ [e]) = Inr st'"
    by (simp add: state_from_events_def runE_append)
  ultimately show ?thesis using assms en
    by (auto simp: append_event_def Let_def atomic_create_bytes_def)
qed

section \<open>The scan order of the directory\<close>

lemma fixed_width_dec_val:
  assumes "list_all ascii_digit s" "list_all ascii_digit t" "length s = length t" "dec_val s = dec_val t"
  shows "s = t"
  using assms
proof (induction s arbitrary: t rule: rev_induct)
  case (snoc c s)
  then obtain u d where t: "t = u @ [d]" by (cases t rule: rev_cases) auto
  have dig: "48 \<le> (of_char x :: nat)" "(of_char x :: nat) - 48 < 10" if "ascii_digit x" for x
    using that by (auto simp: ascii_digit_def Let_def)
  from snoc.prems t have c: "ascii_digit c" "ascii_digit d" by auto
  from snoc.prems(4) have eq: "10 * dec_val s + (of_char c - 48) = 10 * dec_val u + (of_char d - 48)"
    by (simp add: t dec_val_snoc)
  with dig [OF c(1)] dig [OF c(2)] have s: "dec_val s = dec_val u" by linarith
  with eq dig(1) [OF c(1)] dig(1) [OF c(2)] have "(of_char c :: nat) = of_char d"
    by linarith
  then have "c = d" by simp
  moreover have "s = u"
    by (rule snoc.IH) (use snoc.prems(1-3) t s in simp_all)
  ultimately show ?case by (simp only: t)
qed simp

lemma event_file_seq_inject:
  assumes "event_file_seq m = Some q" "event_file_seq n = Some q"
  shows "m = n"
proof -
  from assms have "take 20 m = take 20 n"
    by (intro fixed_width_dec_val) (auto simp: event_file_seq_def split: if_splits)
  moreover from assms have "drop 20 m = drop 20 n" by (auto simp: event_file_seq_def split: if_splits)
  ultimately show ?thesis by (metis append_take_drop_id)
qed

text \<open>What a scan finds, and when it refuses the directory.\<close>

definition malformed_name :: "string \<Rightarrow> bool" where
  "malformed_name n \<longleftrightarrow> event_file_seq n = None \<and> take 1 n \<noteq> ''.'' \<and> \<not> ends_with n ''.tmp''
     \<and> ends_with n ''.json'' \<and> list_ex py_isdigit (take 1 n)"

lemma scan_events_eq:
  "scan_events d = (if list_ex (\<lambda>p. malformed_name (fst p)) d then Inl RegistryCorruptionError
     else Inr (List.map_filter (\<lambda>(n, f). map_option (\<lambda>q. (q, f)) (event_file_seq n)) d))"
  by (induction d rule: scan_events.induct)
    (auto simp: malformed_name_def map_filter_simps split: option.splits)

lemma scanned_keys_distinct:
  assumes "distinct (map fst d)"
  shows "distinct (map fst (List.map_filter (\<lambda>(n, f). map_option (\<lambda>q. (q, f)) (event_file_seq n)) d))"
  using assms
proof (induction d)
  case (Cons p d)
  obtain n f where p: "p = (n, f)" by (cases p)
  have "q \<notin> fst ` set (List.map_filter (\<lambda>(n, f). map_option (\<lambda>q. (q, f)) (event_file_seq n)) d)"
    if "event_file_seq n = Some q" for q
    using that Cons.prems p event_file_seq_inject by (force simp: map_filter_def)
  with Cons p show ?case by (auto simp: map_filter_simps split: option.splits)
qed (simp add: map_filter_simps)

lemma sort_key_distinct_set:
  assumes "distinct (map f xs)" "distinct (map f ys)" "set xs = set ys"
  shows "sort_key f xs = sort_key f ys"
proof -
  have "map f (sort_key f xs) = map f (sort_key f ys)"
    using assms by (intro sorted_distinct_set_unique) (simp_all add: distinct_map_sort_key)
  with assms show ?thesis
    by (intro map_inj_on [where f = f]) (auto simp: distinct_map)
qed

lemma event_paths_set:
  assumes "set d = set d'" "distinct (map fst d)" "distinct (map fst d')"
  shows "event_paths (Directory d) = event_paths (Directory d')"
proof -
  let ?f = "List.map_filter (\<lambda>(n, f). map_option (\<lambda>q. (q, f)) (event_file_seq n))"
  have "set (?f d) = set (?f d')" using assms(1) by (simp add: map_filter_def)
  with scanned_keys_distinct [OF assms(2)] scanned_keys_distinct [OF assms(3)]
  have "sort_key fst (?f d) = sort_key fst (?f d')" by (intro sort_key_distinct_set)
  moreover have "list_ex (\<lambda>p. malformed_name (fst p)) d = list_ex (\<lambda>p. malformed_name (fst p)) d'"
    using assms(1) by (simp add: list_ex_iff)
  ultimately show ?thesis by (simp add: event_paths_def scan_events_eq)
qed

end
