(* ===== verification/Promotion_Sample.thy ===== *)
theory Promotion_Sample
  imports Promotion_Log
begin

text \<open>
  A concrete environment on which the theorems about the durable log are run: a prefix code of
  JSON values with its decoder, a digest made of the last
  hexadecimal digits of the text, and a
  fixed clock.
\<close>

section \<open>A prefix code of JSON values\<close>

definition enc_nat :: "nat \<Rightarrow> string" where
  "enc_nat n = replicate n (CHR ''1'') @ ''.''"

fun dec_nat :: "string \<Rightarrow> (nat \<times> string) option" where
  "dec_nat [] = None"
| "dec_nat (c # s) = (if c = CHR ''.'' then Some (0, s)
     else map_option (\<lambda>(n, r). (Suc n, r)) (dec_nat s))"

definition enc_int :: "int \<Rightarrow> string" where
  "enc_int i = (if i < 0 then CHR ''-'' else CHR ''+'') # enc_nat (nat \<bar>i\<bar>)"

definition dec_int :: "string \<Rightarrow> (int \<times> string) option" where
  "dec_int s = map_option (\<lambda>(n, r). (if take 1 s = ''-'' then - int n else int n, r)) (dec_nat (drop 1 s))"

definition enc_str :: "string \<Rightarrow> string" where
  "enc_str s = enc_nat (length s) @ s"

definition dec_str :: "string \<Rightarrow> (string \<times> string) option" where
  "dec_str s = map_option (\<lambda>(n, r). (take n r, drop n r)) (dec_nat s)"

fun enc :: "json \<Rightarrow> string" where
  "enc JNull = ''n''"
| "enc (JBool b) = (if b then ''t'' else ''f'')"
| "enc (JInt i) = CHR ''i'' # enc_int i"
| "enc (JFloat f) = (case f of Fin r \<Rightarrow> CHR ''r'' # enc_int (fst (quotient_of r)) @ enc_int (snd (quotient_of r))
     | PInf \<Rightarrow> ''P'' | NInf \<Rightarrow> ''N'' | NaN \<Rightarrow> ''X'')"
| "enc (JStr s) = CHR ''s'' # enc_str s"
| "enc (JList xs) = CHR ''l'' # enc_nat (length xs) @ concat (map enc xs)"
| "enc (JObj kvs) = CHR ''o'' # enc_nat (length kvs) @ concat (map (\<lambda>(k, v). enc_str k @ enc v) kvs)"

text \<open>A decoder that reads a fixed number of items with a given item decoder.\<close>

fun dec_seq :: "(string \<Rightarrow> ('a \<times> string) option) \<Rightarrow> nat \<Rightarrow> string \<Rightarrow> ('a list \<times> string) option" where
  "dec_seq f 0 s = Some ([], s)"
| "dec_seq f (Suc n) s = do { (x, r) \<leftarrow> f s; (xs, r') \<leftarrow> dec_seq f n r; Some (x # xs, r') }"

fun dec :: "nat \<Rightarrow> string \<Rightarrow> (json \<times> string) option" where
  "dec 0 s = None"
| "dec (Suc fuel) [] = None"
| "dec (Suc fuel) (c # s) =
    (if c = CHR ''n'' then Some (JNull, s)
     else if c = CHR ''t'' then Some (JBool True, s)
     else if c = CHR ''f'' then Some (JBool False, s)
     else if c = CHR ''P'' then Some (JFloat PInf, s)
     else if c = CHR ''N'' then Some (JFloat NInf, s)
     else if c = CHR ''X'' then Some (JFloat NaN, s)
     else if c = CHR ''i'' then do { (i, r) \<leftarrow> dec_int s; Some (JInt i, r) }
     else if c = CHR ''s'' then do { (t, r) \<leftarrow> dec_str s; Some (JStr t, r) }
     else if c = CHR ''r'' then do { (a, r) \<leftarrow> dec_int s; (b, r') \<leftarrow> dec_int r;
            Some (JFloat (Fin (of_int a / of_int b)), r') }
     else if c = CHR ''l'' then do { (n, r) \<leftarrow> dec_nat s; (xs, r') \<leftarrow> dec_seq (dec fuel) n r;
            Some (JList xs, r') }
     else if c = CHR ''o'' then do { (n, r) \<leftarrow> dec_nat s;
            (xs, r') \<leftarrow> dec_seq (\<lambda>t. do { (k, u) \<leftarrow> dec_str t; (v, w) \<leftarrow> dec fuel u; Some ((k, v), w) }) n r;
            Some (JObj xs, r') }
     else None)"

lemma dec_enc_nat: "dec_nat (enc_nat n @ r) = Some (n, r)"
  by (induction n) (simp_all add: enc_nat_def)

lemma dec_enc_int: "dec_int (enc_int i @ r) = Some (i, r)"
  by (simp add: dec_int_def enc_int_def dec_enc_nat)

lemma dec_enc_str: "dec_str (enc_str s @ r) = Some (s, r)"
  by (simp add: dec_str_def enc_str_def dec_enc_nat)

lemma dec_seq_enc:
  assumes "\<forall>x \<in> set xs. \<forall>r. f (g x @ r) = Some (x, r)"
  shows "dec_seq f (length xs) (concat (map g xs) @ r) = Some (xs, r)"
  using assms by (induction xs) auto

lemma length_concat_map: "x \<in> set xs \<Longrightarrow> length (g x) \<le> length (concat (map g xs))"
  by (induction xs) auto

lemma quotient_of_value: "of_int (fst (quotient_of r)) / of_int (snd (quotient_of r)) = r"
  by (metis prod.collapse quotient_of_div)

lemma dec_enc: "length (enc v) \<le> fuel \<Longrightarrow> dec fuel (enc v @ r) = Some (v, r)"
proof (induction v arbitrary: fuel r)
  case (JFloat f)
  then show ?case
    by (cases fuel; cases f) (auto simp: dec_enc_int quotient_of_value)
next
  case (JList xs)
  then obtain k where k: "fuel = Suc k" by (cases fuel) auto
  have "\<forall>x \<in> set xs. \<forall>r. dec k (enc x @ r) = Some (x, r)"
    using JList length_concat_map [of _ xs enc] by (fastforce simp: k)
  from dec_seq_enc [OF this] show ?case by (simp add: k dec_enc_nat)
next
  case (JObj kvs)
  then obtain k where k: "fuel = Suc k" by (cases fuel) auto
  have len: "length (enc_str a @ enc b) \<le> k" if "(a, b) \<in> set kvs" for a b
    using that JObj.prems length_concat_map [of "(a, b)" kvs "\<lambda>(k, v). enc_str k @ enc v"] by (simp add: k)
  have "\<forall>x \<in> set kvs. \<forall>r. (\<lambda>t. do { (a, u) \<leftarrow> dec_str t; (v, w) \<leftarrow> dec k u; Some ((a, v), w) })
      ((\<lambda>(a, v). enc_str a @ enc v) x @ r) = Some (x, r)"
    using JObj.IH len by (force simp: dec_enc_str)
  from dec_seq_enc [OF this] show ?case by (simp add: k dec_enc_nat)
qed (auto simp: dec_enc_int dec_enc_str elim!: less_natE Suc_le_D [elim_format])

section \<open>The environment\<close>

definition sample_sha :: "string \<Rightarrow> string" where
  "sample_sha s = take 64 (filter hex_digit (take 100 (rev s)) @ replicate 64 (CHR ''0''))"

definition sample_loads :: "string \<Rightarrow> json option" where
  "sample_loads s = (case dec (length s) s of Some (v, r) \<Rightarrow> if r = newline then Some v else None
     | None \<Rightarrow> None)"

definition sample_iso :: "string \<Rightarrow> bool" where
  "sample_iso s \<longleftrightarrow> 20 < length s"

definition sample_env :: promo_env where
  "sample_env = \<lparr>sha256_bytes = sample_sha, dumps = enc, loads = sample_loads,
     fromisoformat_ok = sample_iso, utc_now = ''2026-01-01T00:00:00Z''\<rparr>"

lemma sample_roundtrip: "json_roundtrip sample_env"
  unfolding json_roundtrip_def sample_env_def by (simp add: sample_loads_def dec_enc)

definition sample_request :: "char \<Rightarrow> event_request" where
  "sample_request champ = \<lparr>rq_prov = sample_prov, rq_champion_hash = sample_hash champ,
     rq_reason = ''r'', rq_actor = ''a'', rq_timestamp_utc = None\<rparr>"

lemma sample_env_simps [simp]:
  "sha256_bytes sample_env = sample_sha" "dumps sample_env = enc"
  "valid_utc_timestamp sample_env (utc_now sample_env)"
  by (simp_all add: sample_env_def valid_utc_timestamp_def sample_iso_def)

lemma sample_sha_ok [simp]: "is_sha256 (sample_sha s)"
proof -
  have "hex_digit (CHR ''0'')" by (simp add: hex_digit_def)
  then show ?thesis unfolding is_sha256_def sample_sha_def
    by (auto simp: list_all_iff dest!: in_set_takeD)
qed

lemma sample_hash_ok [simp]: "is_sha256 (sample_hash c) \<longleftrightarrow> hex_digit c"
  by (simp add: is_sha256_def sample_hash_def list_all_iff)

lemma sample_nonempty [simp]: "is_nonempty ''r''" "is_nonempty ''a''" "is_nonempty ''b''"
    "is_nonempty ''g0''" "is_nonempty ''pin''" "is_nonempty ''suite''" "is_nonempty ''me''"
  by code_simp+

lemma sample_prov_ok [simp]: "provenance_ok sample_prov"
  by (simp add: provenance_ok_def sample_prov_def Let_def hex_digit_def)

lemma length_enc_str [simp]: "length (enc_str s) = 2 * length s + 1"
  by (simp add: enc_str_def enc_nat_def)

lemma length_enc_int [simp]: "length (enc_int i) = nat \<bar>i\<bar> + 2"
  by (simp add: enc_int_def enc_nat_def)

text \<open>The size of a sample event, far below the limit.\<close>

lemma length_concat_enc_str:
  "length (concat (map (\<lambda>(k, v). enc_str k @ enc v) kvs))
     = sum_list (map (\<lambda>(k, v). 2 * length k + 1 + length (enc v)) kvs)"
  by (induction kvs) auto

lemma length_enc_obj: "length (enc (JObj kvs)) = length kvs + 2
     + sum_list (map (\<lambda>(k, v). 2 * length k + 1 + length (enc v)) kvs)"
  unfolding enc.simps(7) length_append length_Cons length_concat_enc_str by (simp add: enc_nat_def)

lemma length_event_bytes:
  assumes "ev_prov e = sample_prov" "is_sha256 (ev_event_hash e)" "is_sha256 (ev_previous_hash e)"
    "is_sha256 (ev_champion_hash e)" "\<bar>ev_sequence e\<bar> \<le> 1000" "ev_schema_version e = 1"
    "length (ev_reason e) \<le> 1000" "length (ev_actor e) \<le> 1000" "length (ev_timestamp_utc e) \<le> 1000"
    "length (enc (jopt (ev_candidate_hash e))) \<le> 1000" "length (enc (jopt (ev_candidate_path e))) \<le> 1000"
    "length (enc (jopt (ev_evaluation_key e))) \<le> 1000" "length (enc (JObj (ev_payload e))) \<le> 10000"
  shows "int (length (event_bytes sample_env e)) \<le> MAX_JSON_BYTES"
proof -
  have "length (transition_value (ev_transition e)) \<le> 1000"
    by (cases "ev_transition e") (simp_all add: transition_value_def transition_table_def)
  moreover have "length h = 64" if "is_sha256 h" for h using that by (simp add: is_sha256_def)
  ultimately have "length (enc (JObj (event_to_dict e))) \<le> 60000" using assms
    by (subst length_enc_obj)
      (simp add: event_to_dict_def body_dict_def sample_prov_def Let_def sample_hash_def del: enc.simps(7))
  then show ?thesis by (simp add: event_bytes_def newline_def MAX_JSON_BYTES_def)
qed


definition event_matches :: "event \<Rightarrow> int \<Rightarrow> Transition \<Rightarrow> event_request \<Rightarrow> string option \<Rightarrow> string option
    \<Rightarrow> string option \<Rightarrow> jobj \<Rightarrow> bool" where
  "event_matches e n tr rq ch cp ek p \<longleftrightarrow> ev_sequence e = n \<and> ev_transition e = tr
     \<and> ev_prov e = rq_prov rq \<and> ev_champion_hash e = rq_champion_hash rq \<and> ev_reason e = rq_reason rq
     \<and> ev_candidate_hash e = ch \<and> ev_candidate_path e = cp \<and> ev_evaluation_key e = ek \<and> ev_payload e = p"

lemma reconstruct_last_hash:
  assumes "reconstruct env d = Inr st"
  shows "is_sha256 (rs_last_event_hash st)"
proof -
  from assms obtain ps where r: "list_all2 (file_event env) ps (rs_events st)"
    "rs_last_event_hash st = log_end GENESIS_HASH (rs_events st)" by (rule reconstruct_Inr)
  show ?thesis
  proof (cases "rs_events st" rule: rev_cases)
    case Nil
    have "is_sha256 GENESIS_HASH" by (simp add: GENESIS_HASH_def is_sha256_def list_all_iff hex_digit_def)
    with Nil r show ?thesis by (simp add: log_end_def)
  next
    case (snoc es e)
    with r obtain p where "file_event env p e" by (auto simp: list_all2_append2 list_all2_Cons2)
    from file_event_verified(1) [OF this] r snoc show ?thesis
      by (auto simp: log_end_def event_verify_def split: if_splits)
  qed
qed

text \<open>Appending a well-formed event to a sample directory.\<close>

lemma sample_append:
  assumes rec: "reconstruct sample_env d = Inr st" and len: "length (rs_events st) < 900"
    and c: "hex_digit c" and p: "payload_ok p" "length (enc (JObj p)) \<le> 10000"
    and ch: "(ch = None) = (cp = None)" "opt_all is_sha256 ch" "opt_all is_nonempty cp"
      "length (enc (jopt ch)) \<le> 1000" "length (enc (jopt cp)) \<le> 1000"
    and ek: "opt_all is_nonempty ek" "length (enc (jopt ek)) \<le> 1000"
    and step: "\<forall>e. event_matches e (int (length (rs_events st)) + 1) tr (sample_request c) ch cp ek p \<longrightarrow>
      (\<exists>b. builder_apply (rs_builder st) e = Inr b)"
  shows "\<exists>e d' st'. append_event sample_env d tr (sample_request c) ch cp ek p = Inr (e, d')
    \<and> reconstruct sample_env d' = Inr st' \<and> rs_events st' = rs_events st @ [e]
    \<and> builder_apply (rs_builder st) e = Inr (rs_builder st')
    \<and> event_matches e (int (length (rs_events st)) + 1) tr (sample_request c) ch cp ek p
    \<and> int (length (event_bytes sample_env e)) \<le> MAX_JSON_BYTES"
proof -
  let ?rq = "sample_request c"
  from rec obtain ps where r: "rs_last_sequence st = int (length (rs_events st))" by (rule reconstruct_Inr)
  have last: "is_sha256 (rs_last_event_hash st)" using rec by (rule reconstruct_last_hash)
  have "\<exists>e. event_build sample_env (rs_last_sequence st + 1) (rs_last_event_hash st) (utc_now sample_env)
      (rq_prov ?rq) ch cp (rq_champion_hash ?rq) tr ek (rq_reason ?rq) (rq_actor ?rq) p = Inr e"
    using r last len c p ch ek by (intro event_build_ok [of p p]) (simp_all add: sample_request_def)
  then obtain e where build: "event_build sample_env (rs_last_sequence st + 1) (rs_last_event_hash st)
      (utc_now sample_env) (rq_prov ?rq) ch cp (rq_champion_hash ?rq) tr ek (rq_reason ?rq) (rq_actor ?rq) p = Inr e" ..
  note e = event_build_Inr [OF build]
  from e p(1) r have m: "event_matches e (int (length (rs_events st)) + 1) tr ?rq ch cp ek p"
    by (simp add: event_matches_def)
  with step obtain b where b: "builder_apply (rs_builder st) e = Inr b" by blast
  from rec build b c ch obtain d' where d': "append_event sample_env d tr ?rq ch cp ek p = Inr (e, d')"
    using append_event_ok [OF rec, of ?rq ch cp tr ek p e b] by (auto simp: sample_request_def)
  have sh: "is_sha256 (ev_event_hash e)" using event_verify_Inr(4) [OF e(1)] by (simp add: canonical_sha256_def)
  have size: "int (length (event_bytes sample_env e)) \<le> MAX_JSON_BYTES"
    by (rule length_event_bytes)
      (use e r len last c p ch ek sh event_verify_Inr(3) [OF e(1)] in
        \<open>simp_all add: sample_request_def sample_env_def del: enc.simps(7)\<close>)
  have "unique_object (JObj p)" using p(1) by (simp only: payload_ok_def)
  from append_reconstruct [OF d' sample_roundtrip this size] obtain st' where
    "reconstruct sample_env d' = Inr st'" "rs_events st' = rs_events st @ [e]"
    "builder_apply (rs_builder st) e = Inr (rs_builder st')" using rec by auto
  with d' m size show ?thesis by blast
qed

end
