(* ===== verification/Promotion_Log_Props.thy ===== *)
theory Promotion_Log_Props
  imports Promotion_Sample
begin

text \<open>
  What the durable promotion log guarantees: appending agrees with reconstruction, the hash chain
  exposes tampering, the scan order of the directory is irrelevant, and repeated requests change
  nothing.
\<close>

section \<open>Sample directories\<close>

definition gen0_payload :: jobj where
  "gen0_payload = [(''generation_id'', JStr ''g0'')]"

definition pin_payload :: jobj where
  "pin_payload = [(''kind'', JStr ''suite''), (''owner'', JStr ''me''), (''pin_id'', JStr ''pin''),
     (''reference_hash'', JStr (sample_hash (CHR ''c'')))]"

lemma sample_payloads_ok [simp]: "payload_ok gen0_payload" "payload_ok pin_payload" "payload_ok []"
  by (simp_all add: payload_ok_iff gen0_payload_def pin_payload_def)

lemma length_sample_hash [simp]: "length (sample_hash c) = 64"
  by (simp add: sample_hash_def)

lemma sample_payload_sizes [simp]: "length (enc (JObj gen0_payload)) \<le> 10000"
    "length (enc (JObj pin_payload)) \<le> 10000" "length (enc (JObj [])) \<le> 10000"
  by (simp_all only: length_enc_obj) (simp_all add: gen0_payload_def pin_payload_def sample_hash_def)

lemma bootstrap_step:
  assumes "event_matches e 1 CHAMPION_BOOTSTRAPPED (sample_request c) None None None gen0_payload"
  shows "\<exists>b. builder_apply builder_init e = Inr b \<and> b_champion b = Some (sample_hash c)
    \<and> b_candidates b = [] \<and> b_pins b = [] \<and> b_seen_pin_ids b = [] \<and> b_path_to_hash b = []
    \<and> b_original_hash b = Some (original_hash sample_prov)"
  using assms
  by (simp add: event_matches_def builder_apply_def builder_init_def apply_bootstrap_def Let_def
      event_generation_id_def require_nonempty_def gen0_payload_def jget_def sample_request_def)

lemma reconstruct_missing:
  "reconstruct env Missing = Inr \<lparr>rs_events = [], rs_builder = builder_init, rs_last_sequence = 0,
     rs_last_event_hash = GENESIS_HASH\<rparr>"
  by (simp add: reconstruct_def event_paths_def state_from_events_def)

lemma sample_boot_dir:
  obtains e d st where
    "append_event sample_env Missing CHAMPION_BOOTSTRAPPED (sample_request (CHR ''a'')) None None None
       gen0_payload = Inr (e, d)"
    "registry_bootstrap_champion sample_env Missing ''g0'' (sample_request (CHR ''a'')) = Inr (e, d)"
    "reconstruct sample_env d = Inr st" "rs_events st = [e]"
    "b_champion (rs_builder st) = Some (sample_hash (CHR ''a''))"
    "b_candidates (rs_builder st) = []" "b_pins (rs_builder st) = []" "b_seen_pin_ids (rs_builder st) = []"
    "b_path_to_hash (rs_builder st) = []" "b_original_hash (rs_builder st) = Some (original_hash sample_prov)"
    "int (length (event_bytes sample_env e)) \<le> MAX_JSON_BYTES"
proof -
  have hex: "hex_digit (CHR ''a'')" by (simp add: hex_digit_def)
  have "\<forall>e. event_matches e 1 CHAMPION_BOOTSTRAPPED (sample_request (CHR ''a'')) None None None gen0_payload
      \<longrightarrow> (\<exists>b. builder_apply builder_init e = Inr b)" using bootstrap_step by blast
  with sample_append [OF reconstruct_missing, of "CHR ''a''" gen0_payload None None None CHAMPION_BOOTSTRAPPED] hex
  obtain e d st where s: "append_event sample_env Missing CHAMPION_BOOTSTRAPPED
      (sample_request (CHR ''a'')) None None None gen0_payload = Inr (e, d)"
    "reconstruct sample_env d = Inr st" "rs_events st = [e]"
    "builder_apply builder_init e = Inr (rs_builder st)"
    "event_matches e 1 CHAMPION_BOOTSTRAPPED (sample_request (CHR ''a'')) None None None gen0_payload"
    "int (length (event_bytes sample_env e)) \<le> MAX_JSON_BYTES"
    by (auto simp del: enc.simps(7))
  moreover have "registry_bootstrap_champion sample_env Missing ''g0'' (sample_request (CHR ''a'')) = Inr (e, d)"
    using s(1) by (simp add: registry_bootstrap_champion_def reconstruct_missing builder_init_def gen0_payload_def)
  ultimately show ?thesis using bootstrap_step [OF s(5)] by (intro that [of e d st]) auto
qed


section \<open>Appending\<close>

fun dir_entries :: "events_path \<Rightarrow> (string \<times> fentry) list" where
  "dir_entries (Directory entries) = entries"
| "dir_entries _ = []"

text \<open>
  C3. A successful append keeps every file of the directory as it was, adds exactly one, and the
  directory then reconstructs to the old event sequence followed by the new event, whose
  projection is the old projection advanced by that event. It relies on the JSON round trip and on
  the encoded event being within the size that reconstruction accepts.
\<close>

theorem append_extends_log:
  assumes "append_event env d tr rq ch cp ek payload = Inr (e, d')"
    and "json_roundtrip env" and "unique_object (JObj payload)"
    and "int (length (event_bytes env e)) \<le> MAX_JSON_BYTES"
  shows "\<exists>st st'. reconstruct env d = Inr st \<and> reconstruct env d' = Inr st'
    \<and> rs_events st' = rs_events st @ [e] \<and> builder_apply (rs_builder st) e = Inr (rs_builder st')
    \<and> dir_entries d' = dir_entries d @ [(event_file_name (ev_sequence e), RegularFile (event_bytes env e))]"
proof -
  from assms(1) obtain entries where "ensure_directories d = Inr entries"
    "d' = Directory (entries @ [(event_file_name (ev_sequence e), RegularFile (event_bytes env e))])"
    by (rule append_event_Inr)
  then have "dir_entries d' = dir_entries d @ [(event_file_name (ev_sequence e), RegularFile (event_bytes env e))]"
    by (cases d) auto
  with append_reconstruct [OF assms] show ?thesis by blast
qed

lemma append_extends_log_witness:
  "\<exists>e d' st'. append_event sample_env Missing CHAMPION_BOOTSTRAPPED (sample_request (CHR ''a'')) None None
      None gen0_payload = Inr (e, d') \<and> reconstruct sample_env d' = Inr st' \<and> rs_events st' = [e]"
proof -
  obtain e d st where s: "append_event sample_env Missing CHAMPION_BOOTSTRAPPED (sample_request (CHR ''a''))
      None None None gen0_payload = Inr (e, d)" "int (length (event_bytes sample_env e)) \<le> MAX_JSON_BYTES"
    by (rule sample_boot_dir)
  have "unique_object (JObj gen0_payload)" by (simp add: gen0_payload_def)
  from append_extends_log [OF s(1) sample_roundtrip this s(2)] s(1) show ?thesis
    by (auto simp: reconstruct_missing)
qed



section \<open>Tamper evidence\<close>

text \<open>
  C4. Tamper evidence: two event directories that reconstruct with the same last sequence number
  and the same last event hash contain the same events, unless the logs themselves hold a SHA-256
  collision: at some position, after which they agree, the two logs have events whose hashed
  texts differ and have the same SHA-256.
\<close>

theorem log_tamper_evident:
  assumes "json_roundtrip env" and "reconstruct env d = Inr st" and "reconstruct env d' = Inr st'"
    and "rs_last_sequence st = rs_last_sequence st'" and "rs_last_event_hash st = rs_last_event_hash st'"
  shows "rs_events st = rs_events st' \<or> (\<exists>k < length (rs_events st).
    events_collide env (rs_events st ! k) (rs_events st' ! k) \<and> drop (Suc k) (rs_events st) = drop (Suc k) (rs_events st'))"
proof -
  from assms(2) obtain ps where p: "list_all2 (file_event env) ps (rs_events st)"
    "chained 1 GENESIS_HASH (rs_events st)" "rs_last_sequence st = int (length (rs_events st))"
    "rs_last_event_hash st = log_end GENESIS_HASH (rs_events st)" by (rule reconstruct_Inr)
  from assms(3) obtain qs where q: "list_all2 (file_event env) qs (rs_events st')"
    "chained 1 GENESIS_HASH (rs_events st')" "rs_last_sequence st' = int (length (rs_events st'))"
    "rs_last_event_hash st' = log_end GENESIS_HASH (rs_events st')" by (rule reconstruct_Inr)
  from p q assms(4,5) show ?thesis by (intro chain_binds [OF assms(1)]) auto
qed

lemma log_tamper_evident_witness:
  "\<exists>es st st'. reconstruct sample_env (Directory es) = Inr st \<and> length (rs_events st) = 1
     \<and> reconstruct sample_env (Directory ((''.x'', SpecialFile) # es)) = Inr st'
     \<and> (rs_events st = rs_events st' \<or> events_collide sample_env (rs_events st ! 0) (rs_events st' ! 0))"
proof -
  obtain e d st where s: "append_event sample_env Missing CHAMPION_BOOTSTRAPPED (sample_request (CHR ''a''))
      None None None gen0_payload = Inr (e, d)" "reconstruct sample_env d = Inr st" "rs_events st = [e]"
    by (rule sample_boot_dir)
  from s(1) obtain es where d: "d = Directory es" by (rule append_event_Inr)
  have t: "reconstruct sample_env (Directory ((''.x'', SpecialFile) # es)) = Inr st"
    using s(2) by (simp add: d reconstruct_def event_paths_def event_file_seq_def)
  have one: "length (rs_events st) = 1" using s(3) by simp
  from log_tamper_evident [OF sample_roundtrip s(2) [unfolded d] t refl refl]
  have "rs_events st = rs_events st \<or> events_collide sample_env (rs_events st ! 0) (rs_events st ! 0)" by simp
  with s(2) [unfolded d] t one show ?thesis by blast
qed

text \<open>
  Reconstruction does not depend on the order in which the directory is scanned: two listings
  of the same entries, with distinct names, reconstruct to the same state or fail with the same
  error.
\<close>

theorem reconstruct_scan_order:
  assumes "set d = set d'" and "distinct (map fst d)" and "distinct (map fst d')"
  shows "reconstruct env (Directory d) = reconstruct env (Directory d')"
  using event_paths_set [OF assms] by (simp add: reconstruct_def)

lemma reconstruct_scan_order_witness:
  "reconstruct sample_env (Directory [(''2x.json'', SpecialFile), (''notes'', SpecialFile)])
     = reconstruct sample_env (Directory [(''notes'', SpecialFile), (''2x.json'', SpecialFile)])"
  by (rule reconstruct_scan_order) auto


section \<open>Repeated requests\<close>

lemma py_eq_obj_payload: "payload_ok p \<Longrightarrow> py_eq_obj p p"
  by (rule py_eq_obj_refl) (auto simp: payload_ok_iff intro: py_eq_refl)

lemma jset_same:
  assumes "sorted_wrt (<) (map fst p)" "jhas p k" "jget p k = v"
  shows "jset p k v = p"
  using assms
proof (induction p)
  case (Cons x p)
  obtain l w where x: "x = (l, w)" by (cases x)
  show ?case
  proof (cases "k = l")
    case False
    with Cons.prems x have "jhas p k" "jget p k = v" by (auto simp: jhas_def jget_def)
    moreover from this Cons.prems x have "l < k" by (auto simp: jhas_def)
    ultimately show ?thesis using Cons x False by auto
  qed (use Cons x in \<open>auto simp: jget_def\<close>)
qed (simp add: jhas_def)

text \<open>The payload recorded by a relocating transition is the one a retry recomputes.\<close>

lemma relocation_payload_ok:
  assumes "payload_ok p" "record_relocation p old new = Inr q"
  shows "payload_ok q"
  using assms payload_ok_jset [OF assms(1)] by (auto simp: record_relocation_def split: if_splits)

lemma relocation_merge:
  assumes "payload_ok p" "record_relocation p old new = Inr q" "ev_payload e = q"
    and "jhas p previous_path_key \<longrightarrow> jget p previous_path_key \<noteq> JNull"
  shows "merge_previous_path p e = q"
proof (cases "old = new")
  case True
  with assms(2,3) show ?thesis by (auto simp: record_relocation_def merge_previous_path_def)
next
  case ne: False
  with assms(2) have q: "q = jset p previous_path_key (JStr old)"
    "jget p previous_path_key = JNull \<or> jget p previous_path_key = JStr old"
    by (auto simp: record_relocation_def split: if_splits)
  show ?thesis
  proof (cases "jhas p previous_path_key")
    case True
    with q assms(4) jset_same [of p previous_path_key] assms(1) show ?thesis
      by (auto simp: merge_previous_path_def payload_ok_iff)
  next
    case False
    with q(1) have "jhas q previous_path_key" "jget q previous_path_key = JStr old"
      by (simp_all add: jhas_jset jget_jset)
    with False q(1) assms(3) show ?thesis by (simp add: merge_previous_path_def)
  qed
qed

lemma append_event_fields:
  assumes "append_event env d tr rq ch cp ek p = Inr (e, d')"
  shows "jcanon p = Some (ev_payload e)" "ev_prov e = rq_prov rq" "ev_candidate_hash e = ch"
    "ev_candidate_path e = cp" "ev_champion_hash e = rq_champion_hash rq" "ev_transition e = tr"
    "ev_evaluation_key e = ek" "ev_reason e = rq_reason rq"
  using assms by (rule append_event_Inr, simp add: event_build_Inr)+

lemma candidate_event_effect:
  assumes "builder_apply b e = Inr b'" "ev_transition e = state_to_candidate_transition target"
    and "ev_candidate_hash e = Some ch" "ev_candidate_path e = Some cp"
  obtains c where "dget (b_candidates b') ch = Some c" "cr_state c = target" "cr_candidate_path c = cp"
    "target = EVALUATING_CONFIRMATION \<longrightarrow> cr_evaluation_key c = ev_evaluation_key e"
proof -
  from assms(1,2) have "apply_candidate (b\<lparr>b_original_hash := Some (original_hash (ev_prov e))\<rparr>) e target = Inr b'"
    by (cases rule: builder_apply_cases) (auto dest: targets_disjoint, (cases target; simp)+)
  then show ?thesis
  proof (cases rule: apply_candidate_Inr)
    case (1 ch' cp' b1)
    with validate_identity_Inr [OF 1(1)] assms(3,4) show ?thesis by (intro that) (auto simp: dict_simps)
  next
    case (2 ch' cp' b1 cur tested ek)
    with validate_identity_Inr [OF 2(1)] assms(3,4) show ?thesis
      by (intro that) (auto simp: dict_simps candidate_update_ok_def evaluating_states_def)
  qed
qed

lemma candidate_retry_last:
  assumes "rs_events st = es @ [e]" "ev_transition e = state_to_candidate_transition target"
    "ev_candidate_hash e = Some ch" "ev_candidate_path e = Some cp" "ev_champion_hash e = rq_champion_hash rq"
    "ev_evaluation_key e = ek" "ev_prov e = rq_prov rq" "merge_previous_path p e = ev_payload e"
    "payload_ok (ev_payload e)"
  shows "candidate_retry st d ch cp target rq ek p = Inr (e, d)"
  using assms py_eq_obj_payload by (simp add: candidate_retry_def)

lemma transition_candidate_Inr:
  assumes "transition_candidate env d ch cp target rq ek p = Inr (e, d')" "payload_ok p"
    and "jhas p previous_path_key \<longrightarrow> jget p previous_path_key \<noteq> JNull"
  obtains st c where "reconstruct env d = Inr st" "dget (b_candidates (rs_builder st)) ch = Some c"
      "cr_state c = target" "\<not> (target = EVALUATING_CONFIRMATION \<and> ek \<noteq> None \<and> ek \<noteq> cr_evaluation_key c)"
      "cr_candidate_path c = cp" "candidate_retry st d ch cp target rq ek p = Inr (e, d')"
  | q where "append_event env d (state_to_candidate_transition target) rq (Some ch) (Some cp) ek q = Inr (e, d')"
      "payload_ok q" "ev_payload e = q \<longrightarrow> merge_previous_path p e = q"
proof -
  from assms obtain st where st: "reconstruct env d = Inr st"
    by (auto simp: transition_candidate_def res_simps)
  show ?thesis
  proof (cases "dget (b_candidates (rs_builder st)) ch")
    case None
    with assms st show ?thesis
      by (intro that(2) [of p]) (auto simp: transition_candidate_def merge_previous_path_def)
  next
    case (Some c)
    show ?thesis
    proof (cases "cr_state c = target \<and> \<not> (target = EVALUATING_CONFIRMATION \<and> ek \<noteq> None \<and> ek \<noteq> cr_evaluation_key c)")
      case True
      with assms st Some show ?thesis
        by (intro that(1) [OF st Some]) (auto simp: transition_candidate_def Let_def split: if_splits)
    next
      case False
      with assms st Some obtain q where q: "record_relocation p (cr_candidate_path c) cp = Inr q"
        "append_event env d (state_to_candidate_transition target) rq (Some ch) (Some cp) ek q = Inr (e, d')"
        by (auto simp: transition_candidate_def Let_def res_simps split: if_splits)
      with relocation_merge [OF assms(2) q(1) _ assms(3)] relocation_payload_ok [OF assms(2) q(1)]
      show ?thesis by (intro that(2) [OF q(2)]) auto
    qed
  qed
qed

text \<open>
  A candidate transition is idempotent: repeating a successful request with the same candidate,
  target, champion, provenance, evaluation key and payload returns the recorded event and leaves the
  directory alone, whatever reason, actor or time the retry gives.
\<close>

theorem transition_candidate_idempotent:
  assumes "transition_candidate env d ch cp target rq ek p = Inr (e, d')"
    and "json_roundtrip env" and "payload_ok p" and "int (length (event_bytes env e)) \<le> MAX_JSON_BYTES"
    and "jhas p previous_path_key \<longrightarrow> jget p previous_path_key \<noteq> JNull"
    and "rq_prov rq' = rq_prov rq" and "rq_champion_hash rq' = rq_champion_hash rq"
  shows "transition_candidate env d' ch cp target rq' ek p = Inr (e, d')"
  using assms(1,3,5)
proof (cases rule: transition_candidate_Inr)
  case (1 st c)
  from 1(6) have "d' = d" by (auto simp: candidate_retry_def split: option.splits if_splits)
  moreover from 1(6) assms(6,7) have "candidate_retry st d ch cp target rq' ek p = Inr (e, d')"
    unfolding candidate_retry_def by (simp only:)
  ultimately show ?thesis using 1 assms(3) by (auto simp: transition_candidate_def Let_def)
next
  case (2 q)
  from 2(2) have "unique_object (JObj q)" by (simp only: payload_ok_def)
  with 2(1) assms(2,4) obtain st st' where st: "reconstruct env d = Inr st" "reconstruct env d' = Inr st'"
    "rs_events st' = rs_events st @ [e]" "builder_apply (rs_builder st) e = Inr (rs_builder st')"
    using append_reconstruct by blast
  note e = append_event_fields [OF 2(1)]
  from e(1) 2(2) have q: "ev_payload e = q" by simp
  from st(4) e(6,3,4) obtain c where c: "dget (b_candidates (rs_builder st')) ch = Some c"
    "cr_state c = target" "cr_candidate_path c = cp"
    "target = EVALUATING_CONFIRMATION \<longrightarrow> cr_evaluation_key c = ev_evaluation_key e"
    by (rule candidate_event_effect)
  have "candidate_retry st' d' ch cp target rq' ek p = Inr (e, d')"
    by (rule candidate_retry_last [OF st(3)]) (use e q 2 assms(6,7) in auto)
  with st c assms(3) e(7) show ?thesis by (auto simp: transition_candidate_def Let_def)
qed


lemma discover_step:
  assumes "event_matches e n CANDIDATE_DISCOVERED (sample_request c) (Some h) (Some path) None []"
    and "b_champion b = Some (sample_hash c)" "b_candidates b = []" "b_path_to_hash b = []"
    and "b_original_hash b = Some (original_hash sample_prov)"
  shows "\<exists>b'. builder_apply b e = Inr b'"
  using assms
  by (simp add: event_matches_def builder_apply_def apply_candidate_def Let_def jget_def
      validate_candidate_identity_def sample_request_def)

lemma transition_candidate_idempotent_witness:
  "\<exists>d e d'. let rq = sample_request (CHR ''a''); rq' = rq\<lparr>rq_reason := ''b''\<rparr> in
     transition_candidate sample_env d (sample_hash (CHR ''b'')) ''b'' DISCOVERED rq None [] = Inr (e, d')
     \<and> d' \<noteq> d
     \<and> transition_candidate sample_env d' (sample_hash (CHR ''b'')) ''b'' DISCOVERED rq' None [] = Inr (e, d')"
proof -
  let ?rq = "sample_request (CHR ''a'')" and ?h = "sample_hash (CHR ''b'')"
  have hex: "hex_digit (CHR ''a'')" "hex_digit (CHR ''b'')" by (simp_all add: hex_digit_def)
  obtain e0 d st where s: "reconstruct sample_env d = Inr st" "rs_events st = [e0]"
    "b_champion (rs_builder st) = Some (sample_hash (CHR ''a''))" "b_candidates (rs_builder st) = []"
    "b_path_to_hash (rs_builder st) = []" "b_original_hash (rs_builder st) = Some (original_hash sample_prov)"
    by (rule sample_boot_dir)
  have "\<forall>e. event_matches e (int (length (rs_events st)) + 1) CANDIDATE_DISCOVERED ?rq (Some ?h) (Some ''b'') None []
      \<longrightarrow> (\<exists>b. builder_apply (rs_builder st) e = Inr b)" using discover_step s by blast
  with sample_append [OF s(1), of "CHR ''a''" "[]" "Some ?h" "Some ''b''" None CANDIDATE_DISCOVERED] hex s(2)
  obtain e d' st' where t: "append_event sample_env d CANDIDATE_DISCOVERED ?rq (Some ?h) (Some ''b'') None [] = Inr (e, d')"
    "reconstruct sample_env d' = Inr st'" "rs_events st' = [e0, e]"
    "int (length (event_bytes sample_env e)) \<le> MAX_JSON_BYTES"
    by (auto simp del: enc.simps(7))
  have u: "transition_candidate sample_env d ?h ''b'' DISCOVERED ?rq None [] = Inr (e, d')"
    using s(1,4) t(1) by (simp add: transition_candidate_def)
  from transition_candidate_idempotent [OF u sample_roundtrip _ t(4), of "?rq\<lparr>rq_reason := ''b''\<rparr>"]
  have "transition_candidate sample_env d' ?h ''b'' DISCOVERED (?rq\<lparr>rq_reason := ''b''\<rparr>) None [] = Inr (e, d')"
    by (simp add: jhas_def)
  moreover have "d' \<noteq> d" using s(1,2) t(2,3) by auto
  ultimately show ?thesis using u unfolding Let_def by blast
qed

lemma seen_pin_event:
  assumes "runE builder_apply builder_init es = Inr b" "pid \<in> set (b_seen_pin_ids b)"
  shows "\<exists>e \<in> set es. ev_transition e = REFERENCE_PINNED \<and> jget (ev_payload e) ''pin_id'' = JStr pid"
  using assms
proof (induction es arbitrary: b rule: rev_induct)
  case Nil
  then show ?case by (auto simp: builder_init_def)
next
  case (snoc e es)
  then obtain b0 where b0: "runE builder_apply builder_init es = Inr b0" "builder_apply b0 e = Inr b"
    by (auto simp: res_simps)
  show ?case
  proof (cases "pid \<in> set (b_seen_pin_ids b0)")
    case True
    with snoc.IH [OF b0(1)] show ?thesis by auto
  next
    case False
    from b0(2) have "ev_transition e = REFERENCE_PINNED \<and> jget (ev_payload e) ''pin_id'' = JStr pid"
    proof (cases rule: builder_apply_cases)
      case (2 t)
      from 2(3) False snoc.prems(2) show ?thesis
        by (elim apply_candidate_Inr) (auto dest!: validate_identity_Inr)
    next
      case (3 t)
      from 3(3) False snoc.prems(2) show ?thesis
        by (elim apply_generation_Inr) (auto dest!: validate_identity_Inr)
    qed (use False snoc.prems(2) in \<open>auto simp: apply_bootstrap_def apply_pin_def apply_unpin_def res_simps
        split: if_splits option.splits\<close>)
    then show ?thesis by simp
  qed
qed

text \<open>
  Pin identifiers are one-shot: once a pin identifier has been used in the log, repeating the
  pin request can only return the recorded event or fail; in particular it never brings back a pin
  that was removed, and the directory is left alone.
\<close>

theorem pin_request_one_shot:
  assumes "reconstruct env d = Inr st" and "pid \<in> set (b_seen_pin_ids (rs_builder st))"
    and "pin_reference env d pid ref kind owner rq = Inr (e, d')"
  shows "d' = d \<and> e \<in> set (rs_events st) \<and> ev_transition e = REFERENCE_PINNED"
proof -
  from assms(1) obtain ps where "state_from_events (rs_events st) = Inr st" by (rule reconstruct_Inr)
  from seen_pin_event [OF state_from_events_Inr(1) [OF this] assms(2)]
  have "find_pin_event st pid \<noteq> None" by (auto simp: find_pin_event_def find_None_iff)
  then obtain e' where e': "find_pin_event st pid = Some e'" by blast
  then have "e' \<in> set (rs_events st)" "ev_transition e' = REFERENCE_PINNED"
    by (auto simp: find_pin_event_def find_Some_iff) (metis length_rev nth_mem set_rev)
  with assms(1,3) e' show ?thesis
    by (auto simp: pin_reference_def split: option.splits if_splits)
qed

lemma pin_step:
  assumes "event_matches e n REFERENCE_PINNED (sample_request c) None None None pin_payload"
    and "b_champion b = Some (sample_hash c)" "b_pins b = []" "b_seen_pin_ids b = []"
    and "b_original_hash b = Some (original_hash sample_prov)"
  shows "\<exists>b'. builder_apply b e = Inr b' \<and> b_seen_pin_ids b' = [''pin''] \<and> dget (b_pins b') ''pin'' = Some
      \<lparr>pin_id = ''pin'', pin_reference_hash = sample_hash (CHR ''c''), pin_kind = ''suite'',
       pin_owner = ''me'', pin_reason = ''r'', pin_created_sequence = ev_sequence e\<rparr>"
proof -
  have "is_sha256 (sample_hash (CHR ''c''))" by (simp add: hex_digit_def)
  with assms show ?thesis
    by (simp add: event_matches_def builder_apply_def apply_pin_def Let_def jget_def pin_payload_def
        require_nonempty_def require_sha256_def sample_request_def dict_simps)
qed

lemma pin_request_one_shot_witness:
  "\<exists>d st e. reconstruct sample_env d = Inr st \<and> ''pin'' \<in> set (b_seen_pin_ids (rs_builder st))
     \<and> pin_reference sample_env d ''pin'' (sample_hash (CHR ''c'')) ''suite'' ''me'' (sample_request (CHR ''a''))
         = Inr (e, d) \<and> e \<in> set (rs_events st)"
proof -
  let ?rq = "sample_request (CHR ''a'')"
  have hex: "hex_digit (CHR ''a'')" by (simp add: hex_digit_def)
  obtain e0 d st where s: "reconstruct sample_env d = Inr st" "rs_events st = [e0]"
    "b_champion (rs_builder st) = Some (sample_hash (CHR ''a''))" "b_pins (rs_builder st) = []"
    "b_seen_pin_ids (rs_builder st) = []" "b_original_hash (rs_builder st) = Some (original_hash sample_prov)"
    by (rule sample_boot_dir)
  have "\<forall>e. event_matches e (int (length (rs_events st)) + 1) REFERENCE_PINNED ?rq None None None pin_payload
      \<longrightarrow> (\<exists>b. builder_apply (rs_builder st) e = Inr b)" using pin_step s by blast
  with sample_append [OF s(1), of "CHR ''a''" pin_payload None None None REFERENCE_PINNED] hex s(2)
  obtain e d' st' where t: "reconstruct sample_env d' = Inr st'" "rs_events st' = [e0, e]"
    "builder_apply (rs_builder st) e = Inr (rs_builder st')"
    "event_matches e (int (length (rs_events st)) + 1) REFERENCE_PINNED ?rq None None None pin_payload"
    by (auto simp del: enc.simps(7))
  from pin_step [OF t(4) s(3,4,5,6)] t(3) have seen: "''pin'' \<in> set (b_seen_pin_ids (rs_builder st'))"
    and pin: "dget (b_pins (rs_builder st')) ''pin'' = Some
      \<lparr>pin_id = ''pin'', pin_reference_hash = sample_hash (CHR ''c''), pin_kind = ''suite'',
       pin_owner = ''me'', pin_reason = ''r'', pin_created_sequence = ev_sequence e\<rparr>" by auto
  from t(4) have f: "find_pin_event st' ''pin'' = Some e"
    by (simp add: find_pin_event_def t(2) event_matches_def pin_payload_def jget_def)
  have "\<exists>x. pin_reference sample_env d' ''pin'' (sample_hash (CHR ''c'')) ''suite'' ''me'' ?rq = Inr x"
    using t(1,4) f pin by (simp add: pin_reference_def event_matches_def sample_request_def)
  then obtain e1 d1 where "pin_reference sample_env d' ''pin'' (sample_hash (CHR ''c'')) ''suite'' ''me'' ?rq = Inr (e1, d1)"
    by auto
  with pin_request_one_shot [OF t(1) seen this] t(1) seen show ?thesis by blast
qed

end
