(* ===== verification/Champion_File.thy ===== *)
theory Champion_File
  imports Promotion_Log
begin

text \<open>
  The file \<^verbatim>\<open>champion.json\<close>: \<^verbatim>\<open>ChampionRecord\<close>, its loading, its idempotent creation, and its
  compare-and-swap against a finalized PASS report, from
  \<^verbatim>\<open>src/python/risk_score/promotion_state.py\<close>. A file is an optional directory entry; an operation
  returns the record together with the file after it.
\<close>

section \<open>The champion record\<close>

definition CHAMPION_SCHEMA_VERSION :: int where
  "CHAMPION_SCHEMA_VERSION = 1"

record champion_record =
  ch_schema_version :: int
  ch_champion_hash :: string
  ch_generation_id :: string
  ch_previous_champion_hash :: "string option"
  ch_activated_at_utc :: string
  ch_prov :: provenance
  ch_evaluation_key :: "string option"
  ch_pass_report_path :: "string option"
  ch_pass_report_hash :: "string option"
  ch_actor :: string
  ch_bootstrap :: bool
  ch_record_hash :: string

definition champion_body_dict :: "champion_record \<Rightarrow> jobj" where
  "champion_body_dict r =
    [(''activated_at_utc'', JStr (ch_activated_at_utc r)),
     (''actor'', JStr (ch_actor r)),
     (''bootstrap'', JBool (ch_bootstrap r)),
     (''champion_hash'', JStr (ch_champion_hash r)),
     (''config_hash'', JStr (config_hash (ch_prov r))),
     (''controller_hash'', JStr (controller_hash (ch_prov r))),
     (''evaluation_key'', jopt (ch_evaluation_key r)),
     (''generation_id'', JStr (ch_generation_id r)),
     (''original_hash'', JStr (original_hash (ch_prov r))),
     (''pass_report_hash'', jopt (ch_pass_report_hash r)),
     (''pass_report_path'', jopt (ch_pass_report_path r)),
     (''policy_hash'', JStr (policy_hash (ch_prov r))),
     (''previous_champion_hash'', jopt (ch_previous_champion_hash r)),
     (''schedule_hash'', JStr (schedule_hash (ch_prov r))),
     (''schema_version'', JInt (ch_schema_version r)),
     (''source_hash'', JStr (source_hash (ch_prov r)))]"

definition champion_to_dict :: "champion_record \<Rightarrow> jobj" where
  "champion_to_dict r = jset (champion_body_dict r) ''record_hash'' (JStr (ch_record_hash r))"

definition champion_verify :: "promo_env \<Rightarrow> champion_record \<Rightarrow> perror + unit" where
  "champion_verify env r =
    (if ch_schema_version r \<noteq> CHAMPION_SCHEMA_VERSION then Inl RegistryCorruptionError
     else if \<not> is_sha256 (ch_champion_hash r) then Inl RegistryCorruptionError
     else if \<not> is_nonempty (ch_generation_id r) then Inl RegistryCorruptionError
     else if \<not> opt_all is_sha256 (ch_previous_champion_hash r) then Inl RegistryCorruptionError
     else if \<not> valid_utc_timestamp env (ch_activated_at_utc r) then Inl RegistryCorruptionError
     else if \<not> provenance_ok (ch_prov r) then Inl RegistryCorruptionError
     else if \<not> is_nonempty (ch_actor r) then Inl RegistryCorruptionError
     else if \<not> is_sha256 (ch_record_hash r) then Inl RegistryCorruptionError
     else if ch_bootstrap r \<and> (ch_previous_champion_hash r \<noteq> None \<or> ch_evaluation_key r \<noteq> None
          \<or> ch_pass_report_path r \<noteq> None \<or> ch_pass_report_hash r \<noteq> None)
       then Inl RegistryCorruptionError
     else if \<not> ch_bootstrap r \<and> (ch_previous_champion_hash r = None
          \<or> ch_evaluation_key r = None \<or> \<not> opt_all is_nonempty (ch_evaluation_key r)
          \<or> ch_pass_report_path r = None \<or> \<not> opt_all is_nonempty (ch_pass_report_path r)
          \<or> ch_pass_report_hash r = None \<or> \<not> opt_all is_sha256 (ch_pass_report_hash r))
       then Inl RegistryCorruptionError
     else if ch_record_hash r \<noteq> canonical_sha256 env (JObj (champion_body_dict r))
       then Inl RegistryCorruptionError
     else Inr ())"

definition champion_build :: "promo_env \<Rightarrow> string \<Rightarrow> string \<Rightarrow> string option \<Rightarrow> provenance \<Rightarrow> string
    \<Rightarrow> string option \<Rightarrow> string option \<Rightarrow> string option \<Rightarrow> string \<Rightarrow> bool \<Rightarrow> perror + champion_record" where
  "champion_build env champ gid prev prov ts ek rpath rhash actor boot =
    (let r0 = \<lparr>ch_schema_version = CHAMPION_SCHEMA_VERSION, ch_champion_hash = champ,
           ch_generation_id = gid, ch_previous_champion_hash = prev, ch_activated_at_utc = ts,
           ch_prov = prov, ch_evaluation_key = ek, ch_pass_report_path = rpath,
           ch_pass_report_hash = rhash, ch_actor = actor, ch_bootstrap = boot, ch_record_hash = []\<rparr>;
         r = r0\<lparr>ch_record_hash := canonical_sha256 env (JObj (champion_body_dict r0))\<rparr>
     in bindE (champion_verify env r) (\<lambda>_. Inr r))"

fun as_bool :: "json \<Rightarrow> bool option" where
  "as_bool (JBool b) = Some b"
| "as_bool _ = None"

definition champion_fields :: "string list" where
  "champion_fields = [''schema_version'', ''champion_hash'', ''generation_id'',
     ''previous_champion_hash'', ''original_hash'', ''activated_at_utc'', ''controller_hash'',
     ''source_hash'', ''config_hash'', ''schedule_hash'', ''policy_hash'', ''evaluation_key'',
     ''pass_report_path'', ''pass_report_hash'', ''actor'', ''bootstrap'', ''record_hash'']"

definition champion_of_fields :: "jobj \<Rightarrow> champion_record option" where
  "champion_of_fields p = do {
     sv \<leftarrow> as_int (jget p ''schema_version'');
     champ \<leftarrow> as_str (jget p ''champion_hash'');
     gid \<leftarrow> as_str (jget p ''generation_id'');
     prev \<leftarrow> as_opt_str (jget p ''previous_champion_hash'');
     orig \<leftarrow> as_str (jget p ''original_hash'');
     ts \<leftarrow> as_str (jget p ''activated_at_utc'');
     ctl \<leftarrow> as_str (jget p ''controller_hash'');
     src \<leftarrow> as_str (jget p ''source_hash'');
     cfg \<leftarrow> as_str (jget p ''config_hash'');
     sch \<leftarrow> as_str (jget p ''schedule_hash'');
     pol \<leftarrow> as_str (jget p ''policy_hash'');
     ek \<leftarrow> as_opt_str (jget p ''evaluation_key'');
     rpath \<leftarrow> as_opt_str (jget p ''pass_report_path'');
     rhash \<leftarrow> as_opt_str (jget p ''pass_report_hash'');
     actor \<leftarrow> as_str (jget p ''actor'');
     boot \<leftarrow> as_bool (jget p ''bootstrap'');
     rh \<leftarrow> as_str (jget p ''record_hash'');
     Some \<lparr>ch_schema_version = sv, ch_champion_hash = champ, ch_generation_id = gid,
       ch_previous_champion_hash = prev, ch_activated_at_utc = ts,
       ch_prov = \<lparr>controller_hash = ctl, source_hash = src, original_hash = orig,
          config_hash = cfg, schedule_hash = sch, policy_hash = pol\<rparr>,
       ch_evaluation_key = ek, ch_pass_report_path = rpath, ch_pass_report_hash = rhash,
       ch_actor = actor, ch_bootstrap = boot, ch_record_hash = rh\<rparr> }"

definition champion_from_dict :: "promo_env \<Rightarrow> json \<Rightarrow> perror + champion_record" where
  "champion_from_dict env v =
    (case v of JObj p \<Rightarrow>
       if set (map fst p) \<noteq> set champion_fields then Inl RegistryCorruptionError
       else (case champion_of_fields p of None \<Rightarrow> Inl RegistryCorruptionError
             | Some r \<Rightarrow> bindE (champion_verify env r) (\<lambda>_. Inr r))
     | _ \<Rightarrow> Inl RegistryCorruptionError)"

definition champion_bytes :: "promo_env \<Rightarrow> champion_record \<Rightarrow> string" where
  "champion_bytes env r = dumps env (JObj (champion_to_dict r)) @ newline"

section \<open>Loading and creating\<close>

fun read_file :: "fentry option \<Rightarrow> perror + string" where
  "read_file None = Inl FileNotFoundErrorP"
| "read_file (Some f) = read_regular_file f"

definition load_champion :: "promo_env \<Rightarrow> fentry option \<Rightarrow> perror + champion_record" where
  "load_champion env f =
    bindE (read_file f) (\<lambda>data.
    bindE (decode_json env data) (\<lambda>v.
    bindE (champion_from_dict env v) (\<lambda>r.
      if data \<noteq> champion_bytes env r then Inl RegistryCorruptionError else Inr r)))"

definition validate_bootstrap_retry :: "champion_record \<Rightarrow> champion_record \<Rightarrow> perror + unit" where
  "validate_bootstrap_retry existing desired =
    (if ch_champion_hash existing \<noteq> ch_champion_hash desired
        \<or> ch_generation_id existing \<noteq> ch_generation_id desired
        \<or> ch_prov existing \<noteq> ch_prov desired \<or> ch_actor existing \<noteq> ch_actor desired
        \<or> ch_bootstrap existing \<noteq> ch_bootstrap desired
     then Inl ChampionConflictError else Inr ())"

definition stamp :: "promo_env \<Rightarrow> string option \<Rightarrow> perror + string" where
  "stamp env ts = (case ts of None \<Rightarrow> Inr (utc_now env)
     | Some t \<Rightarrow> if valid_utc_timestamp env t then Inr t else Inl ValueErrorP)"

text \<open>
  The creation looks whether the file exists (\<open>seen\<close>) and then links the new one; another process
  may have created it in between, so the link meets the file \<open>now\<close>.
\<close>

definition bootstrap_champion :: "promo_env \<Rightarrow> fentry option \<Rightarrow> fentry option \<Rightarrow> string \<Rightarrow> string
    \<Rightarrow> provenance \<Rightarrow> string \<Rightarrow> string option \<Rightarrow> perror + (champion_record \<times> fentry option)" where
  "bootstrap_champion env seen now champ gid prov actor ts =
    bindE (stamp env ts) (\<lambda>t.
    bindE (champion_build env champ gid None prov t None None None actor True) (\<lambda>desired.
      let accept = (\<lambda>f. bindE (load_champion env f) (\<lambda>existing.
            bindE (validate_bootstrap_retry existing desired) (\<lambda>_. Inr (existing, f)))) in
      if seen \<noteq> None then accept seen
      else (case now of
          None \<Rightarrow> Inr (desired, Some (RegularFile (champion_bytes env desired)))
        | Some f \<Rightarrow> accept now)))"

section \<open>The PASS report\<close>

record pass_report =
  pr_report_hash :: string
  pr_schema_version :: int
  pr_candidate_hash :: string
  pr_tested_champion_hash :: string
  pr_original_hash :: string
  pr_evaluation_key :: string
  pr_config_hash :: string
  pr_schedule_hash :: string
  pr_policy_hash :: string

definition json_sha256 :: "json \<Rightarrow> string option" where
  "json_sha256 v = (case v of JStr s \<Rightarrow> if is_sha256 s then Some s else None | _ \<Rightarrow> None)"

definition json_nonempty :: "json \<Rightarrow> string option" where
  "json_nonempty v = (case v of JStr s \<Rightarrow> if is_nonempty s then Some s else None | _ \<Rightarrow> None)"

definition guard_opt :: "bool \<Rightarrow> unit option" where
  "guard_opt b = (if b then Some () else None)"

definition pass_report_of :: "promo_env \<Rightarrow> string \<Rightarrow> jobj \<Rightarrow> pass_report option" where
  "pass_report_of env h p = do {
     sv \<leftarrow> as_int (jget p ''schema_version'');
     _ \<leftarrow> guard_opt (sv \<ge> 1);
     _ \<leftarrow> guard_opt (jget p ''finalized'' = JBool True);
     _ \<leftarrow> guard_opt (jget p ''decision'' = JStr ''PASS'');
     cand \<leftarrow> json_sha256 (jget p ''candidate_hash'');
     champ \<leftarrow> json_sha256 (jget p ''tested_champion_hash'');
     orig \<leftarrow> json_sha256 (jget p ''original_hash'');
     ek \<leftarrow> json_nonempty (jget p ''evaluation_key'');
     cfg \<leftarrow> json_sha256 (jget p ''config_hash'');
     sch \<leftarrow> json_sha256 (jget p ''schedule_hash'');
     pol \<leftarrow> json_sha256 (jget p ''policy_hash'');
     _ \<leftarrow> guard_opt (jhas p ''finalized_at_utc'' \<longrightarrow>
        (case jget p ''finalized_at_utc'' of JStr t \<Rightarrow> valid_utc_timestamp env t | _ \<Rightarrow> False));
     Some \<lparr>pr_report_hash = h, pr_schema_version = sv, pr_candidate_hash = cand,
       pr_tested_champion_hash = champ, pr_original_hash = orig, pr_evaluation_key = ek,
       pr_config_hash = cfg, pr_schedule_hash = sch, pr_policy_hash = pol\<rparr> }"

definition load_finalized_pass_report :: "promo_env \<Rightarrow> fentry option \<Rightarrow> string \<Rightarrow> perror + pass_report" where
  "load_finalized_pass_report env f expected =
    (if \<not> is_sha256 expected then Inl PassReportError
     else (case read_file f of
        Inl FileNotFoundErrorP \<Rightarrow> Inl FileNotFoundErrorP
      | Inl _ \<Rightarrow> Inl PassReportError
      | Inr data \<Rightarrow>
        if sha256_bytes env data \<noteq> expected then Inl PassReportError
        else (case decode_json env data of
            Inr (JObj p) \<Rightarrow> (case pass_report_of env expected p of
                None \<Rightarrow> Inl PassReportError | Some r \<Rightarrow> Inr r)
          | _ \<Rightarrow> Inl PassReportError)))"

section \<open>Compare and swap\<close>

record swap_request =
  sw_expected_champion_hash :: string
  sw_candidate_hash :: string
  sw_generation_id :: string
  sw_pass_report_path :: string
  sw_pass_report_hash :: string
  sw_evaluation_key :: string
  sw_prov :: provenance
  sw_actor :: string
  sw_timestamp_utc :: "string option"

definition report_matches :: "pass_report \<Rightarrow> swap_request \<Rightarrow> bool" where
  "report_matches report sw \<longleftrightarrow> pr_candidate_hash report = sw_candidate_hash sw
     \<and> pr_tested_champion_hash report = sw_expected_champion_hash sw
     \<and> pr_original_hash report = original_hash (sw_prov sw)
     \<and> pr_evaluation_key report = sw_evaluation_key sw
     \<and> pr_config_hash report = config_hash (sw_prov sw)
     \<and> pr_schedule_hash report = schedule_hash (sw_prov sw)
     \<and> pr_policy_hash report = policy_hash (sw_prov sw)"

definition retry_matches :: "champion_record \<Rightarrow> swap_request \<Rightarrow> bool" where
  "retry_matches current sw \<longleftrightarrow>
     ch_previous_champion_hash current = Some (sw_expected_champion_hash sw)
     \<and> ch_generation_id current = sw_generation_id sw \<and> ch_prov current = sw_prov sw
     \<and> ch_evaluation_key current = Some (sw_evaluation_key sw)
     \<and> ch_pass_report_path current = Some (sw_pass_report_path sw)
     \<and> ch_pass_report_hash current = Some (sw_pass_report_hash sw)
     \<and> ch_actor current = sw_actor sw \<and> \<not> ch_bootstrap current"

definition compare_and_swap_champion :: "promo_env \<Rightarrow> fentry option \<Rightarrow> fentry option \<Rightarrow> swap_request
    \<Rightarrow> perror + (champion_record \<times> fentry option)" where
  "compare_and_swap_champion env f report_file sw =
    (if \<not> is_sha256 (sw_expected_champion_hash sw) \<or> \<not> is_sha256 (sw_candidate_hash sw)
        \<or> \<not> is_nonempty (sw_generation_id sw) \<or> \<not> is_nonempty (sw_evaluation_key sw)
        \<or> \<not> is_nonempty (sw_actor sw) then Inl ChampionConflictError
     else if sw_candidate_hash sw = sw_expected_champion_hash sw then Inl ChampionConflictError
     else
      bindE (load_finalized_pass_report env report_file (sw_pass_report_hash sw)) (\<lambda>report.
      if \<not> report_matches report sw then Inl PassReportError
      else
       bindE (load_champion env f) (\<lambda>current.
       if original_hash (ch_prov current) \<noteq> original_hash (sw_prov sw) then Inl ChampionConflictError
       else if ch_champion_hash current = sw_candidate_hash sw then
         (if retry_matches current sw then Inr (current, f) else Inl ChampionConflictError)
       else if ch_champion_hash current \<noteq> sw_expected_champion_hash sw then Inl StaleChampionError
       else
        bindE (stamp env (sw_timestamp_utc sw)) (\<lambda>t.
        bindE (champion_build env (sw_candidate_hash sw) (sw_generation_id sw)
            (Some (sw_expected_champion_hash sw)) (sw_prov sw) t (Some (sw_evaluation_key sw))
            (Some (sw_pass_report_path sw)) (Some (sw_pass_report_hash sw)) (sw_actor sw) False)
          (\<lambda>replacement.
            Inr (replacement, Some (RegularFile (champion_bytes env replacement))))))))"


section \<open>The round trip of the champion file\<close>

lemma champion_dict_ok: "payload_ok (champion_to_dict r)"
proof -
  have j: "jfinite (jopt x)" "unique_object (jopt x)" "jnorm (jopt x) = jopt x" for x
    by (cases x; simp)+
  have "sorted_wrt (<) (map fst (champion_body_dict r))" unfolding champion_body_dict_def by simp
  moreover have "\<forall>v \<in> snd ` set (champion_body_dict r). jfinite v \<and> unique_object v \<and> jnorm v = v"
    using j unfolding champion_body_dict_def by simp
  ultimately have "payload_ok (champion_body_dict r)" by (simp add: payload_ok_iff)
  then show ?thesis unfolding champion_to_dict_def by (rule payload_ok_jset) simp_all
qed

lemma champion_fields_to_dict: "set (map fst (champion_to_dict r)) = set champion_fields"
  unfolding champion_to_dict_def set_map jset_keys champion_body_dict_def champion_fields_def by auto

lemma jget_champion_to_dict:
  "jget (champion_to_dict r) k =
     (if k = ''record_hash'' then JStr (ch_record_hash r) else jget (champion_body_dict r) k)"
  unfolding champion_to_dict_def jget_jset by simp

lemma champion_of_fields_to_dict: "champion_of_fields (champion_to_dict r) = Some r"
  unfolding champion_of_fields_def jget_champion_to_dict
  by (simp add: champion_body_dict_def jget_def)

lemma champion_from_to_dict:
  assumes "champion_verify env r = Inr ()"
  shows "champion_from_dict env (JObj (champion_to_dict r)) = Inr r"
  using assms unfolding champion_from_dict_def
  by (simp only: champion_fields_to_dict champion_of_fields_to_dict json.case option.case bindE_simps) simp

lemma load_champion_written:
  assumes "json_roundtrip env" "champion_verify env r = Inr ()"
    and "int (length (champion_bytes env r)) \<le> MAX_JSON_BYTES"
  shows "load_champion env (Some (RegularFile (champion_bytes env r))) = Inr r"
proof -
  from champion_dict_ok [of r] have n: "jfinite (JObj (champion_to_dict r))"
    "unique_object (JObj (champion_to_dict r))" "jnorm (JObj (champion_to_dict r)) = JObj (champion_to_dict r)"
    by (auto simp: payload_ok_def)
  have "loads env (dumps env (JObj (champion_to_dict r)) @ newline) = Some (JObj (champion_to_dict r))"
    by (rule assms(1) [unfolded json_roundtrip_def, THEN spec, THEN mp]) (intro conjI n)
  then have "decode_json env (champion_bytes env r) = Inr (JObj (champion_to_dict r))"
    unfolding decode_json_def champion_bytes_def by (simp only: option.case n if_True)
  with champion_from_to_dict [OF assms(2)] assms(3) show ?thesis
    by (simp add: load_champion_def read_regular_file_def)
qed

lemma champion_build_Inr:
  assumes "champion_build env champ gid prev prov ts ek rpath rhash actor boot = Inr r"
  shows "champion_verify env r = Inr ()" "ch_champion_hash r = champ" "ch_generation_id r = gid"
    "ch_previous_champion_hash r = prev" "ch_prov r = prov" "ch_activated_at_utc r = ts"
    "ch_evaluation_key r = ek" "ch_pass_report_path r = rpath" "ch_pass_report_hash r = rhash"
    "ch_actor r = actor" "ch_bootstrap r = boot"
  using assms by (auto simp: champion_build_def Let_def res_simps)

lemma load_champion_verified:
  assumes "load_champion env f = Inr r"
  shows "champion_verify env r = Inr ()" "f = Some (RegularFile (champion_bytes env r))"
proof -
  from assms obtain data v where d: "read_file f = Inr data" "champion_from_dict env v = Inr r"
    "data = champion_bytes env r" by (auto simp: load_champion_def res_simps split: if_splits)
  then show "champion_verify env r = Inr ()"
    by (auto simp: champion_from_dict_def res_simps split: json.splits if_splits option.splits)
  from d(1,3) show "f = Some (RegularFile (champion_bytes env r))"
    by (cases f) (auto simp: read_regular_file_def split: fentry.splits if_splits)
qed

section \<open>What the swap guarantees\<close>

lemma swap_Inr:
  assumes "compare_and_swap_champion env f rf sw = Inr (r, f')"
  obtains report current where "load_finalized_pass_report env rf (sw_pass_report_hash sw) = Inr report"
    "report_matches report sw" "load_champion env f = Inr current"
    "original_hash (ch_prov current) = original_hash (sw_prov sw)"
    "sw_candidate_hash sw \<noteq> sw_expected_champion_hash sw"
    "ch_champion_hash current = sw_candidate_hash sw \<and> retry_matches current sw \<and> r = current \<and> f' = f
     \<or> ch_champion_hash current = sw_expected_champion_hash sw
       \<and> f' = Some (RegularFile (champion_bytes env r)) \<and> champion_verify env r = Inr ()
       \<and> ch_champion_hash r = sw_candidate_hash sw \<and> retry_matches r sw"
proof -
  from assms obtain report current where a: "load_finalized_pass_report env rf (sw_pass_report_hash sw) = Inr report"
    "report_matches report sw" "load_champion env f = Inr current"
    "original_hash (ch_prov current) = original_hash (sw_prov sw)"
    "sw_candidate_hash sw \<noteq> sw_expected_champion_hash sw"
    by (auto simp: compare_and_swap_champion_def res_simps split: if_splits)
  show ?thesis
  proof (cases "ch_champion_hash current = sw_candidate_hash sw")
    case True
    with assms a show ?thesis
      by (intro that [OF a]) (auto simp: compare_and_swap_champion_def split: if_splits)
  next
    case False
    with assms a obtain t where t: "ch_champion_hash current = sw_expected_champion_hash sw"
      "champion_build env (sw_candidate_hash sw) (sw_generation_id sw)
            (Some (sw_expected_champion_hash sw)) (sw_prov sw) t (Some (sw_evaluation_key sw))
            (Some (sw_pass_report_path sw)) (Some (sw_pass_report_hash sw)) (sw_actor sw) False = Inr r"
      "f' = Some (RegularFile (champion_bytes env r))"
      by (auto simp: compare_and_swap_champion_def res_simps split: if_splits)
    with champion_build_Inr [OF t(2)] show ?thesis
      by (intro that [OF a]) (auto simp: retry_matches_def)
  qed
qed

end
