(* ===== verification/Champion_Props.thy ===== *)
theory Champion_Props
  imports Champion_File Promotion_Sample
begin

text \<open>
  What the compare-and-swap of \<^verbatim>\<open>champion.json\<close> guarantees, with a sample champion and sample
  reports to run it on.
\<close>

section \<open>Sample champion and reports\<close>

definition sample_champion :: champion_record where
  "sample_champion = projr (champion_build sample_env (sample_hash (CHR ''a'')) ''g0'' None sample_prov
     (utc_now sample_env) None None None ''a'' True)"

definition sample_champion_file :: "fentry option" where
  "sample_champion_file = Some (RegularFile (champion_bytes sample_env sample_champion))"

definition sample_report :: "char \<Rightarrow> jobj" where
  "sample_report cand =
    [(''candidate_hash'', JStr (sample_hash cand)), (''config_hash'', JStr (config_hash sample_prov)),
     (''decision'', JStr ''PASS''), (''evaluation_key'', JStr ''k''), (''finalized'', JBool True),
     (''original_hash'', JStr (original_hash sample_prov)), (''policy_hash'', JStr (policy_hash sample_prov)),
     (''schedule_hash'', JStr (schedule_hash sample_prov)), (''schema_version'', JInt 1),
     (''tested_champion_hash'', JStr (sample_hash (CHR ''a'')))]"

definition sample_report_bytes :: "char \<Rightarrow> string" where
  "sample_report_bytes cand = enc (JObj (sample_report cand)) @ newline"

definition sample_swap :: "char \<Rightarrow> swap_request" where
  "sample_swap cand = \<lparr>sw_expected_champion_hash = sample_hash (CHR ''a''),
     sw_candidate_hash = sample_hash cand, sw_generation_id = ''g1'', sw_pass_report_path = ''p'',
     sw_pass_report_hash = sample_sha (sample_report_bytes cand), sw_evaluation_key = ''k'',
     sw_prov = sample_prov, sw_actor = ''a'', sw_timestamp_utc = None\<rparr>"

lemma length_sample_prov [simp]:
  "length (config_hash sample_prov) = 64" "length (original_hash sample_prov) = 64"
  "length (policy_hash sample_prov) = 64" "length (schedule_hash sample_prov) = 64"
  "length (controller_hash sample_prov) = 64" "length (source_hash sample_prov) = 64"
  by (simp_all add: sample_prov_def Let_def sample_hash_def)

lemma sample_prov_hashes [simp]:
  "is_sha256 (config_hash sample_prov)" "is_sha256 (original_hash sample_prov)"
  "is_sha256 (policy_hash sample_prov)" "is_sha256 (schedule_hash sample_prov)"
  by (simp_all add: sample_prov_def Let_def hex_digit_def)

lemma sample_texts [simp]: "is_nonempty ''k''" "is_nonempty ''g1''" "is_nonempty ''p''"
  by code_simp+

lemma sample_digits [simp]: "hex_digit (CHR ''a'')" "hex_digit (CHR ''b'')" "hex_digit (CHR ''c'')"
  by (simp_all add: hex_digit_def)

lemma sample_report_ok: "payload_ok (sample_report c)"
  by (simp add: payload_ok_iff sample_report_def)

lemma sample_report_load:
  assumes "hex_digit c"
  shows "load_finalized_pass_report sample_env (Some (RegularFile (sample_report_bytes c)))
     (sample_sha (sample_report_bytes c)) = Inr \<lparr>pr_report_hash = sample_sha (sample_report_bytes c),
       pr_schema_version = 1, pr_candidate_hash = sample_hash c,
       pr_tested_champion_hash = sample_hash (CHR ''a''), pr_original_hash = original_hash sample_prov,
       pr_evaluation_key = ''k'', pr_config_hash = config_hash sample_prov,
       pr_schedule_hash = schedule_hash sample_prov, pr_policy_hash = policy_hash sample_prov\<rparr>"
proof -
  from sample_report_ok [of c] have n: "jfinite (JObj (sample_report c))"
    "unique_object (JObj (sample_report c))" "jnorm (JObj (sample_report c)) = JObj (sample_report c)"
    by (auto simp: payload_ok_def)
  have "loads sample_env (dumps sample_env (JObj (sample_report c)) @ newline) = Some (JObj (sample_report c))"
    by (rule sample_roundtrip [unfolded json_roundtrip_def, THEN spec, THEN mp]) (intro conjI n)
  then have d: "decode_json sample_env (sample_report_bytes c) = Inr (JObj (sample_report c))"
    unfolding decode_json_def sample_report_bytes_def
    by (simp only: sample_env_simps option.case n if_True)
  have "int (length (sample_report_bytes c)) \<le> MAX_JSON_BYTES"
    unfolding sample_report_bytes_def length_append length_enc_obj
    by (simp add: sample_report_def newline_def MAX_JSON_BYTES_def sample_hash_def)
  then have "read_file (Some (RegularFile (sample_report_bytes c))) = Inr (sample_report_bytes c)"
    by (simp add: read_regular_file_def)
  with d assms show ?thesis
    by (simp add: load_finalized_pass_report_def pass_report_of_def sample_report_def jget_def jhas_def
        guard_opt_def json_sha256_def json_nonempty_def)
qed

lemma sample_champion_facts:
  "champion_verify sample_env sample_champion = Inr ()"
  "ch_champion_hash sample_champion = sample_hash (CHR ''a'')" "ch_prov sample_champion = sample_prov"
  "load_champion sample_env sample_champion_file = Inr sample_champion"
proof -
  let ?b = "champion_build sample_env (sample_hash (CHR ''a'')) ''g0'' None sample_prov
     (utc_now sample_env) None None None ''a'' True"
  have "?b = Inr sample_champion" unfolding sample_champion_def
    by (rule Inr_projr)
      (simp add: champion_build_def Let_def champion_verify_def CHAMPION_SCHEMA_VERSION_def
        canonical_sha256_def champion_body_dict_def)
  note b = champion_build_Inr [OF this]
  show v: "champion_verify sample_env sample_champion = Inr ()" by (rule b)
  show "ch_champion_hash sample_champion = sample_hash (CHR ''a'')" "ch_prov sample_champion = sample_prov"
    by (rule b)+
  have "length (ch_record_hash sample_champion) = 64" "ch_schema_version sample_champion = 1"
    using v by (auto simp: champion_verify_def is_sha256_def CHAMPION_SCHEMA_VERSION_def split: if_splits)
  then have "int (length (champion_bytes sample_env sample_champion)) \<le> MAX_JSON_BYTES"
    unfolding champion_bytes_def length_append sample_env_simps length_enc_obj
    by (simp add: champion_to_dict_def champion_body_dict_def b newline_def MAX_JSON_BYTES_def
        sample_hash_def sample_env_def)
  with load_champion_written [OF sample_roundtrip v] show "load_champion sample_env sample_champion_file = Inr sample_champion"
    by (simp add: sample_champion_file_def)
qed

lemma sample_swap_ok:
  assumes "hex_digit c" "c \<noteq> CHR ''a''"
  obtains r where "compare_and_swap_champion sample_env sample_champion_file
      (Some (RegularFile (sample_report_bytes c))) (sample_swap c)
      = Inr (r, Some (RegularFile (champion_bytes sample_env r)))"
    "int (length (champion_bytes sample_env r)) \<le> MAX_JSON_BYTES"
proof -
  have ne: "sample_hash c \<noteq> sample_hash (CHR ''a'')" using assms(2) by (simp add: sample_hash_def)
  let ?b = "champion_build sample_env (sample_hash c) ''g1'' (Some (sample_hash (CHR ''a''))) sample_prov
     (utc_now sample_env) (Some ''k'') (Some ''p'') (Some (sample_sha (sample_report_bytes c))) ''a'' False"
  have "\<not> isl ?b" using assms
    by (simp add: champion_build_def Let_def champion_verify_def CHAMPION_SCHEMA_VERSION_def
        canonical_sha256_def champion_body_dict_def)
  then obtain r where bb: "?b = Inr r" by (cases ?b) auto
  note b = champion_build_Inr [OF bb]
  have s: "compare_and_swap_champion sample_env sample_champion_file
      (Some (RegularFile (sample_report_bytes c))) (sample_swap c)
      = Inr (r, Some (RegularFile (champion_bytes sample_env r)))"
    using assms ne sample_report_load [OF assms(1)] sample_champion_facts bb
    by (simp add: compare_and_swap_champion_def sample_swap_def report_matches_def stamp_def)
  have h: "length (ch_record_hash r) = 64" "ch_schema_version r = 1"
    using b(1) by (auto simp: champion_verify_def is_sha256_def CHAMPION_SCHEMA_VERSION_def split: if_splits)
  have "length (sample_sha (sample_report_bytes c)) = 64"
    using sample_sha_ok [of "sample_report_bytes c"] by (simp add: is_sha256_def)
  with h have "int (length (champion_bytes sample_env r)) \<le> MAX_JSON_BYTES"
    unfolding champion_bytes_def length_append sample_env_simps length_enc_obj
    by (simp add: champion_to_dict_def champion_body_dict_def b newline_def MAX_JSON_BYTES_def
        sample_hash_def sample_env_def)
  with s show ?thesis by (rule that)
qed


section \<open>Properties of the swap\<close>

text \<open>
  C24. A successful swap promotes only a candidate whose finalized PASS report, with the promised
  hash, names that candidate and the champion it was tested against; the file held that champion, or
  was already the result of the same request; and afterwards the file loads as the returned record,
  whose champion is the candidate and whose previous champion is the tested one.
\<close>

theorem swap_only_from_tested_champion:
  assumes "compare_and_swap_champion env f rf sw = Inr (r, f')"
    and "json_roundtrip env" and "int (length (champion_bytes env r)) \<le> MAX_JSON_BYTES"
  shows "\<exists>report current. load_finalized_pass_report env rf (sw_pass_report_hash sw) = Inr report
    \<and> pr_candidate_hash report = sw_candidate_hash sw
    \<and> pr_tested_champion_hash report = sw_expected_champion_hash sw
    \<and> load_champion env f = Inr current
    \<and> (ch_champion_hash current = sw_expected_champion_hash sw \<or> current = r \<and> f' = f)
    \<and> load_champion env f' = Inr r \<and> ch_champion_hash r = sw_candidate_hash sw
    \<and> ch_previous_champion_hash r = Some (sw_expected_champion_hash sw)"
proof -
  from assms(1) obtain report current where s: "load_finalized_pass_report env rf (sw_pass_report_hash sw) = Inr report"
    "report_matches report sw" "load_champion env f = Inr current"
    "ch_champion_hash current = sw_candidate_hash sw \<and> retry_matches current sw \<and> r = current \<and> f' = f
     \<or> ch_champion_hash current = sw_expected_champion_hash sw
       \<and> f' = Some (RegularFile (champion_bytes env r)) \<and> champion_verify env r = Inr ()
       \<and> ch_champion_hash r = sw_candidate_hash sw \<and> retry_matches r sw" by (rule swap_Inr)
  with load_champion_written [OF assms(2) _ assms(3)] show ?thesis
    by (auto simp: report_matches_def retry_matches_def)
qed

lemma swap_only_from_tested_champion_witness:
  "\<exists>r f'. compare_and_swap_champion sample_env sample_champion_file
      (Some (RegularFile (sample_report_bytes (CHR ''b'')))) (sample_swap (CHR ''b'')) = Inr (r, f')
     \<and> load_champion sample_env f' = Inr r \<and> ch_champion_hash r = sample_hash (CHR ''b'')"
proof -
  obtain r where r: "compare_and_swap_champion sample_env sample_champion_file
      (Some (RegularFile (sample_report_bytes (CHR ''b'')))) (sample_swap (CHR ''b''))
      = Inr (r, Some (RegularFile (champion_bytes sample_env r)))"
    "int (length (champion_bytes sample_env r)) \<le> MAX_JSON_BYTES"
    by (rule sample_swap_ok [of "CHR ''b''"]) auto
  from swap_only_from_tested_champion [OF r(1) sample_roundtrip r(2)] r(1) show ?thesis
    by (auto simp: sample_swap_def)
qed

lemma swap_again:
  assumes "compare_and_swap_champion env f rf sw = Inr (r, f')"
    and "json_roundtrip env" and "int (length (champion_bytes env r)) \<le> MAX_JSON_BYTES"
  shows "compare_and_swap_champion env f' rf (sw\<lparr>sw_timestamp_utc := t\<rparr>) = Inr (r, f')"
proof -
  from assms(1) have args: "is_sha256 (sw_expected_champion_hash sw)" "is_sha256 (sw_candidate_hash sw)"
    "is_nonempty (sw_generation_id sw)" "is_nonempty (sw_evaluation_key sw)" "is_nonempty (sw_actor sw)"
    by (auto simp: compare_and_swap_champion_def split: if_splits)
  from assms(1) obtain report current where s: "load_finalized_pass_report env rf (sw_pass_report_hash sw) = Inr report"
    "report_matches report sw" "load_champion env f = Inr current"
    "original_hash (ch_prov current) = original_hash (sw_prov sw)"
    "sw_candidate_hash sw \<noteq> sw_expected_champion_hash sw"
    "ch_champion_hash current = sw_candidate_hash sw \<and> retry_matches current sw \<and> r = current \<and> f' = f
     \<or> ch_champion_hash current = sw_expected_champion_hash sw
       \<and> f' = Some (RegularFile (champion_bytes env r)) \<and> champion_verify env r = Inr ()
       \<and> ch_champion_hash r = sw_candidate_hash sw \<and> retry_matches r sw" by (rule swap_Inr)
  have "load_champion env f' = Inr r" "ch_champion_hash r = sw_candidate_hash sw" "retry_matches r sw"
    using s load_champion_written [OF assms(2) _ assms(3)] by auto
  moreover from this have "original_hash (ch_prov r) = original_hash (sw_prov sw)"
    by (simp add: retry_matches_def)
  ultimately show ?thesis using args s
    by (simp add: compare_and_swap_champion_def report_matches_def retry_matches_def)
qed

text \<open>
  The swap is idempotent: repeating a successful request, at whatever time stamp, returns the
  same record and does not touch the file.
\<close>

theorem swap_retry:
  assumes "compare_and_swap_champion env f rf sw = Inr (r, f')"
    and "json_roundtrip env" and "int (length (champion_bytes env r)) \<le> MAX_JSON_BYTES"
  shows "compare_and_swap_champion env f' rf (sw\<lparr>sw_timestamp_utc := t\<rparr>) = Inr (r, f')"
  using assms by (rule swap_again)

lemma swap_retry_witness:
  "\<exists>r f'. f' \<noteq> sample_champion_file
     \<and> compare_and_swap_champion sample_env sample_champion_file
         (Some (RegularFile (sample_report_bytes (CHR ''b'')))) (sample_swap (CHR ''b'')) = Inr (r, f')
     \<and> compare_and_swap_champion sample_env f' (Some (RegularFile (sample_report_bytes (CHR ''b''))))
         ((sample_swap (CHR ''b''))\<lparr>sw_timestamp_utc := Some ''later''\<rparr>) = Inr (r, f')"
proof -
  obtain r where r: "compare_and_swap_champion sample_env sample_champion_file
      (Some (RegularFile (sample_report_bytes (CHR ''b'')))) (sample_swap (CHR ''b''))
      = Inr (r, Some (RegularFile (champion_bytes sample_env r)))"
    "int (length (champion_bytes sample_env r)) \<le> MAX_JSON_BYTES"
    by (rule sample_swap_ok [of "CHR ''b''"]) auto
  let ?f = "Some (RegularFile (champion_bytes sample_env r))"
  have "ch_champion_hash r = sample_hash (CHR ''b'')"
    using r(1) by (rule swap_Inr) (auto simp: sample_swap_def)
  moreover have "load_champion sample_env ?f = Inr r"
    using r(1) by (rule swap_Inr) (auto intro: load_champion_written [OF sample_roundtrip _ r(2)]
        dest: load_champion_verified)
  ultimately have "?f \<noteq> sample_champion_file"
    using sample_champion_facts by (auto simp: sample_hash_def)
  with swap_retry [OF r(1) sample_roundtrip r(2)] r(1) show ?thesis by blast
qed

text \<open>
  C25. Competing promotions: once a swap away from a champion has succeeded, a swap of a different
  candidate that was tested against the same champion is refused; when its own report is valid and
  names the same original, the refusal is the stale-champion error.
\<close>

theorem competing_swap_is_stale:
  assumes "compare_and_swap_champion env f rf sw = Inr (r, f')"
    and "json_roundtrip env" and "int (length (champion_bytes env r)) \<le> MAX_JSON_BYTES"
    and "sw_expected_champion_hash sw' = sw_expected_champion_hash sw"
    and "sw_candidate_hash sw' \<noteq> sw_candidate_hash sw"
  shows "(\<forall>x. compare_and_swap_champion env f' rf' sw' \<noteq> Inr x)
    \<and> (is_sha256 (sw_candidate_hash sw') \<and> is_nonempty (sw_generation_id sw')
       \<and> is_nonempty (sw_evaluation_key sw') \<and> is_nonempty (sw_actor sw')
       \<and> sw_candidate_hash sw' \<noteq> sw_expected_champion_hash sw'
       \<and> original_hash (sw_prov sw') = original_hash (sw_prov sw)
       \<and> (\<exists>report. load_finalized_pass_report env rf' (sw_pass_report_hash sw') = Inr report
            \<and> report_matches report sw')
       \<longrightarrow> compare_and_swap_champion env f' rf' sw' = Inl StaleChampionError)"
proof -
  from swap_again [OF assms(1-3)] have s: "compare_and_swap_champion env f' rf (sw\<lparr>sw_timestamp_utc := None\<rparr>) = Inr (r, f')" .
  have load: "load_champion env f' = Inr r" and r: "ch_champion_hash r = sw_candidate_hash sw"
    and orig: "original_hash (ch_prov r) = original_hash (sw_prov sw)"
    and ne: "sw_candidate_hash sw \<noteq> sw_expected_champion_hash sw"
    using s load_champion_written [OF assms(2) _ assms(3)]
    by (elim swap_Inr; auto simp: retry_matches_def)+
  have "compare_and_swap_champion env f' rf' sw' \<noteq> Inr x" for x
    using load r assms(4,5) ne by (auto simp: compare_and_swap_champion_def res_simps)
  moreover from assms(1) have "is_sha256 (sw_expected_champion_hash sw)"
    by (auto simp: compare_and_swap_champion_def split: if_splits)
  ultimately show ?thesis using load r orig ne assms(4,5)
    by (auto simp: compare_and_swap_champion_def)
qed

lemma competing_swap_is_stale_witness:
  "\<exists>r f'. compare_and_swap_champion sample_env sample_champion_file
      (Some (RegularFile (sample_report_bytes (CHR ''b'')))) (sample_swap (CHR ''b'')) = Inr (r, f')
     \<and> compare_and_swap_champion sample_env f' (Some (RegularFile (sample_report_bytes (CHR ''c''))))
         (sample_swap (CHR ''c'')) = Inl StaleChampionError"
proof -
  obtain r where r: "compare_and_swap_champion sample_env sample_champion_file
      (Some (RegularFile (sample_report_bytes (CHR ''b'')))) (sample_swap (CHR ''b''))
      = Inr (r, Some (RegularFile (champion_bytes sample_env r)))"
    "int (length (champion_bytes sample_env r)) \<le> MAX_JSON_BYTES"
    by (rule sample_swap_ok [of "CHR ''b''"]) auto
  have h: "sample_hash (CHR ''c'') \<noteq> sample_hash (CHR ''b'')" "sample_hash (CHR ''c'') \<noteq> sample_hash (CHR ''a'')"
    by (simp_all add: sample_hash_def)
  have "compare_and_swap_champion sample_env (Some (RegularFile (champion_bytes sample_env r)))
      (Some (RegularFile (sample_report_bytes (CHR ''c'')))) (sample_swap (CHR ''c'')) = Inl StaleChampionError"
    by (rule competing_swap_is_stale [OF r(1) sample_roundtrip r(2), THEN conjunct2, THEN mp])
      (use h sample_report_load [of "CHR ''c''"] in \<open>auto simp: sample_swap_def report_matches_def\<close>)
  with r(1) show ?thesis by blast
qed

text \<open>
  C37. Creating the champion file never replaces an existing one, even when another process creates
  it between the existence test and the link: a successful call leaves the file it met, whose record
  it returns, or writes the record it built; either way the record it returns is a bootstrap record
  with the requested champion, generation, provenance and actor, and the file loads as it.
\<close>

theorem bootstrap_never_replaces:
  assumes "bootstrap_champion env seen now champ gid prov actor ts = Inr (r, f')"
    and "seen \<noteq> None \<longrightarrow> now = seen"
    and "json_roundtrip env" and "int (length (champion_bytes env r)) \<le> MAX_JSON_BYTES"
  shows "(now \<noteq> None \<longrightarrow> f' = now) \<and> load_champion env f' = Inr r \<and> ch_bootstrap r
    \<and> ch_champion_hash r = champ \<and> ch_generation_id r = gid \<and> ch_prov r = prov \<and> ch_actor r = actor"
proof -
  from assms(1) obtain t desired where d: "champion_build env champ gid None prov t None None None actor True = Inr desired"
    "(if seen = None \<and> now = None then r = desired \<and> f' = Some (RegularFile (champion_bytes env desired))
      else load_champion env (if seen \<noteq> None then seen else now) = Inr r
        \<and> validate_bootstrap_retry r desired = Inr () \<and> f' = (if seen \<noteq> None then seen else now))"
    by (auto simp: bootstrap_champion_def Let_def res_simps split: option.splits if_splits)
  note b = champion_build_Inr [OF d(1)]
  show ?thesis
  proof (cases "seen = None \<and> now = None")
    case True
    with d(2) b load_champion_written [OF assms(3) _ assms(4)] show ?thesis by auto
  next
    case False
    with d(2) b assms(2) show ?thesis
      by (auto simp: validate_bootstrap_retry_def split: if_splits)
  qed
qed

lemma bootstrap_never_replaces_witness:
  "\<exists>f'. bootstrap_champion sample_env None sample_champion_file (sample_hash (CHR ''a'')) ''g0'' sample_prov
      ''a'' None = Inr (sample_champion, f') \<and> f' = sample_champion_file"
proof -
  let ?b = "champion_build sample_env (sample_hash (CHR ''a'')) ''g0'' None sample_prov
     (utc_now sample_env) None None None ''a'' True"
  have "\<not> isl ?b"
    by (simp add: champion_build_def Let_def champion_verify_def CHAMPION_SCHEMA_VERSION_def
        canonical_sha256_def champion_body_dict_def)
  then have b: "?b = Inr sample_champion" unfolding sample_champion_def by (rule Inr_projr)
  have s: "bootstrap_champion sample_env None sample_champion_file (sample_hash (CHR ''a'')) ''g0'' sample_prov
      ''a'' None = Inr (sample_champion, sample_champion_file)"
    using b sample_champion_facts(4)
    by (simp add: bootstrap_champion_def stamp_def validate_bootstrap_retry_def sample_champion_file_def)
  have l: "int (length (champion_bytes sample_env sample_champion)) \<le> MAX_JSON_BYTES"
    using sample_champion_facts(4)
    by (auto simp: load_champion_def sample_champion_file_def read_regular_file_def split: if_splits)
  from bootstrap_never_replaces [OF s _ sample_roundtrip l] s show ?thesis
    by (auto simp: sample_champion_file_def)
qed

end
