(* ===== verification/Controller_Lock.thy ===== *)
theory Controller_Lock
  imports Kata_Prelude
begin

text \<open>
  The single-writer lock of the promotion controller, class \<^verbatim>\<open>ControllerLock\<close> of
  \<^verbatim>\<open>src/python/risk_score/promotion_state.py\<close>, as a state machine over all its instances.
\<close>

text \<open>
  \<open>ControllerLock\<close>: each instance keeps the descriptor it locked. The kernel's side is the set of
  descriptors holding the advisory lock of the file and the next unused descriptor;
  \<open>acquire_io\<close> says what the file system answers.
\<close>

record lock_state =
  lk_fd :: "(nat, nat) dict"
  lk_holder :: "nat option"
  lk_next_fd :: nat

datatype lock_error = ControllerLockError | FileNotFoundErrorL | OSErrorL

record acquire_io =
  io_parent_is_dir :: bool
  io_is_regular :: bool
  io_write_ok :: bool

definition lock_acquired :: "lock_state \<Rightarrow> nat \<Rightarrow> bool" where
  "lock_acquired s i \<longleftrightarrow> dget (lk_fd s) i \<noteq> None"

definition lock_acquire :: "acquire_io \<Rightarrow> lock_state \<Rightarrow> nat \<Rightarrow> lock_state \<times> lock_error option" where
  "lock_acquire io s i =
    (if lock_acquired s i then (s, None)
     else if \<not> io_parent_is_dir io then (s, Some FileNotFoundErrorL)
     else let fd = lk_next_fd s; s1 = s\<lparr>lk_next_fd := Suc fd\<rparr> in
       if \<not> io_is_regular io then (s1, Some ControllerLockError)
       else if lk_holder s1 \<noteq> None then (s1, Some ControllerLockError)
       else if \<not> io_write_ok io then (s1, Some OSErrorL)
       else (s1\<lparr>lk_holder := Some fd, lk_fd := dset (lk_fd s1) i fd\<rparr>, None))"

definition lock_release :: "lock_state \<Rightarrow> nat \<Rightarrow> lock_state" where
  "lock_release s i =
    (case dget (lk_fd s) i of
       None \<Rightarrow> s
     | Some fd \<Rightarrow> s\<lparr>lk_fd := ddel (lk_fd s) i,
                    lk_holder := (if lk_holder s = Some fd then None else lk_holder s)\<rparr>)"

section \<open>Interleavings\<close>

text \<open>Any instance may try to acquire, with any answer of the file system, or release, at any time.\<close>

definition lock_init :: lock_state where
  "lock_init = \<lparr>lk_fd = [], lk_holder = None, lk_next_fd = 0\<rparr>"

inductive lock_reachable :: "lock_state \<Rightarrow> bool" where
  start: "lock_reachable lock_init"
| acquire: "lock_reachable s \<Longrightarrow> lock_reachable (fst (lock_acquire io s i))"
| release: "lock_reachable s \<Longrightarrow> lock_reachable (lock_release s i)"

definition lock_inv :: "lock_state \<Rightarrow> bool" where
  "lock_inv s \<longleftrightarrow> (\<forall>i fd. dget (lk_fd s) i = Some fd \<longrightarrow> lk_holder s = Some fd)
     \<and> (\<forall>i j fd. dget (lk_fd s) i = Some fd \<longrightarrow> dget (lk_fd s) j = Some fd \<longrightarrow> i = j)
     \<and> (\<forall>fd. lk_holder s = Some fd \<longrightarrow> fd < lk_next_fd s \<and> (\<exists>i. dget (lk_fd s) i = Some fd))"

lemma lock_inv_acquire:
  assumes "lock_inv s"
  shows "lock_inv (fst (lock_acquire io s i))"
proof (cases "lk_holder s")
  case None
  with assms have e: "dget (lk_fd s) j = None" for j by (auto simp: lock_inv_def)
  then show ?thesis using assms None
    by (auto simp: lock_acquire_def lock_inv_def Let_def dict_simps)
next
  case (Some fd)
  with assms show ?thesis by (auto simp: lock_acquire_def lock_inv_def Let_def less_Suc_eq)
qed

lemma lock_inv_release:
  assumes "lock_inv s"
  shows "lock_inv (lock_release s i)"
proof (cases "dget (lk_fd s) i")
  case (Some fd)
  from assms Some have h: "lk_holder s = Some fd" by (auto simp: lock_inv_def)
  have "j = i" if "dget (lk_fd s) j = Some x" for j x
    using assms Some h that unfolding lock_inv_def by (metis option.inject)
  then have "dget (ddel (lk_fd s) i) j = None" for j
    by (metis dget_ddel not_None_eq)
  with Some h show ?thesis by (simp add: lock_release_def lock_inv_def)
qed (use assms in \<open>simp add: lock_release_def\<close>)

lemma lock_reachable_inv: "lock_reachable s \<Longrightarrow> lock_inv s"
proof (induction rule: lock_reachable.induct)
  case start
  then show ?case by (simp add: lock_init_def lock_inv_def)
qed (simp_all add: lock_inv_acquire lock_inv_release)

text \<open>
  C38. Mutual exclusion of controllers: in every interleaving of acquisitions and releases by any
  number of instances, at most one instance holds the lock; and an acquisition by another instance
  is refused exactly while one does (the file system permitting).
\<close>

theorem controller_lock_exclusive:
  assumes "lock_reachable s"
  shows "(lock_acquired s i \<longrightarrow> lock_acquired s j \<longrightarrow> i = j)
    \<and> (io_parent_is_dir io \<longrightarrow> io_is_regular io \<longrightarrow> io_write_ok io \<longrightarrow> \<not> lock_acquired s j \<longrightarrow>
        (snd (lock_acquire io s j) = None \<longleftrightarrow> (\<forall>i. \<not> lock_acquired s i)))"
proof -
  from assms have inv: "lock_inv s" by (rule lock_reachable_inv)
  then have "lock_acquired s i \<longrightarrow> lock_acquired s j \<longrightarrow> i = j"
    unfolding lock_inv_def lock_acquired_def by (metis not_None_eq option.inject)
  moreover have "lk_holder s = None \<longleftrightarrow> (\<forall>i. \<not> lock_acquired s i)"
    using inv unfolding lock_inv_def lock_acquired_def by (metis not_None_eq option.inject)
  ultimately show ?thesis by (auto simp: lock_acquire_def Let_def)
qed

lemma controller_lock_exclusive_witness:
  "let io = \<lparr>io_parent_is_dir = True, io_is_regular = True, io_write_ok = True\<rparr>;
       s = fst (lock_acquire io lock_init 1)
   in lock_reachable s \<and> lock_acquired s 1 \<and> \<not> lock_acquired s 2
      \<and> snd (lock_acquire io s 2) = Some ControllerLockError
      \<and> snd (lock_acquire io (lock_release s 1) 2) = None"
proof -
  let ?io = "\<lparr>io_parent_is_dir = True, io_is_regular = True, io_write_ok = True\<rparr>"
  let ?s = "fst (lock_acquire ?io lock_init 1)"
  have r: "lock_reachable ?s" by (intro lock_reachable.intros)
  have a: "lock_acquired ?s 1" "snd (lock_acquire ?io ?s 2) = Some ControllerLockError"
    "snd (lock_acquire ?io (lock_release ?s 1) 2) = None" by code_simp+
  from controller_lock_exclusive [OF r, of 1 2] a(1) have "\<not> lock_acquired ?s 2" by auto
  with r a show ?thesis unfolding Let_def by blast
qed

end
