(* ===== verification/Scheduler.thy ===== *)
theory Scheduler
  imports Kata_Prelude "HOL-Library.Product_Lexorder"
begin

text \<open>
  The durable GPU work scheduler, \<^verbatim>\<open>src/python/risk_score/cluster_scheduler.py\<close>: work classes and
  their fixed priorities, the records of the durable state, its validation, and one definition per
  operation of \<^verbatim>\<open>ClusterScheduler\<close>. An operation takes the loaded state and returns its result with
  the state it left behind, or the exception it raised, in which case nothing was written. The
  clock is read when a sequence number is allocated, so a reading is a function of that number.
\<close>

section \<open>Work classes and priorities\<close>

datatype WorkKind = RECOVERY | PROMOTION_CONFIRMATION | PROMOTION_CANARY | SCREENING | CURATION
  | TRAINER | SELF_PLAY | BACKFILL

datatype WorkState = QUEUED | W_CLAIMED | W_COMPLETED | W_FAILED | W_CANCELLED

datatype ReleaseOutcome = COMPLETED | REQUEUE | FAILED | CANCELLED

datatype PreemptionStatus = PENDING | BOUNDARY_REACHED

datatype IdleReason = NO_RUNNABLE_WORK | CHECKPOINT_BOUNDARY | LEASE_HANDOFF | SAFETY_HALT

definition PRIORITY_TIERS :: "WorkKind list list" where
  "PRIORITY_TIERS = [[RECOVERY], [PROMOTION_CONFIRMATION, PROMOTION_CANARY], [SCREENING], [CURATION],
     [TRAINER], [SELF_PLAY], [BACKFILL]]"

fun index_of :: "'a \<Rightarrow> 'a list \<Rightarrow> nat" where
  "index_of x [] = 0"
| "index_of x (y # ys) = (if x = y then 0 else Suc (index_of x ys))"

fun tier_of :: "WorkKind \<Rightarrow> WorkKind list list \<Rightarrow> nat \<times> nat" where
  "tier_of k [] = (0, 0)"
| "tier_of k (t # ts) = (if k \<in> set t then (0, index_of k t)
     else (let (i, j) = tier_of k ts in (Suc i, j)))"

definition priority_class_key :: "WorkKind \<Rightarrow> nat \<times> nat" where
  "priority_class_key k = tier_of k PRIORITY_TIERS"

datatype serror = SchedulerStateError | SchedulerConflictError | UnknownGpuError | GpuBusyError
  | NoActiveClaimError | SchedulerClockError | ValueErrorS | KeyErrorS

section \<open>Normalisation of arguments\<close>

definition ident :: "string \<Rightarrow> bool" where
  "ident s \<longleftrightarrow> py_strip s \<noteq> [] \<and> s = py_strip s \<and> \<not> has_nul s"

definition require_identifier :: "string \<Rightarrow> serror + string" where
  "require_identifier s = (if ident s then Inr s else Inl ValueErrorS)"

definition dashes :: "string \<Rightarrow> string" where
  "dashes s = map (\<lambda>c. if c = CHR ''_'' then CHR ''-'' else c) s"

definition work_kind_table :: "(string \<times> WorkKind) list" where
  "work_kind_table = [(''recovery'', RECOVERY), (''promotion-confirmation'', PROMOTION_CONFIRMATION),
     (''promotion-canary'', PROMOTION_CANARY), (''screening'', SCREENING), (''curation'', CURATION),
     (''trainer'', TRAINER), (''self-play'', SELF_PLAY), (''backfill'', BACKFILL)]"

definition work_kind_aliases :: "(string \<times> WorkKind) list" where
  "work_kind_aliases = [(''confirmation'', PROMOTION_CONFIRMATION),
     (''promotion-confirmation'', PROMOTION_CONFIRMATION),
     (''promotion_confirmation'', PROMOTION_CONFIRMATION), (''canary'', PROMOTION_CANARY),
     (''promotion-canary'', PROMOTION_CANARY), (''promotion_canary'', PROMOTION_CANARY),
     (''selfplay'', SELF_PLAY), (''self-play'', SELF_PLAY), (''self_play'', SELF_PLAY)]"

definition normalize_work_kind :: "string \<Rightarrow> serror + WorkKind" where
  "normalize_work_kind v =
    (let n = py_lower (py_strip v) in
     case map_of work_kind_aliases n of
       Some k \<Rightarrow> Inr k
     | None \<Rightarrow> (case map_of work_kind_table (dashes n) of Some k \<Rightarrow> Inr k | None \<Rightarrow> Inl ValueErrorS))"

definition idle_reason_table :: "(string \<times> IdleReason) list" where
  "idle_reason_table = [(''no-runnable-work'', NO_RUNNABLE_WORK),
     (''checkpoint-boundary'', CHECKPOINT_BOUNDARY), (''lease-handoff'', LEASE_HANDOFF),
     (''safety-halt'', SAFETY_HALT), (''no_runnable_work'', NO_RUNNABLE_WORK),
     (''checkpoint_boundary'', CHECKPOINT_BOUNDARY), (''lease_handoff'', LEASE_HANDOFF),
     (''safety_halt'', SAFETY_HALT)]"

definition normalize_idle_reason :: "string \<Rightarrow> serror + IdleReason" where
  "normalize_idle_reason v = (case map_of idle_reason_table (py_lower (py_strip v)) of
     Some r \<Rightarrow> Inr r | None \<Rightarrow> Inl ValueErrorS)"

definition release_outcome_aliases :: "(string \<times> ReleaseOutcome) list" where
  "release_outcome_aliases = [(''complete'', COMPLETED), (''completed'', COMPLETED),
     (''requeue'', REQUEUE), (''requeued'', REQUEUE), (''failed'', FAILED),
     (''cancelled'', CANCELLED), (''canceled'', CANCELLED)]"

definition normalize_release_outcome :: "string \<Rightarrow> serror + ReleaseOutcome" where
  "normalize_release_outcome v = (case map_of release_outcome_aliases (dashes (py_lower (py_strip v))) of
     Some r \<Rightarrow> Inr r | None \<Rightarrow> Inl ValueErrorS)"

text \<open>
  \<open>_json_object\<close>. A Python dictionary names a key once, so an association list that repeats one
  stands for no argument and is refused.
\<close>

definition json_object :: "jobj \<Rightarrow> serror + jobj" where
  "json_object p = (if \<not> unique_object (JObj p) then Inl ValueErrorS
     else (case jcanon p of None \<Rightarrow> Inl ValueErrorS | Some q \<Rightarrow> Inr q))"

section \<open>Records of the durable state\<close>

record work_item =
  wi_work_id :: string
  wi_kind :: WorkKind
  wi_eligible_gpus :: "string list option"
  wi_preemptible :: bool
  wi_preferred_gpu :: "string option"
  wi_payload :: jobj

text \<open>\<open>WorkItem.__post_init__\<close>: sorted, duplicate-free eligibility; an empty one means any GPU.\<close>

definition normalize_gpus :: "string list option \<Rightarrow> serror + string list option" where
  "normalize_gpus gs = (case gs of
     None \<Rightarrow> Inr None
   | Some xs \<Rightarrow>
       if \<not> list_all ident xs then Inl ValueErrorS
       else if \<not> distinct xs then Inl ValueErrorS
       else Inr (if xs = [] then None else Some (sort xs)))"

definition work_item_init :: "string \<Rightarrow> WorkKind \<Rightarrow> string list option \<Rightarrow> bool \<Rightarrow> string option \<Rightarrow> jobj
    \<Rightarrow> serror + work_item" where
  "work_item_init wid kind eligible preemptible preferred payload =
    bindE (require_identifier wid) (\<lambda>wid'.
    bindE (normalize_gpus eligible) (\<lambda>el.
      if \<not> opt_all ident preferred then Inl ValueErrorS
      else if (case (preferred, el) of (Some g, Some xs) \<Rightarrow> g \<notin> set xs | _ \<Rightarrow> False) then Inl ValueErrorS
      else bindE (json_object payload) (\<lambda>p.
        Inr \<lparr>wi_work_id = wid', wi_kind = kind, wi_eligible_gpus = el, wi_preemptible = preemptible,
          wi_preferred_gpu = preferred, wi_payload = p\<rparr>)))"

definition is_eligible :: "work_item \<Rightarrow> string \<Rightarrow> bool" where
  "is_eligible w g \<longleftrightarrow> (case wi_eligible_gpus w of None \<Rightarrow> True | Some xs \<Rightarrow> g \<in> set xs)"

record claim =
  cl_claim_id :: string
  cl_work_id :: string
  cl_gpu_id :: string
  cl_owner_id :: string
  cl_claimed_at :: pyfloat
  cl_sequence :: int
  cl_stolen :: bool

record release_record =
  rr_release_id :: string
  rr_claim_id :: string
  rr_work_id :: string
  rr_gpu_id :: string
  rr_owner_id :: string
  rr_outcome :: ReleaseOutcome
  rr_released_at :: pyfloat
  rr_sequence :: int

record work_record =
  wr_item :: work_item
  wr_state :: WorkState
  wr_enqueue_sequence :: int
  wr_attempts :: int
  wr_active_claim_id :: "string option"
  wr_last_release :: "release_record option"

record preemption_request =
  pq_request_id :: string
  pq_gpu_id :: string
  pq_claim_id :: string
  pq_running_work_id :: string
  pq_requested_for_work_id :: string
  pq_requested_by :: string
  pq_reason :: string
  pq_requested_at :: pyfloat
  pq_sequence :: int
  pq_status :: PreemptionStatus
  pq_boundary_at :: "pyfloat option"

record idle_event =
  ie_event_id :: string
  ie_gpu_id :: string
  ie_reason :: IdleReason
  ie_recorded_at :: pyfloat
  ie_sequence :: int
  ie_owner_id :: "string option"
  ie_work_id :: "string option"
  ie_details :: jobj

record halt =
  ha_reason :: string
  ha_set_at :: pyfloat

record sched =
  sc_revision :: int
  sc_next_sequence :: int
  sc_dynamic_gpus :: bool
  sc_gpu_ids :: "string list"
  sc_work :: "(string, work_record) dict"
  sc_claims :: "(string, claim) dict"
  sc_preemptions :: "(string, preemption_request) dict"
  sc_idle_events :: "idle_event list"
  sc_idle :: "(string, string) dict"
  sc_safety_halt :: "halt option"
  sc_gpu_halts :: "(string, halt) dict"

definition work_priority_key :: "work_record \<Rightarrow> nat \<times> nat \<times> int \<times> string" where
  "work_priority_key r =
    (let (tier, subrank) = priority_class_key (wi_kind (wr_item r))
     in (tier, subrank, wr_enqueue_sequence r, wi_work_id (wr_item r)))"

text \<open>Python's \<open>min(..., key=...)\<close> keeps the first minimal element, \<open>max\<close> the first maximal.\<close>

fun min_by :: "('a \<Rightarrow> 'k::linorder) \<Rightarrow> 'a \<Rightarrow> 'a list \<Rightarrow> 'a" where
  "min_by k m [] = m"
| "min_by k m (x # xs) = min_by k (if k x < k m then x else m) xs"

fun max_by :: "('a \<Rightarrow> 'k::linorder) \<Rightarrow> 'a \<Rightarrow> 'a list \<Rightarrow> 'a" where
  "max_by k m [] = m"
| "max_by k m (x # xs) = max_by k (if k m < k x then x else m) xs"

section \<open>Validation\<close>

text \<open>What the constructors and \<open>from_dict\<close> functions demand of each record.\<close>

definition work_item_ok :: "work_item \<Rightarrow> bool" where
  "work_item_ok w \<longleftrightarrow> ident (wi_work_id w)
     \<and> (case wi_eligible_gpus w of None \<Rightarrow> True
        | Some xs \<Rightarrow> list_all ident xs \<and> distinct xs \<and> sorted xs \<and> xs \<noteq> [])
     \<and> opt_all ident (wi_preferred_gpu w)
     \<and> (case (wi_preferred_gpu w, wi_eligible_gpus w) of (Some g, Some xs) \<Rightarrow> g \<in> set xs | _ \<Rightarrow> True)
     \<and> payload_ok (wi_payload w)"

definition claim_ok :: "claim \<Rightarrow> bool" where
  "claim_ok c \<longleftrightarrow> ident (cl_claim_id c) \<and> ident (cl_work_id c) \<and> ident (cl_gpu_id c)
     \<and> ident (cl_owner_id c) \<and> isfinite (cl_claimed_at c) \<and> 1 \<le> cl_sequence c"

definition release_ok :: "release_record \<Rightarrow> bool" where
  "release_ok r \<longleftrightarrow> ident (rr_release_id r) \<and> ident (rr_claim_id r) \<and> ident (rr_work_id r)
     \<and> ident (rr_gpu_id r) \<and> ident (rr_owner_id r) \<and> isfinite (rr_released_at r) \<and> 1 \<le> rr_sequence r"

definition work_record_ok :: "work_record \<Rightarrow> bool" where
  "work_record_ok r \<longleftrightarrow> work_item_ok (wr_item r) \<and> 1 \<le> wr_enqueue_sequence r \<and> 0 \<le> wr_attempts r
     \<and> opt_all ident (wr_active_claim_id r) \<and> opt_all release_ok (wr_last_release r)"

definition preemption_ok :: "preemption_request \<Rightarrow> bool" where
  "preemption_ok p \<longleftrightarrow> ident (pq_request_id p) \<and> ident (pq_gpu_id p) \<and> ident (pq_claim_id p)
     \<and> ident (pq_running_work_id p) \<and> ident (pq_requested_for_work_id p) \<and> ident (pq_requested_by p)
     \<and> ident (pq_reason p) \<and> isfinite (pq_requested_at p) \<and> 1 \<le> pq_sequence p
     \<and> opt_all isfinite (pq_boundary_at p)
     \<and> (pq_status p = PENDING \<longleftrightarrow> pq_boundary_at p = None)"

definition idle_event_ok :: "idle_event \<Rightarrow> bool" where
  "idle_event_ok e \<longleftrightarrow> ident (ie_event_id e) \<and> ident (ie_gpu_id e) \<and> isfinite (ie_recorded_at e)
     \<and> 1 \<le> ie_sequence e \<and> opt_all ident (ie_owner_id e) \<and> opt_all ident (ie_work_id e)
     \<and> payload_ok (ie_details e)"

definition validate_halt :: "halt \<Rightarrow> bool" where
  "validate_halt h \<longleftrightarrow> ident (ha_reason h) \<and> isfinite (ha_set_at h)"

definition valid_gpus :: "sched \<Rightarrow> bool" where
  "valid_gpus s \<longleftrightarrow> list_all ident (sc_gpu_ids s) \<and> sorted (sc_gpu_ids s) \<and> distinct (sc_gpu_ids s)"

definition valid_work :: "sched \<Rightarrow> bool" where
  "valid_work s \<longleftrightarrow> list_all (\<lambda>(w, r). work_record_ok r \<and> w = wi_work_id (wr_item r)
     \<and> opt_all (\<lambda>xs. set xs \<subseteq> set (sc_gpu_ids s)) (wi_eligible_gpus (wr_item r))
     \<and> opt_all (\<lambda>g. g \<in> set (sc_gpu_ids s)) (wi_preferred_gpu (wr_item r))) (sc_work s)"

definition claim_matches :: "sched \<Rightarrow> claim \<Rightarrow> bool" where
  "claim_matches s c \<longleftrightarrow> (case dget (sc_work s) (cl_work_id c) of None \<Rightarrow> False
     | Some r \<Rightarrow> wr_state r = W_CLAIMED \<and> wr_active_claim_id r = Some (cl_claim_id c)
         \<and> is_eligible (wr_item r) (cl_gpu_id c))"

definition valid_claims :: "sched \<Rightarrow> bool" where
  "valid_claims s \<longleftrightarrow> list_all (\<lambda>(g, c). claim_ok c \<and> g = cl_gpu_id c \<and> g \<in> set (sc_gpu_ids s)
        \<and> claim_matches s c) (sc_claims s)
     \<and> distinct (map cl_claim_id (dvals (sc_claims s)))
     \<and> distinct (map cl_work_id (dvals (sc_claims s)))"

definition claim_of_work :: "sched \<Rightarrow> string \<Rightarrow> claim option" where
  "claim_of_work s w = find (\<lambda>c. cl_work_id c = w) (dvals (sc_claims s))"

definition valid_claimed_work :: "sched \<Rightarrow> bool" where
  "valid_claimed_work s \<longleftrightarrow> list_all (\<lambda>r.
     if wr_state r = W_CLAIMED
     then (case claim_of_work s (wi_work_id (wr_item r)) of None \<Rightarrow> False
           | Some c \<Rightarrow> wr_active_claim_id r = Some (cl_claim_id c))
     else wr_active_claim_id r = None \<and> claim_of_work s (wi_work_id (wr_item r)) = None)
     (dvals (sc_work s))"

definition valid_preemptions :: "sched \<Rightarrow> bool" where
  "valid_preemptions s \<longleftrightarrow> list_all (\<lambda>(k, p). preemption_ok p \<and> k = pq_request_id p
     \<and> pq_gpu_id p \<in> set (sc_gpu_ids s)
     \<and> dget (sc_work s) (pq_running_work_id p) \<noteq> None
     \<and> dget (sc_work s) (pq_requested_for_work_id p) \<noteq> None
     \<and> (pq_status p = PENDING \<longrightarrow> (case dget (sc_claims s) (pq_gpu_id p) of None \<Rightarrow> False
          | Some c \<Rightarrow> cl_claim_id c = pq_claim_id p \<and> cl_work_id c = pq_running_work_id p
             \<and> (case dget (sc_work s) (pq_running_work_id p) of None \<Rightarrow> False
                | Some r \<Rightarrow> wi_preemptible (wr_item r))))) (sc_preemptions s)"

definition valid_idle :: "sched \<Rightarrow> bool" where
  "valid_idle s \<longleftrightarrow> list_all (\<lambda>e. idle_event_ok e \<and> ie_gpu_id e \<in> set (sc_gpu_ids s)) (sc_idle_events s)
     \<and> distinct (map ie_event_id (sc_idle_events s))
     \<and> sorted_wrt (<) (map ie_sequence (sc_idle_events s))
     \<and> list_all (\<lambda>(g, i). g \<in> set (sc_gpu_ids s)
          \<and> list_ex (\<lambda>e. ie_event_id e = i \<and> ie_gpu_id e = g) (sc_idle_events s)) (sc_idle s)"

definition valid_halts :: "sched \<Rightarrow> bool" where
  "valid_halts s \<longleftrightarrow> opt_all validate_halt (sc_safety_halt s)
     \<and> list_all (\<lambda>(g, h). g \<in> set (sc_gpu_ids s) \<and> validate_halt h) (sc_gpu_halts s)"

definition sequences :: "sched \<Rightarrow> int list" where
  "sequences s = map wr_enqueue_sequence (dvals (sc_work s))
     @ concat (map (\<lambda>r. case wr_last_release r of None \<Rightarrow> [] | Some l \<Rightarrow> [rr_sequence l]) (dvals (sc_work s)))
     @ map cl_sequence (dvals (sc_claims s)) @ map pq_sequence (dvals (sc_preemptions s))
     @ map ie_sequence (sc_idle_events s)"

definition validate_state :: "sched \<Rightarrow> bool" where
  "validate_state s \<longleftrightarrow> 0 \<le> sc_revision s \<and> 1 \<le> sc_next_sequence s \<and> valid_gpus s \<and> valid_work s
     \<and> valid_claims s \<and> valid_claimed_work s \<and> valid_preemptions s \<and> valid_idle s \<and> valid_halts s
     \<and> list_all (\<lambda>n. n < sc_next_sequence s) (sequences s)"

text \<open>
  \<open>_seal_state\<close> and \<open>_commit\<close>: canonical JSON orders every object by key, and nothing is written
  unless it validates.
\<close>

definition seal_state :: "sched \<Rightarrow> sched" where
  "seal_state s = s\<lparr>sc_work := sort_key fst (sc_work s), sc_claims := sort_key fst (sc_claims s),
     sc_preemptions := sort_key fst (sc_preemptions s), sc_idle := sort_key fst (sc_idle s),
     sc_gpu_halts := sort_key fst (sc_gpu_halts s)\<rparr>"

definition commit :: "sched \<Rightarrow> serror + sched" where
  "commit s = (let s' = seal_state (s\<lparr>sc_revision := sc_revision s + 1\<rparr>)
     in if validate_state s' then Inr s' else Inl SchedulerStateError)"

definition new_state :: "string list option \<Rightarrow> sched" where
  "new_state gpus = \<lparr>sc_revision = 0, sc_next_sequence = 1, sc_dynamic_gpus = (gpus = None),
     sc_gpu_ids = (case gpus of None \<Rightarrow> [] | Some xs \<Rightarrow> xs), sc_work = [], sc_claims = [],
     sc_preemptions = [], sc_idle_events = [], sc_idle = [], sc_safety_halt = None,
     sc_gpu_halts = []\<rparr>"

text \<open>\<open>SchedulerConfig\<close> and the constructor: the configured inventory must agree with a stored one.\<close>

definition scheduler_open :: "string list option \<Rightarrow> sched option \<Rightarrow> serror + sched" where
  "scheduler_open gpus stored =
    bindE (normalize_gpus gpus) (\<lambda>config.
      case stored of
        Some s \<Rightarrow> if config \<noteq> None \<and> config \<noteq> Some (sc_gpu_ids s) then Inl SchedulerConflictError else Inr s
      | None \<Rightarrow> let s = new_state config in if validate_state s then Inr s else Inl SchedulerStateError)"

section \<open>Helpers on the state\<close>

definition validate_known_gpu :: "sched \<Rightarrow> string \<Rightarrow> serror + unit" where
  "validate_known_gpu s g = (if g \<in> set (sc_gpu_ids s) then Inr () else Inl UnknownGpuError)"

definition validate_or_register_gpu :: "sched \<Rightarrow> string \<Rightarrow> serror + (sched \<times> bool)" where
  "validate_or_register_gpu s g =
    (if g \<in> set (sc_gpu_ids s) then Inr (s, False)
     else if \<not> sc_dynamic_gpus s then Inl UnknownGpuError
     else Inr (s\<lparr>sc_gpu_ids := sort (sc_gpu_ids s @ [g])\<rparr>, True))"

fun register_gpus :: "sched \<Rightarrow> string list \<Rightarrow> serror + sched" where
  "register_gpus s [] = Inr s"
| "register_gpus s (g # gs) = bindE (validate_or_register_gpu s g) (\<lambda>(s', _). register_gpus s' gs)"

definition named_gpus :: "work_item \<Rightarrow> string list" where
  "named_gpus w = sort (remdups ((case wi_eligible_gpus w of None \<Rightarrow> [] | Some xs \<Rightarrow> xs)
     @ (case wi_preferred_gpu w of None \<Rightarrow> [] | Some g \<Rightarrow> [g])))"

definition allocate_sequence :: "sched \<Rightarrow> int \<times> sched" where
  "allocate_sequence s = (sc_next_sequence s, s\<lparr>sc_next_sequence := sc_next_sequence s + 1\<rparr>)"

definition read_clock :: "pyfloat \<Rightarrow> serror + pyfloat" where
  "read_clock t = (if isfinite t then Inr t else Inl SchedulerClockError)"

definition halt_reason :: "sched \<Rightarrow> string \<Rightarrow> string option" where
  "halt_reason s g = (case sc_safety_halt s of Some h \<Rightarrow> Some (ha_reason h)
     | None \<Rightarrow> map_option ha_reason (dget (sc_gpu_halts s) g))"

text \<open>
  \<open>_record_idle_in_state\<close> returns the event and whether it is new: telemetry about a claimed GPU
  belongs to its owner, and repeating the current event records nothing.
\<close>

definition idle_actor :: "claim option \<Rightarrow> string option \<Rightarrow> string option
    \<Rightarrow> serror + (string option \<times> string option)" where
  "idle_actor active owner work = (case active of
     None \<Rightarrow> Inr (owner, work)
   | Some c \<Rightarrow>
       if owner \<noteq> None \<and> owner \<noteq> Some (cl_owner_id c) then Inl GpuBusyError
       else Inr (if owner = None then Some (cl_owner_id c) else owner,
                 if work = None then Some (cl_work_id c) else work))"

definition same_idle :: "sched \<Rightarrow> string \<Rightarrow> IdleReason \<Rightarrow> string option \<Rightarrow> string option \<Rightarrow> jobj
    \<Rightarrow> serror + idle_event option" where
  "same_idle s g reason owner work details = (case dget (sc_idle s) g of
     None \<Rightarrow> Inr None
   | Some i \<Rightarrow> (case find (\<lambda>e. ie_event_id e = i) (rev (sc_idle_events s)) of
        None \<Rightarrow> Inl SchedulerStateError
      | Some e \<Rightarrow> Inr (if ie_reason e = reason \<and> ie_owner_id e = owner \<and> ie_work_id e = work
            \<and> py_eq_obj (ie_details e) details then Some e else None)))"

definition new_idle :: "(int \<Rightarrow> pyfloat) \<Rightarrow> sched \<Rightarrow> string \<Rightarrow> IdleReason \<Rightarrow> string option \<Rightarrow> string option \<Rightarrow> jobj
    \<Rightarrow> serror + (idle_event \<times> bool \<times> sched)" where
  "new_idle clock s g reason owner work details =
    (let (n, s1) = allocate_sequence s in
     bindE (read_clock (clock n)) (\<lambda>t.
       let e = \<lparr>ie_event_id = ''idle-'' @ fmt_0d 20 n, ie_gpu_id = g, ie_reason = reason,
             ie_recorded_at = t, ie_sequence = n, ie_owner_id = owner, ie_work_id = work,
             ie_details = details\<rparr>
       in Inr (e, True, s1\<lparr>sc_idle_events := sc_idle_events s1 @ [e],
            sc_idle := dset (sc_idle s1) g (ie_event_id e)\<rparr>)))"

definition record_idle_in_state :: "(int \<Rightarrow> pyfloat) \<Rightarrow> sched \<Rightarrow> string \<Rightarrow> IdleReason \<Rightarrow> string option
    \<Rightarrow> string option \<Rightarrow> jobj \<Rightarrow> serror + (idle_event \<times> bool \<times> sched)" where
  "record_idle_in_state clock s g reason owner0 work0 details =
    bindE (json_object details) (\<lambda>d.
    bindE (idle_actor (dget (sc_claims s) g) owner0 work0) (\<lambda>(owner, work).
    bindE (same_idle s g reason owner work d) (\<lambda>current.
      case current of
        Some e \<Rightarrow> Inr (e, False, s)
      | None \<Rightarrow> new_idle clock s g reason owner work d)))"

definition commit_if :: "bool \<Rightarrow> sched \<Rightarrow> sched \<Rightarrow> serror + sched" where
  "commit_if changed old s = (if changed then commit s else Inr old)"

section \<open>Operations\<close>

text \<open>
  The arguments of \<open>enqueue\<close>: a complete work item, or its fields, with the identifier given by
  position or by keyword.
\<close>

datatype item_arg = NoItem | ItemArg work_item | IdArg string

definition resolve_item :: "item_arg \<Rightarrow> string option \<Rightarrow> string option \<Rightarrow> string list option \<Rightarrow> bool
    \<Rightarrow> string option \<Rightarrow> jobj option \<Rightarrow> serror + work_item" where
  "resolve_item item kind work_id eligible preemptible preferred payload =
    (let from_fields = (\<lambda>wid. case (wid, kind) of
           (Some w, Some k) \<Rightarrow> bindE (normalize_work_kind k) (\<lambda>k'.
              work_item_init w k' eligible preemptible preferred (case payload of None \<Rightarrow> [] | Some p \<Rightarrow> p))
         | _ \<Rightarrow> Inl ValueErrorS)
     in case item of
       ItemArg w \<Rightarrow> if kind \<noteq> None \<or> work_id \<noteq> None \<or> eligible \<noteq> None \<or> preferred \<noteq> None
            \<or> payload \<noteq> None \<or> preemptible then Inl ValueErrorS else Inr w
     | IdArg i \<Rightarrow> if work_id \<noteq> None \<and> work_id \<noteq> Some i then Inl ValueErrorS else from_fields (Some i)
     | NoItem \<Rightarrow> from_fields work_id)"

definition same_item :: "work_item \<Rightarrow> work_item \<Rightarrow> bool" where
  "same_item a b \<longleftrightarrow> wi_work_id a = wi_work_id b \<and> wi_kind a = wi_kind b
     \<and> wi_eligible_gpus a = wi_eligible_gpus b \<and> wi_preemptible a = wi_preemptible b
     \<and> wi_preferred_gpu a = wi_preferred_gpu b \<and> py_eq_obj (wi_payload a) (wi_payload b)"

definition enqueue :: "sched \<Rightarrow> work_item \<Rightarrow> serror + (work_record \<times> sched)" where
  "enqueue s item =
    (case dget (sc_work s) (wi_work_id item) of
       Some existing \<Rightarrow> if \<not> same_item (wr_item existing) item then Inl SchedulerConflictError else Inr (existing, s)
     | None \<Rightarrow>
        bindE (register_gpus s (named_gpus item)) (\<lambda>s1.
          let (n, s2) = allocate_sequence s1;
              r = \<lparr>wr_item = item, wr_state = QUEUED, wr_enqueue_sequence = n, wr_attempts = 0,
                   wr_active_claim_id = None, wr_last_release = None\<rparr>
          in bindE (commit (s2\<lparr>sc_work := dset (sc_work s2) (wi_work_id item) r\<rparr>)) (\<lambda>s3. Inr (r, s3))))"

definition runnable :: "sched \<Rightarrow> string \<Rightarrow> work_record list" where
  "runnable s g = filter (\<lambda>r. wr_state r = QUEUED \<and> is_eligible (wr_item r) g) (dvals (sc_work s))"

definition claim_next :: "(int \<Rightarrow> pyfloat) \<Rightarrow> sched \<Rightarrow> string \<Rightarrow> string \<Rightarrow> serror + (claim option \<times> sched)" where
  "claim_next clock s0 g owner =
    bindE (require_identifier g) (\<lambda>_. bindE (require_identifier owner) (\<lambda>_.
    bindE (validate_or_register_gpu s0 g) (\<lambda>(s, registered).
    (case dget (sc_claims s) g of
       Some active \<Rightarrow> if cl_owner_id active = owner then Inr (Some active, s0) else Inl GpuBusyError
     | None \<Rightarrow>
       (case halt_reason s g of
          Some why \<Rightarrow>
            bindE (record_idle_in_state clock s g SAFETY_HALT None None [(''reason'', JStr why)])
              (\<lambda>(_, changed, s1). bindE (commit_if (registered \<or> changed) s0 s1) (\<lambda>s2. Inr (None, s2)))
        | None \<Rightarrow>
          (case runnable s g of
             [] \<Rightarrow>
               let queued = length (filter (\<lambda>r. wr_state r = QUEUED) (dvals (sc_work s))) in
               bindE (record_idle_in_state clock s g NO_RUNNABLE_WORK None None
                   [(''queued_work'', JInt (int queued))])
                 (\<lambda>(_, changed, s1). bindE (commit_if (registered \<or> changed) s0 s1) (\<lambda>s2. Inr (None, s2)))
           | r # rs \<Rightarrow>
               let selected = min_by work_priority_key r rs;
                   (n, s1) = allocate_sequence s in
               bindE (read_clock (clock n)) (\<lambda>t.
                 let c = \<lparr>cl_claim_id = ''claim-'' @ fmt_0d 20 n, cl_work_id = wi_work_id (wr_item selected),
                       cl_gpu_id = g, cl_owner_id = owner, cl_claimed_at = t, cl_sequence = n,
                       cl_stolen = (wi_preferred_gpu (wr_item selected) \<noteq> None
                          \<and> wi_preferred_gpu (wr_item selected) \<noteq> Some g)\<rparr>
                 in bindE (commit (s1\<lparr>sc_claims := dset (sc_claims s1) g c,
                       sc_work := dset (sc_work s1) (wi_work_id (wr_item selected))
                         (selected\<lparr>wr_state := W_CLAIMED, wr_attempts := wr_attempts selected + 1,
                            wr_active_claim_id := Some (cl_claim_id c)\<rparr>),
                       sc_idle := ddel (sc_idle s1) g\<rparr>))
                     (\<lambda>s2. Inr (Some c, s2)))))))))"

fun released_state :: "ReleaseOutcome \<Rightarrow> WorkState" where
  "released_state COMPLETED = W_COMPLETED"
| "released_state REQUEUE = QUEUED"
| "released_state FAILED = W_FAILED"
| "released_state CANCELLED = W_CANCELLED"

definition matching_release_retry :: "sched \<Rightarrow> string \<Rightarrow> string \<Rightarrow> string option \<Rightarrow> string option
    \<Rightarrow> ReleaseOutcome \<Rightarrow> release_record option" where
  "matching_release_retry s g owner work claim outcome =
    (case filter (\<lambda>l. rr_gpu_id l = g \<and> rr_owner_id l = owner \<and> rr_outcome l = outcome
            \<and> (claim = None \<or> claim = Some (rr_claim_id l)))
          (concat (map (\<lambda>(w, r). if work \<noteq> None \<and> work \<noteq> Some w then []
              else (case wr_last_release r of None \<Rightarrow> [] | Some l \<Rightarrow> [l])) (sc_work s))) of
       [] \<Rightarrow> None
     | l # ls \<Rightarrow> Some (max_by rr_sequence l ls))"

definition reach_boundary :: "string \<Rightarrow> pyfloat \<Rightarrow> preemption_request \<Rightarrow> preemption_request" where
  "reach_boundary cid t p =
    (if pq_claim_id p = cid \<and> pq_status p = PENDING
     then p\<lparr>pq_status := BOUNDARY_REACHED, pq_boundary_at := Some t\<rparr> else p)"

definition effective_outcome :: "ReleaseOutcome \<Rightarrow> bool option \<Rightarrow> serror + ReleaseOutcome" where
  "effective_outcome outcome requeue =
    (if requeue = Some True then
       (if outcome \<noteq> COMPLETED \<and> outcome \<noteq> REQUEUE then Inl ValueErrorS else Inr REQUEUE)
     else if requeue = Some False \<and> outcome = REQUEUE then Inl ValueErrorS
     else Inr outcome)"

text \<open>
  The first argument of \<open>release\<close> is the claim itself, which fixes owner, work and claim
  identifier, or a GPU identifier.
\<close>

definition release_args :: "claim + string \<Rightarrow> string option \<Rightarrow> string option
    \<Rightarrow> serror + (string \<times> string \<times> string option \<times> string option)" where
  "release_args target owner work = (case target of
     Inl c \<Rightarrow>
       if owner \<noteq> None \<and> owner \<noteq> Some (cl_owner_id c) then Inl ValueErrorS
       else if work \<noteq> None \<and> work \<noteq> Some (cl_work_id c) then Inl ValueErrorS
       else Inr (cl_gpu_id c, cl_owner_id c, Some (cl_work_id c), Some (cl_claim_id c))
   | Inr g \<Rightarrow>
       bindE (require_identifier g) (\<lambda>_.
         case owner of None \<Rightarrow> Inl ValueErrorS | Some ow \<Rightarrow> Inr (g, ow, work, None)))"

definition release :: "(int \<Rightarrow> pyfloat) \<Rightarrow> sched \<Rightarrow> string \<Rightarrow> string \<Rightarrow> string option \<Rightarrow> string option
    \<Rightarrow> ReleaseOutcome \<Rightarrow> bool option \<Rightarrow> IdleReason option \<Rightarrow> jobj \<Rightarrow> serror + (release_record \<times> sched)" where
  "release clock s g owner work expected outcome0 requeue idle0 details0 =
    bindE (require_identifier owner) (\<lambda>_.
    if \<not> opt_all ident work then Inl ValueErrorS
    else bindE (effective_outcome outcome0 requeue) (\<lambda>outcome.
    bindE (json_object details0) (\<lambda>details1.
    bindE (validate_known_gpu s g) (\<lambda>_.
    (case dget (sc_claims s) g of
       None \<Rightarrow> (case matching_release_retry s g owner work expected outcome of
           Some l \<Rightarrow> Inr (l, s) | None \<Rightarrow> Inl NoActiveClaimError)
     | Some active \<Rightarrow>
       if cl_owner_id active \<noteq> owner then Inl GpuBusyError
       else if work \<noteq> None \<and> work \<noteq> Some (cl_work_id active) then Inl SchedulerConflictError
       else if expected \<noteq> None \<and> expected \<noteq> Some (cl_claim_id active) then Inl SchedulerConflictError
       else (case dget (sc_work s) (cl_work_id active) of
          None \<Rightarrow> Inl KeyErrorS
        | Some r \<Rightarrow>
          let (n, s1) = allocate_sequence s in
          bindE (read_clock (clock n)) (\<lambda>t.
            let l = \<lparr>rr_release_id = ''release-'' @ fmt_0d 20 n, rr_claim_id = cl_claim_id active,
                  rr_work_id = cl_work_id active, rr_gpu_id = g, rr_owner_id = owner,
                  rr_outcome = outcome, rr_released_at = t, rr_sequence = n\<rparr>;
                preempted = list_ex (\<lambda>p. pq_claim_id p = cl_claim_id active \<and> pq_status p = PENDING)
                  (dvals (sc_preemptions s1));
                s2 = s1\<lparr>sc_work := dset (sc_work s1) (cl_work_id active)
                    (r\<lparr>wr_state := released_state outcome, wr_active_claim_id := None,
                       wr_last_release := Some l\<rparr>),
                  sc_claims := ddel (sc_claims s1) g,
                  sc_preemptions := map (\<lambda>(k, p). (k, reach_boundary (cl_claim_id active) t p))
                    (sc_preemptions s1)\<rparr>;
                boundary = (idle0 = None \<and> preempted \<and> outcome = REQUEUE);
                idle = (if boundary then Some CHECKPOINT_BOUNDARY else idle0);
                details = (if boundary then [(''claim_id'', JStr (cl_claim_id active)),
                    (''work_id'', JStr (cl_work_id active))] else details1)
            in bindE (case idle of None \<Rightarrow> Inr s2
                 | Some why \<Rightarrow> bindE (record_idle_in_state clock s2 g why (Some owner)
                       (Some (cl_work_id active)) details) (\<lambda>(_, _, s3). Inr s3)) (\<lambda>s3.
               bindE (commit s3) (\<lambda>s4. Inr (l, s4))))))))))"

definition higher_priority :: "sched \<Rightarrow> string \<Rightarrow> work_record \<Rightarrow> work_record list" where
  "higher_priority s g running = filter (\<lambda>r. priority_class_key (wi_kind (wr_item r))
      < priority_class_key (wi_kind (wr_item running))) (runnable s g)"

definition preemption_target :: "sched \<Rightarrow> string \<Rightarrow> work_record \<Rightarrow> string option
    \<Rightarrow> serror + work_record option" where
  "preemption_target s g running for_work = (case for_work of
     None \<Rightarrow> Inr (case higher_priority s g running of [] \<Rightarrow> None
        | r # rs \<Rightarrow> Some (min_by work_priority_key r rs))
   | Some w \<Rightarrow> (case dget (sc_work s) w of
        None \<Rightarrow> Inl KeyErrorS
      | Some r \<Rightarrow> Inr (if wr_state r \<noteq> QUEUED \<or> \<not> is_eligible (wr_item r) g
            \<or> priority_class_key (wi_kind (wr_item r)) \<ge> priority_class_key (wi_kind (wr_item running))
          then None else Some r)))"

definition request_preemption :: "(int \<Rightarrow> pyfloat) \<Rightarrow> sched \<Rightarrow> string \<Rightarrow> string \<Rightarrow> string option \<Rightarrow> string
    \<Rightarrow> serror + (preemption_request option \<times> sched)" where
  "request_preemption clock s g requested_by for_work reason =
    bindE (require_identifier g) (\<lambda>_. bindE (require_identifier requested_by) (\<lambda>_.
    bindE (require_identifier reason) (\<lambda>_.
    if \<not> opt_all ident for_work then Inl ValueErrorS
    else bindE (validate_known_gpu s g) (\<lambda>_.
    (case dget (sc_claims s) g of
       None \<Rightarrow> Inr (None, s)
     | Some c \<Rightarrow>
       (case dget (sc_work s) (cl_work_id c) of
          None \<Rightarrow> Inl KeyErrorS
        | Some running \<Rightarrow>
          if \<not> wi_preemptible (wr_item running) then Inr (None, s)
          else bindE (preemption_target s g running for_work) (\<lambda>target.
            (case target of
               None \<Rightarrow> Inr (None, s)
             | Some r \<Rightarrow>
               (case find (\<lambda>p. pq_status p = PENDING \<and> pq_claim_id p = cl_claim_id c
                        \<and> pq_requested_for_work_id p = wi_work_id (wr_item r)) (dvals (sc_preemptions s)) of
                  Some existing \<Rightarrow> Inr (Some existing, s)
                | None \<Rightarrow>
                  let (n, s1) = allocate_sequence s in
                  bindE (read_clock (clock n)) (\<lambda>t.
                    let p = \<lparr>pq_request_id = ''preempt-'' @ fmt_0d 20 n, pq_gpu_id = g,
                          pq_claim_id = cl_claim_id c,
                          pq_running_work_id = wi_work_id (wr_item running),
                          pq_requested_for_work_id = wi_work_id (wr_item r),
                          pq_requested_by = requested_by, pq_reason = reason, pq_requested_at = t,
                          pq_sequence = n, pq_status = PENDING, pq_boundary_at = None\<rparr>
                    in bindE (commit (s1\<lparr>sc_preemptions :=
                          dset (sc_preemptions s1) (pq_request_id p) p\<rparr>)) (\<lambda>s2. Inr (Some p, s2))))))))))))"

definition record_idle :: "(int \<Rightarrow> pyfloat) \<Rightarrow> sched \<Rightarrow> string \<Rightarrow> IdleReason \<Rightarrow> string option \<Rightarrow> string option
    \<Rightarrow> jobj \<Rightarrow> serror + (idle_event \<times> sched)" where
  "record_idle clock s0 g reason owner work details =
    bindE (require_identifier g) (\<lambda>_.
    if \<not> opt_all ident owner \<or> \<not> opt_all ident work then Inl ValueErrorS
    else bindE (json_object details) (\<lambda>d.
      bindE (validate_or_register_gpu s0 g) (\<lambda>(s, registered).
      bindE (record_idle_in_state clock s g reason owner work d) (\<lambda>(e, changed, s1).
      bindE (commit_if (registered \<or> changed) s0 s1) (\<lambda>s2. Inr (e, s2))))))"

fun idle_all :: "(int \<Rightarrow> pyfloat) \<Rightarrow> string \<Rightarrow> string list \<Rightarrow> bool \<times> sched \<Rightarrow> serror + (bool \<times> sched)" where
  "idle_all clock reason [] cs = Inr cs"
| "idle_all clock reason (g # gs) (changed, s) =
    (if dget (sc_claims s) g \<noteq> None then idle_all clock reason gs (changed, s)
     else bindE (record_idle_in_state clock s g SAFETY_HALT None None [(''reason'', JStr reason)])
       (\<lambda>(_, new, s1). idle_all clock reason gs (changed \<or> new, s1)))"

definition set_safety_halt :: "(int \<Rightarrow> pyfloat) \<Rightarrow> pyfloat \<Rightarrow> sched \<Rightarrow> string \<Rightarrow> string option \<Rightarrow> serror + sched" where
  "set_safety_halt clock now s0 reason gpu =
    bindE (require_identifier reason) (\<lambda>_.
    if \<not> opt_all ident gpu then Inl ValueErrorS
    else (case gpu of
       None \<Rightarrow>
         bindE (read_clock now) (\<lambda>t.
           let fresh = (case sc_safety_halt s0 of None \<Rightarrow> True | Some h \<Rightarrow> ha_reason h \<noteq> reason);
               s = (if fresh then s0\<lparr>sc_safety_halt := Some \<lparr>ha_reason = reason, ha_set_at = t\<rparr>\<rparr> else s0)
           in bindE (idle_all clock reason (sc_gpu_ids s) (fresh, s)) (\<lambda>(changed, s1).
              commit_if changed s0 s1))
     | Some g \<Rightarrow>
         bindE (validate_or_register_gpu s0 g) (\<lambda>(s, registered).
           let fresh = (case dget (sc_gpu_halts s) g of None \<Rightarrow> True | Some h \<Rightarrow> ha_reason h \<noteq> reason) in
           bindE (if fresh then bindE (read_clock now) (\<lambda>t. Inr (s\<lparr>sc_gpu_halts :=
                  dset (sc_gpu_halts s) g \<lparr>ha_reason = reason, ha_set_at = t\<rparr>\<rparr>)) else Inr s) (\<lambda>s'.
             bindE (idle_all clock reason [g] (registered \<or> fresh, s')) (\<lambda>(changed, s1).
               commit_if changed s0 s1)))))"

definition clear_safety_halt :: "sched \<Rightarrow> string option \<Rightarrow> serror + sched" where
  "clear_safety_halt s gpu =
    (if \<not> opt_all ident gpu then Inl ValueErrorS
     else (case gpu of
        None \<Rightarrow> commit_if (sc_safety_halt s \<noteq> None) s (s\<lparr>sc_safety_halt := None\<rparr>)
      | Some g \<Rightarrow> bindE (validate_known_gpu s g) (\<lambda>_.
          commit_if (dget (sc_gpu_halts s) g \<noteq> None) s
            (s\<lparr>sc_gpu_halts := ddel (sc_gpu_halts s) g\<rparr>))))"

section \<open>Queries\<close>

definition queued :: "sched \<Rightarrow> work_record list" where
  "queued s = sort_key work_priority_key (filter (\<lambda>r. wr_state r = QUEUED) (dvals (sc_work s)))"

definition queued_work :: "sched \<Rightarrow> string option \<Rightarrow> serror + work_record list" where
  "queued_work s gpu = (case gpu of
     None \<Rightarrow> Inr (queued s)
   | Some g \<Rightarrow> bindE (require_identifier g) (\<lambda>_.
       if g \<notin> set (sc_gpu_ids s) \<and> \<not> sc_dynamic_gpus s then Inl UnknownGpuError
       else Inr (filter (\<lambda>r. is_eligible (wr_item r) g) (queued s))))"

definition active_owners :: "sched \<Rightarrow> (string, string) dict" where
  "active_owners s = map (\<lambda>(g, c). (g, cl_owner_id c)) (sc_claims s)"

definition get_work :: "sched \<Rightarrow> string \<Rightarrow> serror + work_record option" where
  "get_work s w = bindE (require_identifier w) (\<lambda>_. Inr (dget (sc_work s) w))"

definition get_claim :: "sched \<Rightarrow> string \<Rightarrow> serror + claim option" where
  "get_claim s g = bindE (require_identifier g) (\<lambda>_. Inr (dget (sc_claims s) g))"

text \<open>The index of current idle events is resolved by identifier, the last event of a name winning.\<close>

definition idle_status :: "sched \<Rightarrow> string \<Rightarrow> serror + idle_event option" where
  "idle_status s g = bindE (require_identifier g) (\<lambda>_. case dget (sc_idle s) g of
     None \<Rightarrow> Inr None
   | Some i \<Rightarrow> (case find (\<lambda>e. ie_event_id e = i) (rev (sc_idle_events s)) of
        None \<Rightarrow> Inl KeyErrorS | Some e \<Rightarrow> Inr (Some e)))"

definition idle_events_of :: "sched \<Rightarrow> string option \<Rightarrow> serror + idle_event list" where
  "idle_events_of s gpu = (if \<not> opt_all ident gpu then Inl ValueErrorS
     else Inr (filter (\<lambda>e. gpu = None \<or> gpu = Some (ie_gpu_id e)) (sc_idle_events s)))"

definition pending_preemptions :: "sched \<Rightarrow> string option \<Rightarrow> serror + preemption_request list" where
  "pending_preemptions s gpu =
    (if \<not> opt_all ident gpu then Inl ValueErrorS
     else Inr (filter (\<lambda>p. pq_status p = PENDING \<and> (gpu = None \<or> gpu = Some (pq_gpu_id p)))
       (sort_key pq_sequence (dvals (sc_preemptions s)))))"

end
