(* ===== verification/Scheduler_Inv.thy ===== *)
theory Scheduler_Inv
  imports Scheduler
begin

text \<open>
  The invariant of the scheduler state, stated on lookups, and its agreement with the validation
  that the code runs before every write.
\<close>

section \<open>The invariant\<close>

definition claim_name :: "int \<Rightarrow> string" where
  "claim_name n = ''claim-'' @ fmt_0d 20 n"

definition idle_name :: "int \<Rightarrow> string" where
  "idle_name n = ''idle-'' @ fmt_0d 20 n"

definition item_gpus_ok :: "string set \<Rightarrow> work_item \<Rightarrow> bool" where
  "item_gpus_ok G w \<longleftrightarrow> opt_all (\<lambda>xs. set xs \<subseteq> G) (wi_eligible_gpus w)
     \<and> opt_all (\<lambda>g. g \<in> G) (wi_preferred_gpu w)"

definition inv_work :: "string set \<Rightarrow> int \<Rightarrow> (string, work_record) dict \<Rightarrow> bool" where
  "inv_work G n W \<longleftrightarrow> dict_ok W \<and> (\<forall>w r. dget W w = Some r \<longrightarrow> work_record_ok r
     \<and> w = wi_work_id (wr_item r) \<and> item_gpus_ok G (wr_item r) \<and> wr_enqueue_sequence r < n
     \<and> opt_all (\<lambda>l. rr_sequence l < n) (wr_last_release r))"

definition inv_claims :: "string set \<Rightarrow> int \<Rightarrow> (string, work_record) dict \<Rightarrow> (string, claim) dict \<Rightarrow> bool" where
  "inv_claims G n W C \<longleftrightarrow> dict_ok C \<and> (\<forall>g c. dget C g = Some c \<longrightarrow> claim_ok c \<and> cl_gpu_id c = g \<and> g \<in> G
     \<and> cl_sequence c < n \<and> cl_claim_id c = claim_name (cl_sequence c)
     \<and> (\<exists>r. dget W (cl_work_id c) = Some r \<and> wr_state r = W_CLAIMED
          \<and> wr_active_claim_id r = Some (cl_claim_id c) \<and> is_eligible (wr_item r) g))"

definition inv_unique :: "(string, claim) dict \<Rightarrow> bool" where
  "inv_unique C \<longleftrightarrow> (\<forall>g g' c c'. dget C g = Some c \<longrightarrow> dget C g' = Some c' \<longrightarrow>
     (cl_work_id c = cl_work_id c' \<or> cl_claim_id c = cl_claim_id c') \<longrightarrow> g = g')"

definition inv_claimed :: "(string, work_record) dict \<Rightarrow> (string, claim) dict \<Rightarrow> bool" where
  "inv_claimed W C \<longleftrightarrow> (\<forall>w r. dget W w = Some r \<longrightarrow>
     (if wr_state r = W_CLAIMED then \<exists>g c. dget C g = Some c \<and> cl_work_id c = w
          \<and> wr_active_claim_id r = Some (cl_claim_id c)
      else wr_active_claim_id r = None))"

definition inv_preempt :: "string set \<Rightarrow> int \<Rightarrow> (string, work_record) dict \<Rightarrow> (string, claim) dict
    \<Rightarrow> (string, preemption_request) dict \<Rightarrow> bool" where
  "inv_preempt G n W C P \<longleftrightarrow> dict_ok P \<and> (\<forall>k p. dget P k = Some p \<longrightarrow> preemption_ok p
     \<and> k = pq_request_id p \<and> pq_gpu_id p \<in> G \<and> pq_sequence p < n
     \<and> dget W (pq_running_work_id p) \<noteq> None \<and> dget W (pq_requested_for_work_id p) \<noteq> None
     \<and> (pq_status p = PENDING \<longrightarrow> (\<exists>c r. dget C (pq_gpu_id p) = Some c \<and> cl_claim_id c = pq_claim_id p
          \<and> cl_work_id c = pq_running_work_id p \<and> dget W (pq_running_work_id p) = Some r
          \<and> wi_preemptible (wr_item r))))"

definition inv_idle :: "string set \<Rightarrow> int \<Rightarrow> idle_event list \<Rightarrow> (string, string) dict \<Rightarrow> bool" where
  "inv_idle G n es I \<longleftrightarrow> dict_ok I \<and> sorted_wrt (<) (map ie_sequence es)
     \<and> (\<forall>e \<in> set es. idle_event_ok e \<and> ie_gpu_id e \<in> G \<and> ie_sequence e < n
          \<and> ie_event_id e = idle_name (ie_sequence e))
     \<and> (\<forall>g i. dget I g = Some i \<longrightarrow> g \<in> G \<and> (\<exists>e \<in> set es. ie_event_id e = i \<and> ie_gpu_id e = g))"

definition inv_halts :: "string set \<Rightarrow> halt option \<Rightarrow> (string, halt) dict \<Rightarrow> bool" where
  "inv_halts G h H \<longleftrightarrow> dict_ok H \<and> opt_all validate_halt h
     \<and> (\<forall>g x. dget H g = Some x \<longrightarrow> g \<in> G \<and> validate_halt x)"

definition sched_inv :: "sched \<Rightarrow> bool" where
  "sched_inv s \<longleftrightarrow> 0 \<le> sc_revision s \<and> 1 \<le> sc_next_sequence s \<and> valid_gpus s
     \<and> inv_work (set (sc_gpu_ids s)) (sc_next_sequence s) (sc_work s)
     \<and> inv_claims (set (sc_gpu_ids s)) (sc_next_sequence s) (sc_work s) (sc_claims s)
     \<and> inv_unique (sc_claims s) \<and> inv_claimed (sc_work s) (sc_claims s)
     \<and> inv_preempt (set (sc_gpu_ids s)) (sc_next_sequence s) (sc_work s) (sc_claims s) (sc_preemptions s)
     \<and> inv_idle (set (sc_gpu_ids s)) (sc_next_sequence s) (sc_idle_events s) (sc_idle s)
     \<and> inv_halts (set (sc_gpu_ids s)) (sc_safety_halt s) (sc_gpu_halts s)"

section \<open>Generated identifiers\<close>

definition plain :: "char \<Rightarrow> bool" where
  "plain c \<longleftrightarrow> \<not> py_isspace c \<and> c \<noteq> CHR 0x00"

lemma plain_prefixes:
  "list_all plain ''claim-''" "list_all plain ''idle-''" "list_all plain ''release-''"
  "list_all plain ''preempt-''" "list_all (\<lambda>m. plain (char_of (48 + m))) [0, 1, 2, 3, 4, 5, 6, 7, 8, 9 :: nat]"
  "plain (CHR ''0'')"
  by code_simp+

lemma nat_digits_plain: "list_all plain (nat_digits n)"
proof (induction n rule: nat_digits.induct)
  case (1 n)
  have "plain (char_of (48 + m))" if "m < 10" for m :: nat
  proof -
    from that have "m \<in> set [0, 1, 2, 3, 4, 5, 6, 7, 8, 9 :: nat]" by auto
    then show ?thesis using plain_prefixes(5) unfolding list_all_iff by blast
  qed
  with 1 show ?case by (subst nat_digits.simps) simp
qed

lemma fmt_plain: "0 \<le> n \<Longrightarrow> list_all plain (fmt_0d w n)"
  using nat_digits_plain [of "nat n"] plain_prefixes(6)
  by (auto simp: fmt_0d_def pad_zeros_def list_all_iff)

lemma nat_digits_nonempty [simp]: "nat_digits n \<noteq> []"
  by (subst nat_digits.simps) simp

lemma fmt_nonempty [simp]: "fmt_0d w n \<noteq> []"
  by (simp add: fmt_0d_def pad_zeros_def)

lemma ident_plain:
  assumes "s \<noteq> []" "list_all plain s"
  shows "ident s"
proof -
  have d: "dropWhile py_isspace xs = xs" if "list_all plain xs" for xs
    using that by (cases xs) (auto simp: plain_def)
  have "list_all plain (rev s)" using assms(2) by (simp add: list_all_iff)
  then have "py_strip s = s" unfolding py_strip_def using assms(2) d [of s] d [of "rev s"] by simp
  with assms show ?thesis by (auto simp: ident_def has_nul_def list_all_iff plain_def)
qed

lemma ident_generated:
  assumes "0 \<le> n"
  shows "ident (''claim-'' @ fmt_0d 20 n)" "ident (''idle-'' @ fmt_0d 20 n)"
    "ident (''release-'' @ fmt_0d 20 n)" "ident (''preempt-'' @ fmt_0d 20 n)"
  using plain_prefixes fmt_plain [OF assms] by (simp_all add: ident_plain)

lemma claim_name_inject: "0 \<le> m \<Longrightarrow> 0 \<le> n \<Longrightarrow> claim_name m = claim_name n \<longleftrightarrow> m = n"
  by (simp add: claim_name_def fmt_0d_inject)

lemma idle_name_inject: "0 \<le> m \<Longrightarrow> 0 \<le> n \<Longrightarrow> idle_name m = idle_name n \<longleftrightarrow> m = n"
  by (simp add: idle_name_def fmt_0d_inject)

section \<open>The invariant validates\<close>

lemma list_all_dict: "dict_ok d \<Longrightarrow> list_all P d \<longleftrightarrow> (\<forall>k v. dget d k = Some v \<longrightarrow> P (k, v))"
  by (auto simp: list_all_iff set_dict_iff)

lemma list_all_dvals: "dict_ok d \<Longrightarrow> list_all P (dvals d) \<longleftrightarrow> (\<forall>k v. dget d k = Some v \<longrightarrow> P v)"
  by (auto simp: list_all_iff dvals_iff)

lemma distinct_map_dvals:
  assumes "dict_ok d" "\<forall>k k' v v'. dget d k = Some v \<longrightarrow> dget d k' = Some v' \<longrightarrow> f v = f v' \<longrightarrow> k = k'"
  shows "distinct (map f (dvals d))"
  using assms
proof (induction d)
  case (Cons x d)
  obtain k v where x: "x = (k, v)" by (cases x)
  from Cons.prems(1) x have ok: "dict_ok d" and k: "k \<notin> fst ` set d" by (auto simp: dict_ok_def)
  have get: "dget (x # d) j = (if j = k then Some v else dget d j)" for j by (simp add: x dget_def)
  have nk: "dget d k = None" using k by (simp add: dget_def map_of_eq_None_iff)
  have lift: "dget (x # d) j = Some u" if "dget d j = Some u" for j u
    using that nk get by auto
  have "distinct (map f (dvals d))"
    by (rule Cons.IH [OF ok]) (meson Cons.prems(2) lift)
  moreover have "f v \<notin> f ` set (dvals d)"
  proof
    assume "f v \<in> f ` set (dvals d)"
    then obtain j u where j: "dget d j = Some u" "f u = f v" using dvals_iff [OF ok] by force
    have "dget (x # d) k = Some v" by (simp add: get)
    with Cons.prems(2) lift [OF j(1)] j(2) have "k = j" by metis
    with nk j(1) show False by simp
  qed
  ultimately show ?case by (auto simp: x dvals_def)
qed (simp add: dvals_def)

lemma claim_of_work_eq:
  assumes "dict_ok (sc_claims s)" "inv_unique (sc_claims s)" "dget (sc_claims s) g = Some c"
  shows "claim_of_work s (cl_work_id c) = Some c"
proof -
  have m: "c \<in> set (dvals (sc_claims s))" using assms(1,3) by (auto simp: dvals_iff)
  then obtain d where d: "claim_of_work s (cl_work_id c) = Some d"
    unfolding claim_of_work_def by (metis (mono_tags, lifting) find_None_iff not_None_eq)
  then have "d \<in> set (dvals (sc_claims s))" "cl_work_id d = cl_work_id c"
    unfolding claim_of_work_def by (auto simp: find_Some_iff)
  then obtain g' where "dget (sc_claims s) g' = Some d" "cl_work_id d = cl_work_id c"
    using dvals_iff [OF assms(1)] by auto
  with assms(2,3) have "g' = g" unfolding inv_unique_def by blast
  with \<open>dget (sc_claims s) g' = Some d\<close> assms(3) d show ?thesis by simp
qed

lemma claim_of_work_None:
  assumes "dict_ok (sc_claims s)" "\<forall>g c. dget (sc_claims s) g = Some c \<longrightarrow> cl_work_id c \<noteq> w"
  shows "claim_of_work s w = None"
  unfolding claim_of_work_def find_None_iff using dvals_iff [OF assms(1)] assms(2) by auto

lemma inv_dict_oks:
  "inv_work G n W \<Longrightarrow> dict_ok W" "inv_claims G n W C \<Longrightarrow> dict_ok C"
  "inv_preempt G n W C P \<Longrightarrow> dict_ok P" "inv_idle G n es I \<Longrightarrow> dict_ok I" "inv_halts G h H \<Longrightarrow> dict_ok H"
  by (simp_all add: inv_work_def inv_claims_def inv_preempt_def inv_idle_def inv_halts_def)

lemma inv_claimsD:
  assumes "inv_claims G n W C" "dget C g = Some c"
  obtains r where "claim_ok c" "cl_gpu_id c = g" "g \<in> G" "cl_sequence c < n"
    "cl_claim_id c = claim_name (cl_sequence c)" "dget W (cl_work_id c) = Some r"
    "wr_state r = W_CLAIMED" "wr_active_claim_id r = Some (cl_claim_id c)" "is_eligible (wr_item r) g"
  using assms unfolding inv_claims_def by blast

lemma valid_work_inv: "inv_work (set (sc_gpu_ids s)) n (sc_work s) \<Longrightarrow> valid_work s"
  by (simp add: valid_work_def inv_work_def list_all_dict item_gpus_ok_def)

lemma valid_claims_inv:
  assumes "inv_claims (set (sc_gpu_ids s)) n (sc_work s) (sc_claims s)" "inv_unique (sc_claims s)"
  shows "valid_claims s"
proof -
  have ok: "dict_ok (sc_claims s)" using assms(1) by (rule inv_dict_oks)
  have "distinct (map cl_claim_id (dvals (sc_claims s)))" "distinct (map cl_work_id (dvals (sc_claims s)))"
    using assms(2) unfolding inv_unique_def by (intro distinct_map_dvals [OF ok]; blast)+
  moreover have "claim_matches s c" if "dget (sc_claims s) g = Some c" for g c
    using assms(1) that by (rule inv_claimsD) (simp add: claim_matches_def)
  ultimately show ?thesis using assms(1)
    by (auto simp: valid_claims_def list_all_dict [OF ok] inv_claims_def)
qed

lemma valid_claimed_inv:
  assumes "inv_work G n (sc_work s)" "inv_claims G n (sc_work s) (sc_claims s)"
    "inv_unique (sc_claims s)" "inv_claimed (sc_work s) (sc_claims s)"
  shows "valid_claimed_work s"
  unfolding valid_claimed_work_def list_all_dvals [OF inv_dict_oks(1) [OF assms(1)]]
proof (intro allI impI)
  fix w r assume r: "dget (sc_work s) w = Some r"
  with assms(1) have w: "wi_work_id (wr_item r) = w" by (auto simp: inv_work_def)
  note ok = inv_dict_oks(2) [OF assms(2)]
  show "if wr_state r = W_CLAIMED
     then (case claim_of_work s (wi_work_id (wr_item r)) of None \<Rightarrow> False
           | Some c \<Rightarrow> wr_active_claim_id r = Some (cl_claim_id c))
     else wr_active_claim_id r = None \<and> claim_of_work s (wi_work_id (wr_item r)) = None"
  proof (cases "wr_state r = W_CLAIMED")
    case True
    with assms(4) r obtain g c where "dget (sc_claims s) g = Some c" "cl_work_id c = w"
      "wr_active_claim_id r = Some (cl_claim_id c)" unfolding inv_claimed_def by fastforce
    moreover from this claim_of_work_eq [OF ok assms(3)] have "claim_of_work s w = Some c" by blast
    ultimately show ?thesis using True w by simp
  next
    case False
    have "cl_work_id c \<noteq> w" if "dget (sc_claims s) g = Some c" for g c
      using assms(2) that by (rule inv_claimsD) (use r False in auto)
    with False assms(4) r w claim_of_work_None [OF ok] show ?thesis
      by (auto simp: inv_claimed_def)
  qed
qed

lemma valid_preempt_inv:
  assumes "inv_preempt (set (sc_gpu_ids s)) n (sc_work s) (sc_claims s) (sc_preemptions s)"
  shows "valid_preemptions s"
  unfolding valid_preemptions_def list_all_dict [OF inv_dict_oks(3) [OF assms]]
proof (intro allI impI, unfold prod.case)
  fix k p assume "dget (sc_preemptions s) k = Some p"
  with assms have "preemption_ok p \<and> k = pq_request_id p \<and> pq_gpu_id p \<in> set (sc_gpu_ids s)
     \<and> dget (sc_work s) (pq_running_work_id p) \<noteq> None \<and> dget (sc_work s) (pq_requested_for_work_id p) \<noteq> None
     \<and> (pq_status p = PENDING \<longrightarrow> (\<exists>c r. dget (sc_claims s) (pq_gpu_id p) = Some c \<and> cl_claim_id c = pq_claim_id p
          \<and> cl_work_id c = pq_running_work_id p \<and> dget (sc_work s) (pq_running_work_id p) = Some r
          \<and> wi_preemptible (wr_item r)))"
    unfolding inv_preempt_def by blast
  then show "preemption_ok p \<and> k = pq_request_id p \<and> pq_gpu_id p \<in> set (sc_gpu_ids s)
     \<and> dget (sc_work s) (pq_running_work_id p) \<noteq> None
     \<and> dget (sc_work s) (pq_requested_for_work_id p) \<noteq> None
     \<and> (pq_status p = PENDING \<longrightarrow> (case dget (sc_claims s) (pq_gpu_id p) of None \<Rightarrow> False
          | Some c \<Rightarrow> cl_claim_id c = pq_claim_id p \<and> cl_work_id c = pq_running_work_id p
             \<and> (case dget (sc_work s) (pq_running_work_id p) of None \<Rightarrow> False
                | Some r \<Rightarrow> wi_preemptible (wr_item r))))" by auto
qed

lemma idle_ids_distinct:
  assumes "sorted_wrt (<) (map ie_sequence es)"
    "\<forall>e \<in> set es. 1 \<le> ie_sequence e \<and> ie_event_id e = idle_name (ie_sequence e)"
  shows "distinct (map ie_event_id es)"
proof -
  have d: "distinct (map ie_sequence es)" using assms(1) by (simp add: strict_sorted_iff)
  have pos: "0 \<le> n" if "n \<in> set (map ie_sequence es)" for n using assms(2) that by force
  have "distinct (map idle_name (map ie_sequence es))"
    unfolding distinct_map [of idle_name] using d pos idle_name_inject by (auto simp: inj_on_def)
  moreover have "map idle_name (map ie_sequence es) = map ie_event_id es" using assms(2) by simp
  ultimately show ?thesis by metis
qed

lemma valid_idle_inv:
  assumes "inv_idle (set (sc_gpu_ids s)) n (sc_idle_events s) (sc_idle s)"
  shows "valid_idle s"
proof -
  have "distinct (map ie_event_id (sc_idle_events s))"
    using assms by (intro idle_ids_distinct) (auto simp: inv_idle_def idle_event_ok_def)
  with assms show ?thesis
    by (auto simp: valid_idle_def inv_idle_def list_all_dict list_ex_iff) (auto simp: list_all_iff)
qed

lemma sequences_inv:
  assumes "sched_inv s"
  shows "list_all (\<lambda>n. n < sc_next_sequence s) (sequences s)"
proof -
  let ?n = "sc_next_sequence s"
  from assms have i: "inv_work (set (sc_gpu_ids s)) ?n (sc_work s)"
    "inv_claims (set (sc_gpu_ids s)) ?n (sc_work s) (sc_claims s)"
    "inv_preempt (set (sc_gpu_ids s)) ?n (sc_work s) (sc_claims s) (sc_preemptions s)"
    "inv_idle (set (sc_gpu_ids s)) ?n (sc_idle_events s) (sc_idle s)" by (simp_all add: sched_inv_def)
  have w: "wr_enqueue_sequence r < ?n \<and> opt_all (\<lambda>l. rr_sequence l < ?n) (wr_last_release r)"
    if "r \<in> set (dvals (sc_work s))" for r
    using i(1) that dvals_iff [OF inv_dict_oks(1) [OF i(1)]] by (auto simp: inv_work_def)
  have c: "cl_sequence c < ?n" if "c \<in> set (dvals (sc_claims s))" for c
    using i(2) that dvals_iff [OF inv_dict_oks(2) [OF i(2)]] unfolding inv_claims_def by blast
  have p: "pq_sequence p < ?n" if "p \<in> set (dvals (sc_preemptions s))" for p
    using i(3) that dvals_iff [OF inv_dict_oks(3) [OF i(3)]] unfolding inv_preempt_def by blast
  have e: "ie_sequence e < ?n" if "e \<in> set (sc_idle_events s)" for e
    using i(4) that unfolding inv_idle_def by blast
  have "rr_sequence l < ?n" if "r \<in> set (dvals (sc_work s))" "wr_last_release r = Some l" for r l
    using w [OF that(1)] that(2) by simp
  with w c p e show ?thesis
    unfolding sequences_def list_all_iff by (auto split: option.splits)
qed

lemma sched_inv_validates:
  assumes "sched_inv s"
  shows "validate_state s"
  using assms sequences_inv [OF assms] unfolding sched_inv_def validate_state_def
  by (auto intro: valid_work_inv valid_claims_inv valid_claimed_inv valid_preempt_inv valid_idle_inv
      simp: valid_halts_def inv_halts_def list_all_dict)

section \<open>Committing\<close>

lemma dict_ok_sort [simp]: "dict_ok (sort_key fst d) = dict_ok d"
  by (simp add: dict_ok_def distinct_map)

lemma dget_sort [simp]:
  assumes "dict_ok d"
  shows "dget (sort_key fst d) k = dget d k"
proof -
  have "(k, v) \<in> set (sort_key fst d) \<longleftrightarrow> (k, v) \<in> set d" for v by simp
  then have "dget (sort_key fst d) k = Some v \<longleftrightarrow> dget d k = Some v" for v
    using set_dict_iff [OF assms] set_dict_iff [of "sort_key fst d"] assms by simp
  then show ?thesis by (cases "dget d k"; cases "dget (sort_key fst d) k") auto
qed

lemma inv_sorted:
  "dict_ok W \<Longrightarrow> inv_work G n (sort_key fst W) = inv_work G n W"
  "dict_ok W \<Longrightarrow> dict_ok C \<Longrightarrow> inv_claims G n (sort_key fst W) (sort_key fst C) = inv_claims G n W C"
  "dict_ok C \<Longrightarrow> inv_unique (sort_key fst C) = inv_unique C"
  "dict_ok W \<Longrightarrow> dict_ok C \<Longrightarrow> inv_claimed (sort_key fst W) (sort_key fst C) = inv_claimed W C"
  "dict_ok W \<Longrightarrow> dict_ok C \<Longrightarrow> dict_ok P \<Longrightarrow>
     inv_preempt G n (sort_key fst W) (sort_key fst C) (sort_key fst P) = inv_preempt G n W C P"
  "dict_ok I \<Longrightarrow> inv_idle G n es (sort_key fst I) = inv_idle G n es I"
  "dict_ok H \<Longrightarrow> inv_halts G h (sort_key fst H) = inv_halts G h H"
  unfolding inv_work_def inv_claims_def inv_unique_def inv_claimed_def inv_preempt_def inv_idle_def
    inv_halts_def by (simp_all only: dget_sort dict_ok_sort)

lemma seal_inv:
  assumes "sched_inv s"
  shows "sched_inv (seal_state s)"
proof -
  from assms have "dict_ok (sc_work s)" "dict_ok (sc_claims s)" "dict_ok (sc_preemptions s)"
    "dict_ok (sc_idle s)" "dict_ok (sc_gpu_halts s)"
    by (auto simp: sched_inv_def dest: inv_dict_oks)
  with assms show ?thesis
    by (simp add: sched_inv_def seal_state_def valid_gpus_def inv_sorted)
qed

definition sealed :: "sched \<Rightarrow> sched" where
  "sealed s = seal_state (s\<lparr>sc_revision := sc_revision s + 1\<rparr>)"

lemma sched_inv_revision: "sched_inv s \<Longrightarrow> 0 \<le> n \<Longrightarrow> sched_inv (s\<lparr>sc_revision := n\<rparr>)"
  by (simp add: sched_inv_def valid_gpus_def)

lemma sealed_inv: "sched_inv s \<Longrightarrow> sched_inv (sealed s)"
  unfolding sealed_def by (intro seal_inv sched_inv_revision) (auto simp: sched_inv_def)

text \<open>From the invariant, validation never rejects a commit.\<close>

lemma commit_ok: "sched_inv s \<Longrightarrow> commit s = Inr (sealed s)"
  using sched_inv_validates [OF sealed_inv] by (simp add: commit_def sealed_def)

lemma commit_Inr: "commit s = Inr s' \<Longrightarrow> s' = sealed s"
  by (auto simp: commit_def sealed_def Let_def split: if_splits)

end
