(* ===== verification/Scheduler_Ops.thy ===== *)
theory Scheduler_Ops
  imports Scheduler_Inv
begin

text \<open>
  Every operation of the scheduler keeps the invariant, and the validation before a write never
  rejects what an operation produced.
\<close>

section \<open>Growing inventories and sequences\<close>

lemma item_gpus_mono: "item_gpus_ok G w \<Longrightarrow> G \<subseteq> G' \<Longrightarrow> item_gpus_ok G' w"
  unfolding item_gpus_ok_def by (cases "wi_eligible_gpus w"; cases "wi_preferred_gpu w") auto

lemma inv_work_mono: "inv_work G n W \<Longrightarrow> G \<subseteq> G' \<Longrightarrow> n \<le> n' \<Longrightarrow> inv_work G' n' W"
proof -
  assume a: "inv_work G n W" "G \<subseteq> G'" "n \<le> n'"
  have "opt_all (\<lambda>l. rr_sequence l < n') x" if "opt_all (\<lambda>l. rr_sequence l < n) x" for x
    using that a(3) by (cases x) auto
  with a item_gpus_mono show "inv_work G' n' W" unfolding inv_work_def by fastforce
qed

lemma inv_claims_mono: "inv_claims G n W C \<Longrightarrow> G \<subseteq> G' \<Longrightarrow> n \<le> n' \<Longrightarrow> inv_claims G' n' W C"
  unfolding inv_claims_def by fastforce

lemma inv_preempt_mono: "inv_preempt G n W C P \<Longrightarrow> G \<subseteq> G' \<Longrightarrow> n \<le> n' \<Longrightarrow> inv_preempt G' n' W C P"
  unfolding inv_preempt_def by fastforce

lemma inv_idle_mono: "inv_idle G n es I \<Longrightarrow> G \<subseteq> G' \<Longrightarrow> n \<le> n' \<Longrightarrow> inv_idle G' n' es I"
  unfolding inv_idle_def by fastforce

lemma inv_halts_mono: "inv_halts G h H \<Longrightarrow> G \<subseteq> G' \<Longrightarrow> inv_halts G' h H"
  unfolding inv_halts_def by blast

lemmas inv_monos = inv_work_mono inv_claims_mono inv_preempt_mono inv_idle_mono inv_halts_mono

section \<open>Registration of GPUs\<close>

lemma register_Inr:
  assumes "validate_or_register_gpu s g = Inr (s', b)"
  shows "s' = s\<lparr>sc_gpu_ids := sc_gpu_ids s'\<rparr>" "set (sc_gpu_ids s') = insert g (set (sc_gpu_ids s))"
    "\<not> b \<Longrightarrow> s' = s"
  using assms by (auto simp: validate_or_register_gpu_def split: if_splits)

lemma register_inv:
  assumes "sched_inv s" "ident g" "validate_or_register_gpu s g = Inr (s', b)"
  shows "sched_inv s'"
proof -
  have g: "valid_gpus s'" using assms
    by (auto simp: sched_inv_def valid_gpus_def validate_or_register_gpu_def list_all_iff split: if_splits)
  have sub: "set (sc_gpu_ids s) \<subseteq> set (sc_gpu_ids s')" using register_Inr(2) [OF assms(3)] by auto
  obtain gs where s': "s' = s\<lparr>sc_gpu_ids := gs\<rparr>" using register_Inr(1) [OF assms(3)] by blast
  from assms(1) g sub show ?thesis unfolding s' sched_inv_def
    by (auto intro: inv_monos)
qed

lemma register_gpus_Inr:
  assumes "register_gpus s gs = Inr s'" "sched_inv s" "list_all ident gs"
  shows "sched_inv s' \<and> s' = s\<lparr>sc_gpu_ids := sc_gpu_ids s'\<rparr> \<and> set (sc_gpu_ids s') = set gs \<union> set (sc_gpu_ids s)"
  using assms
proof (induction gs arbitrary: s)
  case (Cons g gs)
  then obtain s1 b where s1: "validate_or_register_gpu s g = Inr (s1, b)" "register_gpus s1 gs = Inr s'"
    by (auto simp: res_simps)
  from Cons.prems(3) have "ident g" by simp
  from register_inv [OF Cons.prems(2) this s1(1)] Cons.IH [OF s1(2)] Cons.prems(3)
  have "sched_inv s' \<and> s' = s1\<lparr>sc_gpu_ids := sc_gpu_ids s'\<rparr> \<and> set (sc_gpu_ids s') = set gs \<union> set (sc_gpu_ids s1)"
    by simp
  with register_Inr(1,2) [OF s1(1)] show ?case by (metis Un_insert_left Un_insert_right list.simps(15) sched.update_convs(4) sched.surjective)
qed simp

section \<open>Idle telemetry\<close>

lemma json_object_Inr: "json_object p = Inr q \<Longrightarrow> payload_ok q"
  by (auto simp: json_object_def split: option.splits if_splits intro: jcanon_payload_ok)

text \<open>What recording an idle event may change.\<close>

definition idle_frame :: "sched \<Rightarrow> sched \<Rightarrow> bool" where
  "idle_frame s s' \<longleftrightarrow> sc_work s' = sc_work s \<and> sc_claims s' = sc_claims s
     \<and> sc_preemptions s' = sc_preemptions s \<and> sc_gpu_ids s' = sc_gpu_ids s
     \<and> sc_dynamic_gpus s' = sc_dynamic_gpus s \<and> sc_safety_halt s' = sc_safety_halt s
     \<and> sc_gpu_halts s' = sc_gpu_halts s \<and> sc_revision s' = sc_revision s
     \<and> sc_next_sequence s \<le> sc_next_sequence s'"

lemma idle_frame_refl [simp]: "idle_frame s s"
  by (simp add: idle_frame_def)

lemma idle_frame_trans: "idle_frame s t \<Longrightarrow> idle_frame t u \<Longrightarrow> idle_frame s u"
  by (simp add: idle_frame_def)

lemma inv_idle_append:
  assumes "inv_idle G n es I" "g \<in> G" "idle_event_ok e" "ie_gpu_id e = g" "ie_sequence e = n"
    "ie_event_id e = idle_name n"
  shows "inv_idle G (n + 1) (es @ [e]) (dset I g (ie_event_id e))"
  using assms unfolding inv_idle_def
  by (auto simp: sorted_wrt_append dict_simps split: if_splits)

lemma idle_actor_ok:
  assumes "idle_actor C owner0 work0 = Inr (owner, work)"
    "opt_all claim_ok C" "opt_all ident owner0" "opt_all ident work0"
  shows "opt_all ident owner \<and> opt_all ident work"
  using assms by (auto simp: idle_actor_def claim_ok_def split: option.splits if_splits)

lemma same_idle_found:
  assumes "inv_idle (set (sc_gpu_ids s)) n (sc_idle_events s) (sc_idle s)"
  shows "\<exists>x. same_idle s g reason owner work d = Inr x"
proof (cases "dget (sc_idle s) g")
  case (Some i)
  with assms obtain e where "e \<in> set (sc_idle_events s)" "ie_event_id e = i"
    unfolding inv_idle_def by blast
  then have "find (\<lambda>e. ie_event_id e = i) (rev (sc_idle_events s)) \<noteq> None"
    by (auto simp: find_None_iff)
  with Some show ?thesis by (auto simp: same_idle_def)
qed (simp add: same_idle_def)

lemma record_idle_cases:
  assumes "record_idle_in_state clock s g reason owner0 work0 details = Inr (e, changed, s')"
  obtains "\<not> changed" "s' = s"
  | t d owner work where "changed" "json_object details = Inr d" "isfinite t"
      "idle_actor (dget (sc_claims s) g) owner0 work0 = Inr (owner, work)"
      "e = \<lparr>ie_event_id = idle_name (sc_next_sequence s), ie_gpu_id = g, ie_reason = reason,
          ie_recorded_at = t, ie_sequence = sc_next_sequence s, ie_owner_id = owner,
          ie_work_id = work, ie_details = d\<rparr>"
      "s' = s\<lparr>sc_next_sequence := sc_next_sequence s + 1, sc_idle_events := sc_idle_events s @ [e],
          sc_idle := dset (sc_idle s) g (ie_event_id e)\<rparr>"
proof -
  from assms obtain d owner work current where c: "json_object details = Inr d"
    "idle_actor (dget (sc_claims s) g) owner0 work0 = Inr (owner, work)"
    "(case current of Some e \<Rightarrow> Inr (e, False, s)
      | None \<Rightarrow> new_idle clock s g reason owner work d) = Inr (e, changed, s')"
    by (auto simp: record_idle_in_state_def bindE_Inr)
  show ?thesis
  proof (cases current)
    case (Some e')
    with c(3) show ?thesis by (intro that(1)) auto
  next
    case None
    with c show ?thesis
      by (intro that(2)) (auto simp: new_idle_def allocate_sequence_def res_simps idle_name_def Let_def
          read_clock_def split: if_splits)
  qed
qed

lemma record_idle_inv:
  assumes "record_idle_in_state clock s g reason owner0 work0 details = Inr (e, changed, s')"
    and inv: "sched_inv s" and g: "g \<in> set (sc_gpu_ids s)" "opt_all ident owner0" "opt_all ident work0"
  shows "sched_inv s' \<and> idle_frame s s' \<and> (\<not> changed \<longrightarrow> s' = s)"
  using assms(1)
proof (cases rule: record_idle_cases)
  case 1
  with inv show ?thesis by simp
next
  case (2 t d owner work)
  let ?n = "sc_next_sequence s"
  from inv have i: "1 \<le> ?n" "valid_gpus s" "inv_claims (set (sc_gpu_ids s)) ?n (sc_work s) (sc_claims s)"
    by (auto simp: sched_inv_def)
  have "opt_all claim_ok (dget (sc_claims s) g)"
    using i(3) by (cases "dget (sc_claims s) g") (auto elim: inv_claimsD)
  from idle_actor_ok [OF 2(4) this g(2,3)] have "idle_event_ok e"
    using 2 i g(1) json_object_Inr [OF 2(2)] ident_generated(2) [of ?n]
    by (auto simp: idle_event_ok_def idle_name_def valid_gpus_def list_all_iff)
  then have "inv_idle (set (sc_gpu_ids s)) (?n + 1) (sc_idle_events s @ [e]) (dset (sc_idle s) g (ie_event_id e))"
    using inv g(1) 2(5) by (intro inv_idle_append) (auto simp: sched_inv_def)
  with inv 2 show ?thesis
    by (auto simp: sched_inv_def valid_gpus_def idle_frame_def intro: inv_monos)
qed

lemma bindE_Inl: "bindE m f = Inl e \<longleftrightarrow> m = Inl e \<or> (\<exists>x. m = Inr x \<and> f x = Inl e)"
  by (cases m) auto

lemma bindE_neq: "m \<noteq> Inl e \<Longrightarrow> (\<And>x. m = Inr x \<Longrightarrow> f x \<noteq> Inl e) \<Longrightarrow> bindE m f \<noteq> Inl e"
  by (cases m) auto

lemma record_idle_no_corruption:
  assumes "sched_inv s"
  shows "record_idle_in_state clock s g reason owner0 work0 details \<noteq> Inl SchedulerStateError"
  unfolding record_idle_in_state_def
proof (intro bindE_neq)
  from assms have i: "inv_idle (set (sc_gpu_ids s)) (sc_next_sequence s) (sc_idle_events s) (sc_idle s)"
    by (simp add: sched_inv_def)
  show "json_object details \<noteq> Inl SchedulerStateError"
    by (simp add: json_object_def split: option.splits)
  show "idle_actor (dget (sc_claims s) g) owner0 work0 \<noteq> Inl SchedulerStateError"
    by (auto simp: idle_actor_def split: option.splits if_splits)
  fix d and ow :: "string option \<times> string option"
  obtain owner work where ow: "ow = (owner, work)" by (cases ow)
  obtain x where "same_idle s g reason owner work d = Inr x" using same_idle_found [OF i] by blast
  then show "(case ow of (owner, work) \<Rightarrow> bindE (same_idle s g reason owner work d) (\<lambda>current.
      case current of Some e \<Rightarrow> Inr (e, False, s)
        | None \<Rightarrow> new_idle clock s g reason owner work d)) \<noteq> Inl SchedulerStateError"
    by (auto simp: ow new_idle_def read_clock_def allocate_sequence_def Let_def split: option.splits)
qed

section \<open>Claiming and releasing\<close>

lemma work_update_inv:
  assumes "inv_work G n W" "dget W w = Some r" "wr_item r' = wr_item r"
    "wr_enqueue_sequence r' = wr_enqueue_sequence r" "work_record_ok r'"
    "opt_all (\<lambda>l. rr_sequence l < n') (wr_last_release r')" "n \<le> n'"
  shows "inv_work G n' (dset W w r')"
proof -
  from inv_work_mono [OF assms(1) order_refl assms(7)] have "inv_work G n' W" .
  with assms show ?thesis unfolding inv_work_def by (auto simp: dict_simps)
qed

lemma claimed_elsewhere:
  assumes "inv_claims G n W C" "dget W w = Some r" "wr_state r \<noteq> W_CLAIMED" "dget C g = Some c"
  shows "cl_work_id c \<noteq> w"
  using assms(1,4) by (rule inv_claimsD) (use assms(2,3) in auto)

lemma claim_update_claims:
  assumes "inv_claims G n W C" "dget C g = None" "g \<in> G" "dget W w = Some r" "wr_state r \<noteq> W_CLAIMED"
    "wr_state r' = W_CLAIMED" "wr_active_claim_id r' = Some (claim_name n)" "is_eligible (wr_item r') g"
    "claim_ok c" "cl_gpu_id c = g" "cl_sequence c = n" "cl_claim_id c = claim_name n" "cl_work_id c = w"
  shows "inv_claims G (n + 1) (dset W w r') (dset C g c)"
  unfolding inv_claims_def
proof (rule conjI, use inv_dict_oks(2) [OF assms(1)] in simp, intro allI impI)
  fix h d assume d: "dget (dset C g c) h = Some d"
  show "claim_ok d \<and> cl_gpu_id d = h \<and> h \<in> G \<and> cl_sequence d < n + 1
     \<and> cl_claim_id d = claim_name (cl_sequence d)
     \<and> (\<exists>r. dget (dset W w r') (cl_work_id d) = Some r \<and> wr_state r = W_CLAIMED
          \<and> wr_active_claim_id r = Some (cl_claim_id d) \<and> is_eligible (wr_item r) h)"
  proof (cases "h = g")
    case True
    with d assms show ?thesis by (auto simp: dict_simps)
  next
    case False
    with d have d': "dget C h = Some d" by (simp add: dict_simps)
    from assms(1) d' claimed_elsewhere [OF assms(1,4,5) d'] show ?thesis
      by (elim inv_claimsD) (auto simp: dict_simps)
  qed
qed

lemma claim_update_unique:
  assumes "inv_unique C" "inv_claims G n W C" "dget W w = Some r" "wr_state r \<noteq> W_CLAIMED"
    "cl_work_id c = w" "cl_claim_id c = claim_name n" "1 \<le> n"
  shows "inv_unique (dset C g c)"
proof -
  have new: "cl_work_id d \<noteq> w \<and> cl_claim_id d \<noteq> claim_name n" if "dget C h = Some d" for h d
    using assms(2) that
  proof (rule inv_claimsD)
    assume "claim_ok d" "cl_sequence d < n" "cl_claim_id d = claim_name (cl_sequence d)"
    then show ?thesis using claimed_elsewhere [OF assms(2,3,4) that] assms(7)
      by (auto simp: claim_name_inject claim_ok_def)
  qed
  show ?thesis unfolding inv_unique_def dget_dset
    using assms(1,5,6) new unfolding inv_unique_def by (metis option.inject)
qed

lemma claim_update_claimed:
  assumes "inv_claimed W C" "dget C g = None" "dget W w = Some r" "cl_work_id c = w"
    "wr_state r' = W_CLAIMED" "wr_active_claim_id r' = Some (cl_claim_id c)"
  shows "inv_claimed (dset W w r') (dset C g c)"
  unfolding inv_claimed_def
proof (intro allI impI)
  fix v x assume x: "dget (dset W w r') v = Some x"
  show "if wr_state x = W_CLAIMED then \<exists>h d. dget (dset C g c) h = Some d \<and> cl_work_id d = v
          \<and> wr_active_claim_id x = Some (cl_claim_id d)
      else wr_active_claim_id x = None"
  proof (cases "v = w")
    case True
    with x assms show ?thesis by (auto simp: dict_simps)
  next
    case False
    with x have "dget W v = Some x" by (simp add: dict_simps)
    with assms(1) have "if wr_state x = W_CLAIMED then \<exists>h d. dget C h = Some d \<and> cl_work_id d = v
          \<and> wr_active_claim_id x = Some (cl_claim_id d) else wr_active_claim_id x = None"
      unfolding inv_claimed_def by blast
    moreover have "dget (dset C g c) h = Some d" if "dget C h = Some d" for h d
      using that assms(2) by (auto simp: dict_simps)
    ultimately show ?thesis by (metis (full_types))
  qed
qed

lemma inv_preempt_update:
  assumes "inv_preempt G n W C P" "n \<le> n'"
    and "\<forall>w r. dget W w = Some r \<longrightarrow> (\<exists>r'. dget W' w = Some r' \<and> wr_item r' = wr_item r)"
    and "\<forall>g c. dget C g = Some c \<longrightarrow> dget C' g = Some c"
  shows "inv_preempt G n' W' C' P"
  unfolding inv_preempt_def
proof (rule conjI, use inv_dict_oks(3) [OF assms(1)] in simp, intro allI impI)
  fix k p assume p: "dget P k = Some p"
  with assms(1) have q: "preemption_ok p" "k = pq_request_id p" "pq_gpu_id p \<in> G" "pq_sequence p < n"
    "dget W (pq_running_work_id p) \<noteq> None" "dget W (pq_requested_for_work_id p) \<noteq> None"
    "pq_status p = PENDING \<longrightarrow> (\<exists>c r. dget C (pq_gpu_id p) = Some c \<and> cl_claim_id c = pq_claim_id p
          \<and> cl_work_id c = pq_running_work_id p \<and> dget W (pq_running_work_id p) = Some r
          \<and> wi_preemptible (wr_item r))"
    unfolding inv_preempt_def by blast+
  from q(7) assms(3,4) have "pq_status p = PENDING \<longrightarrow> (\<exists>c r. dget C' (pq_gpu_id p) = Some c
      \<and> cl_claim_id c = pq_claim_id p \<and> cl_work_id c = pq_running_work_id p
      \<and> dget W' (pq_running_work_id p) = Some r \<and> wi_preemptible (wr_item r))" by metis
  moreover from q(5,6) assms(3) have "dget W' (pq_running_work_id p) \<noteq> None"
    "dget W' (pq_requested_for_work_id p) \<noteq> None" by fastforce+
  ultimately show "preemption_ok p \<and> k = pq_request_id p \<and> pq_gpu_id p \<in> G \<and> pq_sequence p < n'
     \<and> dget W' (pq_running_work_id p) \<noteq> None \<and> dget W' (pq_requested_for_work_id p) \<noteq> None
     \<and> (pq_status p = PENDING \<longrightarrow> (\<exists>c r. dget C' (pq_gpu_id p) = Some c \<and> cl_claim_id c = pq_claim_id p
          \<and> cl_work_id c = pq_running_work_id p \<and> dget W' (pq_running_work_id p) = Some r
          \<and> wi_preemptible (wr_item r)))" using q assms(2) by auto
qed

text \<open>
  A sound outcome: never the corruption error, and a state that satisfies the invariant.
\<close>

definition sound :: "serror + 'a \<times> sched \<Rightarrow> bool" where
  "sound res \<longleftrightarrow> res \<noteq> Inl SchedulerStateError \<and> (\<forall>x s. res = Inr (x, s) \<longrightarrow> sched_inv s)"

lemma sound_simps [simp]:
  "sound (Inl e) \<longleftrightarrow> e \<noteq> SchedulerStateError"
  "sound (Inr (x, s)) \<longleftrightarrow> sched_inv s"
  by (auto simp: sound_def)

lemma sound_bind: "m \<noteq> Inl SchedulerStateError \<Longrightarrow> (\<And>x. m = Inr x \<Longrightarrow> sound (f x)) \<Longrightarrow> sound (bindE m f)"
  by (cases m) auto

lemma sound_commit: "sched_inv s \<Longrightarrow> sound (bindE (commit s) (\<lambda>s'. Inr (x, s')))"
  by (simp add: commit_ok sealed_inv)

lemma sound_commit_if:
  "sched_inv s \<Longrightarrow> sched_inv s' \<Longrightarrow> sound (bindE (commit_if b s s') (\<lambda>t. Inr (x, t)))"
  by (simp add: commit_if_def sound_commit)

lemma checks_not_corrupt [simp]:
  "require_identifier i \<noteq> Inl SchedulerStateError"
  "read_clock t \<noteq> Inl SchedulerStateError"
  "json_object p \<noteq> Inl SchedulerStateError"
  "validate_known_gpu s g \<noteq> Inl SchedulerStateError"
  "validate_or_register_gpu s g \<noteq> Inl SchedulerStateError"
  "effective_outcome oc rq \<noteq> Inl SchedulerStateError"
  by (auto simp: require_identifier_def read_clock_def json_object_def validate_known_gpu_def
      validate_or_register_gpu_def effective_outcome_def split: option.splits)

lemma require_identifier_Inr [simp]: "require_identifier i = Inr j \<longleftrightarrow> ident i \<and> j = i"
  by (auto simp: require_identifier_def)

lemma read_clock_Inr [simp]: "read_clock t = Inr u \<longleftrightarrow> isfinite t \<and> u = t"
  by (auto simp: read_clock_def)

subsection \<open>Claiming\<close>

lemma min_by_in: "min_by k m xs \<in> set (m # xs)"
  by (induction xs arbitrary: m) auto

lemma min_by_le: "x \<in> set (m # xs) \<Longrightarrow> k (min_by k m xs) \<le> k x"
proof (induction xs arbitrary: m x)
  case (Cons y ys)
  have "k (min_by k (if k y < k m then y else m) ys) \<le> k (if k y < k m then y else m)"
    by (rule Cons.IH) simp
  moreover have "k (min_by k (if k y < k m then y else m) ys) \<le> k x" if "x \<in> set ys"
    using that by (intro Cons.IH) simp
  ultimately show ?case using Cons.prems by (auto split: if_splits)
qed simp

lemma runnable_iff:
  assumes "sched_inv s"
  shows "r \<in> set (runnable s g) \<longleftrightarrow>
    dget (sc_work s) (wi_work_id (wr_item r)) = Some r \<and> wr_state r = QUEUED \<and> is_eligible (wr_item r) g"
proof -
  have w: "inv_work (set (sc_gpu_ids s)) (sc_next_sequence s) (sc_work s)" using assms by (simp add: sched_inv_def)
  then have "r \<in> set (dvals (sc_work s)) \<longleftrightarrow> dget (sc_work s) (wi_work_id (wr_item r)) = Some r"
    using dvals_iff [OF inv_dict_oks(1) [OF w]] unfolding inv_work_def by metis
  then show ?thesis by (auto simp: runnable_def)
qed

lemma inv_idle_del:
  assumes "inv_idle G n es I"
  shows "inv_idle G n es (ddel I g)"
proof -
  have "dget I h = Some i" if "dget (ddel I g) h = Some i" for h i
    using that by (simp add: dget_ddel split: if_splits)
  with assms show ?thesis unfolding inv_idle_def using dict_ok_ddel by blast
qed

text \<open>The state that a new claim of work record \<open>r\<close> leaves.\<close>

definition claimed_state :: "sched \<Rightarrow> string \<Rightarrow> work_record \<Rightarrow> claim \<Rightarrow> sched" where
  "claimed_state s g r c = s\<lparr>sc_next_sequence := sc_next_sequence s + 1,
     sc_claims := dset (sc_claims s) g c,
     sc_work := dset (sc_work s) (wi_work_id (wr_item r)) (r\<lparr>wr_state := W_CLAIMED,
        wr_attempts := wr_attempts r + 1, wr_active_claim_id := Some (cl_claim_id c)\<rparr>),
     sc_idle := ddel (sc_idle s) g\<rparr>"

definition new_claim :: "sched \<Rightarrow> string \<Rightarrow> string \<Rightarrow> pyfloat \<Rightarrow> work_record \<Rightarrow> claim" where
  "new_claim s g owner t r = \<lparr>cl_claim_id = claim_name (sc_next_sequence s),
     cl_work_id = wi_work_id (wr_item r), cl_gpu_id = g, cl_owner_id = owner, cl_claimed_at = t,
     cl_sequence = sc_next_sequence s, cl_stolen = (wi_preferred_gpu (wr_item r) \<noteq> None
        \<and> wi_preferred_gpu (wr_item r) \<noteq> Some g)\<rparr>"

lemma claimed_state_inv:
  assumes inv: "sched_inv s" and g: "g \<in> set (sc_gpu_ids s)" "ident g" "ident owner" "isfinite t"
    and r: "r \<in> set (runnable s g)" and free: "dget (sc_claims s) g = None"
  shows "sched_inv (claimed_state s g r (new_claim s g owner t r))"
proof -
  let ?n = "sc_next_sequence s" and ?G = "set (sc_gpu_ids s)" and ?w = "wi_work_id (wr_item r)"
  let ?c = "new_claim s g owner t r"
  let ?r = "r\<lparr>wr_state := W_CLAIMED, wr_attempts := wr_attempts r + 1,
    wr_active_claim_id := Some (cl_claim_id ?c)\<rparr>"
  from inv have i: "0 \<le> sc_revision s" "1 \<le> ?n" "valid_gpus s" "inv_work ?G ?n (sc_work s)"
    "inv_claims ?G ?n (sc_work s) (sc_claims s)" "inv_unique (sc_claims s)"
    "inv_claimed (sc_work s) (sc_claims s)"
    "inv_preempt ?G ?n (sc_work s) (sc_claims s) (sc_preemptions s)"
    "inv_idle ?G ?n (sc_idle_events s) (sc_idle s)"
    "inv_halts ?G (sc_safety_halt s) (sc_gpu_halts s)" by (simp_all add: sched_inv_def)
  from r have get: "dget (sc_work s) ?w = Some r" and q: "wr_state r = QUEUED" "is_eligible (wr_item r) g"
    unfolding runnable_iff [OF inv] by auto
  have id: "ident (claim_name ?n)" using ident_generated(1) [of ?n] i(2) by (simp add: claim_name_def)
  from i(4) get have ok: "work_record_ok r" and rel: "opt_all (\<lambda>l. rr_sequence l < ?n) (wr_last_release r)"
    by (auto simp: inv_work_def)
  from ok have idw: "ident ?w" by (simp add: work_record_ok_def work_item_ok_def)
  have okr: "work_record_ok ?r" using ok id by (simp add: work_record_ok_def new_claim_def)
  have okc: "claim_ok ?c" using g id idw i(2) by (simp add: claim_ok_def new_claim_def)
  have rel': "opt_all (\<lambda>l. rr_sequence l < ?n + 1) (wr_last_release ?r)"
    using rel by (cases "wr_last_release r") auto
  have W: "inv_work ?G (?n + 1) (dset (sc_work s) ?w ?r)"
    by (rule work_update_inv [OF i(4) get _ _ okr rel']) simp_all
  have C: "inv_claims ?G (?n + 1) (dset (sc_work s) ?w ?r) (dset (sc_claims s) g ?c)"
    by (rule claim_update_claims [OF i(5) free g(1) get _ _ _ _ okc]) (simp_all add: q new_claim_def)
  have U: "inv_unique (dset (sc_claims s) g ?c)"
    by (rule claim_update_unique [OF i(6,5) get]) (simp_all add: q new_claim_def i(2))
  have D: "inv_claimed (dset (sc_work s) ?w ?r) (dset (sc_claims s) g ?c)"
    by (rule claim_update_claimed [OF i(7) free get]) (simp_all add: new_claim_def)
  have P: "inv_preempt ?G (?n + 1) (dset (sc_work s) ?w ?r) (dset (sc_claims s) g ?c) (sc_preemptions s)"
    by (rule inv_preempt_update [OF i(8)]) (use get free in \<open>auto simp: dget_dset\<close>)
  have I: "inv_idle ?G (?n + 1) (sc_idle_events s) (ddel (sc_idle s) g)"
    by (rule inv_idle_del) (rule inv_idle_mono [OF i(9)], simp_all)
  from W C U D P I i show ?thesis
    by (simp add: sched_inv_def claimed_state_def valid_gpus_def)
qed

lemma register_frame:
  assumes "validate_or_register_gpu s g = Inr (s', b)"
  shows "g \<in> set (sc_gpu_ids s')" "sc_work s' = sc_work s" "sc_claims s' = sc_claims s"
    "sc_preemptions s' = sc_preemptions s" "sc_idle s' = sc_idle s" "sc_idle_events s' = sc_idle_events s"
    "sc_safety_halt s' = sc_safety_halt s" "sc_gpu_halts s' = sc_gpu_halts s"
    "sc_next_sequence s' = sc_next_sequence s" "sc_revision s' = sc_revision s"
    "set (sc_gpu_ids s) \<subseteq> set (sc_gpu_ids s')" "sc_dynamic_gpus s' = sc_dynamic_gpus s"
  using assms by (auto simp: validate_or_register_gpu_def split: if_splits)

lemma sound_idle:
  assumes "sched_inv s" "sched_inv s0" "g \<in> set (sc_gpu_ids s)" "opt_all ident owner" "opt_all ident work"
  shows "sound (bindE (record_idle_in_state clock s g reason owner work details)
    (\<lambda>(e, changed, s1). bindE (commit_if (registered \<or> changed) s0 s1) (\<lambda>s2. Inr (f e, s2))))"
proof (rule sound_bind [OF record_idle_no_corruption [OF assms(1)]])
  fix x assume x: "record_idle_in_state clock s g reason owner work details = Inr x"
  obtain e changed s1 where e: "x = (e, changed, s1)" by (cases x)
  from record_idle_inv [OF x [unfolded e] assms(1,3,4,5)] have "sched_inv s1" by simp
  with assms(2) show "sound (case x of (e, changed, s1) \<Rightarrow>
      bindE (commit_if (registered \<or> changed) s0 s1) (\<lambda>s2. Inr (f e, s2)))"
    by (simp add: e sound_commit_if)
qed

text \<open>The body of \<open>claim\<close> after the checks, for an idle GPU that is not halted.\<close>

lemma claim_next_unfold:
  "claim_next clock s0 g owner =
    bindE (require_identifier g) (\<lambda>_. bindE (require_identifier owner) (\<lambda>_.
    bindE (validate_or_register_gpu s0 g) (\<lambda>(s, registered).
    (case dget (sc_claims s) g of
       Some active \<Rightarrow> if cl_owner_id active = owner then Inr (Some active, s0) else Inl GpuBusyError
     | None \<Rightarrow>
       (case halt_reason s g of
          Some why \<Rightarrow>
            bindE (record_idle_in_state clock s g SAFETY_HALT None None [(''reason'', JStr why)])
              (\<lambda>(_, changed, s1). bindE (commit_if (registered \<or> changed) s0 s1) (\<lambda>s2. Inr (None, s2)))
        | None \<Rightarrow>
          (case runnable s g of
             [] \<Rightarrow> bindE (record_idle_in_state clock s g NO_RUNNABLE_WORK None None
                   [(''queued_work'', JInt (int (length (filter (\<lambda>r. wr_state r = QUEUED) (dvals (sc_work s))))))])
                 (\<lambda>(_, changed, s1). bindE (commit_if (registered \<or> changed) s0 s1) (\<lambda>s2. Inr (None, s2)))
           | r # rs \<Rightarrow> bindE (read_clock (clock (sc_next_sequence s))) (\<lambda>t.
               let sel = min_by work_priority_key r rs; c = new_claim s g owner t sel
               in bindE (commit (claimed_state s g sel c)) (\<lambda>s2. Inr (Some c, s2)))))))))"
  unfolding claim_next_def allocate_sequence_def Let_def prod.case new_claim_def claimed_state_def
    claim_name_def by (simp cong: option.case_cong list.case_cong)

lemma claim_next_sound:
  assumes "sched_inv s0"
  shows "sound (claim_next clock s0 g owner)"
  unfolding claim_next_unfold
proof (intro sound_bind, goal_cases)
  case (4 g' owner' x)
  then have id: "ident g" "ident owner" by auto
  obtain s b where x: "x = (s, b)" by (cases x)
  with 4 have reg: "validate_or_register_gpu s0 g = Inr (s, b)" by simp
  from register_inv [OF assms id(1) reg] have inv: "sched_inv s" .
  have g: "g \<in> set (sc_gpu_ids s)" using register_frame(1) [OF reg] .
  show ?case
  proof (cases "dget (sc_claims s) g")
    case (Some c)
    with assms show ?thesis by (simp add: x)
  next
    case free: None
    have idle: "sound (bindE (record_idle_in_state clock s g reason None None details)
        (\<lambda>(_, changed, s1). bindE (commit_if (b \<or> changed) s0 s1) (\<lambda>s2. Inr (None, s2))))"
      for reason details by (rule sound_idle [OF inv assms g, where f = "\<lambda>_. None"]) simp_all
    have new: "sound (bindE (commit (claimed_state s g sel c)) (\<lambda>s2. Inr (Some c, s2)))"
      if "runnable s g = r # rs" "isfinite t" "sel = min_by work_priority_key r rs"
        "c = new_claim s g owner t sel" for r rs t sel c
    proof -
      have "sel \<in> set (runnable s g)" using that(1,3) min_by_in by metis
      from claimed_state_inv [OF inv g id that(2) this free] that(4) show ?thesis
        by (simp add: sound_commit)
    qed
    show ?thesis
    proof (cases "halt_reason s g")
      case (Some why)
      with idle show ?thesis by (simp add: x free)
    next
      case None
      show ?thesis
      proof (cases "runnable s g")
        case Nil
        with None idle show ?thesis by (simp add: x free)
      next
        case (Cons r rs)
        have "sound (bindE (read_clock (clock (sc_next_sequence s))) (\<lambda>t.
            let sel = min_by work_priority_key r rs; c = new_claim s g owner t sel
            in bindE (commit (claimed_state s g sel c)) (\<lambda>s2. Inr (Some c, s2))))"
          unfolding Let_def by (intro sound_bind new [OF Cons]) simp_all
        with None Cons show ?thesis by (simp add: x free)
      qed
    qed
  qed
qed auto

subsection \<open>Releasing\<close>

lemma dget_map_vals: "dget (map (\<lambda>(k, v). (k, f v)) d) k = map_option f (dget d k)"
  by (induction d) (auto simp: dget_def)

lemma dict_ok_map_vals [simp]: "dict_ok (map (\<lambda>(k, v). (k, f v)) d) = dict_ok d"
  by (simp add: dict_ok_def comp_def split_beta)

definition new_release :: "sched \<Rightarrow> claim \<Rightarrow> ReleaseOutcome \<Rightarrow> pyfloat \<Rightarrow> release_record" where
  "new_release s c outcome t = \<lparr>rr_release_id = ''release-'' @ fmt_0d 20 (sc_next_sequence s),
     rr_claim_id = cl_claim_id c, rr_work_id = cl_work_id c, rr_gpu_id = cl_gpu_id c,
     rr_owner_id = cl_owner_id c, rr_outcome = outcome, rr_released_at = t,
     rr_sequence = sc_next_sequence s\<rparr>"

text \<open>The state after claim \<open>c\<close> is released, before idle telemetry and the commit.\<close>

definition freed_state :: "sched \<Rightarrow> claim \<Rightarrow> work_record \<Rightarrow> ReleaseOutcome \<Rightarrow> pyfloat \<Rightarrow> sched" where
  "freed_state s c r outcome t = s\<lparr>sc_next_sequence := sc_next_sequence s + 1,
     sc_work := dset (sc_work s) (cl_work_id c) (r\<lparr>wr_state := released_state outcome,
        wr_active_claim_id := None, wr_last_release := Some (new_release s c outcome t)\<rparr>),
     sc_claims := ddel (sc_claims s) (cl_gpu_id c),
     sc_preemptions := map (\<lambda>(k, p). (k, reach_boundary (cl_claim_id c) t p)) (sc_preemptions s)\<rparr>"

lemma released_not_claimed [simp]: "released_state oc \<noteq> W_CLAIMED"
  by (cases oc) simp_all

lemma freed_claims:
  assumes "inv_claims G n W C" "inv_unique C" "dget C g = Some c" "n \<le> n'"
  shows "inv_claims G n' (dset W (cl_work_id c) r) (ddel C g)"
  unfolding inv_claims_def
proof (rule conjI, use inv_dict_oks(2) [OF assms(1)] in simp, intro allI impI)
  fix h d assume "dget (ddel C g) h = Some d"
  then have d: "dget C h = Some d" "h \<noteq> g" by (auto simp: dget_ddel split: if_splits)
  with assms(2,3) have "cl_work_id d \<noteq> cl_work_id c" unfolding inv_unique_def by blast
  then show "claim_ok d \<and> cl_gpu_id d = h \<and> h \<in> G \<and> cl_sequence d < n'
     \<and> cl_claim_id d = claim_name (cl_sequence d)
     \<and> (\<exists>x. dget (dset W (cl_work_id c) r) (cl_work_id d) = Some x \<and> wr_state x = W_CLAIMED
          \<and> wr_active_claim_id x = Some (cl_claim_id d) \<and> is_eligible (wr_item x) h)"
    using assms(4) inv_claimsD [OF assms(1) d(1)] by (metis dget_dset dual_order.strict_trans1)
qed

lemma freed_claimed:
  assumes "inv_claimed W C" "dget C g = Some c" "wr_state r \<noteq> W_CLAIMED" "wr_active_claim_id r = None"
  shows "inv_claimed (dset W (cl_work_id c) r) (ddel C g)"
  unfolding inv_claimed_def
proof (intro allI impI)
  fix v x assume x: "dget (dset W (cl_work_id c) r) v = Some x"
  show "if wr_state x = W_CLAIMED then \<exists>h d. dget (ddel C g) h = Some d \<and> cl_work_id d = v
          \<and> wr_active_claim_id x = Some (cl_claim_id d)
      else wr_active_claim_id x = None"
  proof (cases "v = cl_work_id c")
    case True
    with x assms show ?thesis by (simp add: dget_dset)
  next
    case False
    with x have "dget W v = Some x" by (simp add: dget_dset)
    with assms(1) have "if wr_state x = W_CLAIMED then \<exists>h d. dget C h = Some d \<and> cl_work_id d = v
          \<and> wr_active_claim_id x = Some (cl_claim_id d) else wr_active_claim_id x = None"
      unfolding inv_claimed_def by blast
    moreover have "dget (ddel C g) h = Some d" if "dget C h = Some d" "cl_work_id d = v" for h d
      using that assms(2) False by (auto simp: dget_ddel)
    ultimately show ?thesis by (metis (full_types))
  qed
qed

lemma reach_boundary_fields [simp]:
  "pq_request_id (reach_boundary i t p) = pq_request_id p" "pq_gpu_id (reach_boundary i t p) = pq_gpu_id p"
  "pq_sequence (reach_boundary i t p) = pq_sequence p" "pq_claim_id (reach_boundary i t p) = pq_claim_id p"
  "pq_running_work_id (reach_boundary i t p) = pq_running_work_id p"
  "pq_requested_for_work_id (reach_boundary i t p) = pq_requested_for_work_id p"
  "pq_status (reach_boundary i t p) = PENDING \<longleftrightarrow> pq_status p = PENDING \<and> pq_claim_id p \<noteq> i"
  by (auto simp: reach_boundary_def)

lemma reach_boundary_ok: "preemption_ok p \<Longrightarrow> isfinite t \<Longrightarrow> preemption_ok (reach_boundary i t p)"
  by (auto simp: reach_boundary_def preemption_ok_def)

lemma freed_preempt:
  assumes "inv_preempt G n W C P" "n \<le> n'" "isfinite t" "dget C g = Some c"
    and W: "\<forall>w r. dget W w = Some r \<longrightarrow> (\<exists>r'. dget W' w = Some r' \<and> wr_item r' = wr_item r)"
  shows "inv_preempt G n' W' (ddel C g) (map (\<lambda>(k, p). (k, reach_boundary (cl_claim_id c) t p)) P)"
  unfolding inv_preempt_def
proof (rule conjI, use inv_dict_oks(3) [OF assms(1)] in simp, intro allI impI)
  fix k q assume "dget (map (\<lambda>(k, p). (k, reach_boundary (cl_claim_id c) t p)) P) k = Some q"
  then obtain p where p: "dget P k = Some p" "q = reach_boundary (cl_claim_id c) t p"
    by (auto simp: dget_map_vals)
  from assms(1) p(1) have i: "preemption_ok p" "k = pq_request_id p" "pq_gpu_id p \<in> G" "pq_sequence p < n"
    "dget W (pq_running_work_id p) \<noteq> None" "dget W (pq_requested_for_work_id p) \<noteq> None"
    "pq_status p = PENDING \<longrightarrow> (\<exists>c r. dget C (pq_gpu_id p) = Some c \<and> cl_claim_id c = pq_claim_id p
          \<and> cl_work_id c = pq_running_work_id p \<and> dget W (pq_running_work_id p) = Some r
          \<and> wi_preemptible (wr_item r))"
    unfolding inv_preempt_def by blast+
  have "pq_status q = PENDING \<longrightarrow> (\<exists>c r. dget (ddel C g) (pq_gpu_id q) = Some c \<and> cl_claim_id c = pq_claim_id q
      \<and> cl_work_id c = pq_running_work_id q \<and> dget W' (pq_running_work_id q) = Some r
      \<and> wi_preemptible (wr_item r))"
    using i(7) W assms(4) unfolding p(2) reach_boundary_fields dget_ddel by (metis option.inject)
  moreover have "dget W' (pq_running_work_id q) \<noteq> None" "dget W' (pq_requested_for_work_id q) \<noteq> None"
    using i(5,6) W unfolding p(2) reach_boundary_fields by fastforce+
  ultimately show "preemption_ok q \<and> k = pq_request_id q \<and> pq_gpu_id q \<in> G \<and> pq_sequence q < n'
     \<and> dget W' (pq_running_work_id q) \<noteq> None \<and> dget W' (pq_requested_for_work_id q) \<noteq> None
     \<and> (pq_status q = PENDING \<longrightarrow> (\<exists>c r. dget (ddel C g) (pq_gpu_id q) = Some c
          \<and> cl_claim_id c = pq_claim_id q \<and> cl_work_id c = pq_running_work_id q
          \<and> dget W' (pq_running_work_id q) = Some r \<and> wi_preemptible (wr_item r)))"
    using i(1-4) assms(2,3) by (auto simp: p(2) reach_boundary_ok)
qed

lemma inv_unique_del: "inv_unique C \<Longrightarrow> inv_unique (ddel C g)"
  unfolding inv_unique_def dget_ddel by (metis option.distinct(1))

lemma freed_state_inv:
  assumes inv: "sched_inv s" and c: "dget (sc_claims s) g = Some c" and t: "isfinite t"
    and r: "dget (sc_work s) (cl_work_id c) = Some r"
  shows "sched_inv (freed_state s c r outcome t)"
proof -
  let ?n = "sc_next_sequence s" and ?G = "set (sc_gpu_ids s)"
  let ?r = "r\<lparr>wr_state := released_state outcome, wr_active_claim_id := None,
    wr_last_release := Some (new_release s c outcome t)\<rparr>"
  from inv have i: "0 \<le> sc_revision s" "1 \<le> ?n" "valid_gpus s" "inv_work ?G ?n (sc_work s)"
    "inv_claims ?G ?n (sc_work s) (sc_claims s)" "inv_unique (sc_claims s)"
    "inv_claimed (sc_work s) (sc_claims s)"
    "inv_preempt ?G ?n (sc_work s) (sc_claims s) (sc_preemptions s)"
    "inv_idle ?G ?n (sc_idle_events s) (sc_idle s)"
    "inv_halts ?G (sc_safety_halt s) (sc_gpu_halts s)" by (simp_all add: sched_inv_def)
  from i(5) c have okc: "claim_ok c" "cl_gpu_id c = g" by (auto elim: inv_claimsD)
  have "release_ok (new_release s c outcome t)"
    using okc t i(2) ident_generated(3) [of ?n] by (simp add: release_ok_def claim_ok_def new_release_def)
  with i(4) r have okr: "work_record_ok ?r" by (auto simp: inv_work_def work_record_ok_def)
  have W: "inv_work ?G (?n + 1) (dset (sc_work s) (cl_work_id c) ?r)"
    by (rule work_update_inv [OF i(4) r _ _ okr]) (simp_all add: new_release_def)
  have C: "inv_claims ?G (?n + 1) (dset (sc_work s) (cl_work_id c) ?r) (ddel (sc_claims s) g)"
    by (rule freed_claims [OF i(5,6) c]) simp
  have D: "inv_claimed (dset (sc_work s) (cl_work_id c) ?r) (ddel (sc_claims s) g)"
    by (rule freed_claimed [OF i(7) c]) simp_all
  have P: "inv_preempt ?G (?n + 1) (dset (sc_work s) (cl_work_id c) ?r) (ddel (sc_claims s) g)
      (map (\<lambda>(k, p). (k, reach_boundary (cl_claim_id c) t p)) (sc_preemptions s))"
    by (rule freed_preempt [OF i(8) _ t c]) (use r in \<open>auto simp: dget_dset\<close>)
  from W C D P inv_unique_del [OF i(6)] inv_idle_mono [OF i(9) order_refl] i okc(2) show ?thesis
    by (simp add: sched_inv_def freed_state_def valid_gpus_def)
qed

text \<open>The telemetry of a release: a requeue that honours a preemption records its boundary.\<close>

definition release_idle :: "(int \<Rightarrow> pyfloat) \<Rightarrow> sched \<Rightarrow> claim \<Rightarrow> bool \<Rightarrow> IdleReason option \<Rightarrow> jobj
    \<Rightarrow> serror + sched" where
  "release_idle clock s c boundary idle0 details =
    (case (if boundary then Some CHECKPOINT_BOUNDARY else idle0) of
       None \<Rightarrow> Inr s
     | Some why \<Rightarrow> bindE (record_idle_in_state clock s (cl_gpu_id c) why (Some (cl_owner_id c))
           (Some (cl_work_id c)) (if boundary then [(''claim_id'', JStr (cl_claim_id c)),
             (''work_id'', JStr (cl_work_id c))] else details)) (\<lambda>(_, _, s'). Inr s'))"

definition preempted :: "sched \<Rightarrow> claim \<Rightarrow> bool" where
  "preempted s c \<longleftrightarrow> list_ex (\<lambda>p. pq_claim_id p = cl_claim_id c \<and> pq_status p = PENDING)
     (dvals (sc_preemptions s))"

lemma release_active:
  assumes "dget (sc_claims s) g = Some c" "cl_gpu_id c = g" "dget (sc_work s) (cl_work_id c) = Some r"
    and "g \<in> set (sc_gpu_ids s)"
  shows "release clock s g owner work expected outcome0 requeue idle0 details0 =
    bindE (require_identifier owner) (\<lambda>_.
    if \<not> opt_all ident work then Inl ValueErrorS
    else bindE (effective_outcome outcome0 requeue) (\<lambda>outcome.
    bindE (json_object details0) (\<lambda>details.
      if cl_owner_id c \<noteq> owner then Inl GpuBusyError
      else if work \<noteq> None \<and> work \<noteq> Some (cl_work_id c) then Inl SchedulerConflictError
      else if expected \<noteq> None \<and> expected \<noteq> Some (cl_claim_id c) then Inl SchedulerConflictError
      else bindE (read_clock (clock (sc_next_sequence s))) (\<lambda>t.
        bindE (release_idle clock (freed_state s c r outcome t) c
            (idle0 = None \<and> preempted s c \<and> outcome = REQUEUE) idle0 details) (\<lambda>s3.
          bindE (commit s3) (\<lambda>s4. Inr (new_release s c outcome t, s4)))))))"
  unfolding release_def validate_known_gpu_def release_idle_def
  by (intro bindE_cong refl) (auto simp: assms Let_def allocate_sequence_def freed_state_def preempted_def
      new_release_def cong: option.case_cong intro!: bindE_cong)

lemma release_idle_sound:
  assumes "sched_inv s" "claim_ok c" "cl_gpu_id c \<in> set (sc_gpu_ids s)"
  shows "release_idle clock s c boundary idle0 details \<noteq> Inl SchedulerStateError"
    "release_idle clock s c boundary idle0 details = Inr s' \<Longrightarrow> sched_inv s' \<and> idle_frame s s'"
proof -
  show "release_idle clock s c boundary idle0 details \<noteq> Inl SchedulerStateError"
    unfolding release_idle_def
    by (auto simp: bindE_Inl record_idle_no_corruption [OF assms(1)] split: option.splits)
  assume a: "release_idle clock s c boundary idle0 details = Inr s'"
  have id: "opt_all ident (Some (cl_owner_id c))" "opt_all ident (Some (cl_work_id c))"
    using assms(2) by (simp_all add: claim_ok_def)
  show "sched_inv s' \<and> idle_frame s s'"
  proof (cases "if boundary then Some CHECKPOINT_BOUNDARY else idle0")
    case None
    with a assms(1) show ?thesis by (simp add: release_idle_def)
  next
    case (Some why)
    with a obtain e ch where "record_idle_in_state clock s (cl_gpu_id c) why (Some (cl_owner_id c))
           (Some (cl_work_id c)) (if boundary then [(''claim_id'', JStr (cl_claim_id c)),
             (''work_id'', JStr (cl_work_id c))] else details) = Inr (e, ch, s')"
      unfolding release_idle_def Some option.case by (auto simp: bindE_Inr simp del: opt_all.simps)
    from record_idle_inv [OF this assms(1,3) id] show ?thesis by simp
  qed
qed

lemma inv_claim_get:
  assumes "sched_inv s" "dget (sc_claims s) g = Some c"
  obtains r where "claim_ok c" "cl_gpu_id c = g" "g \<in> set (sc_gpu_ids s)"
    "dget (sc_work s) (cl_work_id c) = Some r" "wr_state r = W_CLAIMED"
    "wr_active_claim_id r = Some (cl_claim_id c)" "is_eligible (wr_item r) g"
proof -
  from assms(1) have "inv_claims (set (sc_gpu_ids s)) (sc_next_sequence s) (sc_work s) (sc_claims s)"
    by (simp add: sched_inv_def)
  from inv_claimsD [OF this assms(2)] that show ?thesis by metis
qed

lemma release_sound:
  assumes inv: "sched_inv s"
  shows "sound (release clock s g owner work expected outcome0 requeue idle0 details0)"
proof (cases "dget (sc_claims s) g")
  case None
  with inv show ?thesis unfolding release_def
    by (intro sound_bind) (auto split: option.splits if_splits intro!: sound_bind)
next
  case (Some c)
  from inv_claim_get [OF inv Some] obtain r where c: "claim_ok c" "cl_gpu_id c = g"
    "g \<in> set (sc_gpu_ids s)" "dget (sc_work s) (cl_work_id c) = Some r" by blast
  have f: "sched_inv (freed_state s c r outcome t)" if "isfinite t" for outcome t
    using freed_state_inv [OF inv Some that c(4)] .
  have g: "cl_gpu_id c \<in> set (sc_gpu_ids (freed_state s c r outcome t))" for outcome t
    using c(2,3) by (simp add: freed_state_def)
  show ?thesis unfolding release_active [OF Some c(2,4,3)]
    by (auto intro!: sound_bind sound_commit release_idle_sound(1) [OF f c(1) g]
        dest!: release_idle_sound(2) [OF f c(1) g])
qed

section \<open>Preemption requests\<close>

lemma inv_preempt_add:
  assumes "inv_preempt G n W C P" "preemption_ok p" "pq_gpu_id p \<in> G" "pq_sequence p = n"
    "dget C (pq_gpu_id p) = Some c" "cl_claim_id c = pq_claim_id p" "cl_work_id c = pq_running_work_id p"
    "dget W (pq_running_work_id p) = Some r" "wi_preemptible (wr_item r)"
    "dget W (pq_requested_for_work_id p) \<noteq> None"
  shows "inv_preempt G (n + 1) W C (dset P (pq_request_id p) p)"
proof -
  from inv_preempt_mono [OF assms(1) order_refl, of "n + 1"] have i: "inv_preempt G (n + 1) W C P" by simp
  show ?thesis unfolding inv_preempt_def
  proof (rule conjI, use inv_dict_oks(3) [OF i] in simp, intro allI impI)
    fix k q assume "dget (dset P (pq_request_id p) p) k = Some q"
    then consider "k = pq_request_id p" "q = p" | "dget P k = Some q"
      unfolding dget_dset by (metis option.inject)
    then show "preemption_ok q \<and> k = pq_request_id q \<and> pq_gpu_id q \<in> G \<and> pq_sequence q < n + 1
       \<and> dget W (pq_running_work_id q) \<noteq> None \<and> dget W (pq_requested_for_work_id q) \<noteq> None
       \<and> (pq_status q = PENDING \<longrightarrow> (\<exists>c r. dget C (pq_gpu_id q) = Some c \<and> cl_claim_id c = pq_claim_id q
            \<and> cl_work_id c = pq_running_work_id q \<and> dget W (pq_running_work_id q) = Some r
            \<and> wi_preemptible (wr_item r)))"
    proof cases
      case 1
      have "\<exists>c r. dget C (pq_gpu_id p) = Some c \<and> cl_claim_id c = pq_claim_id p
            \<and> cl_work_id c = pq_running_work_id p \<and> dget W (pq_running_work_id p) = Some r
            \<and> wi_preemptible (wr_item r)" using assms(5-9) by blast
      with 1 assms(2-4,8,10) show ?thesis by simp
    next
      case 2
      with i show ?thesis unfolding inv_preempt_def by blast
    qed
  qed
qed

lemma preemption_target_Inr:
  assumes "sched_inv s" "preemption_target s g running for_work = Inr (Some r)"
  shows "dget (sc_work s) (wi_work_id (wr_item r)) = Some r" "wr_state r = QUEUED"
    "is_eligible (wr_item r) g"
    "priority_class_key (wi_kind (wr_item r)) < priority_class_key (wi_kind (wr_item running))"
proof -
  have w: "wi_work_id (wr_item r) = w" if "dget (sc_work s) w = Some r" for w
    using assms(1) that by (auto simp: sched_inv_def inv_work_def)
  have "r \<in> set (runnable s g) \<and>
      priority_class_key (wi_kind (wr_item r)) < priority_class_key (wi_kind (wr_item running))"
  proof (cases for_work)
    case None
    with assms(2) obtain x xs where "higher_priority s g running = x # xs" "r = min_by work_priority_key x xs"
      by (auto simp: preemption_target_def split: list.splits)
    then have "r \<in> set (higher_priority s g running)" using min_by_in by metis
    then show ?thesis by (simp add: higher_priority_def)
  next
    case (Some w')
    with assms w show ?thesis
      by (auto simp: preemption_target_def runnable_iff not_le split: option.splits if_splits)
  qed
  then show "dget (sc_work s) (wi_work_id (wr_item r)) = Some r" "wr_state r = QUEUED"
    "is_eligible (wr_item r) g"
    "priority_class_key (wi_kind (wr_item r)) < priority_class_key (wi_kind (wr_item running))"
    using runnable_iff [OF assms(1)] by auto
qed

definition new_preemption :: "sched \<Rightarrow> claim \<Rightarrow> work_record \<Rightarrow> string \<Rightarrow> string \<Rightarrow> pyfloat
    \<Rightarrow> preemption_request" where
  "new_preemption s c r requested_by reason t = \<lparr>
     pq_request_id = ''preempt-'' @ fmt_0d 20 (sc_next_sequence s), pq_gpu_id = cl_gpu_id c,
     pq_claim_id = cl_claim_id c, pq_running_work_id = cl_work_id c,
     pq_requested_for_work_id = wi_work_id (wr_item r), pq_requested_by = requested_by,
     pq_reason = reason, pq_requested_at = t, pq_sequence = sc_next_sequence s, pq_status = PENDING,
     pq_boundary_at = None\<rparr>"

definition requested_state :: "sched \<Rightarrow> preemption_request \<Rightarrow> sched" where
  "requested_state s p = s\<lparr>sc_next_sequence := sc_next_sequence s + 1,
     sc_preemptions := dset (sc_preemptions s) (pq_request_id p) p\<rparr>"

lemma requested_state_inv:
  assumes inv: "sched_inv s" and c: "dget (sc_claims s) g = Some c"
    and run: "dget (sc_work s) (cl_work_id c) = Some running" "wi_preemptible (wr_item running)"
    and r: "dget (sc_work s) (wi_work_id (wr_item r)) = Some r"
    and id: "ident by" "ident reason" "isfinite t"
  shows "sched_inv (requested_state s (new_preemption s c r by reason t))"
proof -
  let ?n = "sc_next_sequence s" and ?G = "set (sc_gpu_ids s)" and ?p = "new_preemption s c r by reason t"
  from inv have i: "0 \<le> sc_revision s" "1 \<le> ?n" "valid_gpus s" "inv_work ?G ?n (sc_work s)"
    "inv_claims ?G ?n (sc_work s) (sc_claims s)" "inv_unique (sc_claims s)"
    "inv_claimed (sc_work s) (sc_claims s)"
    "inv_preempt ?G ?n (sc_work s) (sc_claims s) (sc_preemptions s)"
    "inv_idle ?G ?n (sc_idle_events s) (sc_idle s)"
    "inv_halts ?G (sc_safety_halt s) (sc_gpu_halts s)" by (simp_all add: sched_inv_def)
  from inv_claim_get [OF inv c] have okc: "claim_ok c" "cl_gpu_id c = g" "g \<in> ?G" by blast+
  have "work_record_ok r" using i(4) r unfolding inv_work_def by blast
  then have "ident (wi_work_id (wr_item r))" by (simp add: work_record_ok_def work_item_ok_def)
  with okc id i(2) ident_generated(4) [of ?n] have okp: "preemption_ok ?p"
    by (simp add: preemption_ok_def new_preemption_def claim_ok_def)
  have "inv_preempt ?G (?n + 1) (sc_work s) (sc_claims s) (dset (sc_preemptions s) (pq_request_id ?p) ?p)"
    by (rule inv_preempt_add [OF i(8) okp]) (use c run r okc in \<open>simp_all add: new_preemption_def\<close>)
  with i inv_work_mono [OF i(4) order_refl, of "?n + 1"] inv_claims_mono [OF i(5) order_refl, of "?n + 1"]
    inv_idle_mono [OF i(9) order_refl, of "?n + 1"] show ?thesis
    by (simp add: sched_inv_def requested_state_def valid_gpus_def)
qed

lemma request_preemption_unfold:
  assumes "dget (sc_claims s) g = Some c" "cl_gpu_id c = g" "dget (sc_work s) (cl_work_id c) = Some running"
    "wi_work_id (wr_item running) = cl_work_id c" "g \<in> set (sc_gpu_ids s)"
  shows "request_preemption clock s g by for_work reason =
    bindE (require_identifier g) (\<lambda>_. bindE (require_identifier by) (\<lambda>_.
    bindE (require_identifier reason) (\<lambda>_.
    if \<not> opt_all ident for_work then Inl ValueErrorS
    else if \<not> wi_preemptible (wr_item running) then Inr (None, s)
    else bindE (preemption_target s g running for_work) (\<lambda>target.
      (case target of
         None \<Rightarrow> Inr (None, s)
       | Some r \<Rightarrow>
         (case find (\<lambda>p. pq_status p = PENDING \<and> pq_claim_id p = cl_claim_id c
                  \<and> pq_requested_for_work_id p = wi_work_id (wr_item r)) (dvals (sc_preemptions s)) of
            Some existing \<Rightarrow> Inr (Some existing, s)
          | None \<Rightarrow> bindE (read_clock (clock (sc_next_sequence s))) (\<lambda>t.
              let p = new_preemption s c r by reason t
              in bindE (commit (requested_state s p)) (\<lambda>s2. Inr (Some p, s2)))))))))"
  unfolding request_preemption_def validate_known_gpu_def
  by (intro bindE_cong refl) (auto simp: assms Let_def allocate_sequence_def new_preemption_def
      requested_state_def cong: option.case_cong intro!: bindE_cong)

lemma request_preemption_sound:
  assumes inv: "sched_inv s"
  shows "sound (request_preemption clock s g by for_work reason)"
proof (cases "dget (sc_claims s) g")
  case None
  with inv show ?thesis unfolding request_preemption_def
    by (auto intro!: sound_bind)
next
  case (Some c)
  from inv_claim_get [OF inv Some] obtain run where c: "claim_ok c" "cl_gpu_id c = g"
    "g \<in> set (sc_gpu_ids s)" "dget (sc_work s) (cl_work_id c) = Some run" by blast
  from inv c(4) have w: "wi_work_id (wr_item run) = cl_work_id c"
    by (auto simp: sched_inv_def inv_work_def)
  have t: "preemption_target s g run for_work \<noteq> Inl SchedulerStateError"
    by (auto simp: preemption_target_def split: option.splits)
  have new: "sched_inv (requested_state s (new_preemption s c r by reason t))"
    if "ident by" "ident reason" "isfinite t" "wi_preemptible (wr_item run)"
      "preemption_target s g run for_work = Inr (Some r)" for r t
    using requested_state_inv [OF inv Some c(4) that(4) preemption_target_Inr(1) [OF inv that(5)] that(1-3)] .
  show ?thesis unfolding request_preemption_unfold [OF Some c(2,4) w c(3)] Let_def
    by (auto intro!: sound_bind t split: option.splits simp: inv new commit_ok sealed_inv)
qed

end
