(* ===== verification/Scheduler_Machine.thy ===== *)
theory Scheduler_Machine
  imports Scheduler_Ops
begin

text \<open>
  The scheduler as a machine: soundness of the remaining operations, one step per public call, and
  the interpretation of the fallible machine on them.
\<close>

section \<open>Telemetry and safety halts\<close>

lemma record_idle_sound:
  assumes inv: "sched_inv s0"
  shows "sound (record_idle clock s0 g reason owner work details)"
  unfolding record_idle_def
proof (intro sound_bind, goal_cases)
  case (2 g')
  then have g: "ident g" by simp
  show ?case
  proof (cases "opt_all ident owner \<and> opt_all ident work")
    case True
    have body: "sound (case x of (s, registered) \<Rightarrow>
        bindE (record_idle_in_state clock s g reason owner work d) (\<lambda>(e, changed, s1).
          bindE (commit_if (registered \<or> changed) s0 s1) (\<lambda>s2. Inr (e, s2))))"
      if "validate_or_register_gpu s0 g = Inr x" for x d
    proof -
      obtain s b where x: "x = (s, b)" by (cases x)
      with that have reg: "validate_or_register_gpu s0 g = Inr (s, b)" by simp
      show ?thesis unfolding x prod.case
        by (rule sound_idle [OF register_inv [OF inv g reg] inv register_frame(1) [OF reg], where f = "\<lambda>e. e"])
          (use True in simp_all)
    qed
    have "sound (bindE (json_object details) (\<lambda>d. bindE (validate_or_register_gpu s0 g)
        (\<lambda>(s, registered). bindE (record_idle_in_state clock s g reason owner work d)
        (\<lambda>(e, changed, s1). bindE (commit_if (registered \<or> changed) s0 s1) (\<lambda>s2. Inr (e, s2))))))"
      by (intro sound_bind body) simp_all
    with True show ?thesis by simp
  qed auto
qed simp

lemma idle_all_sound:
  assumes "sched_inv s" "set gs \<subseteq> set (sc_gpu_ids s)"
  shows "idle_all clock reason gs (b, s) \<noteq> Inl SchedulerStateError
    \<and> (\<forall>b' s'. idle_all clock reason gs (b, s) = Inr (b', s') \<longrightarrow>
         sched_inv s' \<and> idle_frame s s' \<and> (\<not> b' \<longrightarrow> \<not> b \<and> s' = s))"
  using assms
proof (induction gs arbitrary: b s)
  case (Cons g gs)
  show ?case
  proof (cases "dget (sc_claims s) g")
    case (Some c)
    with Cons.IH [of s b] Cons.prems show ?thesis by (simp, blast)
  next
    case None
    let ?rec = "record_idle_in_state clock s g SAFETY_HALT None None [(''reason'', JStr reason)]"
    show ?thesis
    proof (cases ?rec)
      case (Inl e)
      with None record_idle_no_corruption [OF Cons.prems(1)] show ?thesis by force
    next
      case (Inr x)
      obtain e new s1 where x: "x = (e, new, s1)" by (cases x)
      from record_idle_inv [OF Inr [unfolded x] Cons.prems(1)] Cons.prems(2)
      have s1: "sched_inv s1" "idle_frame s s1" "\<not> new \<longrightarrow> s1 = s" by simp_all
      from s1(2) Cons.prems(2) have "set gs \<subseteq> set (sc_gpu_ids s1)" by (simp add: idle_frame_def)
      from Cons.IH [OF s1(1) this, of "b \<or> new"] None Inr x s1(2,3) show ?thesis
        by (auto dest: idle_frame_trans)
    qed
  qed
qed simp

lemma halt_set_inv:
  assumes "sched_inv s" "ident reason" "isfinite t"
  shows "sched_inv (s\<lparr>sc_safety_halt := Some \<lparr>ha_reason = reason, ha_set_at = t\<rparr>\<rparr>)"
    "g \<in> set (sc_gpu_ids s) \<Longrightarrow>
       sched_inv (s\<lparr>sc_gpu_halts := dset (sc_gpu_halts s) g \<lparr>ha_reason = reason, ha_set_at = t\<rparr>\<rparr>)"
  using assms by (auto simp: sched_inv_def inv_halts_def valid_gpus_def validate_halt_def dget_dset)

lemma halt_clear_inv:
  assumes "sched_inv s"
  shows "sched_inv (s\<lparr>sc_safety_halt := None\<rparr>)" "sched_inv (s\<lparr>sc_gpu_halts := ddel (sc_gpu_halts s) g\<rparr>)"
  using assms by (auto simp: sched_inv_def inv_halts_def valid_gpus_def dget_ddel split: if_splits)

lemma commit_if_ok:
  "sched_inv s \<Longrightarrow> sched_inv s' \<Longrightarrow> commit_if b s s' \<noteq> Inl SchedulerStateError
     \<and> (\<forall>t. commit_if b s s' = Inr t \<longrightarrow> sched_inv t)"
  by (auto simp: commit_if_def commit_ok sealed_inv)

text \<open>Soundness of operations that return nothing but the state.\<close>

definition sound0 :: "serror + sched \<Rightarrow> bool" where
  "sound0 res \<longleftrightarrow> res \<noteq> Inl SchedulerStateError \<and> (\<forall>s. res = Inr s \<longrightarrow> sched_inv s)"

lemma sound0_simps [simp]:
  "sound0 (Inl e) \<longleftrightarrow> e \<noteq> SchedulerStateError"
  "sound0 (Inr s) \<longleftrightarrow> sched_inv s"
  by (auto simp: sound0_def)

lemma sound0_bind: "m \<noteq> Inl SchedulerStateError \<Longrightarrow> (\<And>x. m = Inr x \<Longrightarrow> sound0 (f x)) \<Longrightarrow> sound0 (bindE m f)"
  by (cases m) auto

lemma sound0_commit_if: "sched_inv s \<Longrightarrow> sched_inv s' \<Longrightarrow> sound0 (commit_if b s s')"
  unfolding sound0_def by (rule commit_if_ok)

lemma sound0_idle_all:
  assumes "sched_inv s0" "sched_inv s" "set gs \<subseteq> set (sc_gpu_ids s)"
  shows "sound0 (bindE (idle_all clock reason gs (b, s)) (\<lambda>(changed, s1). commit_if changed s0 s1))"
proof (rule sound0_bind)
  note i = idle_all_sound [OF assms(2,3), of clock reason b]
  show "idle_all clock reason gs (b, s) \<noteq> Inl SchedulerStateError" using i by blast
  fix x assume "idle_all clock reason gs (b, s) = Inr x"
  then show "sound0 (case x of (changed, s1) \<Rightarrow> commit_if changed s0 s1)"
    using i by (cases x) (auto intro: sound0_commit_if [OF assms(1)])
qed

lemma set_safety_halt_global:
  assumes "ident reason"
  shows "set_safety_halt clock now s0 reason None = bindE (read_clock now) (\<lambda>t.
    let fresh = (case sc_safety_halt s0 of None \<Rightarrow> True | Some h \<Rightarrow> ha_reason h \<noteq> reason);
        s = (if fresh then s0\<lparr>sc_safety_halt := Some \<lparr>ha_reason = reason, ha_set_at = t\<rparr>\<rparr> else s0)
    in bindE (idle_all clock reason (sc_gpu_ids s) (fresh, s)) (\<lambda>(changed, s1).
       commit_if changed s0 s1))"
  using assms by (simp only: set_safety_halt_def require_identifier_def if_True bindE_simps option.case
      not_True_eq_False if_False opt_all.simps)

text \<open>A halt of one GPU, after its registration.\<close>

definition halt_gpu :: "(int \<Rightarrow> pyfloat) \<Rightarrow> pyfloat \<Rightarrow> sched \<Rightarrow> string \<Rightarrow> string \<Rightarrow> sched \<times> bool \<Rightarrow> serror + sched" where
  "halt_gpu clock now s0 reason g = (\<lambda>(s, registered).
    let fresh = (case dget (sc_gpu_halts s) g of None \<Rightarrow> True | Some h \<Rightarrow> ha_reason h \<noteq> reason) in
    bindE (if fresh then bindE (read_clock now) (\<lambda>t. Inr (s\<lparr>sc_gpu_halts :=
           dset (sc_gpu_halts s) g \<lparr>ha_reason = reason, ha_set_at = t\<rparr>\<rparr>)) else Inr s) (\<lambda>s'.
      bindE (idle_all clock reason [g] (registered \<or> fresh, s')) (\<lambda>(changed, s1).
        commit_if changed s0 s1)))"

lemma set_safety_halt_gpu:
  assumes "ident reason" "ident g"
  shows "set_safety_halt clock now s0 reason (Some g) =
    bindE (validate_or_register_gpu s0 g) (halt_gpu clock now s0 reason g)"
  using assms by (simp only: set_safety_halt_def halt_gpu_def require_identifier_def if_True bindE_simps
      option.case not_True_eq_False if_False opt_all.simps)

lemma set_safety_halt_sound:
  assumes inv: "sched_inv s0"
  shows "sound0 (set_safety_halt clock now s0 reason gpu)"
proof (cases "ident reason \<and> opt_all ident gpu")
  case False
  then show ?thesis by (auto simp: set_safety_halt_def require_identifier_def)
next
  case True
  show ?thesis
  proof (cases gpu)
    case None
    have body: "sound0 (bindE (idle_all clock reason (sc_gpu_ids s) (fresh, s)) (\<lambda>(changed, s1). commit_if changed s0 s1))"
      if "isfinite t" "s = (if fresh then s0\<lparr>sc_safety_halt := Some \<lparr>ha_reason = reason, ha_set_at = t\<rparr>\<rparr> else s0)"
      for t fresh s using inv that True halt_set_inv(1) [OF inv _ that(1)]
      by (intro sound0_idle_all) auto
    have "set_safety_halt clock now s0 reason gpu = bindE (read_clock now) (\<lambda>t.
           let fresh = (case sc_safety_halt s0 of None \<Rightarrow> True | Some h \<Rightarrow> ha_reason h \<noteq> reason);
               s = (if fresh then s0\<lparr>sc_safety_halt := Some \<lparr>ha_reason = reason, ha_set_at = t\<rparr>\<rparr> else s0)
           in bindE (idle_all clock reason (sc_gpu_ids s) (fresh, s)) (\<lambda>(changed, s1).
              commit_if changed s0 s1))" (is "_ = bindE _ ?body")
      using True unfolding None by (intro set_safety_halt_global) simp
    moreover have "sound0 (bindE (read_clock now) ?body)"
    proof (rule sound0_bind)
      fix t assume "read_clock now = Inr t"
      then show "sound0 (?body t)" unfolding Let_def by (intro body [of t]) simp_all
    qed simp
    ultimately show ?thesis by simp
  next
    case (Some g)
    with True have g: "ident g" by simp
    have "sound0 (halt_gpu clock now s0 reason g x)" if "validate_or_register_gpu s0 g = Inr x" for x
    proof -
      obtain s b where x: "x = (s, b)" by (cases x)
      with that have reg: "validate_or_register_gpu s0 g = Inr (s, b)" by simp
      note s = register_inv [OF inv g reg] register_frame(1) [OF reg]
      have h: "sched_inv s' \<and> sc_gpu_ids s' = sc_gpu_ids s"
        if "(if fresh then bindE (read_clock now) (\<lambda>t. Inr (s\<lparr>sc_gpu_halts :=
                  dset (sc_gpu_halts s) g \<lparr>ha_reason = reason, ha_set_at = t\<rparr>\<rparr>)) else Inr s) = Inr s'" for fresh s'
        using that s True halt_set_inv(2) [OF s(1) _ _ s(2)] by (auto simp: bindE_Inr split: if_splits)
      show ?thesis unfolding x halt_gpu_def prod.case Let_def
        by (intro sound0_bind sound0_idle_all [OF inv]) (use h s in \<open>auto simp: bindE_Inl\<close>)
    qed
    then show ?thesis using True g unfolding Some
      by (simp only: set_safety_halt_gpu) (intro sound0_bind, simp_all)
  qed
qed

lemma clear_safety_halt_sound: "sched_inv s \<Longrightarrow> sound0 (clear_safety_halt s gpu)"
  by (auto simp: clear_safety_halt_def halt_clear_inv split: option.splits
      intro!: sound0_bind sound0_commit_if)

section \<open>Enqueueing\<close>

lemma normalize_gpus_Inr:
  assumes "normalize_gpus gs = Inr (Some xs)"
  shows "list_all ident xs \<and> distinct xs \<and> sorted xs \<and> xs \<noteq> []"
  using assms by (auto simp: normalize_gpus_def list_all_iff split: option.splits if_splits)
    (metis length_0_conv length_sort)

lemma work_item_init_ok:
  assumes "work_item_init wid kind el pre pref payload = Inr w"
  shows "work_item_ok w"
proof -
  from assms obtain xs p where c: "ident wid" "normalize_gpus el = Inr xs" "opt_all ident pref"
    "\<not> (case (pref, xs) of (Some g, Some xs) \<Rightarrow> g \<notin> set xs | _ \<Rightarrow> False)" "json_object payload = Inr p"
    "w = \<lparr>wi_work_id = wid, wi_kind = kind, wi_eligible_gpus = xs, wi_preemptible = pre,
          wi_preferred_gpu = pref, wi_payload = p\<rparr>"
    by (auto simp: work_item_init_def bindE_Inr simp del: opt_all.simps split: if_splits)
  from c(2) have "opt_all (\<lambda>xs. list_all ident xs \<and> distinct xs \<and> sorted xs \<and> xs \<noteq> []) xs"
    by (cases xs) (use normalize_gpus_Inr in auto)
  with c json_object_Inr [OF c(5)] show ?thesis
    by (auto simp: work_item_ok_def split: option.splits)
qed

lemma named_gpus_ok:
  assumes "work_item_ok w"
  shows "list_all ident (named_gpus w)" "item_gpus_ok (set (named_gpus w) \<union> G) w"
  using assms by (auto simp: work_item_ok_def named_gpus_def item_gpus_ok_def list_all_iff split: option.splits)

lemma inv_work_add:
  assumes "inv_work G n W" "work_record_ok r" "item_gpus_ok G (wr_item r)"
    "wr_enqueue_sequence r = n" "wr_last_release r = None"
  shows "inv_work G (n + 1) (dset W (wi_work_id (wr_item r)) r)"
proof -
  from inv_work_mono [OF assms(1) order_refl, of "n + 1"] have "inv_work G (n + 1) W" by simp
  with assms show ?thesis unfolding inv_work_def by (simp add: dget_dset)
qed

lemma inv_claims_add:
  assumes "inv_claims G n W C" "dget W w = None" "n \<le> n'"
  shows "inv_claims G n' (dset W w r) C"
proof -
  have "cl_work_id c \<noteq> w" if "dget C g = Some c" for g c
    using assms(1) that by (rule inv_claimsD) (use assms(2) in auto)
  then have "dget (dset W w r) (cl_work_id c) = dget W (cl_work_id c)" if "dget C g = Some c" for g c
    using that by (simp add: dget_dset)
  with inv_claims_mono [OF assms(1) order_refl assms(3)] show ?thesis
    unfolding inv_claims_def by metis
qed

definition new_record :: "sched \<Rightarrow> work_item \<Rightarrow> work_record" where
  "new_record s item = \<lparr>wr_item = item, wr_state = QUEUED, wr_enqueue_sequence = sc_next_sequence s,
     wr_attempts = 0, wr_active_claim_id = None, wr_last_release = None\<rparr>"

definition enqueued_state :: "sched \<Rightarrow> work_item \<Rightarrow> sched" where
  "enqueued_state s item = s\<lparr>sc_next_sequence := sc_next_sequence s + 1,
     sc_work := dset (sc_work s) (wi_work_id item) (new_record s item)\<rparr>"

lemma enqueued_state_inv:
  assumes inv: "sched_inv s" and item: "work_item_ok item" "item_gpus_ok (set (sc_gpu_ids s)) item"
    and new: "dget (sc_work s) (wi_work_id item) = None"
  shows "sched_inv (enqueued_state s item)"
proof -
  let ?n = "sc_next_sequence s" and ?G = "set (sc_gpu_ids s)" and ?r = "new_record s item"
  let ?W = "dset (sc_work s) (wi_work_id item) ?r"
  from inv have i: "0 \<le> sc_revision s" "1 \<le> ?n" "valid_gpus s" "inv_work ?G ?n (sc_work s)"
    "inv_claims ?G ?n (sc_work s) (sc_claims s)" "inv_unique (sc_claims s)"
    "inv_claimed (sc_work s) (sc_claims s)"
    "inv_preempt ?G ?n (sc_work s) (sc_claims s) (sc_preemptions s)"
    "inv_idle ?G ?n (sc_idle_events s) (sc_idle s)"
    "inv_halts ?G (sc_safety_halt s) (sc_gpu_halts s)" by (simp_all add: sched_inv_def)
  have W: "inv_work ?G (?n + 1) ?W"
    using inv_work_add [OF i(4), of ?r] item i(2) by (simp add: new_record_def work_record_ok_def)
  have C: "inv_claims ?G (?n + 1) ?W (sc_claims s)" using inv_claims_add [OF i(5) new] by simp
  have D: "inv_claimed ?W (sc_claims s)"
    using i(7) unfolding inv_claimed_def dget_dset by (auto simp: new_record_def)
  have P: "inv_preempt ?G (?n + 1) ?W (sc_claims s) (sc_preemptions s)"
    by (rule inv_preempt_update [OF i(8)]) (use new in \<open>auto simp: dget_dset\<close>)
  from W C D P i inv_idle_mono [OF i(9) order_refl, of "?n + 1"] show ?thesis
    by (simp add: sched_inv_def enqueued_state_def valid_gpus_def)
qed

lemma register_gpus_not_corrupt: "register_gpus s gs \<noteq> Inl SchedulerStateError"
  by (induction gs arbitrary: s) (auto simp: bindE_Inl)

lemma enqueue_unfold:
  "enqueue s item =
    (case dget (sc_work s) (wi_work_id item) of
       Some existing \<Rightarrow> if \<not> same_item (wr_item existing) item then Inl SchedulerConflictError else Inr (existing, s)
     | None \<Rightarrow> bindE (register_gpus s (named_gpus item)) (\<lambda>s1.
         bindE (commit (enqueued_state s1 item)) (\<lambda>s3. Inr (new_record s1 item, s3))))"
  by (simp add: enqueue_def allocate_sequence_def enqueued_state_def new_record_def Let_def cong: option.case_cong)

lemma enqueue_sound:
  assumes inv: "sched_inv s" and item: "work_item_ok item"
  shows "sound (enqueue s item)"
proof (cases "dget (sc_work s) (wi_work_id item)")
  case (Some r)
  with inv show ?thesis by (simp add: enqueue_unfold)
next
  case None
  have "sched_inv (enqueued_state s1 item)" if "register_gpus s (named_gpus item) = Inr s1" for s1
  proof -
    from register_gpus_Inr [OF that inv named_gpus_ok(1) [OF item]] have s1: "sched_inv s1"
      "sc_work s1 = sc_work s" "set (sc_gpu_ids s1) = set (named_gpus item) \<union> set (sc_gpu_ids s)"
      by (metis sched.select_convs(5) sched.surjective sched.update_convs(4))+
    with named_gpus_ok(2) [OF item] None item show ?thesis by (intro enqueued_state_inv) simp_all
  qed
  with None show ?thesis unfolding enqueue_unfold
    by (auto intro!: sound_bind simp: register_gpus_not_corrupt commit_ok sealed_inv)
qed

section \<open>The initial state\<close>

lemma new_state_inv:
  assumes "opt_all (\<lambda>xs. list_all ident xs \<and> distinct xs \<and> sorted xs) gpus"
  shows "sched_inv (new_state gpus)"
  using assms by (cases gpus) (auto simp: new_state_def sched_inv_def valid_gpus_def inv_work_def
      inv_claims_def inv_unique_def inv_claimed_def inv_preempt_def inv_idle_def inv_halts_def)

lemma scheduler_open_fresh:
  assumes "normalize_gpus gpus = Inr config"
  shows "scheduler_open gpus None = Inr (new_state config)" "sched_inv (new_state config)"
proof -
  have "opt_all (\<lambda>xs. list_all ident xs \<and> distinct xs \<and> sorted xs) config"
    using assms by (cases config) (auto dest: normalize_gpus_Inr)
  then show i: "sched_inv (new_state config)" by (rule new_state_inv)
  show "scheduler_open gpus None = Inr (new_state config)"
    using assms sched_inv_validates [OF i] by (simp add: scheduler_open_def)
qed

section \<open>The machine\<close>

text \<open>
  One constructor per public operation that may write, with the arguments of the call. A work item
  given to \<open>enqueue\<close> as an object has gone through its constructor.
\<close>

datatype sched_op =
    OpEnqueue string string "string list option" bool "string option" "jobj option"
  | OpEnqueueItem string WorkKind "string list option" bool "string option" jobj
  | OpClaim string string
  | OpRelease "claim + string" "string option" "string option" ReleaseOutcome "bool option"
      "IdleReason option" jobj
  | OpRequestPreemption string string "string option" string
  | OpRecordIdle string IdleReason "string option" "string option" jobj
  | OpSetHalt pyfloat string "string option"
  | OpClearHalt "string option"

definition state_of :: "serror + 'a \<times> sched \<Rightarrow> serror + sched" where
  "state_of res = bindE res (\<lambda>(_, s). Inr s)"

fun sched_step :: "(int \<Rightarrow> pyfloat) \<Rightarrow> sched \<Rightarrow> sched_op \<Rightarrow> serror + sched" where
  "sched_step clock s (OpEnqueue wid kind eligible preemptible preferred payload) =
     bindE (resolve_item (IdArg wid) (Some kind) None eligible preemptible preferred payload)
       (\<lambda>item. state_of (enqueue s item))"
| "sched_step clock s (OpEnqueueItem wid kind eligible preemptible preferred payload) =
     bindE (work_item_init wid kind eligible preemptible preferred payload) (\<lambda>w.
     bindE (resolve_item (ItemArg w) None None None False None None) (\<lambda>item. state_of (enqueue s item)))"
| "sched_step clock s (OpClaim g owner) = state_of (claim_next clock s g owner)"
| "sched_step clock s (OpRelease target owner work outcome requeue idle details) =
     bindE (release_args target owner work) (\<lambda>(g, owner', work', expected).
       state_of (release clock s g owner' work' expected outcome requeue idle details))"
| "sched_step clock s (OpRequestPreemption g by for_work reason) =
     state_of (request_preemption clock s g by for_work reason)"
| "sched_step clock s (OpRecordIdle g reason owner work details) =
     state_of (record_idle clock s g reason owner work details)"
| "sched_step clock s (OpSetHalt now reason gpu) = set_safety_halt clock now s reason gpu"
| "sched_step clock s (OpClearHalt gpu) = clear_safety_halt s gpu"

lemma state_of_Inr: "state_of res = Inr s \<longleftrightarrow> (\<exists>x. res = Inr (x, s))"
  by (auto simp: state_of_def bindE_Inr)

lemma sound_state_of: "sound res \<Longrightarrow> sound0 (state_of res)"
  by (auto simp: sound_def sound0_def state_of_def bindE_Inl bindE_Inr)

lemma resolve_item_ok:
  assumes "resolve_item arg kind wid eligible pre pref payload = Inr w"
    "case arg of ItemArg v \<Rightarrow> work_item_ok v | _ \<Rightarrow> True"
  shows "work_item_ok w"
  using assms by (auto simp: resolve_item_def Let_def bindE_Inr dest: work_item_init_ok
      split: item_arg.splits option.splits if_splits)

lemma args_not_corrupt [simp]:
  "normalize_work_kind k \<noteq> Inl SchedulerStateError"
  "work_item_init wid kind eligible pre pref p \<noteq> Inl SchedulerStateError"
  "release_args target owner work \<noteq> Inl SchedulerStateError"
  by (auto simp: normalize_work_kind_def Let_def work_item_init_def normalize_gpus_def release_args_def
      bindE_Inl split: option.splits sum.splits)

lemma resolve_item_not_corrupt [simp]:
  "resolve_item arg kind wid eligible pre pref payload \<noteq> Inl SchedulerStateError"
  by (auto simp: resolve_item_def Let_def bindE_Inl split: item_arg.splits option.splits)

lemma sched_step_sound:
  assumes "sched_inv s"
  shows "sound0 (sched_step clock s op)"
proof (cases op)
  case (OpEnqueue wid kind eligible pre pref payload)
  then show ?thesis
    by (auto intro!: sound0_bind sound_state_of enqueue_sound [OF assms] dest!: resolve_item_ok)
next
  case (OpEnqueueItem wid kind eligible pre pref payload)
  then show ?thesis
    by (auto intro!: sound0_bind sound_state_of enqueue_sound [OF assms] dest!: work_item_init_ok resolve_item_ok)
next
  case (OpRelease target owner work outcome requeue idle details)
  then show ?thesis
    by (auto intro!: sound0_bind sound_state_of release_sound [OF assms])
qed (auto intro: sound_state_of claim_next_sound request_preemption_sound record_idle_sound
    set_safety_halt_sound clear_safety_halt_sound assms)

interpretation scheduler: fallible_machine "sched_step clock" sched_inv for clock
  by unfold_locales (metis sched_step_sound sound0_def)

text \<open>
  The states a scheduler can be in: opened on an empty directory, then any sequence of calls. A
  call that raises has written nothing.
\<close>

inductive sched_reach :: "string list option \<Rightarrow> sched \<Rightarrow> bool" for gpus where
  reach_open: "scheduler_open gpus None = Inr s \<Longrightarrow> sched_reach gpus s"
| reach_call: "sched_reach gpus s \<Longrightarrow> sched_step clock s op = Inr s' \<Longrightarrow> sched_reach gpus s'"

lemma sched_reach_inv: "sched_reach gpus s \<Longrightarrow> sched_inv s"
proof (induction rule: sched_reach.induct)
  case (reach_open s)
  then obtain config where "normalize_gpus gpus = Inr config" by (auto simp: scheduler_open_def bindE_Inr)
  from scheduler_open_fresh [OF this] reach_open show ?case by simp
next
  case (reach_call s clock op s')
  then show ?case using scheduler.step_inv by blast
qed

lemma sched_reach_run: "sched_reach gpus s \<Longrightarrow> runE (sched_step clock) s ops = Inr s' \<Longrightarrow> sched_reach gpus s'"
  by (induction ops arbitrary: s) (auto simp: bindE_Inr intro: reach_call)

end
