(* ===== verification/Scheduler_History.thy ===== *)
theory Scheduler_History
  imports Scheduler_Machine
begin

text \<open>
  What each successful call does to the work table, the claims and the preemption requests, and how
  these evolve over any sequence of calls.
\<close>

lemma bindE_InrE:
  assumes "bindE m f = Inr y"
  obtains x where "m = Inr x" "f x = Inr y"
  using assms by (auto simp: bindE_Inr)

section \<open>Committed states\<close>

lemma sealed_get:
  assumes "sched_inv s"
  shows "dget (sc_work (sealed s)) w = dget (sc_work s) w"
    "dget (sc_claims (sealed s)) g = dget (sc_claims s) g"
    "dget (sc_preemptions (sealed s)) k = dget (sc_preemptions s) k"
    "dget (sc_idle (sealed s)) g = dget (sc_idle s) g"
    "dget (sc_gpu_halts (sealed s)) g = dget (sc_gpu_halts s) g"
    "sc_gpu_ids (sealed s) = sc_gpu_ids s" "sc_safety_halt (sealed s) = sc_safety_halt s"
    "sc_next_sequence (sealed s) = sc_next_sequence s" "sc_revision (sealed s) = sc_revision s + 1"
    "sc_idle_events (sealed s) = sc_idle_events s" "sc_dynamic_gpus (sealed s) = sc_dynamic_gpus s"
proof -
  have "dict_ok (sc_work s)" "dict_ok (sc_claims s)" "dict_ok (sc_preemptions s)" "dict_ok (sc_idle s)"
    "dict_ok (sc_gpu_halts s)"
    using assms by (auto simp: sched_inv_def dest: inv_dict_oks)
  then show "dget (sc_work (sealed s)) w = dget (sc_work s) w"
    "dget (sc_claims (sealed s)) g = dget (sc_claims s) g"
    "dget (sc_preemptions (sealed s)) k = dget (sc_preemptions s) k"
    "dget (sc_idle (sealed s)) g = dget (sc_idle s) g"
    "dget (sc_gpu_halts (sealed s)) g = dget (sc_gpu_halts s) g"
    "sc_gpu_ids (sealed s) = sc_gpu_ids s" "sc_safety_halt (sealed s) = sc_safety_halt s"
    "sc_next_sequence (sealed s) = sc_next_sequence s" "sc_revision (sealed s) = sc_revision s + 1"
    "sc_idle_events (sealed s) = sc_idle_events s" "sc_dynamic_gpus (sealed s) = sc_dynamic_gpus s"
    by (simp_all add: sealed_def seal_state_def)
qed

text \<open>
  Before a commit: the same work, claims and preemption requests, the same revision. After it:
  nothing was written, or such a state was.
\<close>

definition core_same :: "sched \<Rightarrow> sched \<Rightarrow> bool" where
  "core_same s s' \<longleftrightarrow> (\<forall>w. dget (sc_work s') w = dget (sc_work s) w)
     \<and> (\<forall>g. dget (sc_claims s') g = dget (sc_claims s) g)
     \<and> (\<forall>k. dget (sc_preemptions s') k = dget (sc_preemptions s) k)
     \<and> sc_revision s' = sc_revision s \<and> sc_next_sequence s \<le> sc_next_sequence s'"

definition kept :: "sched \<Rightarrow> sched \<Rightarrow> bool" where
  "kept s s' \<longleftrightarrow> s' = s \<or> (\<exists>t. core_same s t \<and> sched_inv t \<and> s' = sealed t)"

lemma core_same_refl [simp]: "core_same s s"
  by (simp add: core_same_def)

lemma core_same_trans: "core_same s t \<Longrightarrow> core_same t u \<Longrightarrow> core_same s u"
  by (simp add: core_same_def)

lemma core_same_idle: "idle_frame s s' \<Longrightarrow> core_same s s'"
  by (simp add: core_same_def idle_frame_def)

lemma core_same_register: "validate_or_register_gpu s g = Inr (s', b) \<Longrightarrow> core_same s s'"
  by (simp add: core_same_def register_frame)

lemma commit_if_core:
  assumes "commit_if b s0 s1 = Inr s'" "sched_inv s1" "core_same s0 s1"
  shows "kept s0 s'"
  using assms by (auto simp: commit_if_def commit_ok kept_def split: if_splits)

lemma kept_get:
  assumes "kept s s'"
  shows "dget (sc_work s') w = dget (sc_work s) w" "dget (sc_claims s') g = dget (sc_claims s) g"
    "dget (sc_preemptions s') k = dget (sc_preemptions s) k"
  using assms by (auto simp: kept_def core_same_def sealed_get)

section \<open>Inversion of the operations\<close>

lemma enqueue_cases:
  assumes "enqueue s item = Inr (r, s')" "sched_inv s" "work_item_ok item"
  obtains (known) "dget (sc_work s) (wi_work_id item) = Some r" "same_item (wr_item r) item" "s' = s"
  | (added) s1 where "dget (sc_work s) (wi_work_id item) = None" "register_gpus s (named_gpus item) = Inr s1"
      "core_same s s1" "sc_next_sequence s1 = sc_next_sequence s"
      "r = new_record s1 item" "s' = sealed (enqueued_state s1 item)" "sched_inv (enqueued_state s1 item)"
proof (cases "dget (sc_work s) (wi_work_id item)")
  case (Some x)
  with assms(1) that(1) show ?thesis by (auto simp: enqueue_unfold split: if_splits)
next
  case None
  with assms(1) obtain s1 where s1: "register_gpus s (named_gpus item) = Inr s1"
    "commit (enqueued_state s1 item) = Inr s'" "r = new_record s1 item"
    by (auto simp: enqueue_unfold bindE_Inr)
  obtain G where s1': "sched_inv s1" "s1 = s\<lparr>sc_gpu_ids := G\<rparr>" "set G = set (named_gpus item) \<union> set (sc_gpu_ids s)"
    using register_gpus_Inr [OF s1(1) assms(2) named_gpus_ok(1) [OF assms(3)]] by fastforce
  have inv: "sched_inv (enqueued_state s1 item)"
    by (rule enqueued_state_inv [OF s1'(1) assms(3)])
      (use s1'(2,3) None named_gpus_ok(2) [OF assms(3)] in simp_all)
  show ?thesis
    by (rule that(2) [OF None s1(1) _ _ s1(3) _ inv])
      (use s1'(2) commit_ok [OF inv] s1(2) in \<open>simp_all add: core_same_def\<close>)
qed

lemma claim_cases:
  assumes "claim_next clock s0 g owner = Inr (res, s')" "sched_inv s0"
  obtains (held) c where "res = Some c" "dget (sc_claims s0) g = Some c" "cl_owner_id c = owner" "s' = s0"
  | (idle) s b where "res = None" "validate_or_register_gpu s0 g = Inr (s, b)" "dget (sc_claims s0) g = None"
      "halt_reason s0 g \<noteq> None \<or> runnable s0 g = []" "kept s0 s'"
  | (new) s b r t where "validate_or_register_gpu s0 g = Inr (s, b)" "sched_inv s" "core_same s0 s"
      "dget (sc_claims s0) g = None" "halt_reason s0 g = None" "r \<in> set (runnable s0 g)"
      "\<forall>x \<in> set (runnable s0 g). work_priority_key r \<le> work_priority_key x"
      "isfinite t" "res = Some (new_claim s g owner t r)"
      "sched_inv (claimed_state s g r (new_claim s g owner t r))"
      "s' = sealed (claimed_state s g r (new_claim s g owner t r))"
proof -
  from assms(1) obtain s b where reg: "ident g" "ident owner" "validate_or_register_gpu s0 g = Inr (s, b)"
    and body: "(case dget (sc_claims s) g of
       Some active \<Rightarrow> if cl_owner_id active = owner then Inr (Some active, s0) else Inl GpuBusyError
     | None \<Rightarrow>
       (case halt_reason s g of
          Some why \<Rightarrow>
            bindE (record_idle_in_state clock s g SAFETY_HALT None None [(''reason'', JStr why)])
              (\<lambda>(_, changed, s1). bindE (commit_if (b \<or> changed) s0 s1) (\<lambda>s2. Inr (None, s2)))
        | None \<Rightarrow>
          (case runnable s g of
             [] \<Rightarrow> bindE (record_idle_in_state clock s g NO_RUNNABLE_WORK None None
                   [(''queued_work'', JInt (int (length (filter (\<lambda>r. wr_state r = QUEUED) (dvals (sc_work s))))))])
                 (\<lambda>(_, changed, s1). bindE (commit_if (b \<or> changed) s0 s1) (\<lambda>s2. Inr (None, s2)))
           | r # rs \<Rightarrow> bindE (read_clock (clock (sc_next_sequence s))) (\<lambda>t.
               let sel = min_by work_priority_key r rs; c = new_claim s g owner t sel
               in bindE (commit (claimed_state s g sel c)) (\<lambda>s2. Inr (Some c, s2)))))) = Inr (res, s')"
    unfolding claim_next_unfold by (auto simp only: bindE_Inr require_identifier_Inr split_paired_Ex prod.case)
  note inv = register_inv [OF assms(2) reg(1,3)] and fr = register_frame [OF reg(3)]
  have same: "halt_reason s g = halt_reason s0 g" "runnable s g = runnable s0 g"
    by (simp_all add: halt_reason_def runnable_def fr cong: option.case_cong)
  have idled: "kept s0 s' \<and> res = None"
    if "bindE (record_idle_in_state clock s g reason None None details)
       (\<lambda>(_, changed, s1). bindE (commit_if (b \<or> changed) s0 s1) (\<lambda>s2. Inr (None, s2))) = Inr (res, s')"
    for reason details
  proof -
    from that obtain e ch s1 where r: "record_idle_in_state clock s g reason None None details = Inr (e, ch, s1)"
      "commit_if (b \<or> ch) s0 s1 = Inr s'" "res = None" by (auto simp: bindE_Inr)
    from record_idle_inv [OF r(1) inv fr(1)] have "sched_inv s1" "idle_frame s s1" by simp_all
    then show ?thesis using commit_if_core [OF r(2)] r(3)
      core_same_trans [OF core_same_register [OF reg(3)] core_same_idle] by blast
  qed
  show ?thesis
  proof (cases "dget (sc_claims s) g")
    case (Some c)
    with body show ?thesis by (intro held [of c]) (auto simp: fr split: if_splits)
  next
    case free: None
    show ?thesis
    proof (cases "halt_reason s g = None \<and> runnable s g \<noteq> []")
      case False
      with body free idled have "kept s0 s' \<and> res = None"
        by (auto split: option.splits list.splits)
      then show ?thesis using reg(3) free False same by (intro idle) (auto simp: fr)
    next
      case True
      then obtain r rs where rs: "runnable s g = r # rs" by (cases "runnable s g") auto
      let ?t = "clock (sc_next_sequence s)" and ?sel = "min_by work_priority_key r rs"
      let ?c = "new_claim s g owner ?t ?sel"
      have sel: "?sel \<in> set (runnable s g)" unfolding rs by (rule min_by_in)
      from body free True rs have c: "isfinite ?t" "commit (claimed_state s g ?sel ?c) = Inr s'" "res = Some ?c"
        by (auto simp: bindE_Inr Let_def)
      have ci: "sched_inv (claimed_state s g ?sel ?c)"
        by (rule claimed_state_inv [OF inv fr(1) reg(1,2) c(1) sel free])
      show ?thesis
        by (rule new [OF reg(3) inv core_same_register [OF reg(3)] _ _ _ _ c(1,3) ci])
          (use free True same sel rs commit_ok [OF ci] c(2) min_by_le [of _ r rs work_priority_key] in \<open>auto simp: fr\<close>)
    qed
  qed
qed

lemma release_cases:
  assumes "release clock s g owner work expected outcome0 requeue idle0 details = Inr (l, s')" "sched_inv s"
  obtains (retry) outcome where "effective_outcome outcome0 requeue = Inr outcome"
      "dget (sc_claims s) g = None" "matching_release_retry s g owner work expected outcome = Some l" "s' = s"
  | (freed) c r outcome t s3 where "effective_outcome outcome0 requeue = Inr outcome"
      "dget (sc_claims s) g = Some c" "cl_gpu_id c = g" "cl_owner_id c = owner"
      "work = None \<or> work = Some (cl_work_id c)" "expected = None \<or> expected = Some (cl_claim_id c)"
      "dget (sc_work s) (cl_work_id c) = Some r" "isfinite t" "l = new_release s c outcome t"
      "idle_frame (freed_state s c r outcome t) s3" "sched_inv s3" "s' = sealed s3"
proof (cases "dget (sc_claims s) g")
  case None
  with assms(1) obtain outcome where "effective_outcome outcome0 requeue = Inr outcome"
    "matching_release_retry s g owner work expected outcome = Some l" "s' = s"
    by (auto simp: release_def bindE_Inr split: option.splits if_splits)
  with None show ?thesis by (intro retry)
next
  case (Some c)
  from inv_claim_get [OF assms(2) Some] obtain r where c: "claim_ok c" "cl_gpu_id c = g"
    "g \<in> set (sc_gpu_ids s)" "dget (sc_work s) (cl_work_id c) = Some r" by blast
  from assms(1) [unfolded release_active [OF Some c(2,4,3)]] obtain outcome t d s3 where
    o: "effective_outcome outcome0 requeue = Inr outcome" "cl_owner_id c = owner"
    "work = None \<or> work = Some (cl_work_id c)" "expected = None \<or> expected = Some (cl_claim_id c)"
    "isfinite t" "release_idle clock (freed_state s c r outcome t) c
            (idle0 = None \<and> preempted s c \<and> outcome = REQUEUE) idle0 d = Inr s3"
    "commit s3 = Inr s'" "l = new_release s c outcome t"
    by (auto simp: bindE_Inr split: if_splits)
  have "cl_gpu_id c \<in> set (sc_gpu_ids (freed_state s c r outcome t))" using c by (simp add: freed_state_def)
  from release_idle_sound(2) [OF freed_state_inv [OF assms(2) Some o(5) c(4)] c(1) this o(6)]
  have i: "sched_inv s3" "idle_frame (freed_state s c r outcome t) s3" by simp_all
  show ?thesis
    by (rule freed [OF o(1) Some c(2) o(2-4) c(4) o(5,8) i(2,1)]) (rule commit_Inr [OF o(7)])
qed

lemma preemption_cases:
  assumes "request_preemption clock s g by for_work reason = Inr (res, s')" "sched_inv s"
  obtains (none) "res = None" "s' = s"
  | (existing) c running r p where "dget (sc_claims s) g = Some c" "dget (sc_work s) (cl_work_id c) = Some running"
      "wi_preemptible (wr_item running)" "preemption_target s g running for_work = Inr (Some r)"
      "res = Some p" "dget (sc_preemptions s) (pq_request_id p) = Some p" "pq_status p = PENDING"
      "pq_claim_id p = cl_claim_id c" "pq_requested_for_work_id p = wi_work_id (wr_item r)" "s' = s"
  | (new) c running r t where "dget (sc_claims s) g = Some c" "dget (sc_work s) (cl_work_id c) = Some running"
      "wi_preemptible (wr_item running)" "preemption_target s g running for_work = Inr (Some r)"
      "res = Some (new_preemption s c r by reason t)"
      "sched_inv (requested_state s (new_preemption s c r by reason t))"
      "s' = sealed (requested_state s (new_preemption s c r by reason t))"
proof (cases "dget (sc_claims s) g")
  case None
  with assms(1) show ?thesis
    by (intro none) (auto simp: request_preemption_def bindE_Inr split: if_splits)
next
  case (Some c)
  from inv_claim_get [OF assms(2) Some] obtain run where c: "cl_gpu_id c = g"
    "g \<in> set (sc_gpu_ids s)" "dget (sc_work s) (cl_work_id c) = Some run" by blast
  from assms(2) c(3) have w: "wi_work_id (wr_item run) = cl_work_id c"
    by (auto simp: sched_inv_def inv_work_def)
  show ?thesis
  proof (cases "wi_preemptible (wr_item run)")
    case False
    with assms(1) [unfolded request_preemption_unfold [OF Some c(1,3) w c(2)]] show ?thesis
      by (intro none) (auto simp: bindE_Inr split: if_splits)
  next
    case True
    with assms(1) [unfolded request_preemption_unfold [OF Some c(1,3) w c(2)]] obtain target where
      id: "ident by" "ident reason" and t: "preemption_target s g run for_work = Inr target" and
      b: "(case target of
         None \<Rightarrow> Inr (None, s)
       | Some r \<Rightarrow>
         (case find (\<lambda>p. pq_status p = PENDING \<and> pq_claim_id p = cl_claim_id c
                  \<and> pq_requested_for_work_id p = wi_work_id (wr_item r)) (dvals (sc_preemptions s)) of
            Some existing \<Rightarrow> Inr (Some existing, s)
          | None \<Rightarrow> bindE (read_clock (clock (sc_next_sequence s))) (\<lambda>t.
              let p = new_preemption s c r by reason t
              in bindE (commit (requested_state s p)) (\<lambda>s2. Inr (Some p, s2))))) = Inr (res, s')"
      by (auto simp: bindE_Inr split: if_splits)
    show ?thesis
    proof (cases target)
      case None
      with b show ?thesis by (intro none) auto
    next
      case r: (Some r)
      let ?f = "find (\<lambda>p. pq_status p = PENDING \<and> pq_claim_id p = cl_claim_id c
                  \<and> pq_requested_for_work_id p = wi_work_id (wr_item r)) (dvals (sc_preemptions s))"
      show ?thesis
      proof (cases ?f)
        case (Some p)
        then have p: "p \<in> set (dvals (sc_preemptions s))" "pq_status p = PENDING"
          "pq_claim_id p = cl_claim_id c" "pq_requested_for_work_id p = wi_work_id (wr_item r)"
          by (auto simp: find_Some_iff)
        have P: "inv_preempt (set (sc_gpu_ids s)) (sc_next_sequence s) (sc_work s) (sc_claims s) (sc_preemptions s)"
          using assms(2) by (simp add: sched_inv_def)
        have "dget (sc_preemptions s) (pq_request_id p) = Some p"
          using p(1) P dvals_iff [OF inv_dict_oks(3) [OF P]] unfolding inv_preempt_def by blast
        with b r Some p c(3) True t \<open>dget (sc_claims s) g = Some c\<close> show ?thesis
          by (intro existing [of c run r p]) auto
      next
        case None
        let ?p = "new_preemption s c r by reason (clock (sc_next_sequence s))"
        from b r None have p: "isfinite (clock (sc_next_sequence s))" "res = Some ?p"
          "commit (requested_state s ?p) = Inr s'" by (auto simp: bindE_Inr Let_def)
        note t' = t [unfolded r]
        show ?thesis
          by (rule new [OF Some c(3) True t' p(2) _ commit_Inr [OF p(3)]])
            (rule requested_state_inv [OF assms(2) Some c(3) True preemption_target_Inr(1) [OF assms(2) t'] id p(1)])
      qed
    qed
  qed
qed

lemma record_idle_core:
  assumes "record_idle clock s0 g reason owner work details = Inr (e, s')" "sched_inv s0"
  shows "kept s0 s'"
proof -
  from assms(1) obtain d s b ch s1 where c: "ident g" "opt_all ident owner" "opt_all ident work"
    "validate_or_register_gpu s0 g = Inr (s, b)"
    "record_idle_in_state clock s g reason owner work d = Inr (e, ch, s1)"
    "commit_if (b \<or> ch) s0 s1 = Inr s'"
    by (auto simp: record_idle_def bindE_Inr split: if_splits)
  from record_idle_inv [OF c(5) register_inv [OF assms(2) c(1,4)] register_frame(1) [OF c(4)] c(2,3)]
  have "sched_inv s1" "idle_frame s s1" by simp_all
  then show ?thesis using commit_if_core [OF c(6)]
    core_same_trans [OF core_same_register [OF c(4)] core_same_idle] by blast
qed

lemma idle_all_core:
  assumes "bindE (idle_all clock reason gs (b, s)) (\<lambda>(changed, s1). commit_if changed s0 s1) = Inr s'"
    "sched_inv s" "set gs \<subseteq> set (sc_gpu_ids s)" "core_same s0 s"
  shows "kept s0 s'"
proof -
  from assms(1) obtain ch s1 where c: "idle_all clock reason gs (b, s) = Inr (ch, s1)"
    "commit_if ch s0 s1 = Inr s'" by (auto simp: bindE_Inr)
  from idle_all_sound [OF assms(2,3), of clock reason b] c(1) have "sched_inv s1" "idle_frame s s1" by auto
  then show ?thesis using commit_if_core [OF c(2)] core_same_trans [OF assms(4) core_same_idle] by blast
qed

lemma set_safety_halt_core:
  assumes "set_safety_halt clock now s0 reason gpu = Inr s'" "sched_inv s0"
  shows "kept s0 s'"
proof (cases gpu)
  case None
  define fresh where "fresh = (case sc_safety_halt s0 of None \<Rightarrow> True | Some h \<Rightarrow> ha_reason h \<noteq> reason)"
  define s where "s = (if fresh then s0\<lparr>sc_safety_halt := Some \<lparr>ha_reason = reason, ha_set_at = now\<rparr>\<rparr> else s0)"
  have id: "ident reason" using assms(1) by (auto simp: set_safety_halt_def bindE_Inr)
  note eq = assms(1) [unfolded None set_safety_halt_global [OF id]]
  have now: "isfinite now" using eq by (cases "isfinite now") (simp_all add: read_clock_def)
  then have "bindE (idle_all clock reason (sc_gpu_ids s) (fresh, s)) (\<lambda>(changed, s1). commit_if changed s0 s1) = Inr s'"
    using eq by (simp only: read_clock_def if_True bindE_simps Let_def s_def fresh_def)
  then show ?thesis
    by (rule idle_all_core)
      (use id now halt_set_inv(1) [OF assms(2)] assms(2) in \<open>auto simp: core_same_def s_def\<close>)
next
  case (Some g)
  have id: "ident reason" "ident g" using assms(1) Some
    by (auto simp: set_safety_halt_def bindE_Inr split: if_splits)
  from assms(1) [unfolded Some set_safety_halt_gpu [OF id]] obtain x where
    x: "validate_or_register_gpu s0 g = Inr x" "halt_gpu clock now s0 reason g x = Inr s'"
    by (rule bindE_InrE)
  obtain s b where xs: "x = (s, b)" by (cases x)
  define fresh where "fresh = (case dget (sc_gpu_halts s) g of None \<Rightarrow> True | Some h \<Rightarrow> ha_reason h \<noteq> reason)"
  from x(2) [unfolded xs halt_gpu_def prod.case Let_def, folded fresh_def] obtain s2 where s2: "(if fresh then bindE (read_clock now) (\<lambda>t. Inr (s\<lparr>sc_gpu_halts :=
        dset (sc_gpu_halts s) g \<lparr>ha_reason = reason, ha_set_at = t\<rparr>\<rparr>)) else Inr s) = Inr s2"
    "bindE (idle_all clock reason [g] (b \<or> fresh, s2)) (\<lambda>(changed, s1). commit_if changed s0 s1) = Inr s'"
    by (rule bindE_InrE)
  note s = id x(1) [unfolded xs] s2
  note inv = register_inv [OF assms(2) s(2,3)] and fr = register_frame [OF s(3)]
  have "sched_inv s2" using s(1,4) inv halt_set_inv(2) [OF inv _ _ fr(1)]
    by (auto simp: bindE_Inr split: if_splits)
  moreover have "core_same s0 s2" "sc_gpu_ids s2 = sc_gpu_ids s" using s(4) core_same_register [OF s(3)]
    by (auto simp: bindE_Inr core_same_def split: if_splits)
  ultimately show ?thesis by (intro idle_all_core [OF s(5)]) (use fr(1) in auto)
qed

lemma clear_safety_halt_core:
  assumes "clear_safety_halt s gpu = Inr s'" "sched_inv s"
  shows "kept s s'"
proof -
  have "core_same s (s\<lparr>sc_safety_halt := None\<rparr>)" "core_same s (s\<lparr>sc_gpu_halts := ddel (sc_gpu_halts s) g\<rparr>)" for g
    by (simp_all add: core_same_def)
  with assms show ?thesis
    by (auto simp: clear_safety_halt_def bindE_Inr halt_clear_inv split: if_splits option.splits
        dest!: commit_if_core)
qed

section \<open>Evolution of the state\<close>

fun terminal :: "WorkState \<Rightarrow> bool" where
  "terminal W_COMPLETED = True"
| "terminal W_FAILED = True"
| "terminal W_CANCELLED = True"
| "terminal _ = False"

text \<open>
  A work record is never lost, its item and place in the queue never change, attempts only grow,
  and a terminal record never changes at all.
\<close>

definition record_evolves :: "work_record \<Rightarrow> work_record \<Rightarrow> bool" where
  "record_evolves r r' \<longleftrightarrow> wr_item r' = wr_item r \<and> wr_enqueue_sequence r' = wr_enqueue_sequence r
     \<and> wr_attempts r \<le> wr_attempts r' \<and> (terminal (wr_state r) \<longrightarrow> r' = r)"

definition work_evolves :: "sched \<Rightarrow> sched \<Rightarrow> bool" where
  "work_evolves s s' \<longleftrightarrow> (\<forall>w r. dget (sc_work s) w = Some r \<longrightarrow>
     (\<exists>r'. dget (sc_work s') w = Some r' \<and> record_evolves r r'))"

lemma record_evolves_refl [simp]: "record_evolves r r"
  by (simp add: record_evolves_def)

lemma record_evolves_trans: "record_evolves r t \<Longrightarrow> record_evolves t u \<Longrightarrow> record_evolves r u"
  by (auto simp: record_evolves_def)

lemma work_evolves_refl [simp]: "work_evolves s s"
  by (simp add: work_evolves_def)

lemma work_evolves_trans: "work_evolves s t \<Longrightarrow> work_evolves t u \<Longrightarrow> work_evolves s u"
  unfolding work_evolves_def by (metis record_evolves_trans)

lemma work_evolves_same: "\<forall>w. dget (sc_work s') w = dget (sc_work s) w \<Longrightarrow> work_evolves s s'"
  by (auto simp: work_evolves_def)

lemma work_evolves_kept: "kept s s' \<Longrightarrow> work_evolves s s'"
  by (simp add: work_evolves_same kept_get)

lemma work_evolves_update:
  assumes "\<forall>v. dget (sc_work s') v = dget (dset (sc_work s) w r') v"
    "\<forall>r. dget (sc_work s) w = Some r \<longrightarrow> record_evolves r r'"
  shows "work_evolves s s'"
  using assms by (auto simp: work_evolves_def dget_dset)

lemma enqueue_evolves:
  assumes "enqueue s item = Inr (r, s')" "sched_inv s" "work_item_ok item"
  shows "work_evolves s s'"
  using assms
proof (cases rule: enqueue_cases)
  case (added s1)
  then show ?thesis
    by (intro work_evolves_update [of _ _ "wi_work_id item" "new_record s1 item"])
      (simp_all add: sealed_get enqueued_state_def core_same_def dget_dset)
qed simp

lemma claim_evolves:
  assumes "claim_next clock s g owner = Inr (res, s')" "sched_inv s"
  shows "work_evolves s s'"
  using assms
proof (cases rule: claim_cases)
  case (new s1 b r t)
  then have "dget (sc_work s) (wi_work_id (wr_item r)) = Some r" "wr_state r = QUEUED"
    using runnable_iff [OF assms(2)] by auto
  with new show ?thesis
    by (intro work_evolves_update [of _ _ "wi_work_id (wr_item r)" "r\<lparr>wr_state := W_CLAIMED,
        wr_attempts := wr_attempts r + 1, wr_active_claim_id := Some (claim_name (sc_next_sequence s1))\<rparr>"])
      (simp_all add: sealed_get claimed_state_def new_claim_def core_same_def dget_dset record_evolves_def)
qed (simp_all add: work_evolves_kept)

lemma release_evolves:
  assumes "release clock s g owner work expected outcome0 requeue idle0 details = Inr (l, s')" "sched_inv s"
  shows "work_evolves s s'"
  using assms
proof (cases rule: release_cases)
  case (freed c r outcome t s3)
  from inv_claim_get [OF assms(2) freed(2)] freed(7) have "wr_state r = W_CLAIMED" by fastforce
  with freed show ?thesis
    by (intro work_evolves_update [of _ _ "cl_work_id c" "r\<lparr>wr_state := released_state outcome,
        wr_active_claim_id := None, wr_last_release := Some l\<rparr>"])
      (simp_all add: sealed_get freed_state_def idle_frame_def record_evolves_def)
qed simp

lemma preemption_evolves:
  assumes "request_preemption clock s g by for_work reason = Inr (res, s')" "sched_inv s"
  shows "work_evolves s s'"
  using assms
proof (cases rule: preemption_cases)
  case (new c running r t)
  then show ?thesis by (intro work_evolves_same) (simp add: sealed_get requested_state_def)
qed simp_all

lemma step_evolves:
  assumes "sched_inv s" "sched_step clock s op = Inr s'"
  shows "work_evolves s s'"
  using assms(2)
proof (cases op)
  case (OpEnqueue wid kind eligible pre pref payload)
  with assms show ?thesis
    by (auto simp: bindE_Inr state_of_Inr intro!: enqueue_evolves dest!: resolve_item_ok)
next
  case (OpEnqueueItem wid kind eligible pre pref payload)
  with assms show ?thesis
    by (auto simp: bindE_Inr state_of_Inr intro!: enqueue_evolves dest!: work_item_init_ok resolve_item_ok)
next
  case (OpRelease target owner work outcome requeue idle details)
  with assms show ?thesis by (auto simp: bindE_Inr state_of_Inr intro: release_evolves)
qed (use assms(1) in \<open>auto simp: state_of_Inr intro: claim_evolves preemption_evolves work_evolves_kept
    record_idle_core set_safety_halt_core clear_safety_halt_core\<close>)

subsection \<open>Revisions and sequence numbers\<close>

text \<open>A call writes nothing, or one new revision; sequence numbers are never handed out twice.\<close>

definition versioned :: "sched \<Rightarrow> sched \<Rightarrow> bool" where
  "versioned s s' \<longleftrightarrow> s' = s
     \<or> sc_revision s' = sc_revision s + 1 \<and> sc_next_sequence s \<le> sc_next_sequence s'"

lemma versioned_refl [simp]: "versioned s s"
  by (simp add: versioned_def)

lemma versioned_sealed:
  "sched_inv t \<Longrightarrow> sc_revision t = sc_revision s \<Longrightarrow> sc_next_sequence s \<le> sc_next_sequence t \<Longrightarrow>
     versioned s (sealed t)"
  by (simp add: versioned_def sealed_get)

lemma versioned_kept: "kept s s' \<Longrightarrow> versioned s s'"
  by (auto simp: kept_def core_same_def intro: versioned_sealed)

lemma enqueue_versioned:
  assumes "enqueue s item = Inr (r, s')" "sched_inv s" "work_item_ok item"
  shows "versioned s s'"
  using assms
  by (cases rule: enqueue_cases) (auto intro!: versioned_sealed simp: core_same_def enqueued_state_def)

lemma claim_versioned:
  assumes "claim_next clock s g owner = Inr (res, s')" "sched_inv s"
  shows "versioned s s'"
  using assms
  by (cases rule: claim_cases) (auto intro!: versioned_sealed dest: versioned_kept simp: core_same_def claimed_state_def)

lemma release_versioned:
  assumes "release clock s g owner work expected outcome0 requeue idle0 details = Inr (l, s')" "sched_inv s"
  shows "versioned s s'"
  using assms
  by (cases rule: release_cases) (auto intro!: versioned_sealed simp: idle_frame_def freed_state_def)

lemma preemption_versioned:
  assumes "request_preemption clock s g by for_work reason = Inr (res, s')" "sched_inv s"
  shows "versioned s s'"
  using assms
  by (cases rule: preemption_cases) (auto intro!: versioned_sealed simp: requested_state_def)

lemma step_versioned:
  assumes "sched_inv s" "sched_step clock s op = Inr s'"
  shows "versioned s s'"
  using assms(2)
proof (cases op)
  case (OpEnqueue wid kind eligible pre pref payload)
  with assms show ?thesis
    by (auto simp: bindE_Inr state_of_Inr intro!: enqueue_versioned dest!: resolve_item_ok)
next
  case (OpEnqueueItem wid kind eligible pre pref payload)
  with assms show ?thesis
    by (auto simp: bindE_Inr state_of_Inr intro!: enqueue_versioned dest!: work_item_init_ok resolve_item_ok)
next
  case (OpRelease target owner work outcome requeue idle details)
  with assms show ?thesis by (auto simp: bindE_Inr state_of_Inr intro: release_versioned)
qed (use assms(1) in \<open>auto simp: state_of_Inr intro: claim_versioned preemption_versioned versioned_kept
    record_idle_core set_safety_halt_core clear_safety_halt_core\<close>)

subsection \<open>Claims\<close>

text \<open>The owner a call acts for, when the call can end a claim.\<close>

fun releases :: "sched_op \<Rightarrow> string \<Rightarrow> string \<Rightarrow> bool" where
  "releases (OpRelease target owner work outcome requeue idle details) g o' \<longleftrightarrow>
     (case release_args target owner work of Inl _ \<Rightarrow> False | Inr (g', o'', _) \<Rightarrow> g' = g \<and> o'' = o')"
| "releases _ g o' \<longleftrightarrow> False"

lemma step_claims:
  assumes "sched_inv s" "sched_step clock s op = Inr s'" "dget (sc_claims s) g = Some c"
    "\<not> releases op g (cl_owner_id c)"
  shows "dget (sc_claims s') g = Some c"
  using assms(2)
proof (cases op)
  case (OpEnqueue wid kind eligible pre pref payload)
  with assms(2) obtain item r where "enqueue s item = Inr (r, s')" "work_item_ok item"
    by (auto simp: bindE_Inr state_of_Inr dest!: resolve_item_ok)
  from this(1) assms(1) this(2) show ?thesis
    by (cases rule: enqueue_cases) (use assms(3) in \<open>simp_all add: sealed_get enqueued_state_def core_same_def\<close>)
next
  case (OpEnqueueItem wid kind eligible pre pref payload)
  with assms(2) obtain item r where "enqueue s item = Inr (r, s')" "work_item_ok item"
    by (auto simp: bindE_Inr state_of_Inr dest!: work_item_init_ok resolve_item_ok)
  from this(1) assms(1) this(2) show ?thesis
    by (cases rule: enqueue_cases) (use assms(3) in \<open>simp_all add: sealed_get enqueued_state_def core_same_def\<close>)
next
  case (OpClaim h owner)
  with assms(2) obtain res where "claim_next clock s h owner = Inr (res, s')" by (auto simp: state_of_Inr)
  from this assms(1) show ?thesis
    by (cases rule: claim_cases)
      (use assms(3) in \<open>auto simp: kept_get sealed_get claimed_state_def core_same_def dget_dset\<close>)
next
  case (OpRelease target owner work outcome requeue idle details)
  with assms(2) obtain h o' w e l where a: "release_args target owner work = Inr (h, o', w, e)"
    "release clock s h o' w e outcome requeue idle details = Inr (l, s')"
    by (auto simp: bindE_Inr state_of_Inr)
  from a(2) assms(1) show ?thesis
  proof (cases rule: release_cases)
    case (freed d r oc t s3)
    have "h \<noteq> g" using assms(3,4) OpRelease a(1) freed(2,4) by auto
    with freed assms(3) show ?thesis
      by (simp add: sealed_get freed_state_def idle_frame_def dget_ddel)
  qed (use assms(3) in simp)
next
  case (OpRequestPreemption h by' w reason)
  with assms(2) obtain res where "request_preemption clock s h by' w reason = Inr (res, s')"
    by (auto simp: state_of_Inr)
  from this assms(1) show ?thesis
    by (cases rule: preemption_cases) (use assms(3) in \<open>simp_all add: sealed_get requested_state_def\<close>)
qed (use assms(1,3) in \<open>auto simp: state_of_Inr kept_get dest: record_idle_core set_safety_halt_core
    clear_safety_halt_core\<close>)

end
