(* ===== verification/Scheduler_Props.thy ===== *)
theory Scheduler_Props
  imports Scheduler_History
begin

text \<open>
  The correctness properties of the scheduler, each over every state a scheduler can reach, with
  instances on a concrete run: a preemptible training job holds the only GPU while recovery work
  waits.
\<close>

section \<open>A concrete run\<close>

definition demo_clock :: "int \<Rightarrow> pyfloat" where
  "demo_clock n = Fin 7"

definition demo_ops :: "sched_op list" where
  "demo_ops = [OpEnqueueItem ''a'' TRAINER None True None [], OpClaim ''g'' ''o'',
     OpEnqueue ''b'' ''Recovery '' (Some [''g'']) False None None]"

definition demo_claim :: claim where
  "demo_claim = \<lparr>cl_claim_id = ''claim-00000000000000000002'', cl_work_id = ''a'', cl_gpu_id = ''g'',
     cl_owner_id = ''o'', cl_claimed_at = Fin 7, cl_sequence = 2, cl_stolen = False\<rparr>"

definition demo_running :: work_record where
  "demo_running = \<lparr>wr_item = \<lparr>wi_work_id = ''a'', wi_kind = TRAINER, wi_eligible_gpus = None,
       wi_preemptible = True, wi_preferred_gpu = None, wi_payload = []\<rparr>,
     wr_state = W_CLAIMED, wr_enqueue_sequence = 1, wr_attempts = 1,
     wr_active_claim_id = Some ''claim-00000000000000000002'', wr_last_release = None\<rparr>"

definition demo_waiting :: work_record where
  "demo_waiting = \<lparr>wr_item = \<lparr>wi_work_id = ''b'', wi_kind = RECOVERY, wi_eligible_gpus = Some [''g''],
       wi_preemptible = False, wi_preferred_gpu = None, wi_payload = []\<rparr>,
     wr_state = QUEUED, wr_enqueue_sequence = 3, wr_attempts = 0, wr_active_claim_id = None,
     wr_last_release = None\<rparr>"

definition demo_state :: sched where
  "demo_state = \<lparr>sc_revision = 3, sc_next_sequence = 4, sc_dynamic_gpus = True, sc_gpu_ids = [''g''],
     sc_work = [(''a'', demo_running), (''b'', demo_waiting)], sc_claims = [(''g'', demo_claim)],
     sc_preemptions = [], sc_idle_events = [], sc_idle = [], sc_safety_halt = None, sc_gpu_halts = []\<rparr>"

lemma demo_runs: "scheduler_open None None = Inr (new_state None)
    \<and> runE (sched_step demo_clock) (new_state None) demo_ops = Inr demo_state"
  by code_simp

lemma demo_reach: "sched_reach None demo_state"
  using demo_runs reach_open sched_reach_run by blast

definition demo_release :: sched_op where
  "demo_release = OpRelease (Inl demo_claim) None None COMPLETED (Some True) None []"

definition demo_freed :: sched where
  "demo_freed = projr (sched_step demo_clock demo_state demo_release)"

lemma demo_freed_eq: "sched_step demo_clock demo_state demo_release = Inr demo_freed"
  by code_simp

lemma demo_freed_reach: "sched_reach None demo_freed"
  using demo_reach demo_freed_eq by (rule reach_call)

lemma demo_freed_facts:
  "ident ''g'' \<and> ident ''p'' \<and> ''g'' \<in> set (sc_gpu_ids demo_freed) \<and> dget (sc_claims demo_freed) ''g'' = None
   \<and> halt_reason demo_freed ''g'' = None \<and> runnable demo_freed ''g'' \<noteq> []
   \<and> dget (sc_work demo_freed) ''b'' = Some demo_waiting"
  by code_simp

lemma demo_freed_other: "\<exists>r. dget (sc_work demo_freed) ''a'' = Some r \<and> r \<in> set (runnable demo_freed ''g'')"
proof -
  have "case dget (sc_work demo_freed) ''a'' of Some r \<Rightarrow> r \<in> set (runnable demo_freed ''g'') | None \<Rightarrow> False"
    by code_simp
  then show ?thesis by (auto split: option.splits)
qed

lemma demo_claims:
  "\<exists>c s'. claim_next demo_clock demo_freed ''g'' ''p'' = Inr (Some c, s') \<and> cl_work_id c = ''b''"
proof -
  have "case claim_next demo_clock demo_freed ''g'' ''p'' of Inr (Some c, s') \<Rightarrow> cl_work_id c = ''b'' | _ \<Rightarrow> False"
    by code_simp
  then show ?thesis by (auto split: sum.splits option.splits)
qed

section \<open>Integrity\<close>

text \<open>
  C6. Mutual exclusion: in every reachable state a work item is in state CLAIMED exactly when some
  GPU holds a claim for it, and then that GPU is the only one, is registered, is eligible for the
  item, and the record names the claim.
\<close>

theorem claims_exclusive:
  assumes "sched_reach gpus s" "dget (sc_work s) w = Some r"
  shows "(wr_state r = W_CLAIMED \<longleftrightarrow> (\<exists>!g. \<exists>c. dget (sc_claims s) g = Some c \<and> cl_work_id c = w))
    \<and> (\<forall>g c. dget (sc_claims s) g = Some c \<longrightarrow> cl_work_id c = w \<longrightarrow>
         g \<in> set (sc_gpu_ids s) \<and> is_eligible (wr_item r) g \<and> wr_active_claim_id r = Some (cl_claim_id c))"
proof -
  note inv = sched_reach_inv [OF assms(1)]
  from inv have u: "inv_unique (sc_claims s)" and d: "inv_claimed (sc_work s) (sc_claims s)"
    by (simp_all add: sched_inv_def)
  have c: "wr_state r = W_CLAIMED \<and> g \<in> set (sc_gpu_ids s) \<and> is_eligible (wr_item r) g
      \<and> wr_active_claim_id r = Some (cl_claim_id c)"
    if "dget (sc_claims s) g = Some c" "cl_work_id c = w" for g c
    using inv that(1) by (rule inv_claim_get) (use that(2) assms(2) in auto)
  have "\<exists>g c. dget (sc_claims s) g = Some c \<and> cl_work_id c = w" if "wr_state r = W_CLAIMED"
    using d assms(2) that unfolding inv_claimed_def by metis
  moreover have "g = g'" if "dget (sc_claims s) g = Some c" "cl_work_id c = w"
      "dget (sc_claims s) g' = Some c'" "cl_work_id c' = w" for g g' c c'
    using u that unfolding inv_unique_def by blast
  ultimately have "wr_state r = W_CLAIMED \<longleftrightarrow> (\<exists>!g. \<exists>c. dget (sc_claims s) g = Some c \<and> cl_work_id c = w)"
    using c by blast
  with c show ?thesis by blast
qed

theorem claims_exclusive_witness:
  "(\<exists>!g. \<exists>c. dget (sc_claims demo_state) g = Some c \<and> cl_work_id c = ''a'')
    \<and> is_eligible (wr_item demo_running) ''g'' \<and> wr_active_claim_id demo_running = Some (cl_claim_id demo_claim)"
proof -
  have a: "dget (sc_work demo_state) ''a'' = Some demo_running" "dget (sc_claims demo_state) ''g'' = Some demo_claim"
    "cl_work_id demo_claim = ''a''" "wr_state demo_running = W_CLAIMED"
    by (simp_all add: demo_state_def dget_def demo_claim_def demo_running_def)
  from claims_exclusive [OF demo_reach a(1)] a(2-4) show ?thesis by blast
qed

section \<open>Claiming\<close>

text \<open>
  C7. A new claim takes the best work: if \<open>claim\<close> returns a claim that the GPU did not hold
  before, then no halt applied to the GPU, the work was queued and eligible, no queued eligible item
  has a smaller priority key (tier, rank in the tier, age), and the item is now claimed with one
  attempt more. Of the rest of the state the call registers the GPU, drops the GPU's idle entry and
  counts sequence number and revision up by one; all other work, the claims and idle entries of other
  GPUs, all preemption requests, halts and idle events are as they were.
\<close>

theorem claim_takes_best:
  assumes "sched_reach gpus s" "claim_next clock s g owner = Inr (Some c, s')"
    "dget (sc_claims s) g \<noteq> Some c"
  shows "\<exists>r. dget (sc_work s) (cl_work_id c) = Some r \<and> r \<in> set (runnable s g)
    \<and> (\<forall>x \<in> set (runnable s g). work_priority_key r \<le> work_priority_key x)
    \<and> halt_reason s g = None \<and> dget (sc_claims s') g = Some c \<and> cl_owner_id c = owner
    \<and> dget (sc_work s') (cl_work_id c) = Some (r\<lparr>wr_state := W_CLAIMED,
         wr_attempts := wr_attempts r + 1, wr_active_claim_id := Some (cl_claim_id c)\<rparr>)
    \<and> (\<forall>w. w \<noteq> cl_work_id c \<longrightarrow> dget (sc_work s') w = dget (sc_work s) w)
    \<and> (\<forall>h. h \<noteq> g \<longrightarrow> dget (sc_claims s') h = dget (sc_claims s) h)
    \<and> (\<forall>k. dget (sc_preemptions s') k = dget (sc_preemptions s) k)
    \<and> sc_safety_halt s' = sc_safety_halt s \<and> (\<forall>h. dget (sc_gpu_halts s') h = dget (sc_gpu_halts s) h)
    \<and> sc_idle_events s' = sc_idle_events s
    \<and> (\<forall>h. dget (sc_idle s') h = (if h = g then None else dget (sc_idle s) h))
    \<and> set (sc_gpu_ids s') = insert g (set (sc_gpu_ids s)) \<and> sc_dynamic_gpus s' = sc_dynamic_gpus s
    \<and> sc_next_sequence s' = sc_next_sequence s + 1 \<and> sc_revision s' = sc_revision s + 1"
  using assms(2) sched_reach_inv [OF assms(1)]
proof (cases rule: claim_cases)
  case (new s1 b r t)
  then have r: "dget (sc_work s) (wi_work_id (wr_item r)) = Some r"
    using runnable_iff [OF sched_reach_inv [OF assms(1)]] by auto
  have gpus: "set (sc_gpu_ids s1) = insert g (set (sc_gpu_ids s))"
    using new(1) by (auto simp: validate_or_register_gpu_def split: if_splits)
  note frame = register_frame [OF new(1)] and after = sealed_get [OF new(10), folded new(11)]
  show ?thesis
    using new(4-9) r gpus
    by (intro exI [of _ r]) (simp add: after claimed_state_def new_claim_def frame dget_dset dget_ddel)
qed (use assms(3) in simp_all)

theorem claim_takes_best_witness:
  "\<exists>c s' r. claim_next demo_clock demo_freed ''g'' ''p'' = Inr (Some c, s') \<and> cl_work_id c = ''b''
    \<and> dget (sc_work demo_freed) ''a'' = Some r \<and> work_priority_key demo_waiting \<le> work_priority_key r"
proof -
  obtain c s' where c: "claim_next demo_clock demo_freed ''g'' ''p'' = Inr (Some c, s')"
    "cl_work_id c = ''b''" using demo_claims by blast
  have free: "dget (sc_claims demo_freed) ''g'' \<noteq> Some c" "dget (sc_work demo_freed) ''b'' = Some demo_waiting"
    using demo_freed_facts by simp_all
  obtain r where r: "dget (sc_work demo_freed) ''a'' = Some r" "r \<in> set (runnable demo_freed ''g'')"
    using demo_freed_other by blast
  from claim_takes_best [OF demo_freed_reach c(1) free(1)] c free(2) r show ?thesis by auto
qed

text \<open>
  C32. Claiming does not get stuck: on a known GPU without claim or halt, with queued eligible work
  and a finite clock reading, \<open>claim\<close> returns a claim.
\<close>

theorem claim_progress:
  assumes "sched_reach gpus s" "ident g" "ident owner" "g \<in> set (sc_gpu_ids s)"
    "dget (sc_claims s) g = None" "halt_reason s g = None" "runnable s g \<noteq> []"
    "isfinite (clock (sc_next_sequence s))"
  shows "\<exists>c s'. claim_next clock s g owner = Inr (Some c, s')"
proof -
  obtain r rs where r: "runnable s g = r # rs" using assms(7) by (cases "runnable s g") auto
  have "min_by work_priority_key r rs \<in> set (runnable s g)" unfolding r by (rule min_by_in)
  from claimed_state_inv [OF sched_reach_inv [OF assms(1)] assms(4,2,3,8) this assms(5)]
  show ?thesis using assms r
    by (simp add: claim_next_unfold validate_or_register_gpu_def require_identifier_def read_clock_def
        Let_def commit_ok)
qed

theorem claim_progress_witness:
  "\<exists>c s'. claim_next demo_clock demo_freed ''g'' ''p'' = Inr (Some c, s')"
  by (rule claim_progress [OF demo_freed_reach]) (use demo_freed_facts in \<open>simp_all add: demo_clock_def\<close>)

text \<open>Priority keys of distinct work records differ, since they end in the work identifier.\<close>

lemma work_priority_key_id: "work_priority_key r = work_priority_key x \<Longrightarrow> wi_work_id (wr_item r) = wi_work_id (wr_item x)"
  by (simp add: work_priority_key_def split: prod.splits)

lemma hd_sort_key_min:
  assumes "r \<in> set xs" "\<And>x. x \<in> set xs \<Longrightarrow> k r \<le> k x" "\<And>x. x \<in> set xs \<Longrightarrow> k x = k r \<Longrightarrow> x = r"
  shows "hd (sort_key k xs) = r" "sort_key k xs \<noteq> []"
proof -
  show ne: "sort_key k xs \<noteq> []" using assms(1) by (metis empty_iff list.set(1) set_sort)
  have "hd (sort_key k xs) \<in> set xs" using ne hd_in_set by fastforce
  moreover have "k (hd (sort_key k xs)) \<le> k r"
  proof -
    have "sorted (map k (sort_key k xs))" "r \<in> set (sort_key k xs)" using assms(1) by simp_all
    then show ?thesis using ne by (cases "sort_key k xs") auto
  qed
  ultimately show "hd (sort_key k xs) = r" using assms(2,3) by (metis order_antisym)
qed

lemma filter_queued: "filter (\<lambda>r. is_eligible (wr_item r) g) (queued s) = sort_key work_priority_key (runnable s g)"
  unfolding queued_def runnable_def by (simp add: filter_sort conj_commute)

text \<open>
  The queue listing and the claim agree: the work that a new claim takes is the first entry of
  \<open>queued_work\<close> for that GPU.
\<close>

theorem claim_takes_first_listed:
  assumes "sched_reach gpus s" "claim_next clock s g owner = Inr (Some c, s')"
    "dget (sc_claims s) g \<noteq> Some c" "queued_work s (Some g) = Inr rs"
  shows "rs \<noteq> [] \<and> wi_work_id (wr_item (hd rs)) = cl_work_id c"
proof -
  note inv = sched_reach_inv [OF assms(1)]
  from assms(4) have rs: "rs = sort_key work_priority_key (runnable s g)"
    by (auto simp: queued_work_def bindE_Inr filter_queued split: if_splits)
  from assms(2) inv show ?thesis
  proof (cases rule: claim_cases)
    case (new s1 b r t)
    have uniq: "x = r" if "x \<in> set (runnable s g)" "work_priority_key x = work_priority_key r" for x
      using work_priority_key_id [OF that(2)] that(1) new(6) unfolding runnable_iff [OF inv]
      by (metis option.inject)
    have "hd rs = r" "rs \<noteq> []" unfolding rs
      using hd_sort_key_min [OF new(6) _ uniq] new(7) by blast+
    with new(9) show ?thesis by (simp add: new_claim_def)
  qed (use assms(3) in simp_all)
qed

theorem claim_takes_first_listed_witness:
  "\<exists>rs c s'. queued_work demo_freed (Some ''g'') = Inr rs \<and> claim_next demo_clock demo_freed ''g'' ''p'' = Inr (Some c, s')
    \<and> rs \<noteq> [] \<and> wi_work_id (wr_item (hd rs)) = cl_work_id c"
proof -
  obtain c s' where c: "claim_next demo_clock demo_freed ''g'' ''p'' = Inr (Some c, s')" using demo_claims by blast
  have free: "dget (sc_claims demo_freed) ''g'' \<noteq> Some c" using demo_freed_facts by simp
  obtain rs where rs: "queued_work demo_freed (Some ''g'') = Inr rs"
    using demo_freed_facts by (simp add: queued_work_def require_identifier_def)
  from claim_takes_first_listed [OF demo_freed_reach c free rs] rs c show ?thesis by blast
qed

text \<open>
  C23. Claims are cooperative: no call of any kind ends a claim, except a release in the name of its
  owner on its GPU. In particular neither a preemption request nor a safety halt revokes one.
\<close>

theorem claim_ends_by_owner:
  assumes "sched_reach gpus s" "sched_step clock s op = Inr s'" "dget (sc_claims s) g = Some c"
    "\<not> releases op g (cl_owner_id c)"
  shows "dget (sc_claims s') g = Some c"
  using step_claims [OF sched_reach_inv [OF assms(1)]] assms(2-4) .

theorem claim_ends_by_owner_witness:
  "\<exists>s'. sched_step demo_clock demo_state (OpSetHalt (Fin 9) ''fire'' None) = Inr s'
     \<and> dget (sc_claims s') ''g'' = Some demo_claim"
proof -
  have "case sched_step demo_clock demo_state (OpSetHalt (Fin 9) ''fire'' None) of Inr _ \<Rightarrow> True | _ \<Rightarrow> False"
    by code_simp
  then obtain s' where s': "sched_step demo_clock demo_state (OpSetHalt (Fin 9) ''fire'' None) = Inr s'"
    by (auto split: sum.splits)
  have "dget (sc_claims demo_state) ''g'' = Some demo_claim" by (simp add: demo_state_def dget_def)
  from claim_ends_by_owner [OF demo_reach s' this] s' show ?thesis by simp
qed

section \<open>Evolution\<close>

text \<open>
  C31. Work is never lost: over any sequence of calls every work record that exists stays, with the
  same item and the same place in the queue; its attempts never decrease; and once it is completed,
  failed or cancelled it never changes again.
\<close>

theorem work_never_lost:
  assumes "sched_reach gpus s" "runE (sched_step clock) s ops = Inr s'" "dget (sc_work s) w = Some r"
  shows "\<exists>r'. dget (sc_work s') w = Some r' \<and> wr_item r' = wr_item r
    \<and> wr_enqueue_sequence r' = wr_enqueue_sequence r \<and> wr_attempts r \<le> wr_attempts r'
    \<and> (terminal (wr_state r) \<longrightarrow> r' = r)"
proof -
  have "work_evolves s s'"
    by (rule scheduler.run_step_mono [OF step_evolves work_evolves_refl work_evolves_trans
          sched_reach_inv [OF assms(1)] assms(2)])
  with assms(3) show ?thesis unfolding work_evolves_def record_evolves_def by blast
qed

theorem work_never_lost_witness:
  "\<exists>r'. dget (sc_work demo_freed) ''a'' = Some r' \<and> wr_item r' = wr_item demo_running
    \<and> wr_enqueue_sequence r' = 1 \<and> 1 \<le> wr_attempts r'"
proof -
  have "runE (sched_step demo_clock) demo_state [demo_release] = Inr demo_freed"
    by (simp add: demo_freed_eq)
  moreover have "dget (sc_work demo_state) ''a'' = Some demo_running" by (simp add: demo_state_def dget_def)
  moreover have "wr_enqueue_sequence demo_running = 1" "wr_attempts demo_running = 1"
    by (simp_all add: demo_running_def)
  ultimately show ?thesis by (metis work_never_lost [OF demo_reach])
qed

text \<open>
  The revision counts writes: a call leaves the state exactly as it was or raises the revision
  by one, and the sequence counter never decreases, so no claim, release, request or event
  identifier is issued twice.
\<close>

theorem revision_counts_writes:
  assumes "sched_reach gpus s" "sched_step clock s op = Inr s'"
  shows "s' = s \<or> sc_revision s' = sc_revision s + 1 \<and> sc_next_sequence s \<le> sc_next_sequence s'"
  using step_versioned [OF sched_reach_inv [OF assms(1)] assms(2)] unfolding versioned_def .

theorem revision_counts_writes_witness:
  "demo_freed = demo_state \<or> sc_revision demo_freed = sc_revision demo_state + 1
     \<and> sc_next_sequence demo_state \<le> sc_next_sequence demo_freed"
  by (rule revision_counts_writes [OF demo_reach demo_freed_eq])

section \<open>Retries\<close>

lemma max_by_unique:
  assumes "l \<in> set (x # xs)" "\<forall>y \<in> set (x # xs). y \<noteq> l \<longrightarrow> k y < k l"
  shows "max_by k x xs = l"
  using assms
proof (induction xs arbitrary: x)
  case (Cons y ys)
  show ?case unfolding max_by.simps by (rule Cons.IH) (use Cons.prems in \<open>auto split: if_splits\<close>)
qed simp

definition releases_of :: "sched \<Rightarrow> string option \<Rightarrow> release_record list" where
  "releases_of s work = concat (map (\<lambda>(w, r). if work \<noteq> None \<and> work \<noteq> Some w then []
      else (case wr_last_release r of None \<Rightarrow> [] | Some l \<Rightarrow> [l])) (sc_work s))"

lemma releases_of_iff:
  assumes "dict_ok (sc_work s)"
  shows "l \<in> set (releases_of s work) \<longleftrightarrow> (\<exists>w r. dget (sc_work s) w = Some r \<and> wr_last_release r = Some l
    \<and> (work = None \<or> work = Some w))"
proof -
  have "l \<in> set (releases_of s work) \<longleftrightarrow> (\<exists>w r. (w, r) \<in> set (sc_work s) \<and> wr_last_release r = Some l
      \<and> (work = None \<or> work = Some w))"
    unfolding releases_of_def set_concat set_map UN_iff image_image
    by (rule iffI; elim bexE exE conjE; force split: option.splits if_splits prod.splits)
  then show ?thesis unfolding set_dict_iff [OF assms] by blast
qed

lemma retry_found:
  assumes "dict_ok (sc_work s)" "l \<in> set (releases_of s work)" "rr_gpu_id l = g" "rr_owner_id l = owner"
    "rr_outcome l = outcome" "claim = None \<or> claim = Some (rr_claim_id l)"
    "\<forall>y \<in> set (releases_of s work). y \<noteq> l \<longrightarrow> rr_sequence y < rr_sequence l"
  shows "matching_release_retry s g owner work claim outcome = Some l"
proof -
  let ?xs = "filter (\<lambda>l. rr_gpu_id l = g \<and> rr_owner_id l = owner \<and> rr_outcome l = outcome
     \<and> (claim = None \<or> claim = Some (rr_claim_id l))) (releases_of s work)"
  have l: "l \<in> set ?xs" using assms(2-6) by auto
  then obtain x xs where x: "?xs = x # xs" by (cases ?xs) auto
  have "max_by rr_sequence x xs = l"
    by (rule max_by_unique) (use l assms(7) in \<open>auto simp: x [symmetric]\<close>)
  then show ?thesis unfolding matching_release_retry_def releases_of_def [symmetric] x by simp
qed

lemma release_no_claim:
  assumes "dget (sc_claims s) g = None"
  shows "release clock s g owner work expected outcome0 requeue idle0 details =
    release clock' s g owner work expected outcome0 requeue idle0 details"
  by (simp add: release_def assms)

lemma freed_retry:
  assumes inv: "sched_inv s" and c: "dget (sc_claims s) g = Some c" "cl_gpu_id c = g" "cl_owner_id c = owner"
    and args: "work = None \<or> work = Some (cl_work_id c)" "expected = None \<or> expected = Some (cl_claim_id c)"
    and r: "dget (sc_work s) (cl_work_id c) = Some r"
    and s3: "idle_frame (freed_state s c r outcome t) s3" "sched_inv s3"
  shows "matching_release_retry (sealed s3) g owner work expected outcome = Some (new_release s c outcome t)"
proof -
  let ?l = "new_release s c outcome t"
  have ok: "dict_ok (sc_work (sealed s3))"
    using sealed_inv [OF s3(2)] by (auto simp: sched_inv_def dest: inv_dict_oks)
  have W: "dget (sc_work (sealed s3)) w = (if w = cl_work_id c then Some (r\<lparr>wr_state := released_state outcome,
      wr_active_claim_id := None, wr_last_release := Some ?l\<rparr>) else dget (sc_work s) w)" for w
    using s3 by (simp add: sealed_get idle_frame_def freed_state_def dget_dset)
  have "rr_sequence y < sc_next_sequence s" if "dget (sc_work s) w = Some x" "wr_last_release x = Some y" for w x y
    using inv that by (fastforce simp: sched_inv_def inv_work_def)
  then have "y = ?l \<or> rr_sequence y < rr_sequence ?l" if "y \<in> set (releases_of (sealed s3) work)" for y
    using that unfolding releases_of_iff [OF ok] W by (auto simp: new_release_def split: if_splits)
  moreover have "?l \<in> set (releases_of (sealed s3) work)"
    unfolding releases_of_iff [OF ok] W using args(1) by auto
  ultimately show ?thesis
    by (intro retry_found [OF ok]) (use c args(2) in \<open>auto simp: new_release_def\<close>)
qed

text \<open>
  C33. A release may be retried: repeating a successful release on the state it left, with the same
  arguments and whatever the clock then says, returns the same release record and writes nothing.
\<close>

theorem release_retry:
  assumes "sched_reach gpus s" "release clock s g owner work expected outcome requeue idle details = Inr (l, s')"
  shows "release clock' s' g owner work expected outcome requeue idle details = Inr (l, s')"
  using assms(2) sched_reach_inv [OF assms(1)]
proof (cases rule: release_cases)
  case (retry oc)
  with assms(2) show ?thesis using release_no_claim by metis
next
  case (freed c r oc t s3)
  note inv = sched_reach_inv [OF assms(1)]
  have ids: "sc_gpu_ids s' = sc_gpu_ids s" "dget (sc_claims s') g = None"
    using freed by (simp_all add: sealed_get idle_frame_def freed_state_def dget_ddel)
  have "matching_release_retry s' g owner work expected oc = Some l"
    using freed_retry [OF inv freed(2-7,10,11)] freed(9,12) by simp
  moreover from assms(2) have "ident owner" "opt_all ident work" "\<exists>d. json_object details = Inr d"
    "g \<in> set (sc_gpu_ids s)"
    by (auto simp: release_def bindE_Inr validate_known_gpu_def simp del: opt_all.simps split: if_splits)
  ultimately show ?thesis using ids freed(1)
    by (auto simp: release_def require_identifier_def validate_known_gpu_def)
qed

theorem release_retry_witness:
  "\<exists>l. release demo_clock demo_state ''g'' ''o'' None None FAILED None None [] = Inr (l, snd (projr
      (release demo_clock demo_state ''g'' ''o'' None None FAILED None None [])))
    \<and> release (\<lambda>_. PInf) (snd (projr (release demo_clock demo_state ''g'' ''o'' None None FAILED None None [])))
        ''g'' ''o'' None None FAILED None None []
      = Inr (l, snd (projr (release demo_clock demo_state ''g'' ''o'' None None FAILED None None [])))"
proof -
  have "case release demo_clock demo_state ''g'' ''o'' None None FAILED None None [] of Inr _ \<Rightarrow> True | _ \<Rightarrow> False"
    by code_simp
  then obtain l s' where r: "release demo_clock demo_state ''g'' ''o'' None None FAILED None None [] = Inr (l, s')"
    by (auto split: sum.splits)
  from release_retry [OF demo_reach r] show ?thesis by (simp add: r)
qed

lemma work_item_payload_eq: "work_item_ok w \<Longrightarrow> py_eq_obj (wi_payload w) (wi_payload w)"
proof -
  assume "work_item_ok w"
  then have "jfinite (JObj (wi_payload w))" by (auto simp: work_item_ok_def payload_ok_def)
  from py_eq_refl [OF this] show ?thesis by (simp add: py_eq.simps)
qed

lemma enqueue_again:
  assumes "sched_inv s" "work_item_ok item" "enqueue s item = Inr (r, s')"
  shows "enqueue s' item = Inr (r, s')" "dget (sc_work s') (wi_work_id item) = Some r" "same_item (wr_item r) item"
proof -
  show same: "same_item (wr_item r) item"
    using assms(3,1,2) by (cases rule: enqueue_cases)
      (simp_all add: new_record_def same_item_def work_item_payload_eq assms(2))
  show get: "dget (sc_work s') (wi_work_id item) = Some r"
    using assms(3,1,2) by (cases rule: enqueue_cases) (simp_all add: sealed_get enqueued_state_def dget_dset)
  show "enqueue s' item = Inr (r, s')" by (simp add: enqueue_unfold get same)
qed

text \<open>
  \<open>work_id\<close> is an idempotency key: repeating an enqueue that succeeded returns the same record
  and writes nothing; enqueueing a different item under the same identifier is a conflict.
\<close>

theorem enqueue_retry:
  assumes "sched_reach gpus s" "work_item_ok item" "enqueue s item = Inr (r, s')"
  shows "enqueue s' item = Inr (r, s')
    \<and> (\<forall>other. wi_work_id other = wi_work_id item \<longrightarrow> \<not> same_item (wr_item r) other \<longrightarrow>
         enqueue s' other = Inl SchedulerConflictError)"
  using enqueue_again [OF sched_reach_inv [OF assms(1)] assms(2,3)] by (simp add: enqueue_unfold)

theorem enqueue_retry_witness:
  "\<exists>r s'. enqueue demo_state (wr_item demo_waiting\<lparr>wi_work_id := ''c''\<rparr>) = Inr (r, s')
    \<and> enqueue s' (wr_item demo_waiting\<lparr>wi_work_id := ''c''\<rparr>) = Inr (r, s')"
proof -
  have w: "work_item_ok (wr_item demo_waiting\<lparr>wi_work_id := ''c''\<rparr>) \<and>
      (case enqueue demo_state (wr_item demo_waiting\<lparr>wi_work_id := ''c''\<rparr>) of Inr _ \<Rightarrow> True | _ \<Rightarrow> False)"
    by code_simp
  then obtain r s' where r: "enqueue demo_state (wr_item demo_waiting\<lparr>wi_work_id := ''c''\<rparr>) = Inr (r, s')"
    by (auto split: sum.splits)
  from enqueue_retry [OF demo_reach _ r] w r show ?thesis by blast
qed

section \<open>Safety halts\<close>

lemma halt_idle_commit:
  assumes "bindE (idle_all clock reason gs (fresh, s)) (\<lambda>(changed, s1). commit_if changed s0 s1) = Inr s'"
    "sched_inv s" "set gs \<subseteq> set (sc_gpu_ids s)" "\<not> fresh \<Longrightarrow> halt_reason s0 g = halt_reason s g"
  shows "halt_reason s' g = halt_reason s g"
proof -
  from assms(1) obtain ch s1 where c: "idle_all clock reason gs (fresh, s) = Inr (ch, s1)"
    "commit_if ch s0 s1 = Inr s'" by (auto simp: bindE_Inr)
  from idle_all_sound [OF assms(2,3), of clock reason fresh] c(1) have i: "sched_inv s1" "idle_frame s s1"
    "\<not> ch \<longrightarrow> \<not> fresh" by auto
  show ?thesis
  proof (cases ch)
    case True
    with c(2) i(1) have "s' = sealed s1" by (simp add: commit_if_def commit_ok)
    with i(1,2) show ?thesis
      by (simp add: halt_reason_def sealed_get idle_frame_def cong: option.case_cong)
  next
    case False
    with c(2) i(3) assms(4) show ?thesis by (simp add: commit_if_def)
  qed
qed

lemma set_halt_reason:
  assumes "set_safety_halt clock now s0 reason gpu = Inr s'" "sched_inv s0" "gpu = None \<or> gpu = Some g"
  shows "halt_reason s' g \<noteq> None"
proof (cases gpu)
  case None
  define fresh where "fresh = (case sc_safety_halt s0 of None \<Rightarrow> True | Some h \<Rightarrow> ha_reason h \<noteq> reason)"
  define s where "s = (if fresh then s0\<lparr>sc_safety_halt := Some \<lparr>ha_reason = reason, ha_set_at = now\<rparr>\<rparr> else s0)"
  have id: "ident reason" using assms(1) by (auto simp: set_safety_halt_def bindE_Inr)
  note eq = assms(1) [unfolded None set_safety_halt_global [OF id]]
  have now: "isfinite now" using eq by (cases "isfinite now") (simp_all add: read_clock_def)
  then have "bindE (idle_all clock reason (sc_gpu_ids s) (fresh, s)) (\<lambda>(changed, s1). commit_if changed s0 s1) = Inr s'"
    using eq by (simp only: read_clock_def if_True bindE_simps Let_def s_def fresh_def)
  then have "halt_reason s' g = halt_reason s g"
    by (rule halt_idle_commit)
      (use id now halt_set_inv(1) [OF assms(2)] assms(2) in \<open>auto simp: s_def\<close>)
  also have "\<dots> \<noteq> None" by (auto simp: halt_reason_def s_def fresh_def split: option.splits)
  finally show ?thesis .
next
  case (Some h)
  then have g: "gpu = Some g" "h = g" using assms(3) by auto
  have id: "ident reason" "ident g" using assms(1) g
    by (auto simp: set_safety_halt_def bindE_Inr split: if_splits)
  from assms(1) [unfolded g set_safety_halt_gpu [OF id]] obtain x where
    x: "validate_or_register_gpu s0 g = Inr x" "halt_gpu clock now s0 reason g x = Inr s'"
    by (rule bindE_InrE)
  obtain s b where xs: "x = (s, b)" by (cases x)
  note reg = x(1) [unfolded xs]
  note inv = register_inv [OF assms(2) id(2) reg] and fr = register_frame [OF reg]
  define fresh where "fresh = (case dget (sc_gpu_halts s) g of None \<Rightarrow> True | Some h \<Rightarrow> ha_reason h \<noteq> reason)"
  from x(2) [unfolded xs halt_gpu_def prod.case Let_def, folded fresh_def] obtain s2 where
    s2: "(if fresh then bindE (read_clock now) (\<lambda>t. Inr (s\<lparr>sc_gpu_halts :=
        dset (sc_gpu_halts s) g \<lparr>ha_reason = reason, ha_set_at = t\<rparr>\<rparr>)) else Inr s) = Inr s2"
    "bindE (idle_all clock reason [g] (b \<or> fresh, s2)) (\<lambda>(changed, s1). commit_if changed s0 s1) = Inr s'"
    by (rule bindE_InrE)
  have "sched_inv s2" "sc_gpu_ids s2 = sc_gpu_ids s"
    using s2(1) id inv halt_set_inv(2) [OF inv _ _ fr(1)] by (auto simp: bindE_Inr split: if_splits)
  moreover have "halt_reason s0 g = halt_reason s2 g" if "\<not> (b \<or> fresh)"
    using that s2(1) register_Inr(3) [OF reg] by simp
  ultimately have "halt_reason s' g = halt_reason s2 g"
    by (intro halt_idle_commit [OF s2(2)]) (use fr(1) in auto)
  also have "\<dots> \<noteq> None"
  proof (cases fresh)
    case True
    with s2(1) show ?thesis by (auto simp: halt_reason_def bindE_Inr dget_dset split: option.splits)
  next
    case False
    with s2(1) show ?thesis by (auto simp: halt_reason_def fresh_def split: option.splits)
  qed
  finally show ?thesis .
qed

text \<open>
  C22. A safety halt blocks new work: after \<open>set_safety_halt\<close>, for all GPUs or for one, a claim on a
  GPU it covers returns nothing or the claim that the GPU already held, and no work record or claim
  changes.
\<close>

theorem halt_blocks_claims:
  assumes "sched_reach gpus s0" "set_safety_halt clock now s0 reason gpu = Inr s" "gpu = None \<or> gpu = Some g"
    "claim_next clock' s g owner = Inr (res, s')"
  shows "(res = None \<or> res = dget (sc_claims s0) g)
    \<and> (\<forall>w. dget (sc_work s') w = dget (sc_work s0) w) \<and> (\<forall>h. dget (sc_claims s') h = dget (sc_claims s0) h)"
proof -
  note inv0 = sched_reach_inv [OF assms(1)]
  have inv: "sched_inv s" using set_safety_halt_sound [OF inv0] assms(2) by (metis sound0_def)
  note k = kept_get [OF set_safety_halt_core [OF assms(2) inv0]]
  from assms(4) inv show ?thesis
    by (cases rule: claim_cases) (use k set_halt_reason [OF assms(2) inv0 assms(3)] in \<open>auto simp: kept_get\<close>)
qed

theorem halt_blocks_claims_witness:
  "\<exists>s s' res. set_safety_halt demo_clock (Fin 9) demo_freed ''fire'' None = Inr s
    \<and> claim_next demo_clock s ''g'' ''p'' = Inr (res, s')
    \<and> (res = None \<or> res = dget (sc_claims demo_freed) ''g'')"
proof -
  have "case set_safety_halt demo_clock (Fin 9) demo_freed ''fire'' None of Inr s \<Rightarrow>
      (case claim_next demo_clock s ''g'' ''p'' of Inr _ \<Rightarrow> True | _ \<Rightarrow> False) | _ \<Rightarrow> False"
    by code_simp
  then obtain s res s' where s: "set_safety_halt demo_clock (Fin 9) demo_freed ''fire'' None = Inr s"
    "claim_next demo_clock s ''g'' ''p'' = Inr (res, s')" by (auto split: sum.splits)
  from halt_blocks_claims [OF demo_freed_reach s(1) disjI1 [OF refl] s(2)] s show ?thesis by blast
qed

section \<open>Preemption\<close>

lemma class_key_orders:
  "priority_class_key (wi_kind (wr_item r)) < priority_class_key (wi_kind (wr_item q)) \<Longrightarrow>
    work_priority_key (r\<lparr>wr_enqueue_sequence := m\<rparr>) < work_priority_key (q\<lparr>wr_enqueue_sequence := n\<rparr>)
    \<and> fst (priority_class_key (wi_kind (wr_item r))) \<le> fst (priority_class_key (wi_kind (wr_item q)))"
  by (cases "priority_class_key (wi_kind (wr_item r))"; cases "priority_class_key (wi_kind (wr_item q))")
    (auto simp: work_priority_key_def less_prod_def)

text \<open>
  C34. A preemption request is only a request: when one is returned it is durably pending against
  the claim that holds the GPU, the running work is preemptible, and the work it is made for is
  queued, eligible for the GPU, of no lower tier than the running work, and goes first in the order in
  which \<open>claim\<close> takes work, whatever the ages of the two items. No work, claim, halt or idle entry
  changes, and no other preemption request.
\<close>

theorem preemption_is_cooperative:
  assumes "sched_reach gpus s" "request_preemption clock s g by for_work reason = Inr (Some p, s')"
  shows "\<exists>c running r. dget (sc_claims s) g = Some c \<and> dget (sc_work s) (cl_work_id c) = Some running
    \<and> dget (sc_work s) (pq_requested_for_work_id p) = Some r
    \<and> wi_preemptible (wr_item running) \<and> wr_state r = QUEUED \<and> is_eligible (wr_item r) g
    \<and> fst (priority_class_key (wi_kind (wr_item r))) \<le> fst (priority_class_key (wi_kind (wr_item running)))
    \<and> (\<forall>m n. work_priority_key (r\<lparr>wr_enqueue_sequence := m\<rparr>) < work_priority_key (running\<lparr>wr_enqueue_sequence := n\<rparr>))
    \<and> pq_claim_id p = cl_claim_id c \<and> pq_status p = PENDING
    \<and> dget (sc_preemptions s') (pq_request_id p) = Some p
    \<and> (\<forall>w. dget (sc_work s') w = dget (sc_work s) w) \<and> (\<forall>h. dget (sc_claims s') h = dget (sc_claims s) h)
    \<and> (\<forall>k. k \<noteq> pq_request_id p \<longrightarrow> dget (sc_preemptions s') k = dget (sc_preemptions s) k)
    \<and> (\<forall>h. halt_reason s' h = halt_reason s h) \<and> (\<forall>h. dget (sc_idle s') h = dget (sc_idle s) h)"
proof -
  note inv = sched_reach_inv [OF assms(1)]
  from assms(2) inv show ?thesis
  proof (cases rule: preemption_cases)
    case (existing c running r q)
    with preemption_target_Inr [OF inv existing(4)] class_key_orders [of r running] show ?thesis
      by (intro exI [of _ c] exI [of _ running] exI [of _ r]) simp
  next
    case (new c running r t)
    note after = sealed_get [OF new(6), folded new(7)]
    have halts: "halt_reason s' h = halt_reason s h" for h
      by (simp add: halt_reason_def after requested_state_def cong: option.case_cong)
    from new(1-3,5) preemption_target_Inr [OF inv new(4)] class_key_orders [of r running] show ?thesis
      by (intro exI [of _ c] exI [of _ running] exI [of _ r])
        (simp add: halts after new_preemption_def requested_state_def dget_dset)
  qed simp
qed

theorem preemption_is_cooperative_witness:
  "\<exists>p s'. request_preemption demo_clock demo_state ''g'' ''s'' None ''r'' = Inr (Some p, s')
    \<and> dget (sc_preemptions s') (pq_request_id p) = Some p \<and> pq_status p = PENDING"
proof -
  have "case request_preemption demo_clock demo_state ''g'' ''s'' None ''r'' of Inr (Some _, _) \<Rightarrow> True | _ \<Rightarrow> False"
    by code_simp
  then obtain p s' where p: "request_preemption demo_clock demo_state ''g'' ''s'' None ''r'' = Inr (Some p, s')"
    by (auto split: sum.splits option.splits)
  from preemption_is_cooperative [OF demo_reach p] p show ?thesis by blast
qed

text \<open>
  C35. A release is the boundary a preemption waits for: releasing a claim frees the GPU, gives the
  work the state of the outcome, and marks every request that was pending against the claim as
  reached at the time of the release; all other requests stay as they were.
\<close>

theorem release_reaches_boundary:
  assumes "sched_reach gpus s" "dget (sc_claims s) g = Some c"
    "release clock s g owner work expected outcome0 requeue idle details = Inr (l, s')"
  shows "dget (sc_claims s') g = None \<and> rr_claim_id l = cl_claim_id c
    \<and> (\<exists>r. dget (sc_work s') (cl_work_id c) = Some r \<and> wr_state r = released_state (rr_outcome l)
         \<and> wr_last_release r = Some l)
    \<and> (\<forall>k p. dget (sc_preemptions s) k = Some p \<longrightarrow> dget (sc_preemptions s') k = Some
         (if pq_claim_id p = cl_claim_id c \<and> pq_status p = PENDING
          then p\<lparr>pq_status := BOUNDARY_REACHED, pq_boundary_at := Some (rr_released_at l)\<rparr> else p))"
  using assms(3) sched_reach_inv [OF assms(1)]
proof (cases rule: release_cases)
  case (freed d r oc t s3)
  with assms(2) show ?thesis
    by (simp add: sealed_get idle_frame_def freed_state_def dget_ddel dget_dset new_release_def
        dget_map_vals reach_boundary_def)
qed (use assms(2) in simp)

theorem release_reaches_boundary_witness:
  "\<exists>l s'. release demo_clock demo_state ''g'' ''o'' None None REQUEUE None None [] = Inr (l, s')
    \<and> dget (sc_claims s') ''g'' = None \<and> rr_claim_id l = ''claim-00000000000000000002''"
proof -
  have "case release demo_clock demo_state ''g'' ''o'' None None REQUEUE None None [] of Inr _ \<Rightarrow> True | _ \<Rightarrow> False"
    by code_simp
  then obtain l s' where r: "release demo_clock demo_state ''g'' ''o'' None None REQUEUE None None [] = Inr (l, s')"
    by (auto split: sum.splits)
  have "dget (sc_claims demo_state) ''g'' = Some demo_claim" by (simp add: demo_state_def dget_def)
  from release_reaches_boundary [OF demo_reach this r] r show ?thesis by (auto simp: demo_claim_def)
qed

section \<open>Priorities and arguments\<close>

text \<open>
  The priority key of a work kind is its position in the tier table, within the table's
  bounds, so distinct kinds have distinct keys.
\<close>

theorem priority_class_bounds:
  "fst (priority_class_key k) < length PRIORITY_TIERS
   \<and> snd (priority_class_key k) < length (PRIORITY_TIERS ! fst (priority_class_key k))
   \<and> PRIORITY_TIERS ! fst (priority_class_key k) ! snd (priority_class_key k) = k"
  by (cases k) (simp_all add: priority_class_key_def PRIORITY_TIERS_def)

end
