(* ===== verification/Scheduler_Codec.thy ===== *)
theory Scheduler_Codec
  imports Scheduler_Props Promotion_Sample
begin

text \<open>
  The durable form of the scheduler state: the \<open>to_dict\<close> and \<open>from_dict\<close> methods of every record,
  the state document with its hash, writing and loading it. An object is listed in the order in
  which canonical JSON writes its keys. The state of the model is the parsed document, so an
  accepted alias in a document, such as \<^verbatim>\<open>selfplay\<close> for \<^verbatim>\<open>self-play\<close>, is read in its normal form.
\<close>

section \<open>Reading fields\<close>

fun mapE :: "('a \<Rightarrow> 'e + 'b) \<Rightarrow> 'a list \<Rightarrow> 'e + 'b list" where
  "mapE f [] = Inr []"
| "mapE f (x # xs) = bindE (f x) (\<lambda>y. bindE (mapE f xs) (\<lambda>ys. Inr (y # ys)))"

definition fields_of :: "string list \<Rightarrow> json \<Rightarrow> serror + jobj" where
  "fields_of names v = (case v of
     JObj d \<Rightarrow> if set (map fst d) = set names then Inr d else Inl SchedulerStateError
   | _ \<Rightarrow> Inl SchedulerStateError)"

text \<open>\<open>except (TypeError, ValueError)\<close>: both are \<open>ValueErrorS\<close> here.\<close>

definition state_error :: "serror + 'a \<Rightarrow> serror + 'a" where
  "state_error m = (case m of
     Inl e \<Rightarrow> Inl (if e = ValueErrorS then SchedulerStateError else e)
   | Inr x \<Rightarrow> Inr x)"

fun identifier_of :: "json \<Rightarrow> serror + string" where
  "identifier_of (JStr s) = require_identifier s"
| "identifier_of _ = Inl ValueErrorS"

fun opt_identifier_of :: "json \<Rightarrow> serror + string option" where
  "opt_identifier_of JNull = Inr None"
| "opt_identifier_of v = bindE (identifier_of v) (\<lambda>s. Inr (Some s))"

fun require_positive_int :: "json \<Rightarrow> serror + int" where
  "require_positive_int (JInt n) = (if n < 1 then Inl ValueErrorS else Inr n)"
| "require_positive_int _ = Inl ValueErrorS"

fun require_nonnegative_int :: "json \<Rightarrow> serror + int" where
  "require_nonnegative_int (JInt n) = (if n < 0 then Inl ValueErrorS else Inr n)"
| "require_nonnegative_int _ = Inl ValueErrorS"

fun bool_of :: "json \<Rightarrow> serror + bool" where
  "bool_of (JBool b) = Inr b"
| "bool_of _ = Inl ValueErrorS"

text \<open>\<open>_json_object\<close> on a JSON value: \<open>None\<close> is the empty object.\<close>

fun object_of :: "json \<Rightarrow> serror + jobj" where
  "object_of JNull = Inr []"
| "object_of (JObj d) = json_object d"
| "object_of _ = Inl ValueErrorS"

subsection \<open>Python's \<open>float()\<close>\<close>

text \<open>
  \<open>float(s)\<close> reads a decimal literal, with single underscores between digits, or an infinity or
  NaN; surrounding space is ignored. Floats are rationals here: rounding is not modelled.
\<close>

definition digit_part :: "string \<Rightarrow> nat option" where
  "digit_part s = (if s \<noteq> [] \<and> list_all (\<lambda>c. ascii_digit c \<or> c = CHR ''_'') s \<and> ascii_digit (hd s)
       \<and> ascii_digit (last s) \<and> list_all (\<lambda>(a, b). a \<noteq> CHR ''_'' \<or> b \<noteq> CHR ''_'') (zip s (tl s))
     then Some (dec_val (filter ascii_digit s)) else None)"

definition sign_of :: "string \<Rightarrow> int \<times> string" where
  "sign_of s = (if take 1 s = ''-'' then (- 1, drop 1 s) else if take 1 s = ''+'' then (1, drop 1 s) else (1, s))"

definition exponent_of :: "string \<Rightarrow> int option" where
  "exponent_of s = (if s = [] then Some 0
     else (let (sg, ds) = sign_of (drop 1 s) in map_option (\<lambda>n. sg * int n) (digit_part ds)))"

definition mantissa_of :: "string \<Rightarrow> (nat \<times> nat) option" where
  "mantissa_of s =
    (let ip = takeWhile (\<lambda>c. c \<noteq> CHR ''.'') s; fp = drop 1 (dropWhile (\<lambda>c. c \<noteq> CHR ''.'') s);
         part = (\<lambda>p. if p = [] then Some 0 else digit_part p); k = length (filter ascii_digit fp)
     in if ip = [] \<and> fp = [] then None
        else (case (part ip, part fp) of (Some a, Some b) \<Rightarrow> Some (a * 10 ^ k + b, k) | _ \<Rightarrow> None))"

definition float_of_string :: "string \<Rightarrow> pyfloat option" where
  "float_of_string s0 =
    (let (sg, s) = sign_of (py_strip s0); w = py_lower s;
         m = takeWhile (\<lambda>c. c \<noteq> CHR ''e'') w; x = dropWhile (\<lambda>c. c \<noteq> CHR ''e'') w
     in if w \<in> set [''inf'', ''infinity''] then Some (if sg = 1 then PInf else NInf)
        else if w = ''nan'' then Some NaN
        else (case (mantissa_of m, exponent_of x) of
           (Some (n, k), Some e) \<Rightarrow> (let v = (of_int sg :: rat) * of_nat n / 10 ^ k
              in Some (Fin (if 0 \<le> e then v * 10 ^ nat e else v / 10 ^ nat (- e))))
         | _ \<Rightarrow> None))"

fun float_of :: "json \<Rightarrow> serror + pyfloat" where
  "float_of (JFloat x) = Inr x"
| "float_of (JInt i) = Inr (Fin (of_int i))"
| "float_of (JBool b) = Inr (Fin (if b then 1 else 0))"
| "float_of (JStr s) = (case float_of_string s of None \<Rightarrow> Inl ValueErrorS | Some x \<Rightarrow> Inr x)"
| "float_of _ = Inl ValueErrorS"

fun opt_float_of :: "json \<Rightarrow> serror + pyfloat option" where
  "opt_float_of JNull = Inr None"
| "opt_float_of v = bindE (float_of v) (\<lambda>x. Inr (Some x))"

definition finite_or_error :: "bool \<Rightarrow> 'a \<Rightarrow> serror + 'a" where
  "finite_or_error ok x = (if ok then Inr x else Inl SchedulerStateError)"

section \<open>Enumerations\<close>

fun work_kind_value :: "WorkKind \<Rightarrow> string" where
  "work_kind_value RECOVERY = ''recovery''"
| "work_kind_value PROMOTION_CONFIRMATION = ''promotion-confirmation''"
| "work_kind_value PROMOTION_CANARY = ''promotion-canary''"
| "work_kind_value SCREENING = ''screening''"
| "work_kind_value CURATION = ''curation''"
| "work_kind_value TRAINER = ''trainer''"
| "work_kind_value SELF_PLAY = ''self-play''"
| "work_kind_value BACKFILL = ''backfill''"

definition work_state_table :: "(string \<times> WorkState) list" where
  "work_state_table = [(''queued'', QUEUED), (''claimed'', W_CLAIMED), (''completed'', W_COMPLETED),
     (''failed'', W_FAILED), (''cancelled'', W_CANCELLED)]"

fun work_state_value :: "WorkState \<Rightarrow> string" where
  "work_state_value QUEUED = ''queued''"
| "work_state_value W_CLAIMED = ''claimed''"
| "work_state_value W_COMPLETED = ''completed''"
| "work_state_value W_FAILED = ''failed''"
| "work_state_value W_CANCELLED = ''cancelled''"

fun release_outcome_value :: "ReleaseOutcome \<Rightarrow> string" where
  "release_outcome_value COMPLETED = ''completed''"
| "release_outcome_value REQUEUE = ''requeue''"
| "release_outcome_value FAILED = ''failed''"
| "release_outcome_value CANCELLED = ''cancelled''"

definition preemption_status_table :: "(string \<times> PreemptionStatus) list" where
  "preemption_status_table = [(''pending'', PENDING), (''boundary-reached'', BOUNDARY_REACHED)]"

fun preemption_status_value :: "PreemptionStatus \<Rightarrow> string" where
  "preemption_status_value PENDING = ''pending''"
| "preemption_status_value BOUNDARY_REACHED = ''boundary-reached''"

fun idle_reason_value :: "IdleReason \<Rightarrow> string" where
  "idle_reason_value NO_RUNNABLE_WORK = ''no-runnable-work''"
| "idle_reason_value CHECKPOINT_BOUNDARY = ''checkpoint-boundary''"
| "idle_reason_value LEASE_HANDOFF = ''lease-handoff''"
| "idle_reason_value SAFETY_HALT = ''safety-halt''"

definition string_by :: "(string \<Rightarrow> serror + 'a) \<Rightarrow> json \<Rightarrow> serror + 'a" where
  "string_by f v = (case v of JStr s \<Rightarrow> f s | _ \<Rightarrow> Inl ValueErrorS)"

text \<open>\<open>WorkState(value)\<close>: lookup by value.\<close>

definition enum_by :: "(string \<times> 'a) list \<Rightarrow> json \<Rightarrow> serror + 'a" where
  "enum_by table = string_by (\<lambda>s. case map_of table s of None \<Rightarrow> Inl ValueErrorS | Some x \<Rightarrow> Inr x)"

lemma enum_tables:
  "list_all (\<lambda>k. normalize_work_kind (work_kind_value k) = Inr k) [RECOVERY, PROMOTION_CONFIRMATION,
     PROMOTION_CANARY, SCREENING, CURATION, TRAINER, SELF_PLAY, BACKFILL]"
  "list_all (\<lambda>s. enum_by work_state_table (JStr (work_state_value s)) = Inr s)
     [QUEUED, W_CLAIMED, W_COMPLETED, W_FAILED, W_CANCELLED]"
  "list_all (\<lambda>c. normalize_release_outcome (release_outcome_value c) = Inr c) [COMPLETED, REQUEUE, FAILED, CANCELLED]"
  "list_all (\<lambda>p. enum_by preemption_status_table (JStr (preemption_status_value p)) = Inr p)
     [PENDING, BOUNDARY_REACHED]"
  "list_all (\<lambda>r. normalize_idle_reason (idle_reason_value r) = Inr r)
     [NO_RUNNABLE_WORK, CHECKPOINT_BOUNDARY, LEASE_HANDOFF, SAFETY_HALT]"
  by code_simp+

lemma enum_round_trips [simp]:
  "normalize_work_kind (work_kind_value k) = Inr k"
  "enum_by work_state_table (JStr (work_state_value s)) = Inr s"
  "normalize_release_outcome (release_outcome_value c) = Inr c"
  "enum_by preemption_status_table (JStr (preemption_status_value p)) = Inr p"
  "normalize_idle_reason (idle_reason_value r) = Inr r"
  using enum_tables by (cases k, simp_all) (cases s, simp_all, cases c, simp_all, cases p, simp_all, cases r, simp_all)

section \<open>Records\<close>

definition work_item_to_dict :: "work_item \<Rightarrow> jobj" where
  "work_item_to_dict w = [
     (''eligible_gpus'', case wi_eligible_gpus w of None \<Rightarrow> JNull | Some xs \<Rightarrow> JList (map JStr xs)),
     (''kind'', JStr (work_kind_value (wi_kind w))), (''payload'', JObj (wi_payload w)),
     (''preemptible'', JBool (wi_preemptible w)), (''preferred_gpu'', jopt (wi_preferred_gpu w)),
     (''work_id'', JStr (wi_work_id w))]"

definition gpu_list_of :: "json \<Rightarrow> serror + string list option" where
  "gpu_list_of v = (case v of JNull \<Rightarrow> Inr None
     | JList xs \<Rightarrow> bindE (mapE identifier_of xs) (\<lambda>gs. Inr (Some gs)) | _ \<Rightarrow> Inl SchedulerStateError)"

definition work_item_from_dict :: "json \<Rightarrow> serror + work_item" where
  "work_item_from_dict v =
    bindE (fields_of [''work_id'', ''kind'', ''eligible_gpus'', ''preemptible'', ''preferred_gpu'', ''payload''] v)
    (\<lambda>d. state_error (
      bindE (gpu_list_of (jget d ''eligible_gpus'')) (\<lambda>eligible.
      bindE (identifier_of (jget d ''work_id'')) (\<lambda>wid.
      bindE (string_by normalize_work_kind (jget d ''kind'')) (\<lambda>kind.
      bindE (bool_of (jget d ''preemptible'')) (\<lambda>preemptible.
      bindE (opt_identifier_of (jget d ''preferred_gpu'')) (\<lambda>preferred.
      bindE (object_of (jget d ''payload'')) (\<lambda>payload.
        work_item_init wid kind eligible preemptible preferred payload))))))))"

definition claim_to_dict :: "claim \<Rightarrow> jobj" where
  "claim_to_dict c = [(''claim_id'', JStr (cl_claim_id c)), (''claimed_at'', JFloat (cl_claimed_at c)),
     (''gpu_id'', JStr (cl_gpu_id c)), (''owner_id'', JStr (cl_owner_id c)),
     (''sequence'', JInt (cl_sequence c)), (''stolen'', JBool (cl_stolen c)),
     (''work_id'', JStr (cl_work_id c))]"

definition claim_from_dict :: "json \<Rightarrow> serror + claim" where
  "claim_from_dict v =
    bindE (fields_of [''claim_id'', ''work_id'', ''gpu_id'', ''owner_id'', ''claimed_at'', ''sequence'',
        ''stolen''] v) (\<lambda>d.
      bindE (state_error (
        bindE (identifier_of (jget d ''claim_id'')) (\<lambda>cid.
        bindE (identifier_of (jget d ''work_id'')) (\<lambda>wid.
        bindE (identifier_of (jget d ''gpu_id'')) (\<lambda>gid.
        bindE (identifier_of (jget d ''owner_id'')) (\<lambda>oid.
        bindE (float_of (jget d ''claimed_at'')) (\<lambda>t.
        bindE (require_positive_int (jget d ''sequence'')) (\<lambda>n.
        bindE (bool_of (jget d ''stolen'')) (\<lambda>stolen.
          Inr \<lparr>cl_claim_id = cid, cl_work_id = wid, cl_gpu_id = gid, cl_owner_id = oid,
            cl_claimed_at = t, cl_sequence = n, cl_stolen = stolen\<rparr>))))))))) (\<lambda>c.
      finite_or_error (isfinite (cl_claimed_at c)) c))"

definition release_to_dict :: "release_record \<Rightarrow> jobj" where
  "release_to_dict l = [(''claim_id'', JStr (rr_claim_id l)), (''gpu_id'', JStr (rr_gpu_id l)),
     (''outcome'', JStr (release_outcome_value (rr_outcome l))), (''owner_id'', JStr (rr_owner_id l)),
     (''release_id'', JStr (rr_release_id l)), (''released_at'', JFloat (rr_released_at l)),
     (''sequence'', JInt (rr_sequence l)), (''work_id'', JStr (rr_work_id l))]"

definition release_from_dict :: "json \<Rightarrow> serror + release_record" where
  "release_from_dict v =
    bindE (fields_of [''release_id'', ''claim_id'', ''work_id'', ''gpu_id'', ''owner_id'', ''outcome'',
        ''released_at'', ''sequence''] v) (\<lambda>d.
      bindE (state_error (
        bindE (identifier_of (jget d ''release_id'')) (\<lambda>rid.
        bindE (identifier_of (jget d ''claim_id'')) (\<lambda>cid.
        bindE (identifier_of (jget d ''work_id'')) (\<lambda>wid.
        bindE (identifier_of (jget d ''gpu_id'')) (\<lambda>gid.
        bindE (identifier_of (jget d ''owner_id'')) (\<lambda>oid.
        bindE (string_by normalize_release_outcome (jget d ''outcome'')) (\<lambda>oc.
        bindE (float_of (jget d ''released_at'')) (\<lambda>t.
        bindE (require_positive_int (jget d ''sequence'')) (\<lambda>n.
          Inr \<lparr>rr_release_id = rid, rr_claim_id = cid, rr_work_id = wid, rr_gpu_id = gid,
            rr_owner_id = oid, rr_outcome = oc, rr_released_at = t, rr_sequence = n\<rparr>)))))))))) (\<lambda>l.
      finite_or_error (isfinite (rr_released_at l)) l))"

definition work_record_to_dict :: "work_record \<Rightarrow> jobj" where
  "work_record_to_dict r = [(''active_claim_id'', jopt (wr_active_claim_id r)),
     (''attempts'', JInt (wr_attempts r)), (''enqueue_sequence'', JInt (wr_enqueue_sequence r)),
     (''item'', JObj (work_item_to_dict (wr_item r))),
     (''last_release'', case wr_last_release r of None \<Rightarrow> JNull | Some l \<Rightarrow> JObj (release_to_dict l)),
     (''state'', JStr (work_state_value (wr_state r)))]"

definition work_record_from_dict :: "json \<Rightarrow> serror + work_record" where
  "work_record_from_dict v =
    bindE (fields_of [''item'', ''state'', ''enqueue_sequence'', ''attempts'', ''active_claim_id'',
        ''last_release''] v) (\<lambda>d. state_error (
      bindE (enum_by work_state_table (jget d ''state'')) (\<lambda>state.
      bindE (require_positive_int (jget d ''enqueue_sequence'')) (\<lambda>n.
      bindE (require_nonnegative_int (jget d ''attempts'')) (\<lambda>attempts.
      bindE (opt_identifier_of (jget d ''active_claim_id'')) (\<lambda>active.
      bindE (case jget d ''last_release'' of JNull \<Rightarrow> Inr () | JObj _ \<Rightarrow> Inr () | _ \<Rightarrow> Inl ValueErrorS) (\<lambda>_.
      bindE (work_item_from_dict (jget d ''item'')) (\<lambda>item.
      bindE (case jget d ''last_release'' of JNull \<Rightarrow> Inr None
          | raw \<Rightarrow> bindE (release_from_dict raw) (\<lambda>l. Inr (Some l))) (\<lambda>rel.
        Inr \<lparr>wr_item = item, wr_state = state, wr_enqueue_sequence = n, wr_attempts = attempts,
          wr_active_claim_id = active, wr_last_release = rel\<rparr>)))))))))"

definition preemption_to_dict :: "preemption_request \<Rightarrow> jobj" where
  "preemption_to_dict p = [
     (''boundary_at'', case pq_boundary_at p of None \<Rightarrow> JNull | Some t \<Rightarrow> JFloat t),
     (''claim_id'', JStr (pq_claim_id p)), (''gpu_id'', JStr (pq_gpu_id p)),
     (''reason'', JStr (pq_reason p)), (''request_id'', JStr (pq_request_id p)),
     (''requested_at'', JFloat (pq_requested_at p)), (''requested_by'', JStr (pq_requested_by p)),
     (''requested_for_work_id'', JStr (pq_requested_for_work_id p)),
     (''running_work_id'', JStr (pq_running_work_id p)), (''sequence'', JInt (pq_sequence p)),
     (''status'', JStr (preemption_status_value (pq_status p)))]"

definition preemption_from_dict :: "json \<Rightarrow> serror + preemption_request" where
  "preemption_from_dict v =
    bindE (fields_of [''request_id'', ''gpu_id'', ''claim_id'', ''running_work_id'', ''requested_for_work_id'',
        ''requested_by'', ''reason'', ''requested_at'', ''sequence'', ''status'', ''boundary_at''] v) (\<lambda>d.
      bindE (state_error (
        bindE (identifier_of (jget d ''request_id'')) (\<lambda>rid.
        bindE (identifier_of (jget d ''gpu_id'')) (\<lambda>gid.
        bindE (identifier_of (jget d ''claim_id'')) (\<lambda>cid.
        bindE (identifier_of (jget d ''running_work_id'')) (\<lambda>running.
        bindE (identifier_of (jget d ''requested_for_work_id'')) (\<lambda>for_work.
        bindE (identifier_of (jget d ''requested_by'')) (\<lambda>by.
        bindE (identifier_of (jget d ''reason'')) (\<lambda>reason.
        bindE (float_of (jget d ''requested_at'')) (\<lambda>t.
        bindE (require_positive_int (jget d ''sequence'')) (\<lambda>n.
        bindE (enum_by preemption_status_table (jget d ''status'')) (\<lambda>status.
        bindE (opt_float_of (jget d ''boundary_at'')) (\<lambda>boundary.
          Inr \<lparr>pq_request_id = rid, pq_gpu_id = gid, pq_claim_id = cid, pq_running_work_id = running,
            pq_requested_for_work_id = for_work, pq_requested_by = by, pq_reason = reason,
            pq_requested_at = t, pq_sequence = n, pq_status = status, pq_boundary_at = boundary\<rparr>))))))))))))) (\<lambda>p.
      if \<not> isfinite (pq_requested_at p) \<or> \<not> opt_all isfinite (pq_boundary_at p) then Inl SchedulerStateError
      else if pq_status p = PENDING \<and> pq_boundary_at p \<noteq> None
         \<or> pq_status p = BOUNDARY_REACHED \<and> pq_boundary_at p = None then Inl SchedulerStateError
      else Inr p))"

definition idle_event_to_dict :: "idle_event \<Rightarrow> jobj" where
  "idle_event_to_dict e = [(''details'', JObj (ie_details e)), (''event_id'', JStr (ie_event_id e)),
     (''gpu_id'', JStr (ie_gpu_id e)), (''owner_id'', jopt (ie_owner_id e)),
     (''reason'', JStr (idle_reason_value (ie_reason e))), (''recorded_at'', JFloat (ie_recorded_at e)),
     (''sequence'', JInt (ie_sequence e)), (''work_id'', jopt (ie_work_id e))]"

definition idle_event_from_dict :: "json \<Rightarrow> serror + idle_event" where
  "idle_event_from_dict v =
    bindE (fields_of [''event_id'', ''gpu_id'', ''reason'', ''recorded_at'', ''sequence'', ''owner_id'',
        ''work_id'', ''details''] v) (\<lambda>d.
      bindE (state_error (
        bindE (opt_identifier_of (jget d ''owner_id'')) (\<lambda>owner.
        bindE (opt_identifier_of (jget d ''work_id'')) (\<lambda>work.
        bindE (identifier_of (jget d ''event_id'')) (\<lambda>eid.
        bindE (identifier_of (jget d ''gpu_id'')) (\<lambda>gid.
        bindE (string_by normalize_idle_reason (jget d ''reason'')) (\<lambda>reason.
        bindE (float_of (jget d ''recorded_at'')) (\<lambda>t.
        bindE (require_positive_int (jget d ''sequence'')) (\<lambda>n.
        bindE (object_of (jget d ''details'')) (\<lambda>details.
          Inr \<lparr>ie_event_id = eid, ie_gpu_id = gid, ie_reason = reason, ie_recorded_at = t, ie_sequence = n,
            ie_owner_id = owner, ie_work_id = work, ie_details = details\<rparr>)))))))))) (\<lambda>e.
      finite_or_error (isfinite (ie_recorded_at e)) e))"

definition halt_to_dict :: "halt \<Rightarrow> jobj" where
  "halt_to_dict h = [(''reason'', JStr (ha_reason h)), (''set_at'', JFloat (ha_set_at h))]"

definition halt_from_dict :: "json \<Rightarrow> serror + halt option" where
  "halt_from_dict v = (case v of JNull \<Rightarrow> Inr None
     | _ \<Rightarrow> bindE (fields_of [''reason'', ''set_at''] v) (\<lambda>d.
         bindE (state_error (
           bindE (identifier_of (jget d ''reason'')) (\<lambda>reason.
           bindE (float_of (jget d ''set_at'')) (\<lambda>t. Inr \<lparr>ha_reason = reason, ha_set_at = t\<rparr>)))) (\<lambda>h.
         finite_or_error (isfinite (ha_set_at h)) (Some h))))"

subsection \<open>Round trips\<close>

lemma jget_Cons [simp]: "jget ((k, v) # d) l = (if l = k then v else jget d l)"
  by (simp add: jget_def)

lemma mapE_map: "(\<And>x. x \<in> set xs \<Longrightarrow> f (g x) = Inr (h x)) \<Longrightarrow> mapE f (map g xs) = Inr (map h xs)"
  by (induction xs) auto

lemma mapE_round_trip: "(\<And>x. x \<in> set xs \<Longrightarrow> f (g x) = Inr x) \<Longrightarrow> mapE f (map g xs) = Inr xs"
  using mapE_map [of xs f g "\<lambda>x. x"] by simp

lemma opt_identifier_jopt: "opt_all ident x \<Longrightarrow> opt_identifier_of (jopt x) = Inr x"
  by (cases x) (simp_all add: require_identifier_def)

lemma require_ident [simp]: "ident s \<Longrightarrow> require_identifier s = Inr s"
  by (simp add: require_identifier_def)

lemma json_object_ok: "payload_ok p \<Longrightarrow> json_object p = Inr p"
  by (simp add: json_object_def) (simp add: payload_ok_def)

lemma state_error_Inr [simp]: "state_error (Inr x) = Inr x"
  by (simp add: state_error_def)

lemma work_item_init_fixed:
  assumes "work_item_ok w"
  shows "work_item_init (wi_work_id w) (wi_kind w) (wi_eligible_gpus w) (wi_preemptible w)
    (wi_preferred_gpu w) (wi_payload w) = Inr w"
proof -
  have "normalize_gpus (wi_eligible_gpus w) = Inr (wi_eligible_gpus w)"
    using assms by (auto simp: work_item_ok_def normalize_gpus_def sort_key_sorted split: option.splits)
  with assms show ?thesis
    by (auto simp: work_item_init_def work_item_ok_def json_object_ok split: option.splits)
qed

lemma work_item_round_trip:
  assumes "work_item_ok w"
  shows "work_item_from_dict (JObj (work_item_to_dict w)) = Inr w"
proof -
  have "gpu_list_of (case wi_eligible_gpus w of None \<Rightarrow> JNull | Some xs \<Rightarrow> JList (map JStr xs)) = Inr (wi_eligible_gpus w)"
    using assms by (auto simp: gpu_list_of_def work_item_ok_def list_all_iff mapE_round_trip split: option.splits)
  with assms work_item_init_fixed [OF assms] show ?thesis
    by (auto simp: work_item_from_dict_def work_item_to_dict_def fields_of_def work_item_ok_def
        opt_identifier_jopt string_by_def json_object_ok)
qed

lemma claim_round_trip: "claim_ok c \<Longrightarrow> claim_from_dict (JObj (claim_to_dict c)) = Inr c"
  by (auto simp: claim_from_dict_def claim_to_dict_def fields_of_def claim_ok_def finite_or_error_def)

lemma release_round_trip: "release_ok l \<Longrightarrow> release_from_dict (JObj (release_to_dict l)) = Inr l"
  by (auto simp: release_from_dict_def release_to_dict_def fields_of_def release_ok_def finite_or_error_def
      string_by_def)

lemma work_record_round_trip:
  assumes "work_record_ok r"
  shows "work_record_from_dict (JObj (work_record_to_dict r)) = Inr r"
  using assms by (cases "wr_last_release r")
    (auto simp: work_record_from_dict_def work_record_to_dict_def fields_of_def work_record_ok_def
      opt_identifier_jopt work_item_round_trip release_round_trip)

lemma preemption_keys:
  "set [''boundary_at'', ''claim_id'', ''gpu_id'', ''reason'', ''request_id'', ''requested_at'', ''requested_by'',
     ''requested_for_work_id'', ''running_work_id'', ''sequence'', ''status''] =
   set [''request_id'', ''gpu_id'', ''claim_id'', ''running_work_id'', ''requested_for_work_id'',
     ''requested_by'', ''reason'', ''requested_at'', ''sequence'', ''status'', ''boundary_at'']"
  by code_simp

lemma preemption_fields:
  "fields_of [''request_id'', ''gpu_id'', ''claim_id'', ''running_work_id'', ''requested_for_work_id'',
     ''requested_by'', ''reason'', ''requested_at'', ''sequence'', ''status'', ''boundary_at'']
     (JObj (preemption_to_dict p)) = Inr (preemption_to_dict p)"
  unfolding fields_of_def json.case preemption_to_dict_def list.map fst_conv preemption_keys by simp

lemma preemption_round_trip:
  assumes "preemption_ok p"
  shows "preemption_from_dict (JObj (preemption_to_dict p)) = Inr p"
  unfolding preemption_from_dict_def preemption_fields bindE_simps using assms
  by (cases "pq_boundary_at p"; cases "pq_status p")
    (simp_all add: preemption_to_dict_def preemption_ok_def del: preemption_status_value.simps)

lemma idle_event_round_trip:
  "idle_event_ok e \<Longrightarrow> idle_event_from_dict (JObj (idle_event_to_dict e)) = Inr e"
  by (auto simp: idle_event_from_dict_def idle_event_to_dict_def fields_of_def idle_event_ok_def
      opt_identifier_jopt string_by_def json_object_ok finite_or_error_def)

lemma halt_round_trip: "validate_halt h \<Longrightarrow> halt_from_dict (JObj (halt_to_dict h)) = Inr (Some h)"
  by (auto simp: halt_from_dict_def halt_to_dict_def fields_of_def validate_halt_def finite_or_error_def)

lemma halt_null: "halt_from_dict JNull = Inr None"
  by (simp add: halt_from_dict_def)

section \<open>The state document\<close>

definition dict_json :: "('a \<Rightarrow> json) \<Rightarrow> (string, 'a) dict \<Rightarrow> json" where
  "dict_json f d = JObj (map (\<lambda>(k, x). (k, f x)) d)"

definition SCHEMA_VERSION :: int where
  "SCHEMA_VERSION = 1"

definition MAX_STATE_BYTES :: int where
  "MAX_STATE_BYTES = 64 * 1024 * 1024"

definition state_body :: "sched \<Rightarrow> jobj" where
  "state_body s = [
     (''claims'', dict_json (\<lambda>c. JObj (claim_to_dict c)) (sc_claims s)),
     (''dynamic_gpus'', JBool (sc_dynamic_gpus s)), (''gpu_ids'', JList (map JStr (sc_gpu_ids s))),
     (''gpu_safety_halts'', dict_json (\<lambda>h. JObj (halt_to_dict h)) (sc_gpu_halts s)),
     (''idle'', dict_json JStr (sc_idle s)),
     (''idle_events'', JList (map (\<lambda>e. JObj (idle_event_to_dict e)) (sc_idle_events s))),
     (''next_sequence'', JInt (sc_next_sequence s)),
     (''preemption_requests'', dict_json (\<lambda>p. JObj (preemption_to_dict p)) (sc_preemptions s)),
     (''revision'', JInt (sc_revision s)),
     (''safety_halt'', case sc_safety_halt s of None \<Rightarrow> JNull | Some h \<Rightarrow> JObj (halt_to_dict h)),
     (''schema_version'', JInt SCHEMA_VERSION),
     (''work'', dict_json (\<lambda>r. JObj (work_record_to_dict r)) (sc_work s))]"

definition state_dict :: "promo_env \<Rightarrow> sched \<Rightarrow> jobj" where
  "state_dict env s = jset (state_body s) ''state_sha256'' (JStr (canonical_sha256 env (JObj (state_body s))))"

definition state_fields :: "string list" where
  "state_fields = [''schema_version'', ''revision'', ''next_sequence'', ''dynamic_gpus'', ''gpu_ids'', ''work'',
     ''claims'', ''preemption_requests'', ''idle_events'', ''idle'', ''safety_halt'', ''gpu_safety_halts'',
     ''state_sha256'']"

definition dict_of :: "(json \<Rightarrow> serror + 'a) \<Rightarrow> json \<Rightarrow> serror + (string, 'a) dict" where
  "dict_of f v = (case v of
     JObj d \<Rightarrow> mapE (\<lambda>(k, x). bindE (f x) (\<lambda>y. Inr (k, y))) d
   | _ \<Rightarrow> Inl SchedulerStateError)"

definition list_of :: "(json \<Rightarrow> serror + 'a) \<Rightarrow> json \<Rightarrow> serror + 'a list" where
  "list_of f v = (case v of JList xs \<Rightarrow> mapE f xs | _ \<Rightarrow> Inl SchedulerStateError)"

definition hash_matches :: "promo_env \<Rightarrow> jobj \<Rightarrow> bool" where
  "hash_matches env d \<longleftrightarrow> (case jget d ''state_sha256'' of
     JStr h \<Rightarrow> length h = 64 \<and> h = canonical_sha256 env (JObj (ddel d ''state_sha256''))
   | _ \<Rightarrow> False)"

definition schema_matches :: "json \<Rightarrow> bool" where
  "schema_matches v \<longleftrightarrow> py_eq v (JInt SCHEMA_VERSION) \<and> (case v of JBool _ \<Rightarrow> False | _ \<Rightarrow> True)"

text \<open>A \<open>null\<close> entry of \<open>gpu_safety_halts\<close> validates, and every operation treats it as absent.\<close>

definition drop_nulls :: "(string, 'a option) dict \<Rightarrow> (string, 'a) dict" where
  "drop_nulls d = concat (map (\<lambda>(k, x). case x of None \<Rightarrow> [] | Some y \<Rightarrow> [(k, y)]) d)"

definition null_gpus_known :: "string list \<Rightarrow> (string, 'a option) dict \<Rightarrow> bool" where
  "null_gpus_known gpus d \<longleftrightarrow> list_all (\<lambda>(g, _). g \<in> set gpus) d"

definition state_from_dict :: "promo_env \<Rightarrow> json \<Rightarrow> serror + sched" where
  "state_from_dict env v =
    bindE (fields_of state_fields v) (\<lambda>d.
    if \<not> schema_matches (jget d ''schema_version'') then Inl SchedulerStateError
    else bindE (require_nonnegative_int (jget d ''revision'')) (\<lambda>revision.
    bindE (require_positive_int (jget d ''next_sequence'')) (\<lambda>next.
    bindE (state_error (bool_of (jget d ''dynamic_gpus''))) (\<lambda>dynamic.
    bindE (state_error (list_of identifier_of (jget d ''gpu_ids''))) (\<lambda>gpus.
    if \<not> hash_matches env d then Inl SchedulerStateError
    else bindE (dict_of work_record_from_dict (jget d ''work'')) (\<lambda>work.
    bindE (dict_of claim_from_dict (jget d ''claims'')) (\<lambda>claims.
    bindE (dict_of preemption_from_dict (jget d ''preemption_requests'')) (\<lambda>requests.
    bindE (list_of idle_event_from_dict (jget d ''idle_events'')) (\<lambda>events.
    bindE (dict_of (\<lambda>x. state_error (string_by Inr x)) (jget d ''idle'')) (\<lambda>idle.
    bindE (halt_from_dict (jget d ''safety_halt'')) (\<lambda>halt.
    bindE (dict_of halt_from_dict (jget d ''gpu_safety_halts'')) (\<lambda>halts.
      let s = \<lparr>sc_revision = revision, sc_next_sequence = next, sc_dynamic_gpus = dynamic, sc_gpu_ids = gpus,
        sc_work = work, sc_claims = claims, sc_preemptions = requests, sc_idle_events = events,
        sc_idle = idle, sc_safety_halt = halt, sc_gpu_halts = drop_nulls halts\<rparr>
      in if null_gpus_known gpus halts \<and> validate_state s then Inr s else Inl SchedulerStateError))))))))))))"

definition state_bytes :: "promo_env \<Rightarrow> sched \<Rightarrow> string" where
  "state_bytes env s = dumps env (JObj (state_dict env s)) @ newline"

definition load_state :: "promo_env \<Rightarrow> fentry option \<Rightarrow> serror + sched" where
  "load_state env file = (case file of
     None \<Rightarrow> Inl SchedulerStateError
   | Some SpecialFile \<Rightarrow> Inl SchedulerStateError
   | Some (RegularFile data) \<Rightarrow>
       if int (length data) > MAX_STATE_BYTES then Inl SchedulerStateError
       else (case loads env data of
          None \<Rightarrow> Inl SchedulerStateError
        | Some v \<Rightarrow>
          if \<not> unique_object v \<or> \<not> jfinite v then Inl SchedulerStateError
          else if (case v of JObj _ \<Rightarrow> False | _ \<Rightarrow> True) then Inl SchedulerStateError
          else if data \<noteq> dumps env (jnorm v) @ newline then Inl SchedulerStateError
          else state_from_dict env v))"

definition write_state :: "promo_env \<Rightarrow> fentry option \<Rightarrow> sched \<Rightarrow> serror + fentry" where
  "write_state env file s = (if \<not> validate_state s then Inl SchedulerStateError
     else if file = Some SpecialFile then Inl SchedulerStateError
     else Inr (RegularFile (state_bytes env s)))"

section \<open>Reading back what was written\<close>

lemma dict_round_trip:
  assumes "\<And>k x. (k, x) \<in> set d \<Longrightarrow> f (g x) = Inr x"
  shows "dict_of f (dict_json g d) = Inr d"
proof -
  have "mapE (\<lambda>(k, x). bindE (f x) (\<lambda>y. Inr (k, y))) (map (\<lambda>(k, x). (k, g x)) d) = Inr d"
    by (rule mapE_round_trip) (use assms in auto)
  then show ?thesis by (simp add: dict_of_def dict_json_def)
qed

lemma ddel_jset: "k \<notin> fst ` set p \<Longrightarrow> ddel (jset p k v) k = p"
proof (induction p k v rule: jset.induct)
  case (2 l w p k v)
  then have "ddel p k = p" by (auto simp: ddel_def filter_id_conv)
  with 2 show ?case by (auto simp: ddel_def)
qed (simp add: ddel_def)

lemma state_keys:
  "set [''claims'', ''dynamic_gpus'', ''gpu_ids'', ''gpu_safety_halts'', ''idle'', ''idle_events'',
     ''next_sequence'', ''preemption_requests'', ''revision'', ''safety_halt'', ''schema_version'', ''work''] =
   set state_fields - {''state_sha256''}"
  by code_simp

lemma state_dict_fields: "fields_of state_fields (JObj (state_dict env s)) = Inr (state_dict env s)"
proof -
  have "set (map fst (state_body s)) = set state_fields - {''state_sha256''}"
    unfolding state_body_def list.map fst_conv by (rule state_keys)
  moreover have "''state_sha256'' \<in> set state_fields" by (simp add: state_fields_def)
  ultimately have "set (map fst (state_dict env s)) = set state_fields"
    unfolding state_dict_def set_map jset_keys by auto
  then show ?thesis by (simp add: fields_of_def)
qed

lemma state_body_no_hash: "''state_sha256'' \<notin> fst ` set (state_body s)"
  by (simp add: state_body_def)

lemma jget_state_dict: "k \<noteq> ''state_sha256'' \<Longrightarrow> jget (state_dict env s) k = jget (state_body s) k"
  by (simp add: state_dict_def jget_jset)

lemma state_hash:
  assumes "\<forall>x. length (sha256_bytes env x) = 64"
  shows "hash_matches env (state_dict env s)"
  using assms ddel_jset [OF state_body_no_hash]
  by (simp add: hash_matches_def state_dict_def jget_jset canonical_sha256_def)

lemma drop_nulls_Some: "drop_nulls (map (\<lambda>(k, x). (k, Some x)) d) = d"
  by (induction d) (auto simp: drop_nulls_def)

lemma halts_round_trip:
  assumes "\<And>k h. (k, h) \<in> set d \<Longrightarrow> validate_halt h"
  shows "dict_of halt_from_dict (dict_json (\<lambda>h. JObj (halt_to_dict h)) d) = Inr (map (\<lambda>(k, x). (k, Some x)) d)"
proof -
  have "mapE (\<lambda>(k, x). bindE (halt_from_dict x) (\<lambda>y. Inr (k, y))) (map (\<lambda>(k, h). (k, JObj (halt_to_dict h))) d)
      = Inr (map (\<lambda>(k, x). (k, Some x)) d)"
    by (rule mapE_map) (use assms in \<open>auto simp: halt_round_trip\<close>)
  then show ?thesis by (simp add: dict_of_def dict_json_def)
qed

text \<open>What validation demands of the single records.\<close>

lemma validate_records:
  assumes "validate_state s"
  shows "(k, r) \<in> set (sc_work s) \<Longrightarrow> work_record_ok r" "(g, c) \<in> set (sc_claims s) \<Longrightarrow> claim_ok c"
    "(q, p) \<in> set (sc_preemptions s) \<Longrightarrow> preemption_ok p" "e \<in> set (sc_idle_events s) \<Longrightarrow> idle_event_ok e"
    "(g', h) \<in> set (sc_gpu_halts s) \<Longrightarrow> validate_halt h \<and> g' \<in> set (sc_gpu_ids s)"
    "opt_all validate_halt (sc_safety_halt s)"
    "x \<in> set (sc_gpu_ids s) \<Longrightarrow> ident x"
  using assms by (auto simp: validate_state_def valid_work_def valid_claims_def valid_preemptions_def
      valid_idle_def valid_halts_def valid_gpus_def list_all_iff)

lemma state_round_trip:
  assumes "validate_state s" "\<forall>x. length (sha256_bytes env x) = 64"
  shows "state_from_dict env (JObj (state_dict env s)) = Inr s"
proof -
  note ok = validate_records [OF assms(1)]
  have get: "jget (state_dict env s) ''schema_version'' = JInt 1"
    "jget (state_dict env s) ''revision'' = JInt (sc_revision s)"
    "jget (state_dict env s) ''next_sequence'' = JInt (sc_next_sequence s)"
    "jget (state_dict env s) ''dynamic_gpus'' = JBool (sc_dynamic_gpus s)"
    "jget (state_dict env s) ''gpu_ids'' = JList (map JStr (sc_gpu_ids s))"
    "jget (state_dict env s) ''work'' = dict_json (\<lambda>r. JObj (work_record_to_dict r)) (sc_work s)"
    "jget (state_dict env s) ''claims'' = dict_json (\<lambda>c. JObj (claim_to_dict c)) (sc_claims s)"
    "jget (state_dict env s) ''preemption_requests'' = dict_json (\<lambda>p. JObj (preemption_to_dict p)) (sc_preemptions s)"
    "jget (state_dict env s) ''idle_events'' = JList (map (\<lambda>e. JObj (idle_event_to_dict e)) (sc_idle_events s))"
    "jget (state_dict env s) ''idle'' = dict_json JStr (sc_idle s)"
    "jget (state_dict env s) ''safety_halt'' = (case sc_safety_halt s of None \<Rightarrow> JNull | Some h \<Rightarrow> JObj (halt_to_dict h))"
    "jget (state_dict env s) ''gpu_safety_halts'' = dict_json (\<lambda>h. JObj (halt_to_dict h)) (sc_gpu_halts s)"
    by (simp_all add: jget_state_dict state_body_def SCHEMA_VERSION_def)
  have parts: "list_of identifier_of (JList (map JStr (sc_gpu_ids s))) = Inr (sc_gpu_ids s)"
    "dict_of work_record_from_dict (dict_json (\<lambda>r. JObj (work_record_to_dict r)) (sc_work s)) = Inr (sc_work s)"
    "dict_of claim_from_dict (dict_json (\<lambda>c. JObj (claim_to_dict c)) (sc_claims s)) = Inr (sc_claims s)"
    "dict_of preemption_from_dict (dict_json (\<lambda>p. JObj (preemption_to_dict p)) (sc_preemptions s)) = Inr (sc_preemptions s)"
    "list_of idle_event_from_dict (JList (map (\<lambda>e. JObj (idle_event_to_dict e)) (sc_idle_events s))) = Inr (sc_idle_events s)"
    "dict_of (\<lambda>x. state_error (string_by Inr x)) (dict_json JStr (sc_idle s)) = Inr (sc_idle s)"
    "halt_from_dict (case sc_safety_halt s of None \<Rightarrow> JNull | Some h \<Rightarrow> JObj (halt_to_dict h)) = Inr (sc_safety_halt s)"
    "dict_of halt_from_dict (dict_json (\<lambda>h. JObj (halt_to_dict h)) (sc_gpu_halts s)) = Inr (map (\<lambda>(k, x). (k, Some x)) (sc_gpu_halts s))"
    using ok(6) by (auto simp: list_of_def string_by_def halt_round_trip halt_null
        intro!: mapE_round_trip dict_round_trip halts_round_trip work_record_round_trip claim_round_trip
          preemption_round_trip idle_event_round_trip dest: ok(1-5,7) split: option.splits)
  have halts: "null_gpus_known (sc_gpu_ids s) (map (\<lambda>(k, x). (k, Some x)) (sc_gpu_halts s))"
    using ok(5) by (auto simp: null_gpus_known_def list_all_iff)
  have nums: "0 \<le> sc_revision s" "1 \<le> sc_next_sequence s" using assms(1) by (simp_all add: validate_state_def)
  have same: "\<lparr>sc_revision = sc_revision s, sc_next_sequence = sc_next_sequence s,
      sc_dynamic_gpus = sc_dynamic_gpus s, sc_gpu_ids = sc_gpu_ids s, sc_work = sc_work s,
      sc_claims = sc_claims s, sc_preemptions = sc_preemptions s, sc_idle_events = sc_idle_events s,
      sc_idle = sc_idle s, sc_safety_halt = sc_safety_halt s, sc_gpu_halts = sc_gpu_halts s\<rparr> = s" by simp
  show ?thesis unfolding state_from_dict_def state_dict_fields bindE_simps get
    using nums by (simp add: parts state_hash [OF assms(2)] halts drop_nulls_Some assms(1) same Let_def
        schema_matches_def SCHEMA_VERSION_def py_eq.simps not_less)
qed

subsection \<open>The canonical text\<close>

text \<open>Values that canonical JSON leaves as they are.\<close>

definition jok :: "json \<Rightarrow> bool" where
  "jok v \<longleftrightarrow> jfinite v \<and> unique_object v \<and> jnorm v = v"

lemma jok_simps [simp]:
  "jok JNull" "jok (JBool b)" "jok (JInt i)" "jok (JStr s)" "jok (JFloat x) \<longleftrightarrow> isfinite x" "jok (jopt y)"
  by (simp_all add: jok_def, cases y, simp_all)

lemma jok_list: "(\<And>v. v \<in> set xs \<Longrightarrow> jok v) \<Longrightarrow> jok (JList xs)"
  by (auto simp: jok_def list_all_iff map_idI)

lemma jok_strings [simp]: "jok (JList (map JStr xs))"
  by (rule jok_list) auto

lemma jok_obj: "jok (JObj p) \<longleftrightarrow> payload_ok p"
  by (simp only: jok_def payload_ok_def)

lemma payload_ok_jok: "payload_ok p \<longleftrightarrow> sorted_wrt (<) (map fst p) \<and> (\<forall>v \<in> snd ` set p. jok v)"
  by (simp add: payload_ok_iff jok_def)

definition sorted_state :: "sched \<Rightarrow> bool" where
  "sorted_state s \<longleftrightarrow> sorted (dkeys (sc_work s)) \<and> sorted (dkeys (sc_claims s))
     \<and> sorted (dkeys (sc_preemptions s)) \<and> sorted (dkeys (sc_idle s)) \<and> sorted (dkeys (sc_gpu_halts s))"

lemma dict_json_jok:
  assumes "dict_ok d" "sorted (dkeys d)" "\<And>k x. (k, x) \<in> set d \<Longrightarrow> jok (f x)"
  shows "jok (dict_json f d)"
proof -
  have "map fst (map (\<lambda>(k, x). (k, f x)) d) = dkeys d" by (auto simp: dkeys_def)
  moreover have "sorted_wrt (<) (dkeys d)" using assms(1,2) by (simp add: strict_sorted_iff dict_ok_def dkeys_def)
  ultimately have "payload_ok (map (\<lambda>(k, x). (k, f x)) d)"
    unfolding payload_ok_jok by (auto intro: assms(3))
  then show ?thesis by (simp add: dict_json_def jok_obj)
qed

lemma record_dicts_ok:
  "claim_ok c \<Longrightarrow> payload_ok (claim_to_dict c)" "release_ok l \<Longrightarrow> payload_ok (release_to_dict l)"
  "preemption_ok p \<Longrightarrow> payload_ok (preemption_to_dict p)"
  "validate_halt h \<Longrightarrow> payload_ok (halt_to_dict h)"
  "idle_event_ok e \<Longrightarrow> payload_ok (idle_event_to_dict e)"
  "work_item_ok w \<Longrightarrow> payload_ok (work_item_to_dict w)"
  unfolding payload_ok_jok
  by (auto simp: claim_to_dict_def claim_ok_def release_to_dict_def release_ok_def preemption_to_dict_def
      preemption_ok_def halt_to_dict_def validate_halt_def idle_event_to_dict_def idle_event_ok_def
      work_item_to_dict_def work_item_ok_def jok_obj split: option.splits)

lemma work_record_dict_ok: "work_record_ok r \<Longrightarrow> payload_ok (work_record_to_dict r)"
  unfolding payload_ok_jok
  by (auto simp: work_record_to_dict_def work_record_ok_def jok_obj record_dicts_ok split: option.splits)

lemma state_dict_ok:
  assumes "sched_inv s" "sorted_state s"
  shows "payload_ok (state_dict env s)"
proof -
  note ok = validate_records [OF sched_inv_validates [OF assms(1)]]
  have d: "dict_ok (sc_work s)" "dict_ok (sc_claims s)" "dict_ok (sc_preemptions s)" "dict_ok (sc_idle s)"
    "dict_ok (sc_gpu_halts s)" using assms(1) by (auto simp: sched_inv_def dest: inv_dict_oks)
  have j: "jok (dict_json (\<lambda>c. JObj (claim_to_dict c)) (sc_claims s))"
    "jok (dict_json (\<lambda>h. JObj (halt_to_dict h)) (sc_gpu_halts s))" "jok (dict_json JStr (sc_idle s))"
    "jok (dict_json (\<lambda>p. JObj (preemption_to_dict p)) (sc_preemptions s))"
    "jok (dict_json (\<lambda>r. JObj (work_record_to_dict r)) (sc_work s))"
    using d assms(2) unfolding sorted_state_def
    by (auto intro!: dict_json_jok simp: jok_obj record_dicts_ok work_record_dict_ok dest: ok(1-5))
  have "jok (JList (map (\<lambda>e. JObj (idle_event_to_dict e)) (sc_idle_events s)))"
    by (rule jok_list) (auto simp: jok_obj record_dicts_ok dest: ok(4))
  moreover have "jok (case sc_safety_halt s of None \<Rightarrow> JNull | Some h \<Rightarrow> JObj (halt_to_dict h))"
    using ok(6) by (auto simp: jok_obj record_dicts_ok split: option.splits)
  moreover have "sorted_wrt (<) (map fst (state_body s))"
    unfolding state_body_def list.map fst_conv by simp
  ultimately have "payload_ok (state_body s)"
    unfolding payload_ok_jok using j by (simp add: state_body_def)
  then show ?thesis unfolding state_dict_def by (rule payload_ok_jset) simp_all
qed

lemma sorted_sealed: "sorted_state (sealed s)"
  by (simp add: sorted_state_def sealed_def seal_state_def dkeys_def)

lemma load_written:
  assumes "json_roundtrip env" "\<forall>x. length (sha256_bytes env x) = 64"
    "sched_inv s" "sorted_state s" "int (length (state_bytes env s)) \<le> MAX_STATE_BYTES"
  shows "load_state env (Some (RegularFile (state_bytes env s))) = Inr s"
proof -
  let ?v = "JObj (state_dict env s)"
  have ok: "jfinite ?v" "unique_object ?v" "jnorm ?v = ?v"
    using state_dict_ok [OF assms(3,4)] unfolding payload_ok_def by blast+
  with assms(1) have l: "loads env (state_bytes env s) = Some ?v"
    unfolding json_roundtrip_def state_bytes_def by blast
  have v: "jnorm ?v = ?v" "jfinite ?v" "unique_object ?v" using ok by blast+
  show ?thesis using assms(5)
    unfolding load_state_def option.case fentry.case l json.case v(1)
    by (simp only: v state_round_trip [OF sched_inv_validates [OF assms(3)] assms(2)] state_bytes_def
        not_less [symmetric] if_False not_True_eq_False simp_thms)
qed

section \<open>Durability of the reachable states\<close>

lemma kept_sorted: "kept s s' \<Longrightarrow> sorted_state s \<Longrightarrow> sorted_state s'"
  by (auto simp: kept_def sorted_sealed)

lemma step_sorted:
  assumes "sched_inv s" "sorted_state s" "sched_step clock s op = Inr s'"
  shows "sorted_state s'"
  using assms(3)
proof (cases op)
  case (OpEnqueue wid kind eligible pre pref payload)
  with assms(3) obtain item r where "enqueue s item = Inr (r, s')" "work_item_ok item"
    by (auto simp: bindE_Inr state_of_Inr dest!: resolve_item_ok)
  from this(1) assms(1) this(2) show ?thesis
    by (cases rule: enqueue_cases) (simp_all add: assms(2) sorted_sealed)
next
  case (OpEnqueueItem wid kind eligible pre pref payload)
  with assms(3) obtain item r where "enqueue s item = Inr (r, s')" "work_item_ok item"
    by (auto simp: bindE_Inr state_of_Inr dest!: work_item_init_ok resolve_item_ok)
  from this(1) assms(1) this(2) show ?thesis
    by (cases rule: enqueue_cases) (simp_all add: assms(2) sorted_sealed)
next
  case (OpClaim h owner)
  with assms(3) obtain res where "claim_next clock s h owner = Inr (res, s')" by (auto simp: state_of_Inr)
  from this assms(1) show ?thesis
    by (cases rule: claim_cases) (simp_all add: assms(2) sorted_sealed kept_sorted)
next
  case (OpRelease target owner work outcome requeue idle details)
  with assms(3) obtain h o' w e l where "release clock s h o' w e outcome requeue idle details = Inr (l, s')"
    by (auto simp: bindE_Inr state_of_Inr)
  from this assms(1) show ?thesis
    by (cases rule: release_cases) (simp_all add: assms(2) sorted_sealed)
next
  case (OpRequestPreemption h by' w reason)
  with assms(3) obtain res where "request_preemption clock s h by' w reason = Inr (res, s')"
    by (auto simp: state_of_Inr)
  from this assms(1) show ?thesis
    by (cases rule: preemption_cases) (simp_all add: assms(2) sorted_sealed)
qed (use assms(1,2) in \<open>auto simp: state_of_Inr intro: kept_sorted dest: record_idle_core set_safety_halt_core
    clear_safety_halt_core\<close>)

lemma sched_reach_sorted: "sched_reach gpus s \<Longrightarrow> sorted_state s"
proof (induction rule: sched_reach.induct)
  case (reach_open s)
  then obtain config where "s = new_state config"
    by (auto simp: scheduler_open_def bindE_Inr Let_def split: if_splits)
  then show ?case by (simp add: sorted_state_def new_state_def dkeys_def)
next
  case (reach_call s clock op s')
  then show ?case using step_sorted sched_reach_inv by blast
qed

text \<open>
  C21. The durable document is faithful: every state the scheduler can reach is accepted by the
  write, and, while it fits the size limit, loading the file that was written gives back exactly the
  same state. The hypotheses are the documented round trip of the \<^verbatim>\<open>json\<close> package on canonical
  values and the length of a SHA-256 hex digest.
\<close>

theorem state_survives_restart:
  assumes "sched_reach gpus s" "json_roundtrip env" "\<forall>x. length (sha256_bytes env x) = 64"
    "int (length (state_bytes env s)) \<le> MAX_STATE_BYTES"
  shows "\<exists>f. write_state env None s = Inr f \<and> load_state env (Some f) = Inr s"
  using load_written [OF assms(2,3) sched_reach_inv [OF assms(1)] sched_reach_sorted [OF assms(1)] assms(4)]
    sched_inv_validates [OF sched_reach_inv [OF assms(1)]]
  by (simp add: write_state_def)

theorem state_survives_restart_witness:
  "\<exists>f. write_state sample_env None demo_state = Inr f \<and> load_state sample_env (Some f) = Inr demo_state"
proof (rule state_survives_restart [OF demo_reach sample_roundtrip])
  show "\<forall>x. length (sha256_bytes sample_env x) = 64"
    using sample_sha_ok by (simp add: is_sha256_def)
  show "int (length (state_bytes sample_env demo_state)) \<le> MAX_STATE_BYTES"
    by code_simp
qed

section \<open>Calls on the state file\<close>

text \<open>What a public call checks before it takes the lock; the operation, which checks it again, agrees.\<close>

fun call_arguments :: "sched_op \<Rightarrow> serror + unit" where
  "call_arguments (OpEnqueue wid kind eligible preemptible preferred payload) =
     bindE (resolve_item (IdArg wid) (Some kind) None eligible preemptible preferred payload) (\<lambda>_. Inr ())"
| "call_arguments (OpEnqueueItem wid kind eligible preemptible preferred payload) =
     bindE (work_item_init wid kind eligible preemptible preferred payload) (\<lambda>w.
     bindE (resolve_item (ItemArg w) None None None False None None) (\<lambda>_. Inr ()))"
| "call_arguments (OpClaim g owner) = bindE (require_identifier g) (\<lambda>_. bindE (require_identifier owner) (\<lambda>_. Inr ()))"
| "call_arguments (OpRelease target owner work outcome requeue idle details) =
     bindE (release_args target owner work) (\<lambda>(g, owner', work', expected).
     bindE (require_identifier owner') (\<lambda>_.
     if \<not> opt_all ident work' then Inl ValueErrorS
     else bindE (effective_outcome outcome requeue) (\<lambda>_. bindE (json_object details) (\<lambda>_. Inr ()))))"
| "call_arguments (OpRequestPreemption g by for_work reason) =
     bindE (require_identifier g) (\<lambda>_. bindE (require_identifier by) (\<lambda>_. bindE (require_identifier reason) (\<lambda>_.
     if \<not> opt_all ident for_work then Inl ValueErrorS else Inr ())))"
| "call_arguments (OpRecordIdle g reason owner work details) =
     bindE (require_identifier g) (\<lambda>_.
     if \<not> opt_all ident owner \<or> \<not> opt_all ident work then Inl ValueErrorS else bindE (json_object details) (\<lambda>_. Inr ()))"
| "call_arguments (OpSetHalt now reason gpu) =
     bindE (require_identifier reason) (\<lambda>_. if \<not> opt_all ident gpu then Inl ValueErrorS else Inr ())"
| "call_arguments (OpClearHalt gpu) = (if \<not> opt_all ident gpu then Inl ValueErrorS else Inr ())"

lemma arguments_first:
  assumes "call_arguments op = Inl e"
  shows "sched_step clock s op = Inl e"
proof (cases op)
  case (OpRelease target owner work outcome requeue idle details)
  show ?thesis
  proof (cases "release_args target owner work")
    case (Inr x)
    obtain g owner' work' expected where "x = (g, owner', work', expected)" by (cases x)
    then show ?thesis using assms OpRelease Inr
      by (cases "require_identifier owner'"; cases "effective_outcome outcome requeue"; cases "json_object details")
        (simp_all add: release_def state_of_def split: if_splits)
  qed (use assms OpRelease in simp)
qed (use assms in \<open>auto simp: bindE_Inl claim_next_def request_preemption_def record_idle_def set_safety_halt_def
      clear_safety_halt_def state_of_def split: if_splits\<close>)

text \<open>
  A public call in full: it checks its arguments, under the lock loads and validates the state file,
  runs the operation on the state it read, and writes the file when the operation committed. A commit
  counts the revision up, so a state that did not change was not written.
\<close>

definition durable_call :: "promo_env \<Rightarrow> (int \<Rightarrow> pyfloat) \<Rightarrow> fentry \<Rightarrow> sched_op \<Rightarrow> serror + fentry" where
  "durable_call env clock state_file op =
    bindE (call_arguments op) (\<lambda>_. bindE (load_state env (Some state_file)) (\<lambda>s. bindE (sched_step clock s op) (\<lambda>s'.
      if s' = s then Inr state_file else write_state env (Some state_file) s')))"

inductive durable_reach :: "promo_env \<Rightarrow> string list option \<Rightarrow> fentry \<Rightarrow> bool" for env gpus where
  durable_open: "scheduler_open gpus None = Inr s \<Longrightarrow> write_state env None s = Inr f \<Longrightarrow> durable_reach env gpus f"
| durable_step: "durable_reach env gpus f \<Longrightarrow> durable_call env clock f op = Inr f' \<Longrightarrow> durable_reach env gpus f'"

lemma write_reachable:
  assumes "sched_reach gpus s" "file \<noteq> Some SpecialFile"
  shows "write_state env file s = Inr (RegularFile (state_bytes env s))"
  using sched_inv_validates [OF sched_reach_inv [OF assms(1)]] assms(2) by (simp add: write_state_def)

lemma load_reachable:
  assumes "json_roundtrip env" "\<forall>x. length (sha256_bytes env x) = 64" "sched_reach gpus s"
  shows "load_state env (Some (RegularFile (state_bytes env s))) =
    (if int (length (state_bytes env s)) > MAX_STATE_BYTES then Inl SchedulerStateError else Inr s)"
proof (cases "int (length (state_bytes env s)) > MAX_STATE_BYTES")
  case True
  then show ?thesis by (simp add: load_state_def)
next
  case False
  then show ?thesis
    using load_written [OF assms(1,2) sched_reach_inv [OF assms(3)] sched_reach_sorted [OF assms(3)]] by simp
qed

lemma durable_holds_state:
  assumes "json_roundtrip env" "\<forall>x. length (sha256_bytes env x) = 64" "durable_reach env gpus f"
  shows "\<exists>s. sched_reach gpus s \<and> f = RegularFile (state_bytes env s)"
  using assms(3)
proof (induction rule: durable_reach.induct)
  case (durable_open s f)
  from durable_open(1) have r: "sched_reach gpus s" by (rule reach_open)
  then show ?case using durable_open(2) write_reachable [OF r, of None env] by auto
next
  case (durable_step f clock op f')
  then obtain s where s: "sched_reach gpus s" "f = RegularFile (state_bytes env s)" by blast
  with durable_step(2) load_reachable [OF assms(1,2) s(1)] obtain s' where s': "sched_step clock s op = Inr s'"
    "(if s' = s then Inr f else write_state env (Some f) s') = Inr f'"
    by (auto simp: durable_call_def bindE_Inr split: if_splits)
  have r: "sched_reach gpus s'" by (rule reach_call [OF s(1) s'(1)])
  then show ?case using s s'(2) write_reachable [OF r, of "Some f" env] by (auto split: if_splits)
qed

text \<open>
  C5. No sequence of calls makes the scheduler reject its own state file while the file fits the
  size limit, and only the limit can: whatever calls were made, with whatever arguments and clock, a
  state file of at most 64 MiB loads to a state that passes the full validation, and the next call,
  which checks its arguments, loads the file, runs the operation and writes the result, raises the
  corruption error exactly when its arguments are acceptable and the file exceeds the limit. The hypotheses are the round trip of the \<^verbatim>\<open>json\<close> package
  on canonical values and the length of a SHA-256 hex digest.
\<close>

theorem scheduler_never_corrupts:
  assumes "json_roundtrip env" "\<forall>x. length (sha256_bytes env x) = 64" "durable_reach env gpus f"
  shows "\<exists>data. f = RegularFile data
    \<and> (int (length data) \<le> MAX_STATE_BYTES \<longrightarrow> (\<exists>s. load_state env (Some f) = Inr s \<and> validate_state s))
    \<and> (durable_call env clock f op = Inl SchedulerStateError \<longleftrightarrow> call_arguments op = Inr () \<and> int (length data) > MAX_STATE_BYTES)"
proof -
  obtain s where s: "sched_reach gpus s" "f = RegularFile (state_bytes env s)"
    using durable_holds_state [OF assms] by blast
  note inv = sched_reach_inv [OF s(1)] and load = load_reachable [OF assms(1,2) s(1)]
  have step: "sched_step clock s op \<noteq> Inl SchedulerStateError"
    using sched_step_sound [OF inv] by (auto simp: sound0_def)
  have "write_state env (Some f) s' = Inr (RegularFile (state_bytes env s'))" if "sched_step clock s op = Inr s'" for s'
    by (rule write_reachable [OF reach_call [OF s(1) that]]) (simp add: s(2))
  then have "bindE (sched_step clock s op) (\<lambda>s'. if s' = s then Inr f else write_state env (Some f) s') \<noteq> Inl SchedulerStateError"
    using step by (cases "sched_step clock s op") auto
  then show ?thesis
    using load sched_inv_validates [OF inv] step arguments_first [of op SchedulerStateError clock s]
    unfolding s(2) by (cases "call_arguments op") (auto simp: durable_call_def)
qed

theorem scheduler_never_corrupts_witness:
  "\<exists>f data. durable_reach sample_env None f \<and> f = RegularFile data \<and> int (length data) \<le> MAX_STATE_BYTES
     \<and> durable_call sample_env demo_clock f (OpClaim ''g'' ''o'') \<noteq> Inl SchedulerStateError"
proof -
  have len: "\<forall>x. length (sha256_bytes sample_env x) = 64" using sample_sha_ok by (simp add: is_sha256_def)
  have fresh: "scheduler_open None None = Inr (new_state None)" using demo_runs by blast
  have reach: "sched_reach None (new_state None)" by (rule reach_open [OF fresh])
  let ?f = "RegularFile (state_bytes sample_env (new_state None))"
  have f: "durable_reach sample_env None ?f"
    by (rule durable_open [OF fresh write_reachable [OF reach]]) simp
  have small: "int (length (state_bytes sample_env (new_state None))) \<le> MAX_STATE_BYTES" by code_simp
  from scheduler_never_corrupts [OF sample_roundtrip len f, of demo_clock "OpClaim ''g'' ''o''"] f small
  show ?thesis by fastforce
qed

end
