(* ===== verification/Board.thy ===== *)
theory Board
  imports Kata_Prelude "HOL-Library.Word" "HOL-Library.Monad_Syntax"
begin

text \<open>
  The Go board, \<^verbatim>\<open>src/python/katago/game/board.py\<close>: a one-dimensional array with a border of walls,
  chains as circular doubly linked lists with a head that carries the number of stones and of
  liberties, and the incremental updates of a move. Arrays are functions on locations. A loop that
  walks a chain runs until it is back at its start; it is a partial function, so that a walk that
  never returns is \<open>None\<close>. The table of random bit strings for hashing is a parameter \<open>zob\<close>.
\<close>

unbundle bit_operations_syntax

section \<open>Locations and the empty board\<close>

type_synonym loc = int
type_synonym player = int
type_synonym zobrist_table = "player \<Rightarrow> loc \<Rightarrow> 64 word"

definition EMPTY :: player where "EMPTY = 0"
definition BLACK :: player where "BLACK = 1"
definition WHITE :: player where "WHITE = 2"
definition WALL :: player where "WALL = 3"

definition PASS_LOC :: loc where "PASS_LOC = 0"

lemmas colors = EMPTY_def BLACK_def WHITE_def WALL_def

record goban =
  g_x_size :: int
  g_y_size :: int
  g_pla :: player
  g_board :: "loc \<Rightarrow> player"
  group_head :: "loc \<Rightarrow> loc"
  group_stone_count :: "loc \<Rightarrow> int"
  group_liberty_count :: "loc \<Rightarrow> int"
  group_next :: "loc \<Rightarrow> loc"
  group_prev :: "loc \<Rightarrow> loc"
  g_zobrist :: "64 word"
  simple_ko_point :: "loc option"
  num_captures_made :: "player \<Rightarrow> int"
  num_non_pass_moves_made :: "player \<Rightarrow> int"

datatype gerror = IllegalMoveError | InvalidSize

definition arrsize :: "goban \<Rightarrow> int" where
  "arrsize b = (g_x_size b + 1) * (g_y_size b + 2) + 1"

definition dy :: "goban \<Rightarrow> int" where
  "dy b = g_x_size b + 1"

definition get_opp :: "player \<Rightarrow> player" where
  "get_opp p = 3 - p"

definition loc_static :: "int \<Rightarrow> int \<Rightarrow> int \<Rightarrow> loc" where
  "loc_static x y xs = (x + 1) + (xs + 1) * (y + 1)"

definition loc_x :: "goban \<Rightarrow> loc \<Rightarrow> int" where
  "loc_x b l = l mod dy b - 1"

definition loc_y :: "goban \<Rightarrow> loc \<Rightarrow> int" where
  "loc_y b l = l div dy b - 1"

text \<open>The four neighbours in the order of \<open>adj\<close>, the diagonals in that of \<open>diag\<close>.\<close>

definition nbrs :: "goban \<Rightarrow> loc \<Rightarrow> loc list" where
  "nbrs b l = [l - dy b, l - 1, l + 1, l + dy b]"

definition diags :: "goban \<Rightarrow> loc \<Rightarrow> loc list" where
  "diags b l = [l - dy b - 1, l - dy b + 1, l + dy b - 1, l + dy b + 1]"

text \<open>
  The array of colours of the empty board. Outside the array the function is \<open>WALL\<close>; the code never
  reads there, as every neighbour of a location that is not a wall is inside
  (lemma \<open>neighbours_in_array\<close>).
\<close>

definition init_walls :: "int \<Rightarrow> int \<Rightarrow> loc \<Rightarrow> player" where
  "init_walls xs ys =
    (let row = (\<lambda>i f. f(loc_static i (- 1) xs := WALL, loc_static i ys xs := WALL));
         col = (\<lambda>i f. f(loc_static (- 1) i xs := WALL, loc_static xs i xs := WALL))
     in fold col [- 1..ys] (fold row [- 1..xs]
          (\<lambda>l. if 0 \<le> l \<and> l < (xs + 1) * (ys + 2) + 1 then EMPTY else WALL)))"

definition board_init :: "int \<Rightarrow> int \<Rightarrow> gerror + goban" where
  "board_init xs ys =
    (if xs < 2 \<or> xs > 50 \<or> ys < 2 \<or> ys > 50 then Inl InvalidSize
     else Inr \<lparr>g_x_size = xs, g_y_size = ys, g_pla = BLACK, g_board = init_walls xs ys,
       group_head = (\<lambda>_. 0)(0 := - 1), group_stone_count = (\<lambda>_. 0), group_liberty_count = (\<lambda>_. 0),
       group_next = (\<lambda>_. 0)(0 := - 1), group_prev = (\<lambda>_. 0)(0 := - 1), g_zobrist = 0,
       simple_ko_point = None, num_captures_made = (\<lambda>_. 0), num_non_pass_moves_made = (\<lambda>_. 0)\<rparr>)"

definition is_on_board :: "goban \<Rightarrow> loc \<Rightarrow> bool" where
  "is_on_board b l \<longleftrightarrow> 0 \<le> l \<and> l < arrsize b \<and> g_board b l \<noteq> WALL"

definition is_adjacent :: "goban \<Rightarrow> loc \<Rightarrow> loc \<Rightarrow> bool" where
  "is_adjacent b l m \<longleftrightarrow> l \<in> set (nbrs b m)"

section \<open>Queries\<close>

definition is_stone :: "goban \<Rightarrow> loc \<Rightarrow> bool" where
  "is_stone b l \<longleftrightarrow> g_board b l = BLACK \<or> g_board b l = WHITE"

definition num_liberties :: "goban \<Rightarrow> loc \<Rightarrow> int" where
  "num_liberties b l = (if g_board b l = EMPTY \<or> g_board b l = WALL then 0
     else group_liberty_count b (group_head b l))"

definition is_simple_eye :: "goban \<Rightarrow> player \<Rightarrow> loc \<Rightarrow> bool" where
  "is_simple_eye b p l =
    (if list_ex (\<lambda>a. g_board b a \<noteq> p \<and> g_board b a \<noteq> WALL) (nbrs b l) then False
     else (let corners = length (filter (\<lambda>d. g_board b d = get_opp p) (diags b l)) in
       if corners \<ge> 2 then False
       else if corners = 0 then True
       else \<not> list_ex (\<lambda>a. g_board b a = WALL) (nbrs b l)))"

text \<open>An opposing chain in atari next to the location, or an empty neighbour.\<close>

definition opens :: "goban \<Rightarrow> player \<Rightarrow> loc \<Rightarrow> bool" where
  "opens b p l = list_ex (\<lambda>a. g_board b a = EMPTY
     \<or> g_board b a = get_opp p \<and> group_liberty_count b (group_head b a) = 1) (nbrs b l)"

definition would_be_suicide :: "goban \<Rightarrow> player \<Rightarrow> loc \<Rightarrow> bool" where
  "would_be_suicide b p l = (if opens b p l then False
     else if list_ex (\<lambda>a. g_board b a = p \<and> group_liberty_count b (group_head b a) > 1) (nbrs b l) then False
     else True)"

definition would_be_single_stone_suicide :: "goban \<Rightarrow> player \<Rightarrow> loc \<Rightarrow> bool" where
  "would_be_single_stone_suicide b p l = (if opens b p l then False
     else if list_ex (\<lambda>a. g_board b a = p) (nbrs b l) then False else True)"

definition would_be_legal :: "goban \<Rightarrow> player \<Rightarrow> loc \<Rightarrow> bool" where
  "would_be_legal b p l =
    (if p \<noteq> BLACK \<and> p \<noteq> WHITE then False
     else if l = PASS_LOC then True
     else if \<not> is_on_board b l then False
     else if g_board b l \<noteq> EMPTY then False
     else if would_be_single_stone_suicide b p l then False
     else if simple_ko_point b = Some l then False
     else True)"

definition count_immediate_liberties :: "goban \<Rightarrow> loc \<Rightarrow> int" where
  "count_immediate_liberties b l = int (length (filter (\<lambda>a. g_board b a = EMPTY) (nbrs b l)))"

definition is_group_adjacent :: "goban \<Rightarrow> loc \<Rightarrow> loc \<Rightarrow> bool" where
  "is_group_adjacent b h l = list_ex (\<lambda>a. group_head b a = h) (nbrs b l)"

section \<open>Updates\<close>

definition add_liberties :: "loc \<Rightarrow> int \<Rightarrow> goban \<Rightarrow> goban" where
  "add_liberties h d b = b\<lparr>group_liberty_count :=
     (group_liberty_count b)(h := group_liberty_count b h + d)\<rparr>"

text \<open>
  The four-way update of the liberties of the chains around a location, each chain once: the code
  has it three times, in \<open>add_unsafe\<close>, in \<open>changeSurroundingLiberties\<close> and in \<open>remove_unsafe\<close>.
\<close>

definition bump_liberties :: "(player \<Rightarrow> bool) \<Rightarrow> loc \<Rightarrow> int \<Rightarrow> goban \<Rightarrow> goban" where
  "bump_liberties sel l d b =
    (let a0 = l - dy b; a1 = l - 1; a2 = l + 1; a3 = l + dy b;
         h0 = group_head b a0; h1 = group_head b a1; h2 = group_head b a2; h3 = group_head b a3;
         b0 = (if sel (g_board b a0) then add_liberties h0 d b else b);
         b1 = (if sel (g_board b a1) \<and> h1 \<noteq> h0 then add_liberties h1 d b0 else b0);
         b2 = (if sel (g_board b a2) \<and> h2 \<noteq> h0 \<and> h2 \<noteq> h1 then add_liberties h2 d b1 else b1)
     in if sel (g_board b a3) \<and> h3 \<noteq> h0 \<and> h3 \<noteq> h1 \<and> h3 \<noteq> h2 then add_liberties h3 d b2 else b2)"

definition change_surrounding_liberties :: "loc \<Rightarrow> player \<Rightarrow> int \<Rightarrow> goban \<Rightarrow> goban" where
  "change_surrounding_liberties l p d b = bump_liberties (\<lambda>c. c = p) l d b"

text \<open>One stone of the walk of \<open>merge_unsafe\<close>: empty neighbours that the parent does not touch.\<close>

definition new_liberties_at :: "goban \<Rightarrow> loc \<Rightarrow> loc \<Rightarrow> int" where
  "new_liberties_at b phead l = int (length (filter (\<lambda>a. g_board b a = EMPTY \<and> \<not> is_group_adjacent b phead a) (nbrs b l)))"

definition set_head :: "loc \<Rightarrow> loc \<Rightarrow> goban \<Rightarrow> goban" where
  "set_head l h b = b\<lparr>group_head := (group_head b)(l := h)\<rparr>"

partial_function (option) merge_walk :: "loc \<Rightarrow> loc \<Rightarrow> loc \<Rightarrow> int \<Rightarrow> goban \<Rightarrow> (goban \<times> int) option" where
  "merge_walk phead child l libs b =
    (let libs' = libs + new_liberties_at b phead l; b' = set_head l phead b; n = group_next b' l
     in if n = child then Some (b', libs') else merge_walk phead child n libs' b')"

declare merge_walk.simps [code]

definition merge_unsafe :: "loc \<Rightarrow> loc \<Rightarrow> goban \<Rightarrow> goban option" where
  "merge_unsafe l0 l1 b =
    (let (parent, child) = (if group_stone_count b (group_head b l0) \<ge> group_stone_count b (group_head b l1)
           then (l0, l1) else (l1, l0));
         phead = group_head b parent; chead = group_head b child
     in if phead = chead then Some b
        else do {
          (b1, libs) \<leftarrow> merge_walk phead child child (group_liberty_count b phead) b;
          let sc = group_stone_count b phead + group_stone_count b chead;
          let plast = group_prev b1 phead;
          let clast = group_prev b1 chead;
          Some (b1\<lparr>group_stone_count := (group_stone_count b1)(chead := 0, phead := sc),
            group_liberty_count := (group_liberty_count b1)(chead := 0, phead := libs),
            group_next := (group_next b1)(clast := phead, plast := chead),
            group_prev := (group_prev b1)(chead := plast, phead := clast)\<rparr>) })"

text \<open>Deleting one stone of a chain; the code removes it from the hash with the table of the other colour.\<close>

definition erase_stone :: "zobrist_table \<Rightarrow> player \<Rightarrow> loc \<Rightarrow> goban \<Rightarrow> goban" where
  "erase_stone zob opp l b = b\<lparr>g_board := (g_board b)(l := EMPTY), g_zobrist := g_zobrist b XOR zob opp l,
     group_head := (group_head b)(l := 0), group_next := (group_next b)(l := 0),
     group_prev := (group_prev b)(l := 0)\<rparr>"

partial_function (option) remove_walk :: "zobrist_table \<Rightarrow> player \<Rightarrow> loc \<Rightarrow> loc \<Rightarrow> goban \<Rightarrow> goban option" where
  "remove_walk zob opp start l b =
    (let b1 = bump_liberties (\<lambda>c. c = opp) l 1 b; n = group_next b1 l; b2 = erase_stone zob opp l b1
     in if n = start then Some b2 else remove_walk zob opp start n b2)"

declare remove_walk.simps [code]

definition remove_unsafe :: "zobrist_table \<Rightarrow> loc \<Rightarrow> goban \<Rightarrow> goban option" where
  "remove_unsafe zob g b =
    (let h = group_head b g; opp = get_opp (g_board b g)
     in do {
       b1 \<leftarrow> remove_walk zob opp g g b;
       Some (b1\<lparr>group_stone_count := (group_stone_count b1)(h := 0),
         group_liberty_count := (group_liberty_count b1)(h := 0)\<rparr>) })"

definition put_stone :: "zobrist_table \<Rightarrow> player \<Rightarrow> loc \<Rightarrow> goban \<Rightarrow> goban" where
  "put_stone zob p l b =
    (let b1 = b\<lparr>g_board := (g_board b)(l := p), g_zobrist := g_zobrist b XOR zob p l\<rparr>
     in b1\<lparr>group_head := (group_head b1)(l := l), group_stone_count := (group_stone_count b1)(l := 1),
       group_liberty_count := (group_liberty_count b1)(l := count_immediate_liberties b1 l),
       group_next := (group_next b1)(l := l), group_prev := (group_prev b1)(l := l)\<rparr>)"

fun merge_all :: "player \<Rightarrow> loc \<Rightarrow> loc list \<Rightarrow> goban \<Rightarrow> goban option" where
  "merge_all p l [] b = Some b"
| "merge_all p l (a # as) b = do {
     b1 \<leftarrow> (if g_board b a = p then merge_unsafe l a b else Some b);
     merge_all p l as b1 }"

text \<open>Captured stones and the last captured location, as the locals of \<open>add_unsafe\<close>.\<close>

fun capture_all :: "zobrist_table \<Rightarrow> player \<Rightarrow> loc list \<Rightarrow> int \<Rightarrow> loc \<Rightarrow> goban \<Rightarrow> (goban \<times> int \<times> loc) option" where
  "capture_all zob opp [] n cap b = Some (b, n, cap)"
| "capture_all zob opp (a # as) n cap b =
    (if g_board b a = opp \<and> group_liberty_count b (group_head b a) = 0
     then do {
       b1 \<leftarrow> remove_unsafe zob a b;
       capture_all zob opp as (n + group_stone_count b (group_head b a)) a b1 }
     else capture_all zob opp as n cap b)"

definition add_unsafe :: "zobrist_table \<Rightarrow> player \<Rightarrow> loc \<Rightarrow> goban \<Rightarrow> goban option" where
  "add_unsafe zob p l b0 =
    (let opp = get_opp p;
         b1 = bump_liberties (\<lambda>c. c = BLACK \<or> c = WHITE) l (- 1) (put_stone zob p l b0)
     in do {
       b2 \<leftarrow> merge_all p l (nbrs b1 l) b1;
       (b3, oc, cap) \<leftarrow> capture_all zob opp (nbrs b2 l) 0 0 b2;
       (b4, pc) \<leftarrow> (if group_liberty_count b3 (group_head b3 l) = 0
          then do { b4 \<leftarrow> remove_unsafe zob l b3; Some (b4, group_stone_count b3 (group_head b3 l)) }
          else Some (b3, 0));
       let caps = (num_captures_made b4)(p := num_captures_made b4 p + pc);
       let b5 = b4\<lparr>num_captures_made := caps(opp := caps opp + oc),
         num_non_pass_moves_made := (num_non_pass_moves_made b4)(p := num_non_pass_moves_made b4 p + 1)\<rparr>;
       Some (b5\<lparr>simple_ko_point := (if oc = 1 \<and> group_stone_count b5 (group_head b5 l) = 1
           \<and> group_liberty_count b5 (group_head b5 l) = 1 then Some cap else None)\<rparr>) })"

definition playUnsafe :: "zobrist_table \<Rightarrow> player \<Rightarrow> loc \<Rightarrow> goban \<Rightarrow> goban option" where
  "playUnsafe zob p l b =
    (if l = PASS_LOC then Some (b\<lparr>simple_ko_point := None, g_pla := get_opp p\<rparr>)
     else do { b1 \<leftarrow> add_unsafe zob p l b; Some (b1\<lparr>g_pla := get_opp p\<rparr>) })"

definition play_error :: "player \<Rightarrow> loc \<Rightarrow> goban \<Rightarrow> bool" where
  "play_error p l b =
    (if p \<noteq> BLACK \<and> p \<noteq> WHITE then True
     else if l \<noteq> PASS_LOC then
       (if \<not> is_on_board b l then True
        else if g_board b l \<noteq> EMPTY then True
        else if would_be_single_stone_suicide b p l then True
        else if simple_ko_point b = Some l then True else False)
     else False)"

text \<open>\<open>play\<close> raises, or plays; \<open>None\<close> would be a walk that does not end.\<close>

definition play :: "zobrist_table \<Rightarrow> player \<Rightarrow> loc \<Rightarrow> goban \<Rightarrow> (gerror + goban) option" where
  "play zob p l b = (if play_error p l b then Some (Inl IllegalMoveError)
     else map_option Inr (playUnsafe zob p l b))"

definition set_pla :: "player \<Rightarrow> goban \<Rightarrow> goban" where
  "set_pla p b = b\<lparr>g_pla := p\<rparr>"

partial_function (option) chain_walk :: "goban \<Rightarrow> loc \<Rightarrow> loc \<Rightarrow> loc list option" where
  "chain_walk b start l =
    (let n = group_next b l in
     if n = start then Some [l] else do { xs \<leftarrow> chain_walk b start n; Some (l # xs) })"

declare chain_walk.simps [code]

fun add_back :: "zobrist_table \<Rightarrow> player \<Rightarrow> loc \<Rightarrow> loc list \<Rightarrow> goban \<Rightarrow> goban option" where
  "add_back zob p r [] b = Some b"
| "add_back zob p r (l # ls) b = do {
     b1 \<leftarrow> (if l \<noteq> r then add_unsafe zob p l b else Some b);
     add_back zob p r ls b1 }"

definition remove_single_stone_unsafe :: "zobrist_table \<Rightarrow> loc \<Rightarrow> goban \<Rightarrow> goban option" where
  "remove_single_stone_unsafe zob r b = do {
     stones \<leftarrow> chain_walk b r r;
     b1 \<leftarrow> remove_unsafe zob r b;
     add_back zob (g_board b r) r stones b1 }"

definition set_stone :: "zobrist_table \<Rightarrow> player \<Rightarrow> loc \<Rightarrow> goban \<Rightarrow> (gerror + goban) option" where
  "set_stone zob p l b =
    (if p \<noteq> EMPTY \<and> p \<noteq> BLACK \<and> p \<noteq> WHITE then Some (Inl IllegalMoveError)
     else if \<not> is_on_board b l then Some (Inl IllegalMoveError)
     else do {
       b1 \<leftarrow> (if g_board b l = p then Some b
         else if g_board b l = EMPTY then add_unsafe zob p l b
         else if p = EMPTY then remove_single_stone_unsafe zob l b
         else do { b1 \<leftarrow> remove_single_stone_unsafe zob l b; add_unsafe zob p l b1 });
       Some (Inr (b1\<lparr>simple_ko_point := None\<rparr>)) })"

end
