(* ===== verification/Board_Chains.thy ===== *)
theory Board_Chains
  imports Board
begin

text \<open>
  The representation invariant of the board: every chain is a ring of linked stones whose head
  carries the exact numbers of stones and liberties. The walks of the code end on such rings.
\<close>

section \<open>Rings\<close>

primrec path :: "('a \<Rightarrow> 'a) \<Rightarrow> 'a \<Rightarrow> 'a list \<Rightarrow> 'a \<Rightarrow> bool" where
  "path f x [] y \<longleftrightarrow> x = y"
| "path f x (a # as) y \<longleftrightarrow> x = a \<and> path f (f a) as y"

lemma path_append: "path f x (xs @ ys) z \<longleftrightarrow> (\<exists>y. path f x xs y \<and> path f y ys z)"
  by (induction xs arbitrary: x) auto

lemma path_cong: "(\<And>a. a \<in> set xs \<Longrightarrow> f a = g a) \<Longrightarrow> path f x xs y \<longleftrightarrow> path g x xs y"
  by (induction xs arbitrary: x) auto

definition ring :: "('a \<Rightarrow> 'a) \<Rightarrow> 'a list \<Rightarrow> bool" where
  "ring f xs \<longleftrightarrow> xs \<noteq> [] \<and> distinct xs \<and> path f (hd xs) xs (hd xs)"

lemma ring_Cons: "ring f (x # xs) \<longleftrightarrow> distinct (x # xs) \<and> path f (f x) xs x"
  by (auto simp: ring_def)

lemma ring_cong: "(\<And>a. a \<in> set xs \<Longrightarrow> f a = g a) \<Longrightarrow> ring f xs \<longleftrightarrow> ring g xs"
  unfolding ring_def using path_cong [of xs f g] by blast

lemma ring_rotate:
  assumes "ring f (xs @ ys)" "ys \<noteq> []"
  shows "ring f (ys @ xs)"
proof (cases xs)
  case (Cons x xs')
  with assms obtain y where "path f x xs y" "path f y ys x" by (auto simp: ring_def path_append)
  moreover from this(2) assms(2) have "y = hd ys" by (cases ys) auto
  ultimately show ?thesis using assms Cons by (auto simp: ring_def path_append)
qed (use assms in simp)

lemma ring_from:
  assumes "ring f xs" "l \<in> set xs"
  obtains ys where "ring f (l # ys)" "set (l # ys) = set xs"
proof -
  obtain as bs where x: "xs = as @ l # bs" using assms(2) by (meson split_list)
  have "ring f ((l # bs) @ as)" by (rule ring_rotate [OF assms(1) [unfolded x]]) simp
  then have "ring f (l # (bs @ as))" by simp
  moreover have "set (l # (bs @ as)) = set xs" unfolding x by auto
  ultimately show ?thesis by (rule that)
qed

text \<open>Two disjoint rings, each cut before its first element and joined.\<close>

lemma path_redirect:
  assumes "path f x (xs @ [a]) y" "distinct (xs @ [a])"
  shows "path (f(a := z)) x (xs @ [a]) z"
proof -
  have "path f x xs a" using assms(1) by (auto simp: path_append)
  moreover have "path (f(a := z)) x xs a \<longleftrightarrow> path f x xs a" by (rule path_cong) (use assms(2) in auto)
  ultimately show ?thesis by (auto simp: path_append)
qed

lemma ring_join:
  assumes "ring f xs" "ring f ys" "set xs \<inter> set ys = {}" "a = last xs" "b = last ys"
  shows "ring (f(b := hd xs, a := hd ys)) (xs @ ys)"
proof -
  let ?g = "f(b := hd xs, a := hd ys)"
  have ne: "xs \<noteq> []" "ys \<noteq> []" "distinct xs" "distinct ys" using assms(1,2) by (auto simp: ring_def)
  have xs: "xs = butlast xs @ [a]" and ys: "ys = butlast ys @ [b]" using ne assms(4,5) by simp_all
  have ab: "a \<notin> set ys" "b \<notin> set xs" using assms(3-5) ne last_in_set by blast+
  have "path (f(a := hd ys)) (hd xs) xs (hd ys)"
    using path_redirect [of f "hd xs" "butlast xs" a "hd xs" "hd ys"] assms(1) xs ne(3) unfolding ring_def by metis
  moreover have "path (f(a := hd ys)) (hd xs) xs (hd ys) = path ?g (hd xs) xs (hd ys)"
    by (rule path_cong) (use ab in auto)
  moreover have "path (f(b := hd xs)) (hd ys) ys (hd xs)"
    using path_redirect [of f "hd ys" "butlast ys" b "hd ys" "hd xs"] assms(2) ys ne(4) unfolding ring_def by metis
  moreover have "path (f(b := hd xs)) (hd ys) ys (hd xs) = path ?g (hd ys) ys (hd xs)"
    by (rule path_cong) (use ab in auto)
  ultimately show ?thesis using ne assms(3) by (auto simp: ring_def path_append)
qed

lemma ring_last: "ring f xs \<Longrightarrow> f (last xs) = hd xs"
proof -
  assume "ring f xs"
  then have "path f (hd xs) (butlast xs @ [last xs]) (hd xs)" by (simp add: ring_def)
  then show ?thesis by (auto simp: path_append)
qed

lemma ring_next_in: "ring f xs \<Longrightarrow> l \<in> set xs \<Longrightarrow> f l \<in> set xs"
proof -
  assume "ring f xs" "l \<in> set xs"
  then obtain ys where y: "ring f (l # ys)" "set (l # ys) = set xs" by (rule ring_from)
  then show ?thesis by (cases ys) (auto simp: ring_Cons)
qed

section \<open>Chains\<close>

definition around :: "int \<Rightarrow> loc \<Rightarrow> loc set" where
  "around d l = {l - d, l - 1, l + 1, l + d}"

lemma set_nbrs [simp]: "set (nbrs b l) = around (dy b) l"
  by (auto simp: nbrs_def around_def)

lemma around_sym: "m \<in> around d l \<longleftrightarrow> l \<in> around d m"
  by (auto simp: around_def)

lemma around_irrefl: "2 \<le> d \<Longrightarrow> l \<notin> around d l"
  by (auto simp: around_def)

lemma finite_around [simp]: "finite (around d l)"
  by (simp add: around_def)

lemma distinct_nbrs: "2 \<le> dy b \<Longrightarrow> distinct (nbrs b l)"
  by (auto simp: nbrs_def)

definition linked :: "int \<Rightarrow> loc set \<Rightarrow> bool" where
  "linked d A \<longleftrightarrow> (\<forall>x \<in> A. \<forall>y \<in> A. (x, y) \<in> {(a, c). a \<in> A \<and> c \<in> A \<and> c \<in> around d a}\<^sup>*)"

lemma linked_singleton: "linked d {l}"
  by (simp add: linked_def)

lemma linked_Un:
  assumes "linked d A" "linked d B" "a \<in> A" "b \<in> B" "b \<in> around d a"
  shows "linked d (A \<union> B)"
proof -
  let ?R = "\<lambda>A. {(a, c). a \<in> A \<and> c \<in> A \<and> c \<in> around d a}"
  have m: "?R A \<subseteq> ?R (A \<union> B)" "?R B \<subseteq> ?R (A \<union> B)" by auto
  have A: "(x, y) \<in> (?R (A \<union> B))\<^sup>*" if "x \<in> A" "y \<in> A" for x y
    using assms(1) that rtrancl_mono [OF m(1)] unfolding linked_def by blast
  have B: "(x, y) \<in> (?R (A \<union> B))\<^sup>*" if "x \<in> B" "y \<in> B" for x y
    using assms(2) that rtrancl_mono [OF m(2)] unfolding linked_def by blast
  have ab: "(a, b) \<in> ?R (A \<union> B)" "(b, a) \<in> ?R (A \<union> B)" using assms around_sym by auto
  show ?thesis unfolding linked_def
  proof (intro ballI)
    fix x y assume "x \<in> A \<union> B" "y \<in> A \<union> B"
    then consider "x \<in> A" "y \<in> A" | "x \<in> B" "y \<in> B" | "x \<in> A" "y \<in> B" | "x \<in> B" "y \<in> A" by blast
    then show "(x, y) \<in> (?R (A \<union> B))\<^sup>*"
    proof cases
      case 3
      from A [OF 3(1) assms(3)] ab(1) have "(x, b) \<in> (?R (A \<union> B))\<^sup>*" by (rule rtrancl_into_rtrancl)
      from this B [OF assms(4) 3(2)] show ?thesis by (rule rtrancl_trans)
    next
      case 4
      from B [OF 4(1) assms(4)] ab(2) have "(x, a) \<in> (?R (A \<union> B))\<^sup>*" by (rule rtrancl_into_rtrancl)
      from this A [OF assms(3) 4(2)] show ?thesis by (rule rtrancl_trans)
    qed (use A B in blast)+
  qed
qed

definition grp :: "goban \<Rightarrow> loc \<Rightarrow> loc set" where
  "grp b h = {l. is_stone b l \<and> group_head b l = h}"

definition lib_set :: "goban \<Rightarrow> loc set \<Rightarrow> loc set" where
  "lib_set b A = {e. g_board b e = EMPTY \<and> (\<exists>l \<in> A. e \<in> around (dy b) l)}"

definition geometry :: "goban \<Rightarrow> bool" where
  "geometry b \<longleftrightarrow> 3 \<le> dy b \<and> finite {l. g_board b l \<noteq> WALL} \<and> (\<forall>l. g_board b l \<noteq> WALL \<longrightarrow> 0 < l)
     \<and> (\<forall>l. g_board b l \<in> {EMPTY, BLACK, WHITE, WALL})"

definition chain_ok :: "goban \<Rightarrow> loc \<Rightarrow> bool" where
  "chain_ok b h \<longleftrightarrow> h \<in> grp b h \<and> (\<forall>l \<in> grp b h. g_board b l = g_board b h)
     \<and> (\<exists>xs. ring (group_next b) xs \<and> hd xs = h \<and> set xs = grp b h)
     \<and> (\<forall>l \<in> grp b h. group_prev b (group_next b l) = l)
     \<and> group_stone_count b h = int (card (grp b h))
     \<and> group_liberty_count b h = int (card (lib_set b (grp b h)))
     \<and> linked (dy b) (grp b h)"

lemma chain_okI:
  assumes "grp b h = A" "h \<in> A" "\<And>l. l \<in> A \<Longrightarrow> g_board b l = g_board b h"
    "ring (group_next b) xs" "hd xs = h" "set xs = A" "\<And>l. l \<in> A \<Longrightarrow> group_prev b (group_next b l) = l"
    "group_stone_count b h = int (card A)" "group_liberty_count b h = int (card (lib_set b A))" "linked (dy b) A"
  shows "chain_ok b h"
  unfolding chain_ok_def assms(1) using assms(2-) by blast

lemma chain_okE:
  assumes "chain_ok b h"
  obtains xs where "h \<in> grp b h" "\<And>l. l \<in> grp b h \<Longrightarrow> g_board b l = g_board b h"
    "ring (group_next b) xs" "hd xs = h" "set xs = grp b h" "\<And>l. l \<in> grp b h \<Longrightarrow> group_prev b (group_next b l) = l"
    "group_stone_count b h = int (card (grp b h))" "group_liberty_count b h = int (card (lib_set b (grp b h)))"
    "linked (dy b) (grp b h)"
  using assms unfolding chain_ok_def by blast

lemma ring_last_prev:
  assumes "ring (group_next b) xs" "\<And>l. l \<in> set xs \<Longrightarrow> group_prev b (group_next b l) = l"
  shows "group_prev b (hd xs) = last xs"
proof -
  have "last xs \<in> set xs" using assms(1) by (auto simp: ring_def)
  from assms(2) [OF this] ring_last [OF assms(1)] show ?thesis by simp
qed

text \<open>A chain that an update leaves alone, its liberties apart.\<close>

lemma chain_ok_transfer:
  assumes "chain_ok b h" "grp c h = grp b h" "dy c = dy b"
    "\<And>y. y \<in> grp b h \<Longrightarrow> g_board c y = g_board b y \<and> group_next c y = group_next b y \<and> group_prev c y = group_prev b y"
    "group_stone_count c h = group_stone_count b h"
    "group_liberty_count c h = int (card (lib_set c (grp b h)))"
  shows "chain_ok c h"
proof -
  from assms(1) obtain xs where k: "h \<in> grp b h" "\<And>y. y \<in> grp b h \<Longrightarrow> g_board b y = g_board b h"
    "ring (group_next b) xs" "hd xs = h" "set xs = grp b h" "\<And>y. y \<in> grp b h \<Longrightarrow> group_prev b (group_next b y) = y"
    "group_stone_count b h = int (card (grp b h))" "group_liberty_count b h = int (card (lib_set b (grp b h)))"
    "linked (dy b) (grp b h)" by (rule chain_okE) blast
  have nx: "group_next b y \<in> grp b h" if "y \<in> grp b h" for y
    using ring_next_in [OF k(3)] that unfolding k(5) .
  have r: "ring (group_next c) xs \<longleftrightarrow> ring (group_next b) xs"
    by (rule ring_cong) (use k(5) assms(4) in blast)
  show ?thesis
  proof (rule chain_okI [where A = "grp b h" and xs = xs])
    show "g_board c y = g_board c h" if "y \<in> grp b h" for y using k(2) [OF that] assms(4) [OF that] assms(4) [OF k(1)] by simp
    show "group_prev c (group_next c y) = y" if "y \<in> grp b h" for y
      using k(6) [OF that] assms(4) [OF that] assms(4) [OF nx [OF that]] by simp
    show "group_stone_count c h = int (card (grp b h))" using k(7) assms(5) by simp
    show "linked (dy c) (grp b h)" using k(9) assms(3) by simp
  qed (rule assms(2,6) k(1,4,5) r [THEN iffD2, OF k(3)])+
qed

definition chains_ok :: "goban \<Rightarrow> bool" where
  "chains_ok b \<longleftrightarrow> geometry b \<and> (\<forall>l. \<not> is_stone b l \<longrightarrow> group_head b l \<le> 0)
     \<and> (\<forall>l. is_stone b l \<longrightarrow> chain_ok b (group_head b l))"

lemma stone_not_wall: "is_stone b l \<Longrightarrow> g_board b l \<noteq> WALL \<and> g_board b l \<noteq> EMPTY"
  by (auto simp: is_stone_def colors)

lemma stone_pos: "geometry b \<Longrightarrow> is_stone b l \<Longrightarrow> 0 < l"
  using stone_not_wall by (auto simp: geometry_def)

lemma finite_grp: "geometry b \<Longrightarrow> finite (grp b h)"
  by (rule finite_subset [of _ "{l. g_board b l \<noteq> WALL}"]) (auto simp: geometry_def grp_def dest: stone_not_wall)

lemma finite_lib_set: "geometry b \<Longrightarrow> finite (lib_set b A)"
  by (rule finite_subset [of _ "{l. g_board b l \<noteq> WALL}"]) (auto simp: geometry_def lib_set_def colors)

lemma head_facts:
  assumes "chains_ok b" "is_stone b l"
  shows "is_stone b (group_head b l)" "group_head b (group_head b l) = group_head b l"
    "g_board b (group_head b l) = g_board b l" "0 < group_head b l" "l \<in> grp b (group_head b l)"
proof -
  have c: "chain_ok b (group_head b l)" "geometry b" using assms by (auto simp: chains_ok_def)
  show l: "l \<in> grp b (group_head b l)" using assms(2) by (simp add: grp_def)
  show "is_stone b (group_head b l)" "group_head b (group_head b l) = group_head b l"
    using c(1) by (auto simp: chain_ok_def grp_def)
  then show "0 < group_head b l" using stone_pos [OF c(2)] by simp
  show "g_board b (group_head b l) = g_board b l" using c(1) l unfolding chain_ok_def by metis
qed

section \<open>Updating the liberties around a location\<close>

lemma bump_fields [simp]:
  "g_board (bump_liberties sel l d b) = g_board b" "group_head (bump_liberties sel l d b) = group_head b"
  "group_next (bump_liberties sel l d b) = group_next b" "group_prev (bump_liberties sel l d b) = group_prev b"
  "group_stone_count (bump_liberties sel l d b) = group_stone_count b"
  "g_x_size (bump_liberties sel l d b) = g_x_size b" "g_y_size (bump_liberties sel l d b) = g_y_size b"
  "g_zobrist (bump_liberties sel l d b) = g_zobrist b" "g_pla (bump_liberties sel l d b) = g_pla b"
  "simple_ko_point (bump_liberties sel l d b) = simple_ko_point b"
  "num_captures_made (bump_liberties sel l d b) = num_captures_made b"
  "num_non_pass_moves_made (bump_liberties sel l d b) = num_non_pass_moves_made b"
  by (simp_all add: bump_liberties_def add_liberties_def Let_def)

lemma bump_liberty_count:
  assumes "\<And>a c. a \<in> around (dy b) l \<Longrightarrow> c \<in> around (dy b) l \<Longrightarrow> sel (g_board b a) \<Longrightarrow>
      \<not> sel (g_board b c) \<Longrightarrow> group_head b a \<noteq> group_head b c"
  shows "group_liberty_count (bump_liberties sel l d b) h = group_liberty_count b h
    + (if \<exists>a \<in> around (dy b) l. sel (g_board b a) \<and> group_head b a = h then d else 0)"
proof -
  let ?a0 = "l - dy b" and ?a1 = "l - 1" and ?a2 = "l + 1" and ?a3 = "l + dy b"
  have e: "(\<exists>a \<in> around (dy b) l. sel (g_board b a) \<and> group_head b a = h) \<longleftrightarrow>
      sel (g_board b ?a0) \<and> group_head b ?a0 = h \<or> sel (g_board b ?a1) \<and> group_head b ?a1 = h
      \<or> sel (g_board b ?a2) \<and> group_head b ?a2 = h \<or> sel (g_board b ?a3) \<and> group_head b ?a3 = h"
    by (auto simp: around_def)
  have n: "sel (g_board b a) \<Longrightarrow> group_head b a = group_head b c \<Longrightarrow> sel (g_board b c)"
    if "a \<in> {?a0, ?a1, ?a2, ?a3}" "c \<in> {?a0, ?a1, ?a2, ?a3}" for a c
    using assms that by (auto simp: around_def)
  have i: "?a0 \<in> {?a0, ?a1, ?a2, ?a3}" "?a1 \<in> {?a0, ?a1, ?a2, ?a3}" "?a2 \<in> {?a0, ?a1, ?a2, ?a3}"
    "?a3 \<in> {?a0, ?a1, ?a2, ?a3}" by auto
  note ns = n [OF i(2) i(1)] n [OF i(3) i(1)] n [OF i(3) i(2)] n [OF i(4) i(1)] n [OF i(4) i(2)] n [OF i(4) i(3)]
  show ?thesis unfolding e
    by (cases "sel (g_board b ?a0)"; cases "sel (g_board b ?a1)"; cases "sel (g_board b ?a2)"; cases "sel (g_board b ?a3)")
      (use ns in \<open>auto simp: bump_liberties_def add_liberties_def Let_def\<close>)
qed

lemma dy_cong: "g_x_size b = g_x_size c \<Longrightarrow> dy b = dy c"
  by (simp add: dy_def)

section \<open>Placing a stone\<close>

definition placed :: "zobrist_table \<Rightarrow> player \<Rightarrow> loc \<Rightarrow> goban \<Rightarrow> goban" where
  "placed zob p l b = bump_liberties (\<lambda>c. c = BLACK \<or> c = WHITE) l (- 1) (put_stone zob p l b)"

lemma placed_fields [simp]:
  "g_board (placed zob p l b) = (g_board b)(l := p)" "group_head (placed zob p l b) = (group_head b)(l := l)"
  "group_next (placed zob p l b) = (group_next b)(l := l)" "group_prev (placed zob p l b) = (group_prev b)(l := l)"
  "group_stone_count (placed zob p l b) = (group_stone_count b)(l := 1)"
  "dy (placed zob p l b) = dy b" "g_x_size (placed zob p l b) = g_x_size b" "g_y_size (placed zob p l b) = g_y_size b"
  "g_zobrist (placed zob p l b) = g_zobrist b XOR zob p l"
  "simple_ko_point (placed zob p l b) = simple_ko_point b" "g_pla (placed zob p l b) = g_pla b"
  "num_captures_made (placed zob p l b) = num_captures_made b"
  "num_non_pass_moves_made (placed zob p l b) = num_non_pass_moves_made b"
  by (simp_all add: placed_def put_stone_def Let_def dy_def)

lemma geometry_placed:
  assumes "geometry b" "g_board b l \<noteq> WALL" "p = BLACK \<or> p = WHITE"
  shows "geometry (placed zob p l b)"
proof -
  have "{x. ((g_board b)(l := p)) x \<noteq> WALL} \<subseteq> {x. g_board b x \<noteq> WALL}" using assms(2) by auto
  from finite_subset [OF this] assms(1) have "finite {x. ((g_board b)(l := p)) x \<noteq> WALL}"
    unfolding geometry_def by blast
  moreover have "0 < x" if "((g_board b)(l := p)) x \<noteq> WALL" for x
    using that assms(1,2) unfolding geometry_def by (metis fun_upd_apply)
  moreover have "((g_board b)(l := p)) x \<in> {EMPTY, BLACK, WHITE, WALL}" for x
    using assms(1,3) unfolding geometry_def by auto
  ultimately show ?thesis using assms(1) unfolding geometry_def placed_fields by blast
qed

lemma card_less_one: "finite X \<Longrightarrow> int (card (X - {x})) = int (card X) - (if x \<in> X then 1 else 0)"
  using card.remove [of X x] by (cases "x \<in> X") simp_all

lemma immediate_liberties:
  assumes "2 \<le> dy b"
  shows "count_immediate_liberties b l = int (card {a \<in> around (dy b) l. g_board b a = EMPTY})"
proof -
  have "length (filter (\<lambda>a. g_board b a = EMPTY) (nbrs b l)) = card (set (filter (\<lambda>a. g_board b a = EMPTY) (nbrs b l)))"
    by (rule distinct_card [symmetric]) (simp add: distinct_nbrs [OF assms])
  then show ?thesis by (simp add: count_immediate_liberties_def)
qed

lemma placed_stones:
  assumes "g_board b l = EMPTY" "p = BLACK \<or> p = WHITE"
  shows "is_stone (placed zob p l b) x \<longleftrightarrow> x = l \<or> is_stone b x" "\<not> is_stone b l"
  using assms by (auto simp: is_stone_def colors)

lemma placed_grp:
  assumes "chains_ok b" "g_board b l = EMPTY" "p = BLACK \<or> p = WHITE"
  shows "grp (placed zob p l b) l = {l}" "h \<noteq> l \<Longrightarrow> grp (placed zob p l b) h = grp b h"
proof -
  note st = placed_stones [OF assms(2,3)]
  have "group_head b x \<noteq> l" if "is_stone b x" for x
    using head_facts(1) [OF assms(1) that] st(2) by metis
  then show "grp (placed zob p l b) l = {l}" by (auto simp: grp_def st(1))
  show "grp (placed zob p l b) h = grp b h" if "h \<noteq> l"
    using that st(2) by (auto simp: grp_def st(1))
qed

lemma placed_lib_set:
  assumes "p = BLACK \<or> p = WHITE"
  shows "lib_set (placed zob p l b) A = lib_set b A - {l}"
  using assms by (auto simp: lib_set_def colors)

lemma placed_liberty_count:
  assumes "chains_ok b" "g_board b l = EMPTY" "p = BLACK \<or> p = WHITE"
  shows "group_liberty_count (placed zob p l b) l = int (card (lib_set (placed zob p l b) {l}))"
    "h \<noteq> l \<Longrightarrow> group_liberty_count (placed zob p l b) h = group_liberty_count b h
       - (if \<exists>a \<in> around (dy b) l. a \<in> grp b h then 1 else 0)"
proof -
  let ?c = "put_stone zob p l b"
  have c: "g_board ?c = (g_board b)(l := p)" "group_head ?c = (group_head b)(l := l)" "dy ?c = dy b"
    "group_liberty_count ?c h = (if h = l then count_immediate_liberties (b\<lparr>g_board := (g_board b)(l := p)\<rparr>) l
       else group_liberty_count b h)" for h
    by (simp_all add: put_stone_def Let_def dy_def count_immediate_liberties_def nbrs_def)
  have g: "geometry b" and ns: "\<And>x. \<not> is_stone b x \<Longrightarrow> group_head b x \<le> 0" and d: "2 \<le> dy b"
    using assms(1) by (auto simp: chains_ok_def geometry_def)
  have self: "l \<notin> around (dy b) l" using around_irrefl [OF d] .
  have sel: "group_head b a \<noteq> group_head b x"
    if "is_stone b a" "\<not> is_stone b x" for a x using head_facts(4) [OF assms(1) that(1)] ns [OF that(2)] by auto
  have count: "group_liberty_count (placed zob p l b) h = group_liberty_count ?c h
      + (if \<exists>a \<in> around (dy b) l. is_stone b a \<and> group_head b a = h then - 1 else 0)" for h
  proof -
    have "group_liberty_count (placed zob p l b) h = group_liberty_count ?c h
      + (if \<exists>a \<in> around (dy ?c) l. (g_board ?c a = BLACK \<or> g_board ?c a = WHITE) \<and> group_head ?c a = h then - 1 else 0)"
      unfolding placed_def
      by (rule bump_liberty_count) (use sel self in \<open>auto simp: c is_stone_def\<close>)
    then show ?thesis using self by (auto simp: c is_stone_def)
  qed
  have "\<not> (\<exists>a \<in> around (dy b) l. is_stone b a \<and> group_head b a = l)"
    using head_facts(1) [OF assms(1)] placed_stones(2) [OF assms(2,3)] by metis
  moreover have "{a \<in> around (dy b) l. ((g_board b)(l := p)) a = EMPTY} = lib_set (placed zob p l b) {l}"
    by (auto simp: lib_set_def)
  moreover have "dy (b\<lparr>g_board := (g_board b)(l := p)\<rparr>) = dy b" by (simp add: dy_def)
  ultimately show "group_liberty_count (placed zob p l b) l = int (card (lib_set (placed zob p l b) {l}))"
    using count [of l] immediate_liberties [of "b\<lparr>g_board := (g_board b)(l := p)\<rparr>" l] d by (simp add: c)
  show "group_liberty_count (placed zob p l b) h = group_liberty_count b h
       - (if \<exists>a \<in> around (dy b) l. a \<in> grp b h then 1 else 0)" if "h \<noteq> l"
    using that count [of h] by (simp add: c grp_def)
qed

lemma placed_ok:
  assumes "chains_ok b" "g_board b l = EMPTY" "p = BLACK \<or> p = WHITE"
  shows "chains_ok (placed zob p l b)"
proof -
  let ?b = "placed zob p l b"
  have g: "geometry b" using assms(1) by (simp add: chains_ok_def)
  note st = placed_stones [OF assms(2,3)] and gr = placed_grp [OF assms]
  have "chain_ok ?b l"
    unfolding chain_ok_def gr(1) using placed_liberty_count(1) [OF assms]
    by (auto simp: ring_Cons linked_singleton intro!: exI [of _ "[l]"])
  moreover have "chain_ok ?b h" if "is_stone b x" "h = group_head b x" for x h
  proof -
    have c: "chain_ok b h" using assms(1) that by (auto simp: chains_ok_def)
    have hl: "h \<noteq> l" using head_facts(1) [OF assms(1) that(1)] st(2) that(2) by auto
    have lA: "l \<notin> grp b h" using st(2) by (simp add: grp_def)
    have adj: "l \<in> lib_set b (grp b h) \<longleftrightarrow> (\<exists>a \<in> around (dy b) l. a \<in> grp b h)"
      using assms(2) around_sym by (auto simp: lib_set_def)
    have "int (card (lib_set b (grp b h) - {l})) = int (card (lib_set b (grp b h)))
        - (if l \<in> lib_set b (grp b h) then 1 else 0)"
      by (rule card_less_one) (rule finite_lib_set [OF g])
    then have lib: "group_liberty_count ?b h = int (card (lib_set ?b (grp b h)))"
      using placed_liberty_count(2) [OF assms hl] c unfolding adj placed_lib_set [OF assms(3)] chain_ok_def by simp
    show ?thesis
      by (rule chain_ok_transfer [OF c gr(2) [OF hl] _ _ _ lib]) (use lA hl in auto)
  qed
  ultimately have "chain_ok ?b (group_head ?b x)" if "is_stone ?b x" for x
    using that unfolding st(1) by (cases "x = l") auto
  moreover have "group_head ?b x \<le> 0" if "\<not> is_stone ?b x" for x
    using that assms(1) unfolding st(1) by (auto simp: chains_ok_def)
  moreover have "geometry ?b" using geometry_placed [OF g] assms(2,3) by (simp add: colors)
  ultimately show ?thesis by (simp add: chains_ok_def)
qed

end
