(* ===== verification/Board_Merge.thy ===== *)
theory Board_Merge
  imports Board_Chains
begin

text \<open>
  Merging two chains: the walk of \<open>merge_unsafe\<close> ends, counts every liberty of the union once, and
  the two rings become one.
\<close>

section \<open>The walk\<close>

definition fresh_liberties :: "goban \<Rightarrow> loc \<Rightarrow> loc set \<Rightarrow> loc set" where
  "fresh_liberties b phead A = {e \<in> lib_set b A. \<not> is_group_adjacent b phead e}"

lemma is_group_adjacent_iff: "is_group_adjacent b h e \<longleftrightarrow> (\<exists>a \<in> around (dy b) e. group_head b a = h)"
  by (simp add: is_group_adjacent_def list_ex_iff)

lemma finite_lib_set_of: "finite A \<Longrightarrow> finite (lib_set b A)"
  by (rule finite_subset [of _ "\<Union>l\<in>A. around (dy b) l"]) (auto simp: lib_set_def)

lemma new_liberties_card:
  assumes "2 \<le> dy b"
  shows "new_liberties_at b phead l = int (card (fresh_liberties b phead {l}))"
proof -
  let ?P = "\<lambda>a. g_board b a = EMPTY \<and> \<not> is_group_adjacent b phead a"
  have "length (filter ?P (nbrs b l)) = card (set (filter ?P (nbrs b l)))"
    by (rule distinct_card [symmetric]) (simp add: distinct_nbrs [OF assms])
  moreover have "set (filter ?P (nbrs b l)) = fresh_liberties b phead {l}"
    by (auto simp: fresh_liberties_def lib_set_def)
  ultimately show ?thesis by (simp add: new_liberties_at_def)
qed

lemma set_head_fields [simp]:
  "g_board (set_head l h b) = g_board b" "group_next (set_head l h b) = group_next b"
  "group_head (set_head l h b) = (group_head b)(l := h)" "dy (set_head l h b) = dy b"
  by (simp_all add: set_head_def dy_def)

lemma fresh_step:
  "fresh_liberties b p (insert l A) = fresh_liberties b p {l} \<union> fresh_liberties (set_head l p b) p A"
  "fresh_liberties b p {l} \<inter> fresh_liberties (set_head l p b) p A = {}"
  by (auto simp: fresh_liberties_def lib_set_def is_group_adjacent_iff around_sym)

lemma merge_walk_ring:
  assumes "path (group_next b) (group_next b l) ys child" "distinct (l # ys)" "child \<notin> set ys" "2 \<le> dy b"
  shows "merge_walk phead child l libs b =
    Some (b\<lparr>group_head := (\<lambda>x. if x \<in> set (l # ys) then phead else group_head b x)\<rparr>,
      libs + int (card (fresh_liberties b phead (set (l # ys)))))"
  using assms
proof (induction ys arbitrary: l libs b)
  case Nil
  then show ?case
    by (subst merge_walk.simps) (auto simp: Let_def new_liberties_card set_head_def fun_eq_iff)
next
  case (Cons y ys)
  let ?b = "set_head l phead b"
  have n: "group_next b l = y" "y \<noteq> child" using Cons.prems by auto
  have ih: "merge_walk phead child y (libs + new_liberties_at b phead l) ?b =
      Some (?b\<lparr>group_head := (\<lambda>x. if x \<in> set (y # ys) then phead else group_head ?b x)\<rparr>,
        libs + new_liberties_at b phead l + int (card (fresh_liberties ?b phead (set (y # ys)))))"
    by (rule Cons.IH) (use Cons.prems in auto)
  have "fresh_liberties b phead (set (l # y # ys)) = fresh_liberties b phead {l} \<union> fresh_liberties ?b phead (set (y # ys))"
    using fresh_step(1) [of b phead l "set (y # ys)"] by simp
  moreover have "card (fresh_liberties b phead {l} \<union> fresh_liberties ?b phead (set (y # ys))) =
      card (fresh_liberties b phead {l}) + card (fresh_liberties ?b phead (set (y # ys)))"
    by (rule card_Un_disjoint [OF _ _ fresh_step(2)]) (auto simp: fresh_liberties_def finite_lib_set_of)
  ultimately show ?case using ih n
    by (subst merge_walk.simps)
      (auto simp: Let_def new_liberties_card [OF Cons.prems(4)] set_head_def fun_eq_iff)
qed

section \<open>The merged chain\<close>

definition joined :: "loc \<Rightarrow> loc \<Rightarrow> goban \<Rightarrow> goban" where
  "joined ph ch b = b\<lparr>
     group_head := (\<lambda>x. if x \<in> grp b ch then ph else group_head b x),
     group_stone_count := (group_stone_count b)(ch := 0, ph := group_stone_count b ph + group_stone_count b ch),
     group_liberty_count := (group_liberty_count b)(ch := 0,
       ph := group_liberty_count b ph + int (card (fresh_liberties b ph (grp b ch)))),
     group_next := (group_next b)(group_prev b ch := ph, group_prev b ph := ch),
     group_prev := (group_prev b)(ch := group_prev b ph, ph := group_prev b ch)\<rparr>"

lemma merge_into:
  assumes "chains_ok b" "is_stone b child" "ph \<noteq> group_head b child"
    "merge_walk ph child child (group_liberty_count b ph) b = w"
  shows "w = Some (b\<lparr>group_head := (\<lambda>x. if x \<in> grp b (group_head b child) then ph else group_head b x)\<rparr>,
    group_liberty_count b ph + int (card (fresh_liberties b ph (grp b (group_head b child)))))"
proof -
  have c: "chain_ok b (group_head b child)" and d: "2 \<le> dy b" using assms(1,2) by (auto simp: chains_ok_def geometry_def)
  from c obtain xs where xs: "ring (group_next b) xs" "set xs = grp b (group_head b child)"
    by (rule chain_okE) blast
  have "child \<in> set xs" using xs(2) head_facts(5) [OF assms(1,2)] by simp
  from ring_from [OF xs(1) this] obtain ys where ys: "ring (group_next b) (child # ys)" "set (child # ys) = set xs" .
  from ys(1) have p: "path (group_next b) (group_next b child) ys child" "distinct (child # ys)" "child \<notin> set ys"
    by (auto simp: ring_Cons)
  show ?thesis using merge_walk_ring [OF p d, of ph "group_liberty_count b ph"] unfolding ys(2) xs(2) assms(4) .
qed

lemma merge_unsafe_cases:
  assumes "chains_ok b" "is_stone b l0" "is_stone b l1"
  shows "group_head b l0 = group_head b l1 \<and> merge_unsafe l0 l1 b = Some b
    \<or> group_head b l0 \<noteq> group_head b l1 \<and> merge_unsafe l0 l1 b = Some (joined (group_head b l0) (group_head b l1) b)
    \<or> group_head b l0 \<noteq> group_head b l1 \<and> merge_unsafe l0 l1 b = Some (joined (group_head b l1) (group_head b l0) b)"
  using merge_into [OF assms(1,2), of "group_head b l1"] merge_into [OF assms(1,3), of "group_head b l0"]
  by (auto simp: merge_unsafe_def joined_def Let_def)

lemma joined_fields [simp]:
  "g_board (joined ph ch b) = g_board b" "dy (joined ph ch b) = dy b" "g_x_size (joined ph ch b) = g_x_size b"
  "g_y_size (joined ph ch b) = g_y_size b" "is_stone (joined ph ch b) l = is_stone b l"
  "group_head (joined ph ch b) l = (if l \<in> grp b ch then ph else group_head b l)"
  "g_zobrist (joined ph ch b) = g_zobrist b" "g_pla (joined ph ch b) = g_pla b"
  "num_captures_made (joined ph ch b) = num_captures_made b"
  "num_non_pass_moves_made (joined ph ch b) = num_non_pass_moves_made b"
  "lib_set (joined ph ch b) A = lib_set b A" "geometry (joined ph ch b) = geometry b"
  by (simp_all add: joined_def dy_def is_stone_def lib_set_def geometry_def)

lemma joined_grp:
  assumes "ph \<noteq> ch"
  shows "grp (joined ph ch b) ph = grp b ph \<union> grp b ch" "grp (joined ph ch b) ch = {}"
    "h \<noteq> ph \<Longrightarrow> h \<noteq> ch \<Longrightarrow> grp (joined ph ch b) h = grp b h"
  using assms by (auto simp: grp_def)

lemma grp_disjoint: "h \<noteq> k \<Longrightarrow> grp b h \<inter> grp b k = {}"
  by (auto simp: grp_def)

lemma lib_set_Un: "lib_set b (A \<union> B) = lib_set b A \<union> lib_set b B"
  by (auto simp: lib_set_def)

lemma adjacent_to_chain:
  assumes "chains_ok b" "0 < h" "g_board b e = EMPTY"
  shows "is_group_adjacent b h e \<longleftrightarrow> e \<in> lib_set b (grp b h)"
proof -
  have "is_stone b a" if "group_head b a = h" for a
    using assms(1,2) that unfolding chains_ok_def by force
  with assms(3) show ?thesis by (auto simp: is_group_adjacent_iff lib_set_def grp_def around_sym)
qed

lemma joined_liberties:
  assumes "chains_ok b" "chain_ok b ph" "0 < ph" "ph \<noteq> ch"
  shows "group_liberty_count (joined ph ch b) ph = int (card (lib_set b (grp b ph \<union> grp b ch)))"
proof -
  have g: "geometry b" using assms(1) by (simp add: chains_ok_def)
  have f: "fresh_liberties b ph (grp b ch) = lib_set b (grp b ch) - lib_set b (grp b ph)"
    using adjacent_to_chain [OF assms(1,3)] by (auto simp: fresh_liberties_def lib_set_def)
  have "card (lib_set b (grp b ph \<union> grp b ch)) =
      card (lib_set b (grp b ph)) + card (lib_set b (grp b ch) - lib_set b (grp b ph))"
    unfolding lib_set_Un using card_Un_disjoint [of "lib_set b (grp b ph)" "lib_set b (grp b ch) - lib_set b (grp b ph)"]
    by (simp add: finite_lib_set [OF g])
  then show ?thesis using assms(2) f by (simp add: joined_def chain_ok_def)
qed

lemma joined_links:
  assumes "ring (group_next b) xs" "\<And>l. l \<in> set xs \<Longrightarrow> group_prev b (group_next b l) = l"
    "ring (group_next b) ys" "\<And>l. l \<in> set ys \<Longrightarrow> group_prev b (group_next b l) = l"
    "set xs \<inter> set ys = {}" "hd xs = ph" "hd ys = ch"
  shows "ring (group_next (joined ph ch b)) (xs @ ys)"
    "l \<in> set (xs @ ys) \<Longrightarrow> group_prev (joined ph ch b) (group_next (joined ph ch b) l) = l"
proof -
  have pl: "group_prev b ph = last xs" and cl: "group_prev b ch = last ys"
    using ring_last_prev [OF assms(1,2)] ring_last_prev [OF assms(3,4)] assms(6,7) by auto
  have "ring ((group_next b)(last ys := hd xs, last xs := hd ys)) (xs @ ys)"
    by (rule ring_join) (use assms in auto)
  then show "ring (group_next (joined ph ch b)) (xs @ ys)" by (simp add: joined_def pl cl assms(6,7))
  have ne: "xs \<noteq> []" "ys \<noteq> []" using assms(1,3) by (auto simp: ring_def)
  have "ph \<in> set xs" "ch \<in> set ys" using hd_in_set ne assms(6,7) by blast+
  then have pc: "ph \<noteq> ch" using assms(5) by blast
  assume l: "l \<in> set (xs @ ys)"
  have "group_prev b (group_next b l) = l" using l assms(2,4) by auto
  then have "group_next b l \<noteq> ph" if "l \<noteq> last xs" "l \<noteq> last ys" using that pl by metis
  moreover have "group_next b l \<noteq> ch" if "l \<noteq> last xs" "l \<noteq> last ys" using that cl \<open>group_prev b (group_next b l) = l\<close> by metis
  ultimately show "group_prev (joined ph ch b) (group_next (joined ph ch b) l) = l"
    using pc \<open>group_prev b (group_next b l) = l\<close> by (auto simp: joined_def pl cl)
qed

lemma joined_chain:
  assumes "chains_ok b" "is_stone b p" "is_stone b c" "group_head b p \<noteq> group_head b c"
    "g_board b p = g_board b c" "c \<in> around (dy b) p"
  shows "chain_ok (joined (group_head b p) (group_head b c) b) (group_head b p)"
proof -
  define ph ch where h: "ph = group_head b p" "ch = group_head b c"
  let ?b = "joined ph ch b"
  have ok: "chain_ok b ph" "chain_ok b ch" and g: "geometry b" using assms by (auto simp: chains_ok_def h)
  have col: "g_board b ph = g_board b ch" "0 < ph" "p \<in> grp b ph" "c \<in> grp b ch" "ph \<noteq> ch"
    using head_facts [OF assms(1,2)] head_facts [OF assms(1,3)] assms(4,5) unfolding h by simp_all
  from ok(1) obtain xs where x: "ph \<in> grp b ph" "\<And>y. y \<in> grp b ph \<Longrightarrow> g_board b y = g_board b ph"
    "ring (group_next b) xs" "hd xs = ph" "set xs = grp b ph" "\<And>y. y \<in> grp b ph \<Longrightarrow> group_prev b (group_next b y) = y"
    "group_stone_count b ph = int (card (grp b ph))" "linked (dy b) (grp b ph)" by (rule chain_okE) blast
  from ok(2) obtain ys where y: "\<And>y. y \<in> grp b ch \<Longrightarrow> g_board b y = g_board b ch"
    "ring (group_next b) ys" "hd ys = ch" "set ys = grp b ch" "\<And>y. y \<in> grp b ch \<Longrightarrow> group_prev b (group_next b y) = y"
    "group_stone_count b ch = int (card (grp b ch))" "linked (dy b) (grp b ch)" by (rule chain_okE) blast
  have dis: "set xs \<inter> set ys = {}" unfolding x(5) y(4) by (rule grp_disjoint [OF col(5)])
  have links: "ring (group_next ?b) (xs @ ys)" "\<And>l. l \<in> set (xs @ ys) \<Longrightarrow> group_prev ?b (group_next ?b l) = l"
    by (rule joined_links [OF x(3) _ y(2) _ dis x(4) y(3)]; use x(5,6) y(4,5) in simp)+
  have "chain_ok ?b ph"
  proof (rule chain_okI [where A = "grp b ph \<union> grp b ch" and xs = "xs @ ys"])
    show "set (xs @ ys) = grp b ph \<union> grp b ch" using x(5) y(4) by simp
    show "hd (xs @ ys) = ph" using x(3,4) by (simp add: ring_def)
    show "g_board ?b l = g_board ?b ph" if "l \<in> grp b ph \<union> grp b ch" for l
      using that x(2) y(1) col(1) by auto
    show "group_prev ?b (group_next ?b l) = l" if "l \<in> grp b ph \<union> grp b ch" for l
      using links(2) that x(5) y(4) by simp
    show "group_stone_count ?b ph = int (card (grp b ph \<union> grp b ch))"
      using card_Un_disjoint [OF finite_grp [OF g] finite_grp [OF g] grp_disjoint [OF col(5)]] x(7) y(6) col(5)
      by (simp add: joined_def)
    show "group_liberty_count ?b ph = int (card (lib_set ?b (grp b ph \<union> grp b ch)))"
      using joined_liberties [OF assms(1) ok(1) col(2,5)] by simp
    show "linked (dy ?b) (grp b ph \<union> grp b ch)"
      using linked_Un [OF x(8) y(7) col(3,4) assms(6)] by simp
  qed (use links(1) x(1) joined_grp(1) [OF col(5)] in blast)+
  then show ?thesis unfolding h .
qed

lemma joined_ok:
  assumes "chains_ok b" "is_stone b p" "is_stone b c" "group_head b p \<noteq> group_head b c"
    "g_board b p = g_board b c" "c \<in> around (dy b) p"
  shows "chains_ok (joined (group_head b p) (group_head b c) b)"
proof -
  define ph ch where h: "ph = group_head b p" "ch = group_head b c"
  let ?b = "joined ph ch b"
  have ne: "ph \<noteq> ch" using assms(4) h by simp
  have ok: "chain_ok b ph" "chain_ok b ch" using assms by (auto simp: chains_ok_def h)
  have mem: "group_prev b k \<in> grp b k" if "chain_ok b k" for k
    using that
  proof (rule chain_okE)
    fix xs assume x: "ring (group_next b) xs" "hd xs = k" "set xs = grp b k"
      "\<And>l. l \<in> grp b k \<Longrightarrow> group_prev b (group_next b l) = l"
    then show ?thesis using ring_last_prev [of b xs] last_in_set [of xs] by (auto simp: ring_def)
  qed
  have other: "chain_ok ?b k" if "is_stone b x" "k = group_head b x" "k \<noteq> ph" "k \<noteq> ch" for x k
  proof -
    have c: "chain_ok b k" using assms(1) that(1,2) by (auto simp: chains_ok_def)
    have o: "y \<notin> grp b ph \<and> y \<notin> grp b ch" if "y \<in> grp b k" for y
      using that \<open>k \<noteq> ph\<close> \<open>k \<noteq> ch\<close> grp_disjoint by blast
    have i: "ph \<in> grp b ph" "ch \<in> grp b ch" using ok by (auto simp: chain_ok_def)
    show ?thesis
    proof (rule chain_ok_transfer [OF c])
      show "g_board ?b y = g_board b y \<and> group_next ?b y = group_next b y \<and> group_prev ?b y = group_prev b y"
        if "y \<in> grp b k" for y
        using o [OF that] mem [OF ok(1)] mem [OF ok(2)] i by (auto simp: joined_def)
      show "group_liberty_count ?b k = int (card (lib_set ?b (grp b k)))"
        using c that(3,4) unfolding joined_fields by (simp add: joined_def chain_ok_def)
      show "group_stone_count ?b k = group_stone_count b k" using that(3,4) by (simp add: joined_def)
    qed (use joined_grp(3) [OF ne that(3,4)] in simp_all)
  qed
  have "chain_ok ?b (group_head ?b x)" if "is_stone b x" for x
  proof (cases "group_head b x = ph \<or> group_head b x = ch")
    case True
    then have "group_head ?b x = ph" using that by (auto simp: grp_def)
    then show ?thesis using joined_chain [OF assms] h by simp
  next
    case False
    then have "group_head ?b x = group_head b x" using that by (auto simp: grp_def)
    then show ?thesis using other [OF that refl] False by simp
  qed
  moreover have "group_head ?b x \<le> 0" if "\<not> is_stone b x" for x
    using that assms(1) by (auto simp: chains_ok_def grp_def)
  ultimately have "chains_ok ?b" using assms(1) by (simp add: chains_ok_def)
  then show ?thesis unfolding h .
qed

end
