(* ===== verification/Board_Remove.thy ===== *)
theory Board_Remove
  imports Board_Merge
begin

text \<open>
  Removing a chain: the walk of \<open>remove_unsafe\<close> ends and every opposing chain gains exactly the
  removed stones it touched. Merging and removing keep the invariant, and a board on which touching
  stones of one colour share a chain stays so.
\<close>

section \<open>The walk\<close>

definition touches :: "goban \<Rightarrow> player \<Rightarrow> loc \<Rightarrow> loc \<Rightarrow> bool" where
  "touches b opp h x \<longleftrightarrow> (\<exists>a \<in> around (dy b) x. g_board b a = opp \<and> group_head b a = h)"

definition erased :: "zobrist_table \<Rightarrow> player \<Rightarrow> loc list \<Rightarrow> goban \<Rightarrow> goban" where
  "erased zob opp xs b = b\<lparr>
     g_board := (\<lambda>x. if x \<in> set xs then EMPTY else g_board b x),
     g_zobrist := fold (\<lambda>l z. z XOR zob opp l) xs (g_zobrist b),
     group_head := (\<lambda>x. if x \<in> set xs then 0 else group_head b x),
     group_next := (\<lambda>x. if x \<in> set xs then 0 else group_next b x),
     group_prev := (\<lambda>x. if x \<in> set xs then 0 else group_prev b x),
     group_liberty_count := (\<lambda>h. group_liberty_count b h + int (card {x \<in> set xs. touches b opp h x}))\<rparr>"

definition heads_apart :: "goban \<Rightarrow> player \<Rightarrow> bool" where
  "heads_apart b opp \<longleftrightarrow> (\<forall>a. g_board b a = opp \<longrightarrow> group_head b a \<noteq> 0 \<and>
     (\<forall>c. g_board b c \<noteq> opp \<longrightarrow> group_head b a \<noteq> group_head b c))"

lemma remove_one:
  assumes "heads_apart b opp"
  shows "erase_stone zob opp l (bump_liberties (\<lambda>c. c = opp) l 1 b) = erased zob opp [l] b"
proof -
  have "group_liberty_count (bump_liberties (\<lambda>c. c = opp) l 1 b) h =
      group_liberty_count b h + (if touches b opp h l then 1 else 0)" for h
    unfolding touches_def
    by (rule bump_liberty_count) (use assms in \<open>auto simp: heads_apart_def\<close>)
  moreover have "{x. x = l \<and> touches b opp h x} = (if touches b opp h l then {l} else {})" for h by auto
  ultimately show ?thesis
    by (intro goban.equality) (auto simp: erase_stone_def erased_def fun_eq_iff)
qed

lemma touches_erased:
  assumes "\<forall>x \<in> set xs. g_board b x \<noteq> opp" "opp \<noteq> EMPTY"
  shows "touches (erased zob opp xs b) opp h x \<longleftrightarrow> touches b opp h x"
  using assms by (auto simp: touches_def erased_def dy_def)

lemma erased_append:
  assumes "\<forall>x \<in> set xs. g_board b x \<noteq> opp" "opp \<noteq> EMPTY" "set xs \<inter> set ys = {}"
  shows "erased zob opp ys (erased zob opp xs b) = erased zob opp (xs @ ys) b"
proof -
  have "card {x \<in> set (xs @ ys). touches b opp h x} =
      card {x \<in> set xs. touches b opp h x} + card {x \<in> set ys. touches b opp h x}" for h
  proof -
    have "{x \<in> set (xs @ ys). touches b opp h x} = {x \<in> set xs. touches b opp h x} \<union> {x \<in> set ys. touches b opp h x}"
      by auto
    moreover have "card ({x \<in> set xs. touches b opp h x} \<union> {x \<in> set ys. touches b opp h x}) =
        card {x \<in> set xs. touches b opp h x} + card {x \<in> set ys. touches b opp h x}"
      by (rule card_Un_disjoint) (use assms(3) in auto)
    ultimately show ?thesis by simp
  qed
  note t = touches_erased [OF assms(1,2)] and s = this
  show ?thesis
    by (intro goban.equality) (simp_all add: erased_def fun_eq_iff t [unfolded erased_def] s [simplified])
qed

lemma heads_apart_erased:
  assumes "heads_apart b opp" "opp \<noteq> EMPTY"
  shows "heads_apart (erased zob opp xs b) opp"
  using assms by (auto simp: heads_apart_def erased_def)

lemma remove_walk_ring:
  assumes "path (group_next b) (group_next b l) ys start" "distinct (l # ys)" "start \<notin> set ys"
    "\<forall>x \<in> set (l # ys). g_board b x \<noteq> opp" "opp \<noteq> EMPTY" "heads_apart b opp"
  shows "remove_walk zob opp start l b = Some (erased zob opp (l # ys) b)"
  using assms
proof (induction ys arbitrary: l b)
  case Nil
  then show ?case by (subst remove_walk.simps) (simp add: Let_def remove_one)
next
  case (Cons y ys)
  let ?b = "erased zob opp [l] b"
  have n: "group_next b l = y" "y \<noteq> start" using Cons.prems by auto
  have nx: "group_next ?b x = group_next b x" if "x \<noteq> l" for x using that by (simp add: erased_def)
  have ly: "y \<noteq> l" using Cons.prems(2) by auto
  have p: "path (group_next ?b) (group_next ?b y) ys start \<longleftrightarrow> path (group_next b) (group_next b y) ys start"
    unfolding nx [OF ly] by (rule path_cong, rule nx) (use Cons.prems(2) in auto)
  have "remove_walk zob opp start y ?b = Some (erased zob opp (y # ys) ?b)"
  proof (rule Cons.IH)
    show "path (group_next ?b) (group_next ?b y) ys start" unfolding p using Cons.prems(1) by simp
    show "\<forall>x \<in> set (y # ys). g_board ?b x \<noteq> opp" using Cons.prems(4,5) by (auto simp: erased_def)
  qed (use Cons.prems heads_apart_erased in auto)
  moreover have "erased zob opp (y # ys) ?b = erased zob opp ([l] @ y # ys) b"
    by (rule erased_append) (use Cons.prems in auto)
  ultimately show ?case
    using n by (subst remove_walk.simps) (simp add: Let_def remove_one [OF Cons.prems(6)])
qed

section \<open>The board without the chain\<close>

definition removed :: "zobrist_table \<Rightarrow> loc list \<Rightarrow> player \<Rightarrow> loc \<Rightarrow> goban \<Rightarrow> goban" where
  "removed zob xs opp h b = (let c = erased zob opp xs b in
     c\<lparr>group_stone_count := (group_stone_count c)(h := 0),
       group_liberty_count := (group_liberty_count c)(h := 0)\<rparr>)"

lemma player_cases: "is_stone b l \<Longrightarrow> get_opp (g_board b l) \<noteq> g_board b l \<and> get_opp (g_board b l) \<noteq> EMPTY
    \<and> get_opp (g_board b l) \<noteq> WALL \<and> (is_stone b k \<longrightarrow> g_board b k = g_board b l \<or> g_board b k = get_opp (g_board b l))
    \<and> (g_board b k = get_opp (g_board b l) \<longrightarrow> is_stone b k)"
  by (auto simp: is_stone_def get_opp_def colors; presburger)

lemma chains_heads_apart:
  assumes "chains_ok b" "is_stone b g"
  shows "heads_apart b (get_opp (g_board b g))"
  unfolding heads_apart_def
proof (intro allI impI conjI)
  fix a assume "g_board b a = get_opp (g_board b g)"
  then have a: "is_stone b a" using player_cases [OF assms(2)] by blast
  show "group_head b a \<noteq> 0" using head_facts(4) [OF assms(1) a] by simp
  fix c assume c: "g_board b c \<noteq> get_opp (g_board b g)"
  show "group_head b a \<noteq> group_head b c"
  proof (cases "is_stone b c")
    case True
    with head_facts(3) [OF assms(1) a] head_facts(3) [OF assms(1) True] c \<open>g_board b a = _\<close>
    show ?thesis by metis
  next
    case False
    with assms(1) head_facts(4) [OF assms(1) a] show ?thesis unfolding chains_ok_def by force
  qed
qed

lemma remove_unsafe_ring:
  assumes "chains_ok b" "is_stone b g"
  obtains xs where "distinct xs" "set xs = grp b (group_head b g)"
    "remove_unsafe zob g b = Some (removed zob xs (get_opp (g_board b g)) (group_head b g) b)"
proof -
  have c: "chain_ok b (group_head b g)" using assms by (auto simp: chains_ok_def)
  note pc = player_cases [OF assms(2)]
  from c obtain xs where xs: "ring (group_next b) xs" "set xs = grp b (group_head b g)"
    "\<And>l. l \<in> grp b (group_head b g) \<Longrightarrow> g_board b l = g_board b (group_head b g)" by (rule chain_okE) blast
  have "g \<in> set xs" using xs(2) head_facts(5) [OF assms] by simp
  from ring_from [OF xs(1) this] obtain ys where ys: "ring (group_next b) (g # ys)" "set (g # ys) = set xs" .
  from ys(1) have p: "path (group_next b) (group_next b g) ys g" "distinct (g # ys)" "g \<notin> set ys"
    by (auto simp: ring_Cons)
  have "\<forall>x \<in> set (g # ys). g_board b x \<noteq> get_opp (g_board b g)"
    unfolding ys(2) xs(2) using xs(3) head_facts(3) [OF assms] pc by auto
  from remove_walk_ring [OF p this _ chains_heads_apart [OF assms], of zob] pc
  have "remove_unsafe zob g b = Some (removed zob (g # ys) (get_opp (g_board b g)) (group_head b g) b)"
    by (simp add: remove_unsafe_def removed_def Let_def)
  from that [OF p(2) _ this] ys(2) xs(2) show ?thesis by simp
qed

lemma removed_fields [simp]:
  "g_board (removed zob xs opp h b) = (\<lambda>x. if x \<in> set xs then EMPTY else g_board b x)"
  "group_head (removed zob xs opp h b) = (\<lambda>x. if x \<in> set xs then 0 else group_head b x)"
  "group_next (removed zob xs opp h b) = (\<lambda>x. if x \<in> set xs then 0 else group_next b x)"
  "group_prev (removed zob xs opp h b) = (\<lambda>x. if x \<in> set xs then 0 else group_prev b x)"
  "group_stone_count (removed zob xs opp h b) = (group_stone_count b)(h := 0)"
  "group_liberty_count (removed zob xs opp h b) =
     (\<lambda>k. if k = h then 0 else group_liberty_count b k + int (card {x \<in> set xs. touches b opp k x}))"
  "g_zobrist (removed zob xs opp h b) = fold (\<lambda>l z. z XOR zob opp l) xs (g_zobrist b)"
  "g_x_size (removed zob xs opp h b) = g_x_size b" "g_y_size (removed zob xs opp h b) = g_y_size b"
  "dy (removed zob xs opp h b) = dy b" "g_pla (removed zob xs opp h b) = g_pla b"
  "simple_ko_point (removed zob xs opp h b) = simple_ko_point b"
  "num_captures_made (removed zob xs opp h b) = num_captures_made b"
  "num_non_pass_moves_made (removed zob xs opp h b) = num_non_pass_moves_made b"
  by (auto simp: removed_def erased_def Let_def dy_def)

text \<open>Touching stones of one colour are in one chain, except that the stone at \<open>l\<close> may still be apart
  from those at \<open>A\<close>.\<close>

definition separated :: "goban \<Rightarrow> loc \<Rightarrow> loc set \<Rightarrow> bool" where
  "separated b l A \<longleftrightarrow> (\<forall>x y. is_stone b x \<longrightarrow> y \<in> around (dy b) x \<longrightarrow> g_board b y = g_board b x \<longrightarrow>
     group_head b y = group_head b x \<or> x = l \<and> y \<in> A \<or> y = l \<and> x \<in> A)"

definition maximal :: "goban \<Rightarrow> bool" where
  "maximal b \<longleftrightarrow> (\<forall>x y. is_stone b x \<longrightarrow> y \<in> around (dy b) x \<longrightarrow> g_board b y = g_board b x \<longrightarrow>
     group_head b y = group_head b x)"

lemma separated_maximal: "separated b l {} \<longleftrightarrow> maximal b"
  by (simp add: separated_def maximal_def)

lemma removed_stones:
  "set xs = grp b h \<Longrightarrow> is_stone (removed zob xs opp h b) x \<longleftrightarrow> is_stone b x \<and> group_head b x \<noteq> h"
  by (auto simp: is_stone_def grp_def colors)

lemma removed_grp:
  assumes "set xs = grp b h" "k \<noteq> h"
  shows "grp (removed zob xs opp h b) k = grp b k"
proof -
  have "x \<in> set xs \<longleftrightarrow> is_stone b x \<and> group_head b x = h" for x using assms(1) by (simp add: grp_def)
  then show ?thesis using assms(2) unfolding grp_def removed_stones [OF assms(1)] by auto
qed

lemma removed_liberties:
  assumes "chains_ok b" "maximal b" "is_stone b g" "h = group_head b g" "set xs = grp b h"
    "is_stone b x" "k = group_head b x" "k \<noteq> h"
  shows "lib_set (removed zob xs (get_opp (g_board b g)) h b) (grp b k) =
      lib_set b (grp b k) \<union> {y \<in> set xs. touches b (get_opp (g_board b g)) k y}"
    "lib_set b (grp b k) \<inter> {y \<in> set xs. touches b (get_opp (g_board b g)) k y} = {}"
proof -
  let ?o = "get_opp (g_board b g)"
  note pc = player_cases [OF assms(3)]
  have col: "g_board b y = g_board b g" if "y \<in> set xs" for y
    using that assms(1,3) head_facts(3) [OF assms(1)] unfolding assms(4,5) grp_def by (metis (mono_tags, lifting) mem_Collect_eq)
  have t: "touches b ?o k y \<longleftrightarrow> (\<exists>a \<in> grp b k. y \<in> around (dy b) a)" if y: "y \<in> set xs" for y
  proof
    assume "touches b ?o k y"
    then show "\<exists>a \<in> grp b k. y \<in> around (dy b) a" using pc around_sym unfolding touches_def grp_def by blast
  next
    assume "\<exists>a \<in> grp b k. y \<in> around (dy b) a"
    then obtain a where a: "is_stone b a" "group_head b a = k" "a \<in> around (dy b) y" using around_sym by (auto simp: grp_def)
    have "g_board b a \<noteq> g_board b y"
      using assms(2) a y assms(8) unfolding maximal_def assms(5) grp_def by (metis (mono_tags, lifting) mem_Collect_eq)
    then have "g_board b a = ?o" using pc a(1) col [OF y] by metis
    then show "touches b ?o k y" using a unfolding touches_def by blast
  qed
  have ne: "g_board b y \<noteq> EMPTY" if "y \<in> set xs" for y
    using that stone_not_wall unfolding assms(5) grp_def by blast
  show "lib_set (removed zob xs ?o h b) (grp b k) = lib_set b (grp b k) \<union> {y \<in> set xs. touches b ?o k y}"
    using t by (auto simp: lib_set_def)
  show "lib_set b (grp b k) \<inter> {y \<in> set xs. touches b ?o k y} = {}"
    using ne by (auto simp: lib_set_def)
qed

lemma geometry_erase:
  assumes "geometry b" "\<And>x. x \<in> A \<Longrightarrow> g_board b x \<noteq> WALL" "g_board c = (\<lambda>x. if x \<in> A then EMPTY else g_board b x)" "dy c = dy b"
  shows "geometry c"
proof -
  have "{x. g_board c x \<noteq> WALL} = {x. g_board b x \<noteq> WALL}" using assms(2,3) by (auto simp: colors)
  then show ?thesis using assms unfolding geometry_def by auto
qed

lemma removed_ok:
  assumes "chains_ok b" "maximal b" "is_stone b g" "h = group_head b g" "set xs = grp b h"
  shows "chains_ok (removed zob xs (get_opp (g_board b g)) h b)" "maximal (removed zob xs (get_opp (g_board b g)) h b)"
proof -
  let ?b = "removed zob xs (get_opp (g_board b g)) h b"
  note st = removed_stones [OF assms(5), of zob "get_opp (g_board b g)"]
  have out: "x \<notin> set xs" if "is_stone ?b x" for x using that st assms(5) by (auto simp: grp_def)
  have g: "geometry b" using assms(1) by (simp add: chains_ok_def)
  have "chain_ok ?b k" if "is_stone b x" "k = group_head b x" "k \<noteq> h" for x k
  proof -
    have c: "chain_ok b k" using assms(1) that by (auto simp: chains_ok_def)
    note lib = removed_liberties [OF assms that]
    have "card (lib_set ?b (grp b k)) = card (lib_set b (grp b k)) + card {y \<in> set xs. touches b (get_opp (g_board b g)) k y}"
      unfolding lib(1) by (rule card_Un_disjoint [OF _ _ lib(2)]) (simp_all add: finite_lib_set [OF g])
    then have l: "group_liberty_count ?b k = int (card (lib_set ?b (grp b k)))"
      using c that(3) by (simp add: chain_ok_def del: of_nat_add add: of_nat_add [symmetric])
    have "y \<notin> set xs" if "y \<in> grp b k" for y
      using that grp_disjoint [OF \<open>k \<noteq> h\<close>] assms(5) by blast
    then show ?thesis
      by (intro chain_ok_transfer [OF c removed_grp [OF assms(5) that(3)] _ _ _ l]) (use that(3) in simp_all)
  qed
  then have "chain_ok ?b (group_head ?b x)" if "is_stone ?b x" for x using that out [OF that] st by simp
  moreover have "group_head ?b x \<le> 0" if "\<not> is_stone ?b x" for x
    using that st assms(1,5) by (auto simp: chains_ok_def grp_def)
  moreover have "geometry ?b"
    by (rule geometry_erase [OF g, where A = "set xs"]) (use assms(5) stone_not_wall in \<open>auto simp: grp_def\<close>)
  ultimately show "chains_ok ?b" by (simp add: chains_ok_def)
  show "maximal ?b" unfolding maximal_def
  proof (intro allI impI)
    fix x y assume x: "is_stone ?b x" "y \<in> around (dy ?b) x" "g_board ?b y = g_board ?b x"
    then have y: "y \<notin> set xs" "x \<notin> set xs" using out [OF x(1)] stone_not_wall [OF x(1)] by (auto split: if_splits)
    with x st assms(2) show "group_head ?b y = group_head ?b x" by (simp add: maximal_def)
  qed
qed

end
