(* ===== verification/Board_Rules.thy ===== *)
theory Board_Rules
  imports Board_Remove
begin

text \<open>
  The rules of Go on bare positions, and that \<open>add_unsafe\<close> implements them: place the stone, remove
  the opponent's strings without liberties, then one's own.
\<close>

section \<open>Strings and liberties of a position\<close>

definition touching :: "int \<Rightarrow> (loc \<Rightarrow> player) \<Rightarrow> (loc \<times> loc) set" where
  "touching d c = {(x, y). c x = c y \<and> y \<in> around d x}"

definition string_of :: "int \<Rightarrow> (loc \<Rightarrow> player) \<Rightarrow> loc \<Rightarrow> loc set" where
  "string_of d c x = {y. (x, y) \<in> (touching d c)\<^sup>*}"

definition liberties :: "int \<Rightarrow> (loc \<Rightarrow> player) \<Rightarrow> loc \<Rightarrow> loc set" where
  "liberties d c x = {e. c e = EMPTY \<and> (\<exists>y \<in> string_of d c x. e \<in> around d y)}"

definition clear :: "int \<Rightarrow> player \<Rightarrow> (loc \<Rightarrow> player) \<Rightarrow> loc \<Rightarrow> player" where
  "clear d p c = (\<lambda>x. if c x = p \<and> liberties d c x = {} then EMPTY else c x)"

definition rule_move :: "int \<Rightarrow> player \<Rightarrow> loc \<Rightarrow> (loc \<Rightarrow> player) \<Rightarrow> loc \<Rightarrow> player" where
  "rule_move d p l c = clear d p (clear d (get_opp p) (c(l := p)))"

lemma string_self [simp]: "x \<in> string_of d c x"
  by (simp add: string_of_def)

lemma string_step: "y \<in> string_of d c x \<Longrightarrow> z \<in> around d y \<Longrightarrow> c z = c y \<Longrightarrow> z \<in> string_of d c x"
  unfolding string_of_def touching_def mem_Collect_eq by (erule rtrancl_into_rtrancl) simp

lemma string_induct [consumes 1, case_names self step]:
  assumes "y \<in> string_of d c x" "P x"
    "\<And>y z. y \<in> string_of d c x \<Longrightarrow> P y \<Longrightarrow> z \<in> around d y \<Longrightarrow> c y = c z \<Longrightarrow> P z"
  shows "P y"
  using assms(1) unfolding string_of_def mem_Collect_eq
  by (induction rule: rtrancl_induct) (use assms(2,3) in \<open>auto simp: string_of_def touching_def\<close>)

lemma string_color: "y \<in> string_of d c x \<Longrightarrow> c y = c x"
  by (induction rule: string_induct) auto

lemma chain_string:
  assumes "chains_ok b" "maximal b" "is_stone b x"
  shows "grp b (group_head b x) = string_of (dy b) (g_board b) x"
proof
  let ?A = "grp b (group_head b x)"
  have k: "linked (dy b) ?A" "\<And>y. y \<in> ?A \<Longrightarrow> g_board b y = g_board b (group_head b x)"
    using assms(1,3) unfolding chains_ok_def chain_ok_def by blast+
  have "{(a, c). a \<in> ?A \<and> c \<in> ?A \<and> c \<in> around (dy b) a} \<subseteq> touching (dy b) (g_board b)"
    using k(2) by (auto simp: touching_def)
  from rtrancl_mono [OF this] k(1) head_facts(5) [OF assms(1,3)]
  show "?A \<subseteq> string_of (dy b) (g_board b) x" unfolding linked_def string_of_def by blast
  show "string_of (dy b) (g_board b) x \<subseteq> ?A"
  proof
    fix y assume "y \<in> string_of (dy b) (g_board b) x"
    then show "y \<in> ?A"
    proof (induction rule: string_induct)
      case self
      then show ?case by (rule head_facts(5) [OF assms(1,3)])
    next
      case (step y z)
      then have "is_stone b y" "is_stone b z" by (auto simp: grp_def is_stone_def)
      with step assms(2) show ?case by (auto simp: grp_def maximal_def)
    qed
  qed
qed

lemma chain_liberties:
  assumes "chains_ok b" "maximal b" "is_stone b x"
  shows "group_liberty_count b (group_head b x) = int (card (liberties (dy b) (g_board b) x))"
    "finite (liberties (dy b) (g_board b) x)"
proof -
  have "liberties (dy b) (g_board b) x = lib_set b (grp b (group_head b x))"
    unfolding chain_string [OF assms] by (simp add: liberties_def lib_set_def)
  with assms show "group_liberty_count b (group_head b x) = int (card (liberties (dy b) (g_board b) x))"
    "finite (liberties (dy b) (g_board b) x)"
    using finite_lib_set by (auto simp: chains_ok_def chain_ok_def)
qed

section \<open>Merging around the new stone\<close>

definition same_position :: "goban \<Rightarrow> goban \<Rightarrow> bool" where
  "same_position b c \<longleftrightarrow> g_board c = g_board b \<and> g_x_size c = g_x_size b \<and> g_y_size c = g_y_size b
     \<and> g_zobrist c = g_zobrist b \<and> g_pla c = g_pla b \<and> num_captures_made c = num_captures_made b
     \<and> num_non_pass_moves_made c = num_non_pass_moves_made b"

lemma same_position_facts:
  assumes "same_position b c"
  shows "is_stone c x = is_stone b x" "dy c = dy b" "g_board c = g_board b" "nbrs c x = nbrs b x"
  using assms by (auto simp: same_position_def is_stone_def dy_def nbrs_def)

lemma same_position_trans: "same_position a b \<Longrightarrow> same_position b c \<Longrightarrow> same_position a c"
  by (simp add: same_position_def)

lemma joined_heads:
  assumes "chains_ok b" "0 < ch" "group_head b x = group_head b y"
  shows "group_head (joined ph ch b) x = group_head (joined ph ch b) y"
proof -
  have "z \<in> grp b ch \<longleftrightarrow> group_head b z = ch" for z
    using assms(1,2) unfolding chains_ok_def grp_def by force
  with assms(3) show ?thesis by simp
qed

lemma merge_unsafe_ok:
  assumes "chains_ok b" "is_stone b l0" "is_stone b l1" "g_board b l0 = g_board b l1" "l1 \<in> around (dy b) l0"
  obtains c where "merge_unsafe l0 l1 b = Some c" "chains_ok c" "same_position b c"
    "group_head c l0 = group_head c l1" "\<And>x y. group_head b x = group_head b y \<Longrightarrow> group_head c x = group_head c y"
proof -
  let ?h = "group_head b"
  note pos = head_facts(4) [OF assms(1,2)] head_facts(4) [OF assms(1,3)]
    and mem = head_facts(5) [OF assms(1,2)] head_facts(5) [OF assms(1,3)]
  have sp: "same_position b (joined p c b)" for p c by (simp add: same_position_def)
  consider "?h l0 = ?h l1" "merge_unsafe l0 l1 b = Some b"
    | "?h l0 \<noteq> ?h l1" "merge_unsafe l0 l1 b = Some (joined (?h l0) (?h l1) b)"
    | "?h l0 \<noteq> ?h l1" "merge_unsafe l0 l1 b = Some (joined (?h l1) (?h l0) b)"
    using merge_unsafe_cases [OF assms(1-3)] by blast
  then show ?thesis
  proof cases
    case 1
    show ?thesis by (rule that [OF 1(2) assms(1) _ 1(1)]) (simp_all add: same_position_def)
  next
    case 2
    show ?thesis
      by (rule that [OF 2(2) joined_ok [OF assms(1-3) 2(1) assms(4,5)] sp _ joined_heads [OF assms(1) pos(2)]])
        (use mem 2(1) in \<open>simp_all add: grp_def\<close>)
  next
    case 3
    have "l0 \<in> around (dy b) l1" using assms(5) around_sym by metis
    note ok = joined_ok [OF assms(1,3,2) 3(1) [symmetric] assms(4) [symmetric] this]
    show ?thesis
      by (rule that [OF 3(2) ok sp _ joined_heads [OF assms(1) pos(1)]])
        (use mem 3(1) in \<open>simp_all add: grp_def\<close>)
  qed
qed

lemma merge_all_ok:
  assumes "chains_ok b" "is_stone b l" "g_board b l = p" "set as \<subseteq> around (dy b) l" "separated b l (set as)"
  shows "\<exists>c. merge_all p l as b = Some c \<and> chains_ok c \<and> same_position b c \<and> maximal c"
  using assms
proof (induction as arbitrary: b)
  case Nil
  then show ?case by (simp add: separated_maximal same_position_def)
next
  case (Cons a as)
  show ?case
  proof (cases "g_board b a = p")
    case False
    have "separated b l (set as)"
      using Cons.prems(3,5) False unfolding separated_def by (metis insert_iff list.set(2))
    then have "\<exists>c. merge_all p l as b = Some c \<and> chains_ok c \<and> same_position b c \<and> maximal c"
      by (intro Cons.IH) (use Cons.prems in auto)
    then show ?thesis using False by simp
  next
    case True
    have a: "is_stone b a" "a \<in> around (dy b) l" using True Cons.prems(2-4) by (auto simp: is_stone_def)
    obtain c where c: "merge_unsafe l a b = Some c" "chains_ok c" "same_position b c"
      "group_head c l = group_head c a" "\<And>x y. group_head b x = group_head b y \<Longrightarrow> group_head c x = group_head c y"
      using merge_unsafe_ok [OF Cons.prems(1,2) a(1) _ a(2)] Cons.prems(3) True by metis
    note f = same_position_facts [OF c(3)]
    have "separated c l (set as)" unfolding separated_def f
    proof (intro allI impI)
      fix x y assume "is_stone b x" "y \<in> around (dy b) x" "g_board b y = g_board b x"
      then have "group_head b y = group_head b x \<or> x = l \<and> y \<in> set (a # as) \<or> y = l \<and> x \<in> set (a # as)"
        using Cons.prems(5) unfolding separated_def by blast
      then show "group_head c y = group_head c x \<or> x = l \<and> y \<in> set as \<or> y = l \<and> x \<in> set as"
        using c(4) c(5) [of y x] by (metis set_ConsD)
    qed
    then have "\<exists>e. merge_all p l as c = Some e \<and> chains_ok e \<and> same_position c e \<and> maximal e"
      by (intro Cons.IH) (use Cons.prems c(2) f in auto)
    then show ?thesis using True c(1,3) same_position_trans by auto
  qed
qed

end
