(* ===== verification/Board_Counts.thy ===== *)
theory Board_Counts
  imports Board_Rules
begin

text \<open>
  The liberty counts at the head 0 that empty locations have: the code reads them when a chain may
  have been captured, and relies on them being 0. No operation changes them.
\<close>

lemma opp_facts:
  assumes "p = BLACK \<or> p = WHITE"
  shows "get_opp p \<noteq> p" "get_opp p \<noteq> EMPTY" "p \<noteq> EMPTY" "get_opp p = BLACK \<or> get_opp p = WHITE"
  using assms by (auto simp: get_opp_def colors)

definition low :: "goban \<Rightarrow> bool" where
  "low b \<longleftrightarrow> (\<forall>h \<le> 0. group_liberty_count b h = 0)"

definition headed :: "goban \<Rightarrow> bool" where
  "headed b \<longleftrightarrow> (\<forall>x. is_stone b x \<longrightarrow> 0 < group_head b x)"

definition settled :: "goban \<Rightarrow> bool" where
  "settled b \<longleftrightarrow> low b \<and> headed b"

lemma chains_headed: "chains_ok b \<Longrightarrow> headed b"
  using head_facts(4) by (auto simp: headed_def)

lemma settled_low: "settled b \<Longrightarrow> low b"
  by (simp add: settled_def)

text \<open>Reading the count of an empty location.\<close>

lemma low_empty: "chains_ok b \<Longrightarrow> low b \<Longrightarrow> \<not> is_stone b x \<Longrightarrow> group_liberty_count b (group_head b x) = 0"
  by (auto simp: chains_ok_def low_def)

section \<open>The updates of a move\<close>

lemma low_add [simp]: "0 < h \<Longrightarrow> low (add_liberties h d b) = low b"
  by (auto simp: low_def add_liberties_def)

lemma low_bump:
  assumes "low b" "headed b" "\<And>c. sel c \<Longrightarrow> c = BLACK \<or> c = WHITE"
  shows "low (bump_liberties sel l d b)"
proof -
  have "0 < group_head b a" if "sel (g_board b a)" for a
    using that assms(2,3) by (auto simp: headed_def is_stone_def)
  then show ?thesis using assms(1) by (simp add: bump_liberties_def Let_def)
qed

lemma bump_keeps [simp]: "g_board (bump_liberties sel l d b) = g_board b"
  "group_head (bump_liberties sel l d b) = group_head b" "headed (bump_liberties sel l d b) = headed b"
  "is_stone (bump_liberties sel l d b) x = is_stone b x"
  by (simp_all add: bump_liberties_def add_liberties_def Let_def headed_def is_stone_def)

lemma settled_bump: "settled b \<Longrightarrow> (\<And>c. sel c \<Longrightarrow> c = BLACK \<or> c = WHITE) \<Longrightarrow> settled (bump_liberties sel l d b)"
  using low_bump by (simp add: settled_def)

lemma settled_put: "settled b \<Longrightarrow> 0 < l \<Longrightarrow> settled (put_stone zob p l b)"
  by (auto simp: settled_def low_def headed_def is_stone_def put_stone_def Let_def)

lemma merge_walk_settled:
  "merge_walk ph child l n b = Some r \<Longrightarrow> 0 < ph \<Longrightarrow> settled b \<Longrightarrow>
    settled (fst r) \<and> group_liberty_count (fst r) = group_liberty_count b \<and> g_board (fst r) = g_board b"
proof (induction rule: merge_walk.raw_induct [rotated, consumes 1, case_names walk])
  case (walk f ph child l n b r)
  let ?b = "set_head l ph b"
  have "settled ?b" using walk.prems by (auto simp: settled_def low_def headed_def is_stone_def set_head_def)
  moreover have "group_liberty_count ?b = group_liberty_count b" "g_board ?b = g_board b" by (simp_all add: set_head_def)
  ultimately show ?case using walk by (auto simp: Let_def split: if_splits)
qed

lemma merge_settled:
  assumes "merge_unsafe l0 l1 b = Some c" "settled b" "is_stone b l0" "is_stone b l1"
  shows "settled c \<and> g_board c = g_board b"
proof -
  have pos: "0 < group_head b l0" "0 < group_head b l1" using assms(2-4) by (auto simp: settled_def headed_def)
  define ends where "ends = (if group_stone_count b (group_head b l0) \<ge> group_stone_count b (group_head b l1) then (l0, l1) else (l1, l0))"
  obtain pa ch where ends: "ends = (pa, ch)" by (cases ends)
  let ?p = "group_head b pa" and ?c = "group_head b ch"
  have p: "0 < ?p" "0 < ?c" using ends pos by (auto simp: ends_def split: if_splits)
  show ?thesis
  proof (cases "?p = ?c")
    case True
    then show ?thesis using assms(1,2) by (simp add: merge_unsafe_def ends_def [symmetric] ends)
  next
    case False
    with assms(1) obtain b1 n where w: "merge_walk ?p ch ch (group_liberty_count b ?p) b = Some (b1, n)"
      by (auto simp: merge_unsafe_def ends_def [symmetric] ends Let_def bind_eq_Some_conv)
    from merge_walk_settled [OF this p(1) assms(2)]
    have q: "settled b1" "group_liberty_count b1 = group_liberty_count b" "g_board b1 = g_board b" by simp_all
    have "group_liberty_count c = (group_liberty_count b1)(?c := 0, ?p := n)" "g_board c = g_board b" "group_head c = group_head b1"
      using assms(1) False w q(3) by (auto simp: merge_unsafe_def ends_def [symmetric] ends Let_def)
    with q p show ?thesis by (simp add: settled_def low_def headed_def is_stone_def)
  qed
qed

lemma merge_all_settled:
  "merge_all p l as b = Some c \<Longrightarrow> settled b \<Longrightarrow> is_stone b l \<Longrightarrow> p = BLACK \<or> p = WHITE \<Longrightarrow> settled c"
proof (induction p l as b rule: merge_all.induct)
  case (2 p l a as b)
  from "2.prems"(1) obtain b1 where b1: "(if g_board b a = p then merge_unsafe l a b else Some b) = Some b1"
    "merge_all p l as b1 = Some c" by (auto simp: bind_eq_Some_conv)
  have "settled b1 \<and> g_board b1 = g_board b"
  proof (cases "g_board b a = p")
    case True
    then show ?thesis using b1(1) merge_settled [of l a b b1] "2.prems" by (auto simp: is_stone_def)
  qed (use b1(1) "2.prems" in simp)
  then show ?case using "2.IH" [OF b1 _ _ "2.prems"(4)] "2.prems"(3) by (simp add: is_stone_def)
qed simp

lemma settled_erase: "settled b \<Longrightarrow> settled (erase_stone zob p l b)"
  by (auto simp: settled_def low_def headed_def is_stone_def erase_stone_def colors)

lemma remove_walk_settled:
  "remove_walk zob q s l b = Some c \<Longrightarrow> settled b \<Longrightarrow> q = BLACK \<or> q = WHITE \<Longrightarrow> settled c"
proof (induction rule: remove_walk.raw_induct [rotated, consumes 1, case_names walk])
  case (walk f zob q s l b c)
  have "settled (erase_stone zob q l (bump_liberties (\<lambda>c. c = q) l 1 b))"
    by (intro settled_erase settled_bump) (use walk.prems in auto)
  with walk show ?case by (auto simp: Let_def split: if_splits)
qed

lemma remove_settled:
  assumes "remove_unsafe zob g b = Some c" "settled b" "is_stone b g"
  shows "settled c"
proof -
  have "get_opp (g_board b g) = BLACK \<or> get_opp (g_board b g) = WHITE"
    using assms(3) opp_facts(4) by (simp add: is_stone_def)
  with assms(1) remove_walk_settled [OF _ assms(2)] show ?thesis
    by (fastforce simp: remove_unsafe_def Let_def bind_eq_Some_conv settled_def low_def headed_def is_stone_def)
qed

lemma capture_all_settled:
  "capture_all zob q as n cap b = Some (c, m, z) \<Longrightarrow> settled b \<Longrightarrow> q = BLACK \<or> q = WHITE \<Longrightarrow> settled c"
proof (induction zob q as n cap b rule: capture_all.induct)
  case (2 zob q a as n cap b)
  show ?case
  proof (cases "g_board b a = q \<and> group_liberty_count b (group_head b a) = 0")
    case True
    with "2.prems"(1) obtain b1 where b1: "remove_unsafe zob a b = Some b1"
      "capture_all zob q as (n + group_stone_count b (group_head b a)) a b1 = Some (c, m, z)"
      by (auto simp: bind_eq_Some_conv)
    have "settled b1" by (rule remove_settled [OF b1(1) "2.prems"(2)]) (use True "2.prems"(3) in \<open>simp add: is_stone_def\<close>)
    then show ?thesis using "2.IH"(1) [OF True b1 _ "2.prems"(3)] by blast
  next
    case False
    then have "capture_all zob q as n cap b = Some (c, m, z)" using "2.prems"(1) by (auto split: if_splits)
    from "2.IH"(2) [OF False this "2.prems"(2,3)] show ?thesis .
  qed
qed simp

lemma settled_fields [simp]:
  "settled (b\<lparr>num_captures_made := x\<rparr>) = settled b" "settled (b\<lparr>num_non_pass_moves_made := y\<rparr>) = settled b"
  "settled (b\<lparr>simple_ko_point := k\<rparr>) = settled b" "settled (b\<lparr>g_pla := p\<rparr>) = settled b"
  "low (b\<lparr>simple_ko_point := k\<rparr>) = low b" "low (b\<lparr>g_pla := p\<rparr>) = low b"
  "low (b\<lparr>num_captures_made := x\<rparr>) = low b" "low (b\<lparr>num_non_pass_moves_made := y\<rparr>) = low b"
  by (simp_all add: settled_def low_def headed_def is_stone_def)

end
