(* ===== verification/Board_Move.thy ===== *)
theory Board_Move
  imports Board_Counts
begin

text \<open>
  \<open>add_unsafe\<close> plays by the rules: it ends, keeps the invariant, and its position, its prisoners and
  its ko point are those of the rules.
\<close>

section \<open>Facts about positions\<close>

lemma string_sym: "y \<in> string_of d c x \<Longrightarrow> x \<in> string_of d c y"
proof (induction rule: string_induct)
  case (step y z)
  have "y \<in> around d z" using step.hyps(2) around_sym by metis
  then have "(z, y) \<in> touching d c" using step.hyps(3) by (simp add: touching_def)
  with step.IH show ?case by (auto simp: string_of_def intro: converse_rtrancl_into_rtrancl)
qed simp

lemma string_eq: "y \<in> string_of d c x \<Longrightarrow> string_of d c y = string_of d c x"
  using string_sym [of y d c x] by (auto simp: string_of_def)

lemma liberties_eq: "y \<in> string_of d c x \<Longrightarrow> liberties d c y = liberties d c x"
  using string_eq by (simp add: liberties_def)

lemma string_mono:
  assumes "\<And>y. y \<in> string_of d c x \<Longrightarrow> e y = e x"
  shows "string_of d c x \<subseteq> string_of d e x"
proof
  fix y assume "y \<in> string_of d c x"
  then show "y \<in> string_of d e x"
  proof (induction rule: string_induct)
    case (step y z)
    have "z \<in> string_of d c x" using step string_step by metis
    with step assms show ?case using string_step [of y d e x z] by metis
  qed simp
qed

lemma string_cong:
  assumes "\<And>y. c y = c x \<longleftrightarrow> e y = e x"
  shows "string_of d c x = string_of d e x"
  using string_mono [of d c x e] string_mono [of d e x c] assms string_color by blast

lemma clear_keeps: "c x = EMPTY \<Longrightarrow> clear d q c x = EMPTY"
  by (simp add: clear_def)

lemma clear_liberties:
  assumes "clear d q c x = c x" "c x \<noteq> EMPTY"
  shows "liberties d c x \<subseteq> liberties d (clear d q c) x"
proof -
  have "clear d q c y = clear d q c x" if "y \<in> string_of d c x" for y
    using assms string_color [OF that] liberties_eq [OF that] unfolding clear_def by (metis (full_types))
  from string_mono [of d c x "clear d q c", OF this] have "string_of d c x \<subseteq> string_of d (clear d q c) x" .
  then show ?thesis using clear_keeps by (fastforce simp: liberties_def)
qed

definition captured :: "int \<Rightarrow> player \<Rightarrow> (loc \<Rightarrow> player) \<Rightarrow> loc set" where
  "captured d q c = {x. c x = q \<and> liberties d c x = {}}"

lemma clear_captured: "clear d q c = (\<lambda>x. if x \<in> captured d q c then EMPTY else c x)"
  by (auto simp: clear_def captured_def fun_eq_iff)

text \<open>No string is left without liberties, whatever the position before the move.\<close>

lemma rule_move_alive:
  assumes "rule_move d p l c x \<noteq> EMPTY" "rule_move d p l c x \<in> {p, get_opp p}"
  shows "liberties d (rule_move d p l c) x \<noteq> {}"
proof -
  let ?c2 = "c(l := p)"
  let ?c3 = "clear d (get_opp p) ?c2"
  have k3: "rule_move d p l c x = ?c3 x" using assms(1) by (simp add: rule_move_def clear_def split: if_splits)
  then have k2: "?c3 x = ?c2 x" using assms(1) by (auto simp: clear_def split: if_splits)
  have l3: "liberties d ?c3 x \<subseteq> liberties d (rule_move d p l c) x"
    using clear_liberties [of d p ?c3 x] k3 assms(1) by (simp add: rule_move_def)
  have "liberties d ?c3 x \<noteq> {}"
  proof (cases "?c3 x = p")
    case True
    then show ?thesis using k3 assms(1) by (auto simp: rule_move_def clear_def [of d p ?c3])
  next
    case False
    then have "?c2 x = get_opp p" using assms(2) k2 k3 by auto
    then have "liberties d ?c2 x \<noteq> {}" using k2 k3 assms(1) by (auto simp: clear_def)
    moreover have "liberties d ?c2 x \<subseteq> liberties d ?c3 x"
      by (rule clear_liberties) (use k2 k3 assms(1) in auto)
    ultimately show ?thesis by blast
  qed
  with l3 show ?thesis by blast
qed

text \<open>Only the string of the new stone can be its player's string without liberties.\<close>

lemma others_alive:
  assumes "c x = p" "liberties d c x \<noteq> {}" "p \<noteq> EMPTY" "get_opp p \<noteq> p"
    "e = clear d (get_opp p) (c(l := p))" "x \<notin> string_of d e l"
  shows "liberties d e x \<noteq> {}"
proof -
  have p: "e y = p" if "y = l \<or> c y = p" for y using that assms(3-5) by (auto simp: clear_def)
  have s: "string_of d c x \<subseteq> string_of d e x"
    by (rule string_mono) (use p assms(1) string_color in metis)
  from assms(2) obtain z y where z: "c z = EMPTY" "y \<in> string_of d c x" "z \<in> around d y"
    by (auto simp: liberties_def)
  have y: "y \<in> string_of d e x" "e y = p" using z(2) s string_color [OF z(2)] p assms(1) by auto
  have "z \<noteq> l"
  proof
    assume "z = l"
    then have "l \<in> string_of d e x" using string_step [OF y(1), of l] z(3) p [of l] y(2) by simp
    then show False using string_sym assms(6) by metis
  qed
  then have "e z = EMPTY" using z(1) assms(5) clear_keeps by simp
  with y z(3) show ?thesis by (auto simp: liberties_def)
qed

lemma own_captured:
  assumes "\<And>x. c x = p \<Longrightarrow> liberties d c x \<noteq> {}" "p \<noteq> EMPTY" "get_opp p \<noteq> p"
    "e = clear d (get_opp p) (c(l := p))"
  shows "captured d p e = (if liberties d e l = {} then string_of d e l else {})"
proof -
  have l: "e l = p" using assms(2-4) by (simp add: clear_def)
  have "e x = p \<Longrightarrow> x = l \<or> c x = p" for x using assms(2,4) by (auto simp: clear_def split: if_splits)
  then have o: "liberties d e x \<noteq> {}" if "e x = p" "x \<notin> string_of d e l" for x
    using others_alive [OF _ assms(1) assms(2-4)] that string_self by metis
  have "x \<in> captured d p e \<longleftrightarrow> x \<in> string_of d e l \<and> liberties d e l = {}" for x
  proof (cases "x \<in> string_of d e l")
    case True
    from string_color [OF this] liberties_eq [OF this] l True show ?thesis by (simp add: captured_def)
  qed (use o [of x] in \<open>auto simp: captured_def\<close>)
  then show ?thesis by auto
qed

section \<open>Captures\<close>

definition doomed :: "goban \<Rightarrow> player \<Rightarrow> loc set \<Rightarrow> loc set" where
  "doomed b q A = {x. g_board b x = q \<and> group_liberty_count b (group_head b x) = 0
     \<and> (\<exists>a \<in> A. group_head b a = group_head b x)}"

definition same_game :: "goban \<Rightarrow> goban \<Rightarrow> bool" where
  "same_game b c \<longleftrightarrow> g_x_size c = g_x_size b \<and> g_y_size c = g_y_size b \<and> g_pla c = g_pla b
     \<and> num_captures_made c = num_captures_made b \<and> num_non_pass_moves_made c = num_non_pass_moves_made b"

lemma finite_doomed: "geometry b \<Longrightarrow> q = BLACK \<or> q = WHITE \<Longrightarrow> finite (doomed b q A)"
  by (rule finite_subset [of _ "{l. g_board b l \<noteq> WALL}"]) (auto simp: geometry_def doomed_def colors)

lemma same_chain:
  assumes "chains_ok b" "is_stone b x" "group_head b a = group_head b x"
  shows "is_stone b a" "g_board b a = g_board b x"
proof -
  show a: "is_stone b a" using assms head_facts(4) [OF assms(1,2)] unfolding chains_ok_def by force
  show "g_board b a = g_board b x"
    using head_facts(3) [OF assms(1) a] head_facts(3) [OF assms(1,2)] assms(3) by simp
qed

lemma doomed_skip:
  assumes "chains_ok b" "q = BLACK \<or> q = WHITE" "\<not> (g_board b a = q \<and> group_liberty_count b (group_head b a) = 0)"
  shows "doomed b q (insert a A) = doomed b q A"
proof -
  have "group_head b a \<noteq> group_head b x" if "g_board b x = q" "group_liberty_count b (group_head b x) = 0" for x
    using same_chain(2) [OF assms(1), of x a] that assms(2,3) by (auto simp: is_stone_def)
  then show ?thesis by (auto simp: doomed_def)
qed

lemma doomed_step:
  assumes "chains_ok b" "is_stone b a" "g_board b a = q" "group_liberty_count b (group_head b a) = 0"
    "set xs = grp b (group_head b a)" "c = removed zob xs (get_opp q) (group_head b a) b"
  shows "doomed b q (insert a A) = grp b (group_head b a) \<union> doomed c q A"
    "grp b (group_head b a) \<inter> doomed c q A = {}"
proof -
  let ?h = "group_head b a"
  have q: "get_opp q \<noteq> q" "q \<noteq> EMPTY" using player_cases [OF assms(2)] assms(2,3) stone_not_wall by auto
  have in_xs: "x \<in> set xs \<longleftrightarrow> is_stone b x \<and> group_head b x = ?h" for x using assms(5) by (simp add: grp_def)
  have st: "is_stone b x" if "g_board b x = q" for x using that assms(2,3) by (simp add: is_stone_def)
  have t: "\<not> touches b (get_opp q) (group_head b x) y" if "g_board b x = q" for x y
  proof
    assume "touches b (get_opp q) (group_head b x) y"
    then obtain z where "g_board b z = get_opp q" "group_head b z = group_head b x" by (auto simp: touches_def)
    with same_chain(2) [OF assms(1) st [OF that]] that q(1) show False by metis
  qed
  have kept: "g_board c x = q \<longleftrightarrow> g_board b x = q \<and> group_head b x \<noteq> ?h" for x
    using q(2) st in_xs by (auto simp: assms(6))
  have cnt: "group_head c x = group_head b x \<and> group_liberty_count c (group_head c x) = group_liberty_count b (group_head b x)"
    if "g_board b x = q" "group_head b x \<noteq> ?h" for x
    using that t [OF that(1)] in_xs [of x] by (simp add: assms(6))
  have hd: "group_head c y = group_head b x \<longleftrightarrow> group_head b y = group_head b x"
    if "g_board b x = q" "group_head b x \<noteq> ?h" for x y
    using head_facts(4) [OF assms(1) st [OF that(1)]] that(2) in_xs [of y] by (auto simp: assms(6))
  have d: "x \<in> doomed c q A \<longleftrightarrow> x \<in> doomed b q A \<and> group_head b x \<noteq> ?h" for x
    unfolding doomed_def mem_Collect_eq kept using cnt [of x] hd [of x] by metis
  have m: "x \<in> grp b ?h \<longleftrightarrow> g_board b x = q \<and> group_head b x = ?h" for x
    using same_chain(2) [OF assms(1,2), of x] assms(3) st by (auto simp: grp_def)
  show "grp b ?h \<inter> doomed c q A = {}" using d m by auto
  show "doomed b q (insert a A) = grp b ?h \<union> doomed c q A"
  proof (rule set_eqI)
    fix x show "x \<in> doomed b q (insert a A) \<longleftrightarrow> x \<in> grp b ?h \<union> doomed c q A"
      unfolding Un_iff d m using assms(4) by (auto simp: doomed_def)
  qed
qed

lemma capture_all_ok:
  assumes "chains_ok b" "maximal b" "q = BLACK \<or> q = WHITE"
  shows "\<exists>c cap'. capture_all zob q as n cap b = Some (c, n + int (card (doomed b q (set as))), cap')
    \<and> chains_ok c \<and> maximal c \<and> same_game b c
    \<and> g_board c = (\<lambda>x. if x \<in> doomed b q (set as) then EMPTY else g_board b x)
    \<and> (doomed b q (set as) = {} \<and> cap' = cap \<or> cap' \<in> doomed b q (set as))"
  using assms
proof (induction as arbitrary: b n cap)
  case Nil
  have "doomed b q {} = {}" by (simp add: doomed_def)
  with Nil show ?case by (simp add: same_game_def)
next
  case (Cons a as)
  show ?case
  proof (cases "g_board b a = q \<and> group_liberty_count b (group_head b a) = 0")
    case False
    have d: "doomed b q (set (a # as)) = doomed b q (set as)"
      using doomed_skip [OF Cons.prems(1,3) False] by simp
    have e: "capture_all zob q (a # as) n cap b = capture_all zob q as n cap b" using False by auto
    show ?thesis unfolding d e by (rule Cons.IH [OF Cons.prems])
  next
    case True
    let ?h = "group_head b a" and ?n = "n + group_stone_count b (group_head b a)"
    have a: "is_stone b a" using True Cons.prems(3) by (simp add: is_stone_def)
    from remove_unsafe_ring [OF Cons.prems(1) a] obtain xs where xs: "set xs = grp b ?h"
      "remove_unsafe zob a b = Some (removed zob xs (get_opp (g_board b a)) ?h b)" by blast
    define c where "c = removed zob xs (get_opp q) ?h b"
    have r: "remove_unsafe zob a b = Some c" and c: "chains_ok c" "maximal c"
      using xs(2) removed_ok [OF Cons.prems(1,2) a refl xs(1)] True by (simp_all add: c_def)
    note ds = doomed_step [OF Cons.prems(1) a _ _ xs(1) c_def, of "set as"]
    have u: "doomed b q (set (a # as)) = grp b ?h \<union> doomed c q (set as)"
      and i: "grp b ?h \<inter> doomed c q (set as) = {}" using ds True by auto
    have g: "geometry b" "geometry c" using Cons.prems(1) c(1) by (auto simp: chains_ok_def)
    have n: "group_stone_count b ?h = int (card (grp b ?h))"
      using Cons.prems(1) a unfolding chains_ok_def chain_ok_def by blast
    have "card (doomed b q (set (a # as))) = card (grp b ?h) + card (doomed c q (set as))"
      unfolding u by (rule card_Un_disjoint [OF finite_grp [OF g(1)] finite_doomed [OF g(2) Cons.prems(3)] i])
    then have card: "?n + int (card (doomed c q (set as))) = n + int (card (doomed b q (set (a # as))))"
      using n by simp
    from Cons.IH [OF c Cons.prems(3), of ?n a] obtain e cap' where e:
      "capture_all zob q as ?n a c = Some (e, ?n + int (card (doomed c q (set as))), cap')"
      "chains_ok e" "maximal e" "same_game c e"
      "g_board e = (\<lambda>x. if x \<in> doomed c q (set as) then EMPTY else g_board c x)"
      "doomed c q (set as) = {} \<and> cap' = a \<or> cap' \<in> doomed c q (set as)" by blast
    have "capture_all zob q (a # as) n cap b = capture_all zob q as ?n a c" using True r by simp
    moreover have "same_game b e" using e(4) by (simp add: same_game_def c_def)
    moreover have "g_board e = (\<lambda>x. if x \<in> doomed b q (set (a # as)) then EMPTY else g_board b x)"
      unfolding e(5) u using xs(1) by (auto simp: c_def fun_eq_iff)
    moreover have "cap' \<in> doomed b q (set (a # as))" unfolding u using e(6) head_facts(5) [OF Cons.prems(1) a] by blast
    ultimately show ?thesis using e(1-3) unfolding card by auto
  qed
qed

section \<open>The move\<close>

definition board_ok :: "goban \<Rightarrow> bool" where
  "board_ok b \<longleftrightarrow> chains_ok b \<and> maximal b \<and> low b \<and> (\<forall>x. is_stone b x \<longrightarrow> liberties (dy b) (g_board b) x \<noteq> {})"

lemma captured_beside:
  assumes "c l = EMPTY" "p \<noteq> EMPTY" "q \<noteq> p" "q \<noteq> EMPTY" "x \<in> captured d q (c(l := p))" "liberties d c x \<noteq> {}"
  shows "\<exists>a \<in> around d l. a \<in> string_of d (c(l := p)) x"
proof -
  have x: "c x = q" "x \<noteq> l" using assms(3,5) by (auto simp: captured_def split: if_splits)
  have s: "string_of d (c(l := p)) x = string_of d c x"
    by (rule string_cong) (use x assms(1,3,4) in auto)
  from assms(6) obtain e y where e: "c e = EMPTY" "y \<in> string_of d c x" "e \<in> around d y"
    by (auto simp: liberties_def)
  have "e = l"
  proof (rule ccontr)
    assume "e \<noteq> l"
    with e s have "e \<in> liberties d (c(l := p)) x" by (auto simp: liberties_def)
    with assms(5) show False by (auto simp: captured_def)
  qed
  then show ?thesis using e(2,3) s around_sym by metis
qed

lemma doomed_captured:
  assumes "chains_ok b" "maximal b" "g_board b = c(l := p)" "dy b = d" "c l = EMPTY" "p = BLACK \<or> p = WHITE"
    "\<And>x. c x = get_opp p \<Longrightarrow> liberties d c x \<noteq> {}"
  shows "doomed b (get_opp p) (around d l) = captured d (get_opp p) (c(l := p))"
proof -
  let ?q = "get_opp p"
  have q: "?q \<noteq> p" "?q \<noteq> EMPTY" "p \<noteq> EMPTY" "?q = BLACK \<or> ?q = WHITE" using assms(6) by (auto simp: get_opp_def colors)
  have st: "is_stone b x" if "g_board b x = ?q" for x using that q(4) by (auto simp: is_stone_def)
  have cnt: "group_liberty_count b (group_head b x) = 0 \<longleftrightarrow> liberties d (c(l := p)) x = {}" if "g_board b x = ?q" for x
    using chain_liberties [OF assms(1,2) st [OF that]] unfolding assms(3,4) by auto
  have "\<exists>a \<in> around d l. group_head b a = group_head b x" if x: "x \<in> captured d ?q (c(l := p))" for x
  proof -
    have gx: "g_board b x = ?q" using x by (simp add: captured_def assms(3))
    have "c x = ?q" using x q(1) by (auto simp: captured_def split: if_splits)
    from captured_beside [OF assms(5) q(3,1,2) x assms(7) [OF this]]
    obtain a where "a \<in> around d l" "a \<in> string_of d (c(l := p)) x" by blast
    moreover have "string_of d (c(l := p)) x = grp b (group_head b x)"
      using chain_string [OF assms(1,2) st [OF gx]] unfolding assms(3,4) by simp
    ultimately show ?thesis by (auto simp: grp_def)
  qed
  then show ?thesis using cnt by (auto simp: doomed_def captured_def assms(3))
qed

lemma move_stages:
  assumes "board_ok b" "g_board b l = EMPTY" "p = BLACK \<or> p = WHITE"
    "D = captured (dy b) (get_opp p) ((g_board b)(l := p))"
  obtains b2 b3 cap where "merge_all p l (nbrs (placed zob p l b) l) (placed zob p l b) = Some b2"
    "capture_all zob (get_opp p) (nbrs b2 l) 0 0 b2 = Some (b3, int (card D), cap)"
    "chains_ok b3" "maximal b3" "same_game b b3" "g_board b3 = clear (dy b) (get_opp p) ((g_board b)(l := p))"
    "D = {} \<or> cap \<in> D" "finite D"
proof -
  let ?b1 = "placed zob p l b" and ?q = "get_opp p" and ?c = "(g_board b)(l := p)"
  have ok: "chains_ok b" "maximal b" using assms(1) by (auto simp: board_ok_def)
  have q: "?q = BLACK \<or> ?q = WHITE" using assms(3) by (auto simp: get_opp_def colors)
  note st = placed_stones(1) [OF assms(2,3), of zob]
  have sep: "separated ?b1 l (around (dy b) l)" unfolding separated_def
  proof (intro allI impI)
    fix x y assume x: "is_stone ?b1 x" "y \<in> around (dy ?b1) x" "g_board ?b1 y = g_board ?b1 x"
    show "group_head ?b1 y = group_head ?b1 x \<or> x = l \<and> y \<in> around (dy b) l \<or> y = l \<and> x \<in> around (dy b) l"
    proof (cases "x = l \<or> y = l")
      case True
      with x(2) show ?thesis using around_sym by auto
    next
      case False
      with x st ok(2) show ?thesis by (simp add: maximal_def)
    qed
  qed
  have "\<exists>c. merge_all p l (nbrs ?b1 l) ?b1 = Some c \<and> chains_ok c \<and> same_position ?b1 c \<and> maximal c"
    by (rule merge_all_ok [OF placed_ok [OF ok(1) assms(2,3)]]) (use st sep in simp_all)
  then obtain b2 where b2: "merge_all p l (nbrs ?b1 l) ?b1 = Some b2" "chains_ok b2" "same_position ?b1 b2" "maximal b2" by blast
  have f: "dy b2 = dy b" "g_board b2 = ?c" using same_position_facts [OF b2(3)] by simp_all
  have al: "liberties (dy b) (g_board b) x \<noteq> {}" if "g_board b x = ?q" for x
    using assms(1) that q unfolding board_ok_def is_stone_def by metis
  have D: "doomed b2 ?q (set (nbrs b2 l)) = D"
    using doomed_captured [OF b2(2,4) f(2,1) assms(2,3) al] f(1) assms(4) by simp
  from capture_all_ok [OF b2(2,4) q, of zob "nbrs b2 l" 0 0]
  obtain b3 cap where b3: "capture_all zob ?q (nbrs b2 l) 0 0 b2 = Some (b3, int (card D), cap)"
    "chains_ok b3" "maximal b3" "same_game b2 b3" "g_board b3 = (\<lambda>x. if x \<in> D then EMPTY else g_board b2 x)"
    "D = {} \<or> cap \<in> D" unfolding D by auto
  have "finite D" using finite_doomed [of b2 ?q] b2(2) q D unfolding chains_ok_def by blast
  moreover have "g_board b3 = clear (dy b) ?q ?c" unfolding clear_captured b3(5) f(2) assms(4) by simp
  moreover have "same_game b b3" using b2(3) b3(4) by (simp add: same_game_def same_position_def)
  ultimately show ?thesis using that [OF b2(1) b3(1-3)] b3(6) by blast
qed

lemma book_fields [simp]:
  "chains_ok (b\<lparr>num_captures_made := f\<rparr>) = chains_ok b" "chains_ok (b\<lparr>num_non_pass_moves_made := f\<rparr>) = chains_ok b"
  "chains_ok (b\<lparr>simple_ko_point := k\<rparr>) = chains_ok b" "chains_ok (b\<lparr>g_pla := q\<rparr>) = chains_ok b"
  "maximal (b\<lparr>num_captures_made := f\<rparr>) = maximal b" "maximal (b\<lparr>num_non_pass_moves_made := f\<rparr>) = maximal b"
  "maximal (b\<lparr>simple_ko_point := k\<rparr>) = maximal b" "maximal (b\<lparr>g_pla := q\<rparr>) = maximal b"
  "dy (b\<lparr>num_captures_made := f\<rparr>) = dy b" "dy (b\<lparr>num_non_pass_moves_made := f\<rparr>) = dy b"
  "dy (b\<lparr>simple_ko_point := k\<rparr>) = dy b" "dy (b\<lparr>g_pla := q\<rparr>) = dy b"
  by (simp_all add: chains_ok_def chain_ok_def maximal_def grp_def lib_set_def is_stone_def geometry_def dy_def)

text \<open>The ko point of the rules: the single prisoner, when a single stone with one liberty took it.\<close>

definition rule_ko :: "int \<Rightarrow> player \<Rightarrow> loc \<Rightarrow> (loc \<Rightarrow> player) \<Rightarrow> loc option" where
  "rule_ko d p l c = (let D = captured d (get_opp p) (c(l := p)); e = rule_move d p l c in
     if card D = 1 \<and> string_of d e l = {l} \<and> card (liberties d e l) = 1 then Some (the_elem D) else None)"

lemma suicide_stage:
  assumes "chains_ok b" "maximal b" "is_stone b l"
  shows "\<exists>c. (if group_liberty_count b (group_head b l) = 0
      then do { c \<leftarrow> remove_unsafe zob l b; Some (c, group_stone_count b (group_head b l)) } else Some (b, 0)) =
      Some (c, int (card (if liberties (dy b) (g_board b) l = {} then string_of (dy b) (g_board b) l else {})))
    \<and> chains_ok c \<and> maximal c \<and> same_game b c \<and> (liberties (dy b) (g_board b) l \<noteq> {} \<longrightarrow> c = b)
    \<and> g_board c = (\<lambda>x. if x \<in> (if liberties (dy b) (g_board b) l = {} then string_of (dy b) (g_board b) l else {})
        then EMPTY else g_board b x)"
proof (cases "liberties (dy b) (g_board b) l = {}")
  case False
  with chain_liberties [OF assms] have "group_liberty_count b (group_head b l) \<noteq> 0" by simp
  with False assms show ?thesis by (simp add: same_game_def)
next
  case True
  with chain_liberties [OF assms] have z: "group_liberty_count b (group_head b l) = 0" by simp
  from remove_unsafe_ring [OF assms(1,3)] obtain xs where xs: "set xs = grp b (group_head b l)"
    "remove_unsafe zob l b = Some (removed zob xs (get_opp (g_board b l)) (group_head b l) b)" by blast
  have n: "group_stone_count b (group_head b l) = int (card (grp b (group_head b l)))"
    using assms(1,3) unfolding chains_ok_def chain_ok_def by blast
  note s = chain_string [OF assms]
  show ?thesis using True z xs(2) n removed_ok [OF assms refl xs(1)] xs(1)
    unfolding s by (simp add: same_game_def)
qed

lemma single_stone:
  assumes "chains_ok b" "maximal b" "is_stone b l"
  shows "group_stone_count b (group_head b l) = 1 \<longleftrightarrow> string_of (dy b) (g_board b) l = {l}"
proof -
  have n: "group_stone_count b (group_head b l) = int (card (string_of (dy b) (g_board b) l))"
    using assms(1,3) unfolding chain_string [OF assms, symmetric] chains_ok_def chain_ok_def by blast
  have "string_of (dy b) (g_board b) l = {l}" if one: "card (string_of (dy b) (g_board b) l) = 1"
  proof -
    obtain x where x: "string_of (dy b) (g_board b) l = {x}" using one by (rule card_1_singletonE)
    have "l \<in> string_of (dy b) (g_board b) l" by (rule string_self)
    then show ?thesis unfolding x by simp
  qed
  then have "card (string_of (dy b) (g_board b) l) = 1 \<longleftrightarrow> string_of (dy b) (g_board b) l = {l}" by fastforce
  then show ?thesis unfolding n by simp
qed

lemma capture_gives_liberty:
  assumes "c l = EMPTY" "p \<noteq> EMPTY" "q \<noteq> p" "q \<noteq> EMPTY" "x \<in> captured d q (c(l := p))" "liberties d c x \<noteq> {}"
  shows "liberties d (clear d q (c(l := p))) l \<noteq> {}"
proof -
  from captured_beside [OF assms] obtain a where a: "a \<in> around d l" "a \<in> string_of d (c(l := p)) x" by blast
  have "a \<in> captured d q (c(l := p))"
    using assms(5) string_color [OF a(2)] liberties_eq [OF a(2)] by (simp add: captured_def)
  then have "clear d q (c(l := p)) a = EMPTY" by (simp add: clear_captured)
  with a(1) show ?thesis by (auto simp: liberties_def intro: bexI [OF _ string_self])
qed

lemma add_unsafe_low:
  assumes "board_ok b" "g_board b l = EMPTY" "p = BLACK \<or> p = WHITE" "add_unsafe zob p l b = Some c"
  shows "low c"
proof -
  let ?b1 = "placed zob p l b"
  have ok: "chains_ok b" "low b" using assms(1) by (simp_all add: board_ok_def)
  have "0 < l" using ok(1) assms(2) by (auto simp: chains_ok_def geometry_def colors)
  then have q1: "settled ?b1" unfolding placed_def
    by (intro settled_bump settled_put) (use ok(2) chains_headed [OF ok(1)] in \<open>auto simp: settled_def\<close>)
  have st1: "is_stone ?b1 l" using assms(3) by (simp add: is_stone_def)
  obtain b2 b3 cap D where s: "merge_all p l (nbrs ?b1 l) ?b1 = Some b2"
    "capture_all zob (get_opp p) (nbrs b2 l) 0 0 b2 = Some (b3, D, cap)"
    "g_board b3 = clear (dy b) (get_opp p) ((g_board b)(l := p))"
    by (rule move_stages [OF assms(1-3) refl, of zob])
  have q2: "settled b2" by (rule merge_all_settled [OF s(1) q1 st1 assms(3)])
  have q3: "settled b3" by (rule capture_all_settled [OF s(2) q2 opp_facts(4) [OF assms(3)]])
  have st3: "is_stone b3 l" using s(3) opp_facts [OF assms(3)] assms(3) by (auto simp: is_stone_def clear_def)
  have "settled c"
  proof (cases "group_liberty_count b3 (group_head b3 l) = 0")
    case True
    with assms(4) s(1,2) obtain b4 where "remove_unsafe zob l b3 = Some b4" "settled c = settled b4"
      by (auto simp: add_unsafe_def placed_def Let_def bind_eq_Some_conv)
    then show ?thesis using remove_settled [OF _ q3 st3] by simp
  next
    case False
    with assms(4) s(1,2) have "settled c = settled b3" by (auto simp: add_unsafe_def placed_def Let_def)
    then show ?thesis using q3 by simp
  qed
  then show ?thesis by (rule settled_low)
qed

lemma add_unsafe_ok:
  assumes "board_ok b" "g_board b l = EMPTY" "p = BLACK \<or> p = WHITE"
  obtains c where "add_unsafe zob p l b = Some c" "board_ok c" "g_board c = rule_move (dy b) p l (g_board b)"
    "g_x_size c = g_x_size b" "g_y_size c = g_y_size b" "g_pla c = g_pla b"
    "simple_ko_point c = rule_ko (dy b) p l (g_board b)"
    "num_captures_made c = (num_captures_made b)
       (p := num_captures_made b p + int (card (captured (dy b) p (clear (dy b) (get_opp p) ((g_board b)(l := p))))),
        get_opp p := num_captures_made b (get_opp p) + int (card (captured (dy b) (get_opp p) ((g_board b)(l := p)))))"
    "num_non_pass_moves_made c = (num_non_pass_moves_made b)(p := num_non_pass_moves_made b p + 1)"
proof -
  let ?d = "dy b" and ?q = "get_opp p" and ?c = "(g_board b)(l := p)"
  define D e where De: "D = captured ?d ?q ?c" "e = clear ?d ?q ?c"
  define S where S: "S = captured ?d p e"
  have q: "?q \<noteq> p" "?q \<noteq> EMPTY" "p \<noteq> EMPTY" "?q = BLACK \<or> ?q = WHITE" using assms(3) by (auto simp: get_opp_def colors)
  obtain b2 b3 cap where b3: "merge_all p l (nbrs (placed zob p l b) l) (placed zob p l b) = Some b2"
    "capture_all zob ?q (nbrs b2 l) 0 0 b2 = Some (b3, int (card D), cap)"
    "chains_ok b3" "maximal b3" "same_game b b3" "g_board b3 = e" "D = {} \<or> cap \<in> D" "finite D"
    using move_stages [OF assms De(1), of zob] unfolding De(2) by metis
  have dy3: "dy b3 = ?d" using b3(5) by (simp add: same_game_def dy_def)
  have el: "e l = p" using q by (simp add: De(2) clear_def)
  have st: "is_stone b3 l" using assms(3) el b3(6) by (simp add: is_stone_def)
  have al: "liberties ?d (g_board b) x \<noteq> {}" if "g_board b x = p" for x
    using assms(1,3) that unfolding board_ok_def is_stone_def by metis
  have S': "S = (if liberties ?d e l = {} then string_of ?d e l else {})"
    unfolding S by (rule own_captured [OF al q(3,1) De(2)])
  from suicide_stage [OF b3(3,4) st, of zob] obtain b4 where b4:
    "(if group_liberty_count b3 (group_head b3 l) = 0
      then do { c \<leftarrow> remove_unsafe zob l b3; Some (c, group_stone_count b3 (group_head b3 l)) } else Some (b3, 0)) =
      Some (b4, int (card S))" "chains_ok b4" "maximal b4" "same_game b3 b4" "liberties ?d e l \<noteq> {} \<longrightarrow> b4 = b3"
    "g_board b4 = (\<lambda>x. if x \<in> S then EMPTY else e x)"
    unfolding dy3 b3(6) S' by blast
  have g4: "g_board b4 = rule_move ?d p l (g_board b)"
    unfolding b4(6) rule_move_def De(2) [symmetric] S clear_captured [of ?d p e] ..
  have sg: "same_game b b4" "dy b4 = ?d" using b3(5) b4(4) by (auto simp: same_game_def dy_def)
  define c where "c = (let caps = (num_captures_made b4)(p := num_captures_made b4 p + int (card S));
    b5 = b4\<lparr>num_captures_made := caps(?q := caps ?q + int (card D)),
      num_non_pass_moves_made := (num_non_pass_moves_made b4)(p := num_non_pass_moves_made b4 p + 1)\<rparr>
    in b5\<lparr>simple_ko_point := (if int (card D) = 1 \<and> group_stone_count b5 (group_head b5 l) = 1
      \<and> group_liberty_count b5 (group_head b5 l) = 1 then Some cap else None)\<rparr>)"
  have run: "add_unsafe zob p l b = Some c"
    unfolding add_unsafe_def Let_def placed_def [symmetric]
    using b3(1,2) b4(1) by (simp add: c_def Let_def)
  moreover have "dy c = ?d" "g_board c = g_board b4" using sg(2) by (simp_all add: c_def Let_def dy_def)
  moreover have "board_ok c"
  proof -
    have "liberties ?d (g_board b4) x \<noteq> {}" if "g_board b4 x = BLACK \<or> g_board b4 x = WHITE" for x
      unfolding g4 by (rule rule_move_alive) (use that assms(3) in \<open>auto simp: g4 get_opp_def colors\<close>)
    then show ?thesis unfolding board_ok_def \<open>dy c = ?d\<close> \<open>g_board c = g_board b4\<close> is_stone_def
      using b4(2,3) add_unsafe_low [OF assms run] by (simp add: c_def Let_def)
  qed
  moreover have "simple_ko_point c = rule_ko ?d p l (g_board b)"
  proof (cases "card D = 1")
    case False
    then show ?thesis by (simp add: c_def Let_def rule_ko_def De)
  next
    case True
    then obtain z where z: "D = {z}" by (rule card_1_singletonE)
    have zD: "z \<in> captured ?d ?q ?c" using z De(1) by simp
    have "g_board b z = ?q" using zD q(1) by (auto simp: captured_def split: if_splits)
    then have "liberties ?d (g_board b) z \<noteq> {}" using assms(1) q(4) unfolding board_ok_def is_stone_def by metis
    from capture_gives_liberty [OF assms(2) q(3,1,2) zD this] have "b4 = b3" using b4(5) De(2) by simp
    with single_stone [OF b4(2,3)] chain_liberties(1) [OF b4(2,3)] st z b3(7) True
    show ?thesis unfolding rule_ko_def De(1) [symmetric] g4 [symmetric] Let_def
      by (simp add: c_def Let_def dy3)
  qed
  moreover have "g_x_size c = g_x_size b" "g_y_size c = g_y_size b" "g_pla c = g_pla b"
    "num_captures_made c = (num_captures_made b)
       (p := num_captures_made b p + int (card S), ?q := num_captures_made b ?q + int (card D))"
    "num_non_pass_moves_made c = (num_non_pass_moves_made b)(p := num_non_pass_moves_made b p + 1)"
    using sg(1) q(1) by (simp_all add: c_def Let_def same_game_def)
  ultimately show ?thesis using g4 that [of c] unfolding De S by metis
qed

end
