(* ===== verification/Board_Edit.thy ===== *)
theory Board_Edit
  imports Board_Move
begin

text \<open>
  Editing a position: taking a single stone off, which the code does by removing the whole chain and
  adding the other stones back one by one. No stone is captured on the way, so exactly the one stone
  goes; but every stone added back counts as a move.
\<close>

section \<open>A string with some of its stones taken off\<close>

definition all_alive :: "int \<Rightarrow> (loc \<Rightarrow> player) \<Rightarrow> bool" where
  "all_alive d c \<longleftrightarrow> (\<forall>x. c x = BLACK \<or> c x = WHITE \<longrightarrow> liberties d c x \<noteq> {})"

definition thinned :: "loc set \<Rightarrow> loc set \<Rightarrow> (loc \<Rightarrow> player) \<Rightarrow> loc \<Rightarrow> player" where
  "thinned K P c = (\<lambda>x. if x \<in> K - P then EMPTY else c x)"

lemma liberties_mono:
  assumes "\<And>y. y \<in> string_of d c x \<Longrightarrow> e y = e x" "\<And>y. c y = EMPTY \<Longrightarrow> e y = EMPTY"
  shows "liberties d c x \<subseteq> liberties d e x"
  using string_mono [of d c x e, OF assms(1)] assms(2) by (auto simp: liberties_def)

lemma partial_string_liberty:
  assumes "K = string_of d c r" "r \<notin> P" "x \<in> K" "x \<in> P" "c r \<noteq> EMPTY"
  shows "liberties d (thinned K P c) x \<noteq> {}"
proof
  let ?e = "thinned K P c"
  assume none: "liberties d ?e x = {}"
  have K: "K = string_of d c x" using assms(1,3) string_eq by metis
  have ex: "?e x = c x" using assms(4) by (simp add: thinned_def)
  have "r \<in> string_of d c x" using assms(1,3) string_sym by metis
  then have "r \<in> string_of d ?e x"
  proof (induction rule: string_induct)
    case (step y z)
    have zK: "z \<in> string_of d c x" using string_step step.hyps by metis
    have ey: "?e y = c x" using string_color [OF step.IH] ex by simp
    have "?e z \<noteq> EMPTY" using none step.IH step.hyps(2) by (auto simp: liberties_def)
    then have "?e z = c x" using zK string_color [OF zK] by (auto simp: thinned_def split: if_splits)
    with step.IH step.hyps(2) ey show ?case by (metis string_step)
  qed simp
  from string_color [OF this] ex have "?e r = c x" by simp
  moreover have "?e r = EMPTY" using assms(1,2) by (simp add: thinned_def)
  moreover have "c x = c r" using assms(1,3) string_color by metis
  ultimately show False using assms(5) by simp
qed

lemma thinned_alive:
  assumes "all_alive d c" "K = string_of d c r" "r \<notin> P" "c r \<noteq> EMPTY"
  shows "all_alive d (thinned K P c)"
  unfolding all_alive_def
proof (intro allI impI)
  let ?e = "thinned K P c"
  fix x assume x: "?e x = BLACK \<or> ?e x = WHITE"
  then have cx: "?e x = c x" "x \<notin> K - P" by (auto simp: thinned_def colors split: if_splits)
  show "liberties d ?e x \<noteq> {}"
  proof (cases "x \<in> K")
    case True
    then show ?thesis using partial_string_liberty [OF assms(2,3) True _ assms(4)] cx(2) by simp
  next
    case False
    have "y \<notin> K" if "y \<in> string_of d c x" for y
      using that False string_eq string_sym assms(2) string_self by metis
    then have "liberties d c x \<subseteq> liberties d ?e x"
      by (intro liberties_mono) (use cx string_color in \<open>auto simp: thinned_def\<close>)
    moreover have "liberties d c x \<noteq> {}" using assms(1) x cx(1) unfolding all_alive_def by metis
    ultimately show ?thesis by blast
  qed
qed

lemma clear_none: "captured d q c = {} \<Longrightarrow> clear d q c = c"
  by (simp add: clear_captured)

lemma quiet_move:
  assumes "all_alive d (c(l := p))" "p = BLACK \<or> p = WHITE"
  shows "rule_move d p l c = c(l := p)" "captured d (get_opp p) (c(l := p)) = {}"
proof -
  have none: "captured d q (c(l := p)) = {}" if "q = BLACK \<or> q = WHITE" for q
    using that assms(1) by (auto simp: captured_def all_alive_def)
  have q: "get_opp p = BLACK \<or> get_opp p = WHITE" using assms(2) by (auto simp: get_opp_def colors)
  show "captured d (get_opp p) (c(l := p)) = {}" using none [OF q] .
  show "rule_move d p l c = c(l := p)"
    unfolding rule_move_def clear_none [OF none [OF q]] by (rule clear_none [OF none [OF assms(2)]])
qed

section \<open>Adding the stones back\<close>

lemma board_ok_alive: "board_ok b \<Longrightarrow> all_alive (dy b) (g_board b)"
  by (simp add: board_ok_def all_alive_def is_stone_def)

text \<open>The board \<open>e\<close> has the position \<open>c\<close>, no new prisoners and \<open>n\<close> more moves of \<open>p\<close> than \<open>b\<close>.\<close>

definition edited :: "player \<Rightarrow> (loc \<Rightarrow> player) \<Rightarrow> nat \<Rightarrow> goban \<Rightarrow> goban \<Rightarrow> bool" where
  "edited p c n b e \<longleftrightarrow> board_ok e \<and> g_board e = c \<and> g_x_size e = g_x_size b \<and> g_y_size e = g_y_size b
     \<and> g_pla e = g_pla b \<and> num_captures_made e = num_captures_made b
     \<and> (\<forall>q. num_non_pass_moves_made e q = num_non_pass_moves_made b q + (if q = p then int n else 0))"

lemma edited_trans: "edited p c n b e \<Longrightarrow> edited p c' m e f \<Longrightarrow> edited p c' (n + m) b f"
  by (auto simp: edited_def)

lemma add_quiet:
  assumes "board_ok b" "g_board b l = EMPTY" "p = BLACK \<or> p = WHITE" "all_alive (dy b) ((g_board b)(l := p))"
  shows "\<exists>e. add_unsafe zob p l b = Some e \<and> edited p ((g_board b)(l := p)) 1 b e"
proof -
  note q = quiet_move [OF assms(4,3)]
  have none: "captured (dy b) p ((g_board b)(l := p)) = {}"
    using assms(3,4) by (auto simp: captured_def all_alive_def)
  obtain f where f: "add_unsafe zob p l b = Some f" "board_ok f" "g_board f = rule_move (dy b) p l (g_board b)"
    "g_x_size f = g_x_size b" "g_y_size f = g_y_size b" "g_pla f = g_pla b"
    "num_captures_made f = (num_captures_made b)
       (p := num_captures_made b p + int (card (captured (dy b) p (clear (dy b) (get_opp p) ((g_board b)(l := p))))),
        get_opp p := num_captures_made b (get_opp p) + int (card (captured (dy b) (get_opp p) ((g_board b)(l := p)))))"
    "num_non_pass_moves_made f = (num_non_pass_moves_made b)(p := num_non_pass_moves_made b p + 1)"
    by (rule add_unsafe_ok [OF assms(1-3)])
  have "num_captures_made f = num_captures_made b" unfolding f(7) clear_none [OF q(2)] none q(2) by simp
  with f show ?thesis unfolding q(1) by (auto simp: edited_def)
qed

lemma add_back_ok:
  assumes "board_ok b" "g_board b = thinned K P c" "all_alive d c" "K = string_of d c r" "c r = p" "dy b = d"
    "p = BLACK \<or> p = WHITE" "r \<notin> P" "distinct ls" "set ls \<subseteq> K" "set ls \<inter> P = {}"
  shows "\<exists>e. add_back zob p r ls b = Some e \<and> edited p (thinned K (P \<union> (set ls - {r})) c) (card (set ls - {r})) b e"
  using assms
proof (induction ls arbitrary: b P)
  case Nil
  then show ?case by (simp add: edited_def)
next
  case (Cons l ls)
  show ?case
  proof (cases "l = r")
    case True
    have t: "set (l # ls) - {r} = set ls - {r}" using True by auto
    have "\<exists>e. add_back zob p r ls b = Some e \<and> edited p (thinned K (P \<union> (set ls - {r})) c) (card (set ls - {r})) b e"
      by (rule Cons.IH) (use Cons.prems in auto)
    then show ?thesis unfolding t using True by simp
  next
    case False
    have l: "l \<in> K" "l \<notin> P" using Cons.prems(10,11) by auto
    have "c l = p" using l(1) Cons.prems(4,5) string_color by metis
    then have u: "(g_board b)(l := p) = thinned K (insert l P) c"
      using l Cons.prems(2) by (auto simp: thinned_def fun_eq_iff)
    have "all_alive (dy b) ((g_board b)(l := p))"
      unfolding u Cons.prems(6)
      by (rule thinned_alive [OF Cons.prems(3,4)]) (use Cons.prems(5,7,8) False in \<open>auto simp: colors\<close>)
    then have "\<exists>f. add_unsafe zob p l b = Some f \<and> edited p ((g_board b)(l := p)) 1 b f"
      by (intro add_quiet) (use Cons.prems l in \<open>auto simp: thinned_def\<close>)
    then obtain f where f: "add_unsafe zob p l b = Some f" "edited p (thinned K (insert l P) c) 1 b f" unfolding u by blast
    have f': "board_ok f" "g_board f = thinned K (insert l P) c" "dy f = d"
      using f(2) Cons.prems(6) by (auto simp: edited_def dy_def)
    have "\<exists>e. add_back zob p r ls f = Some e
        \<and> edited p (thinned K (insert l P \<union> (set ls - {r})) c) (card (set ls - {r})) f e"
      by (rule Cons.IH [OF f'(1,2) Cons.prems(3-5) f'(3) Cons.prems(7)]) (use Cons.prems False l in auto)
    then obtain e where e: "add_back zob p r ls f = Some e"
      "edited p (thinned K (insert l P \<union> (set ls - {r})) c) (card (set ls - {r})) f e" by blast
    have "insert l P \<union> (set ls - {r}) = P \<union> (set (l # ls) - {r})" using False by auto
    moreover have "card (set (l # ls) - {r}) = 1 + card (set ls - {r})"
      using False Cons.prems(9) by (simp add: insert_Diff_if)
    ultimately show ?thesis using edited_trans [OF f(2) e(2)] False f(1) e(1) by auto
  qed
qed

section \<open>Taking one stone off\<close>

lemma chain_walk_path:
  assumes "path (group_next b) (group_next b l) ys start" "start \<notin> set ys"
  shows "chain_walk b start l = Some (l # ys)"
  using assms
proof (induction ys arbitrary: l)
  case Nil
  then show ?case by (subst chain_walk.simps) simp
next
  case (Cons y ys)
  then show ?case by (subst chain_walk.simps) auto
qed

lemma remove_single_stone_ok:
  assumes "board_ok b" "is_stone b r"
  shows "\<exists>e. remove_single_stone_unsafe zob r b = Some e
    \<and> edited (g_board b r) ((g_board b)(r := EMPTY)) (card (string_of (dy b) (g_board b) r - {r})) b e"
proof -
  let ?c = "g_board b" and ?d = "dy b" and ?p = "g_board b r"
  let ?K = "string_of ?d ?c r"
  have ok: "chains_ok b" "maximal b" using assms(1) by (auto simp: board_ok_def)
  have p: "?p = BLACK \<or> ?p = WHITE" using assms(2) by (simp add: is_stone_def)
  note K = chain_string [OF ok assms(2)]
  have "chain_ok b (group_head b r)" using ok(1) assms(2) by (auto simp: chains_ok_def)
  then obtain xs where xs: "ring (group_next b) xs" "set xs = ?K" unfolding chain_ok_def K by blast
  have "r \<in> set xs" using xs(2) by simp
  from ring_from [OF xs(1) this] obtain ys where ys: "ring (group_next b) (r # ys)" "set (r # ys) = set xs" .
  have w: "chain_walk b r r = Some (r # ys)" by (rule chain_walk_path) (use ys(1) in \<open>auto simp: ring_Cons\<close>)
  from remove_unsafe_ring [OF ok(1) assms(2)] obtain zs where zs: "set zs = grp b (group_head b r)"
    "remove_unsafe zob r b = Some (removed zob zs (get_opp ?p) (group_head b r) b)" by blast
  define f where "f = removed zob zs (get_opp ?p) (group_head b r) b"
  have gf: "g_board f = thinned ?K {} ?c" using zs(1) K by (auto simp: f_def thinned_def)
  have df: "dy f = ?d" by (simp add: f_def)
  have al: "all_alive ?d (g_board f)"
    unfolding gf by (rule thinned_alive [OF board_ok_alive [OF assms(1)] refl]) (use p in \<open>auto simp: colors\<close>)
  have "settled b" using assms(1) chains_headed [OF ok(1)] by (simp add: settled_def board_ok_def)
  from settled_low [OF remove_settled [OF zs(2) this assms(2)]] have "low f" by (simp add: f_def)
  then have bf: "board_ok f"
    using removed_ok [OF ok assms(2) refl zs(1), of zob] al df
    unfolding f_def [symmetric] board_ok_def all_alive_def is_stone_def by simp
  have ls: "distinct (r # ys)" "set (r # ys) = ?K" using ys xs(2) by (auto simp: ring_def)
  have "\<exists>e. add_back zob ?p r (r # ys) f = Some e
      \<and> edited ?p (thinned ?K ({} \<union> (set (r # ys) - {r})) ?c) (card (set (r # ys) - {r})) f e"
    by (rule add_back_ok [OF bf gf board_ok_alive [OF assms(1)] refl refl df p _ ls(1)]) (use ls(2) in auto)
  then obtain e where e: "add_back zob ?p r (r # ys) f = Some e"
    "edited ?p (thinned ?K (?K - {r}) ?c) (card (?K - {r})) f e" unfolding ls(2) by auto
  have "thinned ?K (?K - {r}) ?c = ?c(r := EMPTY)" by (auto simp: thinned_def fun_eq_iff)
  then have "edited ?p (?c(r := EMPTY)) (card (?K - {r})) b e" using e(2) by (simp add: edited_def f_def)
  moreover have "remove_single_stone_unsafe zob r b = Some e"
    using w zs(2) e(1) by (simp add: remove_single_stone_unsafe_def f_def)
  ultimately show ?thesis by blast
qed

end
