(* ===== verification/Board_Machine.thy ===== *)
theory Board_Machine
  imports Board_Edit
begin

text \<open>
  The board as a machine: from the empty board, every sequence of calls of \<open>play\<close>, \<open>set_stone\<close> and
  \<open>set_pla\<close> that raises nothing keeps the invariant, and every single call ends.
\<close>

section \<open>The empty board\<close>

lemma fold_two_updates:
  "fold (\<lambda>i f. f(u i := w, v i := w)) is f l = (if \<exists>i \<in> set is. l = u i \<or> l = v i then w else f l)"
  by (induction "is" arbitrary: f) auto

lemma init_walls_iff:
  "init_walls xs ys l = (if l < 0 \<or> (xs + 1) * (ys + 2) + 1 \<le> l
     \<or> (\<exists>i \<in> {- 1..xs}. l = loc_static i (- 1) xs \<or> l = loc_static i ys xs)
     \<or> (\<exists>i \<in> {- 1..ys}. l = loc_static (- 1) i xs \<or> l = loc_static xs i xs) then WALL else EMPTY)"
  by (simp add: init_walls_def fold_two_updates not_le del: upto.simps)

lemma inside_walls:
  assumes "init_walls xs ys l \<noteq> WALL" "2 \<le> xs" "2 \<le> ys"
  shows "xs + 1 < l" "l < (xs + 1) * (ys + 1)"
proof -
  have out: "0 \<le> l" "l < (xs + 1) * (ys + 2) + 1"
    "\<And>i. - 1 \<le> i \<Longrightarrow> i \<le> xs \<Longrightarrow> l \<noteq> loc_static i (- 1) xs \<and> l \<noteq> loc_static i ys xs"
    using assms(1) unfolding init_walls_iff by (auto split: if_splits)
  have "l \<noteq> i" if "0 \<le> i" "i \<le> xs + 1" for i using out(3) [of "i - 1"] that by (simp add: loc_static_def)
  from this [of l] out(1) show "xs + 1 < l" by linarith
  show "l < (xs + 1) * (ys + 1)"
  proof (rule ccontr)
    assume "\<not> l < (xs + 1) * (ys + 1)"
    then have "0 \<le> l - (xs + 1) * (ys + 1)" "l - (xs + 1) * (ys + 1) \<le> xs + 1" using out(2) by (auto simp: algebra_simps)
    from out(3) [of "l - (xs + 1) * (ys + 1) - 1"] this show False by (simp add: loc_static_def)
  qed
qed

text \<open>The code never reads outside its arrays.\<close>

lemma neighbours_in_array:
  assumes "init_walls (g_x_size b) (g_y_size b) l \<noteq> WALL" "2 \<le> g_x_size b" "2 \<le> g_y_size b" "a \<in> around (dy b) l"
  shows "0 \<le> a" "a < arrsize b"
  using inside_walls [OF assms(1-3)] assms(2-4) by (auto simp: around_def dy_def arrsize_def algebra_simps)

definition board_inv :: "goban \<Rightarrow> bool" where
  "board_inv b \<longleftrightarrow> board_ok b \<and> 2 \<le> g_x_size b \<and> g_x_size b \<le> 50 \<and> 2 \<le> g_y_size b \<and> g_y_size b \<le> 50
     \<and> (\<forall>l. g_board b l = WALL \<longleftrightarrow> init_walls (g_x_size b) (g_y_size b) l = WALL)"

lemma init_inv:
  assumes "board_init xs ys = Inr b"
  shows "board_inv b"
proof -
  have b: "g_board b = init_walls xs ys" "g_x_size b = xs" "g_y_size b = ys" "2 \<le> xs" "xs \<le> 50" "2 \<le> ys" "ys \<le> 50"
    "group_head b = (\<lambda>_. 0)(0 := - 1)" "low b"
    using assms by (auto simp: board_init_def low_def split: if_splits)
  have cells: "init_walls xs ys l = WALL \<or> init_walls xs ys l = EMPTY" for l by (simp add: init_walls_iff)
  have ns: "\<not> is_stone b l" for l using cells [of l] by (auto simp: is_stone_def b(1) colors)
  have "{l. init_walls xs ys l \<noteq> WALL} \<subseteq> {xs + 1 <..< (xs + 1) * (ys + 1)}"
    using inside_walls [OF _ b(4,6)] by auto
  then have "finite {l. init_walls xs ys l \<noteq> WALL}" by (rule finite_subset) simp
  moreover have "0 < l" if "init_walls xs ys l \<noteq> WALL" for l using inside_walls(1) [OF that b(4,6)] b(4) by simp
  ultimately have "geometry b" using cells b(4) by (auto simp: geometry_def b(1,2) dy_def)
  then have "chains_ok b" using ns by (simp add: chains_ok_def b(8))
  moreover have "maximal b" using ns by (simp add: maximal_def)
  ultimately have "board_ok b" using ns b(9) by (simp add: board_ok_def)
  then show ?thesis using b by (simp add: board_inv_def)
qed

section \<open>Operations\<close>

lemma rule_move_wall:
  assumes "c l \<noteq> WALL" "p = BLACK \<or> p = WHITE"
  shows "rule_move d p l c x = WALL \<longleftrightarrow> c x = WALL"
  using assms by (auto simp: rule_move_def clear_def get_opp_def colors)

lemma rule_move_forget: "rule_move d p l (c(l := q)) = rule_move d p l c"
  by (simp add: rule_move_def)

lemma play_error_iff: "play_error p l b \<longleftrightarrow> \<not> would_be_legal b p l"
  by (auto simp: play_error_def would_be_legal_def)

lemma board_inv_book [simp]:
  "board_inv (b\<lparr>g_pla := q\<rparr>) = board_inv b" "board_inv (b\<lparr>simple_ko_point := k\<rparr>) = board_inv b"
  by (simp_all add: board_inv_def board_ok_def is_stone_def)

lemma board_inv_move:
  assumes "board_inv b" "board_ok c" "g_x_size c = g_x_size b" "g_y_size c = g_y_size b"
    "\<And>x. g_board c x = WALL \<longleftrightarrow> g_board b x = WALL"
  shows "board_inv c"
  using assms by (simp add: board_inv_def)

text \<open>A legal move is played by the rules.\<close>

lemma play_legal:
  assumes "board_inv b" "would_be_legal b p l" "l \<noteq> PASS_LOC"
  obtains c where "play zob p l b = Some (Inr c)" "board_inv c" "g_board c = rule_move (dy b) p l (g_board b)"
    "g_pla c = get_opp p" "simple_ko_point c = rule_ko (dy b) p l (g_board b)"
    "num_captures_made c = (num_captures_made b)
       (p := num_captures_made b p + int (card (captured (dy b) p (clear (dy b) (get_opp p) ((g_board b)(l := p))))),
        get_opp p := num_captures_made b (get_opp p) + int (card (captured (dy b) (get_opp p) ((g_board b)(l := p)))))"
    "g_x_size c = g_x_size b"
proof -
  have l: "g_board b l = EMPTY" and p: "p = BLACK \<or> p = WHITE"
    using assms(2,3) by (auto simp: would_be_legal_def split: if_splits)
  have ok: "board_ok b" using assms(1) by (simp add: board_inv_def)
  obtain c where c: "add_unsafe zob p l b = Some c" "board_ok c" "g_board c = rule_move (dy b) p l (g_board b)"
    "g_x_size c = g_x_size b" "g_y_size c = g_y_size b" "g_pla c = g_pla b"
    "simple_ko_point c = rule_ko (dy b) p l (g_board b)"
    "num_captures_made c = (num_captures_made b)
       (p := num_captures_made b p + int (card (captured (dy b) p (clear (dy b) (get_opp p) ((g_board b)(l := p))))),
        get_opp p := num_captures_made b (get_opp p) + int (card (captured (dy b) (get_opp p) ((g_board b)(l := p)))))"
    by (rule add_unsafe_ok [OF ok l p])
  have w: "g_board c x = WALL \<longleftrightarrow> g_board b x = WALL" for x
    unfolding c(3) by (rule rule_move_wall) (use l p in \<open>auto simp: colors\<close>)
  have "play zob p l b = Some (Inr (c\<lparr>g_pla := get_opp p\<rparr>))"
    using assms(2,3) c(1) by (simp add: play_def play_error_iff playUnsafe_def)
  from that [OF this] board_inv_move [OF assms(1) c(2,4,5) w] c show ?thesis by simp
qed

lemma play_pass: "would_be_legal b p PASS_LOC \<Longrightarrow>
    play zob p PASS_LOC b = Some (Inr (b\<lparr>simple_ko_point := None, g_pla := get_opp p\<rparr>))"
  by (simp add: play_def play_error_iff playUnsafe_def)

lemma play_total:
  assumes "board_inv b"
  shows "\<not> would_be_legal b p l \<and> play zob p l b = Some (Inl IllegalMoveError)
    \<or> would_be_legal b p l \<and> (\<exists>c. play zob p l b = Some (Inr c) \<and> board_inv c)"
proof (cases "would_be_legal b p l")
  case False
  then show ?thesis by (simp add: play_def play_error_iff)
next
  case True
  show ?thesis
  proof (cases "l = PASS_LOC")
    case pass: True
    then show ?thesis using True assms play_pass by simp
  next
    case False
    obtain c where "play zob p l b = Some (Inr c)" "board_inv c" by (rule play_legal [OF assms True False])
    with True show ?thesis by blast
  qed
qed

definition edit_result :: "int \<Rightarrow> player \<Rightarrow> loc \<Rightarrow> (loc \<Rightarrow> player) \<Rightarrow> loc \<Rightarrow> player" where
  "edit_result d p l c = (if c l = p then c else if p = EMPTY then c(l := EMPTY) else rule_move d p l c)"

definition can_edit :: "goban \<Rightarrow> player \<Rightarrow> loc \<Rightarrow> bool" where
  "can_edit b p l \<longleftrightarrow> (p = EMPTY \<or> p = BLACK \<or> p = WHITE) \<and> is_on_board b l"

lemma set_stone_legal:
  assumes "board_inv b" "can_edit b p l"
  obtains c where "set_stone zob p l b = Some (Inr c)" "board_inv c"
    "g_board c = edit_result (dy b) p l (g_board b)" "simple_ko_point c = None" "g_pla c = g_pla b"
    "g_x_size c = g_x_size b"
proof -
  have ok: "board_ok b" using assms(1) by (simp add: board_inv_def)
  have p: "p = EMPTY \<or> p = BLACK \<or> p = WHITE" and nw: "g_board b l \<noteq> WALL" "is_on_board b l"
    using assms(2) by (auto simp: can_edit_def is_on_board_def)
  have cell: "g_board b l = EMPTY \<or> is_stone b l"
    using ok nw(1) by (auto simp: board_ok_def chains_ok_def geometry_def is_stone_def)
  note result = that
  have fin: ?thesis if c: "(if g_board b l = p then Some b
         else if g_board b l = EMPTY then add_unsafe zob p l b
         else if p = EMPTY then remove_single_stone_unsafe zob l b
         else do { b1 \<leftarrow> remove_single_stone_unsafe zob l b; add_unsafe zob p l b1 }) = Some c" "board_ok c"
      "g_board c = edit_result (dy b) p l (g_board b)" "g_x_size c = g_x_size b" "g_y_size c = g_y_size b"
      "g_pla c = g_pla b" for c
  proof -
    have "g_board c x = WALL \<longleftrightarrow> g_board b x = WALL" for x
      unfolding c(3) edit_result_def using rule_move_wall [of "g_board b" l p] nw(1) p by (auto simp: colors)
    from board_inv_move [OF assms(1) c(2,4,5) this] have "board_inv (c\<lparr>simple_ko_point := None\<rparr>)" by simp
    moreover have "set_stone zob p l b = Some (Inr (c\<lparr>simple_ko_point := None\<rparr>))"
      unfolding set_stone_def c(1) using p nw(2) by auto
    ultimately show ?thesis using result [of "c\<lparr>simple_ko_point := None\<rparr>"] c by simp
  qed
  consider (same) "g_board b l = p" | (add) "g_board b l \<noteq> p" "g_board b l = EMPTY" "p = BLACK \<or> p = WHITE"
    | (take) "g_board b l \<noteq> p" "is_stone b l" "p = EMPTY"
    | (swap) "g_board b l \<noteq> p" "is_stone b l" "p = BLACK \<or> p = WHITE" using cell p by metis
  then show ?thesis
  proof cases
    case same
    then show ?thesis using fin [of b] ok by (simp add: edit_result_def)
  next
    case add
    obtain c where "add_unsafe zob p l b = Some c" "board_ok c" "g_board c = rule_move (dy b) p l (g_board b)"
      "g_x_size c = g_x_size b" "g_y_size c = g_y_size b" "g_pla c = g_pla b" by (rule add_unsafe_ok [OF ok add(2,3)])
    then show ?thesis using fin [of c] add by (auto simp: edit_result_def colors)
  next
    case take
    obtain c where "remove_single_stone_unsafe zob l b = Some c" "board_ok c" "g_board c = (g_board b)(l := EMPTY)"
      "g_x_size c = g_x_size b" "g_y_size c = g_y_size b" "g_pla c = g_pla b"
      using remove_single_stone_ok [OF ok take(2), of zob] by (auto simp: edited_def)
    then show ?thesis using fin [of c] take by (auto simp: edit_result_def)
  next
    case swap
    obtain e where e: "remove_single_stone_unsafe zob l b = Some e" "board_ok e" "g_board e = (g_board b)(l := EMPTY)"
      "g_x_size e = g_x_size b" "g_y_size e = g_y_size b" "g_pla e = g_pla b"
      using remove_single_stone_ok [OF ok swap(2), of zob] by (auto simp: edited_def)
    have d: "dy e = dy b" and z: "g_board e l = EMPTY" using e(3,4) by (simp_all add: dy_def)
    obtain c where c: "add_unsafe zob p l e = Some c" "board_ok c" "g_board c = rule_move (dy e) p l (g_board e)"
      "g_x_size c = g_x_size e" "g_y_size c = g_y_size e" "g_pla c = g_pla e"
      by (rule add_unsafe_ok [OF e(2) z swap(3)])
    have "g_board c = edit_result (dy b) p l (g_board b)"
      using swap c(3) unfolding e(3) d rule_move_forget by (auto simp: edit_result_def colors)
    then show ?thesis using fin [of c] swap e c stone_not_wall [OF swap(2)] by (auto simp: colors)
  qed
qed

lemma set_stone_total:
  assumes "board_inv b"
  shows "\<not> can_edit b p l \<and> set_stone zob p l b = Some (Inl IllegalMoveError)
    \<or> can_edit b p l \<and> (\<exists>c. set_stone zob p l b = Some (Inr c) \<and> board_inv c)"
proof (cases "can_edit b p l")
  case False
  then show ?thesis by (auto simp: can_edit_def set_stone_def)
next
  case True
  obtain c where "set_stone zob p l b = Some (Inr c)" "board_inv c" by (rule set_stone_legal [OF assms True])
  with True show ?thesis by blast
qed

section \<open>Sequences of calls\<close>

datatype board_op = Play player loc | SetStone player loc | SetPla player

text \<open>\<open>Inl None\<close> would be a call that does not end.\<close>

definition call_result :: "(gerror + goban) option \<Rightarrow> gerror option + goban" where
  "call_result r = (case r of None \<Rightarrow> Inl None | Some (Inl e) \<Rightarrow> Inl (Some e) | Some (Inr b) \<Rightarrow> Inr b)"

fun board_step :: "zobrist_table \<Rightarrow> goban \<Rightarrow> board_op \<Rightarrow> gerror option + goban" where
  "board_step zob b (Play p l) = call_result (play zob p l b)"
| "board_step zob b (SetStone p l) = call_result (set_stone zob p l b)"
| "board_step zob b (SetPla p) = Inr (set_pla p b)"

lemma board_step_total:
  assumes "board_inv b"
  shows "board_step zob b op = Inl (Some IllegalMoveError) \<or> (\<exists>c. board_step zob b op = Inr c \<and> board_inv c)"
proof (cases op)
  case (Play p l)
  then show ?thesis using play_total [OF assms, of p l zob] by (auto simp: call_result_def)
next
  case (SetStone p l)
  then show ?thesis using set_stone_total [OF assms, of p l zob] by (auto simp: call_result_def)
next
  case (SetPla p)
  then show ?thesis using assms by (simp add: set_pla_def)
qed

interpretation board_machine: fallible_machine "board_step zob" board_inv for zob
proof
  fix s i t assume "board_inv s" "board_step zob s i = Inr t"
  then show "board_inv t" using board_step_total [of s zob i] by auto
qed

lemma reached_inv:
  "board_init xs ys = Inr b0 \<Longrightarrow> runE (board_step zob) b0 ops = Inr b \<Longrightarrow> board_inv b"
  using board_machine.run_inv init_inv by blast

end
