(* ===== verification/Board_Legality.thy ===== *)
theory Board_Legality
  imports Board_Machine
begin

text \<open>
  What the legality tests of the board mean: the ko point is where a recapture would bring the old
  position back, and \<open>would_be_suicide\<close> decides from the counts around a point whether the new
  stone would be removed at once.
\<close>

section \<open>Ko\<close>

lemma get_opp_twice [simp]: "get_opp (get_opp p) = p"
  by (simp add: get_opp_def)

lemma alive_liberties: "all_alive d c \<Longrightarrow> c x = p \<Longrightarrow> p = BLACK \<or> p = WHITE \<Longrightarrow> liberties d c x \<noteq> {}"
  unfolding all_alive_def by metis

lemma ko_shape:
  assumes "all_alive d c" "c l = EMPTY" "p = BLACK \<or> p = WHITE" "rule_ko d p l c = Some z"
  shows "captured d (get_opp p) (c(l := p)) = {z}" "rule_move d p l c = c(l := p, z := EMPTY)"
    "string_of d (rule_move d p l c) l = {l}" "liberties d (rule_move d p l c) l = {z}" "c z = get_opp p" "z \<noteq> l"
proof -
  let ?q = "get_opp p"
  note q = opp_facts [OF assms(3)]
  let ?D = "captured d ?q (c(l := p))" and ?m = "rule_move d p l c"
  have ko: "card ?D = 1" "string_of d ?m l = {l}" "card (liberties d ?m l) = 1" "z = the_elem ?D"
    using assms(4) by (auto simp: rule_ko_def Let_def split: if_splits)
  from ko(1) obtain w where "?D = {w}" by (rule card_1_singletonE)
  with ko(4) show D: "?D = {z}" by simp
  then have zD: "z \<in> ?D" by simp
  show cz: "c z = ?q" "z \<noteq> l" using zD q(1) by (auto simp: captured_def split: if_splits)
  note zl = alive_liberties [OF assms(1) cz(1) q(4)]
  have e: "clear d ?q (c(l := p)) = c(l := p, z := EMPTY)" unfolding clear_captured D by auto
  have "liberties d (clear d ?q (c(l := p))) l \<noteq> {}"
    by (rule capture_gives_liberty [OF assms(2) q(3,1,2) zD zl])
  then have "captured d p (clear d ?q (c(l := p))) = {}"
    using own_captured [OF alive_liberties [OF assms(1) _ assms(3)] q(3,1) refl, of l] by simp
  then show m: "?m = c(l := p, z := EMPTY)" unfolding rule_move_def using clear_none e by metis
  show "string_of d ?m l = {l}" by (rule ko(2))
  from captured_beside [OF assms(2) q(3,1,2) zD zl] obtain a
    where a: "a \<in> around d l" "a \<in> string_of d (c(l := p)) z" by blast
  have "a \<in> ?D" using zD string_color [OF a(2)] liberties_eq [OF a(2)] by (simp add: captured_def)
  then have "z \<in> around d l" using a(1) D by simp
  then have "z \<in> liberties d ?m l" unfolding m by (auto simp: liberties_def intro: bexI [OF _ string_self])
  with ko(3) show "liberties d ?m l = {z}" by (metis card_1_singletonE singletonD)
qed

lemma ko_repetition:
  assumes "all_alive d c" "c l = EMPTY" "p = BLACK \<or> p = WHITE" "rule_ko d p l c = Some z"
  shows "rule_move d (get_opp p) z (rule_move d p l c) = c"
proof -
  let ?q = "get_opp p" and ?m = "rule_move d p l c" and ?c2 = "c(l := p)"
  note q = opp_facts [OF assms(3)] and k = ko_shape [OF assms]
  have again: "?m(z := ?q) = ?c2" using k(2,5,6) by auto
  have s: "string_of d ?c2 l = {l}"
    using string_cong [of ?c2 l ?m d] k(2,3,5,6) q by auto
  have "liberties d ?c2 l \<subseteq> liberties d ?m l - {z}"
    unfolding liberties_def s k(3) using k(2,5,6) q by auto
  then have l: "l \<in> captured d p ?c2" using k(4) by (auto simp: captured_def)
  have "x \<notin> captured d p ?c2" if x: "x \<noteq> l" "c x = p" for x
  proof -
    have sub: "string_of d c x \<subseteq> string_of d ?c2 x"
      by (rule string_mono) (use string_color x in \<open>auto\<close>)
    obtain w y where w: "c w = EMPTY" "y \<in> string_of d c x" "w \<in> around d y"
      using alive_liberties [OF assms(1) x(2) assms(3)] by (auto simp: liberties_def)
    have y: "y \<in> string_of d ?c2 x" "?c2 y = p" using sub w(2) string_color [OF w(2)] x(2) by auto
    have "w \<noteq> l"
    proof
      assume "w = l"
      then have "l \<in> string_of d ?c2 x" using string_step [OF y(1), of l] w(3) y(2) by simp
      then have "x \<in> string_of d ?c2 l" by (rule string_sym)
      then show False using s x(1) by simp
    qed
    then have "w \<in> liberties d ?c2 x" using w y(1) by (auto simp: liberties_def)
    then show ?thesis by (auto simp: captured_def)
  qed
  with l have "captured d p ?c2 = {l}" by (auto simp: captured_def)
  then have cl: "clear d p ?c2 = c" unfolding clear_captured using assms(2) by auto
  have "captured d ?q c = {}" using alive_liberties [OF assms(1) _ q(4)] by (auto simp: captured_def)
  then show ?thesis unfolding rule_move_def [of d ?q z] get_opp_twice again cl by (rule clear_none)
qed

section \<open>Suicide\<close>

lemma own_string_parts:
  assumes "y \<in> string_of d e l" "e = clear d (get_opp p) (c(l := p))" "p = BLACK \<or> p = WHITE"
  shows "y = l \<or> (\<exists>a \<in> around d l. c a = p \<and> y \<in> string_of d c a)"
proof -
  note q = opp_facts [OF assms(3)]
  have el: "e l = p" using q by (simp add: assms(2) clear_def)
  have ec: "c x = p" if "e x = p" "x \<noteq> l" for x using that q by (auto simp: assms(2) clear_def split: if_splits)
  from assms(1) show ?thesis
  proof (induction rule: string_induct)
    case (step y z)
    have "z \<in> string_of d e l" using string_step step.hyps by metis
    then have z: "e z = p" using string_color el by metis
    show ?case
    proof (cases "z = l")
      case False
      then have cz: "c z = p" using ec z by simp
      from step.IH show ?thesis
      proof
        assume "y = l"
        then show ?thesis using step.hyps(2) cz string_self by blast
      next
        assume "\<exists>a \<in> around d l. c a = p \<and> y \<in> string_of d c a"
        then obtain a where a: "a \<in> around d l" "c a = p" "y \<in> string_of d c a" by blast
        then have "z \<in> string_of d c a" using string_step step.hyps(2) cz string_color by metis
        with a show ?thesis by blast
      qed
    qed simp
  qed simp
qed

lemma liberties_after_stone:
  assumes "c x = q" "q \<noteq> p" "q \<noteq> EMPTY" "c l = EMPTY"
  shows "liberties d (c(l := p)) x = liberties d c x - {l} \<or> p = EMPTY"
proof -
  have "string_of d (c(l := p)) x = string_of d c x"
    by (rule string_cong) (use assms in auto)
  then show ?thesis by (auto simp: liberties_def)
qed

text \<open>
  Which locations are empty once the stone is down and the opponent's strings are taken off, and
  that the strings beside the stone join its own.
\<close>

lemma cleared_around:
  assumes "all_alive d c" "c l = EMPTY" "p = BLACK \<or> p = WHITE"
  shows "clear d (get_opp p) (c(l := p)) w = EMPTY \<longleftrightarrow>
    w \<noteq> l \<and> (c w = EMPTY \<or> c w = get_opp p \<and> liberties d c w = {l})"
proof -
  let ?q = "get_opp p"
  note q = opp_facts [OF assms(3)]
  have opp: "x \<in> captured d ?q (c(l := p)) \<longleftrightarrow> liberties d c x = {l}" if "c x = ?q" for x
  proof -
    have "liberties d (c(l := p)) x = liberties d c x - {l}"
      using liberties_after_stone [of c x ?q p l d, OF that q(1,2) assms(2)] q(3) by blast
    moreover have "x \<noteq> l" using that assms(2) q(2) by auto
    ultimately show ?thesis using alive_liberties [OF assms(1) that q(4)] that by (auto simp: captured_def)
  qed
  show ?thesis using opp [of w] q unfolding clear_captured by (auto simp: captured_def)
qed

lemma own_string_joined:
  assumes "a \<in> around d l" "c a = p" "p = BLACK \<or> p = WHITE"
  shows "string_of d c a \<subseteq> string_of d (clear d (get_opp p) (c(l := p))) l"
proof -
  let ?e = "clear d (get_opp p) (c(l := p))"
  note q = opp_facts [OF assms(3)]
  have el: "?e l = p" using q by (simp add: clear_def)
  have p: "?e y = p" if "c y = p" for y using that q by (simp add: clear_def)
  have "string_of d c a \<subseteq> string_of d ?e a"
    by (rule string_mono) (use string_color p assms(2) in metis)
  moreover have "a \<in> string_of d ?e l" by (rule string_step [OF string_self assms(1)]) (use p assms(2) el in simp)
  ultimately show ?thesis using string_eq by metis
qed

text \<open>The liberties that the new stone's string would have, from the strings around it.\<close>

lemma suicide_position:
  assumes "all_alive d c" "c l = EMPTY" "p = BLACK \<or> p = WHITE" "2 \<le> d"
  shows "rule_move d p l c l = EMPTY \<longleftrightarrow>
    \<not> (\<exists>a \<in> around d l. c a = EMPTY) \<and> \<not> (\<exists>a \<in> around d l. c a = get_opp p \<and> liberties d c a = {l})
    \<and> \<not> (\<exists>a \<in> around d l. c a = p \<and> liberties d c a \<noteq> {l})"
proof -
  let ?q = "get_opp p"
  define e where "e = clear d ?q (c(l := p))"
  note q = opp_facts [OF assms(3)]
  note al = alive_liberties [OF assms(1)]
  have el: "e l = p" using q by (simp add: e_def clear_def)
  have "rule_move d p l c = (\<lambda>x. if x \<in> captured d p e then EMPTY else e x)"
    unfolding rule_move_def e_def clear_captured [of d p] ..
  then have r: "rule_move d p l c l = EMPTY \<longleftrightarrow> liberties d e l = {}"
    using own_captured [OF al [OF _ assms(3)] q(3,1) e_def] el q(3) by simp
  have lib_l: "l \<in> liberties d c a" if "a \<in> around d l" for a
    using that assms(2) around_sym string_self by (fastforce simp: liberties_def)
  have emp: "e w = EMPTY \<longleftrightarrow> w \<noteq> l \<and> (c w = EMPTY \<or> c w = ?q \<and> liberties d c w = {l})" for w
    unfolding e_def by (rule cleared_around [OF assms(1-3)])
  have own: "string_of d c a \<subseteq> string_of d e l" if a: "a \<in> around d l" "c a = p" for a
    unfolding e_def by (rule own_string_joined) (use a assms(3) in auto)
  have nl: "w \<noteq> l" if "w \<in> around d l" for w using that around_irrefl [OF assms(4)] by metis
  show ?thesis unfolding r
  proof
    assume none: "liberties d e l = {}"
    have "e w \<noteq> EMPTY" if "w \<in> around d l" for w using none that string_self by (auto simp: liberties_def)
    moreover have "liberties d c a = {l}" if a: "a \<in> around d l" "c a = p" for a
    proof -
      have "w = l" if "w \<in> liberties d c a" for w
        using that own [OF a] emp [of w] none by (auto simp: liberties_def)
      with lib_l [OF a(1)] show ?thesis by blast
    qed
    ultimately show "\<not> (\<exists>a \<in> around d l. c a = EMPTY) \<and> \<not> (\<exists>a \<in> around d l. c a = ?q \<and> liberties d c a = {l})
        \<and> \<not> (\<exists>a \<in> around d l. c a = p \<and> liberties d c a \<noteq> {l})" using emp nl by blast
  next
    assume N: "\<not> (\<exists>a \<in> around d l. c a = EMPTY) \<and> \<not> (\<exists>a \<in> around d l. c a = ?q \<and> liberties d c a = {l})
        \<and> \<not> (\<exists>a \<in> around d l. c a = p \<and> liberties d c a \<noteq> {l})"
    have noc: "\<not> (c w = ?q \<and> liberties d c w = {l})" for w
    proof
      assume w: "c w = ?q \<and> liberties d c w = {l}"
      then obtain y where "y \<in> string_of d c w" "l \<in> around d y" by (auto simp: liberties_def)
      then have "y \<in> around d l" "c y = ?q" "liberties d c y = {l}"
        using w string_color liberties_eq around_sym by metis+
      with N show False by blast
    qed
    have "False" if "w \<in> liberties d e l" for w
    proof -
      from that obtain y where y: "e w = EMPTY" "y \<in> string_of d e l" "w \<in> around d y" by (auto simp: liberties_def)
      from y(1) noc emp have w: "w \<noteq> l" "c w = EMPTY" by auto
      from own_string_parts [OF y(2) e_def assms(3)] show False
      proof
        assume "y = l" with y(3) w N show False by blast
      next
        assume "\<exists>a \<in> around d l. c a = p \<and> y \<in> string_of d c a"
        then obtain a where a: "a \<in> around d l" "c a = p" "y \<in> string_of d c a" by blast
        then have "w \<in> liberties d c a" using w y(3) by (auto simp: liberties_def)
        with a N w(1) show False by blast
      qed
    qed
    then show "liberties d e l = {}" by blast
  qed
qed

lemma liberties_singleton:
  assumes "board_ok b" "is_stone b a" "l \<in> liberties (dy b) (g_board b) a"
  shows "group_liberty_count b (group_head b a) = 1 \<longleftrightarrow> liberties (dy b) (g_board b) a = {l}"
    "group_liberty_count b (group_head b a) > 1 \<longleftrightarrow> liberties (dy b) (g_board b) a \<noteq> {l}"
proof -
  have n: "group_liberty_count b (group_head b a) = int (card (liberties (dy b) (g_board b) a))"
    "finite (liberties (dy b) (g_board b) a)"
    using chain_liberties assms(1,2) unfolding board_ok_def by blast+
  have one: "card (liberties (dy b) (g_board b) a) = 1 \<longleftrightarrow> liberties (dy b) (g_board b) a = {l}"
    using assms(3) by (metis card_1_singletonE is_singletonI is_singleton_altdef singletonD)
  have "card (liberties (dy b) (g_board b) a) \<noteq> 0" using n(2) assms(3) by auto
  then show "group_liberty_count b (group_head b a) = 1 \<longleftrightarrow> liberties (dy b) (g_board b) a = {l}"
    "group_liberty_count b (group_head b a) > 1 \<longleftrightarrow> liberties (dy b) (g_board b) a \<noteq> {l}"
    using one unfolding n(1) by linarith+
qed

end
