(* ===== verification/Board_Props.thy ===== *)
theory Board_Props
  imports Board_Legality
begin

text \<open>The properties of the Go board, over every board that calls of its public operations reach.\<close>

section \<open>A sample game\<close>

text \<open>On a 3 by 3 board, Black to take a ko at (2, 0).\<close>

definition sample_zob :: zobrist_table where
  "sample_zob p l = of_int (100 * p + l)"

definition ko_game :: "board_op list" where
  "ko_game = [Play BLACK 5, Play WHITE 6, Play BLACK 10, Play WHITE 11]"

definition board_of :: "'e + goban \<Rightarrow> goban" where
  "board_of r = (case r of Inr b \<Rightarrow> b | Inl _ \<Rightarrow> the None)"

definition small_board :: goban where
  "small_board = board_of (board_init 3 3)"

definition ko_board :: goban where
  "ko_board = board_of (runE (board_step sample_zob) small_board ko_game)"

lemma board_of_Inr: "\<not> isl r \<Longrightarrow> r = Inr (board_of r)"
  by (cases r) (simp_all add: board_of_def)

lemma small_board_init: "board_init 3 3 = Inr small_board"
  unfolding small_board_def by (rule board_of_Inr) (simp add: board_init_def)

lemma ko_game_runs: "runE (board_step sample_zob) small_board ko_game = Inr ko_board"
  unfolding ko_board_def by (rule board_of_Inr) code_simp

lemma ko_board_facts:
  "would_be_legal ko_board BLACK 7" "is_stone ko_board 6" "g_board ko_board 7 = EMPTY"
  "is_on_board ko_board 6" "(7 :: int) \<noteq> PASS_LOC" "BLACK = BLACK \<or> BLACK = WHITE"
  "WHITE = EMPTY \<or> WHITE = BLACK \<or> WHITE = WHITE"
  by code_simp+

definition after_ko :: goban where
  "after_ko = board_of (the (play sample_zob BLACK 7 ko_board))"

lemma after_ko_played: "play sample_zob BLACK 7 ko_board = Some (Inr after_ko)" "simple_ko_point after_ko = Some 6"
proof -
  have "\<exists>c. play sample_zob BLACK 7 ko_board = Some (Inr c)"
    using play_total [OF reached_inv [OF small_board_init ko_game_runs]] ko_board_facts(1) by blast
  then show "play sample_zob BLACK 7 ko_board = Some (Inr after_ko)" by (auto simp: after_ko_def board_of_def)
  show "simple_ko_point after_ko = Some 6" by code_simp
qed

lemma reached_ok: "board_inv b \<Longrightarrow> board_ok b" "board_inv b \<Longrightarrow> chains_ok b" "board_inv b \<Longrightarrow> maximal b"
  "board_inv b \<Longrightarrow> all_alive (dy b) (g_board b)" "board_inv b \<Longrightarrow> 2 \<le> dy b"
  using board_ok_alive by (auto simp: board_inv_def board_ok_def dy_def)

section \<open>Properties\<close>

text \<open>
  C10. The incremental bookkeeping is exact. On every board reached from an empty one by calls of
  \<open>play\<close>, \<open>set_stone\<close> and \<open>set_pla\<close>, two locations have the same chain head exactly when
  they are in one connected string, the head carries the number of stones of the string and of its
  distinct liberties, and no string on the board is without liberties.
\<close>

theorem stored_chains_exact:
  assumes "board_init xs ys = Inr b0" "runE (board_step zob) b0 ops = Inr b" "is_stone b x"
  shows "(group_head b y = group_head b x \<longleftrightarrow> y \<in> string_of (dy b) (g_board b) x)
    \<and> group_stone_count b (group_head b x) = int (card (string_of (dy b) (g_board b) x))
    \<and> num_liberties b x = int (card (liberties (dy b) (g_board b) x))
    \<and> num_liberties b x > 0"
proof -
  note inv = reached_inv [OF assms(1,2)]
  note ok = reached_ok(2,3) [OF inv]
  note s = chain_string [OF ok assms(3)] and l = chain_liberties [OF ok assms(3)]
  have "group_head b y = group_head b x \<longleftrightarrow> y \<in> grp b (group_head b x)"
    using same_chain(1) [OF ok(1) assms(3), of y] by (auto simp: grp_def)
  moreover have "group_stone_count b (group_head b x) = int (card (grp b (group_head b x)))"
    using ok(1) assms(3) unfolding chains_ok_def chain_ok_def by blast
  moreover have "num_liberties b x = group_liberty_count b (group_head b x)"
    using stone_not_wall [OF assms(3)] by (simp add: num_liberties_def)
  moreover have "liberties (dy b) (g_board b) x \<noteq> {}"
    using reached_ok(1) [OF inv] assms(3) by (simp add: board_ok_def)
  ultimately show ?thesis using l unfolding s by (simp add: card_gt_0_iff)
qed

theorem stored_chains_exact_witness:
  "(group_head ko_board 5 = group_head ko_board 6 \<longleftrightarrow> 5 \<in> string_of (dy ko_board) (g_board ko_board) 6)
    \<and> group_stone_count ko_board (group_head ko_board 6) = int (card (string_of (dy ko_board) (g_board ko_board) 6))
    \<and> num_liberties ko_board 6 = int (card (liberties (dy ko_board) (g_board ko_board) 6)) \<and> num_liberties ko_board 6 > 0"
  by (rule stored_chains_exact [OF small_board_init ko_game_runs ko_board_facts(2)])

text \<open>
  C11. A legal move is played by the rules of Go. The call ends and raises nothing; the new position
  is that of the rules (place the stone, remove the opponent's strings without liberties, then one's
  own), the prisoners are counted, the ko point is that of the rules and the turn passes.
\<close>

theorem play_refines_rules:
  assumes "board_init xs ys = Inr b0" "runE (board_step zob) b0 ops = Inr b"
    "would_be_legal b p l" "l \<noteq> PASS_LOC"
  shows "\<exists>c. play zob p l b = Some (Inr c) \<and> g_board c = rule_move (dy b) p l (g_board b)
    \<and> simple_ko_point c = rule_ko (dy b) p l (g_board b) \<and> g_pla c = get_opp p
    \<and> num_captures_made c (get_opp p) = num_captures_made b (get_opp p)
        + int (card (captured (dy b) (get_opp p) ((g_board b)(l := p))))
    \<and> num_captures_made c p = num_captures_made b p
        + int (card (captured (dy b) p (clear (dy b) (get_opp p) ((g_board b)(l := p)))))"
proof -
  have "get_opp p \<noteq> p" using assms(3) opp_facts [of p] by (auto simp: would_be_legal_def split: if_splits)
  show ?thesis
    by (rule play_legal [OF reached_inv [OF assms(1,2)] assms(3,4), of zob]) (use \<open>get_opp p \<noteq> p\<close> in auto)
qed

theorem play_refines_rules_witness:
  "\<exists>c. play sample_zob BLACK 7 ko_board = Some (Inr c) \<and> g_board c = rule_move (dy ko_board) BLACK 7 (g_board ko_board)
    \<and> simple_ko_point c = rule_ko (dy ko_board) BLACK 7 (g_board ko_board) \<and> g_pla c = get_opp BLACK
    \<and> num_captures_made c (get_opp BLACK) = num_captures_made ko_board (get_opp BLACK)
        + int (card (captured (dy ko_board) (get_opp BLACK) ((g_board ko_board)(7 := BLACK))))
    \<and> num_captures_made c BLACK = num_captures_made ko_board BLACK
        + int (card (captured (dy ko_board) BLACK (clear (dy ko_board) (get_opp BLACK) ((g_board ko_board)(7 := BLACK)))))"
  by (rule play_refines_rules [OF small_board_init ko_game_runs ko_board_facts(1,5)])

text \<open>
  C12. Every call of \<open>play\<close> and of \<open>set_stone\<close> on a reached board returns or raises: the walks
  around the chains, the merges and the removals end. \<open>play\<close> raises exactly when
  \<open>would_be_legal\<close> is false, \<open>set_stone\<close> exactly for a wrong colour or a location off the board.
\<close>

theorem board_calls_end:
  assumes "board_init xs ys = Inr b0" "runE (board_step zob) b0 ops = Inr b"
  shows "(\<exists>r. play zob p l b = Some r \<and> (r = Inl IllegalMoveError \<longleftrightarrow> \<not> would_be_legal b p l))
    \<and> (\<exists>r. set_stone zob p l b = Some r \<and>
        (r = Inl IllegalMoveError \<longleftrightarrow> p \<notin> {EMPTY, BLACK, WHITE} \<or> \<not> is_on_board b l))"
proof -
  note inv = reached_inv [OF assms]
  show ?thesis using play_total [OF inv, of p l zob] set_stone_total [OF inv, of p l zob]
    by (auto simp: can_edit_def)
qed

theorem board_calls_end_witness:
  "(\<exists>r. play sample_zob WHITE 7 ko_board = Some r \<and> (r = Inl IllegalMoveError \<longleftrightarrow> \<not> would_be_legal ko_board WHITE 7))
    \<and> (\<exists>r. set_stone sample_zob WHITE 7 ko_board = Some r \<and>
        (r = Inl IllegalMoveError \<longleftrightarrow> WHITE \<notin> {EMPTY, BLACK, WHITE} \<or> \<not> is_on_board ko_board 7))"
  by (rule board_calls_end [OF small_board_init ko_game_runs])

text \<open>
  C13. The simple ko rule forbids exactly a repetition. When a move leaves a ko point, the
  opponent's stone there would bring back the position before the move, stone for stone; and
  \<open>play\<close> refuses it.
\<close>

theorem ko_forbids_repetition:
  assumes "board_init xs ys = Inr b0" "runE (board_step zob) b0 ops = Inr b"
    "play zob p l b = Some (Inr c)" "simple_ko_point c = Some z"
  shows "rule_move (dy b) (get_opp p) z (g_board c) = g_board b
    \<and> play zob (get_opp p) z c = Some (Inl IllegalMoveError)"
proof -
  note inv = reached_inv [OF assms(1,2)]
  have leg: "would_be_legal b p l" using play_total [OF inv, of p l zob] assms(3) by auto
  then have p: "p = BLACK \<or> p = WHITE" by (auto simp: would_be_legal_def split: if_splits)
  have nl: "l \<noteq> PASS_LOC" using assms(3,4) play_pass [of b p zob] leg by auto
  with leg have e: "g_board b l = EMPTY" by (auto simp: would_be_legal_def split: if_splits)
  from play_legal [OF inv leg nl, of zob] assms(3)
  have c: "g_board c = rule_move (dy b) p l (g_board b)" "rule_ko (dy b) p l (g_board b) = Some z" "board_inv c"
    using assms(4) by (metis option.inject sum.inject(2))+
  note k = ko_shape [OF reached_ok(4) [OF inv] e p c(2)]
  have "z \<noteq> PASS_LOC"
  proof
    assume z: "z = PASS_LOC"
    have "g_board b z \<noteq> WALL" using k(5) opp_facts(4) [OF p] by (auto simp: colors)
    then have "0 < z" using reached_ok(2) [OF inv] unfolding chains_ok_def geometry_def by blast
    with z show False by (simp add: PASS_LOC_def)
  qed
  then have "\<not> would_be_legal c (get_opp p) z" using assms(4) by (simp add: would_be_legal_def)
  then have "play zob (get_opp p) z c = Some (Inl IllegalMoveError)"
    using play_total [OF c(3), of "get_opp p" z zob] by blast
  then show ?thesis using ko_repetition [OF reached_ok(4) [OF inv] e p c(2)] unfolding c(1) by blast
qed

theorem ko_forbids_repetition_witness:
  "rule_move (dy ko_board) (get_opp BLACK) 6 (g_board after_ko) = g_board ko_board
    \<and> play sample_zob (get_opp BLACK) 6 after_ko = Some (Inl IllegalMoveError)"
  by (rule ko_forbids_repetition [OF small_board_init ko_game_runs after_ko_played])

text \<open>
  C26. \<open>would_be_suicide\<close> decides from the counts kept around an empty location exactly whether
  the rules would take the new stone off again.
\<close>

theorem would_be_suicide_exact:
  assumes "board_init xs ys = Inr b0" "runE (board_step zob) b0 ops = Inr b"
    "g_board b l = EMPTY" "p = BLACK \<or> p = WHITE"
  shows "would_be_suicide b p l \<longleftrightarrow> rule_move (dy b) p l (g_board b) l = EMPTY"
proof -
  note inv = reached_inv [OF assms(1,2)]
  let ?L = "liberties (dy b) (g_board b)" and ?q = "get_opp p"
  have lib: "l \<in> ?L a" if "a \<in> around (dy b) l" for a
    using that assms(3) around_sym string_self by (fastforce simp: liberties_def)
  have st: "is_stone b a" if "g_board b a = p \<or> g_board b a = ?q" for a
    using that assms(4) opp_facts(4) [OF assms(4)] by (auto simp: is_stone_def)
  note one = liberties_singleton [OF reached_ok(1) [OF inv] st lib]
  have "would_be_suicide b p l \<longleftrightarrow>
      \<not> (\<exists>a \<in> around (dy b) l. g_board b a = EMPTY \<or> g_board b a = ?q \<and> group_liberty_count b (group_head b a) = 1)
      \<and> \<not> (\<exists>a \<in> around (dy b) l. g_board b a = p \<and> group_liberty_count b (group_head b a) > 1)"
    by (simp add: would_be_suicide_def opens_def list_ex_iff)
  also have "\<dots> \<longleftrightarrow> \<not> (\<exists>a \<in> around (dy b) l. g_board b a = EMPTY) \<and> \<not> (\<exists>a \<in> around (dy b) l. g_board b a = ?q \<and> ?L a = {l})
      \<and> \<not> (\<exists>a \<in> around (dy b) l. g_board b a = p \<and> ?L a \<noteq> {l})"
  proof -
    have "g_board b a = ?q \<and> group_liberty_count b (group_head b a) = 1 \<longleftrightarrow> g_board b a = ?q \<and> ?L a = {l}"
      "g_board b a = p \<and> group_liberty_count b (group_head b a) > 1 \<longleftrightarrow> g_board b a = p \<and> ?L a \<noteq> {l}"
      if "a \<in> around (dy b) l" for a using one [of a] that by blast+
    then show ?thesis by blast
  qed
  also have "\<dots> \<longleftrightarrow> rule_move (dy b) p l (g_board b) l = EMPTY"
    by (rule suicide_position [OF reached_ok(4) [OF inv] assms(3,4) reached_ok(5) [OF inv], symmetric])
  finally show ?thesis .
qed

theorem would_be_suicide_exact_witness:
  "would_be_suicide ko_board BLACK 7 \<longleftrightarrow> rule_move (dy ko_board) BLACK 7 (g_board ko_board) 7 = EMPTY"
  by (rule would_be_suicide_exact [OF small_board_init ko_game_runs ko_board_facts(3,6)])

text \<open>
  C27. \<open>set_stone\<close> edits a single location. Clearing a location takes off exactly that stone,
  although the code removes its whole chain and adds the other stones back one by one; setting a
  colour plays the stone by the rules, after the old stone is gone; the ko point is cleared.
\<close>

theorem set_stone_edits_one:
  assumes "board_init xs ys = Inr b0" "runE (board_step zob) b0 ops = Inr b"
    "is_on_board b l" "p = EMPTY \<or> p = BLACK \<or> p = WHITE"
  shows "\<exists>c. set_stone zob p l b = Some (Inr c) \<and> simple_ko_point c = None \<and> g_pla c = g_pla b
    \<and> g_board c = (if p = EMPTY then (g_board b)(l := EMPTY) else if g_board b l = p then g_board b
        else rule_move (dy b) p l (g_board b))"
proof -
  obtain c where "set_stone zob p l b = Some (Inr c)" "simple_ko_point c = None" "g_pla c = g_pla b"
    "g_board c = edit_result (dy b) p l (g_board b)"
    by (rule set_stone_legal [OF reached_inv [OF assms(1,2)], of p l zob]) (use assms(3,4) in \<open>auto simp: can_edit_def\<close>)
  then show ?thesis by (auto simp: edit_result_def fun_eq_iff)
qed

theorem set_stone_edits_one_witness:
  "g_board ko_board 6 = WHITE
   \<and> (\<exists>c. set_stone sample_zob EMPTY 6 ko_board = Some (Inr c) \<and> simple_ko_point c = None \<and> g_board c = (g_board ko_board)(6 := EMPTY))
   \<and> (\<exists>c. set_stone sample_zob BLACK 6 ko_board = Some (Inr c) \<and> simple_ko_point c = None
        \<and> g_board c = rule_move (dy ko_board) BLACK 6 (g_board ko_board))"
proof -
  have w: "g_board ko_board 6 = WHITE" "BLACK \<noteq> EMPTY" "WHITE \<noteq> BLACK" by code_simp+
  note edit = set_stone_edits_one [OF small_board_init ko_game_runs ko_board_facts(4)]
  show ?thesis using edit [of EMPTY] edit [of BLACK] w by auto
qed

section \<open>What captures do to the hash\<close>

text \<open>
  The hash of the position depends on how it was reached: a captured stone is taken out of it with
  the table of the other colour.
\<close>

definition stones_by :: "board_op list \<Rightarrow> player list \<times> 64 word" where
  "stones_by ops = (let b = board_of (runE (board_step sample_zob) small_board ops) in
     (map (g_board b) [0..20], g_zobrist b))"

lemma hash_depends_on_history:
  "fst (stones_by [Play WHITE 5, Play BLACK 6, Play BLACK 9]) = fst (stones_by [Play BLACK 6, Play BLACK 9])"
  "snd (stones_by [Play WHITE 5, Play BLACK 6, Play BLACK 9]) \<noteq> snd (stones_by [Play BLACK 6, Play BLACK 9])"
  by code_simp+

end
