(* ===== verification/Board_Flood.thy ===== *)
theory Board_Flood
  imports Board_Legality
begin

text \<open>
  The recursive floods of the board: \<open>floodFillStonesHelper\<close> puts a chain back on a region of empty
  locations and \<open>rebuildChainHelper\<close> links the stones of a chain again. Both visit a region in depth
  first order, and link every location to the one visited before it.
\<close>

section \<open>The search\<close>

text \<open>
  The recursion that both helpers share: treat the location, then recurse into each neighbour that is
  still free, with the location visited last as the next target of a link.
\<close>

partial_function (option) flood :: "(goban \<Rightarrow> loc \<Rightarrow> bool) \<Rightarrow> (loc \<Rightarrow> loc \<Rightarrow> goban \<Rightarrow> goban) \<Rightarrow>
    loc \<Rightarrow> loc \<Rightarrow> goban \<Rightarrow> (goban \<times> loc) option" where
  "flood free act t l b = (let b0 = act t l b in do {
     (b1, t1) \<leftarrow> (if free b0 (l - dy b) then flood free act l (l - dy b) b0 else Some (b0, l));
     (b2, t2) \<leftarrow> (if free b1 (l - 1) then flood free act t1 (l - 1) b1 else Some (b1, t1));
     (b3, t3) \<leftarrow> (if free b2 (l + 1) then flood free act t2 (l + 1) b2 else Some (b2, t2));
     if free b3 (l + dy b) then flood free act t3 (l + dy b) b3 else Some (b3, t3) })"

declare flood.simps [code]

definition fill_stone :: "zobrist_table \<Rightarrow> loc \<Rightarrow> player \<Rightarrow> loc \<Rightarrow> loc \<Rightarrow> goban \<Rightarrow> goban" where
  "fill_stone zob head p t l b =
    change_surrounding_liberties l (get_opp p) (- 1)
      (b\<lparr>g_board := (g_board b)(l := p), g_zobrist := g_zobrist b XOR zob p l,
         group_head := (group_head b)(l := head),
         group_stone_count := (group_stone_count b)(head := group_stone_count b head + 1),
         group_next := (group_next b)(l := t), group_prev := (group_prev b)(t := l)\<rparr>)"

definition floodFillStonesHelper :: "zobrist_table \<Rightarrow> loc \<Rightarrow> loc \<Rightarrow> loc \<Rightarrow> player \<Rightarrow> goban \<Rightarrow> (goban \<times> loc) option" where
  "floodFillStonesHelper zob head t l p b = flood (\<lambda>b x. g_board b x = EMPTY) (fill_stone zob head p) t l b"

text \<open>Both callers reset the counts of the new head and close the ring at the end.\<close>

definition reset_head :: "loc \<Rightarrow> goban \<Rightarrow> goban" where
  "reset_head h b = b\<lparr>group_liberty_count := (group_liberty_count b)(h := 0),
     group_stone_count := (group_stone_count b)(h := 0)\<rparr>"

definition close_ring :: "loc \<Rightarrow> loc \<Rightarrow> goban \<Rightarrow> goban" where
  "close_ring h front b = b\<lparr>group_next := (group_next b)(h := front), group_prev := (group_prev b)(front := h)\<rparr>"

definition floodFillStones :: "zobrist_table \<Rightarrow> player \<Rightarrow> loc \<Rightarrow> goban \<Rightarrow> goban option" where
  "floodFillStones zob p l b = do {
     (b1, front) \<leftarrow> floodFillStonesHelper zob l l l p (reset_head l b);
     Some (close_ring l front b1) }"

definition rebuild_stone :: "loc \<Rightarrow> loc \<Rightarrow> loc \<Rightarrow> goban \<Rightarrow> goban" where
  "rebuild_stone head t l b =
    (let b1 = add_liberties head (new_liberties_at b head l) b
     in b1\<lparr>group_head := (group_head b1)(l := head),
       group_stone_count := (group_stone_count b1)(head := group_stone_count b1 head + 1),
       group_next := (group_next b1)(l := t), group_prev := (group_prev b1)(t := l)\<rparr>)"

definition rebuildChainHelper :: "loc \<Rightarrow> loc \<Rightarrow> loc \<Rightarrow> player \<Rightarrow> goban \<Rightarrow> (goban \<times> loc) option" where
  "rebuildChainHelper head t l p b =
    flood (\<lambda>b x. g_board b x = p \<and> group_head b x \<noteq> head) (rebuild_stone head) t l b"

definition rebuildChain :: "player \<Rightarrow> loc \<Rightarrow> goban \<Rightarrow> goban option" where
  "rebuildChain p l b = do {
     (b1, front) \<leftarrow> rebuildChainHelper l l l p (reset_head l b);
     Some (close_ring l front b1) }"

section \<open>What the search visits\<close>

text \<open>The effect of visiting the locations of a list in this order.\<close>

fun visit :: "(loc \<Rightarrow> loc \<Rightarrow> goban \<Rightarrow> goban) \<Rightarrow> loc \<Rightarrow> loc list \<Rightarrow> goban \<Rightarrow> goban" where
  "visit act t [] b = b"
| "visit act t (v # vs) b = visit act v vs (act t v b)"

lemma visit_append: "visit act t (xs @ ys) b = visit act (last (t # xs)) ys (visit act t xs b)"
  by (induction xs arbitrary: t b) auto

fun flood_list :: "(goban \<Rightarrow> loc \<Rightarrow> bool) \<Rightarrow> (loc \<Rightarrow> loc \<Rightarrow> goban \<Rightarrow> goban) \<Rightarrow> loc list \<Rightarrow> goban \<times> loc \<Rightarrow> (goban \<times> loc) option" where
  "flood_list free act [] s = Some s"
| "flood_list free act (a # as) (b, t) = do {
     s \<leftarrow> (if free b a then flood free act t a b else Some (b, t));
     flood_list free act as s }"

lemma flood_list_fun:
  "flood_list free act [] = Some"
  "flood_list free act (a # as) = (\<lambda>s. (if free (fst s) a then flood free act (snd s) a (fst s) else Some s)
     \<bind> flood_list free act as)"
  by (auto simp: fun_eq_iff)

lemma flood_by_list: "flood free act t l b = flood_list free act (nbrs b l) (act t l b, l)"
  by (subst flood.simps)
    (simp only: Let_def nbrs_def flood_list_fun Option.bind_runit split_def prod.sel surjective_pairing [symmetric])

text \<open>The region that is connected to a location through free locations.\<close>

definition region :: "int \<Rightarrow> loc set \<Rightarrow> loc \<Rightarrow> loc set" where
  "region d S l = {x. (l, x) \<in> {(x, y). x \<in> S \<and> y \<in> S \<and> y \<in> around d x}\<^sup>*}"

definition covers :: "int \<Rightarrow> loc set \<Rightarrow> loc set \<Rightarrow> loc list \<Rightarrow> bool" where
  "covers d S A vs \<longleftrightarrow> distinct vs \<and> set vs \<subseteq> S \<and> A \<inter> S \<subseteq> set vs
     \<and> (\<forall>v \<in> set vs. around d v \<inter> S \<subseteq> set vs) \<and> (\<forall>v \<in> set vs. \<exists>a \<in> A \<inter> S. v \<in> region d S a)"

lemma region_mono: "S \<subseteq> T \<Longrightarrow> region d S a \<subseteq> region d T a"
proof -
  assume "S \<subseteq> T"
  then have "{(x, y). x \<in> S \<and> y \<in> S \<and> y \<in> around d x} \<subseteq> {(x, y). x \<in> T \<and> y \<in> T \<and> y \<in> around d x}" by auto
  from rtrancl_mono [OF this] show ?thesis by (auto simp: region_def)
qed

lemma covers_append:
  assumes "covers d S {a} vs" "covers d (S - set vs) A ws"
  shows "covers d S (insert a A) (vs @ ws)"
proof -
  have r: "region d (S - set vs) x \<subseteq> region d S x" for x by (rule region_mono) simp
  note cov = assms(2) [unfolded covers_def]
  have "\<exists>a' \<in> insert a A \<inter> S. v \<in> region d S a'" if "v \<in> set ws" for v
    using cov r that by blast
  then have "\<forall>v \<in> set vs \<union> set ws. \<exists>a' \<in> insert a A \<inter> S. v \<in> region d S a'"
    using assms(1) unfolding covers_def by blast
  moreover have "distinct (vs @ ws)" using assms(1) cov unfolding covers_def by auto
  moreover have "set vs \<union> set ws \<subseteq> S" "insert a A \<inter> S \<subseteq> set vs \<union> set ws"
    using assms(1) cov unfolding covers_def by blast+
  moreover have "around d v \<inter> S \<subseteq> set vs \<union> set ws" if "v \<in> set vs \<union> set ws" for v
    using assms(1) cov that unfolding covers_def by blast
  ultimately show ?thesis unfolding covers_def set_append by blast
qed

locale flood_search =
  fixes free :: "goban \<Rightarrow> loc \<Rightarrow> bool"
    and act :: "loc \<Rightarrow> loc \<Rightarrow> goban \<Rightarrow> goban"
  assumes open_act: "free (act t l b) x \<longleftrightarrow> free b x \<and> x \<noteq> l"
    and dy_act: "dy (act t l b) = dy b"
begin

lemma open_visit: "{x. free (visit act t vs b) x} = {x. free b x} - set vs"
  by (induction vs arbitrary: t b) (auto simp: open_act)

lemma dy_visit: "dy (visit act t vs b) = dy b"
  by (induction vs arbitrary: t b) (auto simp: dy_act)

lemma flood_covers:
  assumes "finite ({x. free b x})" "free b l"
  shows "\<exists>vs. flood free act t l b = Some (visit act t (l # vs) b, last (l # vs)) \<and> covers (dy b) {x. free b x} {l} (l # vs)"
  using assms
proof (induction "card ({x. free b x})" arbitrary: b t l rule: less_induct)
  case less
  let ?c = "act t l b"
  have o: "{x. free ?c x} = {x. free b x} - {l}" by (auto simp: open_act)
  have list: "\<exists>ws. flood_list free act as (e, u) = Some (visit act u ws e, last (u # ws)) \<and> covers (dy e) {x. free e x} (set as) ws"
    if "{x. free e x} \<subseteq> {x. free ?c x}" for as e u
    using that
  proof (induction as arbitrary: e u)
    case Nil
    then show ?case by (intro exI [of _ "[]"]) (simp add: covers_def)
  next
    case (Cons a as)
    show ?case
    proof (cases "free e a")
      case False
      from Cons.IH [OF Cons.prems] obtain ws where
        "flood_list free act as (e, u) = Some (visit act u ws e, last (u # ws))" "covers (dy e) {x. free e x} (set as) ws" by blast
      with False show ?thesis by (intro exI [of _ ws]) (auto simp: covers_def)
    next
      case True
      have fin: "finite ({x. free e x})" using Cons.prems less.prems(1) o by (metis finite_Diff finite_subset)
      have "{x. free e x} \<subset> {x. free b x}" using Cons.prems o less.prems(2) by auto
      then have "card ({x. free e x}) < card ({x. free b x})" using less.prems(1) by (rule psubset_card_mono [rotated])
      from less.hyps [OF this fin True, of u] obtain vs where vs:
        "flood free act u a e = Some (visit act u (a # vs) e, last (a # vs))" "covers (dy e) {x. free e x} {a} (a # vs)" by blast
      have "{x. free (visit act u (a # vs) e) x} \<subseteq> {x. free ?c x}" unfolding open_visit using Cons.prems by blast
      from Cons.IH [OF this, of "last (a # vs)"] obtain ws where ws:
        "flood_list free act as (visit act u (a # vs) e, last (a # vs)) =
          Some (visit act (last (a # vs)) ws (visit act u (a # vs) e), last (last (a # vs) # ws))"
        "covers (dy (visit act u (a # vs) e)) {x. free (visit act u (a # vs) e) x} (set as) ws" by blast
      have "covers (dy e) {x. free e x} (set (a # as)) ((a # vs) @ ws)" using covers_append [OF vs(2)] ws(2) unfolding open_visit dy_visit by simp
      moreover have "flood_list free act (a # as) (e, u) =
          Some (visit act u ((a # vs) @ ws) e, last (u # (a # vs) @ ws))"
        using True vs(1) ws(1) visit_append [of act u "a # vs" ws e] by (cases ws) simp_all
      ultimately show ?thesis by blast
    qed
  qed
  from list [OF order_refl, of "nbrs b l" l] obtain ws where ws:
    "flood_list free act (nbrs b l) (?c, l) = Some (visit act l ws ?c, last (l # ws))" "covers (dy ?c) {x. free ?c x} (around (dy b) l) ws" by auto
  have r: "region (dy b) ({x. free ?c x}) x \<subseteq> region (dy b) ({x. free b x}) x" for x
    by (rule region_mono) (simp add: o)
  have "v \<in> region (dy b) ({x. free b x}) l" if v: "v \<in> set ws" for v
  proof -
    from ws(2) v obtain a where a: "a \<in> around (dy b) l" "free b a" "v \<in> region (dy b) ({x. free b x}) a"
      using r unfolding covers_def dy_act o by blast
    then show ?thesis using less.prems(2) unfolding region_def mem_Collect_eq
      by (intro converse_rtrancl_into_rtrancl [OF _ a(3) [unfolded region_def mem_Collect_eq]]) simp
  qed
  moreover have "l \<in> region (dy b) ({x. free b x}) l" by (simp add: region_def)
  ultimately have "covers (dy b) {x. free b x} {l} (l # ws)"
    using ws(2) less.prems(2) unfolding covers_def dy_act o by auto
  then show ?case using ws(1) by (subst flood_by_list) auto
qed

text \<open>So the locations visited are those of the region, each once.\<close>

lemma covers_region:
  assumes "covers (dy b) {x. free b x} {l} vs" "free b l"
  shows "set vs = region (dy b) ({x. free b x}) l"
proof
  show "set vs \<subseteq> region (dy b) ({x. free b x}) l" using assms by (auto simp: covers_def)
  have "v \<in> set vs" if "(l, v) \<in> {(x, y). x \<in> {x. free b x} \<and> y \<in> {x. free b x} \<and> y \<in> around (dy b) x}\<^sup>*" for v
    using that
  proof (induction rule: rtrancl_induct)
    case base
    then show ?case using assms by (auto simp: covers_def)
  next
    case (step y z)
    then show ?case using assms(1) by (auto simp: covers_def)
  qed
  then show "region (dy b) ({x. free b x}) l \<subseteq> set vs" by (auto simp: region_def)
qed

lemma flood_region:
  assumes "finite {x. free b x}" "free b l"
  shows "\<exists>vs. flood free act t l b = Some (visit act t (l # vs) b, last (l # vs)) \<and> distinct (l # vs)
    \<and> set (l # vs) = region (dy b) {x. free b x} l
    \<and> (\<forall>v \<in> set (l # vs). \<forall>y \<in> around (dy b) v. free b y \<longrightarrow> y \<in> set (l # vs))"
proof -
  from flood_covers [OF assms, of t] obtain vs where
    vs: "flood free act t l b = Some (visit act t (l # vs) b, last (l # vs))" "covers (dy b) {x. free b x} {l} (l # vs)" by blast
  show ?thesis
    using vs covers_region [OF vs(2) assms(2)] unfolding covers_def by (intro exI [of _ vs]) blast
qed

end

end
