(* ===== verification/Board_Refill.thy ===== *)
theory Board_Refill
  imports Board_Flood
begin

text \<open>
  Putting a captured chain back: \<open>floodFillStones\<close> ends, fills the empty region around its start with
  one chain and takes the filled locations from the liberties of the opposing chains.
\<close>

section \<open>Links in order of the visit\<close>

fun link_next :: "loc \<Rightarrow> loc list \<Rightarrow> (loc \<Rightarrow> loc) \<Rightarrow> loc \<Rightarrow> loc" where
  "link_next t [] f = f"
| "link_next t (v # vs) f = link_next v vs (f(v := t))"

fun link_prev :: "loc \<Rightarrow> loc list \<Rightarrow> (loc \<Rightarrow> loc) \<Rightarrow> loc \<Rightarrow> loc" where
  "link_prev t [] g = g"
| "link_prev t (v # vs) g = link_prev v vs (g(t := v))"

lemma link_next_other: "x \<notin> set vs \<Longrightarrow> link_next t vs f x = f x"
  by (induction vs arbitrary: t f) auto

lemma link_prev_other: "x \<notin> set (t # vs) \<Longrightarrow> link_prev t vs g x = g x"
  by (induction vs arbitrary: t g) auto

lemma link_next_nth: "distinct vs \<Longrightarrow> i < length vs \<Longrightarrow> link_next t vs f (vs ! i) = (t # vs) ! i"
  by (induction vs arbitrary: t f i) (auto simp: nth_Cons' link_next_other)

lemma link_prev_nth: "distinct (t # vs) \<Longrightarrow> i < length vs \<Longrightarrow> link_prev t vs g ((t # vs) ! i) = vs ! i"
proof (induction vs arbitrary: t g i)
  case (Cons v vs)
  then show ?case by (cases i) (auto simp: link_prev_other)
qed simp

lemma link_next_snoc: "link_next t (vs @ [w]) f = (link_next t vs f)(w := last (t # vs))"
  by (induction vs arbitrary: t f) auto

lemma link_path:
  assumes "distinct (t # vs)"
  shows "path (link_next t vs f) (last (t # vs)) (rev vs) t"
  using assms
proof (induction vs rule: rev_induct)
  case (snoc w vs)
  have "path ((link_next t vs f)(w := last (t # vs))) (last (t # vs)) (rev vs) t
      \<longleftrightarrow> path (link_next t vs f) (last (t # vs)) (rev vs) t"
    by (rule path_cong) (use snoc.prems in auto)
  moreover have "path (link_next t vs f) (last (t # vs)) (rev vs) t" using snoc by simp
  moreover have "last (t # vs @ [w]) = w" by simp
  ultimately show ?case
    by (simp only: link_next_snoc rev.simps rev_append append.simps path.simps fun_upd_same simp_thms)
qed simp

text \<open>Closing the ring at the head.\<close>

lemma closed_ring:
  assumes "distinct (l # vs)"
  shows "ring ((link_next l vs f)(l := last (l # vs))) (l # rev vs)"
    "x \<in> set (l # vs) \<Longrightarrow>
      ((link_prev l vs g)(last (l # vs) := l)) (((link_next l vs f)(l := last (l # vs))) x) = x"
proof -
  have "path ((link_next l vs f)(l := last (l # vs))) (last (l # vs)) (rev vs) l
      \<longleftrightarrow> path (link_next l vs f) (last (l # vs)) (rev vs) l"
    by (rule path_cong) (use assms in auto)
  then show "ring ((link_next l vs f)(l := last (l # vs))) (l # rev vs)"
    using link_path [OF assms] assms by (simp add: ring_Cons)
  assume "x \<in> set (l # vs)"
  then consider "x = l" | i where "i < length vs" "x = vs ! i" by (auto simp: in_set_conv_nth)
  then show "((link_prev l vs g)(last (l # vs) := l)) (((link_next l vs f)(l := last (l # vs))) x) = x"
  proof cases
    case (2 i)
    have "x \<noteq> l" using 2 assms nth_mem by fastforce
    have n: "link_next l vs f x = (l # vs) ! i" using link_next_nth 2 assms by simp
    have "last (l # vs) = (l # vs) ! length vs" by (simp add: last_conv_nth)
    then have "(l # vs) ! i \<noteq> last (l # vs)"
      using assms 2(1) nth_eq_iff_index_eq [OF assms, of i "length vs"] by simp
    with n \<open>x \<noteq> l\<close> link_prev_nth [OF assms 2(1)] 2(2) show ?thesis by simp
  qed simp
qed

section \<open>Regions\<close>

lemma region_self [simp]: "l \<in> region d S l"
  by (simp add: region_def)

lemma region_subset: "l \<in> S \<Longrightarrow> region d S l \<subseteq> S"
proof -
  assume l: "l \<in> S"
  have "x \<in> S" if "(l, x) \<in> {(x, y). x \<in> S \<and> y \<in> S \<and> y \<in> around d x}\<^sup>*" for x
    using that
  proof (induction rule: rtrancl_induct)
    case base
    show ?case by (rule l)
  qed simp
  then show ?thesis unfolding region_def by blast
qed

lemma linked_sym:
  assumes "(x, y) \<in> {(a, c). a \<in> A \<and> c \<in> A \<and> c \<in> around d a}\<^sup>*"
  shows "(y, x) \<in> {(a, c). a \<in> A \<and> c \<in> A \<and> c \<in> around d a}\<^sup>*"
  using assms
proof (induction rule: rtrancl_induct)
  case (step y z)
  then have "(z, y) \<in> {(a, c). a \<in> A \<and> c \<in> A \<and> c \<in> around d a}" using around_sym by auto
  then show ?case using step.IH by (rule converse_rtrancl_into_rtrancl)
qed simp

lemma linked_region: "linked d (region d S l)"
proof -
  let ?R = "region d S l"
  let ?r = "{(a, c). a \<in> ?R \<and> c \<in> ?R \<and> c \<in> around d a}"
  have from_l: "(l, x) \<in> ?r\<^sup>*" if "(l, x) \<in> {(x, y). x \<in> S \<and> y \<in> S \<and> y \<in> around d x}\<^sup>*" for x
    using that
  proof (induction rule: rtrancl_induct)
    case (step y z)
    have "(l, z) \<in> {(x, y). x \<in> S \<and> y \<in> S \<and> y \<in> around d x}\<^sup>*" using step.hyps by (rule rtrancl_into_rtrancl)
    with step.hyps have "(y, z) \<in> ?r" by (simp add: region_def)
    with step.IH show ?case by (rule rtrancl_into_rtrancl)
  qed simp
  show ?thesis unfolding linked_def
  proof (intro ballI)
    fix x y assume xy: "x \<in> ?R" "y \<in> ?R"
    have "(l, x) \<in> ?r\<^sup>*" by (rule from_l) (rule xy(1) [unfolded region_def mem_Collect_eq])
    from linked_sym [OF this] have "(x, l) \<in> ?r\<^sup>*" .
    also have "(l, y) \<in> ?r\<^sup>*" by (rule from_l) (rule xy(2) [unfolded region_def mem_Collect_eq])
    finally show "(x, y) \<in> ?r\<^sup>*" .
  qed
qed

lemma region_string: "c l = q \<Longrightarrow> region d {x. c x = q} l = string_of d c l"
proof -
  assume l: "c l = q"
  have "x \<in> string_of d c l" if "(l, x) \<in> {(x, y). x \<in> {x. c x = q} \<and> y \<in> {x. c x = q} \<and> y \<in> around d x}\<^sup>*" for x
    using that
  proof (induction rule: rtrancl_induct)
    case (step y z)
    then show ?case by (auto intro: string_step)
  qed simp
  moreover have "(l, x) \<in> {(x, y). x \<in> {x. c x = q} \<and> y \<in> {x. c x = q} \<and> y \<in> around d x}\<^sup>*"
    if "x \<in> string_of d c l" for x
    using that
  proof (induction rule: string_induct)
    case (step y z)
    have "c y = q" using string_color [OF step.hyps(1)] l by simp
    with step show ?case by (auto intro: rtrancl_into_rtrancl)
  qed simp
  ultimately show ?thesis by (auto simp: region_def)
qed

section \<open>The filled region\<close>

definition filled :: "zobrist_table \<Rightarrow> loc \<Rightarrow> player \<Rightarrow> loc \<Rightarrow> loc list \<Rightarrow> goban \<Rightarrow> goban" where
  "filled zob head p t vs b = b\<lparr>
     g_board := (\<lambda>x. if x \<in> set vs then p else g_board b x),
     g_zobrist := fold (\<lambda>l z. z XOR zob p l) vs (g_zobrist b),
     group_head := (\<lambda>x. if x \<in> set vs then head else group_head b x),
     group_stone_count := (group_stone_count b)(head := group_stone_count b head + int (length vs)),
     group_next := link_next t vs (group_next b), group_prev := link_prev t vs (group_prev b),
     group_liberty_count := (\<lambda>k. group_liberty_count b k - int (card {v \<in> set vs. touches b (get_opp p) k v}))\<rparr>"

lemma filled_fields:
  "g_board (filled zob head p t vs b) = (\<lambda>x. if x \<in> set vs then p else g_board b x)"
  "g_zobrist (filled zob head p t vs b) = fold (\<lambda>l z. z XOR zob p l) vs (g_zobrist b)"
  "group_head (filled zob head p t vs b) = (\<lambda>x. if x \<in> set vs then head else group_head b x)"
  "group_stone_count (filled zob head p t vs b) =
     (group_stone_count b)(head := group_stone_count b head + int (length vs))"
  "group_next (filled zob head p t vs b) = link_next t vs (group_next b)"
  "group_prev (filled zob head p t vs b) = link_prev t vs (group_prev b)"
  "group_liberty_count (filled zob head p t vs b) =
     (\<lambda>k. group_liberty_count b k - int (card {v \<in> set vs. touches b (get_opp p) k v}))"
  "g_x_size (filled zob head p t vs b) = g_x_size b" "g_y_size (filled zob head p t vs b) = g_y_size b"
  "dy (filled zob head p t vs b) = dy b" "g_pla (filled zob head p t vs b) = g_pla b"
  "simple_ko_point (filled zob head p t vs b) = simple_ko_point b"
  "num_captures_made (filled zob head p t vs b) = num_captures_made b"
  "num_non_pass_moves_made (filled zob head p t vs b) = num_non_pass_moves_made b"
  "goban.more (filled zob head p t vs b) = goban.more b"
  by (simp_all add: filled_def dy_def)

lemma fill_one:
  assumes "heads_apart b q" "q = get_opp p" "q \<noteq> p" "g_board b l \<noteq> q" "\<And>a. g_board b a = q \<Longrightarrow> group_head b a \<noteq> head"
  shows "fill_stone zob head p t l b = filled zob head p t [l] b"
proof -
  let ?c = "b\<lparr>g_board := (g_board b)(l := p), g_zobrist := g_zobrist b XOR zob p l,
         group_head := (group_head b)(l := head),
         group_stone_count := (group_stone_count b)(head := group_stone_count b head + 1),
         group_next := (group_next b)(l := t), group_prev := (group_prev b)(t := l)\<rparr>"
  have d: "dy ?c = dy b" by (simp add: dy_def)
  have nh: "\<forall>a. g_board b a = q \<longrightarrow> group_head b a \<noteq> head" using assms(5) by blast
  have "group_liberty_count (bump_liberties (\<lambda>c. c = q) l (- 1) ?c) k = group_liberty_count ?c k
      + (if \<exists>a \<in> around (dy ?c) l. g_board ?c a = q \<and> group_head ?c a = k then - 1 else 0)" for k
    by (rule bump_liberty_count) (use assms(1,3,4) nh in \<open>auto simp: heads_apart_def\<close>)
  moreover have "(\<exists>a \<in> around (dy ?c) l. g_board ?c a = q \<and> group_head ?c a = k) \<longleftrightarrow> touches b q k l" for k
    unfolding d touches_def using assms(3,4) by auto
  moreover have "{v. v = l \<and> touches b q k v} = (if touches b q k l then {l} else {})" for k by auto
  ultimately show ?thesis unfolding fill_stone_def change_surrounding_liberties_def assms(2) [symmetric]
    by (intro goban.equality) (auto simp: filled_def fun_eq_iff assms(2) [symmetric])
qed

lemma touches_filled:
  assumes "\<forall>v \<in> set vs. g_board b v \<noteq> q" "q \<noteq> p"
  shows "touches (filled zob head p t vs b) q k x \<longleftrightarrow> touches b q k x"
  using assms by (auto simp: touches_def filled_def dy_def)

lemma filled_Cons:
  assumes "\<forall>x \<in> set (v # vs). g_board b x \<noteq> get_opp p" "get_opp p \<noteq> p" "v \<notin> set vs"
  shows "filled zob head p v vs (filled zob head p t [v] b) = filled zob head p t (v # vs) b"
proof -
  have c: "card {x \<in> set (v # vs). touches b (get_opp p) k x} =
      card {x \<in> set [v]. touches b (get_opp p) k x} + card {x \<in> set vs. touches b (get_opp p) k x}" for k
  proof -
    have "{x \<in> set (v # vs). touches b (get_opp p) k x} =
        {x \<in> set [v]. touches b (get_opp p) k x} \<union> {x \<in> set vs. touches b (get_opp p) k x}" by auto
    moreover have "card ({x \<in> set [v]. touches b (get_opp p) k x} \<union> {x \<in> set vs. touches b (get_opp p) k x}) =
        card {x \<in> set [v]. touches b (get_opp p) k x} + card {x \<in> set vs. touches b (get_opp p) k x}"
      by (rule card_Un_disjoint) (use assms(3) in auto)
    ultimately show ?thesis by simp
  qed
  have t: "touches (filled zob head p t [v] b) (get_opp p) k x \<longleftrightarrow> touches b (get_opp p) k x" for k x
    by (rule touches_filled) (use assms in auto)
  show ?thesis
    by (intro goban.equality) (simp_all only: filled_fields t c fold_simps link_next.simps link_prev.simps,
      auto simp: fun_eq_iff)
qed

lemma visit_fill:
  assumes "distinct vs" "\<forall>v \<in> set vs. g_board b v \<noteq> get_opp p" "get_opp p \<noteq> p" "heads_apart b (get_opp p)"
    "\<And>a. g_board b a = get_opp p \<Longrightarrow> group_head b a \<noteq> head" "head \<noteq> 0"
  shows "visit (fill_stone zob head p) t vs b = filled zob head p t vs b"
  using assms
proof (induction vs arbitrary: t b)
  case Nil
  show ?case by (intro goban.equality) (simp_all add: filled_def)
next
  case (Cons v vs)
  let ?b = "filled zob head p t [v] b"
  have one: "fill_stone zob head p t v b = ?b"
    by (rule fill_one [OF Cons.prems(4) refl Cons.prems(3)]) (use Cons.prems in auto)
  have "visit (fill_stone zob head p) v vs ?b = filled zob head p v vs ?b"
  proof (rule Cons.IH)
    show "heads_apart ?b (get_opp p)" using Cons.prems by (auto simp: heads_apart_def filled_def)
    show "\<forall>x \<in> set vs. g_board ?b x \<noteq> get_opp p" using Cons.prems(2,3) by (auto simp: filled_def)
    show "\<And>a. g_board ?b a = get_opp p \<Longrightarrow> group_head ?b a \<noteq> head"
      using Cons.prems(3,5) by (auto simp: filled_def split: if_splits)
  qed (use Cons.prems in auto)
  also have "\<dots> = filled zob head p t (v # vs) b"
    by (rule filled_Cons) (use Cons.prems in auto)
  finally show ?case by (simp add: one)
qed

section \<open>The new chain\<close>

lemma fill_search: "p \<noteq> EMPTY \<Longrightarrow> flood_search (\<lambda>b x. g_board b x = EMPTY) (fill_stone zob head p)"
  by unfold_locales (auto simp: fill_stone_def change_surrounding_liberties_def dy_def)

text \<open>The board after the flood has filled \<open>l # vs\<close>.\<close>

definition refilled :: "zobrist_table \<Rightarrow> player \<Rightarrow> loc \<Rightarrow> loc list \<Rightarrow> goban \<Rightarrow> goban" where
  "refilled zob p l vs b = close_ring l (last (l # vs)) (filled zob l p l (l # vs) (reset_head l b))"

lemma refilled_fields:
  "g_board (refilled zob p l vs b) = (\<lambda>x. if x \<in> set (l # vs) then p else g_board b x)"
  "group_head (refilled zob p l vs b) = (\<lambda>x. if x \<in> set (l # vs) then l else group_head b x)"
  "group_next (refilled zob p l vs b) = (link_next l vs ((group_next b)(l := l)))(l := last (l # vs))"
  "group_prev (refilled zob p l vs b) = (link_prev l vs ((group_prev b)(l := l)))(last (l # vs) := l)"
  "group_stone_count (refilled zob p l vs b) = (group_stone_count b)(l := int (length (l # vs)))"
  "group_liberty_count (refilled zob p l vs b) k = (if k = l then 0 else group_liberty_count b k)
     - int (card {v \<in> set (l # vs). touches b (get_opp p) k v})"
  "dy (refilled zob p l vs b) = dy b" "same_game b (refilled zob p l vs b)"
  "simple_ko_point (refilled zob p l vs b) = simple_ko_point b"
  by (auto simp: refilled_def close_ring_def reset_head_def filled_def dy_def same_game_def touches_def fun_eq_iff)

lemma refilled_links:
  assumes "distinct (l # vs)"
  shows "ring (group_next (refilled zob p l vs b)) (l # rev vs)"
    "x \<in> set (l # vs) \<Longrightarrow> group_prev (refilled zob p l vs b) (group_next (refilled zob p l vs b) x) = x"
    "x \<notin> set (l # vs) \<Longrightarrow> group_next (refilled zob p l vs b) x = group_next b x"
    "x \<notin> set (l # vs) \<Longrightarrow> group_prev (refilled zob p l vs b) x = group_prev b x"
proof -
  show "ring (group_next (refilled zob p l vs b)) (l # rev vs)"
    unfolding refilled_fields by (rule closed_ring(1) [OF assms])
  show "group_prev (refilled zob p l vs b) (group_next (refilled zob p l vs b) x) = x" if "x \<in> set (l # vs)"
    unfolding refilled_fields by (rule closed_ring(2) [OF assms that])
  have "last (l # vs) \<in> set (l # vs)" by (rule last_in_set) simp
  then show "group_next (refilled zob p l vs b) x = group_next b x" "group_prev (refilled zob p l vs b) x = group_prev b x"
    if "x \<notin> set (l # vs)"
    using that link_next_other [of x vs] link_prev_other [of x l vs] unfolding refilled_fields by auto
qed

text \<open>What a flood relies on: an empty region that no stone of the colour borders.\<close>

definition refill :: "goban \<Rightarrow> player \<Rightarrow> loc \<Rightarrow> loc list \<Rightarrow> bool" where
  "refill b p l vs \<longleftrightarrow> chains_ok b \<and> maximal b \<and> (p = BLACK \<or> p = WHITE) \<and> distinct (l # vs)
     \<and> (\<forall>x \<in> set (l # vs). g_board b x = EMPTY)
     \<and> (\<forall>x \<in> set (l # vs). \<forall>y \<in> around (dy b) x. g_board b y = EMPTY \<longrightarrow> y \<in> set (l # vs))
     \<and> linked (dy b) (set (l # vs))
     \<and> (\<forall>x \<in> set (l # vs). \<forall>y \<in> around (dy b) x. g_board b y \<noteq> p)"

lemma refill_facts:
  assumes "refill b p l vs"
  shows "chains_ok b" "maximal b" "p = BLACK \<or> p = WHITE" "distinct (l # vs)"
    "\<And>x. x \<in> set (l # vs) \<Longrightarrow> g_board b x = EMPTY"
    "\<And>x y. x \<in> set (l # vs) \<Longrightarrow> y \<in> around (dy b) x \<Longrightarrow> g_board b y = EMPTY \<Longrightarrow> y \<in> set (l # vs)"
    "linked (dy b) (set (l # vs))"
    "\<And>x y. x \<in> set (l # vs) \<Longrightarrow> y \<in> around (dy b) x \<Longrightarrow> g_board b y \<noteq> p"
  using assms unfolding refill_def by blast+

lemma refill_stones:
  assumes "refill b p l vs"
  shows "is_stone (refilled zob p l vs b) x \<longleftrightarrow> x \<in> set (l # vs) \<or> is_stone b x"
    "x \<in> set (l # vs) \<Longrightarrow> \<not> is_stone b x" "is_stone b x \<Longrightarrow> group_head b x \<noteq> l"
proof -
  note f = refill_facts [OF assms]
  show "is_stone (refilled zob p l vs b) x \<longleftrightarrow> x \<in> set (l # vs) \<or> is_stone b x"
    using f(3) by (auto simp: is_stone_def refilled_fields)
  show no: "\<not> is_stone b x" if "x \<in> set (l # vs)" for x using f(5) [OF that] stone_not_wall by blast
  show "group_head b x \<noteq> l" if "is_stone b x" using head_facts(1) [OF f(1) that] no [of l] by auto
qed

lemma refill_groups:
  assumes "refill b p l vs"
  shows "grp (refilled zob p l vs b) l = set (l # vs)" "k \<noteq> l \<Longrightarrow> grp (refilled zob p l vs b) k = grp b k"
proof -
  note st = refill_stones [OF assms]
  have m: "x \<in> grp (refilled zob p l vs b) k \<longleftrightarrow> x \<in> set (l # vs) \<and> k = l \<or> x \<notin> set (l # vs) \<and> x \<in> grp b k" for x k
    unfolding grp_def mem_Collect_eq st(1) refilled_fields(2) by (cases "x \<in> set (l # vs)") auto
  have "x \<notin> grp b l" for x using st(3) [of x] by (auto simp: grp_def)
  with m show "grp (refilled zob p l vs b) l = set (l # vs)" by blast
  have "x \<notin> set (l # vs)" if "x \<in> grp b k" for x using that st(2) by (auto simp: grp_def)
  with m show "grp (refilled zob p l vs b) k = grp b k" if "k \<noteq> l" using that by blast
qed

lemma refill_new_chain:
  assumes "refill b p l vs"
  shows "chain_ok (refilled zob p l vs b) l"
proof (rule chain_okI [where xs = "l # rev vs", OF refill_groups(1) [OF assms]])
  note f = refill_facts [OF assms]
  show "group_liberty_count (refilled zob p l vs b) l = int (card (lib_set (refilled zob p l vs b) (set (l # vs))))"
  proof -
    have "e \<notin> lib_set (refilled zob p l vs b) (set (l # vs))" for e
      using f(6) [of _ e] f(3) unfolding lib_set_def mem_Collect_eq refilled_fields(1,7) by (auto simp: colors)
    then have "lib_set (refilled zob p l vs b) (set (l # vs)) = {}" by blast
    moreover have "\<not> touches b (get_opp p) l v" for v
      using refill_stones(3) [OF assms] opp_facts(4) [OF f(3)] unfolding touches_def is_stone_def by metis
    ultimately show ?thesis unfolding refilled_fields(6) by simp
  qed
  show "group_stone_count (refilled zob p l vs b) l = int (card (set (l # vs)))"
    unfolding distinct_card [OF f(4)] refilled_fields by simp
  show "linked (dy (refilled zob p l vs b)) (set (l # vs))" unfolding refilled_fields by (rule f(7))
qed (use refilled_links [OF refill_facts(4) [OF assms]] in \<open>simp_all add: refilled_fields(1)\<close>)

lemma refill_old_chain:
  assumes "refill b p l vs" "is_stone b x" "k = group_head b x"
  shows "chain_ok (refilled zob p l vs b) k"
proof -
  let ?b = "refilled zob p l vs b" and ?q = "get_opp p"
  note f = refill_facts [OF assms(1)] and st = refill_stones [OF assms(1)]
  have c: "chain_ok b k" using f(1) assms(2,3) by (auto simp: chains_ok_def)
  have kl: "k \<noteq> l" using st(3) assms(2,3) by simp
  have g: "geometry b" using f(1) by (simp add: chains_ok_def)
  have out: "y \<notin> set (l # vs)" if "y \<in> grp b k" for y using that st(2) by (auto simp: grp_def)
  have lib: "lib_set ?b (grp b k) = lib_set b (grp b k) - set (l # vs)"
    using f(3) by (auto simp: lib_set_def refilled_fields colors)
  have t: "lib_set b (grp b k) \<inter> set (l # vs) = {v \<in> set (l # vs). touches b ?q k v}"
  proof (intro set_eqI iffI)
    fix v assume v: "v \<in> lib_set b (grp b k) \<inter> set (l # vs)"
    then obtain a where a: "a \<in> grp b k" "a \<in> around (dy b) v" by (auto simp: lib_set_def around_sym)
    have "g_board b a \<noteq> p" using f(8) a(2) v by blast
    then have "g_board b a = ?q" using a(1) f(3) by (auto simp: grp_def is_stone_def get_opp_def colors)
    with a v show "v \<in> {v \<in> set (l # vs). touches b ?q k v}" by (auto simp: touches_def grp_def)
  next
    fix v assume "v \<in> {v \<in> set (l # vs). touches b ?q k v}"
    then obtain a where a: "v \<in> set (l # vs)" "a \<in> around (dy b) v" "g_board b a = ?q" "group_head b a = k"
      by (auto simp: touches_def)
    then have "a \<in> grp b k" using opp_facts(4) [OF f(3)] by (auto simp: grp_def is_stone_def)
    with a f(5) around_sym show "v \<in> lib_set b (grp b k) \<inter> set (l # vs)" by (fastforce simp: lib_set_def)
  qed
  have "card (lib_set b (grp b k) - set (l # vs)) = card (lib_set b (grp b k)) - card (lib_set b (grp b k) \<inter> set (l # vs))"
    by (rule card_Diff_subset_Int) simp
  moreover have "card (lib_set b (grp b k) \<inter> set (l # vs)) \<le> card (lib_set b (grp b k))"
    by (rule card_mono [OF finite_lib_set [OF g]]) simp
  ultimately have "group_liberty_count ?b k = int (card (lib_set ?b (grp b k)))"
    using c kl unfolding refilled_fields(6) lib t chain_ok_def by (simp add: of_nat_diff)
  then show ?thesis
    by (intro chain_ok_transfer [OF c refill_groups(2) [OF assms(1) kl]])
      (use out refilled_links(3,4) [OF f(4)] kl in \<open>auto simp: refilled_fields(1,5,7)\<close>)
qed

lemma refilled_ok:
  assumes "refill b p l vs"
  shows "chains_ok (refilled zob p l vs b)" "maximal (refilled zob p l vs b)"
proof -
  note f = refill_facts [OF assms] and st = refill_stones(1) [OF assms, of zob]
  let ?b = "refilled zob p l vs b"
  have g: "geometry b" using f(1) by (simp add: chains_ok_def)
  have hd: "group_head ?b x = (if x \<in> set (l # vs) then l else group_head b x)" for x by (simp add: refilled_fields(2))
  have "chain_ok ?b (group_head ?b x)" if "is_stone ?b x" for x
    unfolding hd using that refill_new_chain [OF assms] refill_old_chain [OF assms _ refl, of x] unfolding st by auto
  moreover have "group_head ?b x \<le> 0" if "\<not> is_stone ?b x" for x
    using that f(1) unfolding st hd by (auto simp: chains_ok_def)
  moreover have "geometry ?b"
  proof -
    have "{x. g_board ?b x \<noteq> WALL} = {x. g_board b x \<noteq> WALL}"
      using f(3,5) by (auto simp: refilled_fields(1) colors)
    then show ?thesis using g f(3) unfolding geometry_def refilled_fields(7) by (auto simp: refilled_fields(1))
  qed
  ultimately show "chains_ok ?b" by (simp add: chains_ok_def)
  show "maximal ?b" unfolding maximal_def
  proof (intro allI impI)
    fix x y assume a: "is_stone ?b x" "y \<in> around (dy ?b) x" "g_board ?b y = g_board ?b x"
    then have a': "y \<in> around (dy b) x" "x \<in> around (dy b) y" using around_sym by (auto simp: refilled_fields(7))
    show "group_head ?b y = group_head ?b x"
    proof (cases "x \<in> set (l # vs) \<longleftrightarrow> y \<in> set (l # vs)")
      case True
      then show ?thesis using a a' f(2) unfolding st hd by (auto simp: refilled_fields(1) maximal_def)
    next
      case False
      then have "g_board b x = p \<and> y \<in> set (l # vs) \<or> g_board b y = p \<and> x \<in> set (l # vs)"
        using a(3) unfolding refilled_fields(1) by (metis (full_types))
      then show ?thesis using f(8) a' by blast
    qed
  qed
qed

section \<open>The flood\<close>

lemma heads_apart_color:
  assumes "chains_ok b" "q = BLACK \<or> q = WHITE"
  shows "heads_apart b q"
  unfolding heads_apart_def
proof (intro allI impI conjI)
  fix a assume a: "g_board b a = q"
  then have st: "is_stone b a" using assms(2) by (auto simp: is_stone_def)
  show "group_head b a \<noteq> 0" using head_facts(4) [OF assms(1) st] by simp
  show "group_head b a \<noteq> group_head b c" if "g_board b c \<noteq> q" for c
    using same_chain(2) [OF assms(1) st, of c] that a by auto
qed

lemma reset_head_fields [simp]:
  "g_board (reset_head h b) = g_board b" "group_head (reset_head h b) = group_head b" "dy (reset_head h b) = dy b"
  "group_next (reset_head h b) = group_next b" "group_prev (reset_head h b) = group_prev b"
  by (simp_all add: reset_head_def dy_def)

lemma flood_fill_ok:
  assumes "chains_ok b" "maximal b" "g_board b l = EMPTY" "p = BLACK \<or> p = WHITE"
    "\<And>x y. x \<in> string_of (dy b) (g_board b) l \<Longrightarrow> y \<in> around (dy b) x \<Longrightarrow> g_board b y \<noteq> p"
  obtains vs where "floodFillStones zob p l b = Some (refilled zob p l vs b)" "refill b p l vs"
    "set (l # vs) = string_of (dy b) (g_board b) l"
proof -
  let ?c = "reset_head l b" and ?q = "get_opp p"
  note q = opp_facts [OF assms(4)]
  have g: "geometry b" using assms(1) by (simp add: chains_ok_def)
  have "g_board b l \<noteq> WALL" using assms(3) by (simp add: colors)
  then have "0 < l" using g unfolding geometry_def by blast
  then have l: "\<not> is_stone b l" "l \<noteq> 0" using assms(3) by (auto simp: is_stone_def colors)
  have S: "region (dy b) {x. g_board b x = EMPTY} l = string_of (dy b) (g_board b) l"
    by (rule region_string) (rule assms(3))
  have fin: "finite {x. g_board ?c x = EMPTY}"
    by (rule finite_subset [of _ "{x. g_board b x \<noteq> WALL}"]) (use g in \<open>auto simp: geometry_def colors\<close>)
  have op: "g_board ?c l = EMPTY" using assms(3) by simp
  obtain vs where vs: "flood (\<lambda>b x. g_board b x = EMPTY) (fill_stone zob l p) l l ?c =
      Some (visit (fill_stone zob l p) l (l # vs) ?c, last (l # vs))"
    "distinct (l # vs)" "set (l # vs) = region (dy ?c) {x. g_board ?c x = EMPTY} l"
    "\<forall>v \<in> set (l # vs). \<forall>y \<in> around (dy ?c) v. g_board ?c y = EMPTY \<longrightarrow> y \<in> set (l # vs)"
    using flood_search.flood_region [OF fill_search [OF q(3), of zob l] fin op, of l] by (elim exE conjE)
  have R: "set (l # vs) = string_of (dy b) (g_board b) l" using vs(3) S by simp
  have E: "g_board b x = EMPTY" if "x \<in> set (l # vs)" for x using that string_color assms(3) unfolding R by metis
  have h: "heads_apart ?c ?q" using heads_apart_color [OF assms(1) q(4)] by (simp add: heads_apart_def)
  have nh: "group_head b a \<noteq> l" if "g_board b a = ?q" for a
    using head_facts(1) [OF assms(1), of a] that q(4) l(1) by (auto simp: is_stone_def)
  have "visit (fill_stone zob l p) l (l # vs) ?c = filled zob l p l (l # vs) ?c"
    by (rule visit_fill [OF vs(2) _ q(1) h]) (use E q(2) nh l(2) in auto)
  then have "floodFillStones zob p l b = Some (refilled zob p l vs b)"
    using vs(1) by (simp add: floodFillStones_def floodFillStonesHelper_def refilled_def)
  moreover have "refill b p l vs"
    unfolding refill_def
  proof (intro conjI ballI impI)
    show "linked (dy b) (set (l # vs))" unfolding R S [symmetric] by (rule linked_region)
    show "y \<in> set (l # vs)" if "x \<in> set (l # vs)" "y \<in> around (dy b) x" "g_board b y = EMPTY" for x y
      using vs(4) that unfolding reset_head_fields by blast
    show "g_board b y \<noteq> p" if "x \<in> set (l # vs)" "y \<in> around (dy b) x" for x y
      using assms(5) that unfolding R by blast
  qed (rule assms vs(2) E, assumption?)+
  ultimately show ?thesis using R by (rule that)
qed

end
