(* ===== verification/Board_Rebuild.thy ===== *)
theory Board_Rebuild
  imports Board_Refill
begin

text \<open>
  Taking back the stone of the last move: the chain it was part of is dissolved and its remaining
  parts are linked again, one \<open>rebuildChain\<close> for each.
\<close>

section \<open>The second half of \<open>undo\<close>\<close>

partial_function (option) orphan_walk :: "loc \<Rightarrow> loc \<Rightarrow> goban \<Rightarrow> goban option" where
  "orphan_walk start l b =
    (let b1 = set_head l PASS_LOC b; n = group_next b1 l
     in if n = start then Some b1 else orphan_walk start n b1)"

declare orphan_walk.simps [code]

fun rebuild_around :: "player \<Rightarrow> loc list \<Rightarrow> goban \<Rightarrow> goban option" where
  "rebuild_around p [] b = Some b"
| "rebuild_around p (a # as) b = do {
     b1 \<leftarrow> (if g_board b a = p \<and> group_head b a = PASS_LOC then rebuildChain p a b else Some b);
     rebuild_around p as b1 }"

definition take_back :: "zobrist_table \<Rightarrow> player \<Rightarrow> loc \<Rightarrow> goban \<Rightarrow> goban option" where
  "take_back zob p l b =
    (let b1 = b\<lparr>g_zobrist := g_zobrist b XOR zob p l, g_board := (g_board b)(l := EMPTY)\<rparr>;
         h = group_head b1 l; n = group_stone_count b1 h;
         b2 = b1\<lparr>group_stone_count := (group_stone_count b1)(h := 0), group_liberty_count := (group_liberty_count b1)(h := 0)\<rparr>;
         b3 = change_surrounding_liberties l (get_opp p) 1 b2
     in do {
       b4 \<leftarrow> (if n > 1 then do { e \<leftarrow> orphan_walk l l b3; rebuild_around p (nbrs e l) e } else Some b3);
       Some (b4\<lparr>group_head := (group_head b4)(l := 0), group_next := (group_next b4)(l := 0),
         group_prev := (group_prev b4)(l := 0)\<rparr>) })"

lemma orphan_walk_ring:
  assumes "path (group_next b) (group_next b l) ys start" "start \<notin> set ys"
  shows "orphan_walk start l b = Some (b\<lparr>group_head := (\<lambda>x. if x \<in> set (l # ys) then 0 else group_head b x)\<rparr>)"
  using assms
proof (induction ys arbitrary: l b)
  case Nil
  then show ?case by (subst orphan_walk.simps) (auto simp: Let_def set_head_def PASS_LOC_def fun_eq_iff)
next
  case (Cons y ys)
  let ?b = "set_head l PASS_LOC b"
  have "orphan_walk start y ?b = Some (?b\<lparr>group_head := (\<lambda>x. if x \<in> set (y # ys) then 0 else group_head ?b x)\<rparr>)"
    by (rule Cons.IH) (use Cons.prems in auto)
  then show ?case using Cons.prems
    by (subst orphan_walk.simps) (auto simp: Let_def set_head_def PASS_LOC_def fun_eq_iff)
qed

section \<open>Linking a string again\<close>

definition relinked :: "loc \<Rightarrow> loc \<Rightarrow> loc list \<Rightarrow> goban \<Rightarrow> goban" where
  "relinked head t vs b = b\<lparr>
     group_head := (\<lambda>x. if x \<in> set vs then head else group_head b x),
     group_stone_count := (group_stone_count b)(head := group_stone_count b head + int (length vs)),
     group_liberty_count := (group_liberty_count b)
       (head := group_liberty_count b head + int (card (fresh_liberties b head (set vs)))),
     group_next := link_next t vs (group_next b), group_prev := link_prev t vs (group_prev b)\<rparr>"

lemma fresh_cong:
  assumes "g_board c = g_board b" "group_head c = group_head b" "dy c = dy b"
  shows "fresh_liberties c h A = fresh_liberties b h A"
  using assms by (simp add: fresh_liberties_def lib_set_def is_group_adjacent_iff)

lemma visit_rebuild:
  assumes "2 \<le> dy b"
  shows "visit (rebuild_stone head) t vs b = relinked head t vs b"
  using assms
proof (induction vs arbitrary: t b)
  case Nil
  have "fresh_liberties b head {} = {}" by (auto simp: fresh_liberties_def lib_set_def)
  then show ?case by (intro goban.equality) (simp_all add: relinked_def)
next
  case (Cons v vs)
  let ?b = "rebuild_stone head t v b"
  have f: "group_head ?b = (group_head b)(v := head)" "g_board ?b = g_board b" "dy ?b = dy b"
    "group_stone_count ?b = (group_stone_count b)(head := group_stone_count b head + 1)"
    "group_liberty_count ?b = (group_liberty_count b)(head := group_liberty_count b head + int (card (fresh_liberties b head {v})))"
    "group_next ?b = (group_next b)(v := t)" "group_prev ?b = (group_prev b)(t := v)"
    by (simp_all add: rebuild_stone_def add_liberties_def Let_def dy_def new_liberties_card [OF Cons.prems])
  have s: "fresh_liberties ?b head (set vs) = fresh_liberties (set_head v head b) head (set vs)"
    by (rule fresh_cong) (simp_all add: f)
  have "card (fresh_liberties b head (insert v (set vs))) =
      card (fresh_liberties b head {v}) + card (fresh_liberties ?b head (set vs))"
    unfolding s fresh_step(1) [of b head v "set vs"]
    by (rule card_Un_disjoint [OF _ _ fresh_step(2)]) (auto simp: fresh_liberties_def finite_lib_set_of)
  then have "relinked head v vs ?b = relinked head t (v # vs) b"
    by (intro goban.equality)
      (auto simp: relinked_def f fun_eq_iff rebuild_stone_def add_liberties_def Let_def new_liberties_card [OF Cons.prems])
  then show ?case using Cons.IH [of ?b v] Cons.prems by (simp add: f(3))
qed

interpretation rebuild: flood_search "\<lambda>b x. g_board b x = p \<and> group_head b x \<noteq> head" "rebuild_stone head" for p head
  by unfold_locales (auto simp: rebuild_stone_def add_liberties_def Let_def dy_def)

text \<open>A board on which the stones of \<open>U\<close> belong to no chain; \<open>U\<close> is a union of strings.\<close>

definition partly_ok :: "goban \<Rightarrow> loc set \<Rightarrow> bool" where
  "partly_ok b U \<longleftrightarrow> geometry b \<and> (\<forall>x \<in> U. is_stone b x \<and> group_head b x = 0)
     \<and> (\<forall>x. \<not> is_stone b x \<longrightarrow> group_head b x \<le> 0)
     \<and> (\<forall>x. is_stone b x \<and> x \<notin> U \<longrightarrow> chain_ok b (group_head b x))
     \<and> (\<forall>x y. is_stone b x \<longrightarrow> y \<in> around (dy b) x \<longrightarrow> g_board b y = g_board b x \<longrightarrow>
          (x \<in> U \<longleftrightarrow> y \<in> U) \<and> group_head b y = group_head b x)"

lemma partly_ok_done: "partly_ok b {} \<longleftrightarrow> chains_ok b \<and> maximal b"
  by (auto simp: partly_ok_def chains_ok_def maximal_def)

definition rechained :: "loc \<Rightarrow> loc list \<Rightarrow> goban \<Rightarrow> goban" where
  "rechained a vs b = close_ring a (last (a # vs)) (relinked a a (a # vs) (reset_head a b))"

lemma rechained_fields:
  "g_board (rechained a vs b) = g_board b" "dy (rechained a vs b) = dy b" "same_position b (rechained a vs b)"
  "group_head (rechained a vs b) = (\<lambda>x. if x \<in> set (a # vs) then a else group_head b x)"
  "group_next (rechained a vs b) = (link_next a vs ((group_next b)(a := a)))(a := last (a # vs))"
  "group_prev (rechained a vs b) = (link_prev a vs ((group_prev b)(a := a)))(last (a # vs) := a)"
  "group_stone_count (rechained a vs b) = (group_stone_count b)(a := int (length (a # vs)))"
  "group_liberty_count (rechained a vs b) =
     (group_liberty_count b)(a := int (card (fresh_liberties b a (set (a # vs)))))"
  "simple_ko_point (rechained a vs b) = simple_ko_point b"
  using fresh_cong [of "reset_head a b" b a "set (a # vs)"]
  by (auto simp: rechained_def close_ring_def relinked_def reset_head_def dy_def same_position_def fun_eq_iff)

lemma partly_facts:
  assumes "partly_ok b U"
  shows "geometry b" "\<And>x. x \<in> U \<Longrightarrow> is_stone b x" "\<And>x. x \<in> U \<Longrightarrow> group_head b x = 0"
    "\<And>x. \<not> is_stone b x \<Longrightarrow> group_head b x \<le> 0" "\<And>x. is_stone b x \<Longrightarrow> x \<notin> U \<Longrightarrow> chain_ok b (group_head b x)"
    "\<And>x y. is_stone b x \<Longrightarrow> y \<in> around (dy b) x \<Longrightarrow> g_board b y = g_board b x \<Longrightarrow> x \<in> U \<longleftrightarrow> y \<in> U"
    "\<And>x y. is_stone b x \<Longrightarrow> y \<in> around (dy b) x \<Longrightarrow> g_board b y = g_board b x \<Longrightarrow> group_head b y = group_head b x"
  using assms unfolding partly_ok_def by blast+

lemma partly_head:
  assumes "partly_ok b U" "is_stone b x" "x \<notin> U"
  shows "is_stone b (group_head b x)" "group_head b x \<notin> U" "0 < group_head b x"
proof -
  note f = partly_facts [OF assms(1)]
  have h: "group_head b x \<in> grp b (group_head b x)" using f(5) [OF assms(2,3)] by (simp add: chain_ok_def)
  then show st: "is_stone b (group_head b x)" by (simp add: grp_def)
  show pos: "0 < group_head b x" by (rule stone_pos [OF f(1) st])
  show "group_head b x \<notin> U" using h f(3) pos by (auto simp: grp_def)
qed

lemma partly_not_head:
  assumes "partly_ok b U" "a \<in> U"
  shows "group_head b x \<noteq> a"
proof -
  have "0 < a" using stone_pos partly_facts(1,2) [OF assms(1)] assms(2) by blast
  then show ?thesis using partly_head(2) [OF assms(1), of x] partly_facts(3,4) [OF assms(1), of x] assms(2)
    by (cases "is_stone b x"; cases "x \<in> U") auto
qed

lemma partly_string:
  assumes "partly_ok b U" "a \<in> U"
  shows "string_of (dy b) (g_board b) a \<subseteq> U"
proof
  fix x assume "x \<in> string_of (dy b) (g_board b) a"
  then show "x \<in> U"
  proof (induction rule: string_induct)
    case self
    then show ?case by (rule assms(2))
  next
    case (step y z)
    then show ?case using partly_facts(2,6) [OF assms(1)] by metis
  qed
qed

lemma rechained_ok:
  assumes "partly_ok b U" "a \<in> U" "distinct (a # vs)" "set (a # vs) = string_of (dy b) (g_board b) a"
  shows "partly_ok (rechained a vs b) (U - set (a # vs))"
proof -
  let ?b = "rechained a vs b" and ?R = "set (a # vs)"
  note f = partly_facts [OF assms(1)] and r = rechained_fields [where a = a and vs = vs and b = b]
  have st: "is_stone ?b x = is_stone b x" for x by (simp add: is_stone_def r(1))
  have RU: "?R \<subseteq> U" unfolding assms(4) by (rule partly_string [OF assms(1,2)])
  have libs: "lib_set ?b A = lib_set b A" for A by (simp add: lib_set_def r(1,2))
  have lastR: "last (a # vs) \<in> ?R" by (rule last_in_set) simp
  have gA: "grp ?b a = ?R" using partly_not_head [OF assms(1,2)] f(2) RU by (auto simp: grp_def st r(4))
  have gk: "grp ?b k = grp b k" if "0 < k" "k \<noteq> a" for k
    using f(3) RU that unfolding grp_def st r(4) by fastforce
  have new: "chain_ok ?b a"
  proof (rule chain_okI [where xs = "a # rev vs", OF gA])
    show "ring (group_next ?b) (a # rev vs)" unfolding r(5) by (rule closed_ring(1) [OF assms(3)])
    show "group_prev ?b (group_next ?b l) = l" if "l \<in> ?R" for l
      unfolding r(5,6) by (rule closed_ring(2) [OF assms(3) that])
    show "group_stone_count ?b a = int (card ?R)" unfolding distinct_card [OF assms(3)] r(7) by simp
    have "fresh_liberties b a ?R = lib_set b ?R"
      using partly_not_head [OF assms(1,2)] by (auto simp: fresh_liberties_def is_group_adjacent_iff)
    then show "group_liberty_count ?b a = int (card (lib_set ?b ?R))" unfolding libs r(8) by simp
    have "linked (dy b) ?R" unfolding assms(4) region_string [of "g_board b" a, OF refl, symmetric] by (rule linked_region)
    then show "linked (dy ?b) ?R" unfolding r(2) .
    show "g_board ?b l = g_board ?b a" if "l \<in> ?R" for l using that string_color unfolding assms(4) r(1) by metis
  qed simp_all
  have old: "chain_ok ?b k" if x: "is_stone b x" "x \<notin> U" "k = group_head b x" for x k
  proof -
    have c: "chain_ok b k" and k: "0 < k" "k \<noteq> a" "k \<notin> U"
      using f(5) [OF x(1,2)] partly_head [OF assms(1) x(1,2)] assms(2) x(3) by auto
    have out: "y \<notin> ?R" if "y \<in> grp b k" for y using that f(3) [of y] RU k(1) by (auto simp: grp_def)
    show ?thesis
    proof (rule chain_ok_transfer [OF c gk [OF k(1,2)] r(2)])
      show "g_board ?b y = g_board b y \<and> group_next ?b y = group_next b y \<and> group_prev ?b y = group_prev b y"
        if "y \<in> grp b k" for y
        using out [OF that] lastR link_next_other [of y vs] link_prev_other [of y a vs] unfolding r(1,5,6) by auto
      show "group_liberty_count ?b k = int (card (lib_set ?b (grp b k)))"
        using c k(2) unfolding libs r(8) by (simp add: chain_ok_def)
      show "group_stone_count ?b k = group_stone_count b k" using k(2) unfolding r(7) by simp
    qed
  qed
  have hd: "group_head ?b x = (if x \<in> ?R then a else group_head b x)" for x by (simp add: r(4))
  have closed: "x \<in> ?R \<longleftrightarrow> y \<in> ?R" if "y \<in> around (dy b) x" "g_board b y = g_board b x" for x y
    using that string_step around_sym unfolding assms(4) by metis
  show ?thesis unfolding partly_ok_def st r(1,2)
  proof (intro conjI ballI allI impI)
    show "geometry ?b" using f(1) by (simp add: geometry_def r(1,2))
    show "is_stone b x" "group_head ?b x = 0" if "x \<in> U - ?R" for x using that f(2,3) by (auto simp: hd)
    show "group_head ?b x \<le> 0" if "\<not> is_stone b x" for x using that f(2,4) RU by (auto simp: hd)
    show "chain_ok ?b (group_head ?b x)" if "is_stone b x \<and> x \<notin> U - ?R" for x
      using that new old [of x] by (auto simp: hd)
    show "x \<in> U - ?R \<longleftrightarrow> y \<in> U - ?R" "group_head ?b y = group_head ?b x"
      if "is_stone b x" "y \<in> around (dy b) x" "g_board b y = g_board b x" for x y
      using f(6,7) [OF that] closed [OF that(2,3)] by (auto simp: hd)
  qed
qed

lemma rebuildChain_ok:
  assumes "partly_ok b U" "a \<in> U" "g_board b a = p"
  obtains vs where "rebuildChain p a b = Some (rechained a vs b)" "distinct (a # vs)"
    "set (a # vs) = string_of (dy b) (g_board b) a"
proof -
  let ?c = "reset_head a b"
  note f = partly_facts [OF assms(1)]
  have all: "{x. g_board ?c x = p \<and> group_head ?c x \<noteq> a} = {x. g_board b x = p}"
    using partly_not_head [OF assms(1,2)] by auto
  have "p \<noteq> WALL" using stone_not_wall f(2) assms(2,3) by blast
  have fin: "finite {x. g_board ?c x = p \<and> group_head ?c x \<noteq> a}"
    unfolding all by (rule finite_subset [of _ "{x. g_board b x \<noteq> WALL}"]) (use f(1) \<open>p \<noteq> WALL\<close> in \<open>auto simp: geometry_def\<close>)
  have op: "g_board ?c a = p \<and> group_head ?c a \<noteq> a" using assms(3) partly_not_head [OF assms(1,2)] by simp
  obtain vs where vs: "flood (\<lambda>b x. g_board b x = p \<and> group_head b x \<noteq> a) (rebuild_stone a) a a ?c =
      Some (visit (rebuild_stone a) a (a # vs) ?c, last (a # vs))" "distinct (a # vs)"
    "set (a # vs) = region (dy ?c) {x. g_board ?c x = p \<and> group_head ?c x \<noteq> a} a"
    using rebuild.flood_region [OF fin op, of a] by (elim exE conjE)
  have "2 \<le> dy ?c" using f(1) by (simp add: geometry_def)
  then have "rebuildChain p a b = Some (rechained a vs b)"
    using vs(1) visit_rebuild [of ?c a a "a # vs"]
    by (simp add: rebuildChain_def rebuildChainHelper_def rechained_def)
  moreover have "set (a # vs) = string_of (dy b) (g_board b) a"
    unfolding vs(3) all using region_string [of "g_board b" a p "dy b"] assms(3) by simp
  ultimately show ?thesis using that vs(2) by blast
qed

lemma rebuild_around_ok:
  assumes "partly_ok b U" "\<And>x. x \<in> U \<Longrightarrow> g_board b x = p" "p = BLACK \<or> p = WHITE"
  shows "\<exists>c. rebuild_around p as b = Some c \<and> same_position b c \<and> simple_ko_point c = simple_ko_point b
    \<and> partly_ok c {x \<in> U. \<forall>a \<in> set as. x \<notin> string_of (dy b) (g_board b) a}"
  using assms(1,2)
proof (induction as arbitrary: b U)
  case Nil
  then show ?case by (simp add: same_position_def)
next
  case (Cons a as)
  note f = partly_facts [OF Cons.prems(1)]
  have test: "g_board b a = p \<and> group_head b a = PASS_LOC \<longleftrightarrow> a \<in> U"
  proof
    assume a: "g_board b a = p \<and> group_head b a = PASS_LOC"
    then have "is_stone b a" using assms(3) by (auto simp: is_stone_def)
    then show "a \<in> U" using partly_head(3) [OF Cons.prems(1)] a by (force simp: PASS_LOC_def)
  qed (use f(3) Cons.prems(2) in \<open>simp add: PASS_LOC_def\<close>)
  show ?case
  proof (cases "a \<in> U")
    case False
    have "x \<notin> string_of (dy b) (g_board b) a" if "x \<in> U" for x
      using partly_string [OF Cons.prems(1) that] string_sym False by blast
    then have e: "{x \<in> U. \<forall>a' \<in> set (a # as). x \<notin> string_of (dy b) (g_board b) a'} =
        {x \<in> U. \<forall>a \<in> set as. x \<notin> string_of (dy b) (g_board b) a}" by auto
    have "rebuild_around p (a # as) b = rebuild_around p as b" using test False by auto
    then show ?thesis unfolding e using Cons.IH [OF Cons.prems] by simp
  next
    case True
    obtain vs where vs: "rebuildChain p a b = Some (rechained a vs b)" "distinct (a # vs)"
      "set (a # vs) = string_of (dy b) (g_board b) a"
      using rebuildChain_ok [OF Cons.prems(1) True Cons.prems(2) [OF True]] by blast
    let ?c = "rechained a vs b"
    have ok: "partly_ok ?c (U - set (a # vs))" by (rule rechained_ok [OF Cons.prems(1) True vs(2,3)])
    have "\<exists>e. rebuild_around p as ?c = Some e \<and> same_position ?c e \<and> simple_ko_point e = simple_ko_point ?c
        \<and> partly_ok e {x \<in> U - set (a # vs). \<forall>a \<in> set as. x \<notin> string_of (dy ?c) (g_board ?c) a}"
      by (rule Cons.IH [OF ok]) (use Cons.prems(2) in \<open>simp add: rechained_fields(1)\<close>)
    then obtain e where e: "rebuild_around p as ?c = Some e" "same_position ?c e" "simple_ko_point e = simple_ko_point ?c"
      "partly_ok e {x \<in> U - set (a # vs). \<forall>a \<in> set as. x \<notin> string_of (dy b) (g_board b) a}"
      unfolding rechained_fields(1,2) by blast
    have "{x \<in> U - set (a # vs). \<forall>a \<in> set as. x \<notin> string_of (dy b) (g_board b) a} =
        {x \<in> U. \<forall>a' \<in> set (a # as). x \<notin> string_of (dy b) (g_board b) a'}" unfolding vs(3) by auto
    moreover have "rebuild_around p (a # as) b = Some e" using test True vs(1) e(1) by simp
    moreover have "same_position b e" by (rule same_position_trans [OF rechained_fields(3) e(2)])
    ultimately show ?thesis using e(3,4) by (simp add: rechained_fields(9))
  qed
qed

section \<open>Taking the stone back\<close>

definition orphaned :: "zobrist_table \<Rightarrow> loc \<Rightarrow> goban \<Rightarrow> goban" where
  "orphaned zob l b = b\<lparr>g_zobrist := g_zobrist b XOR zob (g_board b l) l, g_board := (g_board b)(l := EMPTY),
     group_head := (\<lambda>x. if x \<in> grp b (group_head b l) then 0 else group_head b x),
     group_stone_count := (group_stone_count b)(group_head b l := 0),
     group_liberty_count := (\<lambda>k. if k = group_head b l then 0 else group_liberty_count b k
       + (if touches b (get_opp (g_board b l)) k l then 1 else 0))\<rparr>"

lemma orphaned_fields [simp]:
  "g_board (orphaned zob l b) = (g_board b)(l := EMPTY)" "dy (orphaned zob l b) = dy b"
  "same_game b (orphaned zob l b)" "simple_ko_point (orphaned zob l b) = simple_ko_point b"
  "group_next (orphaned zob l b) = group_next b" "group_prev (orphaned zob l b) = group_prev b"
  by (simp_all add: orphaned_def dy_def same_game_def)

lemma orphaned_ok:
  assumes "chains_ok b" "maximal b" "is_stone b l"
  shows "partly_ok (orphaned zob l b) (grp b (group_head b l) - {l})"
proof -
  let ?e = "orphaned zob l b" and ?h = "group_head b l" and ?q = "get_opp (g_board b l)"
  let ?K = "grp b ?h"
  note pc = player_cases [OF assms(3)]
  have st: "is_stone ?e x \<longleftrightarrow> is_stone b x \<and> x \<noteq> l" for x by (auto simp: is_stone_def colors)
  have hd: "group_head ?e x = (if x \<in> ?K then 0 else group_head b x)" for x by (simp add: orphaned_def)
  have inK: "x \<in> ?K \<longleftrightarrow> is_stone b x \<and> group_head b x = ?h" for x by (simp add: grp_def)
  have lK: "l \<in> ?K" using assms(3) by (simp add: grp_def)
  have old: "chain_ok ?e k" if x: "is_stone b x" "k = group_head b x" "k \<noteq> ?h" for x k
  proof -
    have c: "chain_ok b k" using assms(1) x by (auto simp: chains_ok_def)
    have k0: "0 < k" using head_facts(4) [OF assms(1) x(1)] x(2) by simp
    have g: "geometry b" using assms(1) by (simp add: chains_ok_def)
    have gr: "grp ?e k = grp b k" unfolding grp_def st hd using inK x(3) k0 assms(3) by auto
    have t: "touches b ?q k l \<longleftrightarrow> (\<exists>a \<in> grp b k. l \<in> around (dy b) a)"
    proof
      assume "touches b ?q k l"
      then show "\<exists>a \<in> grp b k. l \<in> around (dy b) a" using pc around_sym unfolding touches_def grp_def by blast
    next
      assume "\<exists>a \<in> grp b k. l \<in> around (dy b) a"
      then obtain a where a: "is_stone b a" "group_head b a = k" "a \<in> around (dy b) l" using around_sym by (auto simp: grp_def)
      have "g_board b a \<noteq> g_board b l" using assms(2,3) a x(3) unfolding maximal_def by metis
      then have "g_board b a = ?q" using pc a(1) by blast
      then show "touches b ?q k l" using a unfolding touches_def by blast
    qed
    have lib: "lib_set ?e (grp b k) = (if touches b ?q k l then insert l (lib_set b (grp b k)) else lib_set b (grp b k))"
      using t by (auto simp: lib_set_def)
    have "l \<notin> lib_set b (grp b k)" using stone_not_wall [OF assms(3)] by (simp add: lib_set_def)
    then have "group_liberty_count ?e k = int (card (lib_set ?e (grp b k)))"
      unfolding lib using c x(3) finite_lib_set [OF g, of "grp b k"] by (simp add: orphaned_def chain_ok_def)
    moreover have "l \<notin> grp b k" using x(3) by (simp add: grp_def)
    ultimately show ?thesis
      by (intro chain_ok_transfer [OF c gr]) (use x(3) in \<open>auto simp: orphaned_def dy_def\<close>)
  qed
  show ?thesis unfolding partly_ok_def st
  proof (intro conjI ballI allI impI)
    show "geometry ?e"
      by (rule geometry_erase [of b "{l}"]) (use assms(1,3) stone_not_wall in \<open>auto simp: chains_ok_def\<close>)
    show "is_stone b x" "x \<noteq> l" "group_head ?e x = 0" if "x \<in> ?K - {l}" for x using that by (auto simp: hd inK)
    show "group_head ?e x \<le> 0" if "\<not> (is_stone b x \<and> x \<noteq> l)" for x
      using that assms(1) lK by (auto simp: hd chains_ok_def)
    show "chain_ok ?e (group_head ?e x)" if "(is_stone b x \<and> x \<noteq> l) \<and> x \<notin> ?K - {l}" for x
      using that old [of x] by (auto simp: hd inK)
    show "x \<in> ?K - {l} \<longleftrightarrow> y \<in> ?K - {l}" "group_head ?e y = group_head ?e x"
      if "is_stone b x \<and> x \<noteq> l" "y \<in> around (dy ?e) x" "g_board ?e y = g_board ?e x" for x y
    proof -
      have "y \<noteq> l" using that stone_not_wall [of b x] by auto
      then have "is_stone b y" "g_board b y = g_board b x" using that by (auto simp: is_stone_def)
      moreover have "group_head b y = group_head b x"
        using assms(2) that calculation unfolding maximal_def by simp
      ultimately show "x \<in> ?K - {l} \<longleftrightarrow> y \<in> ?K - {l}" "group_head ?e y = group_head ?e x"
        using that \<open>y \<noteq> l\<close> by (auto simp: hd inK)
    qed
  qed
qed

lemma taken_counts:
  assumes "chains_ok b" "is_stone b l"
  shows "change_surrounding_liberties l (get_opp (g_board b l)) 1
     (b\<lparr>g_zobrist := g_zobrist b XOR zob (g_board b l) l, g_board := (g_board b)(l := EMPTY),
        group_stone_count := (group_stone_count b)(group_head b l := 0),
        group_liberty_count := (group_liberty_count b)(group_head b l := 0)\<rparr>) =
     (orphaned zob l b)\<lparr>group_head := group_head b\<rparr>" (is "change_surrounding_liberties l ?q 1 ?c = _")
proof -
  have pc: "?q \<noteq> g_board b l" "?q \<noteq> EMPTY" using player_cases [OF assms(2)] by blast+
  have d: "dy ?c = dy b" by (simp add: dy_def)
  have h: "heads_apart b ?q" by (rule chains_heads_apart [OF assms])
  have "group_liberty_count (bump_liberties (\<lambda>c. c = ?q) l 1 ?c) k = group_liberty_count ?c k
      + (if \<exists>a \<in> around (dy ?c) l. g_board ?c a = ?q \<and> group_head ?c a = k then 1 else 0)" for k
    by (rule bump_liberty_count) (use h pc in \<open>auto simp: heads_apart_def split: if_splits\<close>)
  moreover have "(\<exists>a \<in> around (dy ?c) l. g_board ?c a = ?q \<and> group_head ?c a = k) \<longleftrightarrow> touches b ?q k l" for k
  proof -
    have "g_board ?c a = ?q \<longleftrightarrow> g_board b a = ?q" for a using pc by auto
    then show ?thesis unfolding d touches_def by simp
  qed
  moreover have "\<not> touches b ?q (group_head b l) l"
    using h pc unfolding touches_def heads_apart_def by metis
  ultimately show ?thesis unfolding change_surrounding_liberties_def
    by (intro goban.equality) (auto simp: orphaned_def fun_eq_iff)
qed

lemma clear_links_ok:
  assumes "chains_ok c" "maximal c" "\<not> is_stone c l"
    "e = c\<lparr>group_head := (group_head c)(l := 0), group_next := (group_next c)(l := 0), group_prev := (group_prev c)(l := 0)\<rparr>"
  shows "chains_ok e" "maximal e"
proof -
  have f: "g_board e = g_board c" "dy e = dy c" "group_head e = (group_head c)(l := 0)" "\<And>x. is_stone e x = is_stone c x"
    by (simp_all add: assms(4) dy_def is_stone_def)
  have g: "grp e k = grp c k" for k using assms(3) by (auto simp: grp_def f)
  have lib: "lib_set e A = lib_set c A" for A by (simp add: lib_set_def f)
  have "chain_ok e k" if "chain_ok c k" for k
  proof (rule chain_ok_transfer [OF that g f(2)])
    show "g_board e y = g_board c y \<and> group_next e y = group_next c y \<and> group_prev e y = group_prev c y" if "y \<in> grp c k" for y
      using that assms(3) by (auto simp: assms(4) grp_def)
    show "group_liberty_count e k = int (card (lib_set e (grp c k)))"
      using that unfolding lib by (simp add: assms(4) chain_ok_def)
  qed (simp add: assms(4))
  then show "chains_ok e" using assms(1,3) by (auto simp: chains_ok_def f geometry_def)
  show "maximal e" using assms(2,3) by (auto simp: maximal_def f is_stone_def)
qed

text \<open>Every remaining stone of the chain is in the string of a neighbour of the stone taken.\<close>

lemma rest_of_string:
  assumes "x \<in> string_of d c l" "c l \<noteq> EMPTY"
  shows "x = l \<or> (\<exists>a \<in> around d l. x \<in> string_of d (c(l := EMPTY)) a)"
  using assms(1)
proof (induction rule: string_induct)
  case (step y z)
  have "z \<in> string_of d c l" using string_step step.hyps by metis
  then have z: "c z = c l" by (rule string_color)
  show ?case
  proof (cases "z = l \<or> y = l")
    case True
    then show ?thesis using step.hyps(2) string_self by blast
  next
    case False
    with step.IH obtain a where a: "a \<in> around d l" "y \<in> string_of d (c(l := EMPTY)) a" by blast
    have "(c(l := EMPTY)) z = (c(l := EMPTY)) y" using False step.hyps(3) by simp
    with string_step [OF a(2) step.hyps(2)] a(1) show ?thesis by blast
  qed
qed simp

lemma take_back_ok:
  assumes "chains_ok b" "maximal b" "is_stone b l"
  obtains c where "take_back zob (g_board b l) l b = Some c" "chains_ok c" "maximal c"
    "g_board c = (g_board b)(l := EMPTY)" "same_game b c" "simple_ko_point c = simple_ko_point b"
proof -
  let ?p = "g_board b l" and ?h = "group_head b l" and ?e = "orphaned zob l b"
  let ?K = "grp b ?h" and ?b3 = "(orphaned zob l b)\<lparr>group_head := group_head b\<rparr>"
  have p: "?p = BLACK \<or> ?p = WHITE" using assms(3) by (simp add: is_stone_def)
  note K = chain_string [OF assms] and po = orphaned_ok [OF assms, of zob]
  define fin where "fin c = c\<lparr>group_head := (group_head c)(l := 0), group_next := (group_next c)(l := 0),
         group_prev := (group_prev c)(l := 0)\<rparr>" for c :: goban
  have tb: "take_back zob ?p l b = (if group_stone_count b ?h > 1
      then do { e \<leftarrow> orphan_walk l l ?b3; rebuild_around ?p (nbrs e l) e } else Some ?b3) \<bind> (\<lambda>c. Some (fin c))"
    unfolding take_back_def Let_def fin_def by (simp add: taken_counts [OF assms(1,3), simplified])
  have c: "chain_ok b ?h" using assms(1,3) by (auto simp: chains_ok_def)
  have n: "group_stone_count b ?h = int (card ?K)" using c by (simp add: chain_ok_def)
  note result = that
  have finish: ?thesis if t: "take_back zob ?p l b = Some (fin c)" "partly_ok c {}" "g_board c = (g_board b)(l := EMPTY)"
      "same_game b c" "simple_ko_point c = simple_ko_point b" for c
  proof -
    have "\<not> is_stone c l" using t(3) by (simp add: is_stone_def colors)
    with clear_links_ok [of c l "fin c"] t(2) partly_ok_done have "chains_ok (fin c)" "maximal (fin c)" by (auto simp: fin_def)
    with result [OF t(1)] t(3-5) show ?thesis by (simp add: fin_def same_game_def)
  qed
  show ?thesis
  proof (cases "group_stone_count b ?h > 1")
    case False
    have "finite ?K" using finite_grp assms(1) by (auto simp: chains_ok_def)
    moreover have "l \<in> ?K" by (rule head_facts(5) [OF assms(1,3)])
    moreover have "card ?K \<le> 1" using False n by simp
    ultimately have K1: "?K = {l}" using card_le_Suc0_iff_eq [of ?K] by (metis One_nat_def empty_iff insertI1 is_singletonI' is_singleton_the_elem singletonD)
    have "fin ?b3 = fin ?e" using K1 by (intro goban.equality) (auto simp: fin_def orphaned_def fun_eq_iff)
    then have "take_back zob ?p l b = Some (fin ?e)" using tb False by simp
    moreover have "partly_ok ?e {}" using po K1 by simp
    ultimately show ?thesis using finish [of ?e] by simp
  next
    case True
    from c obtain xs where xs: "ring (group_next b) xs" "set xs = ?K" unfolding chain_ok_def by blast
    have "l \<in> set xs" using xs(2) head_facts(5) [OF assms(1,3)] by simp
    from ring_from [OF xs(1) this] obtain ys where ys: "ring (group_next b) (l # ys)" "set (l # ys) = set xs" .
    have "orphan_walk l l ?b3 = Some (?b3\<lparr>group_head := (\<lambda>x. if x \<in> set (l # ys) then 0 else group_head ?b3 x)\<rparr>)"
      by (rule orphan_walk_ring) (use ys(1) in \<open>auto simp: ring_Cons\<close>)
    also have "?b3\<lparr>group_head := (\<lambda>x. if x \<in> set (l # ys) then 0 else group_head ?b3 x)\<rparr> = ?e"
      unfolding ys(2) xs(2) by (intro goban.equality) (auto simp: orphaned_def)
    finally have walk: "orphan_walk l l ?b3 = Some ?e" .
    have col: "g_board ?e x = ?p" if "x \<in> ?K - {l}" for x
      using that string_color [of x "dy b" "g_board b" l] unfolding K by simp
    have "\<exists>c. rebuild_around ?p (nbrs ?e l) ?e = Some c \<and> same_position ?e c \<and> simple_ko_point c = simple_ko_point ?e
        \<and> partly_ok c {x \<in> ?K - {l}. \<forall>a \<in> set (nbrs ?e l). x \<notin> string_of (dy ?e) (g_board ?e) a}"
      by (rule rebuild_around_ok [OF po col p])
    then obtain c where c: "rebuild_around ?p (nbrs ?e l) ?e = Some c" "same_position ?e c" "simple_ko_point c = simple_ko_point b"
      "partly_ok c {x \<in> ?K - {l}. \<forall>a \<in> around (dy b) l. x \<notin> string_of (dy b) ((g_board b)(l := EMPTY)) a}" by auto
    have "?p \<noteq> EMPTY" using p by (auto simp: colors)
    then have "{x \<in> ?K - {l}. \<forall>a \<in> around (dy b) l. x \<notin> string_of (dy b) ((g_board b)(l := EMPTY)) a} = {}"
      unfolding K using rest_of_string [of _ "dy b" "g_board b" l] by blast
    with c(4) have "partly_ok c {}" by metis
    moreover have "take_back zob ?p l b = Some (fin c)" using tb True walk c(1) by simp
    moreover have "g_board c = (g_board b)(l := EMPTY)" "same_game b c"
      using c(2) by (auto simp: same_position_def same_game_def orphaned_def)
    ultimately show ?thesis using finish [of c] c(3) by blast
  qed
qed

end
