(* ===== verification/Board_Undo_Counts.thy ===== *)
theory Board_Undo_Counts
  imports Board_Rebuild
begin

text \<open>
  The floods of \<open>undo\<close> leave the liberty counts at the head 0 alone too.
\<close>

section \<open>Floods\<close>

lemma bind_pair: "x \<bind> (\<lambda>(a, b). g a b) = Some r \<Longrightarrow> (\<And>a b. x = Some (a, b) \<Longrightarrow> g a b = Some r \<Longrightarrow> Q) \<Longrightarrow> Q"
  by (cases x) auto

lemma flood_keeps:
  "flood free act t l b = Some r \<Longrightarrow> I b \<Longrightarrow> (\<And>t l b. I b \<Longrightarrow> I (act t l b)) \<Longrightarrow> I (fst r)"
proof (induction rule: flood.raw_induct [rotated, consumes 1, case_names call])
  case (call f free act t l b r)
  have go: "I (fst r')" if "(if P then f free act t' l' b' else Some (b', t'')) = Some r'" "I b'" for P t' l' b' t'' r'
    using that call.IH call.prems(2) by (auto split: if_splits)
  let ?b0 = "act t l b"
  from call.hyps obtain b1 t1 b2 t2 b3 t3 where s:
    "(if free ?b0 (l - dy b) then f free act l (l - dy b) ?b0 else Some (?b0, l)) = Some (b1, t1)"
    "(if free b1 (l - 1) then f free act t1 (l - 1) b1 else Some (b1, t1)) = Some (b2, t2)"
    "(if free b2 (l + 1) then f free act t2 (l + 1) b2 else Some (b2, t2)) = Some (b3, t3)"
    "(if free b3 (l + dy b) then f free act t3 (l + dy b) b3 else Some (b3, t3)) = Some r"
    unfolding Let_def by (elim bind_pair) (rule that)
  have "I ?b0" using call.prems by blast
  from go [OF s(1) this] have "I b1" by simp
  from go [OF s(2) this] have "I b2" by simp
  from go [OF s(3) this] have "I b3" by simp
  from go [OF s(4) this] show ?case .
qed

lemma settled_fill:
  assumes "settled b" "0 < head" "p = BLACK \<or> p = WHITE"
  shows "settled (fill_stone zob head p t l b)"
  unfolding fill_stone_def change_surrounding_liberties_def
  by (rule settled_bump) (use assms opp_facts(4) [OF assms(3)] in \<open>auto simp: settled_def low_def headed_def is_stone_def\<close>)

lemma settled_ring [simp]: "settled (close_ring h t b) = settled b" "low (close_ring h t b) = low b"
  by (simp_all add: settled_def low_def headed_def is_stone_def close_ring_def)

lemma flood_fill_settled:
  assumes "floodFillStones zob p l b = Some c" "settled b" "0 < l" "p = BLACK \<or> p = WHITE"
    "\<And>x. g_board b x = EMPTY \<Longrightarrow> 0 < x"
  shows "settled c \<and> (\<forall>x. g_board c x = EMPTY \<longrightarrow> 0 < x)"
proof -
  define I where "I = (\<lambda>b. settled b \<and> (\<forall>x. g_board b x = EMPTY \<longrightarrow> 0 < x))"
  obtain b1 t where f: "flood (\<lambda>b x. g_board b x = EMPTY) (fill_stone zob l p) l l (reset_head l b) = Some (b1, t)"
    "c = close_ring l t b1" using assms(1) by (auto simp: floodFillStones_def floodFillStonesHelper_def bind_eq_Some_conv)
  have "I (reset_head l b)" using assms(2,5) by (auto simp: I_def settled_def low_def headed_def is_stone_def reset_head_def)
  moreover have "I (fill_stone zob l p t x b)" if "I b" for t x b
    using that settled_fill [OF _ assms(3,4)] opp_facts(3) [OF assms(4)]
    by (simp add: I_def fill_stone_def change_surrounding_liberties_def)
  ultimately have "I b1" using flood_keeps [where I = I, OF f(1)] by simp
  then show ?thesis using f(2) by (simp add: I_def) (simp add: close_ring_def)
qed

lemma rebuild_low:
  assumes "rebuildChain p l b = Some c" "low b" "0 < l"
  shows "low c \<and> g_board c = g_board b"
proof -
  define I where "I = (\<lambda>c. low c \<and> g_board c = g_board b)"
  obtain b1 t where f: "flood (\<lambda>b x. g_board b x = p \<and> group_head b x \<noteq> l) (rebuild_stone l) l l (reset_head l b) = Some (b1, t)"
    "c = close_ring l t b1" using assms(1) by (auto simp: rebuildChain_def rebuildChainHelper_def bind_eq_Some_conv)
  have "I (reset_head l b)" using assms(2) by (auto simp: I_def low_def reset_head_def)
  moreover have "I (rebuild_stone l t x b)" if "I b" for t x b
    using that assms(3) by (simp add: I_def rebuild_stone_def Let_def low_def add_liberties_def)
  ultimately have "I b1" using flood_keeps [where I = I, OF f(1)] by simp
  then show ?thesis using f(2) by (simp add: I_def close_ring_def low_def)
qed

lemma rebuild_around_low:
  "rebuild_around p as b = Some c \<Longrightarrow> low b \<Longrightarrow> (\<And>a. g_board b a = p \<Longrightarrow> 0 < a) \<Longrightarrow> low c"
proof (induction p as b rule: rebuild_around.induct)
  case (2 p a as b)
  from "2.prems"(1) obtain b1 where b1: "(if g_board b a = p \<and> group_head b a = PASS_LOC then rebuildChain p a b else Some b) = Some b1"
    "rebuild_around p as b1 = Some c" by (auto simp: bind_eq_Some_conv)
  have "low b1 \<and> g_board b1 = g_board b"
    using b1(1) rebuild_low [of p a b b1] "2.prems"(2,3) by (auto split: if_splits)
  with "2.IH" [OF b1] "2.prems"(3) show ?case by simp
qed simp

lemma orphan_walk_low:
  "orphan_walk s l b = Some c \<Longrightarrow> low c = low b \<and> g_board c = g_board b"
proof (induction rule: orphan_walk.raw_induct [rotated, consumes 1, case_names walk])
  case (walk f s l b c)
  have "low (set_head l PASS_LOC b) = low b" "g_board (set_head l PASS_LOC b) = g_board b"
    by (simp_all add: low_def set_head_def)
  with walk show ?case by (auto simp: Let_def split: if_splits)
qed

lemma take_back_low:
  assumes "take_back zob p l b = Some c" "chains_ok b" "low b" "p = BLACK \<or> p = WHITE"
  shows "low c"
proof -
  let ?b1 = "b\<lparr>g_zobrist := g_zobrist b XOR zob p l, g_board := (g_board b)(l := EMPTY)\<rparr>"
  let ?h = "group_head ?b1 l"
  let ?b2 = "?b1\<lparr>group_stone_count := (group_stone_count ?b1)(?h := 0), group_liberty_count := (group_liberty_count ?b1)(?h := 0)\<rparr>"
  let ?b3 = "change_surrounding_liberties l (get_opp p) 1 ?b2"
  have "settled ?b2" using assms(3) chains_headed [OF assms(2)] by (auto simp: settled_def low_def headed_def is_stone_def colors)
  then have low3: "low ?b3" and g3: "g_board ?b3 = (g_board b)(l := EMPTY)"
    using settled_low [OF settled_bump] opp_facts(4) [OF assms(4)] by (auto simp: change_surrounding_liberties_def)
  from assms(1) obtain b4 where b4: "(if group_stone_count ?b1 ?h > 1 then do { e \<leftarrow> orphan_walk l l ?b3; rebuild_around p (nbrs e l) e } else Some ?b3) = Some b4"
    "low c = low b4" by (auto simp: take_back_def Let_def bind_eq_Some_conv low_def)
  show ?thesis
  proof (cases "group_stone_count ?b1 ?h > 1")
    case False
    then show ?thesis using b4 low3 by auto
  next
    case True
    with b4(1) obtain e where e: "orphan_walk l l ?b3 = Some e" "rebuild_around p (nbrs e l) e = Some b4"
      by (auto simp: bind_eq_Some_conv)
    have "low e" "g_board e = (g_board b)(l := EMPTY)" using orphan_walk_low [OF e(1)] low3 g3 by auto
    moreover have "0 < a" if "((g_board b)(l := EMPTY)) a = p" for a
      using that assms(2,4) by (auto simp: chains_ok_def geometry_def colors split: if_splits)
    ultimately show ?thesis using rebuild_around_low [OF e(2)] b4(2) by simp
  qed
qed

end
