(* ===== verification/Board_Undo.thy ===== *)
theory Board_Undo
  imports Board_Undo_Counts
begin

text \<open>
  Recorded moves and their undo: playing a move and undoing it gives back the position, with exact
  chains, the ko point and the counts of the board before it.
\<close>

section \<open>Records\<close>

record move_record =
  mr_pla :: player
  mr_loc :: loc
  mr_ko :: "loc option"
  mr_cap_dirs :: "nat list"
  mr_self_cap :: bool
  mr_captures :: "player \<Rightarrow> int"
  mr_moves :: "player \<Rightarrow> int"

definition cap_dirs :: "player \<Rightarrow> loc \<Rightarrow> goban \<Rightarrow> nat list" where
  "cap_dirs opp l b = filter (\<lambda>i. g_board b (nbrs b l ! i) = opp
     \<and> group_liberty_count b (group_head b (nbrs b l ! i)) = 1) [0..<4]"

definition playRecordedUnsafe :: "zobrist_table \<Rightarrow> player \<Rightarrow> loc \<Rightarrow> goban \<Rightarrow> (goban \<times> move_record) option" where
  "playRecordedUnsafe zob p l b = do {
     c \<leftarrow> playUnsafe zob p l b;
     Some (c, \<lparr>mr_pla = p, mr_loc = l, mr_ko = simple_ko_point b, mr_cap_dirs = cap_dirs (get_opp p) l b,
       mr_self_cap = (g_board c l = EMPTY), mr_captures = num_captures_made b,
       mr_moves = num_non_pass_moves_made b\<rparr>) }"

fun refill_dirs :: "zobrist_table \<Rightarrow> player \<Rightarrow> loc \<Rightarrow> nat list \<Rightarrow> goban \<Rightarrow> goban option" where
  "refill_dirs zob opp l [] b = Some b"
| "refill_dirs zob opp l (i # is) b = do {
     b1 \<leftarrow> (if g_board b (nbrs b l ! i) = EMPTY then floodFillStones zob opp (nbrs b l ! i) b else Some b);
     refill_dirs zob opp l is b1 }"

definition undo :: "zobrist_table \<Rightarrow> move_record \<Rightarrow> goban \<Rightarrow> goban option" where
  "undo zob r b =
    (let p = mr_pla r; l = mr_loc r;
         b1 = b\<lparr>simple_ko_point := mr_ko r, g_pla := p, num_captures_made := mr_captures r,
           num_non_pass_moves_made := mr_moves r\<rparr>
     in if l = PASS_LOC then Some b1
        else do {
          b2 \<leftarrow> refill_dirs zob (get_opp p) l (mr_cap_dirs r) b1;
          b3 \<leftarrow> (if mr_self_cap r then floodFillStones zob p l b2 else Some b2);
          take_back zob p l b3 })"

section \<open>Refilling captured strings\<close>

text \<open>A string without liberties, taken off, leaves an empty region of just its locations.\<close>

lemma hole_region:
  assumes "liberties d c a = {}" "c a \<noteq> EMPTY" "string_of d c a \<subseteq> D" "\<And>x. x \<in> D \<Longrightarrow> c x = c a"
    "f = (\<lambda>x. if x \<in> D then EMPTY else c x)"
  shows "string_of d f a = string_of d c a"
    "\<And>x y. x \<in> string_of d c a \<Longrightarrow> y \<in> around d x \<Longrightarrow> f y \<noteq> c a"
proof -
  let ?K = "string_of d c a"
  have e: "f x = EMPTY" if "x \<in> ?K" for x using that assms(3,5) by auto
  have fa: "f a = EMPTY" by (rule e) simp
  have K: "z \<in> ?K" if "y \<in> ?K" "z \<in> around d y" "f z = EMPTY" for y z
  proof (cases "z \<in> D")
    case True
    then show ?thesis using string_step [OF that(1,2)] assms(4) string_color [OF that(1)] by simp
  next
    case False
    then have "c z = EMPTY" using that(3) assms(5) by simp
    then have "z \<in> liberties d c a" using that by (auto simp: liberties_def)
    with assms(1) show ?thesis by simp
  qed
  have "y \<in> ?K" if "y \<in> string_of d f a" for y
    using that
  proof (induction rule: string_induct)
    case (step y z)
    have "f z = EMPTY" using step.hyps(1,3) string_color fa by metis
    with step show ?case using K by blast
  qed simp
  moreover have "?K \<subseteq> string_of d f a" by (rule string_mono) (use e fa in simp)
  ultimately show "string_of d f a = ?K" by blast
  show "f y \<noteq> c a" if "x \<in> ?K" "y \<in> around d x" for x y
  proof
    assume y: "f y = c a"
    then have "y \<notin> D" "c y = c a" using assms(2,5) by (auto split: if_splits)
    moreover have "y \<in> ?K" using string_step [OF that] string_color [OF that(1)] \<open>c y = c a\<close> by simp
    ultimately show False using assms(3) by blast
  qed
qed

lemma refilled_position:
  assumes "chains_ok b" "maximal b" "g_board b = (\<lambda>x. if x \<in> D then EMPTY else c x)" "dy b = d"
    "a \<in> D" "c a = q" "q = BLACK \<or> q = WHITE" "\<And>x. x \<in> D \<Longrightarrow> c x = q" "string_of d c a \<subseteq> D" "liberties d c a = {}"
  obtains e where "floodFillStones zob q a b = Some e" "chains_ok e" "maximal e" "same_game b e"
    "simple_ko_point e = simple_ko_point b" "g_board e = (\<lambda>x. if x \<in> D - string_of d c a then EMPTY else c x)"
proof -
  have ce: "c a \<noteq> EMPTY" using assms(6,7) by (auto simp: colors)
  have h: "string_of d (g_board b) a = string_of d c a"
    "\<And>x y. x \<in> string_of d c a \<Longrightarrow> y \<in> around d x \<Longrightarrow> g_board b y \<noteq> c a"
    by (rule hole_region [OF assms(10) ce assms(9) _ assms(3)]; use assms(6,8) in simp)+
  obtain vs where vs: "floodFillStones zob q a b = Some (refilled zob q a vs b)" "refill b q a vs"
    "set (a # vs) = string_of (dy b) (g_board b) a"
  proof (rule flood_fill_ok [OF assms(1,2) _ assms(7), of a])
    show "g_board b a = EMPTY" using assms(3,5) by simp
    show "g_board b y \<noteq> q" if "x \<in> string_of (dy b) (g_board b) a" "y \<in> around (dy b) x" for x y
      using h(2) that unfolding assms(4) h(1) assms(6) .
  qed
  have R: "set (a # vs) = string_of d c a" using vs(3) h(1) assms(4) by simp
  have "g_board (refilled zob q a vs b) = (\<lambda>x. if x \<in> D - string_of d c a then EMPTY else c x)"
    unfolding refilled_fields(1) R assms(3) using string_color [of _ d c a] assms(6) by (auto simp: fun_eq_iff)
  then show ?thesis using that [OF vs(1) refilled_ok [OF vs(2)] refilled_fields(8,9)] by simp
qed

lemma refill_dirs_ok:
  assumes "chains_ok b" "maximal b" "g_board b = (\<lambda>x. if x \<in> D then EMPTY else c x)" "dy b = d" "g_x_size b = xs"
    "q = BLACK \<or> q = WHITE" "\<And>x. x \<in> D \<Longrightarrow> c x = q \<and> liberties d c x = {} \<and> string_of d c x \<subseteq> D"
    "\<And>i. i \<in> set is \<Longrightarrow> c (nbrs b l ! i) = q"
  shows "\<exists>e. refill_dirs zob q l is b = Some e \<and> chains_ok e \<and> maximal e \<and> same_game b e
    \<and> simple_ko_point e = simple_ko_point b
    \<and> g_board e = (\<lambda>x. if x \<in> D \<and> (\<forall>i \<in> set is. x \<notin> string_of d c (nbrs b l ! i)) then EMPTY else c x)"
  using assms
proof (induction "is" arbitrary: b D)
  case Nil
  then show ?case by (simp add: same_game_def)
next
  case (Cons i "is")
  let ?a = "nbrs b l ! i"
  have ca: "c ?a = q" "c ?a \<noteq> EMPTY" using Cons.prems(6,8) by (auto simp: colors)
  have test: "g_board b ?a = EMPTY \<longleftrightarrow> ?a \<in> D" using Cons.prems(3) ca by simp
  show ?case
  proof (cases "?a \<in> D")
    case False
    have "x \<notin> string_of d c ?a" if "x \<in> D" for x using Cons.prems(7) [OF that] string_sym False by blast
    then have e: "(x \<in> D \<and> (\<forall>j \<in> set (i # is). x \<notin> string_of d c (nbrs b l ! j))) \<longleftrightarrow>
        x \<in> D \<and> (\<forall>j \<in> set is. x \<notin> string_of d c (nbrs b l ! j))" for x by auto
    have "refill_dirs zob q l (i # is) b = refill_dirs zob q l is b" using test False by simp
    moreover have "\<exists>e. refill_dirs zob q l is b = Some e \<and> chains_ok e \<and> maximal e \<and> same_game b e
        \<and> simple_ko_point e = simple_ko_point b
        \<and> g_board e = (\<lambda>x. if x \<in> D \<and> (\<forall>i \<in> set is. x \<notin> string_of d c (nbrs b l ! i)) then EMPTY else c x)"
      by (rule Cons.IH) (use Cons.prems in auto)
    ultimately show ?thesis unfolding e by simp
  next
    case True
    note D = Cons.prems(7)
    obtain f where f: "floodFillStones zob q ?a b = Some f" "chains_ok f" "maximal f" "same_game b f"
      "simple_ko_point f = simple_ko_point b" "g_board f = (\<lambda>x. if x \<in> D - string_of d c ?a then EMPTY else c x)"
      by (rule refilled_position [OF Cons.prems(1-4) True ca(1) Cons.prems(6)]) (use D True in blast)+
    have nb: "nbrs f l = nbrs b l" and df: "dy f = d" "g_x_size f = xs"
      using f(4) Cons.prems(4,5) by (auto simp: same_game_def nbrs_def dy_def)
    have "\<exists>e. refill_dirs zob q l is f = Some e \<and> chains_ok e \<and> maximal e \<and> same_game f e
        \<and> simple_ko_point e = simple_ko_point f
        \<and> g_board e = (\<lambda>x. if x \<in> D - string_of d c ?a \<and> (\<forall>i \<in> set is. x \<notin> string_of d c (nbrs f l ! i)) then EMPTY else c x)"
    proof (rule Cons.IH [OF f(2,3,6) df Cons.prems(6)])
      show "c x = q \<and> liberties d c x = {} \<and> string_of d c x \<subseteq> D - string_of d c ?a" if "x \<in> D - string_of d c ?a" for x
        using D [of x] that string_eq [of _ d c] string_sym by blast
      show "c (nbrs f l ! j) = q" if "j \<in> set is" for j using Cons.prems(8) that nb by simp
    qed
    then obtain e where e: "refill_dirs zob q l is f = Some e" "chains_ok e" "maximal e" "same_game f e"
      "simple_ko_point e = simple_ko_point f"
      "g_board e = (\<lambda>x. if x \<in> D - string_of d c ?a \<and> (\<forall>i \<in> set is. x \<notin> string_of d c (nbrs b l ! i)) then EMPTY else c x)"
      unfolding nb by blast
    have "refill_dirs zob q l (i # is) b = Some e" using test True f(1) e(1) by simp
    moreover have "same_game b e" using f(4) e(4) by (simp add: same_game_def)
    moreover have "g_board e = (\<lambda>x. if x \<in> D \<and> (\<forall>j \<in> set (i # is). x \<notin> string_of d c (nbrs b l ! j)) then EMPTY else c x)"
      unfolding e(6) by auto
    ultimately show ?thesis using e(2,3,5) f(5) by metis
  qed
qed

section \<open>Undoing a move\<close>

lemma cap_dirs_captured:
  assumes "board_ok b" "g_board b l = EMPTY" "p = BLACK \<or> p = WHITE" "a \<in> around (dy b) l" "g_board b a = get_opp p"
  shows "group_liberty_count b (group_head b a) = 1 \<longleftrightarrow> a \<in> captured (dy b) (get_opp p) ((g_board b)(l := p))"
proof -
  let ?d = "dy b" and ?q = "get_opp p"
  note q = opp_facts [OF assms(3)]
  have st: "is_stone b a" using assms(5) q(4) by (auto simp: is_stone_def)
  have "l \<in> liberties ?d (g_board b) a"
    using assms(2,4) around_sym string_self by (fastforce simp: liberties_def)
  from liberties_singleton(1) [OF assms(1) st this]
  have "group_liberty_count b (group_head b a) = 1 \<longleftrightarrow> liberties ?d (g_board b) a = {l}" .
  moreover have "liberties ?d ((g_board b)(l := p)) a = liberties ?d (g_board b) a - {l}"
    using liberties_after_stone [of "g_board b" a ?q p l ?d, OF assms(5) q(1,2) assms(2)] q(3) by blast
  moreover have "liberties ?d (g_board b) a \<noteq> {}" using assms(1) st by (simp add: board_ok_def)
  moreover have "a \<noteq> l" using assms(2,5) q(2) by auto
  ultimately show ?thesis using assms(5) by (auto simp: captured_def)
qed

lemma nbrs_nth: "i < 4 \<Longrightarrow> nbrs b l ! i \<in> around (dy b) l"
  using nth_mem [of i "nbrs b l"] by (simp add: nbrs_def around_def)

lemma around_nth: "a \<in> around (dy b) l \<Longrightarrow> \<exists>i < 4. nbrs b l ! i = a"
  using in_set_conv_nth [of a "nbrs b l"] by (simp add: nbrs_def around_def eval_nat_numeral)

lemma undo_before_take_back:
  assumes "board_ok b" "g_board b l = EMPTY" "p = BLACK \<or> p = WHITE"
    "chains_ok c" "maximal c" "g_board c = rule_move (dy b) p l (g_board b)" "g_x_size c = g_x_size b"
  shows "\<exists>f e. refill_dirs zob (get_opp p) l (cap_dirs (get_opp p) l b) c = Some f
    \<and> (if g_board c l = EMPTY then floodFillStones zob p l f else Some f) = Some e
    \<and> chains_ok e \<and> maximal e \<and> same_game c e \<and> simple_ko_point e = simple_ko_point c
    \<and> g_board e = (g_board b)(l := p)"
proof -
  let ?d = "dy b" and ?q = "get_opp p" and ?c2 = "(g_board b)(l := p)"
  define D e1 where De: "D = captured ?d ?q ?c2" "e1 = clear ?d ?q ?c2"
  note q = opp_facts [OF assms(3)] and al = alive_liberties [OF board_ok_alive [OF assms(1)]]
  have dc: "dy c = ?d" and nb: "nbrs c l = nbrs b l" using assms(7) by (auto simp: dy_def nbrs_def)
  have e1l: "e1 l = p" using q by (simp add: De(2) clear_def)
  have S: "captured ?d p e1 = (if liberties ?d e1 l = {} then string_of ?d e1 l else {})"
    by (rule own_captured [OF al [OF _ assms(3)] q(3,1) De(2)])
  have gc: "g_board c = (\<lambda>x. if x \<in> captured ?d p e1 then EMPTY else e1 x)"
    unfolding assms(6) rule_move_def De(2) [symmetric] clear_captured [of ?d p e1] ..
  have Dp: "?c2 x = ?q \<and> liberties ?d ?c2 x = {} \<and> string_of ?d ?c2 x \<subseteq> D" if "x \<in> D" for x
  proof -
    have x: "?c2 x = ?q" "liberties ?d ?c2 x = {}" using that unfolding De(1) captured_def by blast+
    have "y \<in> D" if "y \<in> string_of ?d ?c2 x" for y
      using x string_color [OF that] liberties_eq [OF that] unfolding De(1) captured_def by simp
    with x show ?thesis by blast
  qed
  have dirs: "i \<in> set (cap_dirs ?q l b) \<longleftrightarrow> i < 4 \<and> nbrs b l ! i \<in> D" for i
  proof (cases "i < 4 \<and> g_board b (nbrs b l ! i) = ?q")
    case True
    then show ?thesis using cap_dirs_captured [OF assms(1-3) nbrs_nth, of i] by (auto simp: cap_dirs_def De(1))
  next
    case False
    then show ?thesis using Dp [of "nbrs b l ! i"] q(1) by (auto simp: cap_dirs_def split: if_splits)
  qed
  show ?thesis
  proof (cases "liberties ?d e1 l = {}")
    case True
    have "x \<notin> D" for x
    proof
      assume x: "x \<in> D"
      then have "g_board b x = ?q" using Dp [OF x] q(1) by (auto split: if_splits)
      from capture_gives_liberty [OF assms(2) q(3,1,2) x [unfolded De(1)] al [OF this q(4)]]
      show False using True unfolding De(2) by blast
    qed
    then have D0: "D = {}" by blast
    then have e1: "e1 = ?c2" unfolding De by (rule clear_none)
    have "cap_dirs ?q l b = []" using dirs D0 by (metis empty_iff list.set_intros(1) neq_Nil_conv)
    then have r: "refill_dirs zob ?q l (cap_dirs ?q l b) c = Some c" by simp
    have "captured ?d p e1 = string_of ?d e1 l" using S True by simp
    then have g: "g_board c = (\<lambda>x. if x \<in> string_of ?d ?c2 l then EMPTY else ?c2 x)" unfolding gc by (simp only: e1)
    have cl: "?c2 l = p" and lib: "liberties ?d ?c2 l = {}" using True e1 by simp_all
    have col: "?c2 x = p" if "x \<in> string_of ?d ?c2 l" for x using string_color [OF that] cl by metis
    obtain e where "floodFillStones zob p l c = Some e" "chains_ok e" "maximal e" "same_game c e"
      "simple_ko_point e = simple_ko_point c"
      "g_board e = (\<lambda>x. if x \<in> string_of ?d ?c2 l - string_of ?d ?c2 l then EMPTY else ?c2 x)"
      by (rule refilled_position [OF assms(4,5) g dc string_self cl assms(3) col order_refl lib])
    then show ?thesis using r g by (simp add: fun_upd_def)
  next
    case False
    then have g: "g_board c = (\<lambda>x. if x \<in> D then EMPTY else ?c2 x)"
      using gc S unfolding De(2) clear_captured De(1) [symmetric] by (simp del: fun_upd_apply)
    have nl: "g_board c l \<noteq> EMPTY" using gc S False e1l q(3) by simp
    have "\<exists>e. refill_dirs zob ?q l (cap_dirs ?q l b) c = Some e \<and> chains_ok e \<and> maximal e \<and> same_game c e
        \<and> simple_ko_point e = simple_ko_point c
        \<and> g_board e = (\<lambda>x. if x \<in> D \<and> (\<forall>i \<in> set (cap_dirs ?q l b). x \<notin> string_of ?d ?c2 (nbrs c l ! i)) then EMPTY else ?c2 x)"
      by (rule refill_dirs_ok [OF assms(4,5) g dc refl q(4) Dp]) (use dirs Dp nb in auto)
    then obtain e where e: "refill_dirs zob ?q l (cap_dirs ?q l b) c = Some e" "chains_ok e" "maximal e" "same_game c e"
      "simple_ko_point e = simple_ko_point c"
      "g_board e = (\<lambda>x. if x \<in> D \<and> (\<forall>i \<in> set (cap_dirs ?q l b). x \<notin> string_of ?d ?c2 (nbrs b l ! i)) then EMPTY else ?c2 x)"
      unfolding nb by blast
    have "\<exists>i \<in> set (cap_dirs ?q l b). x \<in> string_of ?d ?c2 (nbrs b l ! i)" if x: "x \<in> D" for x
    proof -
      have "g_board b x = ?q" using Dp [OF x] q(1) by (auto split: if_splits)
      from captured_beside [OF assms(2) q(3,1,2) x [unfolded De(1)] al [OF this q(4)]]
      obtain a where a: "a \<in> around ?d l" "a \<in> string_of ?d ?c2 x" by blast
      from around_nth [OF a(1)] obtain i where "i < 4" "nbrs b l ! i = a" by blast
      with a(2) Dp [OF x] dirs string_sym show ?thesis by blast
    qed
    then have "g_board e x = ?c2 x" for x unfolding e(6) by (metis (no_types, lifting))
    then have "g_board e = ?c2" by (rule ext)
    then show ?thesis using e(1-5) nl by auto
  qed
qed

lemma refill_dirs_settled:
  "refill_dirs zob q l is b = Some c \<Longrightarrow> settled b \<Longrightarrow> q = BLACK \<or> q = WHITE \<Longrightarrow>
    (\<And>x. g_board b x = EMPTY \<Longrightarrow> 0 < x) \<Longrightarrow> settled c \<and> (\<forall>x. g_board c x = EMPTY \<longrightarrow> 0 < x)"
proof (induction zob q l "is" b rule: refill_dirs.induct)
  case (2 zob q l i "is" b)
  from "2.prems"(1) obtain b1 where b1:
    "(if g_board b (nbrs b l ! i) = EMPTY then floodFillStones zob q (nbrs b l ! i) b else Some b) = Some b1"
    "refill_dirs zob q l is b1 = Some c" by (auto simp: bind_eq_Some_conv)
  have "settled b1 \<and> (\<forall>x. g_board b1 x = EMPTY \<longrightarrow> 0 < x)"
    using b1(1) flood_fill_settled [of zob q "nbrs b l ! i" b b1] "2.prems"(2-4) by (auto split: if_splits)
  with "2.IH" [OF b1] "2.prems"(3) show ?case by blast
qed simp

text \<open>
  What a recorded move leaves, and that the record undoes it on every board with that position,
  whatever the heads and the order of its chains are.
\<close>

definition recorded :: "player \<Rightarrow> loc \<Rightarrow> goban \<Rightarrow> move_record" where
  "recorded p l b = \<lparr>mr_pla = p, mr_loc = l, mr_ko = simple_ko_point b, mr_cap_dirs = cap_dirs (get_opp p) l b,
     mr_self_cap = (rule_move (dy b) p l (g_board b) l = EMPTY), mr_captures = num_captures_made b,
     mr_moves = num_non_pass_moves_made b\<rparr>"

lemma recorded_play:
  assumes "board_inv b" "g_board b l = EMPTY" "p = BLACK \<or> p = WHITE" "l \<noteq> PASS_LOC"
  obtains c where "playRecordedUnsafe zob p l b = Some (c, recorded p l b)" "board_inv c"
    "g_board c = rule_move (dy b) p l (g_board b)" "simple_ko_point c = rule_ko (dy b) p l (g_board b)"
    "g_x_size c = g_x_size b" "g_y_size c = g_y_size b" "g_pla c = get_opp p" "playUnsafe zob p l b = Some c"
proof -
  have ok: "board_ok b" using assms(1) by (simp add: board_inv_def)
  obtain c0 where c0: "add_unsafe zob p l b = Some c0" "board_ok c0" "g_board c0 = rule_move (dy b) p l (g_board b)"
    "g_x_size c0 = g_x_size b" "g_y_size c0 = g_y_size b" "simple_ko_point c0 = rule_ko (dy b) p l (g_board b)"
    by (rule add_unsafe_ok [OF ok assms(2,3)])
  define c where "c = c0\<lparr>g_pla := get_opp p\<rparr>"
  have u: "playUnsafe zob p l b = Some c" using c0(1) assms(4) by (simp add: playUnsafe_def c_def)
  moreover from u have "playRecordedUnsafe zob p l b = Some (c, recorded p l b)"
    using c0(3) by (simp add: playRecordedUnsafe_def recorded_def c_def)
  moreover have "g_board c0 x = WALL \<longleftrightarrow> g_board b x = WALL" for x
    unfolding c0(3) by (rule rule_move_wall) (use assms(2,3) in \<open>auto simp: colors\<close>)
  from board_inv_move [OF assms(1) c0(2,4,5) this] have "board_inv c" by (simp add: c_def)
  ultimately show ?thesis using that c0 by (simp add: c_def)
qed

lemma undo_recorded:
  assumes "board_inv b" "g_board b l = EMPTY" "p = BLACK \<or> p = WHITE" "l \<noteq> PASS_LOC"
    and c: "chains_ok c" "maximal c" "low c" "g_board c = rule_move (dy b) p l (g_board b)"
      "g_x_size c = g_x_size b" "g_y_size c = g_y_size b"
  obtains e where "undo zob (recorded p l b) c = Some e" "board_inv e"
    "g_board e = g_board b" "simple_ko_point e = simple_ko_point b" "g_pla e = p" "g_x_size e = g_x_size b"
    "g_y_size e = g_y_size b" "num_captures_made e = num_captures_made b"
    "num_non_pass_moves_made e = num_non_pass_moves_made b"
proof -
  have ok: "board_ok b" using assms(1) by (simp add: board_inv_def)
  define b1 where "b1 = c\<lparr>simple_ko_point := simple_ko_point b, g_pla := p, num_captures_made := num_captures_made b,
           num_non_pass_moves_made := num_non_pass_moves_made b\<rparr>"
  have b1: "chains_ok b1" "maximal b1" "g_board b1 = rule_move (dy b) p l (g_board b)" "g_x_size b1 = g_x_size b"
    using c by (simp_all add: b1_def)
  from undo_before_take_back [OF ok assms(2,3) b1, of zob] obtain f g where g:
    "refill_dirs zob (get_opp p) l (cap_dirs (get_opp p) l b) b1 = Some f"
    "(if g_board b1 l = EMPTY then floodFillStones zob p l f else Some f) = Some g"
    "chains_ok g" "maximal g" "same_game b1 g" "simple_ko_point g = simple_ko_point b1" "g_board g = (g_board b)(l := p)" by blast
  have st: "is_stone g l" using g(7) assms(3) by (simp add: is_stone_def)
  obtain e where e: "take_back zob (g_board g l) l g = Some e" "chains_ok e" "maximal e"
    "g_board e = (g_board g)(l := EMPTY)" "same_game g e" "simple_ko_point e = simple_ko_point g"
    by (rule take_back_ok [OF g(3,4) st])
  have ge: "g_board e = g_board b" using e(4) g(7) assms(2) by auto
  have sz: "g_x_size e = g_x_size b" "g_y_size e = g_y_size b" "g_pla e = p" "simple_ko_point e = simple_ko_point b"
    "num_captures_made e = num_captures_made b" "num_non_pass_moves_made e = num_non_pass_moves_made b"
    using e(5,6) g(5,6) c(5,6) by (auto simp: same_game_def b1_def)
  have "low e"
  proof -
    have pos: "g_board b1 x = EMPTY \<Longrightarrow> 0 < x" for x using b1(1) by (auto simp: chains_ok_def geometry_def colors)
    have q1: "settled b1" using c(3) chains_headed [OF b1(1)] by (simp add: settled_def b1_def)
    have f: "settled f \<and> (\<forall>x. g_board f x = EMPTY \<longrightarrow> 0 < x)"
      by (rule refill_dirs_settled [OF g(1) q1 opp_facts(4) [OF assms(3)] pos])
    have "0 < l" using ok assms(2) by (auto simp: board_ok_def chains_ok_def geometry_def colors)
    then have "settled g" using g(2) f flood_fill_settled [of zob p l f g] assms(3) by (auto split: if_splits)
    then have "low g" by (rule settled_low)
    then show ?thesis using take_back_low [OF e(1) g(3)] g(7) assms(3) by simp
  qed
  then have "board_ok e" using e(2,3) ok sz(1) unfolding board_ok_def is_stone_def ge dy_def by simp
  then have inv: "board_inv e" using board_inv_move [OF assms(1) _ sz(1,2)] ge by simp
  have "undo zob (recorded p l b) c = Some e"
    using g(1,2,7) e(1) assms(4) c(4) by (simp add: undo_def Let_def recorded_def b1_def)
  then show ?thesis using that [of e] inv ge sz by blast
qed

end
