(* ===== verification/Board_Queries.thy ===== *)
theory Board_Queries
  imports Board_Undo
begin

text \<open>
  The queries that walk around chains: liberties of a chain, captures next to it, and the number of
  liberties a stone would have. The loops do not change the board, so each runs over the list of the
  stones that \<open>chain_walk\<close> collects.
\<close>

section \<open>Liberties and captures around a chain\<close>

definition add_new :: "loc \<Rightarrow> loc list \<Rightarrow> loc list" where
  "add_new x buf = (if x \<in> set buf then buf else buf @ [x])"

definition findLiberties :: "goban \<Rightarrow> loc \<Rightarrow> loc list \<Rightarrow> loc list option" where
  "findLiberties b l buf = do {
     xs \<leftarrow> chain_walk b l l;
     Some (fold (\<lambda>x buf. fold (\<lambda>a buf. if g_board b a = EMPTY then add_new a buf else buf) (nbrs b x) buf) xs buf) }"

fun gaining_captures :: "goban \<Rightarrow> player \<Rightarrow> loc list \<Rightarrow> loc list \<times> loc list \<Rightarrow> (loc list \<times> loc list) option" where
  "gaining_captures b opp [] s = Some s"
| "gaining_captures b opp (a # as) (buf, checked) =
    (if g_board b a = opp \<and> group_liberty_count b (group_head b a) = 1 \<and> group_head b a \<notin> set checked
     then do { buf' \<leftarrow> findLiberties b a buf; gaining_captures b opp as (buf', checked @ [group_head b a]) }
     else gaining_captures b opp as (buf, checked))"

definition findLibertyGainingCaptures :: "goban \<Rightarrow> loc \<Rightarrow> loc list \<Rightarrow> loc list option" where
  "findLibertyGainingCaptures b l buf = do {
     xs \<leftarrow> chain_walk b l l;
     (buf', checked) \<leftarrow> gaining_captures b (get_opp (g_board b l)) (concat (map (nbrs b) xs)) (buf, []);
     Some buf' }"

definition hasLibertyGainingCaptures :: "goban \<Rightarrow> loc \<Rightarrow> bool option" where
  "hasLibertyGainingCaptures b l = do {
     xs \<leftarrow> chain_walk b l l;
     Some (list_ex (\<lambda>x. list_ex (\<lambda>a. g_board b a = get_opp (g_board b l)
       \<and> group_liberty_count b (group_head b a) = 1) (nbrs b x)) xs) }"

definition wouldBeKoCapture :: "goban \<Rightarrow> loc \<Rightarrow> player \<Rightarrow> bool" where
  "wouldBeKoCapture b l p =
    (if g_board b l \<noteq> EMPTY then False
     else if list_ex (\<lambda>a. g_board b a \<noteq> WALL \<and> g_board b a \<noteq> get_opp p) (nbrs b l) then False
     else (case filter (\<lambda>a. g_board b a = get_opp p \<and> group_liberty_count b (group_head b a) = 1) (nbrs b l) of
       [a] \<Rightarrow> group_stone_count b (group_head b a) = 1
     | _ \<Rightarrow> False))"

definition countHeuristicConnectionLiberties :: "goban \<Rightarrow> loc \<Rightarrow> player \<Rightarrow> rat" where
  "countHeuristicConnectionLiberties b l p = sum_list (map (\<lambda>a. if g_board b a = p
     then max 0 (of_int (group_liberty_count b (group_head b a)) - 3 / 2) else 0) (nbrs b l))"

section \<open>Liberties after a move\<close>

text \<open>\<open>Inl\<close> is an early return of the bound, \<open>Inr\<close> the liberties found so far.\<close>

definition push_lib :: "int \<Rightarrow> loc \<Rightarrow> loc list \<Rightarrow> int + loc list" where
  "push_lib maxLibs x libs = (if int (length (libs @ [x])) \<ge> maxLibs then Inl maxLibs else Inr (libs @ [x]))"

fun immediate_libs :: "goban \<Rightarrow> player \<Rightarrow> int \<Rightarrow> loc list \<Rightarrow> loc list \<times> loc list \<Rightarrow> int + (loc list \<times> loc list)" where
  "immediate_libs b opp maxLibs [] s = Inr s"
| "immediate_libs b opp maxLibs (a # as) (libs, heads) =
    (if g_board b a = EMPTY then
       bindE (push_lib maxLibs a libs) (\<lambda>libs'. immediate_libs b opp maxLibs as (libs', heads))
     else if g_board b a = opp \<and> num_liberties b a = 1 then
       bindE (push_lib maxLibs a libs) (\<lambda>libs'. immediate_libs b opp maxLibs as
         (libs', if group_head b a \<in> set heads then heads else heads @ [group_head b a]))
     else immediate_libs b opp maxLibs as (libs, heads))"

definition would_be_empty :: "goban \<Rightarrow> player \<Rightarrow> loc list \<Rightarrow> loc \<Rightarrow> bool" where
  "would_be_empty b opp heads x = (if g_board b x = EMPTY then True
     else if g_board b x = opp then group_head b x \<in> set heads else False)"

fun push_all :: "int \<Rightarrow> (loc \<Rightarrow> bool) \<Rightarrow> loc list \<Rightarrow> loc list \<Rightarrow> int + loc list" where
  "push_all maxLibs P [] libs = Inr libs"
| "push_all maxLibs P (x # xs) libs =
    (if P x \<and> x \<notin> set libs then bindE (push_lib maxLibs x libs) (push_all maxLibs P xs)
     else push_all maxLibs P xs libs)"

fun connect_libs :: "goban \<Rightarrow> player \<Rightarrow> int \<Rightarrow> (loc \<Rightarrow> bool) \<Rightarrow> loc list \<Rightarrow> loc list \<times> loc list \<Rightarrow> (int + loc list) option" where
  "connect_libs b p maxLibs P [] (libs, heads) = Some (Inr libs)"
| "connect_libs b p maxLibs P (a # as) (libs, heads) =
    (if g_board b a = p \<and> group_head b a \<notin> set heads
     then do {
       xs \<leftarrow> chain_walk b a a;
       (case push_all maxLibs P (concat (map (nbrs b) xs)) libs of
          Inl v \<Rightarrow> Some (Inl v)
        | Inr libs' \<Rightarrow> connect_libs b p maxLibs P as (libs', heads @ [group_head b a])) }
     else connect_libs b p maxLibs P as (libs, heads))"

definition get_liberties_after_play :: "goban \<Rightarrow> player \<Rightarrow> loc \<Rightarrow> int \<Rightarrow> int option" where
  "get_liberties_after_play b p l maxLibs =
    (case immediate_libs b (get_opp p) maxLibs (nbrs b l) ([], []) of
       Inl v \<Rightarrow> Some v
     | Inr (libs, caps) \<Rightarrow> do {
         r \<leftarrow> connect_libs b p maxLibs (\<lambda>x. x \<noteq> l \<and> would_be_empty b (get_opp p) caps x) (nbrs b l) (libs, []);
         Some (case r of Inl v \<Rightarrow> v | Inr libs' \<Rightarrow> int (length libs')) })"

section \<open>The walks end and find exactly the liberties\<close>

lemma chain_walk_ok:
  assumes "chains_ok b" "maximal b" "is_stone b l"
  obtains xs where "chain_walk b l l = Some xs" "set xs = string_of (dy b) (g_board b) l"
proof -
  have "chain_ok b (group_head b l)" using assms by (auto simp: chains_ok_def)
  then obtain xs where xs: "ring (group_next b) xs" "set xs = grp b (group_head b l)" unfolding chain_ok_def by blast
  have "l \<in> set xs" using xs(2) head_facts(5) [OF assms(1,3)] by simp
  from ring_from [OF xs(1) this] obtain ys where ys: "ring (group_next b) (l # ys)" "set (l # ys) = set xs" .
  have "chain_walk b l l = Some (l # ys)" by (rule chain_walk_path) (use ys(1) in \<open>auto simp: ring_Cons\<close>)
  with that ys(2) xs(2) chain_string [OF assms] show ?thesis by simp
qed

lemma fold_add_new:
  "set (fold (\<lambda>a buf. if P a then add_new a buf else buf) as buf) = set buf \<union> {a \<in> set as. P a}"
  "distinct buf \<Longrightarrow> distinct (fold (\<lambda>a buf. if P a then add_new a buf else buf) as buf)"
  by (induction as arbitrary: buf) (auto simp: add_new_def)

lemma fold_fold_add_new:
  "set (fold (\<lambda>x buf. fold (\<lambda>a buf. if P a then add_new a buf else buf) (f x) buf) xs buf) =
     set buf \<union> {a. P a \<and> (\<exists>x \<in> set xs. a \<in> set (f x))}"
  "distinct buf \<Longrightarrow> distinct (fold (\<lambda>x buf. fold (\<lambda>a buf. if P a then add_new a buf else buf) (f x) buf) xs buf)"
  by (induction xs arbitrary: buf) (auto simp: fold_add_new)

lemma findLiberties_ok:
  assumes "chains_ok b" "maximal b" "is_stone b l"
  shows "\<exists>ls. findLiberties b l buf = Some ls \<and> set ls = set buf \<union> liberties (dy b) (g_board b) l
    \<and> (distinct buf \<longrightarrow> distinct ls)"
proof -
  obtain xs where xs: "chain_walk b l l = Some xs" "set xs = string_of (dy b) (g_board b) l"
    by (rule chain_walk_ok [OF assms])
  have "{a. g_board b a = EMPTY \<and> (\<exists>x \<in> set xs. a \<in> set (nbrs b x))} = liberties (dy b) (g_board b) l"
    unfolding xs(2) by (simp add: liberties_def)
  then show ?thesis
    by (simp add: findLiberties_def xs(1) fold_fold_add_new [where P = "\<lambda>a. g_board b a = EMPTY" and f = "nbrs b"])
qed

lemma findLiberties_count:
  assumes "chains_ok b" "maximal b" "is_stone b l" "findLiberties b l [] = Some ls"
  shows "int (length ls) = group_liberty_count b (group_head b l)"
  using findLiberties_ok [OF assms(1-3), of "[]"] assms(4) chain_liberties(1) [OF assms(1-3)]
  by (auto simp: distinct_card [symmetric])

lemma gaining_captures_total:
  assumes "chains_ok b" "maximal b" "opp = BLACK \<or> opp = WHITE"
  shows "\<exists>r. gaining_captures b opp as s = Some r"
proof (induction as arbitrary: s)
  case (Cons a as)
  obtain buf checked where s: "s = (buf, checked)" by (cases s)
  show ?case
  proof (cases "g_board b a = opp \<and> group_liberty_count b (group_head b a) = 1 \<and> group_head b a \<notin> set checked")
    case True
    then have "is_stone b a" using assms(3) by (simp add: is_stone_def)
    from findLiberties_ok [OF assms(1,2) this, of buf] obtain ls where "findLiberties b a buf = Some ls" by blast
    with Cons [of "(ls, checked @ [group_head b a])"] True show ?thesis by (simp add: s)
  next
    case False
    then have "gaining_captures b opp (a # as) s = gaining_captures b opp as s" unfolding s by (simp only: gaining_captures.simps if_False)
    with Cons [of s] show ?thesis by (simp only:)
  qed
qed simp

lemma queries_total:
  assumes "board_inv b" "is_stone b l"
  shows "\<exists>ls. findLiberties b l buf = Some ls" "\<exists>ls. findLibertyGainingCaptures b l buf = Some ls"
    "\<exists>r. hasLibertyGainingCaptures b l = Some r"
proof -
  have ok: "chains_ok b" "maximal b" using assms(1) by (auto simp: board_inv_def board_ok_def)
  show "\<exists>ls. findLiberties b l buf = Some ls" using findLiberties_ok [OF ok assms(2)] by blast
  obtain xs where xs: "chain_walk b l l = Some xs" by (rule chain_walk_ok [OF ok assms(2)])
  have "get_opp (g_board b l) = BLACK \<or> get_opp (g_board b l) = WHITE"
    using opp_facts(4) [of "g_board b l"] assms(2) by (simp add: is_stone_def)
  from gaining_captures_total [OF ok this] xs
  show "\<exists>ls. findLibertyGainingCaptures b l buf = Some ls"
    by (metis (no_types, lifting) bind.bind_lunit findLibertyGainingCaptures_def old.prod.case old.prod.exhaust)
  show "\<exists>r. hasLibertyGainingCaptures b l = Some r" by (simp add: hasLibertyGainingCaptures_def xs)
qed

section \<open>The liberties after a move, exactly\<close>

text \<open>
  Every stage of the count keeps a list of distinct liberties below the bound, or has returned the
  bound after that many were found.
\<close>

definition counted :: "int \<Rightarrow> loc set \<Rightarrow> int + loc list \<Rightarrow> bool" where
  "counted m T r \<longleftrightarrow> (case r of Inl v \<Rightarrow> v = m \<and> m \<le> int (card T)
     | Inr libs \<Rightarrow> distinct libs \<and> set libs = T \<and> int (length libs) < m)"

lemma push_lib_counted:
  assumes "distinct libs" "x \<notin> set libs" "int (length libs) < m"
  shows "counted m (insert x (set libs)) (push_lib m x libs)"
  using assms by (auto simp: counted_def push_lib_def distinct_card)

lemma counted_mono: "counted m T (Inl v) \<Longrightarrow> T \<subseteq> U \<Longrightarrow> finite U \<Longrightarrow> counted m U (Inl v)"
  using card_mono [of U T] by (auto simp: counted_def)

lemma push_all_counted:
  assumes "distinct libs" "int (length libs) < m"
  shows "counted m (set libs \<union> {x \<in> set xs. P x}) (push_all m P xs libs)"
  using assms
proof (induction xs arbitrary: libs)
  case Nil
  then show ?case by (simp add: counted_def)
next
  case (Cons x xs)
  show ?case
  proof (cases "P x \<and> x \<notin> set libs")
    case False
    have "set libs \<union> {y \<in> set (x # xs). P y} = set libs \<union> {y \<in> set xs. P y}" using False by auto
    moreover have "push_all m P (x # xs) libs = push_all m P xs libs" using False by auto
    ultimately show ?thesis using Cons.IH [OF Cons.prems] by (simp only:)
  next
    case True
    note c = push_lib_counted [OF Cons.prems(1) _ Cons.prems(2), of x]
    have e: "set libs \<union> {y \<in> set (x # xs). P y} = insert x (set libs) \<union> {y \<in> set xs. P y}" using True by auto
    have p: "push_all m P (x # xs) libs = bindE (push_lib m x libs) (push_all m P xs)" using True by simp
    show ?thesis
    proof (cases "push_lib m x libs")
      case (Inl v)
      have "counted m (insert x (set libs) \<union> {y \<in> set xs. P y}) (Inl v)"
        by (rule counted_mono [of _ "insert x (set libs)"]) (use c True Inl in auto)
      then show ?thesis unfolding e p Inl by simp
    next
      case (Inr libs')
      then have l: "distinct libs'" "set libs' = insert x (set libs)" "int (length libs') < m"
        using c True by (auto simp: counted_def)
      have "counted m (set libs' \<union> {y \<in> set xs. P y}) (push_all m P xs libs')" by (rule Cons.IH [OF l(1,3)])
      then show ?thesis unfolding e p Inr l(2) by simp
    qed
  qed
qed

lemma immediate_libs_counted:
  assumes "distinct libs" "int (length libs) < m" "set libs \<inter> set as = {}" "distinct as"
    "T = set libs \<union> {a \<in> set as. g_board b a = EMPTY \<or> g_board b a = opp \<and> num_liberties b a = 1}"
  shows "case immediate_libs b opp m as (libs, heads) of Inl v \<Rightarrow> v = m \<and> m \<le> int (card T)
    | Inr (libs', heads') \<Rightarrow> counted m T (Inr libs') \<and>
        set heads' = set heads \<union> {group_head b a | a. a \<in> set as \<and> g_board b a \<noteq> EMPTY \<and> g_board b a = opp \<and> num_liberties b a = 1}"
  using assms
proof (induction as arbitrary: libs heads)
  case Nil
  then show ?case by (simp add: counted_def)
next
  case (Cons a as)
  let ?hit = "g_board b a = EMPTY \<or> g_board b a = opp \<and> num_liberties b a = 1"
  let ?heads = "if g_board b a \<noteq> EMPTY \<and> group_head b a \<notin> set heads then heads @ [group_head b a] else heads"
  show ?case
  proof (cases ?hit)
    case False
    have "T = set libs \<union> {a \<in> set as. g_board b a = EMPTY \<or> g_board b a = opp \<and> num_liberties b a = 1}"
      using Cons.prems(5) False by auto
    from Cons.IH [OF Cons.prems(1,2) _ _ this, of heads] Cons.prems(3,4) False show ?thesis
      by (auto split: sum.splits prod.splits)
  next
    case True
    have e: "immediate_libs b opp m (a # as) (libs, heads) =
        bindE (push_lib m a libs) (\<lambda>libs'. immediate_libs b opp m as (libs', ?heads))" using True by auto
    have c: "counted m (insert a (set libs)) (push_lib m a libs)"
      by (rule push_lib_counted) (use Cons.prems in auto)
    show ?thesis
    proof (cases "push_lib m a libs")
      case (Inl v)
      have "insert a (set libs) \<subseteq> T" "finite T" using True Cons.prems(5) by auto
      from card_mono [OF this(2,1)] c show ?thesis unfolding e Inl by (simp add: counted_def)
    next
      case (Inr libs')
      then have l: "distinct libs'" "set libs' = insert a (set libs)" "int (length libs') < m"
        using c by (auto simp: counted_def)
      have "T = set libs' \<union> {a \<in> set as. g_board b a = EMPTY \<or> g_board b a = opp \<and> num_liberties b a = 1}"
        using Cons.prems(5) True l(2) by auto
      from Cons.IH [OF l(1,3) _ _ this, of ?heads] Cons.prems(3,4) l(2) True show ?thesis
        unfolding e Inr by (auto split: sum.splits prod.splits)
    qed
  qed
qed

text \<open>The locations satisfying \<open>P\<close> beside the chains of one colour that the given locations are in.\<close>

definition beside_chains :: "goban \<Rightarrow> player \<Rightarrow> (loc \<Rightarrow> bool) \<Rightarrow> loc set \<Rightarrow> loc set" where
  "beside_chains b p P A =
    {x. P x \<and> (\<exists>a \<in> A. g_board b a = p \<and> (\<exists>y \<in> string_of (dy b) (g_board b) a. x \<in> around (dy b) y))}"

lemma beside_chains_insert: "beside_chains b p P (insert a A) = beside_chains b p P {a} \<union> beside_chains b p P A"
  by (auto simp: beside_chains_def)

lemma beside_chains_finite:
  assumes "chains_ok b" "maximal b" "p = BLACK \<or> p = WHITE" "finite A"
  shows "finite (beside_chains b p P A)"
proof -
  have "finite (string_of (dy b) (g_board b) a)" if "g_board b a = p" for a
    by (rule chain_walk_ok [OF assms(1,2), of a]) (use that assms(3) in \<open>auto simp: is_stone_def dest: sym\<close>)
  then have "finite (\<Union>a \<in> {a \<in> A. g_board b a = p}. \<Union>y \<in> string_of (dy b) (g_board b) a. around (dy b) y)"
    using assms(4) by simp
  then show ?thesis by (rule finite_subset [rotated]) (auto simp: beside_chains_def)
qed

lemma connect_libs_counted:
  assumes "chains_ok b" "maximal b" "p = BLACK \<or> p = WHITE"
    and "distinct libs" "int (length libs) < m"
    and "\<And>a. g_board b a = p \<Longrightarrow> group_head b a \<in> set heads \<Longrightarrow> beside_chains b p P {a} \<subseteq> set libs"
  shows "\<exists>r. connect_libs b p m P as (libs, heads) = Some r \<and> counted m (set libs \<union> beside_chains b p P (set as)) r"
  using assms(4-6)
proof (induction as arbitrary: libs heads)
  case Nil
  then show ?case by (simp add: counted_def beside_chains_def)
next
  case (Cons a as)
  have stone: "is_stone b a" if "g_board b a = p" for a using that assms(3) by (simp add: is_stone_def)
  show ?case
  proof (cases "g_board b a = p \<and> group_head b a \<notin> set heads")
    case False
    have "beside_chains b p P {a} \<subseteq> set libs"
    proof (cases "g_board b a = p")
      case True
      then show ?thesis using False Cons.prems(3) by blast
    qed (simp add: beside_chains_def)
    then have "set libs \<union> beside_chains b p P (set (a # as)) = set libs \<union> beside_chains b p P (set as)"
      using beside_chains_insert [of b p P a "set as"] by auto
    moreover have "connect_libs b p m P (a # as) (libs, heads) = connect_libs b p m P as (libs, heads)"
      using False by (simp only: connect_libs.simps if_False)
    ultimately show ?thesis using Cons.IH [OF Cons.prems(1,2)] Cons.prems(3) by (simp only:)
  next
    case True
    obtain xs where xs: "chain_walk b a a = Some xs" "set xs = string_of (dy b) (g_board b) a"
      by (rule chain_walk_ok [OF assms(1,2) stone]) (use True in auto)
    let ?r = "push_all m P (concat (map (nbrs b) xs)) libs"
    have found: "{x \<in> set (concat (map (nbrs b) xs)). P x} = beside_chains b p P {a}"
      using True by (auto simp: xs(2) beside_chains_def)
    have c: "counted m (set libs \<union> beside_chains b p P {a}) ?r"
      using push_all_counted [OF Cons.prems(1,2), of "concat (map (nbrs b) xs)" P] unfolding found .
    have T: "set libs \<union> beside_chains b p P (set (a # as)) = (set libs \<union> beside_chains b p P {a}) \<union> beside_chains b p P (set as)"
      using beside_chains_insert [of b p P a "set as"] by auto
    show ?thesis
    proof (cases ?r)
      case (Inl v)
      have "counted m (set libs \<union> beside_chains b p P (set (a # as))) (Inl v)"
        by (rule counted_mono [of _ "set libs \<union> beside_chains b p P {a}"])
          (use c Inl T beside_chains_finite [OF assms(1-3)] in auto)
      then show ?thesis using True xs(1) Inl by simp
    next
      case (Inr libs')
      then have l: "distinct libs'" "set libs' = set libs \<union> beside_chains b p P {a}" "int (length libs') < m"
        using c by (auto simp: counted_def)
      have "beside_chains b p P {z} \<subseteq> set libs'" if z: "g_board b z = p" "group_head b z \<in> set (heads @ [group_head b a])" for z
      proof (cases "group_head b z = group_head b a")
        case True
        have "string_of (dy b) (g_board b) z = string_of (dy b) (g_board b) a"
          using chain_string [OF assms(1,2) stone [OF z(1)]] chain_string [OF assms(1,2) stone [of a]] True
            \<open>g_board b a = p \<and> group_head b a \<notin> set heads\<close> by simp
        then have "beside_chains b p P {z} = beside_chains b p P {a}"
          using z(1) \<open>g_board b a = p \<and> group_head b a \<notin> set heads\<close> by (simp add: beside_chains_def)
        then show ?thesis using l(2) by simp
      next
        case False
        then show ?thesis using Cons.prems(3) [of z] z l(2) by auto
      qed
      then have "\<exists>r. connect_libs b p m P as (libs', heads @ [group_head b a]) = Some r
          \<and> counted m (set libs' \<union> beside_chains b p P (set as)) r" by (rule Cons.IH [OF l(1,3)])
      then show ?thesis using True xs(1) Inr unfolding T l(2) by simp
    qed
  qed
qed

text \<open>The liberties of a new stone on a position, from the strings around it.\<close>

lemma liberties_after_play:
  assumes "all_alive d c" "c l = EMPTY" "p = BLACK \<or> p = WHITE" "2 \<le> d"
    "E = (\<lambda>w. c w = EMPTY \<or> c w = get_opp p \<and> liberties d c w = {l})"
  shows "liberties d (clear d (get_opp p) (c(l := p))) l =
    {w \<in> around d l. E w} \<union> {w. w \<noteq> l \<and> E w \<and> (\<exists>a \<in> around d l. c a = p \<and> (\<exists>y \<in> string_of d c a. w \<in> around d y))}"
proof -
  let ?q = "get_opp p"
  define e where "e = clear d ?q (c(l := p))"
  note q = opp_facts [OF assms(3)]
  have el: "e l = p" using q by (simp add: e_def clear_def)
  have emp: "e w = EMPTY \<longleftrightarrow> w \<noteq> l \<and> E w" for w
    unfolding e_def assms(5) by (rule cleared_around [OF assms(1-3)])
  have nl: "w \<noteq> l" if "w \<in> around d l" for w using that around_irrefl [OF assms(4)] by metis
  show ?thesis unfolding e_def [symmetric]
  proof (intro set_eqI iffI)
    fix w assume "w \<in> liberties d e l"
    then obtain y where y: "e w = EMPTY" "y \<in> string_of d e l" "w \<in> around d y" by (auto simp: liberties_def)
    from own_string_parts [OF y(2) e_def assms(3)] y(3) emp y(1)
    show "w \<in> {w \<in> around d l. E w} \<union> {w. w \<noteq> l \<and> E w \<and> (\<exists>a \<in> around d l. c a = p \<and> (\<exists>y \<in> string_of d c a. w \<in> around d y))}"
      by blast
  next
    fix w assume w: "w \<in> {w \<in> around d l. E w} \<union> {w. w \<noteq> l \<and> E w \<and> (\<exists>a \<in> around d l. c a = p \<and> (\<exists>y \<in> string_of d c a. w \<in> around d y))}"
    then have "e w = EMPTY" using emp nl by blast
    moreover have "\<exists>y \<in> string_of d e l. w \<in> around d y"
      using w string_self own_string_joined [of _ d l c p, OF _ _ assms(3)] unfolding e_def by blast
    ultimately show "w \<in> liberties d e l" by (simp add: liberties_def)
  qed
qed

lemma counted_min: "counted m T r \<Longrightarrow> (case r of Inl v \<Rightarrow> v | Inr libs \<Rightarrow> int (length libs)) = min m (int (card T))"
  by (auto simp: counted_def distinct_card split: sum.splits)

lemma nbrs_distinct: "2 \<le> dy b \<Longrightarrow> distinct (nbrs b l)"
  by (simp add: nbrs_def)

text \<open>A stone is in a chain that the move captures exactly when the move fills its last liberty.\<close>

lemma captured_heads:
  assumes "board_ok b" "g_board b l = EMPTY" "p = BLACK \<or> p = WHITE" "g_board b x = get_opp p"
    "H = {group_head b a | a. a \<in> around (dy b) l \<and> g_board b a \<noteq> EMPTY \<and> g_board b a = get_opp p \<and> num_liberties b a = 1}"
    "\<And>a. a \<in> around (dy b) l \<Longrightarrow> g_board b a = get_opp p \<Longrightarrow>
      num_liberties b a = 1 \<longleftrightarrow> liberties (dy b) (g_board b) a = {l}"
  shows "group_head b x \<in> H \<longleftrightarrow> liberties (dy b) (g_board b) x = {l}"
proof -
  let ?q = "get_opp p" and ?L = "liberties (dy b) (g_board b)"
  note q = opp_facts [OF assms(3)]
  have ok: "chains_ok b" "maximal b" using assms(1) by (auto simp: board_ok_def)
  have stone: "is_stone b a" if "g_board b a = ?q" for a using that q(4) by (simp add: is_stone_def)
  have same: "a \<in> string_of (dy b) (g_board b) x \<longleftrightarrow> group_head b a = group_head b x" if "g_board b a = ?q" for a
    using chain_string [OF ok stone [OF assms(4)]] stone [OF that] by (auto simp: grp_def)
  show ?thesis
  proof
    assume "group_head b x \<in> H"
    then obtain a where a: "a \<in> around (dy b) l" "g_board b a = ?q" "num_liberties b a = 1" "group_head b x = group_head b a"
      unfolding assms(5) by blast
    then show "?L x = {l}" using assms(6) liberties_eq same by metis
  next
    assume x: "?L x = {l}"
    then obtain y where y: "y \<in> string_of (dy b) (g_board b) x" "l \<in> around (dy b) y" by (auto simp: liberties_def)
    have "g_board b y = ?q" using string_color [OF y(1)] assms(4) by simp
    moreover have "y \<in> around (dy b) l" using y(2) around_sym by metis
    moreover have "?L y = {l}" using liberties_eq [OF y(1)] x by simp
    ultimately have "group_head b y \<in> H" unfolding assms(5) using assms(6) q(2) by auto
    then show "group_head b x \<in> H" using same [OF \<open>g_board b y = ?q\<close>] y(1) by simp
  qed
qed

lemma get_liberties_after_play_exact:
  assumes "board_ok b" "2 \<le> dy b" "g_board b l = EMPTY" "p = BLACK \<or> p = WHITE" "0 < m"
  shows "get_liberties_after_play b p l m =
    Some (min m (int (card (liberties (dy b) (clear (dy b) (get_opp p) ((g_board b)(l := p))) l))))"
proof -
  let ?q = "get_opp p" and ?A = "around (dy b) l" and ?c = "g_board b"
  let ?L = "liberties (dy b) ?c"
  note q = opp_facts [OF assms(4)]
  have ok: "chains_ok b" "maximal b" "all_alive (dy b) ?c" using assms(1) board_ok_alive by (auto simp: board_ok_def)
  let ?E = "\<lambda>w. ?c w = EMPTY \<or> ?c w = ?q \<and> ?L w = {l}"
  let ?P = "\<lambda>x. x \<noteq> l \<and> ?E x"
  have one: "num_liberties b a = 1 \<longleftrightarrow> ?L a = {l}" if a: "a \<in> ?A" "?c a = ?q" for a
  proof -
    have st: "is_stone b a" using a(2) q(4) by (simp add: is_stone_def)
    have "l \<in> ?L a" using a(1) assms(3) around_sym string_self by (fastforce simp: liberties_def)
    from liberties_singleton(1) [OF assms(1) st this] show ?thesis
      using stone_not_wall [OF st] by (simp add: num_liberties_def)
  qed
  define T1 where "T1 = {a \<in> ?A. ?c a = EMPTY \<or> ?c a = ?q \<and> num_liberties b a = 1}"
  have T1: "T1 = {w \<in> ?A. ?E w}" unfolding T1_def using one by blast
  have T: "liberties (dy b) (clear (dy b) ?q (?c(l := p))) l = T1 \<union> beside_chains b p ?P ?A"
    unfolding T1 beside_chains_def liberties_after_play [OF ok(3) assms(3,4,2) refl] conj_assoc ..
  have fin: "finite (T1 \<union> beside_chains b p ?P ?A)"
    using beside_chains_finite [OF ok(1,2) assms(4)] by (simp add: T1_def)
  have imm: "case immediate_libs b ?q m (nbrs b l) ([], []) of Inl v \<Rightarrow> v = m \<and> m \<le> int (card T1)
    | Inr (libs', heads') \<Rightarrow> counted m T1 (Inr libs') \<and>
        set heads' = set [] \<union> {group_head b a | a. a \<in> set (nbrs b l) \<and> ?c a \<noteq> EMPTY \<and> ?c a = ?q \<and> num_liberties b a = 1}"
    by (rule immediate_libs_counted) (use nbrs_distinct [OF assms(2)] assms(5) in \<open>simp_all add: T1_def\<close>)
  show ?thesis
  proof (cases "immediate_libs b ?q m (nbrs b l) ([], [])")
    case (Inl v)
    then have "v = m" "m \<le> int (card T1)" using imm unfolding Inl by simp_all
    moreover have "card T1 \<le> card (T1 \<union> beside_chains b p ?P ?A)" by (rule card_mono [OF fin]) simp
    ultimately show ?thesis unfolding T get_liberties_after_play_def Inl by simp
  next
    case (Inr r)
    obtain libs caps where r: "r = (libs, caps)" by (cases r)
    have l: "counted m T1 (Inr libs)" "set caps = {group_head b a | a. a \<in> ?A \<and> ?c a \<noteq> EMPTY \<and> ?c a = ?q \<and> num_liberties b a = 1}"
      using imm unfolding Inr r by simp_all
    have w: "would_be_empty b ?q caps x \<longleftrightarrow> ?E x" for x
    proof (cases "?c x = ?q")
      case True
      have "group_head b x \<in> set caps \<longleftrightarrow> ?L x = {l}"
        by (rule captured_heads [OF assms(1,3,4) True l(2)]) (use one in blast)
      then show ?thesis using True q by (simp add: would_be_empty_def)
    qed (simp add: would_be_empty_def)
    have ll: "distinct libs" "set libs = T1" "int (length libs) < m" using l(1) by (auto simp: counted_def)
    from connect_libs_counted [OF ok(1,2) assms(4) ll(1,3), of "[]" ?P "nbrs b l"] obtain s
      where s: "connect_libs b p m ?P (nbrs b l) (libs, []) = Some s" "counted m (T1 \<union> beside_chains b p ?P ?A) s"
      using ll(2) by auto
    show ?thesis unfolding T get_liberties_after_play_def Inr r
      by (simp only: sum.case prod.case w s(1) counted_min [OF s(2)] Option.bind.bind_lunit)
  qed
qed

end
