(* ===== verification/Board_Ladder.thy ===== *)
theory Board_Ladder
  imports Board_Queries
begin

text \<open>
  The ladder search of the board: an AND/OR search over the moves next to a chain, with an explicit
  stack of move lists and records in arrays of a fixed size, that plays every move on the board
  itself and undoes it.
\<close>

section \<open>The search\<close>

datatype ladder_error = LadderAssertion | LadderIndex | LadderType

record ladder_state =
  ls_board :: goban
  moveLists :: "loc list list"
  moveListCur :: "int list"
  ls_records :: "move_record option list"
  stackIdx :: int
  returnValue :: bool
  returnedFromDeeper :: bool

definition ladder_return :: "bool \<Rightarrow> ladder_state \<Rightarrow> ladder_state" where
  "ladder_return v s = s\<lparr>returnValue := v, returnedFromDeeper := True, stackIdx := stackIdx s - 1\<rparr>"

definition isDefender :: "bool \<Rightarrow> int \<Rightarrow> bool" where
  "isDefender defenderFirst k \<longleftrightarrow> defenderFirst \<and> k mod 2 = 0 \<or> \<not> defenderFirst \<and> k mod 2 = 1"

text \<open>The double ko that the attacker is assumed to win.\<close>

definition double_ko :: "goban \<Rightarrow> loc \<Rightarrow> player \<Rightarrow> loc \<Rightarrow> loc \<Rightarrow> bool option" where
  "double_ko b l pla move0 move1 =
    (if count_immediate_liberties b move0 = 0 \<and> count_immediate_liberties b move1 = 0
        \<and> wouldBeKoCapture b move0 (get_opp pla) \<and> wouldBeKoCapture b move1 (get_opp pla)
     then do {
       n0 \<leftarrow> get_liberties_after_play b pla move0 3;
       n1 \<leftarrow> get_liberties_after_play b pla move1 3;
       if n0 \<le> 2 \<and> n1 \<le> 2 then hasLibertyGainingCaptures b l else Some False }
     else Some False)"

text \<open>The moves left after the early quits, in the order of the heuristic; \<open>Inl\<close> returns at once.\<close>

definition attacker_order :: "goban \<Rightarrow> player \<Rightarrow> loc \<Rightarrow> loc \<Rightarrow> bool + loc list" where
  "attacker_order b pla move0 move1 =
    (let libs0 = count_immediate_liberties b move0; libs1 = count_immediate_liberties b move1;
         apart = (\<not> is_adjacent b move0 move1)
     in if apart \<and> libs0 \<ge> 3 \<and> libs1 \<ge> 3 then Inl False
        else if apart \<and> libs0 \<ge> 3 then Inr [move0]
        else if apart \<and> libs1 \<ge> 3 then Inr [move1]
        else if of_int libs1 + countHeuristicConnectionLiberties b move1 pla
              > of_int libs0 + countHeuristicConnectionLiberties b move0 pla
        then Inr [move1, move0] else Inr [move0, move1])"

definition attacker_moves :: "goban \<Rightarrow> loc \<Rightarrow> player \<Rightarrow> (ladder_error + (bool + loc list)) option" where
  "attacker_moves b l pla = do {
     ms \<leftarrow> findLiberties b l [];
     if length ms \<noteq> 2 then Some (Inl LadderAssertion)
     else do {
       dk \<leftarrow> double_ko b l pla (ms ! 0) (ms ! 1);
       Some (Inr (if dk then Inl True else attacker_order b pla (ms ! 0) (ms ! 1))) } }"

text \<open>Entering a level: the base cases, or the moves to search.\<close>

definition ladder_moves :: "goban \<Rightarrow> loc \<Rightarrow> player \<Rightarrow> bool \<Rightarrow> (ladder_error + (bool + loc list)) option" where
  "ladder_moves b l pla isDef =
    (let libs = group_liberty_count b (group_head b l)
     in if \<not> isDef \<and> libs \<le> 1 then Some (Inr (Inl True))
        else if \<not> isDef \<and> libs \<ge> 3 then Some (Inr (Inl False))
        else if isDef \<and> libs \<ge> 2 then Some (Inr (Inl False))
        else if isDef \<and> simple_ko_point b \<noteq> None then Some (Inr (Inl False))
        else if isDef then do {
          ms \<leftarrow> findLibertyGainingCaptures b l [];
          ms' \<leftarrow> findLiberties b l ms;
          Some (Inr (Inr ms')) }
        else attacker_moves b l pla)"

text \<open>Searching the next move of a level, if there is one.\<close>

definition ladder_try :: "zobrist_table \<Rightarrow> player \<Rightarrow> bool \<Rightarrow> ladder_state \<Rightarrow> (ladder_error + ladder_state) option" where
  "ladder_try zob pla isDef s =
    (let k = nat (stackIdx s); cur = moveListCur s ! k; ms = moveLists s ! k; b = ls_board s
     in if cur \<ge> int (length ms) then Some (Inr (ladder_return isDef s))
        else let move = ms ! nat cur; p = (if isDef then pla else get_opp pla)
        in if \<not> would_be_legal b p move
           then Some (Inr (s\<lparr>returnValue := isDef, returnedFromDeeper := False\<rparr>))
           else do {
             (c, r) \<leftarrow> playRecordedUnsafe zob p move b;
             Some (if Suc k < length (moveListCur s)
               then Inr (s\<lparr>ls_board := c, ls_records := (ls_records s)[k := Some r], stackIdx := stackIdx s + 1,
                 moveListCur := (moveListCur s)[Suc k := - 1], moveLists := (moveLists s)[Suc k := []]\<rparr>)
               else Inl LadderIndex) })"

definition ladder_undo :: "zobrist_table \<Rightarrow> ladder_state \<Rightarrow> (ladder_error + goban) option" where
  "ladder_undo zob s =
    (if returnedFromDeeper s
     then (case ls_records s ! nat (stackIdx s) of None \<Rightarrow> Some (Inl LadderType)
       | Some r \<Rightarrow> map_option Inr (undo zob r (ls_board s)))
     else Some (Inr (ls_board s)))"

definition ladder_body :: "zobrist_table \<Rightarrow> loc \<Rightarrow> player \<Rightarrow> bool \<Rightarrow> ladder_state \<Rightarrow> (ladder_error + ladder_state) option" where
  "ladder_body zob l pla defenderFirst s =
    (let k = nat (stackIdx s); isDef = isDefender defenderFirst (stackIdx s); cur = moveListCur s ! k
     in if cur = - 1
        then do {
          r \<leftarrow> ladder_moves (ls_board s) l pla isDef;
          (case r of Inl e \<Rightarrow> Some (Inl e)
           | Inr (Inl v) \<Rightarrow> Some (Inr (ladder_return v s))
           | Inr (Inr ms) \<Rightarrow> ladder_try zob pla isDef
               (s\<lparr>moveLists := (moveLists s)[k := ms], moveListCur := (moveListCur s)[k := 0]\<rparr>)) }
        else if \<not> (cur \<ge> 0 \<and> cur < int (length (moveLists s ! k))) then Some (Inl LadderAssertion)
        else do {
          r \<leftarrow> ladder_undo zob s;
          (case r of Inl e \<Rightarrow> Some (Inl e)
           | Inr c \<Rightarrow>
               if isDef \<and> \<not> returnValue s \<or> \<not> isDef \<and> returnValue s
               then Some (Inr (ladder_return (returnValue s) (s\<lparr>ls_board := c\<rparr>)))
               else ladder_try zob pla isDef
                 (s\<lparr>ls_board := c, moveListCur := (moveListCur s)[k := cur + 1]\<rparr>)) })"

partial_function (option) ladder_loop :: "zobrist_table \<Rightarrow> loc \<Rightarrow> player \<Rightarrow> bool \<Rightarrow> ladder_state \<Rightarrow> (ladder_error + ladder_state) option" where
  "ladder_loop zob l pla defenderFirst s =
    (if stackIdx s \<le> - 1
     then Some (if stackIdx s = - 1 then Inr s else Inl LadderAssertion)
     else do {
       r \<leftarrow> ladder_body zob l pla defenderFirst s;
       (case r of Inl e \<Rightarrow> Some (Inl e) | Inr t \<Rightarrow> ladder_loop zob l pla defenderFirst t) })"

declare ladder_loop.simps [code]

definition ladder_start :: "bool \<Rightarrow> goban \<Rightarrow> ladder_state" where
  "ladder_start defenderFirst b =
    (let n = nat (g_x_size b * g_y_size b * 2)
     in \<lparr>ls_board = (if defenderFirst then b\<lparr>simple_ko_point := None\<rparr> else b),
       moveLists = replicate n [], moveListCur = (replicate n 0)[0 := - 1], ls_records = replicate n None,
       stackIdx = 0, returnValue = False, returnedFromDeeper = False\<rparr>)"

definition searchIsLadderCaptured :: "zobrist_table \<Rightarrow> loc \<Rightarrow> bool \<Rightarrow> goban \<Rightarrow> (ladder_error + bool \<times> goban) option" where
  "searchIsLadderCaptured zob l defenderFirst b =
    (let libs = group_liberty_count b (group_head b l)
     in if \<not> is_on_board b l then Some (Inr (False, b))
        else if g_board b l \<noteq> BLACK \<and> g_board b l \<noteq> WHITE then Some (Inr (False, b))
        else if libs > 2 \<or> defenderFirst \<and> libs > 1 then Some (Inr (False, b))
        else do {
          r \<leftarrow> ladder_loop zob l (g_board b l) defenderFirst (ladder_start defenderFirst b);
          Some (case r of Inl e \<Rightarrow> Inl e
            | Inr s \<Rightarrow> Inr (returnValue s, (ls_board s)\<lparr>simple_ko_point := simple_ko_point b\<rparr>)) })"

text \<open>One of the two moves of an attacker, searched with the defender to move.\<close>

definition attack_works :: "zobrist_table \<Rightarrow> player \<Rightarrow> loc \<Rightarrow> loc \<Rightarrow> goban \<Rightarrow> (ladder_error + bool \<times> goban) option" where
  "attack_works zob opp l move b =
    (if would_be_legal b opp move
     then do {
       (c, r) \<leftarrow> playRecordedUnsafe zob opp move b;
       w \<leftarrow> searchIsLadderCaptured zob l True c;
       (case w of Inl e \<Rightarrow> Some (Inl e)
        | Inr (v, c') \<Rightarrow> do { e \<leftarrow> undo zob r c'; Some (Inr (v, e)) }) }
     else Some (Inr (False, b)))"

definition searchIsLadderCapturedAttackerFirst2Libs ::
    "zobrist_table \<Rightarrow> loc \<Rightarrow> goban \<Rightarrow> (ladder_error + loc list \<times> goban) option" where
  "searchIsLadderCapturedAttackerFirst2Libs zob l b =
    (if \<not> is_on_board b l then Some (Inr ([], b))
     else if g_board b l \<noteq> BLACK \<and> g_board b l \<noteq> WHITE then Some (Inr ([], b))
     else if group_liberty_count b (group_head b l) \<noteq> 2 then Some (Inr ([], b))
     else do {
       moves \<leftarrow> findLiberties b l [];
       if length moves \<noteq> 2 then Some (Inl LadderAssertion)
       else do {
         r0 \<leftarrow> attack_works zob (get_opp (g_board b l)) l (moves ! 0) b;
         (case r0 of Inl e \<Rightarrow> Some (Inl e)
          | Inr (works0, b0) \<Rightarrow> do {
              r1 \<leftarrow> attack_works zob (get_opp (g_board b l)) l (moves ! 1) b0;
              Some (case r1 of Inl e \<Rightarrow> Inl e
                | Inr (works1, b1) \<Rightarrow> Inr ((if works0 then [moves ! 0] else []) @ (if works1 then [moves ! 1] else []), b1)) }) } })"

section \<open>The recursive search it stands for\<close>

text \<open>
  The same search as a plain recursion that never undoes a move: the defender is captured when every
  legal move is, the attacker captures when some legal move does. \<open>n\<close> bounds the depth.
\<close>

fun ladder_value :: "zobrist_table \<Rightarrow> loc \<Rightarrow> player \<Rightarrow> nat \<Rightarrow> bool \<Rightarrow> goban \<Rightarrow> bool" where
  "ladder_value zob l pla 0 isDef b = False"
| "ladder_value zob l pla (Suc n) isDef b =
    (case ladder_moves b l pla isDef of
       Some (Inr (Inl v)) \<Rightarrow> v
     | Some (Inr (Inr ms)) \<Rightarrow>
         (if isDef then list_all (\<lambda>m. would_be_legal b pla m \<longrightarrow>
            ladder_value zob l pla n False (the (playUnsafe zob pla m b))) ms
          else list_ex (\<lambda>m. would_be_legal b (get_opp pla) m \<and>
            ladder_value zob l pla n True (the (playUnsafe zob (get_opp pla) m b))) ms)
     | _ \<Rightarrow> False)"

end
