(* ===== verification/Board_Ladder_Moves.thy ===== *)
theory Board_Ladder_Moves
  imports Board_Ladder
begin

text \<open>
  What the ladder search reads of a board is a matter of the position and the ko point alone: two
  boards that agree on these, but differ in the heads and the order of their chains, give the same
  answers and the same sets of moves. \<open>undo\<close> gives back such a board.
\<close>

section \<open>Boards with one position\<close>

definition alike :: "goban \<Rightarrow> goban \<Rightarrow> bool" where
  "alike b c \<longleftrightarrow> board_inv b \<and> board_inv c \<and> g_board c = g_board b \<and> g_x_size c = g_x_size b
     \<and> g_y_size c = g_y_size b \<and> simple_ko_point c = simple_ko_point b"

lemma alike_refl: "board_inv b \<Longrightarrow> alike b b"
  by (simp add: alike_def)

lemma alike_sym: "alike b c \<Longrightarrow> alike c b"
  by (simp add: alike_def)

lemma alike_trans: "alike b c \<Longrightarrow> alike c d \<Longrightarrow> alike b d"
  by (simp add: alike_def)

lemma inv_ok:
  assumes "board_inv b"
  shows "board_ok b" "chains_ok b" "maximal b" "low b" "2 \<le> dy b"
  using assms by (auto simp: board_inv_def board_ok_def dy_def)

lemma alike_fields:
  assumes "alike b c"
  shows "g_board c = g_board b" "dy c = dy b" "nbrs c = nbrs b" "is_stone c = is_stone b" "is_on_board c = is_on_board b"
    "simple_ko_point c = simple_ko_point b" "g_x_size c = g_x_size b" "g_y_size c = g_y_size b"
  using assms by (auto simp: alike_def dy_def nbrs_def is_stone_def is_on_board_def arrsize_def fun_eq_iff)

lemma alike_liberty_count:
  assumes "alike b c"
  shows "group_liberty_count c (group_head c a) = group_liberty_count b (group_head b a)"
proof -
  have inv: "board_inv b" "board_inv c" using assms by (auto simp: alike_def)
  show ?thesis
  proof (cases "is_stone b a")
    case True
    then show ?thesis using chain_liberties(1) [OF inv_ok(2,3) [OF inv(1)]] chain_liberties(1) [OF inv_ok(2,3) [OF inv(2)]]
      by (simp add: alike_fields [OF assms])
  next
    case False
    then show ?thesis using low_empty [OF inv_ok(2,4) [OF inv(1)]] low_empty [OF inv_ok(2,4) [OF inv(2)]]
      by (simp add: alike_fields [OF assms])
  qed
qed

lemma stone_count: "board_inv b \<Longrightarrow> is_stone b a \<Longrightarrow>
    group_stone_count b (group_head b a) = int (card (string_of (dy b) (g_board b) a))"
  using chain_string [OF inv_ok(2,3)] inv_ok(2) unfolding chains_ok_def chain_ok_def by metis

lemma alike_stone_count:
  assumes "alike b c" "is_stone b a"
  shows "group_stone_count c (group_head c a) = group_stone_count b (group_head b a)"
  using assms(2) stone_count [of b a] stone_count [of c a] assms(1)
  by (simp add: alike_fields [OF assms(1)]) (simp add: alike_def)

lemma alike_legal:
  assumes "alike b c"
  shows "would_be_legal c p m = would_be_legal b p m"
  unfolding would_be_legal_def would_be_single_stone_suicide_def opens_def alike_fields [OF assms] alike_liberty_count [OF assms] ..

lemma alike_ko_capture:
  assumes "alike b c" "p = BLACK \<or> p = WHITE"
  shows "wouldBeKoCapture c m p = wouldBeKoCapture b m p"
proof -
  have "group_stone_count c (group_head c a) = group_stone_count b (group_head b a)"
    if "filter (\<lambda>a. g_board b a = get_opp p \<and> Q a) xs = [a]" for a Q xs
  proof (rule alike_stone_count [OF assms(1)])
    from that have "a \<in> set (filter (\<lambda>a. g_board b a = get_opp p \<and> Q a) xs)" by simp
    then show "is_stone b a" using opp_facts(4) [OF assms(2)] by (auto simp: is_stone_def)
  qed
  then show ?thesis
    unfolding wouldBeKoCapture_def alike_fields [OF assms(1)] alike_liberty_count [OF assms(1)]
    by (auto split: list.splits)
qed

lemma alike_after_play:
  assumes "alike b c" "g_board b m = EMPTY" "p = BLACK \<or> p = WHITE"
  shows "get_liberties_after_play c p m 3 = get_liberties_after_play b p m 3"
    "\<exists>n. get_liberties_after_play b p m 3 = Some n"
proof -
  have inv: "board_inv b" "board_inv c" using assms by (auto simp: alike_def)
  note e = get_liberties_after_play_exact [OF inv_ok(1,5), OF inv(1) inv(1) assms(2,3), of 3]
    get_liberties_after_play_exact [OF inv_ok(1,5), OF inv(2) inv(2) _ assms(3), of m 3]
  show "get_liberties_after_play c p m 3 = get_liberties_after_play b p m 3"
    "\<exists>n. get_liberties_after_play b p m 3 = Some n" using e assms(2) by (simp_all add: alike_fields [OF assms(1)])
qed

lemma walk_of:
  assumes "board_inv b" "is_stone b l"
  obtains xs where "chain_walk b l l = Some xs" "set xs = string_of (dy b) (g_board b) l"
  using chain_walk_ok [OF inv_ok(2,3) [OF assms(1)] assms(2)] by blast

lemma alike_has_captures:
  assumes "alike b c" "is_stone b l"
  shows "hasLibertyGainingCaptures c l = hasLibertyGainingCaptures b l" "\<exists>r. hasLibertyGainingCaptures b l = Some r"
proof -
  have inv: "board_inv b" "board_inv c" using assms by (auto simp: alike_def)
  obtain xs where xs: "chain_walk b l l = Some xs" "set xs = string_of (dy b) (g_board b) l" by (rule walk_of [OF inv(1) assms(2)])
  obtain ys where ys: "chain_walk c l l = Some ys" "set ys = string_of (dy c) (g_board c) l"
    by (rule walk_of [OF inv(2)]) (use assms in \<open>simp_all add: alike_fields\<close>)
  have "set ys = set xs" using xs(2) ys(2) by (simp add: alike_fields [OF assms(1)])
  then show "hasLibertyGainingCaptures c l = hasLibertyGainingCaptures b l" "\<exists>r. hasLibertyGainingCaptures b l = Some r"
    by (simp_all add: hasLibertyGainingCaptures_def xs(1) ys(1) list_ex_iff alike_fields [OF assms(1)] alike_liberty_count [OF assms(1)])
qed

section \<open>Sets of moves\<close>

lemma gaining_captures_ok:
  assumes "chains_ok b" "maximal b" "opp = BLACK \<or> opp = WHITE"
    and "\<And>a. g_board b a = opp \<Longrightarrow> group_head b a \<in> set checked \<Longrightarrow> liberties (dy b) (g_board b) a \<subseteq> set buf"
  shows "\<exists>buf' checked'. gaining_captures b opp as (buf, checked) = Some (buf', checked')
    \<and> set buf' = set buf \<union> \<Union> {liberties (dy b) (g_board b) a | a. a \<in> set as \<and> g_board b a = opp \<and> group_liberty_count b (group_head b a) = 1}"
  using assms(4)
proof (induction as arbitrary: buf checked)
  case (Cons a as)
  let ?L = "liberties (dy b) (g_board b)" and ?atari = "\<lambda>a. g_board b a = opp \<and> group_liberty_count b (group_head b a) = 1"
  let ?U = "\<lambda>as. \<Union> {?L a | a. a \<in> set as \<and> ?atari a}"
  have stone: "is_stone b a" if "g_board b a = opp" for a using that assms(3) by (simp add: is_stone_def)
  have U: "?U (a # as) = (if ?atari a then ?L a else {}) \<union> ?U as" by auto
  show ?case
  proof (cases "?atari a \<and> group_head b a \<notin> set checked")
    case True
    then have st: "is_stone b a" using stone by blast
    from findLiberties_ok [OF assms(1,2) st, of buf] obtain ls where ls: "findLiberties b a buf = Some ls" "set ls = set buf \<union> ?L a" by blast
    have "?L z \<subseteq> set ls" if z: "g_board b z = opp" "group_head b z \<in> set (checked @ [group_head b a])" for z
    proof (cases "group_head b z = group_head b a")
      case True
      then have "z \<in> string_of (dy b) (g_board b) a" using chain_string [OF assms(1,2) st] stone [OF z(1)] by (auto simp: grp_def)
      then show ?thesis using liberties_eq ls(2) by blast
    next
      case False
      then show ?thesis using Cons.prems [OF z(1)] z(2) ls(2) by auto
    qed
    from Cons.IH [of "checked @ [group_head b a]" ls, OF this] obtain buf' checked' where
      "gaining_captures b opp as (ls, checked @ [group_head b a]) = Some (buf', checked')" "set buf' = set ls \<union> ?U as" by blast
    then show ?thesis unfolding U using True ls by auto
  next
    case False
    have "(if ?atari a then ?L a else {}) \<subseteq> set buf" using False Cons.prems by auto
    moreover have "gaining_captures b opp (a # as) (buf, checked) = gaining_captures b opp as (buf, checked)"
      using False by (subst gaining_captures.simps) (rule if_not_P, blast)
    moreover from Cons.IH [of checked buf, OF Cons.prems] obtain buf' checked' where
      "gaining_captures b opp as (buf, checked) = Some (buf', checked')" "set buf' = set buf \<union> ?U as" by blast
    moreover from calculation have "set buf' = set buf \<union> ?U (a # as)" unfolding U by blast
    ultimately show ?thesis by (simp only: option.inject prod.inject) blast
  qed
qed simp

definition defender_set :: "goban \<Rightarrow> loc \<Rightarrow> loc set" where
  "defender_set b l = liberties (dy b) (g_board b) l \<union>
    \<Union> {liberties (dy b) (g_board b) a | a. (\<exists>y \<in> string_of (dy b) (g_board b) l. a \<in> around (dy b) y)
       \<and> g_board b a = get_opp (g_board b l) \<and> group_liberty_count b (group_head b a) = 1}"

lemma defender_moves_ok:
  assumes "board_inv b" "is_stone b l"
  shows "\<exists>ms ms'. findLibertyGainingCaptures b l [] = Some ms \<and> findLiberties b l ms = Some ms' \<and> set ms' = defender_set b l"
proof -
  note ok = inv_ok(2,3) [OF assms(1)]
  obtain xs where xs: "chain_walk b l l = Some xs" "set xs = string_of (dy b) (g_board b) l" by (rule walk_of [OF assms])
  have q: "get_opp (g_board b l) = BLACK \<or> get_opp (g_board b l) = WHITE"
    using opp_facts(4) assms(2) by (simp add: is_stone_def)
  from gaining_captures_ok [OF ok q, of "[]" "[]" "concat (map (nbrs b) xs)"] obtain ms ch where
    ms: "gaining_captures b (get_opp (g_board b l)) (concat (map (nbrs b) xs)) ([], []) = Some (ms, ch)"
    "set ms = \<Union> {liberties (dy b) (g_board b) a | a. a \<in> set (concat (map (nbrs b) xs))
       \<and> g_board b a = get_opp (g_board b l) \<and> group_liberty_count b (group_head b a) = 1}" by auto
  have "a \<in> set (concat (map (nbrs b) xs)) \<longleftrightarrow> (\<exists>y \<in> string_of (dy b) (g_board b) l. a \<in> around (dy b) y)" for a
    by (simp add: xs(2))
  then have "set ms \<union> liberties (dy b) (g_board b) l = defender_set b l" unfolding ms(2) defender_set_def by (simp add: Un_commute)
  with findLiberties_ok [OF ok assms(2), of ms] ms(1) xs(1) show ?thesis
    by (auto simp: findLibertyGainingCaptures_def)
qed

lemma defender_set_empty: "m \<in> defender_set b l \<Longrightarrow> g_board b m = EMPTY"
  by (auto simp: defender_set_def liberties_def)

lemma attacker_order_set:
  assumes "attacker_order b pla m0 m1 = Inr ms"
  shows "set ms \<subseteq> {m0, m1}"
  using assms by (auto simp: attacker_order_def Let_def split: if_splits)

lemma attacker_order_swap:
  "rel_sum (=) (\<lambda>x y. set x = set y) (attacker_order b pla m0 m1) (attacker_order b pla m1 m0)"
  by (auto simp: attacker_order_def Let_def is_adjacent_def around_sym)

lemma double_ko_swap: "double_ko b l pla m1 m0 = double_ko b l pla m0 m1"
  by (cases "get_liberties_after_play b pla m0 3"; cases "get_liberties_after_play b pla m1 3") (auto simp: double_ko_def)

lemma alike_double_ko:
  assumes "alike b c" "g_board b l = pla" "pla = BLACK \<or> pla = WHITE" "g_board b m0 = EMPTY" "g_board b m1 = EMPTY"
  shows "double_ko c l pla m0 m1 = double_ko b l pla m0 m1" "\<exists>r. double_ko b l pla m0 m1 = Some r"
proof -
  have st: "is_stone b l" using assms(2,3) by (simp add: is_stone_def)
  note e = alike_ko_capture [OF assms(1) opp_facts(4) [OF assms(3)]] alike_has_captures [OF assms(1) st]
    alike_after_play [OF assms(1,4,3)] alike_after_play [OF assms(1,5,3)]
  have "count_immediate_liberties c m = count_immediate_liberties b m" for m
    by (simp add: count_immediate_liberties_def alike_fields [OF assms(1)])
  then show "double_ko c l pla m0 m1 = double_ko b l pla m0 m1" unfolding double_ko_def e(1,2,4,6) by simp
  show "\<exists>r. double_ko b l pla m0 m1 = Some r" using e(3,5,7) by (auto simp: double_ko_def)
qed

lemma alike_order:
  assumes "alike b c"
  shows "attacker_order c pla m0 m1 = attacker_order b pla m0 m1"
  unfolding attacker_order_def count_immediate_liberties_def countHeuristicConnectionLiberties_def is_adjacent_def
    alike_fields [OF assms] alike_liberty_count [OF assms] ..

text \<open>The outcome of entering a level, up to the order of the moves.\<close>

definition same_outcome :: "(ladder_error + (bool + loc list)) option \<Rightarrow> (ladder_error + (bool + loc list)) option \<Rightarrow> bool" where
  "same_outcome r r' \<longleftrightarrow> (\<exists>v. r = Some (Inr (Inl v)) \<and> r' = Some (Inr (Inl v)))
     \<or> (\<exists>ms ms'. r = Some (Inr (Inr ms)) \<and> r' = Some (Inr (Inr ms')) \<and> set ms = set ms')"

lemma same_outcome_rel:
  "rel_sum (=) (\<lambda>x y. set x = set y) v w \<Longrightarrow>
    same_outcome (Some (Inr (if r then Inl True else v))) (Some (Inr (if r then Inl True else w)))"
  by (cases v; cases w) (auto simp: same_outcome_def)

lemma two_lists: "distinct xs \<Longrightarrow> distinct ys \<Longrightarrow> length xs = 2 \<Longrightarrow> set xs = set ys \<Longrightarrow> ys = xs \<or> ys = [xs ! 1, xs ! 0]"
proof -
  assume a: "distinct xs" "distinct ys" "length xs = 2" "set xs = set ys"
  have "length ys = 2" using a distinct_card by metis
  with a show ?thesis by (auto simp: length_Suc_conv eval_nat_numeral doubleton_eq_iff)
qed

lemma attacker_moves_alike:
  assumes "alike b c" "g_board b l = pla" "pla = BLACK \<or> pla = WHITE" "group_liberty_count b (group_head b l) = 2"
  shows "same_outcome (attacker_moves b l pla) (attacker_moves c l pla)"
    "attacker_moves b l pla = Some (Inr (Inr ms)) \<Longrightarrow> m \<in> set ms \<Longrightarrow> m \<in> liberties (dy b) (g_board b) l"
proof -
  have inv: "board_inv b" "board_inv c" using assms by (auto simp: alike_def)
  have st: "is_stone b l" using assms(2,3) by (simp add: is_stone_def)
  have st': "is_stone c l" using st by (simp add: alike_fields [OF assms(1)])
  from findLiberties_ok [OF inv_ok(2,3) [OF inv(1)] st, of "[]"] obtain xs where
    xs: "findLiberties b l [] = Some xs" "set xs = liberties (dy b) (g_board b) l" "distinct xs" by auto
  from findLiberties_ok [OF inv_ok(2,3) [OF inv(2)] st', of "[]"] obtain ys where
    ys: "findLiberties c l [] = Some ys" "set ys = set xs" "distinct ys" by (auto simp: alike_fields [OF assms(1)] xs(2))
  have len: "length xs = 2" using findLiberties_count [OF inv_ok(2,3) [OF inv(1)] st xs(1)] assms(4) by simp
  then obtain m0 m1 where m: "xs = [m0, m1]" by (auto simp: length_Suc_conv eval_nat_numeral)
  have e: "g_board b m0 = EMPTY" "g_board b m1 = EMPTY" using xs(2) m by (auto simp: liberties_def)
  note dk = alike_double_ko [OF assms(1-3) e]
  from dk(2) obtain r where r: "double_ko b l pla m0 m1 = Some r" by blast
  have b: "attacker_moves b l pla = Some (Inr (if r then Inl True else attacker_order b pla m0 m1))"
    using xs(1) m r by (simp add: attacker_moves_def)
  have "ys = [m0, m1] \<or> ys = [m1, m0]" using two_lists [OF xs(3) ys(3) len ys(2) [symmetric]] m by simp
  then have "attacker_moves c l pla = Some (Inr (if r then Inl True else attacker_order b pla m0 m1)) \<or>
      attacker_moves c l pla = Some (Inr (if r then Inl True else attacker_order b pla m1 m0))"
    using ys(1) dk(1) r double_ko_swap [of c l pla m0 m1] by (auto simp: attacker_moves_def alike_order [OF assms(1)])
  then show "same_outcome (attacker_moves b l pla) (attacker_moves c l pla)"
  proof
    assume c: "attacker_moves c l pla = Some (Inr (if r then Inl True else attacker_order b pla m0 m1))"
    have "rel_sum (=) (\<lambda>x y. set x = set y) v v" for v :: "bool + loc list" by (cases v) auto
    then show ?thesis unfolding b c by (rule same_outcome_rel)
  next
    assume c: "attacker_moves c l pla = Some (Inr (if r then Inl True else attacker_order b pla m1 m0))"
    show ?thesis unfolding b c by (rule same_outcome_rel [OF attacker_order_swap])
  qed
  show "m \<in> liberties (dy b) (g_board b) l" if "attacker_moves b l pla = Some (Inr (Inr ms))" "m \<in> set ms"
    using that attacker_order_set [of b pla m0 m1 ms] xs(2) m by (auto simp: b split: if_splits)
qed

text \<open>
  The chain may be off the board when the attacker is to move; then its count is that of the head 0.
\<close>

definition searched :: "goban \<Rightarrow> loc \<Rightarrow> player \<Rightarrow> bool \<Rightarrow> bool" where
  "searched b l pla isDef \<longleftrightarrow> (pla = BLACK \<or> pla = WHITE) \<and> (g_board b l = pla \<or> \<not> isDef \<and> g_board b l = EMPTY)"

lemma ladder_moves_alike:
  assumes "alike b c" "searched b l pla isDef"
  shows "same_outcome (ladder_moves b l pla isDef) (ladder_moves c l pla isDef)"
    "ladder_moves b l pla isDef = Some (Inr (Inr ms)) \<Longrightarrow> m \<in> set ms \<Longrightarrow> g_board b m = EMPTY"
    "ladder_moves b l pla False = Some (Inr (Inr ms)) \<Longrightarrow> \<not> isDef \<Longrightarrow> g_board b l = pla \<and> card (liberties (dy b) (g_board b) l) = 2"
proof -
  let ?n = "group_liberty_count b (group_head b l)"
  have inv: "board_inv b" "board_inv c" using assms by (auto simp: alike_def)
  note n = alike_liberty_count [OF assms(1), of l] and ko = alike_fields(6) [OF assms(1)]
  have col: "pla = BLACK \<or> pla = WHITE" using assms(2) by (simp add: searched_def)
  have dead: "?n = 0" if "g_board b l = EMPTY"
    by (rule low_empty [OF inv_ok(2,4) [OF inv(1)]]) (use that in \<open>simp add: is_stone_def colors\<close>)
  have st: "is_stone b l" if "g_board b l = pla" using that col by (simp add: is_stone_def)
  have out: "same_outcome (ladder_moves b l pla isDef) (ladder_moves c l pla isDef)
    \<and> (\<forall>ms m. ladder_moves b l pla isDef = Some (Inr (Inr ms)) \<longrightarrow> m \<in> set ms \<longrightarrow> g_board b m = EMPTY)"
  proof (cases "if isDef then ?n < 2 \<and> simple_ko_point b = None else ?n = 2")
    case False
    then show ?thesis by (auto simp: ladder_moves_def Let_def n ko same_outcome_def)
  next
    case True
    show ?thesis
    proof (cases isDef)
      case d: True
      then have l: "g_board b l = pla" "is_stone c l" using assms(2) st by (auto simp: searched_def alike_fields [OF assms(1)])
      obtain ms1 ms2 where m: "findLibertyGainingCaptures b l [] = Some ms1" "findLiberties b l ms1 = Some ms2" "set ms2 = defender_set b l"
        using defender_moves_ok [OF inv(1) st [OF l(1)]] by blast
      obtain ns1 ns2 where k: "findLibertyGainingCaptures c l [] = Some ns1" "findLiberties c l ns1 = Some ns2" "set ns2 = defender_set c l"
        using defender_moves_ok [OF inv(2) l(2)] by blast
      have "defender_set c l = defender_set b l"
        by (simp add: defender_set_def alike_fields [OF assms(1)] alike_liberty_count [OF assms(1)])
      then show ?thesis using d True m k defender_set_empty [of _ b l]
        by (auto simp: ladder_moves_def Let_def n ko same_outcome_def)
    next
      case a: False
      with True dead have l: "g_board b l = pla" using assms(2) by (auto simp: searched_def)
      have "ladder_moves b l pla isDef = attacker_moves b l pla" "ladder_moves c l pla isDef = attacker_moves c l pla"
        using a True by (simp_all add: ladder_moves_def Let_def n)
      then show ?thesis using attacker_moves_alike [OF assms(1) l col] a True by (auto simp: liberties_def)
    qed
  qed
  then show "same_outcome (ladder_moves b l pla isDef) (ladder_moves c l pla isDef)"
    "ladder_moves b l pla isDef = Some (Inr (Inr ms)) \<Longrightarrow> m \<in> set ms \<Longrightarrow> g_board b m = EMPTY" by blast+
  show "g_board b l = pla \<and> card (liberties (dy b) (g_board b) l) = 2"
    if mv: "ladder_moves b l pla False = Some (Inr (Inr ms))" "\<not> isDef"
  proof -
    have "?n = 2" using mv(1) by (auto simp: ladder_moves_def Let_def split: if_splits)
    moreover from this dead assms(2) have "g_board b l = pla" by (auto simp: searched_def)
    ultimately show ?thesis using chain_liberties(1) [OF inv_ok(2,3) [OF inv(1)] st] by simp
  qed
qed

section \<open>The moves keep the chain in sight\<close>

lemma attack_keeps:
  assumes "all_alive d c" "c l = pla" "pla = BLACK \<or> pla = WHITE" "c m = EMPTY" "liberties d c l \<noteq> {m}"
  shows "rule_move d (get_opp pla) m c l = pla"
proof -
  note q = opp_facts [OF assms(3)]
  have "clear d (get_opp (get_opp pla)) (c(m := get_opp pla)) l \<noteq> EMPTY"
    using cleared_around [OF assms(1,4) q(4), of l] assms(2,5) q(3) by auto
  moreover have "l \<noteq> m" using assms(2,4) q(3) by auto
  ultimately have "clear d pla (c(m := get_opp pla)) l = pla"
    using assms(2) by (auto simp: clear_def split: if_splits)
  then show ?thesis using q(1,3) unfolding rule_move_def get_opp_twice by (simp add: clear_def [of d "get_opp pla"])
qed

lemma defence_keeps:
  assumes "c l = pla" "pla = BLACK \<or> pla = WHITE" "c m = EMPTY"
  shows "rule_move d pla m c l = pla \<or> rule_move d pla m c l = EMPTY"
proof -
  note q = opp_facts [OF assms(2)]
  have "clear d (get_opp pla) (c(m := pla)) l = pla" using assms q by (auto simp: clear_def)
  then show ?thesis by (simp add: rule_move_def clear_def [of d pla])
qed

lemma searched_next:
  assumes "alike b b" "searched b l pla isDef" "ladder_moves b l pla isDef = Some (Inr (Inr ms))" "m \<in> set ms"
    "g_board c = rule_move (dy b) (if isDef then pla else get_opp pla) m (g_board b)"
  shows "searched c l pla (\<not> isDef)"
proof -
  have col: "pla = BLACK \<or> pla = WHITE" using assms(2) by (simp add: searched_def)
  have inv: "board_inv b" using assms(1) by (simp add: alike_def)
  note e = ladder_moves_alike(2) [OF assms(1-4)]
  show ?thesis
  proof (cases isDef)
    case True
    then have "g_board b l = pla" using assms(2) by (simp add: searched_def)
    from defence_keeps [of "g_board b" l pla m "dy b", OF this col e] True show ?thesis using col by (auto simp: searched_def assms(5))
  next
    case False
    with assms(3) ladder_moves_alike(3) [OF assms(1,2)] have l: "g_board b l = pla" "card (liberties (dy b) (g_board b) l) = 2" by auto
    have "liberties (dy b) (g_board b) l \<noteq> {m}" using l(2) by auto
    from attack_keeps [OF board_ok_alive [OF inv_ok(1) [OF inv]] l(1) col e this] False
    show ?thesis using col by (simp add: searched_def assms(5))
  qed
qed

lemma move_alike:
  assumes "alike b c" "g_board b m = EMPTY" "p = BLACK \<or> p = WHITE"
  obtains b' c' where "playRecordedUnsafe zob p m b = Some (b', recorded p m b)" "playUnsafe zob p m b = Some b'"
    "playRecordedUnsafe zob p m c = Some (c', recorded p m c)" "playUnsafe zob p m c = Some c'" "alike b' c'"
    "g_board b' = rule_move (dy b) p m (g_board b)" "g_x_size b' = g_x_size b" "g_y_size b' = g_y_size b" "board_inv b'"
proof -
  have inv: "board_inv b" "board_inv c" using assms by (auto simp: alike_def)
  have "0 < m" using inv_ok(2) [OF inv(1)] assms(2) by (auto simp: chains_ok_def geometry_def colors)
  then have m: "m \<noteq> PASS_LOC" by (simp add: PASS_LOC_def)
  have mc: "g_board c m = EMPTY" using assms by (simp add: alike_def)
  obtain b' where b': "playRecordedUnsafe zob p m b = Some (b', recorded p m b)" "board_inv b'"
    "g_board b' = rule_move (dy b) p m (g_board b)" "simple_ko_point b' = rule_ko (dy b) p m (g_board b)"
    "g_x_size b' = g_x_size b" "g_y_size b' = g_y_size b" "playUnsafe zob p m b = Some b'"
    by (rule recorded_play [OF inv(1) assms(2,3) m])
  obtain c' where c': "playRecordedUnsafe zob p m c = Some (c', recorded p m c)" "board_inv c'"
    "g_board c' = rule_move (dy c) p m (g_board c)" "simple_ko_point c' = rule_ko (dy c) p m (g_board c)"
    "g_x_size c' = g_x_size c" "g_y_size c' = g_y_size c" "playUnsafe zob p m c = Some c'"
    by (rule recorded_play [OF inv(2) mc assms(3) m])
  have "alike b' c'" using b' c' by (simp add: alike_def alike_fields [OF assms(1)])
  with that b' c' show ?thesis by blast
qed

text \<open>The value of the recursive search is a matter of the position and the ko point.\<close>

lemma ladder_value_alike:
  "alike b c \<Longrightarrow> searched b l pla isDef \<Longrightarrow> ladder_value zob l pla n isDef c = ladder_value zob l pla n isDef b"
proof (induction n arbitrary: b c isDef)
  case (Suc n)
  note al = Suc.prems(1) and se = Suc.prems(2)
  let ?p = "if isDef then pla else get_opp pla"
  have col: "?p = BLACK \<or> ?p = WHITE" using se opp_facts(4) [of pla] by (auto simp: searched_def)
  have bb: "alike b b" using al by (simp add: alike_def)
  from ladder_moves_alike(1) [OF al se] consider v where "ladder_moves b l pla isDef = Some (Inr (Inl v))" "ladder_moves c l pla isDef = Some (Inr (Inl v))"
    | ms ms' where "ladder_moves b l pla isDef = Some (Inr (Inr ms))" "ladder_moves c l pla isDef = Some (Inr (Inr ms'))" "set ms = set ms'"
    unfolding same_outcome_def by blast
  then show ?case
  proof cases
    case 2
    have "ladder_value zob l pla n (\<not> isDef) (the (playUnsafe zob ?p m c)) = ladder_value zob l pla n (\<not> isDef) (the (playUnsafe zob ?p m b))"
      if m: "m \<in> set ms" for m
    proof -
      obtain b' c' where "playUnsafe zob ?p m b = Some b'" "playUnsafe zob ?p m c = Some c'" "alike b' c'"
        "g_board b' = rule_move (dy b) ?p m (g_board b)"
        by (rule move_alike [OF al ladder_moves_alike(2) [OF al se 2(1) m] col, of zob])
      moreover from this(4) searched_next [OF bb se 2(1) m] have "searched b' l pla (\<not> isDef)" by simp
      ultimately show ?thesis using Suc.IH by simp
    qed
    then show ?thesis using 2 by (cases isDef) (auto simp: list_all_iff list_ex_iff alike_legal [OF al])
  qed simp
qed simp

end
