(* ===== verification/Board_Ladder_Search.thy ===== *)
theory Board_Ladder_Search
  imports Board_Ladder_Moves
begin

text \<open>
  The ladder search is the recursive one: the loop over the stack ends, its assertions hold, and at
  every level it returns the value of the recursion and gives back the board it was entered with.
  The stack can only run out of its array.
\<close>

section \<open>The state between the iterations\<close>

definition restored :: "goban \<Rightarrow> goban \<Rightarrow> bool" where
  "restored b c \<longleftrightarrow> alike b c \<and> num_captures_made c = num_captures_made b
     \<and> num_non_pass_moves_made c = num_non_pass_moves_made b"

lemma restored_trans: "restored b c \<Longrightarrow> restored c d \<Longrightarrow> restored b d"
  using alike_trans by (auto simp: restored_def)

text \<open>The arrays have a fixed length, and a level leaves those below it alone.\<close>

definition sized :: "nat \<Rightarrow> ladder_state \<Rightarrow> bool" where
  "sized n s \<longleftrightarrow> length (moveLists s) = n \<and> length (moveListCur s) = n \<and> length (ls_records s) = n"

definition below :: "nat \<Rightarrow> ladder_state \<Rightarrow> ladder_state \<Rightarrow> bool" where
  "below k s t \<longleftrightarrow> (\<forall>j < k. moveLists t ! j = moveLists s ! j \<and> moveListCur t ! j = moveListCur s ! j
     \<and> ls_records t ! j = ls_records s ! j)"

lemma below_trans: "below k s t \<Longrightarrow> below k t u \<Longrightarrow> below k s u"
  by (simp add: below_def)

lemma below_less: "below (Suc k) s t \<Longrightarrow> below k s t"
  by (simp add: below_def)

definition after :: "zobrist_table \<Rightarrow> loc \<Rightarrow> player \<Rightarrow> bool \<Rightarrow> (ladder_error + ladder_state) option \<Rightarrow> (ladder_error + ladder_state) option" where
  "after zob l pla df r = r \<bind> (\<lambda>r. case r of Inl e \<Rightarrow> Some (Inl e) | Inr t \<Rightarrow> ladder_loop zob l pla df t)"

lemma loop_after: "0 \<le> stackIdx s \<Longrightarrow> ladder_loop zob l pla df s = after zob l pla df (ladder_body zob l pla df s)"
  by (subst ladder_loop.simps) (simp add: after_def)

lemma after_simps [simp]: "after zob l pla df (Some (Inl e)) = Some (Inl e)"
  "after zob l pla df (Some (Inr t)) = ladder_loop zob l pla df t"
  by (simp_all add: after_def)

text \<open>A level has been left with a value: the loop goes on one level up.\<close>

definition leaves :: "zobrist_table \<Rightarrow> loc \<Rightarrow> player \<Rightarrow> bool \<Rightarrow> (ladder_error + ladder_state) option \<Rightarrow>
    nat \<Rightarrow> nat \<Rightarrow> ladder_state \<Rightarrow> goban \<Rightarrow> bool \<Rightarrow> bool" where
  "leaves zob l pla df r n k s b v \<longleftrightarrow> r = Some (Inl LadderIndex) \<or>
    (\<exists>t. r = ladder_loop zob l pla df t \<and> sized n t \<and> stackIdx t = int k - 1 \<and> returnValue t = v
      \<and> returnedFromDeeper t \<and> restored b (ls_board t) \<and> below k s t)"

lemma leaves_return:
  assumes "sized n s" "stackIdx s = int k" "restored b (ls_board s)" "below k u s"
  shows "leaves zob l pla df (after zob l pla df (Some (Inr (ladder_return v s)))) n k u b v"
  using assms unfolding leaves_def after_simps
  by (intro disjI2 exI [of _ "ladder_return v s"]) (simp add: ladder_return_def sized_def below_def)

lemma defender_turns: "isDefender df (int (Suc k)) \<longleftrightarrow> \<not> isDefender df (int k)"
  by (auto simp: isDefender_def) presburger+

section \<open>One level\<close>

text \<open>What a level decides over a list of moves.\<close>

definition moves_value :: "zobrist_table \<Rightarrow> loc \<Rightarrow> player \<Rightarrow> nat \<Rightarrow> bool \<Rightarrow> goban \<Rightarrow> loc list \<Rightarrow> bool" where
  "moves_value zob l pla n isDef b ms =
    (if isDef then list_all (\<lambda>m. would_be_legal b pla m \<longrightarrow>
       ladder_value zob l pla n False (the (playUnsafe zob pla m b))) ms
     else list_ex (\<lambda>m. would_be_legal b (get_opp pla) m \<and>
       ladder_value zob l pla n True (the (playUnsafe zob (get_opp pla) m b))) ms)"

lemma moves_value_Cons:
  "moves_value zob l pla n isDef b (m # ms) =
    (let p = (if isDef then pla else get_opp pla);
         v = (if would_be_legal b p m then ladder_value zob l pla n (\<not> isDef) (the (playUnsafe zob p m b)) else isDef)
     in if v = isDef then moves_value zob l pla n isDef b ms else v)"
  by (auto simp: moves_value_def Let_def)

lemma undo_restores_level:
  assumes "board_inv b" "g_board b m = EMPTY" "p = BLACK \<or> p = WHITE"
    "playRecordedUnsafe zob p m b = Some (c, r)" "restored c e"
  shows "r = recorded p m b \<and> (\<exists>f. undo zob r e = Some f \<and> restored b f)"
proof -
  have "0 < m" using inv_ok(2) [OF assms(1)] assms(2) by (auto simp: chains_ok_def geometry_def colors)
  then have m: "m \<noteq> PASS_LOC" by (simp add: PASS_LOC_def)
  obtain c' where c': "playRecordedUnsafe zob p m b = Some (c', recorded p m b)" "board_inv c'"
    "g_board c' = rule_move (dy b) p m (g_board b)" "g_x_size c' = g_x_size b" "g_y_size c' = g_y_size b"
    by (rule recorded_play [OF assms(1-3) m])
  have r: "r = recorded p m b" "c' = c" using c'(1) assms(4) by auto
  have e: "board_inv e" "g_board e = rule_move (dy b) p m (g_board b)" "g_x_size e = g_x_size b" "g_y_size e = g_y_size b"
    using assms(5) c' unfolding r by (auto simp: restored_def alike_def)
  obtain f where "undo zob (recorded p m b) e = Some f" "board_inv f"
    "g_board f = g_board b" "simple_ko_point f = simple_ko_point b" "g_x_size f = g_x_size b"
    "g_y_size f = g_y_size b" "num_captures_made f = num_captures_made b"
    "num_non_pass_moves_made f = num_non_pass_moves_made b"
    by (rule undo_recorded [OF assms(1-3) m inv_ok(2,3,4) [OF e(1)] e(2-4)])
  then show ?thesis using assms(1) r(1) by (auto simp: restored_def alike_def)
qed

text \<open>Coming back to a level whose last move is over: the next one is tried, or the level is left.\<close>

lemma body_back:
  assumes "sized n t" "stackIdx t = int k" "k < n" "moveListCur t ! k = int i" "i < length (moveLists t ! k)"
    "ladder_undo zob t = Some (Inr c)"
  shows "ladder_loop zob l pla df t =
    after zob l pla df (if returnValue t = isDefender df (int k)
      then ladder_try zob pla (isDefender df (int k)) (t\<lparr>ls_board := c, moveListCur := (moveListCur t)[k := int (Suc i)]\<rparr>)
      else Some (Inr (ladder_return (returnValue t) (t\<lparr>ls_board := c\<rparr>))))"
proof -
  have "ladder_body zob l pla df t = (if returnValue t = isDefender df (int k)
      then ladder_try zob pla (isDefender df (int k)) (t\<lparr>ls_board := c, moveListCur := (moveListCur t)[k := int (Suc i)]\<rparr>)
      else Some (Inr (ladder_return (returnValue t) (t\<lparr>ls_board := c\<rparr>))))"
    using assms by (simp add: ladder_body_def Let_def algebra_simps)
  then show ?thesis using loop_after [of t zob l pla df] assms(2) by simp
qed

text \<open>What is assumed of the level above, and proved of every level by induction.\<close>

definition level_ok :: "zobrist_table \<Rightarrow> loc \<Rightarrow> player \<Rightarrow> bool \<Rightarrow> nat \<Rightarrow> nat \<Rightarrow> bool" where
  "level_ok zob l pla df n k \<longleftrightarrow> (\<forall>s. sized n s \<longrightarrow> stackIdx s = int k \<longrightarrow> moveListCur s ! k = - 1 \<longrightarrow>
     board_inv (ls_board s) \<longrightarrow> searched (ls_board s) l pla (isDefender df (int k)) \<longrightarrow>
     leaves zob l pla df (ladder_loop zob l pla df s) n k s (ls_board s)
       (ladder_value zob l pla (n - k) (isDefender df (int k)) (ls_board s)))"

lemma restored_move:
  assumes "restored b c" "g_board b m = EMPTY" "p = BLACK \<or> p = WHITE"
  obtains c' where "playRecordedUnsafe zob p m c = Some (c', recorded p m c)" "board_inv c'"
    "alike (the (playUnsafe zob p m b)) c'" "g_board c' = rule_move (dy c) p m (g_board c)"
    "g_board (the (playUnsafe zob p m b)) = rule_move (dy b) p m (g_board b)"
proof -
  have al: "alike b c" using assms(1) by (simp add: restored_def)
  obtain b' c' where b': "playUnsafe zob p m b = Some b'" "playRecordedUnsafe zob p m c = Some (c', recorded p m c)" "alike b' c'"
    "g_board b' = rule_move (dy b) p m (g_board b)" by (rule move_alike [OF al assms(2,3), of zob])
  then show ?thesis using that [of c'] by (simp add: alike_fields [OF al]) (simp add: alike_def)
qed

text \<open>One legal move of a level: the level above is entered, and the move is undone.\<close>

lemma try_legal:
  assumes up: "Suc k < n \<Longrightarrow> level_ok zob l pla df n (Suc k)" and k: "k < n"
    and def: "isDef = isDefender df (int k)" "p = (if isDef then pla else get_opp pla)"
    and b: "board_inv b" "searched b l pla isDef" "ladder_moves b l pla isDef = Some (Inr (Inr all))"
    and s: "sized n s" "stackIdx s = int k" "moveLists s ! k = ms" "moveListCur s ! k = int i" "i < length ms" "set ms = set all"
      "restored b (ls_board s)" and legal: "would_be_legal (ls_board s) p (ms ! i)"
    and v: "v = ladder_value zob l pla (n - Suc k) (\<not> isDef) (the (playUnsafe zob p (ms ! i) b))"
  shows "after zob l pla df (ladder_try zob pla isDef s) = Some (Inl LadderIndex) \<or>
    (\<exists>t c. after zob l pla df (ladder_try zob pla isDef s) = ladder_loop zob l pla df t \<and> sized n t \<and> stackIdx t = int k
      \<and> moveLists t ! k = ms \<and> moveListCur t ! k = int i \<and> returnValue t = v \<and> below k s t
      \<and> ladder_undo zob t = Some (Inr c) \<and> restored b c)"
proof -
  let ?m = "ms ! i" and ?c = "ls_board s"
  have bb: "alike b b" using b(1) by (simp add: alike_refl)
  have mem: "?m \<in> set all" using s(5,6) nth_mem by blast
  have e: "g_board b ?m = EMPTY" by (rule ladder_moves_alike(2) [OF bb b(2,3) mem])
  have col: "p = BLACK \<or> p = WHITE" using b(2) opp_facts(4) [of pla] def(2) by (auto simp: searched_def)
  obtain c' where c': "playRecordedUnsafe zob p ?m ?c = Some (c', recorded p ?m ?c)" "board_inv c'"
    "alike (the (playUnsafe zob p ?m b)) c'" "g_board (the (playUnsafe zob p ?m b)) = rule_move (dy b) p ?m (g_board b)"
    by (rule restored_move [OF s(7) e col])
  define t0 where "t0 = s\<lparr>ls_board := c', ls_records := (ls_records s)[k := Some (recorded p ?m ?c)], stackIdx := stackIdx s + 1,
                 moveListCur := (moveListCur s)[Suc k := - 1], moveLists := (moveLists s)[Suc k := []]\<rparr>"
  have tried: "ladder_try zob pla isDef s = Some (if Suc k < n then Inr t0 else Inl LadderIndex)"
    using s legal c'(1) def(2) by (simp add: ladder_try_def Let_def sized_def t0_def)
  show ?thesis
  proof (cases "Suc k < n")
    case False
    then show ?thesis unfolding tried by simp
  next
    case True
    have se: "searched (the (playUnsafe zob p ?m b)) l pla (\<not> isDef)"
      by (rule searched_next [OF bb b(2,3) mem]) (use c'(4) def(2) in simp)
    then have se': "searched c' l pla (\<not> isDef)" using alike_fields(1) [OF c'(3)] by (simp add: searched_def)
    have val: "ladder_value zob l pla (n - Suc k) (\<not> isDef) c' = v" unfolding v by (rule ladder_value_alike [OF c'(3) se])
    have t0: "sized n t0" "stackIdx t0 = int (Suc k)" "moveListCur t0 ! Suc k = - 1" "ls_board t0 = c'"
      using s True by (auto simp: t0_def sized_def)
    have "leaves zob l pla df (ladder_loop zob l pla df t0) n (Suc k) t0 c' v"
      using up [OF True] t0 c'(2) se' val def(1) unfolding level_ok_def defender_turns by auto
    then consider "ladder_loop zob l pla df t0 = Some (Inl LadderIndex)"
      | t where "ladder_loop zob l pla df t0 = ladder_loop zob l pla df t" "sized n t" "stackIdx t = int k" "returnValue t = v"
        "returnedFromDeeper t" "restored c' (ls_board t)" "below (Suc k) t0 t" unfolding leaves_def by auto
    then show ?thesis
    proof cases
      case 1
      then show ?thesis unfolding tried using True by simp
    next
      case 2
      have lv: "moveLists t ! k = ms" "moveListCur t ! k = int i" "ls_records t ! k = Some (recorded p ?m ?c)"
        using 2(7) s(1,3,4) k by (auto simp: below_def t0_def sized_def)
      have "below k s t0" using s(1) k by (auto simp: below_def t0_def)
      then have be: "below k s t" using below_trans below_less [OF 2(7)] by blast
      have "alike b ?c" using s(7) by (simp add: restored_def)
      then have "board_inv ?c" "g_board ?c ?m = EMPTY" using e by (auto simp: alike_def)
      from undo_restores_level [OF this col c'(1) 2(6)] obtain f where
        "undo zob (recorded p ?m ?c) (ls_board t) = Some f" "restored ?c f" by blast
      then have "ladder_undo zob t = Some (Inr f)" "restored b f"
        using 2(3,5) lv(3) restored_trans [OF s(7)] by (auto simp: ladder_undo_def)
      with 2 lv be show ?thesis unfolding tried using True by auto
    qed
  qed
qed

lemma level_moves:
  assumes up: "Suc k < n \<Longrightarrow> level_ok zob l pla df n (Suc k)" and k: "k < n"
    and def: "isDef = isDefender df (int k)"
    and b: "board_inv b" "searched b l pla isDef" "ladder_moves b l pla isDef = Some (Inr (Inr all))"
  shows "sized n s \<Longrightarrow> stackIdx s = int k \<Longrightarrow> moveLists s ! k = ms \<Longrightarrow> moveListCur s ! k = int i \<Longrightarrow> i \<le> length ms \<Longrightarrow>
    set ms = set all \<Longrightarrow> restored b (ls_board s) \<Longrightarrow> below k u s \<Longrightarrow>
    leaves zob l pla df (after zob l pla df (ladder_try zob pla isDef s)) n k u b
      (moves_value zob l pla (n - Suc k) isDef b (drop i ms))"
proof (induction "length ms - i" arbitrary: i s)
  case 0
  then have "ladder_try zob pla isDef s = Some (Inr (ladder_return isDef s))" by (simp add: ladder_try_def Let_def)
  moreover have "moves_value zob l pla (n - Suc k) isDef b (drop i ms) = isDef" using 0 by (simp add: moves_value_def)
  ultimately show ?case using leaves_return [OF 0(2,3,8,9)] by simp
next
  case (Suc d)
  note s = Suc.prems
  have i: "i < length ms" using Suc.hyps(2) by simp
  define p where "p = (if isDef then pla else get_opp pla)"
  define v where "v = (if would_be_legal b p (ms ! i)
    then ladder_value zob l pla (n - Suc k) (\<not> isDef) (the (playUnsafe zob p (ms ! i) b)) else isDef)"
  have val: "moves_value zob l pla (n - Suc k) isDef b (drop i ms) =
      (if v = isDef then moves_value zob l pla (n - Suc k) isDef b (drop (Suc i) ms) else v)"
    unfolding Cons_nth_drop_Suc [OF i, symmetric] moves_value_Cons p_def [symmetric] v_def Let_def ..
  have al: "alike b (ls_board s)" using s(7) by (simp add: restored_def)
  have "after zob l pla df (ladder_try zob pla isDef s) = Some (Inl LadderIndex) \<or>
    (\<exists>t c. after zob l pla df (ladder_try zob pla isDef s) = ladder_loop zob l pla df t \<and> sized n t \<and> stackIdx t = int k
      \<and> moveLists t ! k = ms \<and> moveListCur t ! k = int i \<and> returnValue t = v \<and> below k s t
      \<and> ladder_undo zob t = Some (Inr c) \<and> restored b c)"
  proof (cases "would_be_legal b p (ms ! i)")
    case True
    then show ?thesis
      using try_legal [OF up k def p_def b s(1-4) i s(6,7), of v] alike_legal [OF al] by (simp add: v_def)
  next
    case False
    then have "ladder_try zob pla isDef s = Some (Inr (s\<lparr>returnValue := isDef, returnedFromDeeper := False\<rparr>))"
      using s i alike_legal [OF al] by (simp add: ladder_try_def Let_def p_def)
    then show ?thesis using s False
      by (intro disjI2 exI [of _ "s\<lparr>returnValue := isDef, returnedFromDeeper := False\<rparr>"] exI [of _ "ls_board s"])
        (simp add: sized_def below_def ladder_undo_def v_def)
  qed
  then show ?case
  proof (elim disjE exE conjE)
    assume "after zob l pla df (ladder_try zob pla isDef s) = Some (Inl LadderIndex)"
    then show ?thesis by (simp add: leaves_def)
  next
    fix t c assume t: "after zob l pla df (ladder_try zob pla isDef s) = ladder_loop zob l pla df t" "sized n t" "stackIdx t = int k"
      "moveLists t ! k = ms" "moveListCur t ! k = int i" "returnValue t = v" "below k s t" "ladder_undo zob t = Some (Inr c)" "restored b c"
    have be: "below k u t" using below_trans [OF s(8) t(7)] .
    note goes_on = body_back [OF t(2,3) k t(5) _ t(8), of l pla df] 
    show ?thesis
    proof (cases "v = isDef")
      case True
      let ?t = "t\<lparr>ls_board := c, moveListCur := (moveListCur t)[k := int (Suc i)]\<rparr>"
      have "leaves zob l pla df (after zob l pla df (ladder_try zob pla isDef ?t)) n k u b
          (moves_value zob l pla (n - Suc k) isDef b (drop (Suc i) ms))"
        by (rule Suc.hyps(1)) (use Suc.hyps(2) i t be k s(6) in \<open>auto simp: sized_def below_def\<close>)
      then show ?thesis unfolding t(1) val using goes_on i t(4,6) True def by simp
    next
      case False
      have "leaves zob l pla df (after zob l pla df (Some (Inr (ladder_return v (t\<lparr>ls_board := c\<rparr>))))) n k u b v"
        by (rule leaves_return) (use t be in \<open>auto simp: sized_def below_def\<close>)
      then show ?thesis unfolding t(1) val using goes_on i t(4,6) False def by simp
    qed
  qed
qed

lemma level_step:
  assumes up: "Suc k < n \<Longrightarrow> level_ok zob l pla df n (Suc k)" and k: "k < n"
  shows "level_ok zob l pla df n k"
  unfolding level_ok_def
proof (intro allI impI)
  fix s assume s: "sized n s" "stackIdx s = int k" "moveListCur s ! k = - 1" "board_inv (ls_board s)"
    "searched (ls_board s) l pla (isDefender df (int k))"
  let ?b = "ls_board s" and ?d = "isDefender df (int k)"
  have bb: "alike ?b ?b" "restored ?b ?b" using s(4) by (auto simp: alike_def restored_def)
  obtain w where w: "n - k = Suc w" "w = n - Suc k" using k by (metis Suc_diff_Suc)
  from ladder_moves_alike(1) [OF bb(1) s(5)] consider v where "ladder_moves ?b l pla ?d = Some (Inr (Inl v))"
    | ms where "ladder_moves ?b l pla ?d = Some (Inr (Inr ms))" unfolding same_outcome_def by blast
  then show "leaves zob l pla df (ladder_loop zob l pla df s) n k s ?b (ladder_value zob l pla (n - k) ?d ?b)"
  proof cases
    case (1 v)
    then have "ladder_body zob l pla df s = Some (Inr (ladder_return v s))" using s by (simp add: ladder_body_def Let_def)
    then have "ladder_loop zob l pla df s = after zob l pla df (Some (Inr (ladder_return v s)))" using loop_after [of s zob l pla df] s(2) by simp
    moreover have "ladder_value zob l pla (n - k) ?d ?b = v" using 1 unfolding w(1) by simp
    ultimately show ?thesis using leaves_return [OF s(1,2) bb(2), of s zob l pla df v] by (simp add: below_def)
  next
    case (2 ms)
    let ?t = "s\<lparr>moveLists := (moveLists s)[k := ms], moveListCur := (moveListCur s)[k := 0]\<rparr>"
    have "ladder_body zob l pla df s = ladder_try zob pla ?d ?t" using s 2 by (simp add: ladder_body_def Let_def)
    then have loop: "ladder_loop zob l pla df s = after zob l pla df (ladder_try zob pla ?d ?t)" using loop_after [of s zob l pla df] s(2) by simp
    have "ladder_value zob l pla (n - k) ?d ?b = moves_value zob l pla (n - Suc k) ?d ?b (drop 0 ms)"
      using 2 unfolding w(1) by (simp add: moves_value_def w(2))
    moreover have "leaves zob l pla df (after zob l pla df (ladder_try zob pla ?d ?t)) n k s ?b
        (moves_value zob l pla (n - Suc k) ?d ?b (drop 0 ms))"
      by (rule level_moves [OF up k refl s(4,5) 2]) (use s k bb in \<open>auto simp: sized_def below_def\<close>)
    ultimately show ?thesis unfolding loop by simp
  qed
qed

lemma level_all: "k < n \<Longrightarrow> level_ok zob l pla df n k"
proof (induction "n - k" arbitrary: k)
  case (Suc d)
  show ?case by (rule level_step [OF Suc.hyps(1) Suc.prems]) (use Suc.hyps(2) in auto)
qed simp

section \<open>The two entry points\<close>

text \<open>The answer of the recursive search, with the guards of the code and its depth.\<close>

definition ladder_answer :: "zobrist_table \<Rightarrow> loc \<Rightarrow> bool \<Rightarrow> goban \<Rightarrow> bool" where
  "ladder_answer zob l df b \<longleftrightarrow> is_on_board b l \<and> is_stone b l \<and> num_liberties b l \<le> (if df then 1 else 2)
     \<and> ladder_value zob l (g_board b l) (nat (g_x_size b * g_y_size b * 2)) df
         (if df then b\<lparr>simple_ko_point := None\<rparr> else b)"

lemma restored_refl: "board_inv b \<Longrightarrow> restored b b"
  by (simp add: restored_def alike_refl)

lemma search_ok:
  assumes "board_inv b"
  shows "searchIsLadderCaptured zob l df b = Some (Inl LadderIndex) \<or>
    (\<exists>c. searchIsLadderCaptured zob l df b = Some (Inr (ladder_answer zob l df b, c)) \<and> restored b c)"
proof (cases "is_on_board b l \<and> is_stone b l \<and> group_liberty_count b (group_head b l) \<le> (if df then 1 else 2)")
  case False
  have "num_liberties b l = group_liberty_count b (group_head b l)" if "is_stone b l"
    using stone_not_wall [OF that] that by (simp add: num_liberties_def)
  then have "searchIsLadderCaptured zob l df b = Some (Inr (False, b)) \<and> \<not> ladder_answer zob l df b"
    using False by (auto simp: searchIsLadderCaptured_def ladder_answer_def is_stone_def Let_def split: if_splits)
  then show ?thesis using restored_refl [OF assms] by auto
next
  case True
  let ?s = "ladder_start df b" and ?n = "nat (g_x_size b * g_y_size b * 2)" and ?pla = "g_board b l"
  let ?b = "if df then b\<lparr>simple_ko_point := None\<rparr> else b"
  have "0 < g_x_size b * g_y_size b * 2" using assms by (simp add: board_inv_def)
  then have n: "0 < ?n" by simp
  have s: "sized ?n ?s" "stackIdx ?s = int 0" "moveListCur ?s ! 0 = - 1" "ls_board ?s = ?b"
    using n by (auto simp: ladder_start_def Let_def sized_def)
  have inv: "board_inv ?b" using assms by simp
  have se: "searched ?b l ?pla (isDefender df (int 0))" using True by (auto simp: searched_def is_stone_def)
  have df: "isDefender df (int 0) = df" by (simp add: isDefender_def)
  have guard: "\<not> (group_liberty_count b (group_head b l) > 2 \<or> df \<and> group_liberty_count b (group_head b l) > 1)"
    "\<not> (g_board b l \<noteq> BLACK \<and> g_board b l \<noteq> WHITE)"
    using True by (auto simp: is_stone_def split: if_splits)
  have run: "searchIsLadderCaptured zob l df b = ladder_loop zob l ?pla df ?s \<bind> (\<lambda>r. Some (case r of Inl e \<Rightarrow> Inl e
      | Inr s \<Rightarrow> Inr (returnValue s, (ls_board s)\<lparr>simple_ko_point := simple_ko_point b\<rparr>)))"
    unfolding searchIsLadderCaptured_def Let_def if_not_P [OF guard(1)] if_not_P [OF guard(2)] using True by simp
  have "leaves zob l ?pla df (ladder_loop zob l ?pla df ?s) ?n 0 ?s ?b (ladder_value zob l ?pla ?n df ?b)"
    using level_all [OF n, of zob l ?pla df] s inv se unfolding level_ok_def df by auto
  then consider "ladder_loop zob l ?pla df ?s = Some (Inl LadderIndex)"
    | t where "ladder_loop zob l ?pla df ?s = Some (Inr t)" "returnValue t = ladder_value zob l ?pla ?n df ?b" "restored ?b (ls_board t)"
    unfolding leaves_def by (auto simp: ladder_loop.simps)
  then show ?thesis
  proof cases
    case 1
    then show ?thesis unfolding run by simp
  next
    case 2
    have nl: "num_liberties b l = group_liberty_count b (group_head b l)"
      using stone_not_wall [of b l] True by (simp add: num_liberties_def)
    have "ladder_answer zob l df b = returnValue t" unfolding ladder_answer_def nl 2(2) using True by blast
    moreover have "restored b ((ls_board t)\<lparr>simple_ko_point := simple_ko_point b\<rparr>)"
      using 2(3) assms by (auto simp: restored_def alike_def split: if_splits)
    moreover have "searchIsLadderCaptured zob l df b = Some (Inr (returnValue t, (ls_board t)\<lparr>simple_ko_point := simple_ko_point b\<rparr>))"
      unfolding run 2(1) by simp
    ultimately show ?thesis by auto
  qed
qed

text \<open>The answers are a matter of the position.\<close>

lemma ladder_answer_alike:
  assumes "alike b c"
  shows "ladder_answer zob l df c = ladder_answer zob l df b"
proof (cases "is_stone b l")
  case True
  let ?k = "\<lambda>b. if df then b\<lparr>simple_ko_point := None\<rparr> else b"
  have "alike (?k b) (?k c)" using assms by (auto simp: alike_def)
  moreover have "searched (?k b) l (g_board b l) df" using True by (auto simp: searched_def is_stone_def)
  ultimately show ?thesis
    using ladder_value_alike [of "?k b" "?k c"] unfolding ladder_answer_def num_liberties_def alike_fields [OF assms] alike_liberty_count [OF assms]
    by blast
next
  case False
  then show ?thesis by (simp add: ladder_answer_def alike_fields [OF assms])
qed

definition attack_answer :: "zobrist_table \<Rightarrow> loc \<Rightarrow> goban \<Rightarrow> loc \<Rightarrow> bool" where
  "attack_answer zob l b m \<longleftrightarrow> would_be_legal b (get_opp (g_board b l)) m
     \<and> ladder_answer zob l True (the (playUnsafe zob (get_opp (g_board b l)) m b))"

lemma attack_ok:
  assumes "restored b c" "is_stone b l" "g_board b m = EMPTY"
  shows "attack_works zob (get_opp (g_board b l)) l m c = Some (Inl LadderIndex) \<or>
    (\<exists>e. attack_works zob (get_opp (g_board b l)) l m c = Some (Inr (attack_answer zob l b m, e)) \<and> restored b e)"
proof -
  let ?p = "get_opp (g_board b l)"
  have al: "alike b c" using assms(1) by (simp add: restored_def)
  have col: "?p = BLACK \<or> ?p = WHITE" using assms(2) opp_facts(4) [of "g_board b l"] by (simp add: is_stone_def)
  show ?thesis
  proof (cases "would_be_legal b ?p m")
    case False
    then show ?thesis using assms(1) alike_legal [OF al] by (auto simp: attack_works_def attack_answer_def)
  next
    case True
    have inv: "board_inv c" "g_board c m = EMPTY" using al assms(3) by (auto simp: alike_def)
    obtain c' where c': "playRecordedUnsafe zob ?p m c = Some (c', recorded ?p m c)" "board_inv c'"
      "alike (the (playUnsafe zob ?p m b)) c'" by (rule restored_move [OF assms(1,3) col])
    have ans: "ladder_answer zob l True c' = attack_answer zob l b m"
      using True ladder_answer_alike [OF c'(3)] by (simp add: attack_answer_def)
    from search_ok [OF c'(2), of zob l True] show ?thesis
    proof (elim disjE exE conjE)
      assume "searchIsLadderCaptured zob l True c' = Some (Inl LadderIndex)"
      then show ?thesis using True alike_legal [OF al] c'(1) by (simp add: attack_works_def)
    next
      fix e assume e: "searchIsLadderCaptured zob l True c' = Some (Inr (ladder_answer zob l True c', e))" "restored c' e"
      from undo_restores_level [OF inv col c'(1) e(2)] obtain f where "undo zob (recorded ?p m c) e = Some f" "restored c f" by blast
      with e(1) True alike_legal [OF al] c'(1) ans restored_trans [OF assms(1)] show ?thesis by (auto simp: attack_works_def)
    qed
  qed
qed

lemma attacker_first_ok:
  assumes "board_inv b"
  shows "searchIsLadderCapturedAttackerFirst2Libs zob l b = Some (Inl LadderIndex) \<or>
    (\<exists>ms c. searchIsLadderCapturedAttackerFirst2Libs zob l b = Some (Inr (ms, c)) \<and> restored b c
      \<and> set ms = (if is_on_board b l \<and> is_stone b l \<and> num_liberties b l = 2
          then {m \<in> liberties (dy b) (g_board b) l. attack_answer zob l b m} else {}))"
proof (cases "is_on_board b l \<and> is_stone b l \<and> num_liberties b l = 2")
  case False
  have "num_liberties b l = group_liberty_count b (group_head b l)" if "is_stone b l"
    using stone_not_wall [OF that] that by (simp add: num_liberties_def)
  then have "searchIsLadderCapturedAttackerFirst2Libs zob l b = Some (Inr ([], b))"
    using False by (auto simp: searchIsLadderCapturedAttackerFirst2Libs_def is_stone_def)
  then show ?thesis using restored_refl [OF assms] False by auto
next
  case True
  then have st: "is_stone b l" by blast
  have two: "group_liberty_count b (group_head b l) = 2" using stone_not_wall [OF st] True by (simp add: num_liberties_def)
  from findLiberties_ok [OF inv_ok(2,3) [OF assms] st, of "[]"] obtain xs where
    xs: "findLiberties b l [] = Some xs" "set xs = liberties (dy b) (g_board b) l" by auto
  have len: "length xs = 2" using findLiberties_count [OF inv_ok(2,3) [OF assms] st xs(1)] two by simp
  then obtain m0 m1 where m: "xs = [m0, m1]" by (auto simp: length_Suc_conv eval_nat_numeral)
  have e: "g_board b m0 = EMPTY" "g_board b m1 = EMPTY" using xs(2) m by (auto simp: liberties_def)
  let ?a = "\<lambda>m c. attack_works zob (get_opp (g_board b l)) l m c" and ?v = "attack_answer zob l b"
  have run: "searchIsLadderCapturedAttackerFirst2Libs zob l b = do {
         r0 \<leftarrow> ?a (xs ! 0) b;
         (case r0 of Inl e \<Rightarrow> Some (Inl e)
          | Inr (works0, b0) \<Rightarrow> do {
              r1 \<leftarrow> ?a (xs ! 1) b0;
              Some (case r1 of Inl e \<Rightarrow> Inl e
                | Inr (works1, b1) \<Rightarrow> Inr ((if works0 then [xs ! 0] else []) @ (if works1 then [xs ! 1] else []), b1)) }) }"
    using True two xs(1) len by (auto simp: searchIsLadderCapturedAttackerFirst2Libs_def is_stone_def)
  have nths: "xs ! 0 = m0" "xs ! 1 = m1" using m by simp_all
  note run = run [unfolded nths]
  from attack_ok [OF restored_refl [OF assms] st e(1), of zob] show ?thesis
  proof (elim disjE exE conjE)
    assume "?a m0 b = Some (Inl LadderIndex)"
    then show ?thesis unfolding run by simp
  next
    fix b0 assume b0: "?a m0 b = Some (Inr (?v m0, b0))" "restored b b0"
    from attack_ok [OF b0(2) st e(2), of zob] show ?thesis
    proof (elim disjE exE conjE)
      assume "?a m1 b0 = Some (Inl LadderIndex)"
      then show ?thesis unfolding run b0(1) by simp
    next
      fix b1 assume b1: "?a m1 b0 = Some (Inr (?v m1, b1))" "restored b b1"
      have L: "liberties (dy b) (g_board b) l = {m0, m1}" using xs(2) m by auto
      show ?thesis unfolding run L using b0(1) b1 True by auto
    qed
  qed
qed

end
