(* ===== verification/Board_Search_Props.thy ===== *)
theory Board_Search_Props
  imports Board_Props Board_Ladder_Search
begin

text \<open>The properties of undo, of the liberty queries and of the ladder search.\<close>

section \<open>Properties\<close>

text \<open>
  C18. A recorded move and its undo give the board back. From every reached board, a stone on an
  empty location, legal or not by ko and suicide, is played and undone without error; the position,
  the ko point, the prisoners, the move counts and the liberty count of every location are those
  before the move, although the chains were removed, filled again and linked anew.
\<close>

theorem undo_restores:
  assumes "board_init xs ys = Inr b0" "runE (board_step zob) b0 ops = Inr b"
    "g_board b l = EMPTY" "p = BLACK \<or> p = WHITE"
  shows "\<exists>c r e. playRecordedUnsafe zob p l b = Some (c, r) \<and> g_board c = rule_move (dy b) p l (g_board b)
    \<and> undo zob r c = Some e \<and> g_board e = g_board b \<and> simple_ko_point e = simple_ko_point b \<and> g_pla e = p
    \<and> num_captures_made e = num_captures_made b \<and> num_non_pass_moves_made e = num_non_pass_moves_made b
    \<and> (\<forall>x. num_liberties e x = num_liberties b x)"
proof -
  note inv = reached_inv [OF assms(1,2)]
  have "0 < l" using reached_ok(2) [OF inv] assms(3) by (auto simp: chains_ok_def geometry_def colors)
  then have l: "l \<noteq> PASS_LOC" by (simp add: PASS_LOC_def)
  obtain c where c: "playRecordedUnsafe zob p l b = Some (c, recorded p l b)" "board_inv c"
    "g_board c = rule_move (dy b) p l (g_board b)" "g_x_size c = g_x_size b" "g_y_size c = g_y_size b"
    by (rule recorded_play [OF inv assms(3,4) l])
  obtain e where e: "undo zob (recorded p l b) c = Some e" "board_inv e"
    "g_board e = g_board b" "simple_ko_point e = simple_ko_point b" "g_pla e = p" "g_x_size e = g_x_size b"
    "g_y_size e = g_y_size b" "num_captures_made e = num_captures_made b"
    "num_non_pass_moves_made e = num_non_pass_moves_made b"
    by (rule undo_recorded [OF inv assms(3,4) l inv_ok(2,3,4) [OF c(2)] c(3-5)])
  have "alike b e" using inv e by (simp add: alike_def)
  then have "num_liberties e x = num_liberties b x" for x
    using alike_liberty_count e(3) by (simp add: num_liberties_def)
  with c e show ?thesis by blast
qed

theorem undo_restores_witness:
  "\<exists>c r e. playRecordedUnsafe sample_zob BLACK 7 ko_board = Some (c, r)
    \<and> g_board c = rule_move (dy ko_board) BLACK 7 (g_board ko_board)
    \<and> undo sample_zob r c = Some e \<and> g_board e = g_board ko_board
    \<and> simple_ko_point e = simple_ko_point ko_board \<and> g_pla e = BLACK
    \<and> num_captures_made e = num_captures_made ko_board \<and> num_non_pass_moves_made e = num_non_pass_moves_made ko_board
    \<and> (\<forall>x. num_liberties e x = num_liberties ko_board x)"
  by (rule undo_restores [OF small_board_init ko_game_runs ko_board_facts(3,6)])

text \<open>
  C20. \<open>get_liberties_after_play\<close> counts, without playing, exactly the liberties that the new
  stone's string has once the opponent's strings without liberties are taken off, cut at the bound.
\<close>

theorem liberties_after_play_exact:
  assumes "board_init xs ys = Inr b0" "runE (board_step zob) b0 ops = Inr b"
    "g_board b l = EMPTY" "p = BLACK \<or> p = WHITE" "0 < maxLibs"
  shows "get_liberties_after_play b p l maxLibs =
    Some (min maxLibs (int (card (liberties (dy b) (clear (dy b) (get_opp p) ((g_board b)(l := p))) l))))"
  using get_liberties_after_play_exact [OF reached_ok(1,5) assms(3-5)] reached_inv [OF assms(1,2)] by blast

theorem liberties_after_play_exact_witness:
  "get_liberties_after_play ko_board BLACK 7 3 =
    Some (min 3 (int (card (liberties (dy ko_board) (clear (dy ko_board) (get_opp BLACK) ((g_board ko_board)(7 := BLACK))) 7))))"
  by (rule liberties_after_play_exact [OF small_board_init ko_game_runs ko_board_facts(3,6)]) simp

text \<open>
  C19. The ladder search over an explicit stack, which plays and undoes its moves on the board
  itself, is the plain recursive search. On every reached board both entry points end; their
  assertions never fail; unless the stack outgrows its array, they return the answer of the
  recursion and leave position, ko point, prisoners and move counts as they were.
\<close>

theorem ladder_search_is_recursion:
  assumes "board_init xs ys = Inr b0" "runE (board_step zob) b0 ops = Inr b"
  shows "(searchIsLadderCaptured zob l defenderFirst b = Some (Inl LadderIndex) \<or>
      (\<exists>c. searchIsLadderCaptured zob l defenderFirst b = Some (Inr (ladder_answer zob l defenderFirst b, c)) \<and> restored b c))
    \<and> (searchIsLadderCapturedAttackerFirst2Libs zob l b = Some (Inl LadderIndex) \<or>
      (\<exists>ms c. searchIsLadderCapturedAttackerFirst2Libs zob l b = Some (Inr (ms, c)) \<and> restored b c
        \<and> set ms = (if is_on_board b l \<and> is_stone b l \<and> num_liberties b l = 2
            then {m \<in> liberties (dy b) (g_board b) l. attack_answer zob l b m} else {})))"
  using search_ok [OF reached_inv [OF assms]] attacker_first_ok [OF reached_inv [OF assms]] by blast

theorem ladder_search_is_recursion_witness:
  "(searchIsLadderCaptured sample_zob 6 True ko_board = Some (Inl LadderIndex) \<or>
      (\<exists>c. searchIsLadderCaptured sample_zob 6 True ko_board = Some (Inr (ladder_answer sample_zob 6 True ko_board, c)) \<and> restored ko_board c))
    \<and> (searchIsLadderCapturedAttackerFirst2Libs sample_zob 6 ko_board = Some (Inl LadderIndex) \<or>
      (\<exists>ms c. searchIsLadderCapturedAttackerFirst2Libs sample_zob 6 ko_board = Some (Inr (ms, c)) \<and> restored ko_board c
        \<and> set ms = (if is_on_board ko_board 6 \<and> is_stone ko_board 6 \<and> num_liberties ko_board 6 = 2
            then {m \<in> liberties (dy ko_board) (g_board ko_board) 6. attack_answer sample_zob 6 ko_board m} else {})))"
  by (rule ladder_search_is_recursion [OF small_board_init ko_game_runs])

text \<open>The search does return on a sample: with White to move the stone at (1, 1) is captured in a ladder, with Black to move it is not.\<close>

definition ladder_result :: "loc \<Rightarrow> bool \<Rightarrow> (ladder_error + bool) option" where
  "ladder_result l df = map_option (map_sum id fst) (searchIsLadderCaptured sample_zob l df ko_board)"

lemma ladder_sample: "ladder_result 10 False = Some (Inr True)" "ladder_result 10 True = Some (Inr False)"
  by code_simp+

end
