(* ===== verification/Lease.thy ===== *)
theory Lease
  imports Kata_Prelude
begin

text \<open>
  The GPU lease, \<^verbatim>\<open>src/python/risk_score/gpu_lease.py\<close>: one GPU is handed from the trainer to the
  evaluators and back, with a durable record that lets a later process finish an interrupted handoff.
  Processes, clock, files and the GPU probe are the environment of the code, which it reaches
  through an injectable runner, clock and probe. They are a parameter here, a record of functions
  that answer every call from the history of calls made so far; the history itself is part of the
  state, so that properties can speak of what was observed and done in which order.
\<close>

section \<open>Numbers of the configuration\<close>

text \<open>
  The durations of the configuration are Python floats, and its checks let infinity and NaN pass:
  every comparison with NaN is false. The clock shows finite times.
\<close>

fun float_le :: "pyfloat \<Rightarrow> pyfloat \<Rightarrow> bool" where
  "float_le NaN y = False"
| "float_le x NaN = False"
| "float_le NInf y = True"
| "float_le x PInf = True"
| "float_le (Fin a) (Fin b) = (a \<le> b)"
| "float_le x y = False"

fun float_negative :: "pyfloat \<Rightarrow> bool" where
  "float_negative (Fin x) = (x < 0)"
| "float_negative NInf = True"
| "float_negative _ = False"

fun clock_plus :: "rat \<Rightarrow> pyfloat \<Rightarrow> pyfloat" where
  "clock_plus now (Fin d) = Fin (now + d)"
| "clock_plus now d = d"

section \<open>Records\<close>

datatype lease_exn = GpuLeaseError string string | OtherError string

fun exn_str :: "lease_exn \<Rightarrow> string" where
  "exn_str (GpuLeaseError code message) = message"
| "exn_str (OtherError message) = message"

record process_identity =
  pi_pid :: int
  pi_start_time_ticks :: "int option"
  pi_process_group_id :: "int option"
  pi_boot_id :: "string option"
  pi_command_sha256 :: "string option"
  pi_cgroup :: "string option"

definition is_verifiable :: "process_identity \<Rightarrow> bool" where
  "is_verifiable i = (if pi_start_time_ticks i \<noteq> None then True
     else pi_command_sha256 i \<noteq> None \<and> pi_cgroup i \<noteq> None)"

text \<open>One field of the comparison: absent on both sides, or present on both and equal.\<close>

definition field_agrees :: "'a option \<Rightarrow> 'a option \<Rightarrow> bool" where
  "field_agrees l r = (if l = None \<and> r = None then True else \<not> (l = None \<or> r = None \<or> l \<noteq> r))"

definition same_process_as :: "process_identity \<Rightarrow> process_identity \<Rightarrow> bool" where
  "same_process_as i j =
    (if pi_pid i \<noteq> pi_pid j then False
     else if \<not> field_agrees (pi_boot_id i) (pi_boot_id j) then False
     else if \<not> field_agrees (pi_start_time_ticks i) (pi_start_time_ticks j) then False
     else if \<not> field_agrees (pi_process_group_id i) (pi_process_group_id j) then False
     else if \<not> field_agrees (pi_command_sha256 i) (pi_command_sha256 j) then False
     else if \<not> field_agrees (pi_cgroup i) (pi_cgroup j) then False
     else pi_start_time_ticks i \<noteq> None \<or> pi_command_sha256 i \<noteq> None \<and> pi_cgroup i \<noteq> None)"

record gpu_process =
  gp_pid :: int
  gp_process_name :: string
  gp_used_memory_mib :: "int option"

record gpu_observation =
  go_gpu_uuid :: string
  go_processes :: "gpu_process list"

record checkpoint_identity =
  ck_device :: int
  ck_inode :: int
  ck_size :: int
  ck_mtime_ns :: int
  ck_sha256 :: string

definition content_changed_from :: "checkpoint_identity \<Rightarrow> checkpoint_identity \<Rightarrow> bool" where
  "content_changed_from c prior \<longleftrightarrow> ck_sha256 c \<noteq> ck_sha256 prior"

record runtime_config =
  rc_mutation_enabled :: bool
  rc_run_root :: string
  rc_promotion_root :: string
  rc_lease_state_path :: string
  rc_event_log_path :: string
  rc_expected_gpu_uuid :: string
  rc_gpu_index :: int
  rc_gpu_inventory_command :: "string list"
  rc_gpu_process_query_command :: "string list"
  rc_clean_observations :: int
  rc_clean_observation_interval_seconds :: pyfloat
  rc_poll_interval_seconds :: pyfloat
  rc_trainer_launch_command :: "string list"
  rc_trainer_graceful_command :: "string list"
  rc_trainer_checkpoint_path :: string
  rc_trainer_drain_timeout_seconds :: pyfloat
  rc_trainer_checkpoint_timeout_seconds :: pyfloat
  rc_trainer_checkpoint_stable_seconds :: pyfloat
  rc_require_checkpoint_change :: bool
  rc_trainer_start_timeout_seconds :: pyfloat
  rc_evaluator_launch_command :: "string list"
  rc_evaluator_drain_command :: "string list"
  rc_evaluator_process_count :: int
  rc_evaluator_drain_timeout_seconds :: pyfloat
  rc_owner_id :: string

record lease_record =
  lr_lease_id :: string
  lr_owner_id :: string
  lr_phase :: string
  lr_expected_gpu_uuid :: string
  lr_trainer :: "process_identity option"
  lr_evaluators :: "process_identity list"
  lr_checkpoint_sha256 :: "string option"
  lr_checkpoint_size :: "int option"
  lr_safety_halt :: bool
  lr_safety_reason :: "string option"
  lr_created_at :: pyfloat
  lr_updated_at :: pyfloat
  lr_pre_drain_checkpoint :: "checkpoint_identity option"
  lr_handoff_checkpoint :: "checkpoint_identity option"
  lr_lease_clean_observation_times :: "pyfloat list"
  lr_release_clean_observation_times :: "pyfloat list"
  lr_restoration_status :: string
  lr_restored_trainer :: "process_identity option"

record reconcile_report =
  rr_previous_phase :: "string option"
  rr_current_phase :: "string option"
  rr_actions :: "string list"
  rr_mutation_performed :: bool
  rr_safety_halt :: bool

section \<open>The environment\<close>

datatype spawn_role = TrainerRole | EvaluatorRole

text \<open>
  Every call of the environment with its answer, and every write, as the history records it. A write
  that raises says with its exception whether the file had been replaced by then: synchronizing the
  directory comes after the replacement.
\<close>

datatype lease_event =
    Running process_identity bool
  | Current int "process_identity option"
  | GroupAlive process_identity bool
  | RunCommand "string list" "lease_exn + int"
  | Spawned spawn_role "string list" "lease_exn + process_identity"
  | Signalled process_identity "lease_exn + unit"
  | Clock rat
  | Slept pyfloat "lease_exn + unit"
  | Stat "lease_exn + (int \<times> int) option"
  | Checkpoint "lease_exn + checkpoint_identity option"
  | Probed "lease_exn + gpu_observation"
  | LeaseId string
  | Saved lease_record "(bool \<times> lease_exn) + unit"
  | Emitted string "lease_exn + unit"
  | Locked "lease_exn + unit"
  | Loaded "lease_exn + unit"
  | Unlocked
  | Granted lease_record

type_synonym lease_history = "lease_event list"

record lease_world =
  w_is_running :: "lease_history \<Rightarrow> process_identity \<Rightarrow> bool"
  w_current_identity :: "lease_history \<Rightarrow> int \<Rightarrow> process_identity option"
  w_process_group_alive :: "lease_history \<Rightarrow> process_identity \<Rightarrow> bool"
  w_run :: "lease_history \<Rightarrow> string list \<Rightarrow> lease_exn + int"
  w_spawn :: "lease_history \<Rightarrow> string list \<Rightarrow> lease_exn + process_identity"
  w_signal :: "lease_history \<Rightarrow> process_identity \<Rightarrow> lease_exn + unit"
  w_clock :: "lease_history \<Rightarrow> rat"
  w_sleep :: "lease_history \<Rightarrow> pyfloat \<Rightarrow> lease_exn + unit"
  w_checkpoint_stat :: "lease_history \<Rightarrow> lease_exn + (int \<times> int) option"
  w_checkpoint_identity :: "lease_history \<Rightarrow> lease_exn + checkpoint_identity option"
  w_gpu_probe :: "lease_history \<Rightarrow> lease_exn + gpu_observation"
  w_lease_id :: "lease_history \<Rightarrow> string"
  w_write :: "lease_history \<Rightarrow> lease_record \<Rightarrow> (bool \<times> lease_exn) + unit"
  w_read :: "lease_history \<Rightarrow> lease_exn + unit"
  w_emit :: "lease_history \<Rightarrow> string \<Rightarrow> lease_exn + unit"
  w_lock :: "lease_history \<Rightarrow> lease_exn + unit"
  w_format :: "string \<Rightarrow> (string \<times> string) list \<Rightarrow> lease_exn + string"

text \<open>The history, newest call first; the content of the state file; \<open>_active_record\<close>.\<close>

record lease_manager =
  lm_history :: lease_history
  lm_file :: "lease_record option"
  lm_active :: "lease_record option"

section \<open>Actions\<close>

text \<open>
  An action runs on the state of the manager; it returns a value or raises, and \<open>None\<close> is a loop
  that does not end. An exception keeps the state it was raised in.
\<close>

type_synonym 'a action = "lease_manager \<Rightarrow> ((lease_exn + 'a) \<times> lease_manager) option"

definition give :: "'a \<Rightarrow> 'a action" where
  "give x s = Some (Inr x, s)"

definition throw :: "lease_exn \<Rightarrow> 'a action" where
  "throw e s = Some (Inl e, s)"

definition andThen :: "'a action \<Rightarrow> ('a \<Rightarrow> 'b action) \<Rightarrow> 'b action" where
  "andThen m f s = (case m s of None \<Rightarrow> None
     | Some (Inl e, t) \<Rightarrow> Some (Inl e, t)
     | Some (Inr x, t) \<Rightarrow> f x t)"

text \<open>\<open>attempt\<close> is the body of a \<open>try\<close>: the exception it raised, or its value.\<close>

definition attempt :: "'a action \<Rightarrow> (lease_exn + 'a) action" where
  "attempt m s = (case m s of None \<Rightarrow> None | Some (r, t) \<Rightarrow> Some (Inr r, t))"

definition ask :: "(lease_history \<Rightarrow> 'a) \<Rightarrow> ('a \<Rightarrow> lease_event) \<Rightarrow> 'a action" where
  "ask q ev s = (let x = q (lm_history s) in Some (Inr x, s\<lparr>lm_history := ev x # lm_history s\<rparr>))"

definition askE :: "(lease_history \<Rightarrow> lease_exn + 'a) \<Rightarrow> ((lease_exn + 'a) \<Rightarrow> lease_event) \<Rightarrow> 'a action" where
  "askE q ev = andThen (ask q ev) (\<lambda>r. case r of Inl e \<Rightarrow> throw e | Inr x \<Rightarrow> give x)"

definition require :: "bool \<Rightarrow> lease_exn \<Rightarrow> unit action" where
  "require P e = (if P then give () else throw e)"

text \<open>A \<open>while True\<close> loop over local variables: the body leaves with a value or goes on.\<close>

partial_function (option) loop :: "('v \<Rightarrow> ('a + 'v) action) \<Rightarrow> 'v \<Rightarrow> 'a action" where
  "loop body v s = (case body v s of None \<Rightarrow> None
     | Some (Inl e, t) \<Rightarrow> Some (Inl e, t)
     | Some (Inr (Inl x), t) \<Rightarrow> Some (Inr x, t)
     | Some (Inr (Inr u), t) \<Rightarrow> loop body u t)"

declare loop.simps [code]

section \<open>Calls of the environment\<close>

definition is_running :: "lease_world \<Rightarrow> process_identity \<Rightarrow> bool action" where
  "is_running w i = ask (\<lambda>h. w_is_running w h i) (Running i)"

definition current_identity :: "lease_world \<Rightarrow> int \<Rightarrow> process_identity option action" where
  "current_identity w p = ask (\<lambda>h. w_current_identity w h p) (Current p)"

definition process_group_alive :: "lease_world \<Rightarrow> process_identity \<Rightarrow> bool action" where
  "process_group_alive w i = ask (\<lambda>h. w_process_group_alive w h i) (GroupAlive i)"

definition run_command :: "lease_world \<Rightarrow> string list \<Rightarrow> int action" where
  "run_command w argv = askE (\<lambda>h. w_run w h argv) (RunCommand argv)"

definition spawn :: "lease_world \<Rightarrow> spawn_role \<Rightarrow> string list \<Rightarrow> process_identity action" where
  "spawn w role argv = askE (\<lambda>h. w_spawn w h argv) (Spawned role argv)"

definition signal_process_group :: "lease_world \<Rightarrow> process_identity \<Rightarrow> unit action" where
  "signal_process_group w i = askE (\<lambda>h. w_signal w h i) (Signalled i)"

definition clock :: "lease_world \<Rightarrow> rat action" where
  "clock w = ask (w_clock w) Clock"

definition sleep :: "lease_world \<Rightarrow> pyfloat \<Rightarrow> unit action" where
  "sleep w d = askE (\<lambda>h. w_sleep w h d) (Slept d)"

definition checkpoint_stat :: "lease_world \<Rightarrow> (int \<times> int) option action" where
  "checkpoint_stat w = askE (w_checkpoint_stat w) Stat"

definition stable_checkpoint_identity :: "lease_world \<Rightarrow> checkpoint_identity option action" where
  "stable_checkpoint_identity w = askE (w_checkpoint_identity w) Checkpoint"

definition gpu_probe :: "lease_world \<Rightarrow> gpu_observation action" where
  "gpu_probe w = askE (w_gpu_probe w) Probed"

definition emit :: "lease_world \<Rightarrow> string \<Rightarrow> unit action" where
  "emit w name = andThen (clock w) (\<lambda>_. askE (\<lambda>h. w_emit w h name) (Emitted name))"

definition get_active :: "lease_record option action" where
  "get_active s = Some (Inr (lm_active s), s)"

definition set_active :: "lease_record \<Rightarrow> unit action" where
  "set_active r s = Some (Inr (), s\<lparr>lm_active := Some r\<rparr>)"

definition require_mutation :: "runtime_config \<Rightarrow> unit action" where
  "require_mutation cfg = require (rc_mutation_enabled cfg) (GpuLeaseError ''mutation_disabled''
     ''External process and filesystem mutation is disabled by runtime config'')"

definition set_file :: "lease_record \<Rightarrow> unit action" where
  "set_file r s = Some (Inr (), s\<lparr>lm_file := Some r\<rparr>)"

definition save_record :: "lease_world \<Rightarrow> runtime_config \<Rightarrow> lease_record \<Rightarrow> unit action" where
  "save_record w cfg r = andThen (require_mutation cfg) (\<lambda>_.
     andThen (ask (\<lambda>h. w_write w h r) (Saved r)) (\<lambda>v.
     case v of Inr _ \<Rightarrow> set_file r
     | Inl (replaced, e) \<Rightarrow> andThen (if replaced then set_file r else give ()) (\<lambda>_. throw e)))"

definition load_record :: "lease_world \<Rightarrow> lease_record option action" where
  "load_record w = andThen (askE (w_read w) Loaded) (\<lambda>_ s. Some (Inr (lm_file s), s))"

definition replace_record :: "lease_world \<Rightarrow> runtime_config \<Rightarrow> (lease_record \<Rightarrow> lease_record) \<Rightarrow> lease_record \<Rightarrow> lease_record action" where
  "replace_record w cfg changes r = andThen (clock w) (\<lambda>t.
     let updated = (changes r)\<lparr>lr_updated_at := Fin t\<rparr> in
     andThen (set_active updated) (\<lambda>_.
     andThen (save_record w cfg updated) (\<lambda>_. give updated)))"

definition set_lease_halt :: "lease_world \<Rightarrow> runtime_config \<Rightarrow> lease_record \<Rightarrow> string \<Rightarrow> lease_record action" where
  "set_lease_halt w cfg r reason =
     andThen (replace_record w cfg (\<lambda>r. r\<lparr>lr_phase := ''safety_halt'', lr_safety_halt := True,
       lr_safety_reason := Some reason, lr_restoration_status := ''safety_halt''\<rparr>) r) (\<lambda>updated.
     andThen (emit w ''safety_halt'') (\<lambda>_. give updated))"

section \<open>Commands\<close>

definition validate_argv :: "string list \<Rightarrow> string \<Rightarrow> lease_exn + unit" where
  "validate_argv argv name = (if argv = [] \<or> \<not> list_all (\<lambda>part. part \<noteq> []) argv
     then Inl (GpuLeaseError ''invalid_command'' (name @ '' must be a non-empty argv sequence'')) else Inr ())"

definition reject_sigstop :: "string list \<Rightarrow> string \<Rightarrow> lease_exn + unit" where
  "reject_sigstop argv name =
    (if list_ex (\<lambda>part. py_lower (py_strip part) \<in> set [''sigstop'', ''stop'', ''-stop'', ''-sigstop'', ''-19'']) argv
     then Inl (GpuLeaseError ''sigstop_prohibited'' (name @ '' must never use SIGSTOP'')) else Inr ())"

definition int_str :: "int \<Rightarrow> string" where
  "int_str n = fmt_0d 0 n"

definition command_values :: "runtime_config \<Rightarrow> lease_record option \<Rightarrow> process_identity option \<Rightarrow> nat \<Rightarrow> (string \<times> string) list" where
  "command_values cfg r i worker_index =
    [(''run_root'', rc_run_root cfg), (''promotion_root'', rc_promotion_root cfg),
     (''lease_state'', rc_lease_state_path cfg), (''event_log'', rc_event_log_path cfg),
     (''checkpoint_path'', rc_trainer_checkpoint_path cfg), (''gpu_uuid'', rc_expected_gpu_uuid cfg),
     (''gpu_index'', int_str (rc_gpu_index cfg)), (''worker_index'', int_str (int worker_index)),
     (''lease_id'', case r of None \<Rightarrow> [] | Some r \<Rightarrow> lr_lease_id r), (''owner_id'', rc_owner_id cfg),
     (''pid'', case i of None \<Rightarrow> [] | Some i \<Rightarrow> int_str (pi_pid i)),
     (''process_group_id'', case i of None \<Rightarrow> [] | Some i \<Rightarrow>
        (case pi_process_group_id i of None \<Rightarrow> [] | Some g \<Rightarrow> int_str g)),
     (''checkpoint_sha256'', case r of None \<Rightarrow> [] | Some r \<Rightarrow>
        (case lr_checkpoint_sha256 r of None \<Rightarrow> [] | Some c \<Rightarrow> c))]"

text \<open>
  \<open>str.format_map\<close> on a template whose fields are plain names. \<open>Inl None\<close> says that a field has a
  conversion, a format specification, an attribute or an index; \<open>w_format\<close> then formats the part.
\<close>

definition format_field :: "(string \<times> string) list \<Rightarrow> string \<Rightarrow> lease_exn option + string" where
  "format_field vals name =
    (if list_ex (\<lambda>c. c \<in> set ''.[!:'') name then Inl None
     else if CHR ''{'' \<in> set name then Inl (Some (OtherError ''Unexpected opening brace in field name''))
     else if list_all (\<lambda>c. c \<in> set ''0123456789'') name then Inl (Some (OtherError ''Format string contains positional fields''))
     else case map_of vals name of Some x \<Rightarrow> Inr x
       | None \<Rightarrow> Inl (Some (GpuLeaseError ''unknown_command_placeholder''
           (''Unknown command placeholder: '' @ [CHR 0x27] @ name @ [CHR 0x27]))))"

function py_format :: "(string \<times> string) list \<Rightarrow> string \<Rightarrow> lease_exn option + string" where
  "py_format vals [] = Inr []"
| "py_format vals (c # cs) =
    (if c \<in> set ''{}'' \<and> take 1 cs = [c] then bindE (py_format vals (tl cs)) (\<lambda>x. Inr (c # x))
     else if c = CHR ''}'' then Inl (Some (OtherError ''Single closing brace in format string''))
     else if c = CHR ''{'' then
       (if CHR ''}'' \<notin> set cs then Inl (Some (OtherError ''Single opening brace in format string''))
        else bindE (format_field vals (takeWhile (\<lambda>c. c \<noteq> CHR ''}'') cs)) (\<lambda>v.
          bindE (py_format vals (drop 1 (dropWhile (\<lambda>c. c \<noteq> CHR ''}'') cs))) (\<lambda>x. Inr (v @ x))))
     else bindE (py_format vals cs) (\<lambda>x. Inr (c # x)))"
  by pat_completeness auto

termination py_format
proof (relation "measure (\<lambda>(_, part). length part)", goal_cases)
  case (3 vals c cs v)
  then show ?case using length_dropWhile_le [of "\<lambda>c. c \<noteq> CHR ''}''" cs] by simp
qed auto

fun format_parts :: "lease_world \<Rightarrow> (string \<times> string) list \<Rightarrow> string list \<Rightarrow> lease_exn + string list" where
  "format_parts w vals [] = Inr []"
| "format_parts w vals (part # parts) =
     bindE (case py_format vals part of Inr x \<Rightarrow> Inr x | Inl (Some e) \<Rightarrow> Inl e | Inl None \<Rightarrow> w_format w part vals) (\<lambda>x.
     bindE (format_parts w vals parts) (\<lambda>xs. Inr (x # xs)))"

definition lift_result :: "lease_exn + 'a \<Rightarrow> 'a action" where
  "lift_result r = (case r of Inl e \<Rightarrow> throw e | Inr x \<Rightarrow> give x)"

definition expand_command :: "lease_world \<Rightarrow> runtime_config \<Rightarrow> string list \<Rightarrow> lease_record option \<Rightarrow> process_identity option \<Rightarrow> nat \<Rightarrow> string list action" where
  "expand_command w cfg template r i worker_index = lift_result (
     bindE (format_parts w (command_values cfg r i worker_index) template) (\<lambda>argv.
     bindE (validate_argv argv ''expanded command'') (\<lambda>_.
     bindE (reject_sigstop argv ''expanded command'') (\<lambda>_. Inr argv))))"

text \<open>\<open>__post_init__\<close> of the configuration, without the checks of its paths.\<close>

definition check_config :: "runtime_config \<Rightarrow> lease_exn + unit" where
  "check_config cfg =
    (let bad = (\<lambda>m. Inl (GpuLeaseError ''invalid_runtime_config'' m));
         durations = [(''clean_observation_interval_seconds'', rc_clean_observation_interval_seconds cfg),
           (''trainer_drain_timeout_seconds'', rc_trainer_drain_timeout_seconds cfg),
           (''trainer_checkpoint_timeout_seconds'', rc_trainer_checkpoint_timeout_seconds cfg),
           (''trainer_checkpoint_stable_seconds'', rc_trainer_checkpoint_stable_seconds cfg),
           (''trainer_start_timeout_seconds'', rc_trainer_start_timeout_seconds cfg),
           (''evaluator_drain_timeout_seconds'', rc_evaluator_drain_timeout_seconds cfg)];
         commands = [(''trainer_launch_command'', rc_trainer_launch_command cfg, False),
           (''trainer_graceful_command'', rc_trainer_graceful_command cfg, True),
           (''evaluator_launch_command'', rc_evaluator_launch_command cfg, False),
           (''evaluator_drain_command'', rc_evaluator_drain_command cfg, True),
           (''gpu_inventory_command'', rc_gpu_inventory_command cfg, False),
           (''gpu_process_query_command'', rc_gpu_process_query_command cfg, False)]
     in if rc_expected_gpu_uuid cfg = [] then bad ''expected_gpu_uuid must not be empty''
        else if rc_clean_observations cfg < 2 then bad ''At least two clean GPU observations are required''
        else if rc_gpu_index cfg < 0 \<or> rc_evaluator_process_count cfg < 1
        then bad ''GPU index and evaluator process count are out of range''
        else if float_le (rc_poll_interval_seconds cfg) (Fin 0) then bad ''poll_interval_seconds must be positive''
        else bindE (runE (\<lambda>_ (name, d). if float_negative d then bad (name @ '' must not be negative'') else Inr ()) () durations) (\<lambda>_.
          runE (\<lambda>_ (name, command, allow_empty).
            bindE (if command \<noteq> [] \<or> \<not> allow_empty then validate_argv command name else Inr ()) (\<lambda>_.
            reject_sigstop command name)) () commands))"

section \<open>Waiting and draining\<close>

definition require_identity_alive :: "lease_world \<Rightarrow> process_identity \<Rightarrow> string \<Rightarrow> unit action" where
  "require_identity_alive w i role =
     andThen (require (is_verifiable i) (GpuLeaseError ''unverifiable_process_identity''
       (role @ '' identity cannot distinguish PID reuse''))) (\<lambda>_.
     andThen (current_identity w (pi_pid i)) (\<lambda>current.
     require (case current of None \<Rightarrow> False | Some c \<Rightarrow> same_process_as i c) (GpuLeaseError ''process_identity_changed''
       (role @ '' PID is absent or has been reused''))))"

definition identity_reused :: "lease_world \<Rightarrow> process_identity \<Rightarrow> bool action" where
  "identity_reused w i = andThen (current_identity w (pi_pid i)) (\<lambda>current.
     give (case current of None \<Rightarrow> False | Some c \<Rightarrow> \<not> same_process_as i c))"

text \<open>\<open>not is_running and not process_group_alive\<close>, the second asked only when needed.\<close>

definition group_gone :: "lease_world \<Rightarrow> process_identity \<Rightarrow> bool action" where
  "group_gone w i = andThen (is_running w i) (\<lambda>running.
     if running then give False else andThen (process_group_alive w i) (\<lambda>alive. give (\<not> alive)))"

text \<open>The end of a polling loop: past the deadline it raises, otherwise it sleeps and goes on with \<open>v\<close>.\<close>

definition poll_again :: "lease_world \<Rightarrow> runtime_config \<Rightarrow> pyfloat \<Rightarrow> lease_exn \<Rightarrow> 'v \<Rightarrow> ('a + 'v) action" where
  "poll_again w cfg deadline e v = andThen (clock w) (\<lambda>t.
     if float_le deadline (Fin t) then throw e
     else andThen (sleep w (rc_poll_interval_seconds cfg)) (\<lambda>_. give (Inr v)))"

definition wait_for_exit :: "lease_world \<Rightarrow> runtime_config \<Rightarrow> process_identity \<Rightarrow> pyfloat \<Rightarrow> string \<Rightarrow> unit action" where
  "wait_for_exit w cfg i timeout code = andThen (clock w) (\<lambda>now.
     let deadline = clock_plus now timeout in
     loop (\<lambda>_.
       andThen (identity_reused w i) (\<lambda>reused.
       if reused then give (Inl ())
       else andThen (group_gone w i) (\<lambda>gone.
       if gone then give (Inl ())
       else poll_again w cfg deadline (GpuLeaseError code ''Process group did not exit before its deadline'') ()))) ())"

text \<open>The local variables are \<open>stable_since\<close> and \<open>previous\<close>.\<close>

definition wait_for_checkpoint_identity :: "lease_world \<Rightarrow> runtime_config \<Rightarrow> checkpoint_identity option \<Rightarrow> bool \<Rightarrow> checkpoint_identity action" where
  "wait_for_checkpoint_identity w cfg prior require_change = andThen (clock w) (\<lambda>now.
     let deadline = clock_plus now (rc_trainer_checkpoint_timeout_seconds cfg);
         continue_with = poll_again w cfg deadline (GpuLeaseError ''trainer_checkpoint_timeout''
           ''Trainer exited without a complete checkpoint handoff'')
     in loop (\<lambda>(stable_since, previous).
       andThen (checkpoint_stat w) (\<lambda>current.
       if current = None then continue_with (stable_since, previous)
       else andThen (if current \<noteq> previous then andThen (clock w) (\<lambda>t. give (Some t, current))
              else give (stable_since, previous)) (\<lambda>(stable_since, previous).
         andThen (case stable_since of None \<Rightarrow> give False
            | Some since \<Rightarrow> andThen (clock w) (\<lambda>t. give (float_le (rc_trainer_checkpoint_stable_seconds cfg) (Fin (t - since))))) (\<lambda>stable.
         if \<not> stable then continue_with (stable_since, previous)
         else andThen (stable_checkpoint_identity w) (\<lambda>identity.
           case identity of None \<Rightarrow> continue_with (stable_since, previous)
           | Some c \<Rightarrow> if (case prior of None \<Rightarrow> True | Some b \<Rightarrow> \<not> require_change \<or> content_changed_from c b)
               then give (Inl c) else continue_with (stable_since, previous)))))) (None, None))"

definition request_trainer_drain :: "lease_world \<Rightarrow> runtime_config \<Rightarrow> process_identity \<Rightarrow> unit action" where
  "request_trainer_drain w cfg i = andThen (require_identity_alive w i ''trainer'') (\<lambda>_.
     if rc_trainer_graceful_command cfg \<noteq> [] then
       andThen get_active (\<lambda>active.
       andThen (expand_command w cfg (rc_trainer_graceful_command cfg) active (Some i) 0) (\<lambda>argv.
       andThen (run_command w argv) (\<lambda>returncode.
       require (returncode = 0) (GpuLeaseError ''trainer_graceful_command_failed'' ''Trainer graceful-drain command failed''))))
     else signal_process_group w i)"

text \<open>
  \<open>_complete_trainer_drain\<close> in three parts: the command, the wait for the process group, and the record of
  the checkpoint.
\<close>

definition issue_trainer_drain :: "lease_world \<Rightarrow> runtime_config \<Rightarrow> process_identity \<Rightarrow> bool \<Rightarrow> unit action" where
  "issue_trainer_drain w cfg i issue_command =
     andThen (is_running w i) (\<lambda>trainer_alive.
     andThen (identity_reused w i) (\<lambda>reused.
     if issue_command \<and> trainer_alive then request_trainer_drain w cfg i
     else if issue_command \<and> \<not> trainer_alive then
       (if reused then give ()
        else andThen (process_group_alive w i) (\<lambda>alive. require (\<not> alive)
          (GpuLeaseError ''unverifiable_trainer_process_group'' ''Trainer PID is gone but its process group is still live'')))
     else if trainer_alive then throw (GpuLeaseError ''trainer_still_running''
       ''Cannot validate a completed handoff while trainer is live'')
     else give ()))"

definition await_trainer_exit :: "lease_world \<Rightarrow> runtime_config \<Rightarrow> process_identity \<Rightarrow> unit action" where
  "await_trainer_exit w cfg i =
     andThen (identity_reused w i) (\<lambda>reused.
     andThen (is_running w i) (\<lambda>running.
     andThen (if running then give True else if reused then give False else process_group_alive w i) (\<lambda>live.
     if live then wait_for_exit w cfg i (rc_trainer_drain_timeout_seconds cfg) ''trainer_drain_timeout'' else give ())))"

definition record_handoff :: "lease_world \<Rightarrow> runtime_config \<Rightarrow> checkpoint_identity \<Rightarrow> lease_record \<Rightarrow> lease_record action" where
  "record_handoff w cfg prior r =
     andThen (wait_for_checkpoint_identity w cfg (Some prior) (rc_require_checkpoint_change cfg)) (\<lambda>handoff.
     andThen (replace_record w cfg (\<lambda>r. r\<lparr>lr_phase := ''trainer_drained'', lr_checkpoint_sha256 := Some (ck_sha256 handoff),
       lr_checkpoint_size := Some (ck_size handoff), lr_handoff_checkpoint := Some handoff,
       lr_restoration_status := ''pending''\<rparr>) r) (\<lambda>r.
     andThen (emit w ''trainer_drained'') (\<lambda>_. give r)))"

definition complete_trainer_drain :: "lease_world \<Rightarrow> runtime_config \<Rightarrow> lease_record \<Rightarrow> bool \<Rightarrow> lease_record action" where
  "complete_trainer_drain w cfg r issue_command =
    (case (lr_trainer r, lr_pre_drain_checkpoint r) of
       (Some i, Some prior) \<Rightarrow>
         andThen (issue_trainer_drain w cfg i issue_command) (\<lambda>_.
         andThen (await_trainer_exit w cfg i) (\<lambda>_.
         record_handoff w cfg prior r))
     | _ \<Rightarrow> throw (GpuLeaseError ''missing_pre_drain_checkpoint''
         ''Drain state lacks trainer or pre-drain checkpoint proof''))"

definition require_recorded_handoff_checkpoint :: "lease_world \<Rightarrow> lease_record \<Rightarrow> unit action" where
  "require_recorded_handoff_checkpoint w r =
    (case lr_handoff_checkpoint r of
       None \<Rightarrow> throw (GpuLeaseError ''missing_handoff_checkpoint'' ''Refusing trainer restore without handoff checkpoint proof'')
     | Some expected \<Rightarrow> andThen (stable_checkpoint_identity w) (\<lambda>observed.
         require (observed = Some expected) (GpuLeaseError ''handoff_checkpoint_changed''
           ''Trainer checkpoint no longer matches the validated handoff'')))"

text \<open>The times of the observations made are \<open>seen\<close>; \<open>n\<close> are left.\<close>

fun clean_observations :: "lease_world \<Rightarrow> runtime_config \<Rightarrow> nat \<Rightarrow> pyfloat list \<Rightarrow> pyfloat list action" where
  "clean_observations w cfg 0 seen = give seen"
| "clean_observations w cfg (Suc n) seen =
     andThen (attempt (gpu_probe w)) (\<lambda>r.
     case r of Inl (GpuLeaseError c m) \<Rightarrow> throw (GpuLeaseError c m)
     | Inl (OtherError m) \<Rightarrow> throw (GpuLeaseError ''gpu_probe_failed'' (''GPU probe failed: '' @ m))
     | Inr observation \<Rightarrow>
       andThen (require (go_gpu_uuid observation = rc_expected_gpu_uuid cfg) (GpuLeaseError ''gpu_uuid_mismatch''
         ''GPU observation did not identify the configured UUID'')) (\<lambda>_.
       andThen (require (go_processes observation = []) (GpuLeaseError ''foreign_gpu_process''
         ''GPU is not clean; refusing exclusive lease handoff'')) (\<lambda>_.
       andThen (clock w) (\<lambda>observed_at.
       andThen (emit w ''gpu_clean_observation'') (\<lambda>_.
       andThen (if n > 0 then sleep w (rc_clean_observation_interval_seconds cfg) else give ()) (\<lambda>_.
       clean_observations w cfg n (seen @ [Fin observed_at])))))))"

definition require_clean_gpu :: "lease_world \<Rightarrow> runtime_config \<Rightarrow> pyfloat list action" where
  "require_clean_gpu w cfg = clean_observations w cfg (nat (rc_clean_observations cfg)) []"

fun live_of :: "lease_world \<Rightarrow> nat \<Rightarrow> process_identity list \<Rightarrow> (nat \<times> process_identity) list action" where
  "live_of w k [] = give []"
| "live_of w k (i # is) = andThen (is_running w i) (\<lambda>running.
     andThen (live_of w (Suc k) is) (\<lambda>rest. give (if running then (k, i) # rest else rest)))"

fun stop_evaluators :: "lease_world \<Rightarrow> runtime_config \<Rightarrow> lease_record \<Rightarrow> (nat \<times> process_identity) list \<Rightarrow> unit action" where
  "stop_evaluators w cfg r [] = give ()"
| "stop_evaluators w cfg r ((k, i) # rest) =
     andThen (if rc_evaluator_drain_command cfg \<noteq> [] then
         andThen (expand_command w cfg (rc_evaluator_drain_command cfg) (Some r) (Some i) k) (\<lambda>argv.
         andThen (run_command w argv) (\<lambda>returncode.
         require (returncode = 0) (GpuLeaseError ''evaluator_drain_command_failed'' ''Evaluator drain command failed'')))
       else signal_process_group w i) (\<lambda>_.
     stop_evaluators w cfg r rest)"

fun await_evaluators :: "lease_world \<Rightarrow> runtime_config \<Rightarrow> (nat \<times> process_identity) list \<Rightarrow> unit action" where
  "await_evaluators w cfg [] = give ()"
| "await_evaluators w cfg ((k, i) # rest) =
     andThen (group_gone w i) (\<lambda>gone.
     andThen (if gone then give () else wait_for_exit w cfg i (rc_evaluator_drain_timeout_seconds cfg) ''evaluator_drain_timeout'') (\<lambda>_.
     await_evaluators w cfg rest))"

definition drain_evaluators :: "lease_world \<Rightarrow> runtime_config \<Rightarrow> lease_record \<Rightarrow> lease_record action" where
  "drain_evaluators w cfg r =
     andThen (live_of w 0 (lr_evaluators r)) (\<lambda>live_evaluators.
     andThen (stop_evaluators w cfg r live_evaluators) (\<lambda>_.
     andThen (await_evaluators w cfg live_evaluators) (\<lambda>_.
     andThen (replace_record w cfg (\<lambda>r. r\<lparr>lr_phase := (if lr_safety_halt r then ''safety_halt'' else ''evaluator_drained''),
       lr_evaluators := []\<rparr>) r) (\<lambda>r.
     andThen (emit w ''evaluators_drained'') (\<lambda>_. give r)))))"

text \<open>The second half of \<open>_restore_trainer\<close>: the new process is recorded, then awaited.\<close>

definition await_restored :: "lease_world \<Rightarrow> runtime_config \<Rightarrow> process_identity \<Rightarrow> lease_record \<Rightarrow> lease_record action" where
  "await_restored w cfg identity r =
     andThen (replace_record w cfg (\<lambda>r. r\<lparr>lr_restored_trainer := Some identity,
       lr_restoration_status := ''started''\<rparr>) r) (\<lambda>r.
     andThen (clock w) (\<lambda>now.
     let deadline = clock_plus now (rc_trainer_start_timeout_seconds cfg) in
     andThen (loop (\<lambda>_. andThen (is_running w identity) (\<lambda>running.
         if running then give (Inl ())
         else poll_again w cfg deadline (GpuLeaseError ''trainer_restart_failed'' ''Restarted trainer did not remain alive'') ())) ()) (\<lambda>_.
     andThen (replace_record w cfg (\<lambda>r. r\<lparr>lr_phase := ''trainer_running'', lr_trainer := Some identity,
       lr_evaluators := [], lr_safety_halt := False, lr_safety_reason := None,
       lr_restoration_status := ''restored'', lr_restored_trainer := Some identity\<rparr>) r) (\<lambda>r.
     andThen (emit w ''trainer_restored'') (\<lambda>_. give r)))))"

definition restore_trainer :: "lease_world \<Rightarrow> runtime_config \<Rightarrow> lease_record \<Rightarrow> lease_record action" where
  "restore_trainer w cfg r =
     andThen (require_recorded_handoff_checkpoint w r) (\<lambda>_.
     andThen (replace_record w cfg (\<lambda>r. r\<lparr>lr_phase := ''restoring_trainer'', lr_evaluators := [],
       lr_owner_id := rc_owner_id cfg, lr_restoration_status := ''pending''\<rparr>) r) (\<lambda>r.
     andThen (expand_command w cfg (rc_trainer_launch_command cfg) (Some r) (lr_trainer r) 0) (\<lambda>argv.
     andThen (spawn w TrainerRole argv) (\<lambda>identity.
     await_restored w cfg identity r))))"

section \<open>Reconciliation\<close>

definition alive_opt :: "lease_world \<Rightarrow> process_identity option \<Rightarrow> bool action" where
  "alive_opt w i = (case i of None \<Rightarrow> give False | Some i \<Rightarrow> is_running w i)"

definition halted :: "lease_world \<Rightarrow> runtime_config \<Rightarrow> lease_record \<Rightarrow> string \<Rightarrow> string list \<Rightarrow> (string list \<times> lease_record) action" where
  "halted w cfg r reason actions = andThen (set_lease_halt w cfg r reason) (\<lambda>h. give (actions, h))"

text \<open>The last part, after the trainer is known to be gone: verify the GPU and start the trainer again.\<close>

definition reconcile_restore :: "lease_world \<Rightarrow> runtime_config \<Rightarrow> lease_record \<Rightarrow> string list \<Rightarrow> (string list \<times> lease_record) action" where
  "reconcile_restore w cfg r actions =
    (let fail = (\<lambda>r e. halted w cfg r (''reconcile trainer restoration failed: '' @ exn_str e) (actions @ [''safety_halt_trainer_restore'']))
     in andThen (attempt (andThen (require_clean_gpu w cfg) (\<lambda>release_times.
          replace_record w cfg (\<lambda>r. r\<lparr>lr_phase := ''release_gpu_verified'',
            lr_release_clean_observation_times := release_times\<rparr>) r))) (\<lambda>v.
        case v of Inl e \<Rightarrow> fail r e
        | Inr r \<Rightarrow> andThen (attempt (andThen (require_recorded_handoff_checkpoint w r) (\<lambda>_. restore_trainer w cfg r))) (\<lambda>v.
            case v of Inl e \<Rightarrow> fail r e | Inr r \<Rightarrow> give (actions @ [''restored_trainer''], r))))"

definition reconcile_evaluators :: "lease_world \<Rightarrow> runtime_config \<Rightarrow> bool \<Rightarrow> lease_record \<Rightarrow> string list \<Rightarrow> (string list \<times> lease_record) action" where
  "reconcile_evaluators w cfg trainer_alive r actions =
    (let finish = (\<lambda>r actions. if trainer_alive
       then halted w cfg r ''unexpected live trainer during incomplete handoff'' (actions @ [''safety_halt_unexpected_trainer''])
       else reconcile_restore w cfg r actions)
     in if lr_evaluators r = [] then finish r actions
        else andThen (replace_record w cfg (\<lambda>r. r\<lparr>lr_phase := ''draining_evaluators''\<rparr>) r) (\<lambda>r.
          andThen (attempt (drain_evaluators w cfg r)) (\<lambda>v.
          case v of Inl e \<Rightarrow> halted w cfg r (''reconcile evaluator drain failed: '' @ exn_str e) (actions @ [''safety_halt_evaluator_drain''])
          | Inr r \<Rightarrow> finish r (actions @ [''drained_evaluators'']))))"

definition reconcile_locked :: "lease_world \<Rightarrow> runtime_config \<Rightarrow> lease_record \<Rightarrow> (string list \<times> lease_record) action" where
  "reconcile_locked w cfg r =
     andThen (set_active r) (\<lambda>_.
     if lr_expected_gpu_uuid r \<noteq> rc_expected_gpu_uuid cfg
     then halted w cfg r ''lease GPU UUID differs from runtime configuration'' [''safety_halt_gpu_uuid_mismatch'']
     else if lr_safety_halt r then give ([], r)
     else
       andThen (alive_opt w (lr_trainer r)) (\<lambda>trainer_alive.
       andThen (alive_opt w (lr_restored_trainer r)) (\<lambda>restored_trainer_alive.
       andThen (live_of w 0 (lr_evaluators r)) (\<lambda>live_evaluators.
       if (trainer_alive \<or> restored_trainer_alive) \<and> live_evaluators \<noteq> []
       then halted w cfg r ''trainer and evaluator identities are both live'' [''safety_halt_process_overlap'']
       else if lr_phase r = ''restoring_trainer'' \<and> restored_trainer_alive then
         (if lr_handoff_checkpoint r = None
          then halted w cfg r ''restored trainer is live without checkpoint handoff proof'' [''safety_halt_missing_checkpoint_handoff'']
          else andThen (replace_record w cfg (\<lambda>r. r\<lparr>lr_phase := ''trainer_running'', lr_trainer := lr_restored_trainer r,
              lr_restoration_status := ''restored'', lr_evaluators := [], lr_owner_id := rc_owner_id cfg\<rparr>) r) (\<lambda>r.
            give ([''completed_trainer_restoration''], r)))
       else if lr_phase r = ''trainer_running'' \<and> trainer_alive then
         (if lr_evaluators r \<noteq> []
          then andThen (replace_record w cfg (\<lambda>r. r\<lparr>lr_evaluators := [], lr_owner_id := rc_owner_id cfg\<rparr>) r) (\<lambda>r.
            give ([''cleared_stale_evaluator_identities''], r))
          else give ([], r))
       else if lr_phase r = ''draining_trainer'' then
         andThen (attempt (complete_trainer_drain w cfg r trainer_alive)) (\<lambda>v.
         case v of Inl e \<Rightarrow> halted w cfg r (''reconcile checkpoint handoff validation failed: '' @ exn_str e) [''safety_halt_checkpoint_handoff'']
         | Inr r \<Rightarrow> reconcile_evaluators w cfg restored_trainer_alive r [''validated_trainer_checkpoint_handoff''])
       else if lr_handoff_checkpoint r = None
       then halted w cfg r ''reconcile refused restore without checkpoint handoff proof'' [''safety_halt_missing_checkpoint_handoff'']
       else reconcile_evaluators w cfg (trainer_alive \<or> restored_trainer_alive) r []))))"

fun any_running :: "lease_world \<Rightarrow> process_identity list \<Rightarrow> bool action" where
  "any_running w [] = give False"
| "any_running w (i # is) = andThen (is_running w i) (\<lambda>running. if running then give True else any_running w is)"

definition planned_reconcile_actions :: "lease_world \<Rightarrow> lease_record \<Rightarrow> string list action" where
  "planned_reconcile_actions w r =
    (if lr_safety_halt r then give [''operator_clear_safety_halt'']
     else
       andThen (alive_opt w (lr_trainer r)) (\<lambda>trainer_alive.
       andThen (alive_opt w (lr_restored_trainer r)) (\<lambda>restored_alive.
       andThen (any_running w (lr_evaluators r)) (\<lambda>evaluator_alive.
       if (trainer_alive \<or> restored_alive) \<and> evaluator_alive then give [''safety_halt_process_overlap'']
       else if lr_phase r = ''restoring_trainer'' \<and> restored_alive then give [''complete_trainer_restoration'']
       else if lr_phase r = ''draining_trainer'' then
         (if lr_pre_drain_checkpoint r = None then give [''safety_halt_missing_pre_drain_checkpoint'']
          else give [if trainer_alive then ''complete_trainer_drain'' else ''validate_checkpoint_handoff'', ''restore_trainer''])
       else if lr_phase r = ''trainer_running'' \<and> trainer_alive then
         give (if lr_evaluators r \<noteq> [] then [''clear_stale_evaluator_identities''] else [])
       else if lr_handoff_checkpoint r = None then give [''safety_halt_missing_checkpoint_handoff'']
       else give ((if evaluator_alive \<or> lr_evaluators r \<noteq> [] then [''drain_evaluators''] else [])
         @ (if \<not> trainer_alive \<and> \<not> restored_alive then [''verify_release_gpu'', ''restore_trainer''] else []))))))"

text \<open>\<open>with self._exclusive_lock()\<close>: the lock is released on every way out.\<close>

definition with_lock :: "lease_world \<Rightarrow> 'a action \<Rightarrow> 'a action" where
  "with_lock w m = andThen (askE (w_lock w) Locked) (\<lambda>_.
     andThen (attempt m) (\<lambda>r.
     andThen (ask (\<lambda>_. ()) (\<lambda>_. Unlocked)) (\<lambda>_. lift_result r)))"

definition reconcile :: "lease_world \<Rightarrow> runtime_config \<Rightarrow> bool option \<Rightarrow> reconcile_report action" where
  "reconcile w cfg mutate =
    (let should_mutate = (case mutate of None \<Rightarrow> rc_mutation_enabled cfg | Some m \<Rightarrow> m);
         empty = \<lparr>rr_previous_phase = None, rr_current_phase = None, rr_actions = [], rr_mutation_performed = False, rr_safety_halt = False\<rparr>
     in andThen (load_record w) (\<lambda>rec.
        case rec of None \<Rightarrow> give empty
        | Some r \<Rightarrow>
          if \<not> should_mutate then andThen (planned_reconcile_actions w r) (\<lambda>actions.
            give \<lparr>rr_previous_phase = Some (lr_phase r), rr_current_phase = Some (lr_phase r), rr_actions = actions,
              rr_mutation_performed = False, rr_safety_halt = lr_safety_halt r\<rparr>)
          else andThen (require_mutation cfg) (\<lambda>_.
            with_lock w (andThen (load_record w) (\<lambda>rec.
              case rec of None \<Rightarrow> give empty
              | Some r \<Rightarrow> andThen (reconcile_locked w cfg r) (\<lambda>(actions, current).
                  give \<lparr>rr_previous_phase = Some (lr_phase r), rr_current_phase = Some (lr_phase current), rr_actions = actions,
                    rr_mutation_performed = (actions \<noteq> []), rr_safety_halt = lr_safety_halt current\<rparr>))))))"

section \<open>The handoff\<close>

text \<open>The \<open>finally\<close> part of a handoff: the exception that the cleanup itself met, if any.\<close>

definition handoff_release :: "lease_world \<Rightarrow> runtime_config \<Rightarrow> lease_record \<Rightarrow> lease_exn option \<Rightarrow> (lease_record \<times> lease_exn option) action" where
  "handoff_release w cfg active cleanup_error =
    (let fail = (\<lambda>active e. andThen (set_lease_halt w cfg active (''trainer restoration failed: '' @ exn_str e)) (\<lambda>h.
           give (h, Some (case cleanup_error of None \<Rightarrow> e | Some c \<Rightarrow> c))))
     in andThen (attempt (replace_record w cfg (\<lambda>r. r\<lparr>lr_phase := ''releasing''\<rparr>) active)) (\<lambda>v.
        case v of Inl e \<Rightarrow> fail active e
        | Inr active \<Rightarrow> andThen (attempt (andThen (require_clean_gpu w cfg) (\<lambda>release_times.
            replace_record w cfg (\<lambda>r. r\<lparr>lr_phase := ''release_gpu_verified'',
              lr_release_clean_observation_times := release_times\<rparr>) active))) (\<lambda>v.
          case v of Inl e \<Rightarrow> fail active e
          | Inr active \<Rightarrow> andThen (attempt (andThen (require_recorded_handoff_checkpoint w active) (\<lambda>_. restore_trainer w cfg active))) (\<lambda>v.
            case v of Inl e \<Rightarrow> fail active e
            | Inr active \<Rightarrow> give (active, cleanup_error)))))"

definition handoff_cleanup :: "lease_world \<Rightarrow> runtime_config \<Rightarrow> process_identity \<Rightarrow> lease_record \<Rightarrow> lease_exn option action" where
  "handoff_cleanup w cfg trainer record =
     andThen get_active (\<lambda>a. let active = (case a of None \<Rightarrow> record | Some r \<Rightarrow> r) in
     andThen (is_running w trainer) (\<lambda>original_trainer_alive.
     andThen (if original_trainer_alive \<and> lr_handoff_checkpoint active = None \<and> lr_evaluators active = []
       then andThen (replace_record w cfg (\<lambda>r. r\<lparr>lr_phase := ''trainer_running'', lr_trainer := Some trainer,
           lr_restoration_status := ''not_needed''\<rparr>) active) (\<lambda>active.
         andThen (emit w ''trainer_remained_running'') (\<lambda>_. give (active, None)))
       else
         andThen (if lr_handoff_checkpoint active = None
           then andThen (attempt (complete_trainer_drain w cfg active False)) (\<lambda>v.
             case v of Inr active \<Rightarrow> give (active, None)
             | Inl e \<Rightarrow> andThen (set_lease_halt w cfg active (''checkpoint handoff validation failed: '' @ exn_str e)) (\<lambda>h. give (h, Some e)))
           else give (active, None)) (\<lambda>(active, cleanup_error).
         if lr_safety_halt active then give (active, cleanup_error) else handoff_release w cfg active cleanup_error)) (\<lambda>(active, cleanup_error).
     andThen (set_active active) (\<lambda>_. give cleanup_error))))"

text \<open>The \<open>try\<close> part: drain the trainer, verify the GPU, then the body of the \<open>with\<close> statement.\<close>

definition handoff_body :: "lease_world \<Rightarrow> runtime_config \<Rightarrow> (lease_record \<Rightarrow> unit action) \<Rightarrow> lease_record \<Rightarrow> unit action" where
  "handoff_body w cfg body record =
     andThen (complete_trainer_drain w cfg record True) (\<lambda>record.
     andThen (require_clean_gpu w cfg) (\<lambda>clean_times.
     andThen (replace_record w cfg (\<lambda>r. r\<lparr>lr_phase := ''leased'', lr_lease_clean_observation_times := clean_times\<rparr>) record) (\<lambda>record.
     andThen (emit w ''exclusive_handoff_granted'') (\<lambda>_.
     andThen (ask (\<lambda>_. ()) (\<lambda>_. Granted record)) (\<lambda>_. body record)))))"

definition handoff_record :: "runtime_config \<Rightarrow> string \<Rightarrow> process_identity \<Rightarrow> checkpoint_identity \<Rightarrow> rat \<Rightarrow> lease_record" where
  "handoff_record cfg lease_id trainer pre_drain now = \<lparr>lr_lease_id = lease_id, lr_owner_id = rc_owner_id cfg,
     lr_phase = ''draining_trainer'', lr_expected_gpu_uuid = rc_expected_gpu_uuid cfg, lr_trainer = Some trainer,
     lr_evaluators = [], lr_checkpoint_sha256 = None, lr_checkpoint_size = None, lr_safety_halt = False,
     lr_safety_reason = None, lr_created_at = Fin now, lr_updated_at = Fin now, lr_pre_drain_checkpoint = Some pre_drain,
     lr_handoff_checkpoint = None, lr_lease_clean_observation_times = [], lr_release_clean_observation_times = [],
     lr_restoration_status = ''pending'', lr_restored_trainer = None\<rparr>"

text \<open>From the first record of a handoff to its end.\<close>

definition run_handoff :: "lease_world \<Rightarrow> runtime_config \<Rightarrow> (lease_record \<Rightarrow> unit action) \<Rightarrow> process_identity \<Rightarrow> lease_record \<Rightarrow> unit action" where
  "run_handoff w cfg body trainer record =
     andThen (set_active record) (\<lambda>_.
     andThen (save_record w cfg record) (\<lambda>_.
     andThen (emit w ''trainer_drain_started'') (\<lambda>_.
     andThen (attempt (andThen (attempt (handoff_body w cfg body record)) (\<lambda>v.
       case v of Inr x \<Rightarrow> give x
       | Inl e \<Rightarrow> andThen (emit w ''exclusive_handoff_failed'') (\<lambda>_. throw e)))) (\<lambda>outcome.
     andThen (handoff_cleanup w cfg trainer record) (\<lambda>cleanup_error.
     case outcome of Inl e \<Rightarrow> throw e
     | Inr _ \<Rightarrow> (case cleanup_error of None \<Rightarrow> give ()
         | Some (GpuLeaseError c m) \<Rightarrow> throw (GpuLeaseError c m)
         | Some (OtherError m) \<Rightarrow> throw (GpuLeaseError ''handoff_cleanup_failed'' m)))))))"

definition halt_error :: "string \<Rightarrow> lease_exn" where
  "halt_error message = GpuLeaseError ''safety_halt_active'' message"

definition exclusive_handoff :: "lease_world \<Rightarrow> runtime_config \<Rightarrow> (lease_record \<Rightarrow> unit action) \<Rightarrow> process_identity option \<Rightarrow> unit action" where
  "exclusive_handoff w cfg body trainer =
     andThen (require_mutation cfg) (\<lambda>_.
     with_lock w (
       andThen (load_record w) (\<lambda>existing.
       andThen (case existing of None \<Rightarrow> give None
         | Some r \<Rightarrow> if lr_safety_halt r then throw (halt_error ''Lease state is halted and requires operator reconciliation'')
           else andThen (reconcile_locked w cfg r) (\<lambda>(_, r).
             if lr_safety_halt r then throw (halt_error ''Lease reconciliation entered a safety halt'')
             else give (Some r))) (\<lambda>existing.
       case (if trainer = None then (case existing of None \<Rightarrow> None | Some r \<Rightarrow> lr_trainer r) else trainer) of
         None \<Rightarrow> throw (GpuLeaseError ''trainer_identity_required'' ''A verified trainer identity is required for a new handoff'')
       | Some trainer \<Rightarrow>
         andThen (require_identity_alive w trainer ''trainer'') (\<lambda>_.
         andThen (wait_for_checkpoint_identity w cfg None False) (\<lambda>pre_drain.
         andThen (clock w) (\<lambda>now.
         andThen (ask (w_lease_id w) LeaseId) (\<lambda>lease_id.
         run_handoff w cfg body trainer (handoff_record cfg lease_id trainer pre_drain now))))))))) "

definition py_truthy_strip :: "string \<Rightarrow> bool" where
  "py_truthy_strip s \<longleftrightarrow> py_strip s \<noteq> []"

definition request_safety_halt :: "lease_world \<Rightarrow> runtime_config \<Rightarrow> string \<Rightarrow> unit action" where
  "request_safety_halt w cfg reason =
     andThen (require (py_truthy_strip reason) (GpuLeaseError ''invalid_safety_halt'' ''Safety halt reason must not be empty'')) (\<lambda>_.
     andThen (require_mutation cfg) (\<lambda>_.
     andThen get_active (\<lambda>active.
     case active of None \<Rightarrow> throw (GpuLeaseError ''no_active_lease'' ''No active lease can be halted'')
     | Some r \<Rightarrow> andThen (set_lease_halt w cfg r (py_strip reason)) (\<lambda>h. set_active h))))"

section \<open>Evaluators under a handoff\<close>

text \<open>
  Starting the workers one by one. The result says which exception ended the loop, if any, with
  the identities appended and the record assigned until then.
\<close>

fun start_workers :: "lease_world \<Rightarrow> runtime_config \<Rightarrow> nat \<Rightarrow> nat \<Rightarrow> process_identity list \<Rightarrow> lease_record \<Rightarrow>
    (lease_exn option \<times> process_identity list \<times> lease_record) action" where
  "start_workers w cfg k 0 evaluators record = give (None, evaluators, record)"
| "start_workers w cfg k (Suc n) evaluators record =
     andThen (attempt (
       andThen (expand_command w cfg (rc_evaluator_launch_command cfg) (Some record) None k) (\<lambda>argv.
       andThen (spawn w EvaluatorRole argv) (\<lambda>identity.
       andThen (require (is_verifiable identity) (GpuLeaseError ''unverifiable_evaluator_identity''
         ''Evaluator launch did not return a verifiable identity'')) (\<lambda>_.
       andThen (require_identity_alive w identity ''evaluator'') (\<lambda>_. give identity)))))) (\<lambda>v.
     case v of Inl e \<Rightarrow> give (Some e, evaluators, record)
     | Inr identity \<Rightarrow> let evaluators = evaluators @ [identity] in
         andThen (attempt (replace_record w cfg (\<lambda>r. r\<lparr>lr_evaluators := evaluators\<rparr>) record)) (\<lambda>v.
         case v of Inl e \<Rightarrow> give (Some e, evaluators, record)
         | Inr record \<Rightarrow> andThen (attempt (emit w ''evaluator_started'')) (\<lambda>v.
             case v of Inl e \<Rightarrow> give (Some e, evaluators, record)
             | Inr _ \<Rightarrow> start_workers w cfg (Suc k) n evaluators record)))"

definition evaluator_try :: "lease_world \<Rightarrow> runtime_config \<Rightarrow> (lease_record \<Rightarrow> unit action) \<Rightarrow> lease_record \<Rightarrow>
    (lease_exn option \<times> process_identity list \<times> lease_record) action" where
  "evaluator_try w cfg body record =
     andThen (attempt (replace_record w cfg (\<lambda>r. r\<lparr>lr_phase := ''evaluator_starting''\<rparr>) record)) (\<lambda>v.
     case v of Inl e \<Rightarrow> give (Some e, [], record)
     | Inr record \<Rightarrow> andThen (start_workers w cfg 0 (nat (rc_evaluator_process_count cfg)) [] record) (\<lambda>(err, evaluators, record).
         case err of Some e \<Rightarrow> give (Some e, evaluators, record)
         | None \<Rightarrow> andThen (attempt (replace_record w cfg (\<lambda>r. r\<lparr>lr_phase := ''evaluating''\<rparr>) record)) (\<lambda>v.
             case v of Inl e \<Rightarrow> give (Some e, evaluators, record)
             | Inr record \<Rightarrow> andThen (attempt (andThen (emit w ''evaluation_started'') (\<lambda>_. body record))) (\<lambda>v.
                 give (case v of Inl e \<Rightarrow> Some e | Inr _ \<Rightarrow> None, evaluators, record)))))"

text \<open>The body that \<open>evaluator_lease\<close> runs inside the handoff.\<close>

definition evaluator_body :: "lease_world \<Rightarrow> runtime_config \<Rightarrow> (lease_record \<Rightarrow> unit action) \<Rightarrow> lease_record \<Rightarrow> unit action" where
  "evaluator_body w cfg body handoff =
     andThen (evaluator_try w cfg body handoff) (\<lambda>(err, evaluators, record).
     andThen (attempt (case err of None \<Rightarrow> give () | Some e \<Rightarrow> andThen (emit w ''evaluation_lease_failed'') (\<lambda>_. throw e))) (\<lambda>outcome.
     andThen (if evaluators = [] \<and> lr_evaluators record = [] then give None
       else andThen (attempt (andThen get_active (\<lambda>active.
           andThen (replace_record w cfg (\<lambda>r. r\<lparr>lr_phase := ''draining_evaluators'',
             lr_evaluators := (if evaluators \<noteq> [] then evaluators else lr_evaluators record)\<rparr>)
             (case active of None \<Rightarrow> record | Some r \<Rightarrow> r)) (\<lambda>record.
           drain_evaluators w cfg record)))) (\<lambda>v.
         case v of Inr _ \<Rightarrow> give None
         | Inl e \<Rightarrow> andThen get_active (\<lambda>active.
             andThen (set_lease_halt w cfg (case active of None \<Rightarrow> record | Some r \<Rightarrow> r)
               (''evaluator drain failed: '' @ exn_str e)) (\<lambda>_. give (Some e))))) (\<lambda>drain_error.
     case outcome of Inl e \<Rightarrow> throw e
     | Inr _ \<Rightarrow> (case drain_error of None \<Rightarrow> give () | Some e \<Rightarrow> throw e))))"

definition evaluator_lease :: "lease_world \<Rightarrow> runtime_config \<Rightarrow> (lease_record \<Rightarrow> unit action) \<Rightarrow> process_identity option \<Rightarrow> unit action" where
  "evaluator_lease w cfg body trainer = exclusive_handoff w cfg (evaluator_body w cfg body) trainer"

end
