(* ===== verification/Lease_Logic.thy ===== *)
theory Lease_Logic
  imports Lease
begin

text \<open>
  Reasoning about actions: which events an action may add to the history, weakest preconditions with
  one postcondition for values and one for exceptions, and that actions end.
\<close>

named_theorems adds_rules \<open>events an action may add to the history\<close>
named_theorems wp_simps \<open>weakest preconditions of actions\<close>

section \<open>Events that an action adds\<close>

definition adds :: "(lease_event \<Rightarrow> bool) \<Rightarrow> 'a action \<Rightarrow> bool" where
  "adds P m \<longleftrightarrow> (\<forall>s r t. m s = Some (r, t) \<longrightarrow> (\<exists>new. lm_history t = new @ lm_history s \<and> list_all P new))"

lemma addsD: "adds P m \<Longrightarrow> m s = Some (r, t) \<Longrightarrow> \<exists>new. lm_history t = new @ lm_history s \<and> list_all P new"
  by (simp add: adds_def)

lemma adds_same: "(\<And>s r t. m s = Some (r, t) \<Longrightarrow> lm_history t = lm_history s) \<Longrightarrow> adds P m"
  by (fastforce simp: adds_def)

lemma adds_weaken: "adds P m \<Longrightarrow> (\<And>ev. P ev \<Longrightarrow> Q ev) \<Longrightarrow> adds Q m"
  by (fastforce simp: adds_def list_all_iff)

lemma adds_give [adds_rules]: "adds P (give x)"
  by (rule adds_same) (simp add: give_def)

lemma adds_throw [adds_rules]: "adds P (throw e)"
  by (rule adds_same) (simp add: throw_def)

lemma adds_get_active [adds_rules]: "adds P get_active"
  by (rule adds_same) (simp add: get_active_def)

lemma adds_set_active [adds_rules]: "adds P (set_active r)"
  by (rule adds_same) (auto simp: set_active_def)

lemma adds_set_file [adds_rules]: "adds P (set_file r)"
  by (rule adds_same) (auto simp: set_file_def)

lemma adds_file [adds_rules]: "adds P (\<lambda>s. Some (Inr (lm_file s), s))"
  by (rule adds_same) simp

lemma adds_ask [adds_rules]: "(\<And>x. P (ev x)) \<Longrightarrow> adds P (ask q ev)"
  by (auto simp: adds_def ask_def Let_def)

lemma adds_andThen [adds_rules]:
  assumes "adds P m" "\<And>x. adds P (f x)"
  shows "adds P (andThen m f)"
  unfolding adds_def
proof (intro allI impI)
  fix s r t assume "andThen m f s = Some (r, t)"
  then consider e where "m s = Some (Inl e, t)" | x u where "m s = Some (Inr x, u)" "f x u = Some (r, t)"
    by (auto simp: andThen_def split: option.splits sum.splits)
  then show "\<exists>new. lm_history t = new @ lm_history s \<and> list_all P new"
  proof cases
    case 1
    then show ?thesis using addsD [OF assms(1)] by blast
  next
    case 2
    obtain n1 where n1: "lm_history u = n1 @ lm_history s" "list_all P n1" using addsD [OF assms(1) 2(1)] by blast
    obtain n2 where n2: "lm_history t = n2 @ lm_history u" "list_all P n2" using addsD [OF assms(2) 2(2)] by blast
    have "lm_history t = (n2 @ n1) @ lm_history s" "list_all P (n2 @ n1)" using n1 n2 by simp_all
    then show ?thesis by blast
  qed
qed

lemma adds_attempt [adds_rules]: "adds P m \<Longrightarrow> adds P (attempt m)"
  by (auto simp: adds_def attempt_def split: option.splits)

lemma adds_askE [adds_rules]: "(\<And>x. P (ev x)) \<Longrightarrow> adds P (askE q ev)"
  unfolding askE_def by (intro adds_andThen adds_ask) (auto split: sum.split intro: adds_rules)

lemma adds_require [adds_rules]: "adds P (require b e)"
  by (simp add: require_def adds_rules)

lemma adds_lift [adds_rules]: "adds P (lift_result r)"
  by (simp add: lift_result_def adds_rules split: sum.split)

lemma adds_if [adds_rules]: "(b \<Longrightarrow> adds P m) \<Longrightarrow> (\<not> b \<Longrightarrow> adds P n) \<Longrightarrow> adds P (if b then m else n)"
  by simp

lemma adds_option [adds_rules]:
  "(x = None \<Longrightarrow> adds P m) \<Longrightarrow> (\<And>y. x = Some y \<Longrightarrow> adds P (f y)) \<Longrightarrow> adds P (case x of None \<Rightarrow> m | Some y \<Rightarrow> f y)"
  by (simp split: option.split)

lemma adds_sum [adds_rules]:
  "(\<And>y. x = Inl y \<Longrightarrow> adds P (f y)) \<Longrightarrow> (\<And>y. x = Inr y \<Longrightarrow> adds P (g y)) \<Longrightarrow> adds P (case x of Inl y \<Rightarrow> f y | Inr y \<Rightarrow> g y)"
  by (simp split: sum.split)

lemma adds_prod [adds_rules]: "(\<And>a b. x = (a, b) \<Longrightarrow> adds P (f a b)) \<Longrightarrow> adds P (case x of (a, b) \<Rightarrow> f a b)"
  by (simp split: prod.split)

lemma adds_exn [adds_rules]:
  "(\<And>c m. e = GpuLeaseError c m \<Longrightarrow> adds P (f c m)) \<Longrightarrow> (\<And>m. e = OtherError m \<Longrightarrow> adds P (g m)) \<Longrightarrow>
    adds P (case e of GpuLeaseError c m \<Rightarrow> f c m | OtherError m \<Rightarrow> g m)"
  by (simp split: lease_exn.split)

lemma adds_Let [adds_rules]: "(\<And>x. adds P (f x)) \<Longrightarrow> adds P (let x = t in f x)"
  by simp

lemma adds_loop [adds_rules]:
  assumes "\<And>v. adds P (body v)"
  shows "adds P (loop body v)"
proof -
  have "loop body v s = Some r \<Longrightarrow> (\<And>v. adds P (body v)) \<Longrightarrow>
      (\<exists>new. lm_history (snd r) = new @ lm_history s \<and> list_all P new)" for s r
  proof (induction rule: loop.raw_induct [rotated, consumes 1, case_names step])
    case (step f body v s r)
    from step.hyps consider e t where "body v s = Some (Inl e, t)" "r = (Inl e, t)"
      | x t where "body v s = Some (Inr (Inl x), t)" "r = (Inr x, t)"
      | u t where "body v s = Some (Inr (Inr u), t)" "f body u t = Some r"
      by (auto split: option.splits sum.splits)
    then show ?case
    proof cases
      case 1
      then show ?thesis using addsD [OF step.prems] by auto
    next
      case 2
      then show ?thesis using addsD [OF step.prems] by auto
    next
      case 3
      obtain n1 where n1: "lm_history t = n1 @ lm_history s" "list_all P n1" using addsD [OF step.prems 3(1)] by blast
      obtain n2 where n2: "lm_history (snd r) = n2 @ lm_history t" "list_all P n2" using step.IH [OF 3(2)] step.prems by blast
      have "lm_history (snd r) = (n2 @ n1) @ lm_history s" "list_all P (n2 @ n1)" using n1 n2 by simp_all
      then show ?thesis by blast
    qed
  qed
  then show ?thesis using assms unfolding adds_def by fastforce
qed

section \<open>Weakest preconditions\<close>

definition wp :: "'a action \<Rightarrow> ('a \<Rightarrow> lease_manager \<Rightarrow> bool) \<Rightarrow> (lease_exn \<Rightarrow> lease_manager \<Rightarrow> bool) \<Rightarrow> lease_manager \<Rightarrow> bool" where
  "wp m Q E s = (case m s of None \<Rightarrow> True | Some (Inr x, t) \<Rightarrow> Q x t | Some (Inl e, t) \<Rightarrow> E e t)"

lemma wp_give [wp_simps]: "wp (give x) Q E s = Q x s"
  by (simp add: wp_def give_def)

lemma wp_throw [wp_simps]: "wp (throw e) Q E s = E e s"
  by (simp add: wp_def throw_def)

lemma wp_andThen [wp_simps]: "wp (andThen m f) Q E s = wp m (\<lambda>x. wp (f x) Q E) E s"
  by (auto simp: wp_def andThen_def split: option.splits sum.splits)

lemma wp_attempt [wp_simps]: "wp (attempt m) Q E s = wp m (\<lambda>x. Q (Inr x)) (\<lambda>e. Q (Inl e)) s"
  by (auto simp: wp_def attempt_def split: option.splits sum.splits)

lemma wp_try: "wp (andThen (attempt m) (\<lambda>v. case v of Inl e \<Rightarrow> f e | Inr x \<Rightarrow> g x)) Q E s =
    wp m (\<lambda>x. wp (g x) Q E) (\<lambda>e. wp (f e) Q E) s"
  by (simp add: wp_andThen wp_attempt)

lemma wp_ask [wp_simps]: "wp (ask q ev) Q E s =
    Q (q (lm_history s)) (s\<lparr>lm_history := ev (q (lm_history s)) # lm_history s\<rparr>)"
  by (simp add: wp_def ask_def Let_def)

lemma wp_askE [wp_simps]: "wp (askE q ev) Q E s =
    (case q (lm_history s) of Inl e \<Rightarrow> E e (s\<lparr>lm_history := ev (Inl e) # lm_history s\<rparr>)
     | Inr x \<Rightarrow> Q x (s\<lparr>lm_history := ev (Inr x) # lm_history s\<rparr>))"
  by (simp add: askE_def wp_andThen wp_ask wp_give wp_throw split: sum.split)

lemma wp_require [wp_simps]: "wp (require b e) Q E s = (if b then Q () s else E e s)"
  by (simp add: require_def wp_give wp_throw)

lemma wp_lift [wp_simps]: "wp (lift_result r) Q E s = (case r of Inl e \<Rightarrow> E e s | Inr x \<Rightarrow> Q x s)"
  by (simp add: lift_result_def wp_give wp_throw split: sum.split)

lemma wp_get_active [wp_simps]: "wp get_active Q E s = Q (lm_active s) s"
  by (simp add: wp_def get_active_def)

lemma wp_set_active [wp_simps]: "wp (set_active r) Q E s = Q () (s\<lparr>lm_active := Some r\<rparr>)"
  by (simp add: wp_def set_active_def)

lemma wp_set_file [wp_simps]: "wp (set_file r) Q E s = Q () (s\<lparr>lm_file := Some r\<rparr>)"
  by (simp add: wp_def set_file_def)

lemma wp_file [wp_simps]: "wp (\<lambda>s. Some (Inr (lm_file s), s)) Q E s = Q (lm_file s) s"
  by (simp add: wp_def)

lemma wp_if: "(b \<Longrightarrow> wp m Q E s) \<Longrightarrow> (\<not> b \<Longrightarrow> wp n Q E s) \<Longrightarrow> wp (if b then m else n) Q E s"
  by simp

lemma wp_option: "(x = None \<Longrightarrow> wp m Q E s) \<Longrightarrow> (\<And>y. x = Some y \<Longrightarrow> wp (f y) Q E s) \<Longrightarrow>
    wp (case x of None \<Rightarrow> m | Some y \<Rightarrow> f y) Q E s"
  by (simp split: option.split)

lemma wp_mono:
  assumes "wp m Q E s" "\<And>x t. m s = Some (Inr x, t) \<Longrightarrow> Q x t \<Longrightarrow> Q' x t"
    "\<And>e t. m s = Some (Inl e, t) \<Longrightarrow> E e t \<Longrightarrow> E' e t"
  shows "wp m Q' E' s"
  using assms by (auto simp: wp_def split: option.splits sum.splits)

lemma wp_adds:
  assumes "adds P m" "\<And>new t x. lm_history t = new @ lm_history s \<Longrightarrow> list_all P new \<Longrightarrow> m s = Some (Inr x, t) \<Longrightarrow> Q x t"
    "\<And>new t e. lm_history t = new @ lm_history s \<Longrightarrow> list_all P new \<Longrightarrow> m s = Some (Inl e, t) \<Longrightarrow> E e t"
  shows "wp m Q E s"
proof (cases "m s")
  case (Some p)
  obtain r t where p: "p = (r, t)" by (cases p)
  from addsD [OF assms(1)] Some p obtain new where "lm_history t = new @ lm_history s" "list_all P new" by blast
  then show ?thesis using assms(2,3) Some p by (cases r) (auto simp: wp_def)
qed (simp add: wp_def)

lemma wpD:
  assumes "wp m Q E s" "m s = Some (r, t)"
  shows "case r of Inl e \<Rightarrow> E e t | Inr x \<Rightarrow> Q x t"
  using assms by (auto simp: wp_def split: sum.splits)

lemma wp_both: "wp m Q E s \<Longrightarrow> wp m Q' E' s \<Longrightarrow> wp m (\<lambda>x t. Q x t \<and> Q' x t) (\<lambda>e t. E e t \<and> E' e t) s"
  by (auto simp: wp_def split: option.splits prod.splits sum.splits)

lemma wp_True: "wp m (\<lambda>_ _. True) (\<lambda>_ _. True) s"
  by (simp add: wp_def split: option.split prod.split sum.split)

lemma wp_last: "(\<And>x t. wp (f x) Q (\<lambda>_ _. True) t) \<Longrightarrow> wp (andThen m f) Q (\<lambda>_ _. True) s"
  unfolding wp_andThen by (rule wp_mono [OF wp_True])

lemma wp_loop:
  assumes "\<And>v t. I v t \<Longrightarrow> wp (body v) (\<lambda>r t. case r of Inl x \<Rightarrow> Q x t | Inr u \<Rightarrow> I u t) E t" "I v s"
  shows "wp (loop body v) Q E s"
proof -
  have "loop body v s = Some r \<Longrightarrow> (\<And>v t. I v t \<Longrightarrow> wp (body v) (\<lambda>r t. case r of Inl x \<Rightarrow> Q x t | Inr u \<Rightarrow> I u t) E t) \<Longrightarrow> I v s \<Longrightarrow>
      (case r of (Inl e, t) \<Rightarrow> E e t | (Inr x, t) \<Rightarrow> Q x t)" for r
  proof (induction rule: loop.raw_induct [rotated, consumes 1, case_names step])
    case (step f body v s r)
    have w: "wp (body v) (\<lambda>r t. case r of Inl x \<Rightarrow> Q x t | Inr u \<Rightarrow> I u t) E s" by (rule step.prems)+
    from step.hyps consider e t where "body v s = Some (Inl e, t)" "r = (Inl e, t)"
      | x t where "body v s = Some (Inr (Inl x), t)" "r = (Inr x, t)"
      | u t where "body v s = Some (Inr (Inr u), t)" "f body u t = Some r"
      by (auto split: option.splits sum.splits)
    then show ?case
    proof cases
      case 3
      have "I u t" using wpD [OF w 3(1)] by simp
      then show ?thesis using step.IH [OF 3(2)] step.prems(1) by blast
    qed (use wpD [OF w] in auto)
  qed
  then show ?thesis using assms by (fastforce simp: wp_def split: option.splits sum.splits)
qed

section \<open>Actions that keep an invariant\<close>

definition keeps :: "(lease_manager \<Rightarrow> bool) \<Rightarrow> 'a action \<Rightarrow> bool" where
  "keeps I m \<longleftrightarrow> (\<forall>s. I s \<longrightarrow> wp m (\<lambda>_. I) (\<lambda>_. I) s)"

named_theorems keeps_rules \<open>actions that keep an invariant\<close>

lemma keepsD: "keeps I m \<Longrightarrow> I s \<Longrightarrow> wp m (\<lambda>_. I) (\<lambda>_. I) s"
  by (simp add: keeps_def)

lemma keeps_run: "keeps I m \<Longrightarrow> I s \<Longrightarrow> m s = Some (r, t) \<Longrightarrow> I t"
  using wpD [OF keepsD] by (fastforce split: sum.splits)

lemma keeps_give [keeps_rules]: "keeps I (give x)"
  by (simp add: keeps_def wp_simps)

lemma keeps_throw [keeps_rules]: "keeps I (throw e)"
  by (simp add: keeps_def wp_simps)

lemma keeps_andThen [keeps_rules]: "keeps I m \<Longrightarrow> (\<And>x. keeps I (f x)) \<Longrightarrow> keeps I (andThen m f)"
  unfolding keeps_def wp_simps by (auto elim!: wp_mono)

lemma keeps_attempt [keeps_rules]: "keeps I m \<Longrightarrow> keeps I (attempt m)"
  by (simp add: keeps_def wp_simps)

lemma keeps_lift [keeps_rules]: "keeps I (lift_result r)"
  by (simp add: keeps_def wp_simps split: sum.split)

lemma keeps_require [keeps_rules]: "keeps I (require b e)"
  by (simp add: keeps_def wp_simps)

lemma keeps_get_active [keeps_rules]: "keeps I get_active"
  by (simp add: keeps_def wp_simps)

lemma keeps_if [keeps_rules]: "(b \<Longrightarrow> keeps I m) \<Longrightarrow> (\<not> b \<Longrightarrow> keeps I n) \<Longrightarrow> keeps I (if b then m else n)"
  by simp

lemma keeps_option [keeps_rules]:
  "(x = None \<Longrightarrow> keeps I m) \<Longrightarrow> (\<And>y. x = Some y \<Longrightarrow> keeps I (f y)) \<Longrightarrow> keeps I (case x of None \<Rightarrow> m | Some y \<Rightarrow> f y)"
  by (simp split: option.split)

lemma keeps_sum [keeps_rules]:
  "(\<And>y. x = Inl y \<Longrightarrow> keeps I (f y)) \<Longrightarrow> (\<And>y. x = Inr y \<Longrightarrow> keeps I (g y)) \<Longrightarrow> keeps I (case x of Inl y \<Rightarrow> f y | Inr y \<Rightarrow> g y)"
  by (simp split: sum.split)

lemma keeps_prod [keeps_rules]: "(\<And>a b. x = (a, b) \<Longrightarrow> keeps I (f a b)) \<Longrightarrow> keeps I (case x of (a, b) \<Rightarrow> f a b)"
  by (simp split: prod.split)

lemma keeps_exn [keeps_rules]:
  "(\<And>c m. e = GpuLeaseError c m \<Longrightarrow> keeps I (f c m)) \<Longrightarrow> (\<And>m. e = OtherError m \<Longrightarrow> keeps I (g m)) \<Longrightarrow>
    keeps I (case e of GpuLeaseError c m \<Rightarrow> f c m | OtherError m \<Rightarrow> g m)"
  by (simp split: lease_exn.split)

lemma keeps_Let [keeps_rules]: "(\<And>x. keeps I (f x)) \<Longrightarrow> keeps I (let x = t in f x)"
  by simp

section \<open>What an action returns\<close>

definition returns :: "('a \<Rightarrow> bool) \<Rightarrow> 'a action \<Rightarrow> bool" where
  "returns P m \<longleftrightarrow> (\<forall>s. wp m (\<lambda>x _. P x) (\<lambda>_ _. True) s)"

named_theorems returns_rules \<open>what an action returns\<close>

lemma returnsD: "returns P m \<Longrightarrow> m s = Some (Inr x, t) \<Longrightarrow> P x"
  using wpD unfolding returns_def by fastforce

lemma returns_give [returns_rules]: "P x \<Longrightarrow> returns P (give x)"
  by (simp add: returns_def wp_simps)

lemma returns_throw [returns_rules]: "returns P (throw e)"
  by (simp add: returns_def wp_simps)

lemma returns_andThen [returns_rules]: "(\<And>x. returns P (f x)) \<Longrightarrow> returns P (andThen m f)"
  unfolding returns_def wp_andThen by (blast intro: wp_mono [OF wp_True])

lemma returns_seq: "returns R m \<Longrightarrow> (\<And>x. R x \<Longrightarrow> returns P (f x)) \<Longrightarrow> returns P (andThen m f)"
  unfolding returns_def wp_andThen by (blast intro: wp_mono)

lemma returns_if [returns_rules]: "(b \<Longrightarrow> returns P m) \<Longrightarrow> (\<not> b \<Longrightarrow> returns P n) \<Longrightarrow> returns P (if b then m else n)"
  by simp

lemma returns_option [returns_rules]:
  "(x = None \<Longrightarrow> returns P m) \<Longrightarrow> (\<And>y. x = Some y \<Longrightarrow> returns P (f y)) \<Longrightarrow> returns P (case x of None \<Rightarrow> m | Some y \<Rightarrow> f y)"
  by (simp split: option.split)

lemma returns_prod [returns_rules]: "(\<And>a b. x = (a, b) \<Longrightarrow> returns P (f a b)) \<Longrightarrow> returns P (case x of (a, b) \<Rightarrow> f a b)"
  by (simp split: prod.split)

lemma wp_keeps_then:
  assumes "keeps I m" "returns P m" "I s" "\<And>x t. P x \<Longrightarrow> I t \<Longrightarrow> wp (f x) Q (\<lambda>_. I) t"
  shows "wp (andThen m f) Q (\<lambda>_. I) s"
  unfolding wp_andThen by (rule wp_mono [OF keepsD [OF assms(1,3)]]) (use assms(4) returnsD [OF assms(2)] in blast)+

lemma wp_keeps_next:
  assumes "keeps I m" "I s" "\<And>x t. I t \<Longrightarrow> wp (f x) Q (\<lambda>_. I) t"
  shows "wp (andThen m f) Q (\<lambda>_. I) s"
  unfolding wp_andThen by (rule wp_mono [OF keepsD [OF assms(1,2)]]) (use assms(3) in blast)+

lemma wp_keeps_try:
  assumes "keeps I m" "returns P m" "I s" "\<And>x t. P x \<Longrightarrow> I t \<Longrightarrow> wp (g x) Q E t" "\<And>e t. I t \<Longrightarrow> wp (f e) Q E t"
  shows "wp (andThen (attempt m) (\<lambda>v. case v of Inl e \<Rightarrow> f e | Inr x \<Rightarrow> g x)) Q E s"
  unfolding wp_try by (rule wp_mono [OF keepsD [OF assms(1,3)]]) (use assms(4,5) returnsD [OF assms(2)] in blast)+

end
