(* ===== verification/Lease_Guard.thy ===== *)
theory Lease_Guard
  imports Lease_Logic
begin

text \<open>
  What must have been observed before the trainer is started again and before a lease is granted,
  as an invariant of the history that every public call keeps.
\<close>

section \<open>Evidence in the history\<close>

fun is_key :: "lease_event \<Rightarrow> bool" where
  "is_key (Probed _) = True"
| "is_key (Checkpoint _) = True"
| "is_key (Spawned _ _ _) = True"
| "is_key (Granted _) = True"
| "is_key _ = False"

fun is_saved :: "lease_event \<Rightarrow> bool" where
  "is_saved (Saved _ (Inr _)) = True"
| "is_saved (Saved _ (Inl (replaced, _))) = replaced"
| "is_saved _ = False"

definition last_saved :: "lease_history \<Rightarrow> lease_record option" where
  "last_saved h = (case filter is_saved h of Saved r _ # _ \<Rightarrow> Some r | _ \<Rightarrow> None)"

fun clean_probe :: "runtime_config \<Rightarrow> lease_event \<Rightarrow> bool" where
  "clean_probe cfg (Probed (Inr observation)) \<longleftrightarrow> go_gpu_uuid observation = rc_expected_gpu_uuid cfg \<and> go_processes observation = []"
| "clean_probe cfg _ = False"

text \<open>The latest calls of interest are the required number of clean observations of the GPU.\<close>

definition clean_gpu :: "runtime_config \<Rightarrow> lease_event list \<Rightarrow> lease_event list \<Rightarrow> bool" where
  "clean_gpu cfg keys rest \<longleftrightarrow> (\<exists>probes. keys = probes @ rest \<and> length probes = nat (rc_clean_observations cfg)
     \<and> list_all (clean_probe cfg) probes)"

text \<open>
  Before the trainer is started: the GPU was seen clean, then the checkpoint was twice seen to be the
  one recorded at the handoff, and the last record written announces the start.
\<close>

definition restart_ready :: "runtime_config \<Rightarrow> lease_history \<Rightarrow> bool" where
  "restart_ready cfg h \<longleftrightarrow> (\<exists>r c keys rest. last_saved h = Some r \<and> lr_phase r = ''restoring_trainer''
     \<and> lr_evaluators r = [] \<and> \<not> lr_safety_halt r \<and> lr_handoff_checkpoint r = Some c
     \<and> filter is_key h = Checkpoint (Inr (Some c)) # Checkpoint (Inr (Some c)) # keys \<and> clean_gpu cfg keys rest)"

text \<open>The trainer was seen to be gone after the record of its drain was written.\<close>

fun drain_start :: "lease_event \<Rightarrow> bool" where
  "drain_start (Saved r _) \<longleftrightarrow> lr_phase r = ''draining_trainer''"
| "drain_start _ = False"

definition seen_gone :: "process_identity \<Rightarrow> lease_history \<Rightarrow> bool" where
  "seen_gone i h \<longleftrightarrow> (\<exists>c. Current (pi_pid i) (Some c) \<in> set h \<and> \<not> same_process_as i c)
     \<or> Running i False \<in> set h \<and> GroupAlive i False \<in> set h"

definition grant_ready :: "runtime_config \<Rightarrow> lease_history \<Rightarrow> lease_record \<Rightarrow> bool" where
  "grant_ready cfg h r \<longleftrightarrow> (\<exists>i c rest. last_saved h = Some r \<and> lr_phase r = ''leased'' \<and> lr_trainer r = Some i
     \<and> seen_gone i (takeWhile (Not \<circ> drain_start) h) \<and> lr_handoff_checkpoint r = Some c
     \<and> clean_gpu cfg (filter is_key h) (Checkpoint (Inr (Some c)) # rest))"

fun guarded :: "runtime_config \<Rightarrow> lease_history \<Rightarrow> bool" where
  "guarded cfg [] = True"
| "guarded cfg (ev # h) \<longleftrightarrow> guarded cfg h \<and> (case ev of Spawned TrainerRole _ _ \<Rightarrow> restart_ready cfg h
     | Granted r \<Rightarrow> grant_ready cfg h r | _ \<Rightarrow> True)"

definition guarded_by :: "runtime_config \<Rightarrow> lease_manager \<Rightarrow> bool" where
  "guarded_by cfg s \<longleftrightarrow> guarded cfg (lm_history s)"

fun harmless :: "lease_event \<Rightarrow> bool" where
  "harmless (Spawned TrainerRole _ _) = False"
| "harmless (Granted _) = False"
| "harmless _ = True"

lemma guarded_harmless: "list_all harmless new \<Longrightarrow> guarded cfg (new @ h) = guarded cfg h"
proof (induction new)
  case (Cons ev new)
  then show ?case by (cases ev) (auto split: spawn_role.splits)
qed simp

lemma keeps_harmless: "adds harmless m \<Longrightarrow> keeps (guarded_by cfg) m"
  unfolding keeps_def by (auto intro!: wp_adds simp: guarded_by_def guarded_harmless)

section \<open>The events of the procedures\<close>

lemma adds_call [adds_rules]:
  "(\<And>x. P (Running i x)) \<Longrightarrow> adds P (is_running w i)"
  "(\<And>x. P (Current p x)) \<Longrightarrow> adds P (current_identity w p)"
  "(\<And>x. P (GroupAlive i x)) \<Longrightarrow> adds P (process_group_alive w i)"
  "(\<And>x. P (RunCommand argv x)) \<Longrightarrow> adds P (run_command w argv)"
  "(\<And>x. P (Spawned role argv x)) \<Longrightarrow> adds P (spawn w role argv)"
  "(\<And>x. P (Signalled i x)) \<Longrightarrow> adds P (signal_process_group w i)"
  "(\<And>x. P (Clock x)) \<Longrightarrow> adds P (clock w)"
  "(\<And>x. P (Slept d x)) \<Longrightarrow> adds P (sleep w d)"
  "(\<And>x. P (Stat x)) \<Longrightarrow> adds P (checkpoint_stat w)"
  "(\<And>x. P (Checkpoint x)) \<Longrightarrow> adds P (stable_checkpoint_identity w)"
  "(\<And>x. P (Probed x)) \<Longrightarrow> adds P (gpu_probe w)"
  unfolding is_running_def current_identity_def process_group_alive_def run_command_def spawn_def
    signal_process_group_def clock_def sleep_def checkpoint_stat_def stable_checkpoint_identity_def gpu_probe_def
  by (auto intro: adds_rules)

lemma adds_emit [adds_rules]: "(\<And>x. P (Clock x)) \<Longrightarrow> (\<And>x. P (Emitted name x)) \<Longrightarrow> adds P (emit w name)"
  unfolding emit_def by (intro adds_rules)

lemma adds_poll [adds_rules]: "(\<And>x. P (Clock x)) \<Longrightarrow> (\<And>x. P (Slept (rc_poll_interval_seconds cfg) x)) \<Longrightarrow> adds P (poll_again w cfg d e v)"
  unfolding poll_again_def by (intro adds_rules)

lemma adds_expand [adds_rules]: "adds P (expand_command w cfg tmpl r i k)"
  unfolding expand_command_def by (rule adds_lift)

lemma adds_require_mutation [adds_rules]: "adds P (require_mutation cfg)"
  unfolding require_mutation_def by (rule adds_require)

lemma adds_save [adds_rules]: "(\<And>x. P (Saved r x)) \<Longrightarrow> adds P (save_record w cfg r)"
  unfolding save_record_def by (intro adds_rules)

lemma adds_replace [adds_rules]: "(\<And>x. P (Clock x)) \<Longrightarrow> (\<And>u x. P (Saved u x)) \<Longrightarrow> adds P (replace_record w cfg f r)"
  unfolding replace_record_def by (intro adds_rules)

lemma adds_halt [adds_rules]:
  "(\<And>x. P (Clock x)) \<Longrightarrow> (\<And>u x. P (Saved u x)) \<Longrightarrow> (\<And>x. P (Emitted ''safety_halt'' x)) \<Longrightarrow> adds P (set_lease_halt w cfg r reason)"
  unfolding set_lease_halt_def by (intro adds_rules)

text \<open>The procedures that neither start the trainer nor grant a lease.\<close>

lemma harmless_waits [adds_rules]:
  "adds harmless (require_identity_alive w i role)" "adds harmless (identity_reused w i)" "adds harmless (group_gone w i)"
  unfolding require_identity_alive_def identity_reused_def group_gone_def by (intro adds_rules; simp)+

lemma harmless_wait_for_exit [adds_rules]: "adds harmless (wait_for_exit w cfg i timeout code)"
  unfolding wait_for_exit_def by (intro adds_rules; simp)

lemma harmless_wait_for_checkpoint [adds_rules]: "adds harmless (wait_for_checkpoint_identity w cfg before change)"
  unfolding wait_for_checkpoint_identity_def Let_def by (intro adds_rules; simp)

lemma harmless_request [adds_rules]: "adds harmless (request_trainer_drain w cfg i)"
  unfolding request_trainer_drain_def by (intro adds_rules; simp)

lemma harmless_drain [adds_rules]: "adds harmless (complete_trainer_drain w cfg r issue)"
  unfolding complete_trainer_drain_def issue_trainer_drain_def await_trainer_exit_def record_handoff_def
  by (intro adds_rules; simp)

lemma harmless_recorded [adds_rules]: "adds harmless (require_recorded_handoff_checkpoint w r)"
  unfolding require_recorded_handoff_checkpoint_def by (intro adds_rules; simp)

lemma harmless_clean [adds_rules]: "adds harmless (clean_observations w cfg n seen)"
proof (induction n arbitrary: seen)
  case 0
  show ?case by (simp add: adds_rules)
next
  case (Suc n)
  show ?case unfolding clean_observations.simps by (intro adds_rules Suc; simp)
qed

lemma harmless_clean_gpu [adds_rules]: "adds harmless (require_clean_gpu w cfg)"
  unfolding require_clean_gpu_def by (rule harmless_clean)

lemma harmless_lists [adds_rules]:
  "adds harmless (live_of w k is)" "adds harmless (any_running w is)"
  by (induction "is" arbitrary: k) (auto intro!: adds_rules)

lemma harmless_stop [adds_rules]: "adds harmless (stop_evaluators w cfg r ls)" "adds harmless (await_evaluators w cfg ls)"
  by (induction ls) (auto intro!: adds_rules)

lemma harmless_drain_evaluators [adds_rules]: "adds harmless (drain_evaluators w cfg r)"
  unfolding drain_evaluators_def by (intro adds_rules; simp)

lemma harmless_await_restored [adds_rules]: "adds harmless (await_restored w cfg i r)"
  unfolding await_restored_def by (intro adds_rules; simp)

lemma harmless_alive [adds_rules]: "adds harmless (alive_opt w i)"
  unfolding alive_opt_def by (intro adds_rules; simp)

lemma harmless_halted [adds_rules]: "adds harmless (halted w cfg r reason acts)"
  unfolding halted_def by (intro adds_rules; simp)

lemma harmless_load [adds_rules]: "adds harmless (load_record w)"
  unfolding load_record_def by (intro adds_rules; simp)

lemma harmless_planned [adds_rules]: "adds harmless (planned_reconcile_actions w r)"
  unfolding planned_reconcile_actions_def by (intro adds_rules; simp)

lemma harmless_workers [adds_rules]: "adds harmless (start_workers w cfg k n evs r)"
proof (induction n arbitrary: k evs r)
  case 0
  show ?case by (simp add: adds_rules)
next
  case (Suc n)
  show ?case unfolding start_workers.simps by (intro adds_rules Suc; simp)
qed

lemma harmless_halt_request [adds_rules]: "adds harmless (request_safety_halt w cfg reason)"
  unfolding request_safety_halt_def by (intro adds_rules; simp)

lemma harmless_evaluator_body:
  assumes "\<And>r. adds harmless (body r)"
  shows "adds harmless (evaluator_body w cfg body r)"
  unfolding evaluator_body_def evaluator_try_def by (intro adds_rules assms; simp)

section \<open>What the checks establish\<close>

fun not_save :: "lease_event \<Rightarrow> bool" where
  "not_save (Saved _ _) = False"
| "not_save _ = True"

lemma wp_calls [wp_simps]:
  "wp (is_running w i) Q1 E s = Q1 (w_is_running w (lm_history s) i) (s\<lparr>lm_history := Running i (w_is_running w (lm_history s) i) # lm_history s\<rparr>)"
  "wp (current_identity w p) Q2 E s = Q2 (w_current_identity w (lm_history s) p) (s\<lparr>lm_history := Current p (w_current_identity w (lm_history s) p) # lm_history s\<rparr>)"
  "wp (process_group_alive w i) Q3 E s = Q3 (w_process_group_alive w (lm_history s) i) (s\<lparr>lm_history := GroupAlive i (w_process_group_alive w (lm_history s) i) # lm_history s\<rparr>)"
  "wp (clock w) Q4 E s = Q4 (w_clock w (lm_history s)) (s\<lparr>lm_history := Clock (w_clock w (lm_history s)) # lm_history s\<rparr>)"
  "wp (sleep w d) Q5 E s = (case w_sleep w (lm_history s) d of
     Inl e \<Rightarrow> E e (s\<lparr>lm_history := Slept d (Inl e) # lm_history s\<rparr>)
   | Inr x \<Rightarrow> Q5 x (s\<lparr>lm_history := Slept d (Inr x) # lm_history s\<rparr>))"
  "wp (checkpoint_stat w) Q6 E s = (case w_checkpoint_stat w (lm_history s) of
     Inl e \<Rightarrow> E e (s\<lparr>lm_history := Stat (Inl e) # lm_history s\<rparr>)
   | Inr x \<Rightarrow> Q6 x (s\<lparr>lm_history := Stat (Inr x) # lm_history s\<rparr>))"
  "wp (stable_checkpoint_identity w) Q7 E s = (case w_checkpoint_identity w (lm_history s) of
     Inl e \<Rightarrow> E e (s\<lparr>lm_history := Checkpoint (Inl e) # lm_history s\<rparr>)
   | Inr x \<Rightarrow> Q7 x (s\<lparr>lm_history := Checkpoint (Inr x) # lm_history s\<rparr>))"
  by (simp_all add: is_running_def current_identity_def process_group_alive_def clock_def sleep_def checkpoint_stat_def
      stable_checkpoint_identity_def wp_simps)

lemma wp_poll: "wp (poll_again w cfg deadline e v) Q E s =
    (let t = w_clock w (lm_history s); h = Clock t # lm_history s
     in if float_le deadline (Fin t) then E e (s\<lparr>lm_history := h\<rparr>)
        else case w_sleep w h (rc_poll_interval_seconds cfg) of
          Inl x \<Rightarrow> E x (s\<lparr>lm_history := Slept (rc_poll_interval_seconds cfg) (Inl x) # h\<rparr>)
        | Inr x \<Rightarrow> Q (Inr v) (s\<lparr>lm_history := Slept (rc_poll_interval_seconds cfg) (Inr x) # h\<rparr>))"
  by (simp add: poll_again_def wp_simps Let_def split: sum.split)

lemma wp_goes_on [wp_simps]: "(\<And>t. Q (Inr v) t) \<Longrightarrow> wp (poll_again w cfg deadline e v) Q (\<lambda>_ _. True) s"
  by (simp add: wp_poll Let_def split: sum.split)

lemma wp_emit [wp_simps]: "wp (emit w name) Q E s =
    (let h = Clock (w_clock w (lm_history s)) # lm_history s in
     case w_emit w h name of Inl e \<Rightarrow> E e (s\<lparr>lm_history := Emitted name (Inl e) # h\<rparr>)
     | Inr x \<Rightarrow> Q () (s\<lparr>lm_history := Emitted name (Inr ()) # h\<rparr>))"
  by (simp add: emit_def wp_simps Let_def split: sum.split)

definition mutation_error :: lease_exn where
  "mutation_error = GpuLeaseError ''mutation_disabled'' ''External process and filesystem mutation is disabled by runtime config''"

lemma wp_replace [wp_simps]: "wp (replace_record w cfg f r) Q E s =
    (let t = w_clock w (lm_history s); u = (f r)\<lparr>lr_updated_at := Fin t\<rparr>; h = Clock t # lm_history s;
         s1 = s\<lparr>lm_history := h, lm_active := Some u\<rparr>
     in if \<not> rc_mutation_enabled cfg then E mutation_error s1
        else case w_write w h u of
            Inl (replaced, e) \<Rightarrow> E e (s1\<lparr>lm_history := Saved u (Inl (replaced, e)) # h, lm_file := if replaced then Some u else lm_file s\<rparr>)
          | Inr x \<Rightarrow> Q u (s1\<lparr>lm_history := Saved u (Inr ()) # h, lm_file := Some u\<rparr>))"
  by (simp add: replace_record_def save_record_def require_mutation_def mutation_error_def wp_simps Let_def split: sum.split prod.split)

text \<open>The history \<open>h'\<close> goes on from \<open>h\<close> with \<open>k\<close> clean observations and nothing written.\<close>

definition observed :: "runtime_config \<Rightarrow> nat \<Rightarrow> lease_history \<Rightarrow> lease_history \<Rightarrow> bool" where
  "observed cfg k h h' \<longleftrightarrow> (\<exists>new. h' = new @ h \<and> list_all not_save new
     \<and> length (filter is_key new) = k \<and> list_all (clean_probe cfg) (filter is_key new))"

lemma observed_refl: "observed cfg 0 h h"
  by (simp add: observed_def)

lemma observed_quiet: "observed cfg k h h' \<Longrightarrow> not_save ev \<Longrightarrow> \<not> is_key ev \<Longrightarrow> observed cfg k h (ev # h')"
  unfolding observed_def by (metis append_Cons filter.simps(2) list.pred_inject(2))

lemma observed_probe: "observed cfg k h h' \<Longrightarrow> clean_probe cfg (Probed x) \<Longrightarrow> observed cfg (Suc k) h (Probed x # h')"
  unfolding observed_def by (elim exE conjE, rule_tac x = "Probed x # new" in exI) simp

lemma clean_observations_seen:
  "observed cfg k h (lm_history s) \<Longrightarrow>
    wp (clean_observations w cfg n seen) (\<lambda>_ t. observed cfg (n + k) h (lm_history t)) (\<lambda>_ _. True) s"
proof (induction n arbitrary: seen s k)
  case 0
  then show ?case by (simp add: wp_simps)
next
  case (Suc n)
  have IH: "observed cfg (Suc k) h (lm_history u) \<Longrightarrow>
      wp (clean_observations w cfg n seen) (\<lambda>_ t. observed cfg (Suc (n + k)) h (lm_history t)) (\<lambda>_ _. True) u" for seen u
    using Suc.IH [of "Suc k" u seen] by simp
  show ?case using Suc.prems
    by (auto simp: gpu_probe_def wp_simps Let_def split: sum.split lease_exn.split intro!: IH observed_quiet observed_probe)
qed

lemma clean_gpu_seen:
  "wp (require_clean_gpu w cfg) (\<lambda>_ t. observed cfg (nat (rc_clean_observations cfg)) (lm_history s) (lm_history t)) (\<lambda>_ _. True) s"
  unfolding require_clean_gpu_def using clean_observations_seen [OF observed_refl, of w cfg "nat (rc_clean_observations cfg)" "[]"] by simp

lemma observed_clean:
  assumes "observed cfg (nat (rc_clean_observations cfg)) h h'"
  shows "clean_gpu cfg (filter is_key h') (filter is_key h)" "filter is_saved h' = filter is_saved h"
    "\<exists>new. h' = new @ h \<and> list_all not_save new"
proof -
  from assms obtain new where n: "h' = new @ h" "list_all not_save new"
    "length (filter is_key new) = nat (rc_clean_observations cfg)" "list_all (clean_probe cfg) (filter is_key new)"
    by (auto simp: observed_def)
  have "filter is_saved new = []" using n(2) by (induction new) (auto elim: not_save.elims)
  then show "filter is_saved h' = filter is_saved h" using n(1) by simp
  show "clean_gpu cfg (filter is_key h') (filter is_key h)"
    unfolding clean_gpu_def n(1) by (rule exI [of _ "filter is_key new"]) (use n in simp)
  show "\<exists>new. h' = new @ h \<and> list_all not_save new" using n by blast
qed

text \<open>Starting the trainer after both checks.\<close>

lemma restore_guarded:
  assumes "guarded_by cfg s" "filter is_key (lm_history s) = Checkpoint (Inr (Some c)) # keys" "clean_gpu cfg keys rest"
    "lr_handoff_checkpoint r = Some c" "\<not> lr_safety_halt r"
  shows "wp (restore_trainer w cfg r) (\<lambda>_. guarded_by cfg) (\<lambda>_. guarded_by cfg) s"
proof -
  have ready: "restart_ready cfg (Saved u (Inr ()) # Clock t # Checkpoint (Inr (Some c)) # lm_history s)"
    if "lr_phase u = ''restoring_trainer''" "lr_evaluators u = []" "\<not> lr_safety_halt u" "lr_handoff_checkpoint u = Some c" for u t
    using that assms(2,3) unfolding restart_ready_def
    by (intro exI [of _ u] exI [of _ c] exI [of _ keys] exI [of _ rest]) (simp add: last_saved_def)
  have tail: "wp (await_restored w cfg identity u) (\<lambda>_. guarded_by cfg) (\<lambda>_. guarded_by cfg) t" if "guarded cfg (lm_history t)" for identity u t
    using keepsD [OF keeps_harmless [OF harmless_await_restored]] that unfolding guarded_by_def by blast
  show ?thesis unfolding restore_trainer_def require_recorded_handoff_checkpoint_def
    using assms(1,4,5)
    by (auto simp: wp_simps Let_def spawn_def expand_command_def guarded_by_def split: sum.split
        intro!: tail ready)
qed

text \<open>The three steps of a restart: the GPU is seen clean, the checkpoint is the recorded one, the trainer is started.\<close>

lemma gpu_verified:
  assumes "guarded_by cfg s"
  shows "wp (andThen (require_clean_gpu w cfg) (\<lambda>ts. replace_record w cfg (f ts) r))
    (\<lambda>u t. guarded_by cfg t \<and> clean_gpu cfg (filter is_key (lm_history t)) (filter is_key (lm_history s))
      \<and> (\<exists>ts x. u = (f ts r)\<lparr>lr_updated_at := x\<rparr>)) (\<lambda>_. guarded_by cfg) s"
proof -
  have step: "wp (replace_record w cfg (f ts) r)
      (\<lambda>u t. guarded_by cfg t \<and> clean_gpu cfg (filter is_key (lm_history t)) (filter is_key (lm_history s))
        \<and> (\<exists>ts x. u = (f ts r)\<lparr>lr_updated_at := x\<rparr>)) (\<lambda>_. guarded_by cfg) t"
    if "observed cfg (nat (rc_clean_observations cfg)) (lm_history s) (lm_history t)" "guarded_by cfg t" for ts t
    using observed_clean [OF that(1)] that(2) by (auto simp: wp_simps Let_def guarded_by_def split: sum.split)
  have seen: "wp (require_clean_gpu w cfg) (\<lambda>_ t. observed cfg (nat (rc_clean_observations cfg)) (lm_history s) (lm_history t)) (\<lambda>_ _. True) s"
    by (rule clean_gpu_seen)
  have calm: "guarded_by cfg t" if "require_clean_gpu w cfg s = Some (v, t)" for v t
    using keeps_run [OF keeps_harmless [OF harmless_clean_gpu] assms that] .
  show ?thesis unfolding wp_andThen using calm by (auto intro!: wp_mono [OF seen] step)
qed

lemma restart_guarded:
  assumes "guarded_by cfg s" "clean_gpu cfg (filter is_key (lm_history s)) rest" "\<not> lr_safety_halt r"
  shows "wp (andThen (require_recorded_handoff_checkpoint w r) (\<lambda>_. restore_trainer w cfg r))
    (\<lambda>_. guarded_by cfg) (\<lambda>_. guarded_by cfg) s"
proof (cases "lr_handoff_checkpoint r")
  case None
  then show ?thesis using assms(1) by (simp add: require_recorded_handoff_checkpoint_def wp_simps)
next
  case (Some c)
  have "wp (restore_trainer w cfg r) (\<lambda>_. guarded_by cfg) (\<lambda>_. guarded_by cfg) (s\<lparr>lm_history := Checkpoint (Inr (Some c)) # lm_history s\<rparr>)"
    by (rule restore_guarded [OF _ _ assms(2)]) (use assms Some in \<open>simp_all add: guarded_by_def\<close>)
  then show ?thesis using Some assms(1)
    by (auto simp: require_recorded_handoff_checkpoint_def wp_simps guarded_by_def split: sum.split)
qed

lemma reconcile_restore_guarded:
  assumes "guarded_by cfg s" "\<not> lr_safety_halt r"
  shows "wp (reconcile_restore w cfg r acts) (\<lambda>_. guarded_by cfg) (\<lambda>_. guarded_by cfg) s"
proof -
  have halt: "wp (halted w cfg u reason as) (\<lambda>_. guarded_by cfg) (\<lambda>_. guarded_by cfg) t" if "guarded_by cfg t" for u reason as t
    by (rule keepsD [OF keeps_harmless [OF harmless_halted] that])
  have restart: "wp (andThen (attempt (andThen (require_recorded_handoff_checkpoint w u) (\<lambda>_. restore_trainer w cfg u)))
      (\<lambda>v. case v of Inl e \<Rightarrow> halted w cfg u (reason e) as | Inr r \<Rightarrow> give (bs, r))) (\<lambda>_. guarded_by cfg) (\<lambda>_. guarded_by cfg) t"
    if "guarded_by cfg t" "clean_gpu cfg (filter is_key (lm_history t)) rest" "\<not> lr_safety_halt u" for u reason as bs rest t
    unfolding wp_try by (rule wp_mono [OF restart_guarded [OF that]]) (auto simp: wp_give intro: halt)
  show ?thesis unfolding reconcile_restore_def Let_def wp_try [where m = "andThen (require_clean_gpu w cfg) f" for f]
  proof (rule wp_mono [OF gpu_verified [OF assms(1)]], goal_cases)
    case (1 u t)
    then have "guarded_by cfg t" "clean_gpu cfg (filter is_key (lm_history t)) (filter is_key (lm_history s))" "\<not> lr_safety_halt u"
      using assms(2) by auto
    then show ?case by (rule restart)
  qed (rule halt)
qed

section \<open>Reconciliation keeps the invariant\<close>

text \<open>Replacing a record keeps its halt flag unless the change touches it.\<close>

lemma replace_unhalted: "lr_safety_halt (f r) = lr_safety_halt r \<Longrightarrow> returns (\<lambda>u. lr_safety_halt u = lr_safety_halt r) (replace_record w cfg f r)"
  by (simp add: returns_def wp_simps Let_def split: sum.split)

lemma replace_announced: "lr_safety_halt (f r) = lr_safety_halt r \<Longrightarrow>
    returns (\<lambda>u. lr_safety_halt u = lr_safety_halt r) (andThen (replace_record w cfg f r) (\<lambda>u. andThen (emit w name) (\<lambda>_. give u)))"
  by (rule returns_seq [OF replace_unhalted]) (auto intro!: returns_rules)

lemma drain_unhalted: "returns (\<lambda>u. lr_safety_halt u = lr_safety_halt r) (complete_trainer_drain w cfg r issue)"
  unfolding complete_trainer_drain_def record_handoff_def
  by (cases "lr_trainer r"; cases "lr_pre_drain_checkpoint r") (simp_all add: replace_announced returns_throw returns_andThen)

lemma drain_evaluators_unhalted: "returns (\<lambda>u. lr_safety_halt u = lr_safety_halt r) (drain_evaluators w cfg r)"
  unfolding drain_evaluators_def by (intro returns_andThen [of _ _ "live_of w 0 (lr_evaluators r)"] returns_andThen [of _ _ "stop_evaluators w cfg r ls" for ls]
    returns_andThen [of _ _ "await_evaluators w cfg ls" for ls] replace_announced) simp

text \<open>An unhalted record is reconciled under the invariant.\<close>

lemma halted_guarded: "guarded_by cfg s \<Longrightarrow> wp (halted w cfg r reason acts) (\<lambda>_. guarded_by cfg) (\<lambda>_. guarded_by cfg) s"
  by (rule keepsD [OF keeps_harmless [OF harmless_halted]])

lemma reconcile_evaluators_guarded:
  assumes "guarded_by cfg s" "\<not> lr_safety_halt r"
  shows "wp (reconcile_evaluators w cfg alive r acts) (\<lambda>_. guarded_by cfg) (\<lambda>_. guarded_by cfg) s"
proof -
  have finish: "wp (if alive then halted w cfg u reason bs else reconcile_restore w cfg u cs) (\<lambda>_. guarded_by cfg) (\<lambda>_. guarded_by cfg) t"
    if "guarded_by cfg t" "\<not> lr_safety_halt u" for u reason bs cs t
    using halted_guarded [OF that(1)] reconcile_restore_guarded [OF that] by simp
  have keep: "keeps (guarded_by cfg) (replace_record w cfg f r)" "keeps (guarded_by cfg) (drain_evaluators w cfg u)" for f u
    by (rule keeps_harmless, intro adds_rules; simp)+
  show ?thesis
  proof (cases "lr_evaluators r = []")
    case True
    then show ?thesis unfolding reconcile_evaluators_def Let_def using finish [OF assms] by simp
  next
    case False
    have "wp (andThen (attempt (drain_evaluators w cfg u)) (\<lambda>v. case v of Inl e \<Rightarrow> halted w cfg u (reason e) bs
          | Inr r \<Rightarrow> if alive then halted w cfg r reason' cs else reconcile_restore w cfg r ds)) (\<lambda>_. guarded_by cfg) (\<lambda>_. guarded_by cfg) t"
      if "guarded_by cfg t" "lr_safety_halt u = lr_safety_halt r" for u reason reason' bs cs ds t
      by (rule wp_keeps_try [OF keep(2) drain_evaluators_unhalted that(1)]) (use that(2) assms(2) finish halted_guarded in auto)
    then show ?thesis unfolding reconcile_evaluators_def Let_def if_not_P [OF False]
      by (intro wp_keeps_then [OF keep(1) replace_unhalted assms(1)]) simp_all
  qed
qed

lemma reconcile_locked_guarded: "keeps (guarded_by cfg) (reconcile_locked w cfg r)"
  unfolding keeps_def
proof (intro allI impI)
  fix s assume g: "guarded_by cfg s"
  have drain: "wp (andThen (attempt (complete_trainer_drain w cfg r b)) (\<lambda>v. case v of Inl e \<Rightarrow> halted w cfg r (reason e) bs
        | Inr r \<Rightarrow> reconcile_evaluators w cfg c r cs)) (\<lambda>_. guarded_by cfg) (\<lambda>_. guarded_by cfg) t"
    if "guarded_by cfg t" "\<not> lr_safety_halt r" for b c reason bs cs t
    by (rule wp_keeps_try [OF keeps_harmless [OF harmless_drain] drain_unhalted that(1)])
      (use that(2) reconcile_evaluators_guarded halted_guarded in auto)
  have keep: "keeps (guarded_by cfg) (alive_opt w i)" "keeps (guarded_by cfg) (live_of w k is)"
    "keeps (guarded_by cfg) (replace_record w cfg f r)" for i k "is" f
    by (rule keeps_harmless, intro adds_rules; simp)+
  have replaced: "wp (andThen (replace_record w cfg f r) (\<lambda>r. give (as, r))) (\<lambda>_. guarded_by cfg) (\<lambda>_. guarded_by cfg) t"
    if "guarded_by cfg t" for f as t
    by (rule keepsD [OF keeps_andThen [OF keep(3) keeps_give] that])
  have step: "guarded_by cfg (s\<lparr>lm_active := Some r\<rparr>)" using g by (simp add: guarded_by_def)
  show "wp (reconcile_locked w cfg r) (\<lambda>_. guarded_by cfg) (\<lambda>_. guarded_by cfg) s"
    unfolding reconcile_locked_def wp_andThen [of "set_active r"] wp_set_active
    using step
    by (intro wp_if wp_keeps_next [OF keep(1)] wp_keeps_next [OF keep(2)] halted_guarded replaced drain reconcile_evaluators_guarded)
      (simp_all add: wp_give)
qed

section \<open>What the drain of the trainer establishes\<close>

definition gone_recently :: "process_identity \<Rightarrow> lease_manager \<Rightarrow> bool" where
  "gone_recently i s \<longleftrightarrow> seen_gone i (takeWhile (Not \<circ> drain_start) (lm_history s))"

lemma gone_recently_mono:
  assumes "lm_history t = new @ lm_history s" "list_all (Not \<circ> drain_start) new" "gone_recently i s"
  shows "gone_recently i t"
proof -
  have "takeWhile (Not \<circ> drain_start) (lm_history t) = new @ takeWhile (Not \<circ> drain_start) (lm_history s)"
    using assms(1,2) by (simp add: takeWhile_append2 list_all_iff)
  then show ?thesis using assms(3) unfolding gone_recently_def seen_gone_def by auto
qed

lemma keeps_gone: "adds (Not \<circ> drain_start) m \<Longrightarrow> keeps (gone_recently i) m"
  unfolding keeps_def by (auto intro!: wp_adds elim: gone_recently_mono)

lemma exit_seen: "wp (wait_for_exit w cfg i timeout code) (\<lambda>_. gone_recently i) (\<lambda>_ _. True) s"
  unfolding wait_for_exit_def identity_reused_def group_gone_def
  by (auto simp: wp_simps Let_def gone_recently_def seen_gone_def split: option.split intro!: wp_loop [where I = "\<lambda>_ _. True"])

lemma checkpoint_seen:
  "wp (wait_for_checkpoint_identity w cfg before change)
    (\<lambda>c t. \<exists>keys. filter is_key (lm_history t) = Checkpoint (Inr (Some c)) # keys) (\<lambda>_ _. True) s"
  unfolding wait_for_checkpoint_identity_def
  by (auto simp: wp_simps Let_def split: sum.split option.split prod.split intro!: wp_loop [where I = "\<lambda>_ _. True"])

lemma seen_gone_Cons: "seen_gone i h \<Longrightarrow> seen_gone i (ev # h)"
  unfolding seen_gone_def by auto

definition drained_with :: "lease_record \<Rightarrow> lease_manager \<Rightarrow> bool" where
  "drained_with u t \<longleftrightarrow> (\<exists>i c keys. lr_trainer u = Some i \<and> gone_recently i t \<and> lr_handoff_checkpoint u = Some c
     \<and> filter is_key (lm_history t) = Checkpoint (Inr (Some c)) # keys)"

lemma trainer_exit_seen: "wp (await_trainer_exit w cfg i) (\<lambda>_. gone_recently i) (\<lambda>_ _. True) s"
  unfolding await_trainer_exit_def identity_reused_def
  by (auto simp: wp_simps Let_def gone_recently_def seen_gone_def split: option.split
      intro!: wp_mono [OF exit_seen, unfolded gone_recently_def seen_gone_def])

lemma record_handoff_evidence:
  assumes "gone_recently i s" "lr_trainer r = Some i"
  shows "wp (record_handoff w cfg before r) drained_with (\<lambda>_ _. True) s"
proof -
  have quiet: "adds (Not \<circ> drain_start) (wait_for_checkpoint_identity w cfg (Some before) change)" for change
    unfolding wait_for_checkpoint_identity_def Let_def by (intro adds_rules; simp)
  show ?thesis
    unfolding record_handoff_def wp_andThen [of "wait_for_checkpoint_identity w cfg b change" for b change]
  proof (rule wp_mono [OF wp_both [OF checkpoint_seen keepsD [OF keeps_gone [OF quiet] assms(1)]]], goal_cases)
    case (1 c u)
    then show ?case using assms(2)
      by (auto simp: wp_simps Let_def drained_with_def gone_recently_def split: sum.split intro!: seen_gone_Cons)
  qed simp
qed

lemma drain_evidence: "wp (complete_trainer_drain w cfg r issue) drained_with (\<lambda>_ _. True) s"
proof -
  have "wp (andThen (await_trainer_exit w cfg i) (\<lambda>_. record_handoff w cfg before r)) drained_with (\<lambda>_ _. True) t"
    if "lr_trainer r = Some i" for i before t
    unfolding wp_andThen using that by (auto intro!: wp_mono [OF trainer_exit_seen] record_handoff_evidence)
  then show ?thesis unfolding complete_trainer_drain_def
    by (auto simp: wp_throw split: option.split intro!: wp_last [of _ _ "issue_trainer_drain w cfg i b" for i b])
qed

section \<open>The handoff keeps the invariant\<close>

text \<open>The lease is granted after the evidence of the drain and the clean observations.\<close>

lemma observed_drained:
  assumes "observed cfg (nat (rc_clean_observations cfg)) (lm_history s) (lm_history t)" "drained_with u s"
  shows "\<exists>i c rest. lr_trainer u = Some i \<and> gone_recently i t \<and> lr_handoff_checkpoint u = Some c
    \<and> clean_gpu cfg (filter is_key (lm_history t)) (Checkpoint (Inr (Some c)) # rest)"
proof -
  obtain i c keys where d: "lr_trainer u = Some i" "gone_recently i s" "lr_handoff_checkpoint u = Some c"
    "filter is_key (lm_history s) = Checkpoint (Inr (Some c)) # keys" using assms(2) by (auto simp: drained_with_def)
  obtain new where new: "lm_history t = new @ lm_history s" "list_all not_save new" using observed_clean(3) [OF assms(1)] by blast
  have "list_all (Not \<circ> drain_start) new" using new(2) by (auto simp: list_all_iff elim!: drain_start.elims)
  then have "gone_recently i t" using gone_recently_mono [OF new(1)] d(2) by blast
  then show ?thesis using observed_clean(1) [OF assms(1)] d by auto
qed

lemma handoff_body_guarded:
  assumes "guarded_by cfg s" "\<And>r. keeps (guarded_by cfg) (body r)"
  shows "wp (handoff_body w cfg body r) (\<lambda>_. guarded_by cfg) (\<lambda>_. guarded_by cfg) s"
proof -
  have body: "wp (body u) (\<lambda>_. guarded_by cfg) (\<lambda>_. guarded_by cfg) t" if "guarded cfg (lm_history t)" for u t
    using keepsD [OF assms(2)] that by (simp add: guarded_by_def)
  have grant: "wp (andThen (replace_record w cfg (\<lambda>r. r\<lparr>lr_phase := ''leased'', lr_lease_clean_observation_times := ts\<rparr>) u) (\<lambda>record.
     andThen (emit w ''exclusive_handoff_granted'') (\<lambda>_.
     andThen (ask (\<lambda>_. ()) (\<lambda>_. Granted record)) (\<lambda>_. body record)))) (\<lambda>_. guarded_by cfg) (\<lambda>_. guarded_by cfg) t"
    if g: "guarded_by cfg t" and i: "lr_trainer u = Some i" "gone_recently i t" "lr_handoff_checkpoint u = Some c"
      "clean_gpu cfg (filter is_key (lm_history t)) (Checkpoint (Inr (Some c)) # rest)" for ts u t i c rest
  proof -
    let ?h = "Clock (w_clock w (lm_history t)) # lm_history t"
    let ?u = "u\<lparr>lr_phase := ''leased'', lr_lease_clean_observation_times := ts, lr_updated_at := Fin (w_clock w (lm_history t))\<rparr>"
    have "grant_ready cfg (Emitted name x # Clock y # Saved ?u (Inr ()) # ?h) ?u" for name x y
      unfolding grant_ready_def last_saved_def
      by (intro exI [of _ i] exI [of _ c] exI [of _ rest])
        (use i in \<open>simp add: gone_recently_def seen_gone_Cons\<close>)
    then show ?thesis using g
      by (auto simp: wp_simps Let_def guarded_by_def split: sum.split intro!: body)
  qed
  have seen: "wp (require_clean_gpu w cfg) (\<lambda>_ t. guarded_by cfg t \<and> observed cfg (nat (rc_clean_observations cfg)) (lm_history u) (lm_history t))
      (\<lambda>_ t. guarded_by cfg t) u" if "guarded_by cfg u" for u
    by (rule wp_mono [OF wp_both [OF keepsD [OF keeps_harmless [OF harmless_clean_gpu] that] clean_gpu_seen]]) auto
  have drain: "wp (complete_trainer_drain w cfg r True) (\<lambda>u t. guarded_by cfg t \<and> drained_with u t) (\<lambda>_ t. guarded_by cfg t) s"
    by (rule wp_mono [OF wp_both [OF keepsD [OF keeps_harmless [OF harmless_drain] assms(1)] drain_evidence]]) auto
  show ?thesis unfolding handoff_body_def wp_andThen [of "complete_trainer_drain w cfg r True"]
  proof (rule wp_mono [OF drain], goal_cases)
    case (1 u t)
    show ?case unfolding wp_andThen [of "require_clean_gpu w cfg"]
    proof (rule wp_mono [OF seen], goal_cases)
      case (2 ts v)
      then obtain i c rest where "lr_trainer u = Some i" "gone_recently i v" "lr_handoff_checkpoint u = Some c"
        "clean_gpu cfg (filter is_key (lm_history v)) (Checkpoint (Inr (Some c)) # rest)"
        using observed_drained 1 by blast
      then show ?case using 2 by (blast intro: grant)
    qed (use 1 in auto)
  qed
qed

lemma handoff_release_guarded:
  assumes "guarded_by cfg s" "\<not> lr_safety_halt r"
  shows "wp (handoff_release w cfg r err) (\<lambda>_. guarded_by cfg) (\<lambda>_. guarded_by cfg) s"
proof -
  have halt: "wp (andThen (set_lease_halt w cfg u reason) (\<lambda>h. give (h, x))) (\<lambda>_. guarded_by cfg) (\<lambda>_. guarded_by cfg) t"
    if "guarded_by cfg t" for u reason x t
    by (rule keepsD [OF keeps_harmless that]) (intro adds_rules; simp)
  have restart: "wp (andThen (attempt (andThen (require_recorded_handoff_checkpoint w u) (\<lambda>_. restore_trainer w cfg u)))
      (\<lambda>v. case v of Inl e \<Rightarrow> andThen (set_lease_halt w cfg u (reason e)) (\<lambda>h. give (h, x e)) | Inr r \<Rightarrow> give (r, y)))
      (\<lambda>_. guarded_by cfg) (\<lambda>_. guarded_by cfg) t"
    if "guarded_by cfg t" "clean_gpu cfg (filter is_key (lm_history t)) rest" "\<not> lr_safety_halt u" for u reason x y rest t
    unfolding wp_try by (rule wp_mono [OF restart_guarded [OF that]]) (auto simp: wp_give intro: halt)
  have verify: "wp (andThen (attempt (andThen (require_clean_gpu w cfg) (\<lambda>ts. replace_record w cfg (f ts) u)))
      (\<lambda>v. case v of Inl e \<Rightarrow> andThen (set_lease_halt w cfg u (reason e)) (\<lambda>h. give (h, x e))
        | Inr u \<Rightarrow> andThen (attempt (andThen (require_recorded_handoff_checkpoint w u) (\<lambda>_. restore_trainer w cfg u)))
      (\<lambda>v. case v of Inl e \<Rightarrow> andThen (set_lease_halt w cfg u (reason e)) (\<lambda>h. give (h, x e)) | Inr r \<Rightarrow> give (r, y))))
      (\<lambda>_. guarded_by cfg) (\<lambda>_. guarded_by cfg) t"
    if "guarded_by cfg t" "\<not> lr_safety_halt u" "\<And>ts x. \<not> lr_safety_halt (f ts u)" for f u reason x y t
    unfolding wp_try [where m = "andThen (require_clean_gpu w cfg) f" for f]
    by (rule wp_mono [OF gpu_verified [OF that(1)]]) (use that(3) in \<open>auto intro!: restart halt\<close>)
  have keep: "keeps (guarded_by cfg) (replace_record w cfg f r)" for f
    by (rule keeps_harmless, intro adds_rules; simp)
  show ?thesis unfolding handoff_release_def Let_def
    by (rule wp_keeps_try [OF keep replace_unhalted assms(1)]) (use assms(2) in \<open>auto intro!: verify halt\<close>)
qed

lemma handoff_cleanup_guarded: "keeps (guarded_by cfg) (handoff_cleanup w cfg trainer r)"
proof -
  have keep: "keeps (guarded_by cfg) (is_running w trainer)" "keeps (guarded_by cfg) (set_active u)"
    "keeps (guarded_by cfg) (replace_record w cfg f u)" "keeps (guarded_by cfg) (emit w name)"
    "keeps (guarded_by cfg) (complete_trainer_drain w cfg u b)" "keeps (guarded_by cfg) (set_lease_halt w cfg u reason)"
    for u f name b reason
    by (rule keeps_harmless, intro adds_rules; simp)+
  have release: "keeps (guarded_by cfg) (if lr_safety_halt u then give (u, x) else handoff_release w cfg u x)" for u x
    unfolding keeps_def by (auto simp: wp_give handoff_release_guarded)
  show ?thesis unfolding handoff_cleanup_def Let_def by (intro keeps_rules keep release)
qed

lemma run_handoff_guarded:
  assumes "\<And>r. keeps (guarded_by cfg) (body r)"
  shows "keeps (guarded_by cfg) (run_handoff w cfg body trainer r)"
proof -
  have keep: "keeps (guarded_by cfg) (set_active u)" "keeps (guarded_by cfg) (save_record w cfg u)" "keeps (guarded_by cfg) (emit w name)"
    for u name by (rule keeps_harmless, intro adds_rules; simp)+
  have body: "keeps (guarded_by cfg) (handoff_body w cfg body r)"
    unfolding keeps_def by (auto intro: handoff_body_guarded assms)
  show ?thesis unfolding run_handoff_def by (intro keeps_rules keep body handoff_cleanup_guarded)
qed

lemma with_lock_guarded: "keeps (guarded_by cfg) m \<Longrightarrow> keeps (guarded_by cfg) (with_lock w m)"
  unfolding with_lock_def by (intro keeps_rules) (auto intro!: keeps_harmless adds_rules)

lemma exclusive_handoff_guarded:
  assumes "\<And>r. keeps (guarded_by cfg) (body r)"
  shows "keeps (guarded_by cfg) (exclusive_handoff w cfg body trainer)"
proof -
  have keep: "keeps (guarded_by cfg) (require_mutation cfg)" "keeps (guarded_by cfg) (load_record w)"
    "keeps (guarded_by cfg) (require_identity_alive w i role)" "keeps (guarded_by cfg) (wait_for_checkpoint_identity w cfg b c)"
    "keeps (guarded_by cfg) (clock w)" "keeps (guarded_by cfg) (ask (w_lease_id w) LeaseId)"
    for i role b c by (rule keeps_harmless, intro adds_rules; simp)+
  show ?thesis unfolding exclusive_handoff_def
    by (intro keeps_rules keep with_lock_guarded reconcile_locked_guarded run_handoff_guarded assms)
qed

lemma reconcile_guarded: "keeps (guarded_by cfg) (reconcile w cfg mutate)"
proof -
  have keep: "keeps (guarded_by cfg) (require_mutation cfg)" "keeps (guarded_by cfg) (load_record w)"
    "keeps (guarded_by cfg) (planned_reconcile_actions w r)" for r
    by (rule keeps_harmless, intro adds_rules; simp)+
  show ?thesis unfolding reconcile_def Let_def
    by (intro keeps_rules keep with_lock_guarded reconcile_locked_guarded)
qed

lemma evaluator_body_guarded:
  assumes "\<And>r. adds harmless (body r)"
  shows "keeps (guarded_by cfg) (evaluator_body w cfg body r)"
  by (rule keeps_harmless [OF harmless_evaluator_body [OF assms]])

end
