(* ===== verification/Lease_Settle.thy ===== *)
theory Lease_Settle
  imports Lease_Guard
begin

text \<open>
  Where a handoff and a reconciliation leave the state file: with a safety halt, or with the record
  of a running trainer that was seen alive. The procedures that only observe, and those that write
  through \<open>_replace_record\<close>, are treated once for every invariant of the right shape.
\<close>

section \<open>Invariants that observations keep\<close>

lemma keeps_loop [keeps_rules]: "(\<And>v. keeps I (body v)) \<Longrightarrow> keeps I (loop body v)"
  unfolding keeps_def
  by (intro allI impI wp_loop [where I = "\<lambda>_. I"]) (auto intro!: wp_mono [of "body v" for v] split: sum.split)

locale history_invariant =
  fixes I :: "lease_manager \<Rightarrow> bool"
  assumes extend: "I s \<Longrightarrow> I (s\<lparr>lm_history := ev # lm_history s\<rparr>)"
begin

lemma keeps_ask: "keeps I (ask q ev)"
  unfolding keeps_def by (simp add: wp_simps extend)

lemma keeps_askE: "keeps I (askE q ev)"
  unfolding keeps_def by (simp add: wp_simps extend split: sum.split)

lemma keeps_calls:
  "keeps I (is_running w i)" "keeps I (current_identity w p)" "keeps I (process_group_alive w i)" "keeps I (run_command w argv)"
  "keeps I (spawn w role argv)" "keeps I (signal_process_group w i)" "keeps I (clock w)" "keeps I (sleep w d)"
  "keeps I (checkpoint_stat w)" "keeps I (stable_checkpoint_identity w)" "keeps I (gpu_probe w)"
  unfolding is_running_def current_identity_def process_group_alive_def run_command_def spawn_def signal_process_group_def
    clock_def sleep_def checkpoint_stat_def stable_checkpoint_identity_def gpu_probe_def
  by (rule keeps_ask keeps_askE)+

lemma keeps_poll: "keeps I (poll_again w cfg d e v)"
  unfolding poll_again_def by (intro keeps_rules keeps_calls)

lemma keeps_emit: "keeps I (emit w name)"
  unfolding emit_def by (intro keeps_rules keeps_calls keeps_askE)

lemma keeps_expand: "keeps I (expand_command w cfg tmpl r i k)"
  unfolding expand_command_def by (rule keeps_lift)

lemma keeps_load: "keeps I (load_record w)"
  unfolding load_record_def by (intro keeps_rules keeps_askE) (simp add: keeps_def wp_simps)

lemma keeps_require_mutation: "keeps I (require_mutation cfg)"
  unfolding require_mutation_def by (rule keeps_require)

lemma keeps_identity: "keeps I (require_identity_alive w i role)" "keeps I (identity_reused w i)" "keeps I (group_gone w i)"
  unfolding require_identity_alive_def identity_reused_def group_gone_def by (intro keeps_rules keeps_calls)+

lemma keeps_wait_for_exit: "keeps I (wait_for_exit w cfg i timeout code)"
  unfolding wait_for_exit_def by (intro keeps_rules keeps_calls keeps_identity keeps_poll)

lemma keeps_wait_for_checkpoint: "keeps I (wait_for_checkpoint_identity w cfg before change)"
  unfolding wait_for_checkpoint_identity_def Let_def by (intro keeps_rules keeps_calls keeps_poll)

lemma keeps_recorded: "keeps I (require_recorded_handoff_checkpoint w r)"
  unfolding require_recorded_handoff_checkpoint_def by (intro keeps_rules keeps_calls)

lemma keeps_drain_calls: "keeps I (request_trainer_drain w cfg i)" "keeps I (issue_trainer_drain w cfg i b)" "keeps I (await_trainer_exit w cfg i)"
  unfolding issue_trainer_drain_def await_trainer_exit_def request_trainer_drain_def
  by (intro keeps_rules keeps_calls keeps_identity keeps_expand keeps_wait_for_exit)+

lemma keeps_clean: "keeps I (clean_observations w cfg n seen)"
proof (induction n arbitrary: seen)
  case 0
  show ?case by (simp add: keeps_give)
next
  case (Suc n)
  show ?case unfolding clean_observations.simps by (intro keeps_rules keeps_calls keeps_emit Suc)
qed

lemma keeps_clean_gpu: "keeps I (require_clean_gpu w cfg)"
  unfolding require_clean_gpu_def by (rule keeps_clean)

lemma keeps_lists: "keeps I (live_of w k is)" "keeps I (any_running w is)"
  by (induction "is" arbitrary: k) (simp_all, (intro keeps_rules keeps_calls; assumption)+)

lemma keeps_stop: "keeps I (stop_evaluators w cfg r ls)"
proof (induction ls)
  case (Cons l ls)
  obtain k i where "l = (k, i)" by (cases l)
  show ?case unfolding \<open>l = (k, i)\<close> stop_evaluators.simps by (intro keeps_rules keeps_calls keeps_expand Cons.IH)
qed (simp add: keeps_give)

lemma keeps_await: "keeps I (await_evaluators w cfg ls)"
proof (induction ls)
  case (Cons l ls)
  obtain k i where "l = (k, i)" by (cases l)
  show ?case unfolding \<open>l = (k, i)\<close> await_evaluators.simps by (intro keeps_rules keeps_identity keeps_wait_for_exit Cons.IH)
qed (simp add: keeps_give)

lemma keeps_alive: "keeps I (alive_opt w i)"
  unfolding alive_opt_def by (intro keeps_rules keeps_calls)

lemma keeps_planned: "keeps I (planned_reconcile_actions w r)"
  unfolding planned_reconcile_actions_def by (intro keeps_rules keeps_alive keeps_lists)

lemmas keeps_observations = keeps_ask keeps_askE keeps_calls keeps_emit keeps_expand keeps_load keeps_require_mutation keeps_identity
  keeps_wait_for_exit keeps_wait_for_checkpoint keeps_recorded keeps_drain_calls keeps_clean_gpu keeps_lists keeps_stop keeps_await
  keeps_alive keeps_planned

end

section \<open>Invariants that records written keep\<close>

text \<open>The state file can be written.\<close>

definition storing :: "lease_world \<Rightarrow> runtime_config \<Rightarrow> bool" where
  "storing w cfg \<longleftrightarrow> rc_mutation_enabled cfg \<and> (\<forall>h r. w_write w h r = Inr ())"

lemma wp_stored: "storing w cfg \<Longrightarrow> wp (replace_record w cfg f r) Q E s =
    (let t = w_clock w (lm_history s); u = (f r)\<lparr>lr_updated_at := Fin t\<rparr>
     in Q u (s\<lparr>lm_active := Some u, lm_file := Some u, lm_history := Saved u (Inr ()) # Clock t # lm_history s\<rparr>))"
  by (cases s) (simp add: wp_replace storing_def Let_def)

locale stored_invariant = history_invariant +
  assumes stored: "I s \<Longrightarrow> I (s\<lparr>lm_active := Some u, lm_file := Some u\<rparr>)"
begin

lemma keeps_replace: "storing w cfg \<Longrightarrow> keeps I (replace_record w cfg f r)"
  unfolding keeps_def
proof (intro allI impI)
  fix s assume "storing w cfg" "I s"
  let ?t = "w_clock w (lm_history s)"
  let ?u = "(f r)\<lparr>lr_updated_at := Fin ?t\<rparr>"
  have "I ((s\<lparr>lm_active := Some ?u, lm_file := Some ?u\<rparr>)\<lparr>lm_history := Saved ?u (Inr ()) # Clock ?t # lm_history s\<rparr>)"
    using extend [OF extend [OF stored [OF \<open>I s\<close>]], of "Saved ?u (Inr ())" "Clock ?t" ?u] by simp
  then show "wp (replace_record w cfg f r) (\<lambda>_. I) (\<lambda>_. I) s"
    using \<open>storing w cfg\<close> by (simp add: wp_stored Let_def)
qed

lemma keeps_halt: "storing w cfg \<Longrightarrow> keeps I (set_lease_halt w cfg r reason)"
  unfolding set_lease_halt_def by (intro keeps_rules keeps_replace keeps_emit)

lemma keeps_complete_drain: "storing w cfg \<Longrightarrow> keeps I (complete_trainer_drain w cfg r b)"
  unfolding complete_trainer_drain_def record_handoff_def by (intro keeps_rules keeps_replace keeps_observations)

lemma keeps_drain_evaluators: "storing w cfg \<Longrightarrow> keeps I (drain_evaluators w cfg r)"
  unfolding drain_evaluators_def by (intro keeps_rules keeps_replace keeps_observations)

lemma keeps_workers: "storing w cfg \<Longrightarrow> keeps I (start_workers w cfg k n evs r)"
proof (induction n arbitrary: k evs r)
  case 0
  show ?case by (simp add: keeps_give)
next
  case (Suc n)
  show ?case unfolding start_workers.simps Let_def by (intro keeps_rules keeps_replace keeps_observations Suc)
qed

lemma keeps_evaluator_body:
  assumes "storing w cfg" "\<And>r. keeps I (body r)"
  shows "keeps I (evaluator_body w cfg body r)"
  unfolding evaluator_body_def evaluator_try_def
  by (intro keeps_rules keeps_workers keeps_replace keeps_halt keeps_drain_evaluators keeps_emit assms)

end

section \<open>Settled files\<close>

definition settled_record :: "lease_history \<Rightarrow> lease_record \<Rightarrow> bool" where
  "settled_record h r \<longleftrightarrow> lr_safety_halt r \<or> lr_phase r = ''trainer_running''
     \<and> (case lr_trainer r of None \<Rightarrow> False | Some i \<Rightarrow> Running i True \<in> set h)"

definition lease_settled :: "lease_manager \<Rightarrow> bool" where
  "lease_settled s = (case lm_file s of None \<Rightarrow> False | Some r \<Rightarrow> settled_record (lm_history s) r)"

text \<open>A halt of the active record is in the file.\<close>

definition halt_recorded :: "lease_manager \<Rightarrow> bool" where
  "halt_recorded s = (case lm_active s of None \<Rightarrow> False
     | Some a \<Rightarrow> lr_safety_halt a \<longrightarrow> (case lm_file s of None \<Rightarrow> False | Some r \<Rightarrow> lr_safety_halt r))"

text \<open>The file is \<open>f\<close> and the calls \<open>evs\<close> have been made.\<close>

definition file_after :: "lease_record option \<Rightarrow> lease_event list \<Rightarrow> lease_manager \<Rightarrow> bool" where
  "file_after f evs s \<longleftrightarrow> lm_file s = f \<and> set evs \<subseteq> set (lm_history s)"

interpretation settled_inv: history_invariant lease_settled
  by unfold_locales (auto simp: lease_settled_def settled_record_def split: option.splits)

interpretation same_file: history_invariant "file_after f evs" for f evs
  by unfold_locales (auto simp: file_after_def)

interpretation halt_inv: stored_invariant halt_recorded
  by unfold_locales (auto simp: halt_recorded_def split: option.splits)

text \<open>
  What is known when a procedure raises: nothing, or that the file is settled, provided every record
  can be written.
\<close>

definition raises_with :: "lease_world \<Rightarrow> runtime_config \<Rightarrow> (lease_exn \<Rightarrow> lease_manager \<Rightarrow> bool) \<Rightarrow> bool" where
  "raises_with w cfg E \<longleftrightarrow> E = (\<lambda>_ _. True) \<or> storing w cfg \<and> E = (\<lambda>_. lease_settled)"

lemma raises_anyhow: "raises_with w cfg (\<lambda>_ _. True)"
  by (simp add: raises_with_def)

lemma raises_settled: "storing w cfg \<Longrightarrow> raises_with w cfg (\<lambda>_. lease_settled)"
  by (simp add: raises_with_def)

lemma wp_written:
  assumes "raises_with w cfg E" "\<And>t u ev. u = (f r)\<lparr>lr_updated_at := Fin t\<rparr> \<Longrightarrow>
    Q u (s\<lparr>lm_active := Some u, lm_file := Some u, lm_history := ev # Clock t # lm_history s\<rparr>)"
  shows "wp (replace_record w cfg f r) Q E s"
proof (cases "storing w cfg")
  case True
  then show ?thesis using assms(2) by (simp add: wp_stored Let_def)
next
  case False
  then have "E = (\<lambda>_ _. True)" using assms(1) by (simp add: raises_with_def)
  then show ?thesis using assms(2) by (cases s) (simp add: wp_replace Let_def split: sum.split)
qed

lemma raises_settled_or_not: "raises_with w cfg E \<Longrightarrow> lease_settled s \<Longrightarrow> E e s"
  by (auto simp: raises_with_def)

text \<open>A safety halt settles the file even when its announcement fails.\<close>

lemma halt_settles:
  assumes "raises_with w cfg E"
  shows "wp (set_lease_halt w cfg r reason) (\<lambda>_. lease_settled) E s"
  unfolding set_lease_halt_def wp_andThen [of "replace_record w cfg f r" for f]
  by (rule wp_written [OF assms])
    (auto simp: wp_andThen wp_emit wp_give Let_def lease_settled_def settled_record_def split: sum.split
      intro!: raises_settled_or_not [OF assms])

lemma halted_settles: "raises_with w cfg E \<Longrightarrow> wp (halted w cfg r reason acts) (\<lambda>_. lease_settled) E s"
  unfolding halted_def wp_andThen by (auto intro: wp_mono [OF halt_settles] simp: wp_give)

text \<open>A trainer that was started again is seen alive before its record is written.\<close>

lemma await_restored_settles: "wp (await_restored w cfg i r) (\<lambda>_. lease_settled) (\<lambda>_ _. True) s"
  unfolding await_restored_def Let_def
  by (auto simp: wp_simps Let_def lease_settled_def settled_record_def split: sum.split
    intro!: wp_mono [OF wp_loop [where I = "\<lambda>_ _. True" and Q = "\<lambda>_ t. Running i True \<in> set (lm_history t)" and E = "\<lambda>_ _. True"]])

lemma restore_settles: "wp (restore_trainer w cfg r) (\<lambda>_. lease_settled) (\<lambda>_ _. True) s"
  unfolding restore_trainer_def
  by (intro wp_last await_restored_settles)

lemma restart_settles:
  "wp (andThen (require_recorded_handoff_checkpoint w r) (\<lambda>_. restore_trainer w cfg r)) (\<lambda>_. lease_settled) (\<lambda>_ _. True) s"
  by (intro wp_last restore_settles)

lemma andThen_assoc: "andThen (andThen m f) g = andThen m (\<lambda>x. andThen (f x) g)"
  by (rule ext) (simp add: andThen_def split: option.split prod.split sum.split)

lemma andThen_give: "andThen (give x) f = f x"
  by (rule ext) (simp add: andThen_def give_def)

lemma wp_attempt_keeps:
  assumes "keeps I m" "I s" "\<And>r t. I t \<Longrightarrow> wp (f r) Q E t"
  shows "wp (andThen (attempt m) f) Q E s"
  unfolding wp_andThen wp_attempt by (rule wp_mono [OF keepsD [OF assms(1,2)]]) (use assms(3) in blast)+

lemma wp_settle_try:
  assumes "\<And>s. wp m (\<lambda>_. lease_settled) (\<lambda>_ _. True) s" "\<And>e t. wp (f e) (\<lambda>_. lease_settled) E t"
  shows "wp (andThen (attempt m) (\<lambda>v. case v of Inl e \<Rightarrow> f e | Inr x \<Rightarrow> give (g x))) (\<lambda>_. lease_settled) E s"
  unfolding wp_try by (rule wp_mono [OF assms(1)]) (auto simp: wp_give assms(2))

lemma wp_always_try:
  assumes "\<And>x t. wp (g x) Q E t" "\<And>e t. wp (f e) Q E t"
  shows "wp (andThen (attempt m) (\<lambda>v. case v of Inl e \<Rightarrow> f e | Inr x \<Rightarrow> g x)) Q E s"
  unfolding wp_try by (rule wp_mono [OF wp_True]) (auto simp: assms)

lemma reconcile_restore_settles: "raises_with w cfg E \<Longrightarrow> wp (reconcile_restore w cfg r acts) (\<lambda>_. lease_settled) E s"
  unfolding reconcile_restore_def Let_def
  by (intro wp_always_try wp_settle_try restart_settles halted_settles)

lemma reconcile_evaluators_settles:
  assumes "raises_with w cfg E"
  shows "wp (reconcile_evaluators w cfg alive r acts) (\<lambda>_. lease_settled) E s"
  unfolding reconcile_evaluators_def Let_def wp_andThen [of "replace_record w cfg f r" for f]
  by (intro wp_if wp_written [OF assms] wp_always_try) (auto intro!: wp_if halted_settles reconcile_restore_settles assms
    simp: wp_andThen [of "replace_record w cfg f r" for f] intro: wp_written [OF assms] wp_always_try)

lemma alive_seen:
  assumes "file_after f evs s"
  shows "wp (alive_opt w x) (\<lambda>b. file_after f ((case x of None \<Rightarrow> [] | Some i \<Rightarrow> [Running i b]) @ evs)) (\<lambda>_ _. False) s"
  using assms by (auto simp: alive_opt_def wp_simps file_after_def split: option.split)

lemma alive_absent: "returns (\<lambda>b. b \<longrightarrow> x \<noteq> None) (alive_opt w x)"
  by (auto simp: returns_def alive_opt_def wp_simps split: option.split)

lemma live_seen: "file_after f evs s \<Longrightarrow> wp (live_of w k is) (\<lambda>_. file_after f evs) (\<lambda>_ _. False) s"
proof (induction "is" arbitrary: k s)
  case (Cons i "is")
  have IH: "wp (live_of w k is) (\<lambda>_. file_after f evs) (\<lambda>_ _. False) (s\<lparr>lm_history := ev # lm_history s\<rparr>)" for k ev
    by (rule Cons.IH [OF same_file.extend [OF Cons.prems]])
  show ?case unfolding live_of.simps wp_andThen wp_calls by (rule wp_mono [OF IH]) (simp_all add: wp_give)
qed (simp add: wp_give)

text \<open>Reconciling the record of the file always settles the file.\<close>

lemma reconcile_locked_settles:
  assumes "raises_with w cfg E" "lm_file s = Some r"
  shows "wp (reconcile_locked w cfg r) (\<lambda>_. lease_settled) E s"
proof -
  note halt = halted_settles [OF assms(1)] reconcile_evaluators_settles [OF assms(1)]
  have drain: "wp (andThen (attempt m) (\<lambda>v. case v of Inl e \<Rightarrow> halted w cfg r (reason e) bs | Inr r \<Rightarrow> reconcile_evaluators w cfg c r cs))
      (\<lambda>_. lease_settled) E t" for m reason bs c cs t
    by (intro wp_always_try halt)
  let ?f = "\<lambda>x b. case x of None \<Rightarrow> [] | Some i \<Rightarrow> [Running i b]"
  have written: "wp (andThen (replace_record w cfg f r) (\<lambda>r. give (as, r))) (\<lambda>_. lease_settled) E t"
    if "lr_phase (f r) = ''trainer_running''" "lr_trainer (f r) = Some i" "Running i True \<in> set (lm_history t)" for f as t i
    unfolding wp_andThen by (rule wp_written [OF assms(1)]) (use that in \<open>auto simp: wp_give lease_settled_def settled_record_def\<close>)
  have start: "file_after (Some r) [] (s\<lparr>lm_active := Some r\<rparr>)" using assms(2) by (simp add: file_after_def)
  have alive: "wp (andThen (alive_opt w x) f) (\<lambda>_. lease_settled) E t"
    if "file_after (Some r) evs t"
      "\<And>b u. file_after (Some r) (?f x b @ evs) u \<Longrightarrow> (b \<longrightarrow> x \<noteq> None) \<Longrightarrow> wp (f b) (\<lambda>_. lease_settled) E u"
    for x f evs t
    unfolding wp_andThen by (rule wp_mono [OF alive_seen [OF that(1)]]) (use that(2) returnsD [OF alive_absent] in auto)
  have live: "wp (andThen (live_of w k is) f) (\<lambda>_. lease_settled) E t"
    if "file_after (Some r) evs t" "\<And>b u. file_after (Some r) evs u \<Longrightarrow> wp (f b) (\<lambda>_. lease_settled) E u" for k "is" f evs t
    unfolding wp_andThen by (rule wp_mono [OF live_seen [OF that(1)]]) (use that(2) in auto)
  show ?thesis
    unfolding reconcile_locked_def wp_andThen [of "set_active r"] wp_set_active
    apply (intro wp_if halt)
    subgoal using assms(2) by (simp add: wp_give lease_settled_def settled_record_def)
    subgoal
      apply (rule alive [OF start])
      apply (rule alive, assumption)
      apply (rule live, assumption)
      apply (intro wp_if halt drain)
      subgoal by (auto simp: file_after_def intro!: written)
      subgoal by (auto simp: file_after_def intro!: written)
      subgoal by (auto simp: file_after_def wp_give lease_settled_def settled_record_def)
      done
    done
qed

section \<open>The handoff settles the file\<close>

lemma handoff_release_settles:
  assumes "storing w cfg"
  shows "wp (handoff_release w cfg r err) (\<lambda>_. lease_settled) (\<lambda>_. lease_settled) s"
proof -
  have fail: "wp (andThen (set_lease_halt w cfg u reason) (\<lambda>h. give (h, x))) (\<lambda>_. lease_settled) (\<lambda>_. lease_settled) t" for u reason x t
    unfolding wp_andThen by (rule wp_mono [OF halt_settles [OF raises_settled [OF assms]]]) (simp_all add: wp_give)
  show ?thesis unfolding handoff_release_def Let_def by (intro wp_always_try wp_settle_try restart_settles fail)
qed

lemma drain_stored: "storing w cfg \<Longrightarrow> wp (complete_trainer_drain w cfg r b) (\<lambda>u t. lm_file t = Some u) (\<lambda>_ _. True) s"
  unfolding complete_trainer_drain_def record_handoff_def
  by (auto simp: wp_throw wp_andThen [of "replace_record w cfg f r" for f] wp_andThen [of "emit w name" for name] wp_stored wp_emit wp_give Let_def
      split: option.split sum.split
      intro!: wp_last [of _ _ "issue_trainer_drain w cfg i b" for i b] wp_last [of _ _ "await_trainer_exit w cfg i" for i]
        wp_last [of _ _ "wait_for_checkpoint_identity w cfg x y" for x y])

text \<open>The record that the cleanup goes on with is halted only if the file is.\<close>

lemma cleanup_drain:
  assumes "storing w cfg" "lr_safety_halt r \<Longrightarrow> lease_settled s"
  shows "wp (if lr_handoff_checkpoint r = None
      then andThen (attempt (complete_trainer_drain w cfg r False)) (\<lambda>v.
        case v of Inr active \<Rightarrow> give (active, None)
        | Inl e \<Rightarrow> andThen (set_lease_halt w cfg r (reason e)) (\<lambda>h. give (h, Some e)))
      else give (r, None)) (\<lambda>(u, err) t. lr_safety_halt u \<longrightarrow> lease_settled t) (\<lambda>_. lease_settled) s"
proof -
  have "wp (andThen (set_lease_halt w cfg r (reason e)) (\<lambda>h. give (h, Some e))) (\<lambda>(u, err) t. lr_safety_halt u \<longrightarrow> lease_settled t) (\<lambda>_. lease_settled) t" for e t
    unfolding wp_andThen by (rule wp_mono [OF halt_settles [OF raises_settled [OF assms(1)]]]) (simp_all add: wp_give)
  then have "wp (andThen (attempt (complete_trainer_drain w cfg r False)) (\<lambda>v.
        case v of Inl e \<Rightarrow> andThen (set_lease_halt w cfg r (reason e)) (\<lambda>h. give (h, Some e))
        | Inr active \<Rightarrow> give (active, None))) (\<lambda>(u, err) t. lr_safety_halt u \<longrightarrow> lease_settled t) (\<lambda>_. lease_settled) s"
    unfolding wp_try
    by (intro wp_mono [OF drain_stored [OF assms(1)]]) (auto simp: wp_give lease_settled_def settled_record_def)
  then show ?thesis using assms(2) by (simp add: wp_give)
qed

lemma handoff_cleanup_settles:
  assumes "storing w cfg" "halt_recorded s"
  shows "wp (handoff_cleanup w cfg trainer r) (\<lambda>_. lease_settled) (\<lambda>_. lease_settled) s"
proof -
  obtain a where a: "lm_active s = Some a" "lr_safety_halt a \<Longrightarrow> lease_settled s"
    using assms(2) by (auto simp: halt_recorded_def lease_settled_def settled_record_def split: option.splits)
  let ?s = "s\<lparr>lm_history := Running trainer (w_is_running w (lm_history s) trainer) # lm_history s\<rparr>"
  have close: "wp (andThen (set_active u) (\<lambda>_. give x)) (\<lambda>_. lease_settled) (\<lambda>_. lease_settled) t" if "lease_settled t" for u x t
    using that by (simp add: wp_simps lease_settled_def split: option.splits)
  have remained: "wp (andThen (replace_record w cfg (\<lambda>r. r\<lparr>lr_phase := ''trainer_running'', lr_trainer := Some trainer,
           lr_restoration_status := ''not_needed''\<rparr>) a) (\<lambda>active.
         andThen (emit w ''trainer_remained_running'') (\<lambda>_. give (active, None)))) (\<lambda>_. lease_settled) (\<lambda>_. lease_settled) ?s"
    if "w_is_running w (lm_history s) trainer"
    using that by (simp add: wp_andThen wp_stored [OF assms(1)] wp_emit wp_give Let_def lease_settled_def settled_record_def split: sum.split)
  have released: "wp (if lr_safety_halt u then give (u, x) else handoff_release w cfg u x) (\<lambda>_. lease_settled) (\<lambda>_. lease_settled) t"
    if "lr_safety_halt u \<longrightarrow> lease_settled t" for u x t
    using that handoff_release_settles [OF assms(1)] by (simp add: wp_give)
  have drained: "wp (andThen (if lr_handoff_checkpoint a = None
      then andThen (attempt (complete_trainer_drain w cfg a False)) (\<lambda>v.
        case v of Inr active \<Rightarrow> give (active, None)
        | Inl e \<Rightarrow> andThen (set_lease_halt w cfg a (reason e)) (\<lambda>h. give (h, Some e)))
      else give (a, None)) (\<lambda>(u, x). if lr_safety_halt u then give (u, x) else handoff_release w cfg u x)) (\<lambda>_. lease_settled) (\<lambda>_. lease_settled) ?s" for reason
    unfolding wp_andThen [of "if c then d else e" for c d e]
    by (rule wp_mono [OF cleanup_drain [OF assms(1)]]) (auto simp: released handoff_release_settles [OF assms(1)] wp_give settled_inv.extend a(2))
  show ?thesis
    unfolding handoff_cleanup_def wp_andThen [of get_active] wp_get_active a(1) Let_def option.case
      wp_andThen [of "is_running w trainer"] wp_calls wp_andThen [of "if c then d else e" for c d e]
    by (rule wp_mono [OF wp_if [OF remained drained]]) (auto simp: close)
qed

lemma handoff_body_halt:
  assumes "storing w cfg" "\<And>r. keeps halt_recorded (body r)"
  shows "keeps halt_recorded (handoff_body w cfg body r)"
  unfolding handoff_body_def
  by (intro keeps_rules halt_inv.keeps_complete_drain halt_inv.keeps_replace halt_inv.keeps_clean_gpu halt_inv.keeps_emit halt_inv.keeps_ask assms)

lemma run_handoff_settles:
  assumes "storing w cfg" "\<And>h. w_emit w h ''trainer_drain_started'' = Inr ()" "\<And>r. keeps halt_recorded (body r)"
    "\<not> lr_safety_halt record"
  shows "wp (run_handoff w cfg body trainer record) (\<lambda>_. lease_settled) (\<lambda>_. lease_settled) s"
proof -
  have tried: "keeps halt_recorded (andThen (attempt (handoff_body w cfg body record)) (\<lambda>v.
       case v of Inr x \<Rightarrow> give x | Inl e \<Rightarrow> andThen (emit w name) (\<lambda>_. throw e)))" for name
    by (intro keeps_rules handoff_body_halt assms halt_inv.keeps_emit)
  have finish: "wp (andThen (handoff_cleanup w cfg trainer record) (\<lambda>cleanup_error.
     case outcome of Inl e \<Rightarrow> throw e
     | Inr _ \<Rightarrow> (case cleanup_error of None \<Rightarrow> give ()
         | Some (GpuLeaseError c m) \<Rightarrow> throw (GpuLeaseError c m)
         | Some (OtherError m) \<Rightarrow> throw (GpuLeaseError ''handoff_cleanup_failed'' m)))) (\<lambda>_. lease_settled) (\<lambda>_. lease_settled) t"
    if "halt_recorded t" for outcome t
    unfolding wp_andThen by (rule wp_mono [OF handoff_cleanup_settles [OF assms(1) that]])
      (auto simp: wp_give wp_throw split: sum.split option.split lease_exn.split)
  have begun: "wp (andThen (set_active record) (\<lambda>_. andThen (save_record w cfg record) (\<lambda>_. emit w ''trainer_drain_started'')))
      (\<lambda>_. halt_recorded) (\<lambda>_ _. False) s"
    using assms(1,2,4) by (simp add: wp_simps save_record_def require_mutation_def storing_def Let_def halt_recorded_def)
  have rest: "wp (andThen (andThen (set_active record) (\<lambda>_. andThen (save_record w cfg record) (\<lambda>_. emit w ''trainer_drain_started''))) f)
      (\<lambda>_. lease_settled) (\<lambda>_. lease_settled) s" if "\<And>t. halt_recorded t \<Longrightarrow> wp (f ()) (\<lambda>_. lease_settled) (\<lambda>_. lease_settled) t" for f :: "unit \<Rightarrow> unit action"
    unfolding wp_andThen [of _ f] by (rule wp_mono [OF begun]) (use that in auto)
  show ?thesis unfolding run_handoff_def
    by (rule rest [unfolded andThen_assoc]) (rule wp_attempt_keeps [OF tried], assumption, rule finish)
qed

text \<open>The file is as it was found, or settled.\<close>

definition unchanged_or_settled :: "lease_record option \<Rightarrow> lease_manager \<Rightarrow> bool" where
  "unchanged_or_settled f s \<longleftrightarrow> lm_file s = f \<or> lease_settled s"

interpretation outcome: history_invariant "unchanged_or_settled f" for f
  by unfold_locales (auto simp: unchanged_or_settled_def settled_inv.extend)

lemma wp_settled: "wp m (\<lambda>_. lease_settled) (\<lambda>_. lease_settled) s \<Longrightarrow> wp m (\<lambda>_. unchanged_or_settled f) (\<lambda>_. unchanged_or_settled f) s"
  by (erule wp_mono) (simp_all add: unchanged_or_settled_def)

lemma with_lock_outcome:
  assumes "\<And>t. lm_file t = f \<Longrightarrow> wp m (\<lambda>_. unchanged_or_settled f) (\<lambda>_. unchanged_or_settled f) t" "lm_file s = f"
  shows "wp (with_lock w m) (\<lambda>_. unchanged_or_settled f) (\<lambda>_. unchanged_or_settled f) s"
proof -
  have held: "wp (andThen (attempt m) (\<lambda>r. andThen (ask (\<lambda>_. ()) (\<lambda>_. Unlocked)) (\<lambda>_. lift_result r)))
      (\<lambda>_. unchanged_or_settled f) (\<lambda>_. unchanged_or_settled f) t" if "lm_file t = f" for t
    unfolding wp_andThen [of "attempt m"] wp_attempt
    by (rule wp_mono [OF assms(1) [OF that]]) (auto simp: wp_simps outcome.extend)
  show ?thesis unfolding with_lock_def
    by (simp add: wp_andThen [of "askE a b" for a b] wp_askE held assms(2) unchanged_or_settled_def split: sum.split)
qed

lemma load_outcome:
  assumes "lm_file s = f" "\<And>t. lm_file t = f \<Longrightarrow> wp (g f) (\<lambda>_. unchanged_or_settled f) (\<lambda>_. unchanged_or_settled f) t"
  shows "wp (andThen (load_record w) g) (\<lambda>_. unchanged_or_settled f) (\<lambda>_. unchanged_or_settled f) s"
  by (simp add: load_record_def wp_andThen wp_askE wp_file assms unchanged_or_settled_def split: sum.split)

lemma mutation_given: "storing w cfg \<Longrightarrow> require_mutation cfg = give ()"
  by (simp add: storing_def require_mutation_def require_def)

lemma exclusive_handoff_outcome:
  assumes "storing w cfg" "\<And>h. w_emit w h ''trainer_drain_started'' = Inr ()" "\<And>r. keeps halt_recorded (body r)"
  shows "wp (exclusive_handoff w cfg body trainer) (\<lambda>_. unchanged_or_settled (lm_file s)) (\<lambda>_. unchanged_or_settled (lm_file s)) s"
proof -
  let ?G = "\<lambda>m t. wp m (\<lambda>_. unchanged_or_settled (lm_file s)) (\<lambda>_. unchanged_or_settled (lm_file s)) t"
  note run = wp_settled [OF run_handoff_settles [OF assms]]
  have fresh: "\<not> lr_safety_halt (handoff_record cfg lid tr ck now)" for lid tr ck now by (simp add: handoff_record_def)
  note keep = outcome.keeps_identity(1) outcome.keeps_wait_for_checkpoint outcome.keeps_calls(7) outcome.keeps_ask
  have new: "?G (case x of None \<Rightarrow> throw e | Some trainer \<Rightarrow>
         andThen (require_identity_alive w trainer ''trainer'') (\<lambda>_.
         andThen (wait_for_checkpoint_identity w cfg None False) (\<lambda>pre_drain.
         andThen (clock w) (\<lambda>now.
         andThen (ask (w_lease_id w) LeaseId) (\<lambda>lease_id.
         run_handoff w cfg body trainer (handoff_record cfg lease_id trainer pre_drain now)))))) t"
    if "unchanged_or_settled (lm_file s) t" for x e t
    by (intro wp_option wp_keeps_next [OF keep(1)] wp_keeps_next [OF keep(2)] wp_keeps_next [OF keep(3)] wp_keeps_next [OF keep(4)] run fresh)
      (use that in \<open>simp_all add: wp_throw\<close>)
  have old: "?G (andThen (case x of None \<Rightarrow> give None
         | Some r \<Rightarrow> if lr_safety_halt r then throw e else andThen (reconcile_locked w cfg r) (\<lambda>(_, r).
             if lr_safety_halt r then throw e' else give (Some r))) f) t"
    if "lm_file t = lm_file s" "x = lm_file s" "\<And>x t. unchanged_or_settled (lm_file s) t \<Longrightarrow> ?G (f x) t" for x e e' f t
  proof (cases x)
    case None
    then show ?thesis using that by (simp add: wp_andThen wp_give unchanged_or_settled_def)
  next
    case (Some r)
    have "?G (andThen (andThen (reconcile_locked w cfg r) (\<lambda>(_, r). if lr_safety_halt r then throw e' else give (Some r))) f) t"
      unfolding wp_andThen by (rule wp_mono [OF reconcile_locked_settles [OF raises_settled [OF assms(1)]]])
        (use that Some in \<open>auto simp: wp_throw wp_give unchanged_or_settled_def\<close>)
    then show ?thesis unfolding Some option.case using that(1) by (simp add: wp_andThen wp_throw unchanged_or_settled_def)
  qed
  show ?thesis unfolding exclusive_handoff_def mutation_given [OF assms(1)] andThen_give
    by (intro with_lock_outcome load_outcome old new) (simp_all add: unchanged_or_settled_def)
qed

end
