(* ===== verification/Lease_Faults.thy ===== *)
theory Lease_Faults
  imports Lease_Settle
begin

text \<open>
  The handoff when the disk fails. A call that met no fault, no failed write of the state file and
  no failed announcement of the drain, runs as it would in a world without such faults: the run in
  the given world is simulated by one in the sound world, until the first fault. What is known of
  the sound world then holds of every run, or a fault is in its history.
\<close>

section \<open>Faults\<close>

fun fault :: "lease_event \<Rightarrow> bool" where
  "fault (Saved _ (Inl _)) = True"
| "fault (Emitted name (Inl _)) \<longleftrightarrow> name = ''trainer_drain_started''"
| "fault _ = False"

definition sound_world :: "lease_world \<Rightarrow> lease_world" where
  "sound_world w = w\<lparr>w_write := (\<lambda>_ _. Inr ()),
     w_emit := (\<lambda>h name. if name = ''trainer_drain_started'' then Inr () else w_emit w h name)\<rparr>"

text \<open>Every run of the first action is one of the second, or adds a fault to the history.\<close>

definition agrees :: "'a action \<Rightarrow> 'a action \<Rightarrow> bool" where
  "agrees m m' \<longleftrightarrow> (\<forall>s r t. m s = Some (r, t) \<longrightarrow>
     (\<exists>new. lm_history t = new @ lm_history s \<and> (list_ex fault new \<or> m' s = Some (r, t))))"

named_theorems agrees_rules \<open>runs with and without faults\<close>

lemma agreesD: "agrees m m' \<Longrightarrow> m s = Some (r, t) \<Longrightarrow>
    \<exists>new. lm_history t = new @ lm_history s \<and> (list_ex fault new \<or> m' s = Some (r, t))"
  by (simp add: agrees_def)

lemma agrees_same: "adds (\<lambda>_. True) m \<Longrightarrow> agrees m m"
  by (fastforce simp: agrees_def adds_def)

lemma agrees_basic [agrees_rules]:
  "agrees (give x) (give x)" "agrees (throw e) (throw e)" "agrees get_active get_active" "agrees (set_active r) (set_active r)"
  "agrees (set_file r) (set_file r)" "agrees (\<lambda>s. Some (Inr (lm_file s), s)) (\<lambda>s. Some (Inr (lm_file s), s))"
  "agrees (ask q ev) (ask q ev)" "agrees (askE q' ev') (askE q' ev')" "agrees (require b e) (require b e)"
  "agrees (lift_result v) (lift_result v)" "agrees (require_mutation cfg) (require_mutation cfg)"
  by (intro agrees_same adds_rules; simp)+

lemma agrees_andThen [agrees_rules]:
  assumes "agrees m m'" "\<And>x. agrees (f x) (f' x)"
  shows "agrees (andThen m f) (andThen m' f')"
  unfolding agrees_def
proof (intro allI impI)
  fix s r t assume "andThen m f s = Some (r, t)"
  then consider e where "m s = Some (Inl e, t)" "r = Inl e" | x u where "m s = Some (Inr x, u)" "f x u = Some (r, t)"
    by (auto simp: andThen_def split: option.splits sum.splits)
  then show "\<exists>new. lm_history t = new @ lm_history s \<and> (list_ex fault new \<or> andThen m' f' s = Some (r, t))"
  proof cases
    case 1
    then show ?thesis using agreesD [OF assms(1)] by (fastforce simp: andThen_def)
  next
    case 2
    obtain n1 where n1: "lm_history u = n1 @ lm_history s" "list_ex fault n1 \<or> m' s = Some (Inr x, u)"
      using agreesD [OF assms(1) 2(1)] by blast
    obtain n2 where n2: "lm_history t = n2 @ lm_history u" "list_ex fault n2 \<or> f' x u = Some (r, t)"
      using agreesD [OF assms(2) 2(2)] by blast
    have "lm_history t = (n2 @ n1) @ lm_history s \<and> (list_ex fault (n2 @ n1) \<or> andThen m' f' s = Some (r, t))"
      using n1 n2 by (auto simp: andThen_def)
    then show ?thesis by blast
  qed
qed

lemma agrees_attempt [agrees_rules]: "agrees m m' \<Longrightarrow> agrees (attempt m) (attempt m')"
  unfolding agrees_def attempt_def by (fastforce split: option.splits)

lemma agrees_if [agrees_rules]: "(b \<Longrightarrow> agrees m m') \<Longrightarrow> (\<not> b \<Longrightarrow> agrees n n') \<Longrightarrow> agrees (if b then m else n) (if b then m' else n')"
  by simp

lemma agrees_option [agrees_rules]:
  "agrees m m' \<Longrightarrow> (\<And>y. agrees (f y) (f' y)) \<Longrightarrow> agrees (case x of None \<Rightarrow> m | Some y \<Rightarrow> f y) (case x of None \<Rightarrow> m' | Some y \<Rightarrow> f' y)"
  by (simp split: option.split)

lemma agrees_sum [agrees_rules]:
  "(\<And>y. agrees (f y) (f' y)) \<Longrightarrow> (\<And>y. agrees (g y) (g' y)) \<Longrightarrow>
    agrees (case x of Inl y \<Rightarrow> f y | Inr y \<Rightarrow> g y) (case x of Inl y \<Rightarrow> f' y | Inr y \<Rightarrow> g' y)"
  by (simp split: sum.split)

lemma agrees_prod [agrees_rules]: "(\<And>a b. agrees (f a b) (f' a b)) \<Longrightarrow> agrees (case x of (a, b) \<Rightarrow> f a b) (case x of (a, b) \<Rightarrow> f' a b)"
  by (simp split: prod.split)

lemma agrees_exn [agrees_rules]:
  "(\<And>c m. agrees (f c m) (f' c m)) \<Longrightarrow> (\<And>m. agrees (g m) (g' m)) \<Longrightarrow>
    agrees (case e of GpuLeaseError c m \<Rightarrow> f c m | OtherError m \<Rightarrow> g m) (case e of GpuLeaseError c m \<Rightarrow> f' c m | OtherError m \<Rightarrow> g' m)"
  by (simp split: lease_exn.split)

section \<open>The procedures in the sound world\<close>

lemma sound_calls [simp]:
  "is_running (sound_world w) = is_running w" "current_identity (sound_world w) = current_identity w"
  "process_group_alive (sound_world w) = process_group_alive w" "run_command (sound_world w) = run_command w"
  "spawn (sound_world w) = spawn w" "signal_process_group (sound_world w) = signal_process_group w"
  "clock (sound_world w) = clock w" "sleep (sound_world w) = sleep w" "checkpoint_stat (sound_world w) = checkpoint_stat w"
  "stable_checkpoint_identity (sound_world w) = stable_checkpoint_identity w" "gpu_probe (sound_world w) = gpu_probe w"
  "load_record (sound_world w) = load_record w" "w_lock (sound_world w) = w_lock w" "w_lease_id (sound_world w) = w_lease_id w"
  by (rule ext | simp add: sound_world_def is_running_def current_identity_def process_group_alive_def run_command_def spawn_def
      signal_process_group_def clock_def sleep_def checkpoint_stat_def stable_checkpoint_identity_def gpu_probe_def load_record_def)+

lemma sound_format: "format_parts (sound_world w) vals parts = format_parts w vals parts"
proof (induction parts)
  case (Cons part parts)
  have "w_format (sound_world w) = w_format w" by (simp add: sound_world_def)
  then show ?case unfolding format_parts.simps Cons by (rule arg_cong)
qed simp

lemma sound_lists [simp]: "live_of (sound_world w) k is = live_of w k is" "any_running (sound_world w) is = any_running w is"
  by (induction "is" arbitrary: k) (unfold live_of.simps any_running.simps sound_calls, simp_all cong: if_cong)

lemma sound_waits [simp]:
  "expand_command (sound_world w) = expand_command w" "require_identity_alive (sound_world w) = require_identity_alive w"
  "identity_reused (sound_world w) = identity_reused w" "group_gone (sound_world w) = group_gone w" "alive_opt (sound_world w) = alive_opt w"
  "poll_again (sound_world w) = poll_again w"
  by (unfold fun_eq_iff expand_command_def sound_format require_identity_alive_def identity_reused_def group_gone_def alive_opt_def
      poll_again_def sound_calls) simp_all

lemma sound_poll [simp]:
  "wait_for_exit (sound_world w) = wait_for_exit w" "wait_for_checkpoint_identity (sound_world w) = wait_for_checkpoint_identity w"
  "require_recorded_handoff_checkpoint (sound_world w) = require_recorded_handoff_checkpoint w"
  "request_trainer_drain (sound_world w) = request_trainer_drain w"
  by (unfold fun_eq_iff wait_for_exit_def wait_for_checkpoint_identity_def require_recorded_handoff_checkpoint_def
      request_trainer_drain_def sound_calls sound_waits) simp_all

lemma sound_drain [simp]:
  "issue_trainer_drain (sound_world w) = issue_trainer_drain w" "await_trainer_exit (sound_world w) = await_trainer_exit w"
  "stop_evaluators (sound_world w) cfg r ls = stop_evaluators w cfg r ls" "await_evaluators (sound_world w) cfg ls = await_evaluators w cfg ls"
  subgoal unfolding fun_eq_iff issue_trainer_drain_def sound_calls sound_waits sound_poll by simp
  subgoal unfolding fun_eq_iff await_trainer_exit_def sound_calls sound_waits sound_poll by simp
  subgoal by (induction ls) (auto cong: if_cong)
  subgoal by (induction ls) (auto cong: if_cong)
  done

lemma agrees_emit [agrees_rules]: "agrees (emit w name) (emit (sound_world w) name)"
proof -
  have "agrees (askE (\<lambda>h. w_emit w h name) (Emitted name)) (askE (\<lambda>h. w_emit (sound_world w) h name) (Emitted name))"
    by (auto simp: agrees_def sound_world_def askE_def ask_def andThen_def give_def throw_def Let_def split: sum.splits)
  then show ?thesis unfolding emit_def sound_calls by (intro agrees_andThen agrees_same adds_rules) simp
qed

lemma agrees_save [agrees_rules]: "agrees (save_record w cfg r) (save_record (sound_world w) cfg r)"
proof -
  have "agrees (andThen (ask (\<lambda>h. w_write w h r) (Saved r)) (\<lambda>v. case v of Inr _ \<Rightarrow> set_file r
        | Inl (replaced, e) \<Rightarrow> andThen (if replaced then set_file r else give ()) (\<lambda>_. throw e)))
      (andThen (ask (\<lambda>h. w_write (sound_world w) h r) (Saved r)) (\<lambda>v. case v of Inr _ \<Rightarrow> set_file r
        | Inl (replaced, e) \<Rightarrow> andThen (if replaced then set_file r else give ()) (\<lambda>_. throw e)))"
    by (auto simp: agrees_def sound_world_def ask_def andThen_def set_file_def give_def throw_def Let_def split: sum.splits if_splits)
  then show ?thesis unfolding save_record_def by (rule agrees_andThen [OF agrees_basic(11)])
qed

lemma agrees_harmless [agrees_rules]: "adds harmless m \<Longrightarrow> agrees m m"
  by (rule agrees_same) (rule adds_weaken, auto)

lemma agrees_spawn [agrees_rules]: "agrees (spawn w role argv) (spawn w role argv)"
  by (intro agrees_same adds_rules) simp

lemma agrees_records [agrees_rules]:
  "agrees (replace_record w cfg f r) (replace_record (sound_world w) cfg f r)"
  "agrees (set_lease_halt w cfg r reason) (set_lease_halt (sound_world w) cfg r reason)"
  "agrees (halted w cfg r reason acts) (halted (sound_world w) cfg r reason acts)"
  unfolding halted_def set_lease_halt_def replace_record_def Let_def sound_calls by (intro agrees_rules adds_rules; simp)+

lemma agrees_drain [agrees_rules]:
  "agrees (complete_trainer_drain w cfg r b) (complete_trainer_drain (sound_world w) cfg r b)"
  unfolding complete_trainer_drain_def record_handoff_def issue_trainer_drain_def await_trainer_exit_def sound_calls sound_waits sound_poll
  by (intro agrees_rules adds_rules; simp)

lemma agrees_clean [agrees_rules]: "agrees (clean_observations w cfg n seen) (clean_observations (sound_world w) cfg n seen)"
proof (induction n arbitrary: seen)
  case 0
  show ?case by (simp add: agrees_basic)
next
  case (Suc n)
  show ?case unfolding clean_observations.simps sound_calls by (intro agrees_rules adds_rules Suc; simp)
qed

lemma agrees_clean_gpu [agrees_rules]: "agrees (require_clean_gpu w cfg) (require_clean_gpu (sound_world w) cfg)"
  unfolding require_clean_gpu_def by (rule agrees_clean)

lemma agrees_drain_evaluators [agrees_rules]: "agrees (drain_evaluators w cfg r) (drain_evaluators (sound_world w) cfg r)"
  unfolding drain_evaluators_def sound_lists sound_drain by (intro agrees_rules adds_rules; simp)

lemma agrees_restore [agrees_rules]: "agrees (restore_trainer w cfg r) (restore_trainer (sound_world w) cfg r)"
  unfolding restore_trainer_def await_restored_def Let_def sound_calls sound_waits sound_poll by (intro agrees_rules adds_rules; simp)

lemma agrees_reconcile_restore [agrees_rules]: "agrees (reconcile_restore w cfg r acts) (reconcile_restore (sound_world w) cfg r acts)"
  unfolding reconcile_restore_def Let_def sound_poll by (intro agrees_rules adds_rules; simp)

lemma agrees_reconcile_evaluators [agrees_rules]:
  "agrees (reconcile_evaluators w cfg alive r acts) (reconcile_evaluators (sound_world w) cfg alive r acts)"
  unfolding reconcile_evaluators_def Let_def by (intro agrees_rules)

lemma agrees_reconcile_locked [agrees_rules]: "agrees (reconcile_locked w cfg r) (reconcile_locked (sound_world w) cfg r)"
  unfolding reconcile_locked_def sound_lists sound_waits by (intro agrees_rules adds_rules)

lemma agrees_release [agrees_rules]: "agrees (handoff_release w cfg r err) (handoff_release (sound_world w) cfg r err)"
  unfolding handoff_release_def Let_def sound_poll by (intro agrees_rules adds_rules)

lemma agrees_cleanup [agrees_rules]: "agrees (handoff_cleanup w cfg trainer r) (handoff_cleanup (sound_world w) cfg trainer r)"
  unfolding handoff_cleanup_def Let_def sound_calls by (intro agrees_rules adds_rules; simp)

lemma agrees_run_handoff [agrees_rules]:
  assumes "\<And>r. agrees (body r) (body' r)"
  shows "agrees (run_handoff w cfg body trainer r) (run_handoff (sound_world w) cfg body' trainer r)"
  unfolding run_handoff_def handoff_body_def by (intro agrees_rules assms)

lemma agrees_exclusive_handoff [agrees_rules]:
  assumes "\<And>r. agrees (body r) (body' r)"
  shows "agrees (exclusive_handoff w cfg body trainer) (exclusive_handoff (sound_world w) cfg body' trainer)"
  unfolding exclusive_handoff_def with_lock_def sound_calls sound_waits sound_poll by (intro agrees_rules adds_rules assms; simp)

lemma agrees_workers [agrees_rules]: "agrees (start_workers w cfg k n evs r) (start_workers (sound_world w) cfg k n evs r)"
proof (induction n arbitrary: k evs r)
  case 0
  show ?case by (simp add: agrees_basic)
next
  case (Suc n)
  show ?case unfolding start_workers.simps Let_def sound_calls sound_waits by (intro agrees_rules adds_rules Suc; simp)
qed

lemma agrees_evaluator_body:
  assumes "\<And>r. agrees (body r) (body' r)"
  shows "agrees (evaluator_body w cfg body r) (evaluator_body (sound_world w) cfg body' r)"
  unfolding evaluator_body_def evaluator_try_def by (intro agrees_rules assms)

section \<open>Bodies\<close>

text \<open>
  What is asked of the body of a lease: it only adds to the history, and leaves a halt of the active
  record in the file unless a write of its own failed. Its runs without a fault are those of
  \<open>fault_free\<close>.
\<close>

definition careful :: "'a action \<Rightarrow> bool" where
  "careful m \<longleftrightarrow> (\<forall>s r t. m s = Some (r, t) \<longrightarrow>
     (\<exists>new. lm_history t = new @ lm_history s \<and> (list_ex fault new \<or> (halt_recorded s \<longrightarrow> halt_recorded t))))"

definition fault_free :: "'a action \<Rightarrow> 'a action" where
  "fault_free m s = (case m s of None \<Rightarrow> None | Some (r, t) \<Rightarrow>
     if list_ex fault (take (length (lm_history t) - length (lm_history s)) (lm_history t)) then None else Some (r, t))"

lemma careful_agrees: "careful m \<Longrightarrow> agrees m (fault_free m)"
  unfolding careful_def agrees_def fault_free_def by fastforce

lemma careful_keeps: "careful m \<Longrightarrow> keeps halt_recorded (fault_free m)"
  unfolding careful_def keeps_def fault_free_def wp_def by (fastforce split: option.splits sum.splits if_splits)

lemma careful_run: "careful m \<Longrightarrow> m s = Some (r, t) \<Longrightarrow>
    \<exists>new. lm_history t = new @ lm_history s \<and> (list_ex fault new \<or> (halt_recorded s \<longrightarrow> halt_recorded t))"
  by (simp add: careful_def)

lemma careful_andThen:
  assumes "careful m" "\<And>x. careful (f x)"
  shows "careful (andThen m f)"
  unfolding careful_def
proof (intro allI impI)
  fix s r t assume "andThen m f s = Some (r, t)"
  then consider e where "m s = Some (Inl e, t)" | x u where "m s = Some (Inr x, u)" "f x u = Some (r, t)"
    by (auto simp: andThen_def split: option.splits sum.splits)
  then show "\<exists>new. lm_history t = new @ lm_history s \<and> (list_ex fault new \<or> (halt_recorded s \<longrightarrow> halt_recorded t))"
  proof cases
    case 1
    then show ?thesis using careful_run [OF assms(1)] by blast
  next
    case 2
    obtain n1 where n1: "lm_history u = n1 @ lm_history s" "list_ex fault n1 \<or> (halt_recorded s \<longrightarrow> halt_recorded u)"
      using careful_run [OF assms(1) 2(1)] by blast
    obtain n2 where n2: "lm_history t = n2 @ lm_history u" "list_ex fault n2 \<or> (halt_recorded u \<longrightarrow> halt_recorded t)"
      using careful_run [OF assms(2) 2(2)] by blast
    have "lm_history t = (n2 @ n1) @ lm_history s" using n1 n2 by simp
    then show ?thesis using n1(2) n2(2) by (metis list_ex_append)
  qed
qed

text \<open>Requesting a safety halt is careful, whatever the world does.\<close>

lemma careful_halt_request: "careful (request_safety_halt w cfg reason)"
  unfolding careful_def request_safety_halt_def set_lease_halt_def replace_record_def save_record_def require_mutation_def
  by (auto simp: andThen_def require_def give_def throw_def get_active_def set_active_def clock_def emit_def ask_def askE_def set_file_def
      Let_def halt_recorded_def split: option.splits sum.splits if_splits)

section \<open>How a handoff ends\<close>

lemma mutation_disabled: "\<not> rc_mutation_enabled cfg \<Longrightarrow> exclusive_handoff w cfg body trainer s = Some (Inl mutation_error, s)"
  by (simp add: exclusive_handoff_def require_mutation_def require_def andThen_def throw_def mutation_error_def)

lemma evaluator_lease_ends_settled:
  assumes "\<And>r. careful (body r)" "evaluator_lease w cfg body trainer s = Some (res, t)"
  shows "\<exists>new. lm_history t = new @ lm_history s \<and> (lm_file t = lm_file s \<or> lease_settled t \<or> list_ex fault new)"
proof (cases "rc_mutation_enabled cfg")
  case False
  then show ?thesis using assms(2) by (simp add: evaluator_lease_def mutation_disabled)
next
  case True
  let ?w = "sound_world w"
  let ?body = "\<lambda>r. fault_free (body r)"
  have stored: "storing ?w cfg" using True by (simp add: storing_def sound_world_def)
  have "agrees (evaluator_lease w cfg body trainer) (evaluator_lease ?w cfg ?body trainer)"
    unfolding evaluator_lease_def by (intro agrees_exclusive_handoff agrees_evaluator_body careful_agrees assms(1))
  then obtain new where new: "lm_history t = new @ lm_history s" "list_ex fault new \<or> evaluator_lease ?w cfg ?body trainer s = Some (res, t)"
    using agreesD assms(2) by blast
  have "keeps halt_recorded (evaluator_body ?w cfg ?body r)" for r
    by (intro halt_inv.keeps_evaluator_body stored careful_keeps assms(1))
  then have "wp (evaluator_lease ?w cfg ?body trainer) (\<lambda>_. unchanged_or_settled (lm_file s)) (\<lambda>_. unchanged_or_settled (lm_file s)) s"
    unfolding evaluator_lease_def by (intro exclusive_handoff_outcome stored) (simp_all add: sound_world_def)
  then have "unchanged_or_settled (lm_file s) t" if "evaluator_lease ?w cfg ?body trainer s = Some (res, t)"
    using wpD that by (fastforce split: sum.splits)
  then show ?thesis using new by (auto simp: unchanged_or_settled_def)
qed

end
