(* ===== verification/Lease_Ends.thy ===== *)
theory Lease_Ends
  imports Lease_Faults
begin

text \<open>
  Every public call of the lease ends: the loops poll with a deadline, and a clock that advances at
  least as far as the code slept reaches the deadline. A timeout that is not a finite number, which
  the configuration may hold, gives no deadline, and then a loop may run for ever.
\<close>

named_theorems ends_rules \<open>actions that end\<close>

definition ends :: "'a action \<Rightarrow> bool" where
  "ends m \<longleftrightarrow> (\<forall>s. m s \<noteq> None)"

lemma endsD: "ends m \<Longrightarrow> \<exists>r t. m s = Some (r, t)"
  by (auto simp: ends_def)

lemma ends_basic [ends_rules]:
  "ends (give x)" "ends (throw e)" "ends get_active" "ends (set_active r)" "ends (set_file r)" "ends (\<lambda>s. Some (Inr (lm_file s), s))"
  "ends (ask q ev)"
  by (simp_all add: ends_def give_def throw_def get_active_def set_active_def set_file_def ask_def Let_def)

lemma ends_andThen [ends_rules]: "ends m \<Longrightarrow> (\<And>x. ends (f x)) \<Longrightarrow> ends (andThen m f)"
  by (force simp: ends_def andThen_def split: option.split sum.split)

lemma ends_attempt [ends_rules]: "ends m \<Longrightarrow> ends (attempt m)"
  by (force simp: ends_def attempt_def split: option.split)

lemma ends_if [ends_rules]: "(b \<Longrightarrow> ends m) \<Longrightarrow> (\<not> b \<Longrightarrow> ends n) \<Longrightarrow> ends (if b then m else n)"
  by simp

lemma ends_option [ends_rules]:
  "(x = None \<Longrightarrow> ends m) \<Longrightarrow> (\<And>y. x = Some y \<Longrightarrow> ends (f y)) \<Longrightarrow> ends (case x of None \<Rightarrow> m | Some y \<Rightarrow> f y)"
  by (simp split: option.split)

lemma ends_sum [ends_rules]:
  "(\<And>y. x = Inl y \<Longrightarrow> ends (f y)) \<Longrightarrow> (\<And>y. x = Inr y \<Longrightarrow> ends (g y)) \<Longrightarrow> ends (case x of Inl y \<Rightarrow> f y | Inr y \<Rightarrow> g y)"
  by (simp split: sum.split)

lemma ends_prod [ends_rules]: "(\<And>a b. x = (a, b) \<Longrightarrow> ends (f a b)) \<Longrightarrow> ends (case x of (a, b) \<Rightarrow> f a b)"
  by (simp split: prod.split)

lemma ends_exn [ends_rules]:
  "(\<And>c m. e = GpuLeaseError c m \<Longrightarrow> ends (f c m)) \<Longrightarrow> (\<And>m. e = OtherError m \<Longrightarrow> ends (g m)) \<Longrightarrow>
    ends (case e of GpuLeaseError c m \<Rightarrow> f c m | OtherError m \<Rightarrow> g m)"
  by (simp split: lease_exn.split)

lemma ends_Let [ends_rules]: "(\<And>x. ends (f x)) \<Longrightarrow> ends (let x = t in f x)"
  by simp

lemma ends_derived [ends_rules]:
  "ends (askE q ev')" "ends (require b e)" "ends (lift_result r)" "ends (require_mutation cfg)"
  unfolding askE_def require_def lift_result_def require_mutation_def by (intro ends_rules)+

section \<open>Loops with a deadline\<close>

fun slept :: "lease_history \<Rightarrow> rat" where
  "slept [] = 0"
| "slept (Slept (Fin d) (Inr _) # h) = d + slept h"
| "slept (_ # h) = slept h"

text \<open>The durations that the loops use are finite; the clock shows at least the time that was slept, and polling sleeps.\<close>

definition finite_durations :: "runtime_config \<Rightarrow> bool" where
  "finite_durations cfg = list_all isfinite [rc_poll_interval_seconds cfg, rc_trainer_drain_timeout_seconds cfg,
     rc_trainer_checkpoint_timeout_seconds cfg, rc_trainer_start_timeout_seconds cfg, rc_evaluator_drain_timeout_seconds cfg]"

definition timely :: "lease_world \<Rightarrow> runtime_config \<Rightarrow> bool" where
  "timely w cfg \<longleftrightarrow> (\<forall>h. slept h \<le> w_clock w h) \<and> finite_durations cfg \<and> \<not> float_le (rc_poll_interval_seconds cfg) (Fin 0)"

lemma isfinite_clock: "isfinite d \<Longrightarrow> \<exists>x. clock_plus now d = Fin x"
  by (cases d) auto

text \<open>A round of the loop that goes on had time left and has slept.\<close>

definition polled :: "rat \<Rightarrow> rat \<Rightarrow> rat \<Rightarrow> 'a + 'v \<Rightarrow> lease_manager \<Rightarrow> bool" where
  "polled d deadline x r t \<longleftrightarrow> isl r \<or> x < deadline \<and> slept (lm_history t) = x + d"

lemma polled_Inl [simp]: "polled d deadline x (Inl y) t"
  by (simp add: polled_def)

lemma ends_loop:
  assumes "0 < d" "\<And>v. ends (body v)"
    "\<And>v s. wp (body v) (polled d deadline (slept (lm_history s))) (\<lambda>_ _. True) s"
  shows "ends (loop body v)"
proof -
  let ?left = "\<lambda>s. nat \<lceil>(deadline - slept (lm_history s)) / d\<rceil>"
  have "loop body v s \<noteq> None" for v s
  proof (induction "?left s" arbitrary: v s rule: less_induct)
    case less
    obtain r t where b: "body v s = Some (r, t)" using endsD [OF assms(2) [of v]] by blast
    show ?case
    proof (cases "\<exists>u. r = Inr (Inr u)")
      case True
      then obtain u where u: "r = Inr (Inr u)" by blast
      have now: "slept (lm_history s) < deadline" "slept (lm_history t) = slept (lm_history s) + d"
        using wpD [OF assms(3) b] u by (simp_all add: polled_def)
      let ?x = "(deadline - slept (lm_history s)) / d"
      have "?x > 0" using now(1) assms(1) by simp
      moreover have "(deadline - slept (lm_history t)) / d = ?x - 1" using now(2) assms(1) by (simp add: field_simps)
      ultimately have "?left t < ?left s" by linarith
      then show ?thesis using less b u by (subst loop.simps) simp
    next
      case False
      then show ?thesis using b by (subst loop.simps) (auto split: sum.split)
    qed
  qed
  then show ?thesis by (simp add: ends_def)
qed

section \<open>The procedures end\<close>

lemma ends_calls [ends_rules]:
  "ends (is_running w i)" "ends (current_identity w p)" "ends (process_group_alive w i)" "ends (run_command w argv)"
  "ends (spawn w role argv)" "ends (signal_process_group w i)" "ends (clock w)" "ends (sleep w d)"
  "ends (checkpoint_stat w)" "ends (stable_checkpoint_identity w)" "ends (gpu_probe w)"
  unfolding is_running_def current_identity_def process_group_alive_def run_command_def spawn_def signal_process_group_def
    clock_def sleep_def checkpoint_stat_def stable_checkpoint_identity_def gpu_probe_def
  by (intro ends_rules)+

lemma ends_records [ends_rules]:
  "ends (emit w name)" "ends (save_record w cfg r)" "ends (load_record w)" "ends (replace_record w cfg f r)"
  "ends (set_lease_halt w cfg r reason)" "ends (expand_command w cfg tmpl x i k)"
  unfolding emit_def load_record_def set_lease_halt_def replace_record_def save_record_def expand_command_def
  by (intro ends_rules)+

lemma ends_identity [ends_rules]: "ends (require_identity_alive w i role)" "ends (identity_reused w i)" "ends (group_gone w i)"
  unfolding require_identity_alive_def identity_reused_def group_gone_def by (intro ends_rules)+

lemma timely_poll: "timely w cfg \<Longrightarrow> \<exists>d > 0. rc_poll_interval_seconds cfg = Fin d"
  by (cases "rc_poll_interval_seconds cfg") (auto simp: timely_def finite_durations_def)

lemma timely_before: "timely w cfg \<Longrightarrow> \<not> deadline \<le> w_clock w h \<Longrightarrow> slept h < deadline"
  unfolding timely_def by (meson le_less_trans not_le)

lemma ends_poll [ends_rules]: "ends (poll_again w cfg d e v)"
  unfolding poll_again_def by (intro ends_rules)

lemma wp_poll_slept:
  assumes "timely w cfg" "rc_poll_interval_seconds cfg = Fin d" "slept (lm_history s) = x"
  shows "wp (poll_again w cfg (Fin deadline) e v) (polled d deadline x) (\<lambda>_ _. True) s"
  using assms(2,3) timely_before [OF assms(1), of deadline "lm_history s"] by (auto simp: wp_poll Let_def polled_def split: sum.split)

lemmas wp_quiet = wp_andThen wp_give wp_calls wp_attempt

lemma ends_wait_for_exit:
  assumes "timely w cfg" "isfinite timeout"
  shows "ends (wait_for_exit w cfg i timeout code)"
proof -
  obtain d where d: "0 < d" "rc_poll_interval_seconds cfg = Fin d" using timely_poll [OF assms(1)] by blast
  have "ends (loop (\<lambda>_. andThen (identity_reused w i) (\<lambda>reused. if reused then give (Inl ())
      else andThen (group_gone w i) (\<lambda>gone. if gone then give (Inl ()) else poll_again w cfg (clock_plus now timeout) e ()))) ())" for now e
  proof -
    obtain x where x: "clock_plus now timeout = Fin x" using isfinite_clock [OF assms(2)] by blast
    show ?thesis unfolding x
      by (intro ends_loop [OF d(1)] ends_rules)
        (auto simp: identity_reused_def group_gone_def wp_quiet split: option.split intro!: wp_poll_slept [OF assms(1) d(2)])
  qed
  then show ?thesis unfolding wait_for_exit_def Let_def by (intro ends_andThen ends_calls)
qed

lemma ends_wait_for_checkpoint [ends_rules]:
  assumes "timely w cfg"
  shows "ends (wait_for_checkpoint_identity w cfg before change)"
proof -
  obtain d where d: "0 < d" "rc_poll_interval_seconds cfg = Fin d" using timely_poll [OF assms] by blast
  have finite: "isfinite (rc_trainer_checkpoint_timeout_seconds cfg)" using assms by (simp add: timely_def finite_durations_def)
  show ?thesis
    unfolding wait_for_checkpoint_identity_def Let_def
    apply (rule ends_andThen [OF ends_calls(7)])
    subgoal for now
      using isfinite_clock [OF finite, of now] apply (elim exE)
      subgoal for x
        apply (simp only:)
        apply (rule ends_loop [where deadline = x, OF d(1)])
        subgoal by (intro ends_rules)
        subgoal for v s by (cases v) (simp add: wp_quiet wp_poll_slept [OF assms d(2)] split: option.split sum.split)
        done
      done
    done
qed

lemma ends_await_restored [ends_rules]:
  assumes "timely w cfg"
  shows "ends (await_restored w cfg i r)"
proof -
  obtain d where d: "0 < d" "rc_poll_interval_seconds cfg = Fin d" using timely_poll [OF assms] by blast
  have finite: "isfinite (rc_trainer_start_timeout_seconds cfg)" using assms by (simp add: timely_def finite_durations_def)
  have "ends (loop (\<lambda>_. andThen (is_running w i) (\<lambda>running. if running then give (Inl ())
      else poll_again w cfg (clock_plus now (rc_trainer_start_timeout_seconds cfg)) e ())) ())" for now e
  proof -
    obtain x where x: "clock_plus now (rc_trainer_start_timeout_seconds cfg) = Fin x" using isfinite_clock [OF finite] by blast
    show ?thesis unfolding x
      by (intro ends_loop [OF d(1)] ends_rules) (auto simp: wp_quiet intro!: wp_poll_slept [OF assms d(2)])
  qed
  then show ?thesis unfolding await_restored_def Let_def by (intro ends_rules)
qed

lemma ends_exit_waits [ends_rules]:
  assumes "timely w cfg"
  shows "ends (wait_for_exit w cfg i (rc_trainer_drain_timeout_seconds cfg) code)"
    "ends (wait_for_exit w cfg i (rc_evaluator_drain_timeout_seconds cfg) code)"
  using assms by (simp_all add: ends_wait_for_exit timely_def finite_durations_def)

lemma ends_drain [ends_rules]:
  "ends (request_trainer_drain w cfg i)" "ends (issue_trainer_drain w cfg i b)" "ends (require_recorded_handoff_checkpoint w r)"
  unfolding issue_trainer_drain_def request_trainer_drain_def require_recorded_handoff_checkpoint_def by (intro ends_rules)+

lemma ends_complete_drain [ends_rules]: "timely w cfg \<Longrightarrow> ends (complete_trainer_drain w cfg r b)"
  unfolding complete_trainer_drain_def await_trainer_exit_def record_handoff_def by (intro ends_rules)

lemma ends_clean [ends_rules]: "ends (clean_observations w cfg n seen)"
proof (induction n arbitrary: seen)
  case 0
  show ?case by (simp add: ends_rules)
next
  case (Suc n)
  show ?case unfolding clean_observations.simps by (intro ends_rules Suc)
qed

lemma ends_lists [ends_rules]: "ends (live_of w k is)" "ends (any_running w is)"
  by (induction "is" arbitrary: k) (auto intro!: ends_rules)

lemma ends_stop [ends_rules]: "ends (stop_evaluators w cfg r ls)" "timely w cfg \<Longrightarrow> ends (await_evaluators w cfg ls)"
  by (induction ls) (auto intro!: ends_rules)

lemma ends_drain_evaluators [ends_rules]: "timely w cfg \<Longrightarrow> ends (drain_evaluators w cfg r)"
  unfolding drain_evaluators_def by (intro ends_rules)

lemma ends_restore [ends_rules]: "timely w cfg \<Longrightarrow> ends (restore_trainer w cfg r)" "ends (require_clean_gpu w cfg)"
  unfolding restore_trainer_def require_clean_gpu_def by (intro ends_rules; assumption)+

lemma ends_reconcile_parts [ends_rules]:
  "ends (halted w cfg r reason acts)" "ends (alive_opt w x)" "ends (planned_reconcile_actions w r)"
  "timely w cfg \<Longrightarrow> ends (reconcile_restore w cfg r acts)"
  unfolding halted_def alive_opt_def planned_reconcile_actions_def reconcile_restore_def Let_def by (intro ends_rules; assumption)+

lemma ends_reconcile_evaluators [ends_rules]: "timely w cfg \<Longrightarrow> ends (reconcile_evaluators w cfg alive r acts)"
  unfolding reconcile_evaluators_def Let_def by (intro ends_rules)

lemma ends_reconcile_locked [ends_rules]: "timely w cfg \<Longrightarrow> ends (reconcile_locked w cfg r)"
  unfolding reconcile_locked_def by (intro ends_rules)

lemma ends_with_lock [ends_rules]: "ends m \<Longrightarrow> ends (with_lock w m)"
  unfolding with_lock_def by (intro ends_rules)

lemma ends_reconcile: "timely w cfg \<Longrightarrow> ends (reconcile w cfg mutate)"
  unfolding reconcile_def Let_def by (intro ends_rules)

lemma ends_release [ends_rules]: "timely w cfg \<Longrightarrow> ends (handoff_release w cfg r err)"
  unfolding handoff_release_def Let_def by (intro ends_rules)

lemma ends_cleanup [ends_rules]: "timely w cfg \<Longrightarrow> ends (handoff_cleanup w cfg trainer r)"
  unfolding handoff_cleanup_def Let_def by (intro ends_rules)

lemma ends_run_handoff [ends_rules]: "timely w cfg \<Longrightarrow> (\<And>r. ends (body r)) \<Longrightarrow> ends (run_handoff w cfg body trainer r)"
  unfolding run_handoff_def handoff_body_def by (intro ends_rules)

lemma ends_exclusive_handoff: "timely w cfg \<Longrightarrow> (\<And>r. ends (body r)) \<Longrightarrow> ends (exclusive_handoff w cfg body trainer)"
  unfolding exclusive_handoff_def by (intro ends_rules)

lemma ends_workers [ends_rules]: "ends (start_workers w cfg k n evs r)"
proof (induction n arbitrary: k evs r)
  case 0
  show ?case by (simp add: ends_rules)
next
  case (Suc n)
  show ?case unfolding start_workers.simps Let_def by (intro ends_rules Suc)
qed

lemma ends_evaluator_body: "timely w cfg \<Longrightarrow> (\<And>r. ends (body r)) \<Longrightarrow> ends (evaluator_body w cfg body r)"
  unfolding evaluator_body_def evaluator_try_def by (intro ends_rules)

lemma ends_halt_request: "ends (request_safety_halt w cfg reason)"
  unfolding request_safety_halt_def by (intro ends_rules)

section \<open>A loop without a deadline\<close>

text \<open>
  With a timeout of NaN or infinity the deadline is never reached: waiting for a process that keeps
  running does not end, as long as sleeping succeeds.
\<close>

lemma loop_goes_on:
  assumes "\<And>s. \<exists>t. body () s = Some (Inr (Inr ()), t)"
  shows "loop body () s = None"
proof -
  have "loop body v s = Some r \<Longrightarrow> (\<And>s. \<exists>t. body () s = Some (Inr (Inr ()), t)) \<Longrightarrow> False" for v :: unit and s r
  proof (induction rule: loop.raw_induct [rotated, consumes 1, case_names step])
    case (step f body v s r)
    obtain t where "body () s = Some (Inr (Inr ()), t)" using step.prems by blast
    then have "f body () t = Some r" using step.hyps by simp
    then show ?case using step.IH step.prems by blast
  qed
  then show ?thesis using assms by (metis not_None_eq)
qed

lemma unbounded_wait:
  assumes "timeout \<in> {NaN, PInf}" "\<And>h. w_is_running w h i" "\<And>h c. w_current_identity w h (pi_pid i) = Some c \<Longrightarrow> same_process_as i c" "\<And>h d. w_sleep w h d = Inr ()"
  shows "wait_for_exit w cfg i timeout code s = None"
proof -
  have "\<not> float_le (clock_plus now timeout) (Fin t)" for now t using assms(1) by auto
  then have "\<exists>t. andThen (identity_reused w i) (\<lambda>reused. if reused then give (Inl ())
      else andThen (group_gone w i) (\<lambda>gone. if gone then give (Inl ()) else poll_again w cfg (clock_plus now timeout) e ())) s
      = Some (Inr (Inr ()), t)" for now e s
    by (simp add: identity_reused_def group_gone_def poll_again_def current_identity_def is_running_def clock_def sleep_def
        andThen_def ask_def askE_def give_def Let_def assms(2-4) split: option.split)
  then show ?thesis unfolding wait_for_exit_def Let_def andThen_def [of "clock w"]
    by (simp add: clock_def ask_def Let_def) (rule loop_goes_on)
qed

end
