(* ===== verification/Lease_Props.thy ===== *)
theory Lease_Props
  imports Lease_Ends
begin

text \<open>
  The properties of the GPU lease: what precedes a restart of the trainer and the grant of a lease,
  where the state file is left, that a halted lease does nothing, and that every call ends; with a
  world of three processes on which they are evaluated.
\<close>

section \<open>Any sequence of calls\<close>

text \<open>
  The body of a \<open>with\<close> statement may make any calls but those of a nested handoff, which the lock
  refuses; a new process starts without an active record.
\<close>

inductive lease_reach :: "lease_world \<Rightarrow> runtime_config \<Rightarrow> lease_manager \<Rightarrow> bool" for w cfg where
  fresh: "lease_reach w cfg \<lparr>lm_history = [], lm_file = f, lm_active = None\<rparr>"
| handoff: "lease_reach w cfg s \<Longrightarrow> (\<And>r. adds harmless (body r)) \<Longrightarrow> exclusive_handoff w cfg body trainer s = Some (res, t) \<Longrightarrow> lease_reach w cfg t"
| evaluators: "lease_reach w cfg s \<Longrightarrow> (\<And>r. adds harmless (body r)) \<Longrightarrow> evaluator_lease w cfg body trainer s = Some (res, t) \<Longrightarrow> lease_reach w cfg t"
| reconciled: "lease_reach w cfg s \<Longrightarrow> reconcile w cfg mutate s = Some (rep, t) \<Longrightarrow> lease_reach w cfg t"
| halt_requested: "lease_reach w cfg s \<Longrightarrow> request_safety_halt w cfg reason s = Some (unit, t) \<Longrightarrow> lease_reach w cfg t"
| restarted: "lease_reach w cfg s \<Longrightarrow> lease_reach w cfg (s\<lparr>lm_active := None\<rparr>)"

lemma reach_guarded: "lease_reach w cfg s \<Longrightarrow> guarded_by cfg s"
proof (induction rule: lease_reach.induct)
  case (handoff s body trainer res t)
  show ?case by (rule keeps_run [OF exclusive_handoff_guarded [OF keeps_harmless [OF handoff.hyps(2)]] handoff.IH handoff.hyps(3)])
next
  case (evaluators s body trainer res t)
  show ?case
    by (rule keeps_run [OF exclusive_handoff_guarded [OF evaluator_body_guarded [OF evaluators.hyps(2)]] evaluators.IH
          evaluators.hyps(3) [unfolded evaluator_lease_def]])
next
  case (reconciled s mutate rep t)
  then show ?case using keeps_run [OF reconcile_guarded] by blast
next
  case (halt_requested s reason unit t)
  then show ?case using keeps_run [OF keeps_harmless [OF harmless_halt_request]] by blast
qed (simp_all add: guarded_by_def)

lemma guarded_split: "guarded cfg (later @ ev # earlier) \<Longrightarrow> guarded cfg (ev # earlier)"
  by (induction later) auto

section \<open>Reports of a reconciliation\<close>

lemma written_result: "wp (andThen (replace_record w cfg f r) (\<lambda>u. andThen (emit w name) (\<lambda>_. give u)))
    (\<lambda>u t. lm_file t = Some u) (\<lambda>_ _. True) s"
  by (simp add: wp_andThen wp_replace wp_emit wp_give Let_def split: sum.split)

lemma halted_result: "wp (halted w cfg r reason as) (\<lambda>x t. lm_file t = Some (snd x)) (\<lambda>_ _. True) s"
  unfolding halted_def set_lease_halt_def
  by (simp add: wp_andThen wp_replace wp_emit wp_give Let_def split: sum.split)

lemma restore_result: "wp (restore_trainer w cfg r) (\<lambda>u t. lm_file t = Some u) (\<lambda>_ _. True) s"
  unfolding restore_trainer_def await_restored_def Let_def
  by (intro wp_last written_result)

lemma reconcile_restore_result:
  "wp (reconcile_restore w cfg r as) (\<lambda>x t. lm_file t = Some (snd x)) (\<lambda>_ _. True) s"
proof -
  have last: "wp (andThen (attempt (andThen (require_recorded_handoff_checkpoint w u) (\<lambda>_. restore_trainer w cfg u)))
      (\<lambda>v. case v of Inl e \<Rightarrow> halted w cfg u (reason e) bs | Inr r \<Rightarrow> give (cs, r))) (\<lambda>x t. lm_file t = Some (snd x)) (\<lambda>_ _. True) t"
    for u reason bs cs t
    unfolding wp_try
    by (rule wp_mono [OF wp_last [OF restore_result]]) (simp_all add: wp_give halted_result)
  show ?thesis unfolding reconcile_restore_def Let_def
    by (rule wp_always_try) (rule last, rule halted_result)
qed

lemma reconcile_evaluators_result:
  "wp (reconcile_evaluators w cfg alive r as) (\<lambda>x t. lm_file t = Some (snd x)) (\<lambda>_ _. True) s"
  unfolding reconcile_evaluators_def Let_def
  by (intro wp_if wp_last wp_always_try halted_result reconcile_restore_result)

lemma reconcile_locked_result:
  assumes "lm_file s = Some r"
  shows "wp (reconcile_locked w cfg r) (\<lambda>x t. lm_file t = Some (snd x)) (\<lambda>_ _. True) s"
proof -
  note last = halted_result reconcile_evaluators_result
  have written: "wp (andThen (replace_record w cfg f r) (\<lambda>u. give (as, u))) (\<lambda>x t. lm_file t = Some (snd x)) (\<lambda>_ _. True) t" for f as t
    by (simp add: wp_andThen wp_replace wp_give Let_def split: sum.split)
  have start: "file_after (Some r) [] (s\<lparr>lm_active := Some r\<rparr>)" using assms by (simp add: file_after_def)
  have seen: "wp (andThen (alive_opt w x) f) Q (\<lambda>_ _. True) t"
    if "file_after (Some r) [] t" "\<And>b u. file_after (Some r) [] u \<Longrightarrow> wp (f b) Q (\<lambda>_ _. True) u" for x f Q t
    unfolding wp_andThen by (rule wp_mono [OF keepsD [OF same_file.keeps_alive that(1)]]) (use that(2) in auto)
  have live: "wp (andThen (live_of w k is) f) Q (\<lambda>_ _. True) t"
    if "file_after (Some r) [] t" "\<And>b u. file_after (Some r) [] u \<Longrightarrow> wp (f b) Q (\<lambda>_ _. True) u" for k "is" f Q t
    unfolding wp_andThen by (rule wp_mono [OF live_seen [OF that(1)]]) (use that(2) in auto)
  show ?thesis unfolding reconcile_locked_def wp_andThen [of "set_active r"] wp_set_active
    by (intro wp_if last seen [OF start] seen live wp_always_try written)
      (use assms in \<open>simp_all add: wp_give file_after_def\<close>)
qed

lemma with_lock_value:
  assumes "\<And>t. lm_file t = lm_file s \<Longrightarrow> wp m Q (\<lambda>_ _. True) t" "\<And>x t ev. Q x t \<Longrightarrow> Q x (t\<lparr>lm_history := ev # lm_history t\<rparr>)"
  shows "wp (with_lock w m) Q (\<lambda>_ _. True) s"
proof -
  have held: "wp (andThen (attempt m) (\<lambda>r. andThen (ask (\<lambda>_. ()) (\<lambda>_. Unlocked)) (\<lambda>_. lift_result r))) Q (\<lambda>_ _. True) t"
    if "lm_file t = lm_file s" for t
    unfolding wp_andThen [of "attempt m"] wp_attempt
    by (rule wp_mono [OF assms(1) [OF that]]) (auto simp: wp_simps assms(2))
  show ?thesis unfolding with_lock_def
    by (simp add: wp_andThen [of "askE a b" for a b] wp_askE held split: sum.split)
qed

lemma load_value:
  assumes "\<And>t. lm_file t = lm_file s \<Longrightarrow> wp (g (lm_file s)) Q (\<lambda>_ _. True) t"
  shows "wp (andThen (load_record w) g) Q (\<lambda>_ _. True) s"
  by (simp add: load_record_def wp_andThen wp_askE wp_file assms split: sum.split)

text \<open>The report describes the record in the file.\<close>

definition reports_file :: "reconcile_report \<Rightarrow> lease_manager \<Rightarrow> bool" where
  "reports_file rep t = (case lm_file t of None \<Rightarrow> False
     | Some u \<Rightarrow> rr_safety_halt rep = lr_safety_halt u \<and> rr_current_phase rep = Some (lr_phase u))"

lemma reports_extend: "reports_file rep t \<Longrightarrow> reports_file rep (t\<lparr>lm_history := ev # lm_history t\<rparr>)"
  by (simp add: reports_file_def)

lemma reconcile_value:
  assumes "lm_file s = Some r" "mutate = Some True \<or> mutate = None \<and> rc_mutation_enabled cfg"
  shows "wp (reconcile w cfg mutate) (\<lambda>rep t. lease_settled t \<and> reports_file rep t) (\<lambda>_ _. True) s"
proof -
  let ?Q = "\<lambda>rep t. lease_settled t \<and> reports_file rep t"
  have on: "(case mutate of None \<Rightarrow> rc_mutation_enabled cfg | Some m \<Rightarrow> m) = True"
    using assms(2) by auto
  have locked: "wp (andThen (reconcile_locked w cfg u) (\<lambda>(as, c). give \<lparr>rr_previous_phase = p, rr_current_phase = Some (lr_phase c),
      rr_actions = as, rr_mutation_performed = as \<noteq> [], rr_safety_halt = lr_safety_halt c\<rparr>)) ?Q (\<lambda>_ _. True) t" if "lm_file t = Some u" for u p t
    unfolding wp_andThen
    by (rule wp_mono [OF wp_both [OF reconcile_locked_settles [OF raises_anyhow that] reconcile_locked_result [OF that]]])
      (auto simp: wp_give reports_file_def)
  have inner: "wp (with_lock w (andThen (load_record w) (\<lambda>rec. case rec of None \<Rightarrow> give e
      | Some u \<Rightarrow> andThen (reconcile_locked w cfg u) (\<lambda>(as, c). give \<lparr>rr_previous_phase = Some (lr_phase u), rr_current_phase = Some (lr_phase c),
      rr_actions = as, rr_mutation_performed = as \<noteq> [], rr_safety_halt = lr_safety_halt c\<rparr>)))) ?Q (\<lambda>_ _. True) t"
    if "lm_file t = Some r" for t e
    by (rule with_lock_value, rule load_value) (auto simp: that settled_inv.extend reports_extend intro!: locked)
  show ?thesis unfolding reconcile_def Let_def on
    by (rule load_value) (simp add: assms(1) inner wp_andThen [of "require b e" for b e] require_mutation_def wp_require)
qed

section \<open>A halted lease\<close>

fun lock_event :: "lease_event \<Rightarrow> bool" where
  "lock_event (Locked _) = True"
| "lock_event (Loaded _) = True"
| "lock_event Unlocked = True"
| "lock_event _ = False"

lemma halted_handoff:
  assumes "lm_file s = Some r" "lr_safety_halt r"
  shows "\<exists>e t new. exclusive_handoff w cfg body trainer s = Some (Inl e, t) \<and> lm_file t = Some r \<and> lm_active t = lm_active s
    \<and> lm_history t = new @ lm_history s \<and> list_all lock_event new"
  using assms
  by (auto simp: exclusive_handoff_def with_lock_def load_record_def require_mutation_def require_def andThen_def attempt_def
      askE_def ask_def give_def throw_def lift_result_def Let_def split: sum.split)

section \<open>A small world\<close>

text \<open>
  A process runs until it is signalled, and process 11 never does; a launch command starts process 20 or 30;
  the clock counts what was slept; the disk never fails unless \<open>broken\<close> names the announcement that does.
\<close>

definition sample_process :: "int \<Rightarrow> process_identity" where
  "sample_process p = \<lparr>pi_pid = p, pi_start_time_ticks = Some p, pi_process_group_id = Some p, pi_boot_id = None,
     pi_command_sha256 = None, pi_cgroup = None\<rparr>"

definition sample_alive :: "lease_history \<Rightarrow> process_identity \<Rightarrow> bool" where
  "sample_alive h i \<longleftrightarrow> pi_pid i \<noteq> 11 \<and> \<not> list_ex (\<lambda>ev. case ev of Signalled j _ \<Rightarrow> pi_pid j = pi_pid i | _ \<Rightarrow> False) h"

definition sample_checkpoint :: checkpoint_identity where
  "sample_checkpoint = \<lparr>ck_device = 1, ck_inode = 2, ck_size = 3, ck_mtime_ns = 4, ck_sha256 = ''c''\<rparr>"

definition sample_world :: "string \<Rightarrow> lease_world" where
  "sample_world broken = \<lparr>w_is_running = sample_alive,
     w_current_identity = (\<lambda>h p. if sample_alive h (sample_process p) then Some (sample_process p) else None),
     w_process_group_alive = sample_alive, w_run = (\<lambda>_ _. Inr 0),
     w_spawn = (\<lambda>_ argv. Inr (sample_process (if argv = [''train''] then 20 else 30))), w_signal = (\<lambda>_ _. Inr ()),
     w_clock = slept, w_sleep = (\<lambda>_ _. Inr ()), w_checkpoint_stat = (\<lambda>_. Inr (Some (3, 4))), w_checkpoint_identity = (\<lambda>_. Inr (Some sample_checkpoint)),
     w_gpu_probe = (\<lambda>_. Inr \<lparr>go_gpu_uuid = ''g'', go_processes = []\<rparr>), w_lease_id = (\<lambda>_. ''lease''),
     w_write = (\<lambda>_ _. Inr ()), w_read = (\<lambda>_. Inr ()),
     w_emit = (\<lambda>_ name. if name = broken then Inl (OtherError ''disk full'') else Inr ()), w_lock = (\<lambda>_. Inr ()),
     w_format = (\<lambda>part _. Inr part)\<rparr>"

definition sample_config :: runtime_config where
  "sample_config = \<lparr>rc_mutation_enabled = True, rc_run_root = ''/run'', rc_promotion_root = ''/run/p'',
     rc_lease_state_path = ''/run/p/lease'', rc_event_log_path = ''/run/p/log'', rc_expected_gpu_uuid = ''g'', rc_gpu_index = 0,
     rc_gpu_inventory_command = [''list''], rc_gpu_process_query_command = [''query''], rc_clean_observations = 2,
     rc_clean_observation_interval_seconds = Fin 1, rc_poll_interval_seconds = Fin 1, rc_trainer_launch_command = [''train''],
     rc_trainer_graceful_command = [], rc_trainer_checkpoint_path = ''/run/c'', rc_trainer_drain_timeout_seconds = Fin 5,
     rc_trainer_checkpoint_timeout_seconds = Fin 5, rc_trainer_checkpoint_stable_seconds = Fin 1, rc_require_checkpoint_change = False,
     rc_trainer_start_timeout_seconds = Fin 5, rc_evaluator_launch_command = [''eval''], rc_evaluator_drain_command = [],
     rc_evaluator_process_count = 1, rc_evaluator_drain_timeout_seconds = Fin 5, rc_owner_id = ''o''\<rparr>"

definition sample_start :: "lease_record option \<Rightarrow> lease_manager" where
  "sample_start f = \<lparr>lm_history = [], lm_file = f, lm_active = None\<rparr>"

definition idle_body :: "lease_record \<Rightarrow> unit action" where
  "idle_body _ = give ()"

definition sample_drained :: "int \<Rightarrow> lease_record" where
  "sample_drained p = \<lparr>lr_lease_id = ''lease'', lr_owner_id = ''o'', lr_phase = ''trainer_drained'', lr_expected_gpu_uuid = ''g'',
     lr_trainer = Some (sample_process p), lr_evaluators = [], lr_checkpoint_sha256 = Some ''c'', lr_checkpoint_size = Some 3,
     lr_safety_halt = False, lr_safety_reason = None, lr_created_at = Fin 0, lr_updated_at = Fin 0,
     lr_pre_drain_checkpoint = Some sample_checkpoint, lr_handoff_checkpoint = Some sample_checkpoint,
     lr_lease_clean_observation_times = [], lr_release_clean_observation_times = [], lr_restoration_status = ''pending'',
     lr_restored_trainer = None\<rparr>"

lemma sample_timely: "timely (sample_world broken) sample_config"
  by (simp add: timely_def finite_durations_def sample_world_def sample_config_def)

lemma idle_contract: "keeps halt_recorded (idle_body r)" "adds harmless (idle_body r)" "ends (idle_body r)"
  by (simp_all add: idle_body_def [abs_def] keeps_give adds_give ends_basic)

lemma sample_argv: "reject_sigstop [''train''] name = Inr ()"
proof -
  have "py_lower (py_strip ''train'') = ''train''" by code_simp
  then show ?thesis by (simp add: reject_sigstop_def)
qed

lemma sample_format: "py_format vals ''train'' = Inr ''train''"
  by (simp add: bindE_def)

lemmas lease_eval = give_def throw_def andThen_def attempt_def ask_def askE_def require_def get_active_def set_active_def set_file_def
  is_running_def current_identity_def process_group_alive_def spawn_def clock_def sleep_def stable_checkpoint_identity_def gpu_probe_def
  emit_def load_record_def set_lease_halt_def replace_record_def save_record_def expand_command_def require_mutation_def lift_result_def
  require_recorded_handoff_checkpoint_def restore_trainer_def await_restored_def require_clean_gpu_def with_lock_def
  reconcile_def reconcile_locked_def planned_reconcile_actions_def alive_opt_def halted_def reconcile_evaluators_def reconcile_restore_def
  loop.simps Let_def bindE_def validate_argv_def sample_argv sample_format numeral_2_eq_2
  sample_start_def sample_config_def sample_world_def sample_process_def sample_alive_def sample_checkpoint_def sample_drained_def

lemmas handoff_eval = evaluator_lease_def exclusive_handoff_def wait_for_checkpoint_identity_def checkpoint_stat_def poll_again_def
  require_identity_alive_def is_verifiable_def same_process_as_def field_agrees_def run_handoff_def handoff_record_def

text \<open>A lease found drained is finished: the trainer is started once and its record written.\<close>

lemma sample_reconcile:
  "\<exists>rep t. reconcile (sample_world []) sample_config None (sample_start (Some (sample_drained 11))) = Some (Inr rep, t)
     \<and> Spawned TrainerRole [''train''] (Inr (sample_process 20)) \<in> set (lm_history t)
     \<and> map_option lr_trainer (lm_file t) = Some (Some (sample_process 20))"
  by (simp add: lease_eval)

text \<open>
  Where the code falls short of its intent. When the start of the trainer fails after the process was
  created, the halt is written from the record before the start, and the file no longer names the
  process that runs; and a dry run plans nothing where the reconciliation would halt, because it leaves
  out the check for a trainer that is unexpectedly alive.
\<close>

theorem halt_forgets_started_trainer:
  "\<exists>rep t. reconcile (sample_world ''trainer_restored'') sample_config None (sample_start (Some (sample_drained 11))) = Some (Inr rep, t)
     \<and> Spawned TrainerRole [''train''] (Inr (sample_process 20)) \<in> set (lm_history t)
     \<and> sample_alive (lm_history t) (sample_process 20)
     \<and> map_option (\<lambda>r. (lr_safety_halt r, lr_trainer r, lr_restored_trainer r)) (lm_file t) = Some (True, Some (sample_process 11), None)"
  by (simp add: lease_eval)

theorem dry_run_misses_halt:
  "map_option fst (planned_reconcile_actions (sample_world []) (sample_drained 10) (sample_start None)) = Some (Inr [])
   \<and> map_option (\<lambda>x. case fst x of Inl _ \<Rightarrow> [] | Inr (acts, _) \<Rightarrow> acts)
       (reconcile_locked (sample_world []) sample_config (sample_drained 10) (sample_start None)) = Some [''safety_halt_unexpected_trainer'']"
  by (simp add: lease_eval)

text \<open>
  The announcement of the drain comes before the cleanup is armed: when it fails, the call raises and
  the file stays in the phase of draining.
\<close>

theorem failed_announcement_leaves_drain:
  "\<exists>e t. evaluator_lease (sample_world ''trainer_drain_started'') sample_config idle_body (Some (sample_process 10)) (sample_start None) = Some (Inl e, t)
     \<and> map_option (\<lambda>r. (lr_phase r, lr_safety_halt r)) (lm_file t) = Some (''draining_trainer'', False)"
  by (simp add: lease_eval handoff_eval)

text \<open>A timeout of NaN passes the check of the configuration; the wait for a process that stays alive then never ends.\<close>

definition stubborn_world :: lease_world where
  "stubborn_world = (sample_world [])\<lparr>w_is_running := (\<lambda>_ _. True), w_current_identity := (\<lambda>_ p. Some (sample_process p))\<rparr>"

definition nan_config :: runtime_config where
  "nan_config = sample_config\<lparr>rc_trainer_drain_timeout_seconds := NaN\<rparr>"

theorem nan_timeout_waits_for_ever:
  "check_config nan_config = Inr ()
   \<and> await_trainer_exit stubborn_world nan_config (sample_process 10) (sample_start None) = None"
proof -
  have same: "same_process_as (sample_process 10) (sample_process 10)" "pi_pid (sample_process 10) = 10"
    by (simp_all add: sample_process_def same_process_as_def field_agrees_def)
  have "wait_for_exit stubborn_world nan_config (sample_process 10) NaN code s = None" for code s
    by (rule unbounded_wait) (use same in \<open>auto simp: stubborn_world_def sample_world_def\<close>)
  moreover have running: "w_is_running stubborn_world h i" and drain: "rc_trainer_drain_timeout_seconds nan_config = NaN" for h i
    by (simp_all add: stubborn_world_def nan_config_def)
  ultimately have "await_trainer_exit stubborn_world nan_config (sample_process 10) (sample_start None) = None"
    by (simp add: await_trainer_exit_def identity_reused_def current_identity_def is_running_def running drain
        andThen_def ask_def give_def Let_def)
  moreover have "check_config nan_config = Inr ()" by code_simp
  ultimately show ?thesis by blast
qed

section \<open>Properties\<close>

text \<open>
  C8. In any sequence of handoffs, evaluator leases, reconciliations, halt requests and restarts of the
  controller, the trainer is started only when the configured number of clean observations of the GPU
  was made, then the checkpoint was twice found equal to the one recorded at the handoff, and the
  record that announces the start, unhalted and without evaluators, was the last one written; and a
  lease is granted only when the trainer was seen gone since its drain began, its checkpoint was then
  seen complete and recorded, and the GPU was seen clean after that.
\<close>

theorem starts_and_grants_guarded:
  assumes "lease_reach w cfg s" "lm_history s = later @ ev # earlier"
  shows "case ev of Spawned TrainerRole _ _ \<Rightarrow> restart_ready cfg earlier | Granted r \<Rightarrow> grant_ready cfg earlier r | _ \<Rightarrow> True"
proof -
  have "guarded cfg (ev # earlier)"
    using reach_guarded [OF assms(1)] assms(2) guarded_split by (auto simp: guarded_by_def)
  then show ?thesis by (auto split: lease_event.splits spawn_role.splits)
qed

theorem starts_and_grants_guarded_witness:
  "\<exists>s later earlier. lease_reach (sample_world []) sample_config s
     \<and> lm_history s = later @ Spawned TrainerRole [''train''] (Inr (sample_process 20)) # earlier \<and> restart_ready sample_config earlier"
proof -
  obtain rep t where run: "reconcile (sample_world []) sample_config None (sample_start (Some (sample_drained 11))) = Some (Inr rep, t)"
    and spawned: "Spawned TrainerRole [''train''] (Inr (sample_process 20)) \<in> set (lm_history t)" using sample_reconcile by blast
  have reach: "lease_reach (sample_world []) sample_config t"
    by (rule lease_reach.reconciled [OF _ run]) (unfold sample_start_def, rule lease_reach.fresh)
  obtain later earlier where split: "lm_history t = later @ Spawned TrainerRole [''train''] (Inr (sample_process 20)) # earlier"
    using split_list [OF spawned] by blast
  show ?thesis using starts_and_grants_guarded [OF reach split] reach split by auto
qed

text \<open>
  C9. However an evaluator lease ends, by return or by any exception of the commands, probes, processes,
  writes, announcements or of its body, one of three holds: the state file is the one found at the
  start; or its record is settled, that is, it carries a safety halt, or says that the trainer runs
  and names a process that was seen alive; or the disk failed during this call, in a write of the
  state file or in the announcement of the drain. Asked of the body is only that it leaves a halt
  of the active record in the file unless a write of its own fails, as a request for a safety halt does.
\<close>

theorem evaluator_lease_outcome:
  assumes "\<forall>r. careful (body r)" "evaluator_lease w cfg body trainer s = Some (res, t)"
  shows "\<exists>new. lm_history t = new @ lm_history s \<and> (lm_file t = lm_file s \<or> lease_settled t \<or> list_ex fault new)"
  using evaluator_lease_ends_settled assms by blast

theorem evaluator_lease_outcome_witness:
  "\<exists>res t new. evaluator_lease (sample_world []) sample_config (\<lambda>_. request_safety_halt (sample_world []) sample_config ''stop'')
       (Some (sample_process 10)) (sample_start None) = Some (res, t)
     \<and> lm_history t = new \<and> (lm_file t = None \<or> lease_settled t \<or> list_ex fault new)"
proof -
  let ?body = "\<lambda>_ :: lease_record. request_safety_halt (sample_world []) sample_config ''stop''"
  have "ends (evaluator_lease (sample_world []) sample_config ?body (Some (sample_process 10)))"
    unfolding evaluator_lease_def
    by (rule ends_exclusive_handoff [OF sample_timely]) (rule ends_evaluator_body [OF sample_timely], rule ends_halt_request)
  then obtain res t where run: "evaluator_lease (sample_world []) sample_config ?body (Some (sample_process 10)) (sample_start None) = Some (res, t)"
    using endsD by blast
  have "\<exists>new. lm_history t = new @ lm_history (sample_start None) \<and> (lm_file t = lm_file (sample_start None) \<or> lease_settled t \<or> list_ex fault new)"
    by (rule evaluator_lease_outcome [OF _ run]) (simp add: careful_halt_request)
  then show ?thesis using run by (simp add: sample_start_def)
qed

text \<open>
  C14. Reconciliation finishes whatever an interrupted handoff left: a mutating call that returns a
  report on an existing record, in any phase and with any processes alive, and whatever writes
  failed on the way, leaves the file settled, and the report gives phase and halt of the record in
  the file.
\<close>

theorem reconcile_settles:
  assumes "lm_file s = Some r" "mutate = Some True \<or> mutate = None \<and> rc_mutation_enabled cfg" "reconcile w cfg mutate s = Some (Inr rep, t)"
  shows "lease_settled t \<and> reports_file rep t"
  using wpD [OF reconcile_value [OF assms(1,2)] assms(3)] by simp

theorem reconcile_settles_witness:
  "\<exists>rep t. reconcile (sample_world []) sample_config None (sample_start (Some (sample_drained 11))) = Some (Inr rep, t) \<and> lease_settled t \<and> reports_file rep t"
proof -
  obtain rep t where run: "reconcile (sample_world []) sample_config None (sample_start (Some (sample_drained 11))) = Some (Inr rep, t)"
    using sample_reconcile by blast
  have "lease_settled t \<and> reports_file rep t"
    by (rule reconcile_settles [OF _ _ run]) (simp_all add: sample_start_def sample_config_def)
  then show ?thesis using run by blast
qed

text \<open>
  C17. On a halted record a handoff raises and does nothing else than take the lock, read the file and
  release the lock: no process is signalled or started, no probe made, nothing written.
\<close>

theorem halted_lease_refuses:
  assumes "lm_file s = Some r" "lr_safety_halt r"
  shows "\<exists>e t new. evaluator_lease w cfg body trainer s = Some (Inl e, t) \<and> lm_file t = Some r \<and> lm_active t = lm_active s
    \<and> lm_history t = new @ lm_history s \<and> list_all lock_event new"
  unfolding evaluator_lease_def by (rule halted_handoff [OF assms])

theorem halted_lease_refuses_witness:
  "\<exists>e t new. evaluator_lease (sample_world []) sample_config idle_body None (sample_start (Some ((sample_drained 10)\<lparr>lr_safety_halt := True\<rparr>))) = Some (Inl e, t)
    \<and> lm_file t = Some ((sample_drained 10)\<lparr>lr_safety_halt := True\<rparr>) \<and> lm_history t = new \<and> list_all lock_event new"
  using halted_lease_refuses [of "sample_start (Some ((sample_drained 10)\<lparr>lr_safety_halt := True\<rparr>))" "(sample_drained 10)\<lparr>lr_safety_halt := True\<rparr>"
      "sample_world []" sample_config idle_body None]
  by (auto simp: sample_start_def)

text \<open>
  C15. Evaluator leases and reconciliations always return or raise, provided the poll interval and the
  timeouts are finite numbers and the body of the lease ends: with a clock that shows at least the
  time slept and a poll interval that the configuration check accepts, every loop reaches its
  deadline. The check itself accepts a timeout of NaN or infinity.
\<close>

theorem lease_calls_end:
  assumes "\<forall>h. slept h \<le> w_clock w h" "check_config cfg = Inr ()" "finite_durations cfg" "\<forall>r. ends (body r)"
  shows "evaluator_lease w cfg body trainer s \<noteq> None \<and> reconcile w cfg mutate s \<noteq> None"
proof -
  have "\<not> float_le (rc_poll_interval_seconds cfg) (Fin 0)"
    using assms(2) by (auto simp: check_config_def Let_def split: if_splits)
  then have t: "timely w cfg" using assms(1,3) by (simp add: timely_def)
  have "ends (evaluator_lease w cfg body trainer)"
    unfolding evaluator_lease_def by (intro ends_exclusive_handoff ends_evaluator_body t) (use assms(4) in blast)
  then show ?thesis using ends_reconcile [OF t] by (simp add: ends_def)
qed

lemma sample_config_ok: "check_config sample_config = Inr ()"
  by code_simp

theorem lease_calls_end_witness:
  "evaluator_lease (sample_world []) sample_config idle_body None (sample_start None) \<noteq> None
   \<and> reconcile (sample_world []) sample_config None (sample_start None) \<noteq> None"
  by (rule lease_calls_end)
    (simp_all add: sample_config_ok idle_contract, simp_all add: sample_world_def sample_config_def finite_durations_def)

end
