(* ===== verification/Lease_Codec.thy ===== *)
theory Lease_Codec
  imports Lease_Props Scheduler_Codec
begin

text \<open>
  The durable form of the lease record: \<open>to_dict\<close> and \<open>from_dict\<close> of process identities, checkpoint
  identities and the record, and reading the state file. An object is listed in the order in which
  canonical JSON writes its keys. Python's \<open>str()\<close> of floats, lists and objects is the parameter \<open>text\<close>.
\<close>

section \<open>Reading values\<close>

text \<open>\<open>value[key]\<close> and \<open>value.get(key)\<close> on an object that \<open>json.loads\<close> made: the last entry of a key counts.\<close>

definition lget :: "jobj \<Rightarrow> string \<Rightarrow> json option" where
  "lget d k = map_of (rev d) k"

definition lkey :: "jobj \<Rightarrow> string \<Rightarrow> lease_exn + json" where
  "lkey d k = (case lget d k of None \<Rightarrow> Inl (OtherError ([CHR 0x27] @ k @ [CHR 0x27])) | Some v \<Rightarrow> Inr v)"

definition lget_or :: "jobj \<Rightarrow> string \<Rightarrow> json \<Rightarrow> json" where
  "lget_or d k v = (case lget d k of None \<Rightarrow> v | Some x \<Rightarrow> x)"

definition int_of_text :: "string \<Rightarrow> int option" where
  "int_of_text s = (let (sg, ds) = sign_of (py_strip s) in map_option (\<lambda>n. sg * int n) (digit_part ds))"

text \<open>\<open>int(v)\<close>: a float is cut towards zero; \<open>None\<close>, lists and objects raise.\<close>

fun py_int :: "json \<Rightarrow> lease_exn + int" where
  "py_int (JInt i) = Inr i"
| "py_int (JBool b) = Inr (if b then 1 else 0)"
| "py_int (JFloat (Fin x)) = Inr (if x < 0 then - \<lfloor>- x\<rfloor> else \<lfloor>x\<rfloor>)"
| "py_int (JStr s) = (case int_of_text s of None \<Rightarrow> Inl (OtherError ''invalid literal for int'') | Some i \<Rightarrow> Inr i)"
| "py_int _ = Inl (OtherError ''int() argument'')"

fun py_str :: "(json \<Rightarrow> string) \<Rightarrow> json \<Rightarrow> string" where
  "py_str text (JStr s) = s"
| "py_str text (JInt i) = int_str i"
| "py_str text (JBool b) = (if b then ''True'' else ''False'')"
| "py_str text JNull = ''None''"
| "py_str text v = text v"

fun py_float :: "json \<Rightarrow> lease_exn + pyfloat" where
  "py_float (JFloat x) = Inr x"
| "py_float (JInt i) = Inr (Fin (of_int i))"
| "py_float (JBool b) = Inr (Fin (if b then 1 else 0))"
| "py_float (JStr s) = (case float_of_string s of None \<Rightarrow> Inl (OtherError ''could not convert string to float'') | Some x \<Rightarrow> Inr x)"
| "py_float _ = Inl (OtherError ''float() argument'')"

fun py_truth :: "json \<Rightarrow> bool" where
  "py_truth JNull = False"
| "py_truth (JBool b) = b"
| "py_truth (JInt i) = (i \<noteq> 0)"
| "py_truth (JFloat x) = (x \<noteq> Fin 0)"
| "py_truth (JStr s) = (s \<noteq> [])"
| "py_truth (JList xs) = (xs \<noteq> [])"
| "py_truth (JObj d) = (d \<noteq> [])"

fun optional_int :: "json \<Rightarrow> lease_exn + int option" where
  "optional_int JNull = Inr None"
| "optional_int v = bindE (py_int v) (\<lambda>i. Inr (Some i))"

fun optional_str :: "(json \<Rightarrow> string) \<Rightarrow> json \<Rightarrow> string option" where
  "optional_str text JNull = None"
| "optional_str text v = Some (py_str text v)"

fun is_number :: "json \<Rightarrow> bool" where
  "is_number (JInt _) = True"
| "is_number (JFloat _) = True"
| "is_number _ = False"

definition lease_invalid :: "string \<Rightarrow> lease_exn" where
  "lease_invalid message = GpuLeaseError ''invalid_lease_state'' message"

definition float_tuple :: "json \<Rightarrow> lease_exn + pyfloat list" where
  "float_tuple v = (case v of
     JList xs \<Rightarrow> if \<not> list_all is_number xs then Inl (lease_invalid ''Observation times must be numeric arrays'')
       else bindE (mapE py_float xs) (\<lambda>ts.
         if list_ex float_negative ts then Inl (lease_invalid ''Observation times must not be negative'') else Inr ts)
   | _ \<Rightarrow> Inl (lease_invalid ''Observation times must be numeric arrays''))"

section \<open>Identities\<close>

definition jint_opt :: "int option \<Rightarrow> json" where
  "jint_opt x = (case x of None \<Rightarrow> JNull | Some i \<Rightarrow> JInt i)"

definition identity_to_dict :: "process_identity \<Rightarrow> jobj" where
  "identity_to_dict i = [(''bootId'', jopt (pi_boot_id i)), (''cgroup'', jopt (pi_cgroup i)),
     (''commandSha256'', jopt (pi_command_sha256 i)), (''pid'', JInt (pi_pid i)),
     (''processGroupId'', jint_opt (pi_process_group_id i)), (''startTimeTicks'', jint_opt (pi_start_time_ticks i))]"

definition identity_from_dict :: "(json \<Rightarrow> string) \<Rightarrow> jobj \<Rightarrow> lease_exn + process_identity" where
  "identity_from_dict text d =
    bindE (lkey d ''pid'') (\<lambda>p. bindE (py_int p) (\<lambda>pid.
    bindE (optional_int (lget_or d ''startTimeTicks'' JNull)) (\<lambda>start.
    bindE (optional_int (lget_or d ''processGroupId'' JNull)) (\<lambda>pgid.
    Inr \<lparr>pi_pid = pid, pi_start_time_ticks = start, pi_process_group_id = pgid,
      pi_boot_id = optional_str text (lget_or d ''bootId'' JNull),
      pi_command_sha256 = optional_str text (lget_or d ''commandSha256'' JNull),
      pi_cgroup = optional_str text (lget_or d ''cgroup'' JNull)\<rparr>))))"

definition checkpoint_to_dict :: "checkpoint_identity \<Rightarrow> jobj" where
  "checkpoint_to_dict c = [(''device'', JInt (ck_device c)), (''inode'', JInt (ck_inode c)), (''mtimeNs'', JInt (ck_mtime_ns c)),
     (''sha256'', JStr (ck_sha256 c)), (''size'', JInt (ck_size c))]"

definition checkpoint_from_dict :: "(json \<Rightarrow> string) \<Rightarrow> jobj \<Rightarrow> lease_exn + checkpoint_identity" where
  "checkpoint_from_dict text d =
    bindE (lkey d ''sha256'') (\<lambda>v. let sha = py_str text v in
    if \<not> is_sha256 sha then Inl (lease_invalid ''Checkpoint SHA-256 is malformed'')
    else bindE (bindE (lkey d ''device'') py_int) (\<lambda>device.
    bindE (bindE (lkey d ''inode'') py_int) (\<lambda>inode.
    bindE (bindE (lkey d ''size'') py_int) (\<lambda>size.
    bindE (bindE (lkey d ''mtimeNs'') py_int) (\<lambda>mtime.
    if device < 0 \<or> inode < 0 \<or> size < 0 then Inl (lease_invalid ''Checkpoint identity fields are invalid'')
    else Inr \<lparr>ck_device = device, ck_inode = inode, ck_size = size, ck_mtime_ns = mtime, ck_sha256 = sha\<rparr>)))))"

definition optional_checkpoint_identity :: "(json \<Rightarrow> string) \<Rightarrow> json \<Rightarrow> lease_exn + checkpoint_identity option" where
  "optional_checkpoint_identity text v = (case v of JNull \<Rightarrow> Inr None
     | JObj d \<Rightarrow> bindE (checkpoint_from_dict text d) (\<lambda>c. Inr (Some c))
     | _ \<Rightarrow> Inl (lease_invalid ''Checkpoint identity must be an object''))"

section \<open>The record\<close>

definition jobj_opt :: "('a \<Rightarrow> jobj) \<Rightarrow> 'a option \<Rightarrow> json" where
  "jobj_opt f x = (case x of None \<Rightarrow> JNull | Some y \<Rightarrow> JObj (f y))"

definition LEASE_SCHEMA_VERSION :: int where
  "LEASE_SCHEMA_VERSION = 2"

definition record_to_dict :: "lease_record \<Rightarrow> jobj" where
  "record_to_dict r = [
     (''checkpointSha256'', jopt (lr_checkpoint_sha256 r)), (''checkpointSize'', jint_opt (lr_checkpoint_size r)),
     (''createdAt'', JFloat (lr_created_at r)), (''evaluators'', JList (map (\<lambda>i. JObj (identity_to_dict i)) (lr_evaluators r))),
     (''expectedGpuUuid'', JStr (lr_expected_gpu_uuid r)),
     (''handoffCheckpoint'', jobj_opt checkpoint_to_dict (lr_handoff_checkpoint r)),
     (''leaseCleanObservationCount'', JInt (int (length (lr_lease_clean_observation_times r)))),
     (''leaseCleanObservationTimes'', JList (map JFloat (lr_lease_clean_observation_times r))),
     (''leaseId'', JStr (lr_lease_id r)), (''ownerId'', JStr (lr_owner_id r)), (''phase'', JStr (lr_phase r)),
     (''preDrainCheckpoint'', jobj_opt checkpoint_to_dict (lr_pre_drain_checkpoint r)),
     (''releaseCleanObservationCount'', JInt (int (length (lr_release_clean_observation_times r)))),
     (''releaseCleanObservationTimes'', JList (map JFloat (lr_release_clean_observation_times r))),
     (''restorationStatus'', JStr (lr_restoration_status r)),
     (''restoredTrainer'', jobj_opt identity_to_dict (lr_restored_trainer r)), (''safetyHalt'', JBool (lr_safety_halt r)),
     (''safetyReason'', jopt (lr_safety_reason r)), (''schemaVersion'', JInt LEASE_SCHEMA_VERSION),
     (''trainer'', jobj_opt identity_to_dict (lr_trainer r)), (''updatedAt'', JFloat (lr_updated_at r))]"

fun is_object :: "json \<Rightarrow> bool" where
  "is_object (JObj _) = True"
| "is_object _ = False"

definition optional_identity :: "(json \<Rightarrow> string) \<Rightarrow> json \<Rightarrow> lease_exn + process_identity option" where
  "optional_identity text v = (case v of JObj d \<Rightarrow> bindE (identity_from_dict text d) (\<lambda>i. Inr (Some i)) | _ \<Rightarrow> Inr None)"

definition evaluator_from :: "(json \<Rightarrow> string) \<Rightarrow> json \<Rightarrow> lease_exn + process_identity" where
  "evaluator_from text v = (case v of JObj d \<Rightarrow> identity_from_dict text d | _ \<Rightarrow> Inl (lease_invalid ''Every evaluator identity must be an object''))"

definition restoration_statuses :: "string list" where
  "restoration_statuses = [''not_started'', ''not_needed'', ''pending'', ''started'', ''restored'', ''safety_halt'']"

definition count_matches :: "jobj \<Rightarrow> string \<Rightarrow> nat \<Rightarrow> bool" where
  "count_matches d k n = (case lget d k of None \<Rightarrow> True | Some (JInt m) \<Rightarrow> m = int n | _ \<Rightarrow> False)"

text \<open>The checks of \<open>from_dict\<close> on the record it built.\<close>

definition record_check :: "jobj \<Rightarrow> lease_record \<Rightarrow> lease_exn + lease_record" where
  "record_check d r =
    (if \<not> list_all is_verifiable ((case lr_trainer r of None \<Rightarrow> [] | Some i \<Rightarrow> [i]) @
         (case lr_restored_trainer r of None \<Rightarrow> [] | Some i \<Rightarrow> [i]) @ lr_evaluators r)
     then Inl (lease_invalid ''Lease state contains an unverifiable process identity'')
     else if lr_restoration_status r \<notin> set restoration_statuses then Inl (lease_invalid ''Unknown restoration status'')
     else if \<not> count_matches d ''leaseCleanObservationCount'' (length (lr_lease_clean_observation_times r))
     then Inl (lease_invalid ''leaseCleanObservationCount does not match observation times'')
     else if \<not> count_matches d ''releaseCleanObservationCount'' (length (lr_release_clean_observation_times r))
     then Inl (lease_invalid ''releaseCleanObservationCount does not match observation times'')
     else Inr r)"

definition record_from_dict :: "(json \<Rightarrow> string) \<Rightarrow> jobj \<Rightarrow> lease_exn + lease_record" where
  "record_from_dict text d =
    (let trainer_value = lget_or d ''trainer'' JNull; restored_value = lget_or d ''restoredTrainer'' JNull;
         evaluator_values = lget_or d ''evaluators'' (JList []);
         str_key = (\<lambda>k. bindE (lkey d k) (\<lambda>v. Inr (py_str text v)))
     in if \<not> py_eq (lget_or d ''schemaVersion'' JNull) (JInt LEASE_SCHEMA_VERSION)
     then Inl (GpuLeaseError ''unsupported_lease_schema'' ''Lease state has an unsupported schema version'')
     else if trainer_value \<noteq> JNull \<and> \<not> is_object trainer_value then Inl (lease_invalid ''trainer must be an object'')
     else if restored_value \<noteq> JNull \<and> \<not> is_object restored_value then Inl (lease_invalid ''restoredTrainer must be an object'')
     else case evaluator_values of JList items \<Rightarrow>
       if \<not> list_all is_object items then Inl (lease_invalid ''Every evaluator identity must be an object'')
       else bindE (str_key ''leaseId'') (\<lambda>lease_id. bindE (str_key ''ownerId'') (\<lambda>owner.
         bindE (str_key ''phase'') (\<lambda>phase. bindE (str_key ''expectedGpuUuid'') (\<lambda>uuid.
         bindE (optional_identity text trainer_value) (\<lambda>trainer.
         bindE (mapE (evaluator_from text) items) (\<lambda>evaluators.
         bindE (optional_int (lget_or d ''checkpointSize'' JNull)) (\<lambda>size.
         bindE (bindE (lkey d ''createdAt'') py_float) (\<lambda>created.
         bindE (bindE (lkey d ''updatedAt'') py_float) (\<lambda>updated.
         bindE (optional_checkpoint_identity text (lget_or d ''preDrainCheckpoint'' JNull)) (\<lambda>pre.
         bindE (optional_checkpoint_identity text (lget_or d ''handoffCheckpoint'' JNull)) (\<lambda>handoff.
         bindE (float_tuple (lget_or d ''leaseCleanObservationTimes'' (JList []))) (\<lambda>lease_times.
         bindE (float_tuple (lget_or d ''releaseCleanObservationTimes'' (JList []))) (\<lambda>release_times.
         bindE (optional_identity text restored_value) (\<lambda>restored.
         record_check d \<lparr>lr_lease_id = lease_id, lr_owner_id = owner, lr_phase = phase, lr_expected_gpu_uuid = uuid,
           lr_trainer = trainer, lr_evaluators = evaluators,
           lr_checkpoint_sha256 = optional_str text (lget_or d ''checkpointSha256'' JNull), lr_checkpoint_size = size,
           lr_safety_halt = py_truth (lget_or d ''safetyHalt'' (JBool False)),
           lr_safety_reason = optional_str text (lget_or d ''safetyReason'' JNull),
           lr_created_at = created, lr_updated_at = updated, lr_pre_drain_checkpoint = pre, lr_handoff_checkpoint = handoff,
           lr_lease_clean_observation_times = lease_times, lr_release_clean_observation_times = release_times,
           lr_restoration_status = py_str text (lget_or d ''restorationStatus'' (JStr ''not_started'')),
           lr_restored_trainer = restored\<rparr>))))))))))))))
     | _ \<Rightarrow> Inl (lease_invalid ''evaluators must be an array''))"

section \<open>The state file\<close>

definition record_bytes :: "promo_env \<Rightarrow> lease_record \<Rightarrow> string" where
  "record_bytes env r = dumps env (JObj (record_to_dict r)) @ newline"

definition load_record_file :: "promo_env \<Rightarrow> (json \<Rightarrow> string) \<Rightarrow> fentry option \<Rightarrow> lease_exn + lease_record option" where
  "load_record_file env text file = (case file of None \<Rightarrow> Inr None
     | Some SpecialFile \<Rightarrow> Inl (GpuLeaseError ''lease_state_read_failed'' ''Could not read lease state'')
     | Some (RegularFile data) \<Rightarrow> (case loads env data of
         None \<Rightarrow> Inl (lease_invalid ''Lease state is not valid JSON'')
       | Some (JObj d) \<Rightarrow> bindE (record_from_dict text d) (\<lambda>r. Inr (Some r))
       | Some _ \<Rightarrow> Inl (lease_invalid ''Lease state root must be an object'')))"

section \<open>Records that can be read back\<close>

definition checkpoint_ok :: "checkpoint_identity \<Rightarrow> bool" where
  "checkpoint_ok c \<longleftrightarrow> is_sha256 (ck_sha256 c) \<and> 0 \<le> ck_device c \<and> 0 \<le> ck_inode c \<and> 0 \<le> ck_size c"

fun time_ok :: "pyfloat \<Rightarrow> bool" where
  "time_ok (Fin x) \<longleftrightarrow> 0 \<le> x"
| "time_ok _ = False"

definition lease_record_ok :: "lease_record \<Rightarrow> bool" where
  "lease_record_ok r \<longleftrightarrow> opt_all is_verifiable (lr_trainer r) \<and> opt_all is_verifiable (lr_restored_trainer r)
     \<and> list_all is_verifiable (lr_evaluators r) \<and> opt_all checkpoint_ok (lr_pre_drain_checkpoint r)
     \<and> opt_all checkpoint_ok (lr_handoff_checkpoint r) \<and> list_all time_ok (lr_lease_clean_observation_times r)
     \<and> list_all time_ok (lr_release_clean_observation_times r) \<and> lr_restoration_status r \<in> set restoration_statuses
     \<and> isfinite (lr_created_at r) \<and> isfinite (lr_updated_at r)"

lemma lget_dict: "distinct (map fst d) \<Longrightarrow> lget d k = map_of d k"
  unfolding lget_def by (rule map_of_inject_set [THEN iffD2, THEN fun_cong]) (simp_all add: rev_map [symmetric])

lemma optional_int_jint [simp]: "optional_int (jint_opt x) = Inr x"
  by (cases x) (simp_all add: jint_opt_def)

lemma optional_str_jopt [simp]: "optional_str text (jopt x) = x"
  by (cases x) simp_all

lemma identity_round_trip: "identity_from_dict text (identity_to_dict i) = Inr i"
proof -
  have d: "distinct (map fst (identity_to_dict i))" unfolding identity_to_dict_def by simp
  show ?thesis unfolding identity_from_dict_def lkey_def lget_or_def lget_dict [OF d] by (simp add: identity_to_dict_def)
qed

lemma checkpoint_round_trip:
  assumes "checkpoint_ok c"
  shows "checkpoint_from_dict text (checkpoint_to_dict c) = Inr c"
proof -
  have d: "distinct (map fst (checkpoint_to_dict c))" unfolding checkpoint_to_dict_def by simp
  show ?thesis using assms unfolding checkpoint_from_dict_def lkey_def lget_or_def lget_dict [OF d]
    by (simp add: checkpoint_to_dict_def checkpoint_ok_def)
qed

lemma optional_round_trips:
  "opt_all checkpoint_ok x \<Longrightarrow> optional_checkpoint_identity text (jobj_opt checkpoint_to_dict x) = Inr x"
  "optional_identity text (jobj_opt identity_to_dict y) = Inr y"
  by (cases x; cases y; simp add: optional_checkpoint_identity_def optional_identity_def jobj_opt_def checkpoint_round_trip
      identity_round_trip)+

lemma float_tuple_round_trip:
  assumes "list_all time_ok ts"
  shows "float_tuple (JList (map JFloat ts)) = Inr ts"
proof -
  have "\<not> float_negative t" if "t \<in> set ts" for t using assms that by (cases t) (auto simp: list_all_iff)
  then have "\<not> list_ex float_negative ts" by (auto simp: list_ex_iff)
  moreover have "mapE py_float (map JFloat ts) = Inr ts" by (rule mapE_round_trip) simp
  ultimately show ?thesis by (simp add: float_tuple_def list_all_iff)
qed

lemma jobj_opt_object: "(jobj_opt f x \<noteq> JNull \<and> \<not> is_object (jobj_opt f x)) = False"
  by (cases x) (simp_all add: jobj_opt_def)

lemma record_round_trip:
  assumes "lease_record_ok r"
  shows "record_from_dict text (record_to_dict r) = Inr r"
proof -
  have d: "distinct (map fst (record_to_dict r))" unfolding record_to_dict_def list.map fst_conv by simp
  have get: "map_of (record_to_dict r) ''schemaVersion'' = Some (JInt 2)"
    "map_of (record_to_dict r) ''trainer'' = Some (jobj_opt identity_to_dict (lr_trainer r))"
    "map_of (record_to_dict r) ''restoredTrainer'' = Some (jobj_opt identity_to_dict (lr_restored_trainer r))"
    "map_of (record_to_dict r) ''evaluators'' = Some (JList (map (\<lambda>i. JObj (identity_to_dict i)) (lr_evaluators r)))"
    "map_of (record_to_dict r) ''leaseId'' = Some (JStr (lr_lease_id r))"
    "map_of (record_to_dict r) ''ownerId'' = Some (JStr (lr_owner_id r))"
    "map_of (record_to_dict r) ''phase'' = Some (JStr (lr_phase r))"
    "map_of (record_to_dict r) ''expectedGpuUuid'' = Some (JStr (lr_expected_gpu_uuid r))"
    "map_of (record_to_dict r) ''checkpointSize'' = Some (jint_opt (lr_checkpoint_size r))"
    "map_of (record_to_dict r) ''checkpointSha256'' = Some (jopt (lr_checkpoint_sha256 r))"
    "map_of (record_to_dict r) ''createdAt'' = Some (JFloat (lr_created_at r))"
    "map_of (record_to_dict r) ''updatedAt'' = Some (JFloat (lr_updated_at r))"
    "map_of (record_to_dict r) ''preDrainCheckpoint'' = Some (jobj_opt checkpoint_to_dict (lr_pre_drain_checkpoint r))"
    "map_of (record_to_dict r) ''handoffCheckpoint'' = Some (jobj_opt checkpoint_to_dict (lr_handoff_checkpoint r))"
    "map_of (record_to_dict r) ''leaseCleanObservationTimes'' = Some (JList (map JFloat (lr_lease_clean_observation_times r)))"
    "map_of (record_to_dict r) ''releaseCleanObservationTimes'' = Some (JList (map JFloat (lr_release_clean_observation_times r)))"
    "map_of (record_to_dict r) ''leaseCleanObservationCount'' = Some (JInt (int (length (lr_lease_clean_observation_times r))))"
    "map_of (record_to_dict r) ''releaseCleanObservationCount'' = Some (JInt (int (length (lr_release_clean_observation_times r))))"
    "map_of (record_to_dict r) ''restorationStatus'' = Some (JStr (lr_restoration_status r))"
    "map_of (record_to_dict r) ''safetyHalt'' = Some (JBool (lr_safety_halt r))"
    "map_of (record_to_dict r) ''safetyReason'' = Some (jopt (lr_safety_reason r))"
    by (simp_all add: record_to_dict_def LEASE_SCHEMA_VERSION_def)
  have parts: "optional_checkpoint_identity text (jobj_opt checkpoint_to_dict (lr_pre_drain_checkpoint r)) = Inr (lr_pre_drain_checkpoint r)"
    "optional_checkpoint_identity text (jobj_opt checkpoint_to_dict (lr_handoff_checkpoint r)) = Inr (lr_handoff_checkpoint r)"
    "float_tuple (JList (map JFloat (lr_lease_clean_observation_times r))) = Inr (lr_lease_clean_observation_times r)"
    "float_tuple (JList (map JFloat (lr_release_clean_observation_times r))) = Inr (lr_release_clean_observation_times r)"
    using assms by (simp_all add: lease_record_ok_def optional_round_trips float_tuple_round_trip)
  have objs: "list_all is_object (map (\<lambda>i. JObj (identity_to_dict i)) (lr_evaluators r))" by (simp add: list_all_iff)
  have evs: "mapE (evaluator_from text) (map (\<lambda>i. JObj (identity_to_dict i)) (lr_evaluators r)) = Inr (lr_evaluators r)"
    by (rule mapE_round_trip) (simp add: evaluator_from_def identity_round_trip)
  have check: "record_check (record_to_dict r) r = Inr r"
    using assms unfolding record_check_def count_matches_def lget_dict [OF d] get
    by (cases "lr_trainer r"; cases "lr_restored_trainer r") (simp_all add: lease_record_ok_def)
  have same: "\<lparr>lr_lease_id = lr_lease_id r, lr_owner_id = lr_owner_id r, lr_phase = lr_phase r, lr_expected_gpu_uuid =
      lr_expected_gpu_uuid r, lr_trainer = lr_trainer r, lr_evaluators = lr_evaluators r, lr_checkpoint_sha256 =
      lr_checkpoint_sha256 r, lr_checkpoint_size = lr_checkpoint_size r, lr_safety_halt = lr_safety_halt r, lr_safety_reason =
      lr_safety_reason r, lr_created_at = lr_created_at r, lr_updated_at = lr_updated_at r, lr_pre_drain_checkpoint =
      lr_pre_drain_checkpoint r, lr_handoff_checkpoint = lr_handoff_checkpoint r, lr_lease_clean_observation_times =
      lr_lease_clean_observation_times r, lr_release_clean_observation_times = lr_release_clean_observation_times r,
      lr_restoration_status = lr_restoration_status r, lr_restored_trainer = lr_restored_trainer r\<rparr> = r" by simp
  show ?thesis unfolding record_from_dict_def Let_def lkey_def lget_or_def lget_dict [OF d] get option.case bindE_simps json.case
      jobj_opt_object if_False
    using check by (simp add: LEASE_SCHEMA_VERSION_def py_eq.simps objs evs optional_round_trips(2) parts same)
qed

lemma identity_jok [simp]: "jok (JObj (identity_to_dict i))"
  unfolding jok_obj payload_ok_jok by (simp add: identity_to_dict_def jint_opt_def split: option.split)

lemma checkpoint_jok [simp]: "jok (JObj (checkpoint_to_dict c))"
  unfolding jok_obj payload_ok_jok by (simp add: checkpoint_to_dict_def)

lemma jok_opts [simp]: "jok (jint_opt x)" "jok (jobj_opt identity_to_dict y)" "jok (jobj_opt checkpoint_to_dict z)"
  by (simp_all add: jint_opt_def jobj_opt_def split: option.split)

lemma record_dict_ok:
  assumes "lease_record_ok r"
  shows "payload_ok (record_to_dict r)"
proof -
  have times: "jok (JList (map JFloat ts))" if "list_all time_ok ts" for ts
    by (rule jok_list) (use that in \<open>auto simp: list_all_iff elim!: time_ok.elims\<close>)
  have evs: "jok (JList (map (\<lambda>i. JObj (identity_to_dict i)) is))" for "is" by (rule jok_list) auto
  have "sorted_wrt (<) (map fst (record_to_dict r))" unfolding record_to_dict_def list.map fst_conv by simp
  then show ?thesis unfolding payload_ok_jok
    using assms times evs by (simp add: record_to_dict_def lease_record_ok_def)
qed

lemma load_written_record:
  assumes "json_roundtrip env" "lease_record_ok r"
  shows "load_record_file env text (Some (RegularFile (record_bytes env r))) = Inr (Some r)"
proof -
  have "loads env (record_bytes env r) = Some (JObj (record_to_dict r))"
    using assms(1) record_dict_ok [OF assms(2)] unfolding json_roundtrip_def record_bytes_def payload_ok_def by blast
  then show ?thesis by (simp add: load_record_file_def record_round_trip [OF assms(2)])
qed

end
