(* ===== verification/Lease_Durable.thy ===== *)
theory Lease_Durable
  imports Lease_Codec
begin

text \<open>
  Every record that the lease manager keeps in memory or writes can be read back from its file:
  well-formed records are kept by all procedures, under what the runner, the clock and the file
  system promise.
\<close>

definition world_ok :: "lease_world \<Rightarrow> bool" where
  "world_ok w \<longleftrightarrow> (\<forall>h. 0 \<le> w_clock w h) \<and> (\<forall>h argv i. w_spawn w h argv = Inr i \<longrightarrow> is_verifiable i)
     \<and> (\<forall>h c. w_checkpoint_identity w h = Inr (Some c) \<longrightarrow> checkpoint_ok c)"

definition records_ok :: "lease_manager \<Rightarrow> bool" where
  "records_ok s \<longleftrightarrow> opt_all lease_record_ok (lm_file s) \<and> opt_all lease_record_ok (lm_active s)"

interpretation records_inv: history_invariant records_ok
  by unfold_locales (simp add: records_ok_def)

lemma ok_update_free [simp]:
  "lease_record_ok (r\<lparr>lr_phase := a\<rparr>) = lease_record_ok r" "lease_record_ok (r\<lparr>lr_owner_id := a\<rparr>) = lease_record_ok r"
  "lease_record_ok (r\<lparr>lr_checkpoint_sha256 := b\<rparr>) = lease_record_ok r" "lease_record_ok (r\<lparr>lr_checkpoint_size := c\<rparr>) = lease_record_ok r"
  "lease_record_ok (r\<lparr>lr_safety_halt := d\<rparr>) = lease_record_ok r" "lease_record_ok (r\<lparr>lr_safety_reason := b\<rparr>) = lease_record_ok r"
  by (simp_all add: lease_record_ok_def)

lemma ok_update [simp]:
  "lease_record_ok r \<Longrightarrow> opt_all is_verifiable x \<Longrightarrow> lease_record_ok (r\<lparr>lr_trainer := x\<rparr>)"
  "lease_record_ok r \<Longrightarrow> opt_all is_verifiable x \<Longrightarrow> lease_record_ok (r\<lparr>lr_restored_trainer := x\<rparr>)"
  "lease_record_ok r \<Longrightarrow> list_all is_verifiable is \<Longrightarrow> lease_record_ok (r\<lparr>lr_evaluators := is\<rparr>)"
  "lease_record_ok r \<Longrightarrow> opt_all checkpoint_ok c \<Longrightarrow> lease_record_ok (r\<lparr>lr_handoff_checkpoint := c\<rparr>)"
  "lease_record_ok r \<Longrightarrow> list_all time_ok ts \<Longrightarrow> lease_record_ok (r\<lparr>lr_lease_clean_observation_times := ts\<rparr>)"
  "lease_record_ok r \<Longrightarrow> list_all time_ok ts \<Longrightarrow> lease_record_ok (r\<lparr>lr_release_clean_observation_times := ts\<rparr>)"
  "lease_record_ok r \<Longrightarrow> st \<in> set restoration_statuses \<Longrightarrow> lease_record_ok (r\<lparr>lr_restoration_status := st\<rparr>)"
  "lease_record_ok r \<Longrightarrow> lease_record_ok (r\<lparr>lr_updated_at := Fin t\<rparr>)"
  by (simp_all add: lease_record_ok_def)

lemma statuses [simp]: "''not_needed'' \<in> set restoration_statuses" "''pending'' \<in> set restoration_statuses"
  "''started'' \<in> set restoration_statuses" "''restored'' \<in> set restoration_statuses" "''safety_halt'' \<in> set restoration_statuses"
  by (simp_all add: restoration_statuses_def)

lemma ok_parts:
  "lease_record_ok r \<Longrightarrow> opt_all is_verifiable (lr_trainer r)" "lease_record_ok r \<Longrightarrow> opt_all is_verifiable (lr_restored_trainer r)"
  "lease_record_ok r \<Longrightarrow> list_all is_verifiable (lr_evaluators r)"
  by (simp_all add: lease_record_ok_def)

section \<open>Sound actions\<close>

text \<open>A sound action keeps the records well formed and returns values with the property.\<close>

definition upholds :: "('a \<Rightarrow> bool) \<Rightarrow> 'a action \<Rightarrow> bool" where
  "upholds P m \<longleftrightarrow> (\<forall>s. records_ok s \<longrightarrow> wp m (\<lambda>x t. records_ok t \<and> P x) (\<lambda>_. records_ok) s)"

lemma upholdsI: "keeps records_ok m \<Longrightarrow> returns P m \<Longrightarrow> upholds P m"
  unfolding upholds_def
proof (intro allI impI)
  fix s assume a: "keeps records_ok m" "returns P m" "records_ok s"
  show "wp m (\<lambda>x t. records_ok t \<and> P x) (\<lambda>_. records_ok) s"
    by (rule wp_mono [OF keepsD [OF a(1,3)]]) (use returnsD [OF a(2)] in blast)+
qed

lemma upholds_keeps: "upholds P m \<Longrightarrow> keeps records_ok m"
  unfolding upholds_def keeps_def by (auto elim!: wp_mono)

lemma upholds_give: "P x \<Longrightarrow> upholds P (give x)"
  by (simp add: upholds_def wp_give)

lemma upholds_throw: "upholds P (throw e)"
  by (simp add: upholds_def wp_throw)

lemma upholds_then: "upholds R m \<Longrightarrow> (\<And>x. R x \<Longrightarrow> upholds P (f x)) \<Longrightarrow> upholds P (andThen m f)"
  unfolding upholds_def wp_andThen by (auto elim!: wp_mono)

lemma upholds_next: "keeps records_ok m \<Longrightarrow> (\<And>x. upholds P (f x)) \<Longrightarrow> upholds P (andThen m f)"
  by (rule upholds_then [where R = "\<lambda>_. True"]) (auto simp: upholds_def keeps_def)

lemma upholds_try: "upholds R m \<Longrightarrow> (\<And>x. R x \<Longrightarrow> upholds P (g x)) \<Longrightarrow> (\<And>e. upholds P (f e)) \<Longrightarrow>
    upholds P (andThen (attempt m) (\<lambda>v. case v of Inl e \<Rightarrow> f e | Inr x \<Rightarrow> g x))"
  unfolding upholds_def wp_try by (auto elim!: wp_mono)

lemma upholds_if: "(b \<Longrightarrow> upholds P m) \<Longrightarrow> (\<not> b \<Longrightarrow> upholds P n) \<Longrightarrow> upholds P (if b then m else n)"
  by simp

lemma upholds_option: "(x = None \<Longrightarrow> upholds P m) \<Longrightarrow> (\<And>y. x = Some y \<Longrightarrow> upholds P (f y)) \<Longrightarrow> upholds P (case x of None \<Rightarrow> m | Some y \<Rightarrow> f y)"
  by (simp split: option.split)

lemma upholds_prod: "(\<And>a b. x = (a, b) \<Longrightarrow> upholds P (f a b)) \<Longrightarrow> upholds P (case x of (a, b) \<Rightarrow> f a b)"
  by (simp split: prod.split)

lemma upholds_get_active: "upholds (opt_all lease_record_ok) get_active"
  by (simp add: upholds_def wp_get_active records_ok_def)

lemma upholds_set_active: "lease_record_ok r \<Longrightarrow> upholds (\<lambda>_. True) (set_active r)"
  by (simp add: upholds_def wp_set_active records_ok_def)

lemma upholds_load: "upholds (opt_all lease_record_ok) (load_record w)"
  by (simp add: upholds_def load_record_def wp_andThen wp_askE wp_file records_ok_def split: sum.split)

lemma upholds_replace: "lease_record_ok (f r) \<Longrightarrow> upholds lease_record_ok (replace_record w cfg f r)"
  by (simp add: upholds_def wp_replace Let_def records_ok_def split: sum.split)

lemma upholds_save: "lease_record_ok r \<Longrightarrow> keeps records_ok (save_record w cfg r)"
  unfolding keeps_def save_record_def require_mutation_def by (simp add: wp_simps records_ok_def split: sum.split)

text \<open>The common end of a procedure: write, announce, return.\<close>

lemma upholds_announced: "lease_record_ok (f r) \<Longrightarrow>
    upholds lease_record_ok (andThen (replace_record w cfg f r) (\<lambda>u. andThen (emit w name) (\<lambda>_. give u)))"
  by (rule upholds_then [OF upholds_replace]) (auto intro!: upholds_next records_inv.keeps_emit upholds_give)

lemma upholds_halt: "lease_record_ok r \<Longrightarrow> upholds lease_record_ok (set_lease_halt w cfg r reason)"
  unfolding set_lease_halt_def by (rule upholds_announced) simp

section \<open>What the environment returns\<close>

lemma checkpoint_returned: "world_ok w \<Longrightarrow> returns checkpoint_ok (wait_for_checkpoint_identity w cfg before change)"
  unfolding returns_def wait_for_checkpoint_identity_def world_ok_def
  by (auto simp: wp_simps Let_def split: sum.split option.split prod.split intro!: wp_loop [where I = "\<lambda>_ _. True"])

lemma upholds_checkpoint: "world_ok w \<Longrightarrow> upholds checkpoint_ok (wait_for_checkpoint_identity w cfg before change)"
  by (intro upholdsI checkpoint_returned records_inv.keeps_wait_for_checkpoint)

lemma times_returned: "world_ok w \<Longrightarrow> list_all time_ok seen \<Longrightarrow> returns (list_all time_ok) (clean_observations w cfg n seen)"
proof (induction n arbitrary: seen)
  case 0
  then show ?case by (simp add: returns_give)
next
  case (Suc n)
  have IH: "wp (clean_observations w cfg n (seen @ [Fin (w_clock w h)])) (\<lambda>x _. list_all time_ok x) (\<lambda>_ _. True) t" for h t
    using Suc by (simp add: returns_def world_ok_def)
  have now: "list_all time_ok seen" "0 \<le> w_clock w h" for h using Suc.prems by (simp_all add: world_ok_def)
  show ?case unfolding returns_def clean_observations.simps gpu_probe_def
    by (auto simp: wp_simps Let_def split: sum.split lease_exn.split intro!: IH now)
qed

lemma upholds_clean: "world_ok w \<Longrightarrow> upholds (list_all time_ok) (require_clean_gpu w cfg)"
  unfolding require_clean_gpu_def by (intro upholdsI times_returned records_inv.keeps_clean) simp_all

lemma upholds_spawn: "world_ok w \<Longrightarrow> upholds is_verifiable (spawn w role argv)"
  by (intro upholdsI records_inv.keeps_calls) (auto simp: returns_def spawn_def wp_askE world_ok_def split: sum.split)

section \<open>Procedures\<close>

lemma upholds_record_handoff:
  assumes "world_ok w" "lease_record_ok r"
  shows "upholds lease_record_ok (record_handoff w cfg before r)"
  unfolding record_handoff_def
  by (rule upholds_then [OF upholds_checkpoint [OF assms(1)]], rule upholds_announced)
    (use assms(2) in simp)

lemma upholds_drain: "world_ok w \<Longrightarrow> lease_record_ok r \<Longrightarrow> upholds lease_record_ok (complete_trainer_drain w cfg r b)"
  unfolding complete_trainer_drain_def
  by (cases "lr_trainer r"; cases "lr_pre_drain_checkpoint r")
    (auto intro!: upholds_throw upholds_next records_inv.keeps_drain_calls upholds_record_handoff)

lemma upholds_drain_evaluators: "lease_record_ok r \<Longrightarrow> upholds lease_record_ok (drain_evaluators w cfg r)"
  unfolding drain_evaluators_def
  by (rule upholds_next [OF records_inv.keeps_lists(1)], rule upholds_next [OF records_inv.keeps_stop],
      rule upholds_next [OF records_inv.keeps_await], rule upholds_announced) simp

lemma upholds_await_restored:
  assumes "lease_record_ok r" "is_verifiable i"
  shows "upholds lease_record_ok (await_restored w cfg i r)"
  unfolding await_restored_def Let_def
proof (rule upholds_then [OF upholds_replace])
  fix u assume u: "lease_record_ok u"
  have poll: "keeps records_ok (loop (\<lambda>_. andThen (is_running w i) (\<lambda>running. if running then give (Inl ()) else poll_again w cfg d e ())) v)"
    for d e and v :: unit
    by (intro keeps_rules records_inv.keeps_calls records_inv.keeps_poll)
  show "upholds lease_record_ok (andThen (clock w) (\<lambda>now.
     andThen (loop (\<lambda>_. andThen (is_running w i) (\<lambda>running.
         if running then give (Inl ())
         else poll_again w cfg (clock_plus now (rc_trainer_start_timeout_seconds cfg)) (GpuLeaseError ''trainer_restart_failed'' ''Restarted trainer did not remain alive'') ())) ()) (\<lambda>_.
     andThen (replace_record w cfg (\<lambda>r. r\<lparr>lr_phase := ''trainer_running'', lr_trainer := Some i,
       lr_evaluators := [], lr_safety_halt := False, lr_safety_reason := None,
       lr_restoration_status := ''restored'', lr_restored_trainer := Some i\<rparr>) u) (\<lambda>r.
     andThen (emit w ''trainer_restored'') (\<lambda>_. give r)))))"
    by (rule upholds_next [OF records_inv.keeps_calls(7)], rule upholds_next [OF poll], rule upholds_announced)
      (use u assms(2) in simp)
qed (use assms in simp)

lemma upholds_restore:
  assumes "world_ok w" "lease_record_ok r"
  shows "upholds lease_record_ok (restore_trainer w cfg r)"
  unfolding restore_trainer_def
  by (rule upholds_next [OF records_inv.keeps_recorded], rule upholds_then [OF upholds_replace])
    (use assms in \<open>auto intro!: upholds_next [OF records_inv.keeps_expand] upholds_then [OF upholds_spawn] upholds_await_restored\<close>)

subsection \<open>Reconciliation\<close>

lemma upholds_halted: "lease_record_ok r \<Longrightarrow> upholds (lease_record_ok \<circ> snd) (halted w cfg r reason as)"
  unfolding halted_def by (rule upholds_then [OF upholds_halt]) (auto intro: upholds_give)

lemma upholds_verified:
  assumes "world_ok w" "lease_record_ok r"
  shows "upholds lease_record_ok (andThen (require_clean_gpu w cfg) (\<lambda>ts.
    replace_record w cfg (\<lambda>r. r\<lparr>lr_phase := p, lr_release_clean_observation_times := ts\<rparr>) r))"
  by (rule upholds_then [OF upholds_clean [OF assms(1)]], rule upholds_replace) (use assms(2) in simp)

lemma upholds_restart:
  assumes "world_ok w" "lease_record_ok r"
  shows "upholds lease_record_ok (andThen (require_recorded_handoff_checkpoint w r) (\<lambda>_. restore_trainer w cfg r))"
  by (rule upholds_next [OF records_inv.keeps_recorded]) (rule upholds_restore [OF assms])

lemma upholds_reconcile_restore:
  assumes "world_ok w" "lease_record_ok r"
  shows "upholds (lease_record_ok \<circ> snd) (reconcile_restore w cfg r as)"
  unfolding reconcile_restore_def Let_def
  by (rule upholds_try [OF upholds_verified [OF assms]])
    (use assms in \<open>auto intro!: upholds_try [OF upholds_restart] upholds_halted upholds_give\<close>)

lemma upholds_reconcile_evaluators:
  assumes "world_ok w" "lease_record_ok r"
  shows "upholds (lease_record_ok \<circ> snd) (reconcile_evaluators w cfg alive r as)"
proof -
  have finish: "upholds (lease_record_ok \<circ> snd) (if alive then halted w cfg u reason bs else reconcile_restore w cfg u cs)"
    if "lease_record_ok u" for u reason bs cs
    using that by (auto intro: upholds_halted upholds_reconcile_restore [OF assms(1)])
  show ?thesis unfolding reconcile_evaluators_def Let_def
  proof (rule upholds_if)
    show "upholds (lease_record_ok \<circ> snd) (if alive then halted w cfg r reason bs else reconcile_restore w cfg r as)" for reason bs
      by (rule finish [OF assms(2)])
    show "upholds (lease_record_ok \<circ> snd) (andThen (replace_record w cfg (\<lambda>r. r\<lparr>lr_phase := p\<rparr>) r) (\<lambda>r.
        andThen (attempt (drain_evaluators w cfg r)) (\<lambda>v. case v of Inl e \<Rightarrow> halted w cfg r (reason e) bs
          | Inr r \<Rightarrow> if alive then halted w cfg r reason' cs else reconcile_restore w cfg r ds)))" for p reason reason' bs cs ds
      by (rule upholds_then [OF upholds_replace])
        (use assms(2) in \<open>auto intro!: upholds_try [OF upholds_drain_evaluators] finish upholds_halted\<close>)
  qed
qed

lemma upholds_reconcile_locked:
  assumes "world_ok w" "lease_record_ok r"
  shows "upholds (lease_record_ok \<circ> snd) (reconcile_locked w cfg r)"
proof -
  have written: "upholds (lease_record_ok \<circ> snd) (andThen (replace_record w cfg f r) (\<lambda>u. give (as, u)))"
    if "lease_record_ok (f r)" for f as
    by (rule upholds_then [OF upholds_replace [of f r]]) (use that in \<open>auto intro: upholds_give\<close>)
  note halt = upholds_halted [OF assms(2)] upholds_reconcile_evaluators [OF assms]
  have drain: "upholds (lease_record_ok \<circ> snd) (andThen (attempt (complete_trainer_drain w cfg r b)) (\<lambda>v.
      case v of Inl e \<Rightarrow> halted w cfg r (reason e) bs | Inr r \<Rightarrow> reconcile_evaluators w cfg c r cs))" for b reason bs c cs
    by (rule upholds_try [OF upholds_drain [OF assms]]) (auto intro: halt upholds_reconcile_evaluators [OF assms(1)])
  show ?thesis unfolding reconcile_locked_def
    by (intro upholds_then [OF upholds_set_active [OF assms(2)]] upholds_if halt upholds_next [OF records_inv.keeps_alive]
        upholds_next [OF records_inv.keeps_lists(1)] written drain)
      (use assms(2) ok_parts [OF assms(2)] in \<open>auto intro: upholds_give\<close>)
qed

lemma keeps_with_lock: "keeps records_ok m \<Longrightarrow> keeps records_ok (with_lock w m)"
  unfolding with_lock_def by (intro keeps_rules records_inv.keeps_ask records_inv.keeps_askE)

lemma keeps_loaded: "(\<And>x. opt_all lease_record_ok x \<Longrightarrow> keeps records_ok (f x)) \<Longrightarrow> keeps records_ok (andThen (load_record w) f)"
  by (rule upholds_keeps [where P = "\<lambda>_. True"], rule upholds_then [OF upholds_load]) (auto simp: upholds_def keeps_def)

lemma keeps_upheld: "upholds R m \<Longrightarrow> (\<And>x. R x \<Longrightarrow> keeps records_ok (f x)) \<Longrightarrow> keeps records_ok (andThen m f)"
  by (rule upholds_keeps [where P = "\<lambda>_. True"], erule upholds_then) (auto simp: upholds_def keeps_def)

lemma reconcile_records: 
  assumes "world_ok w"
  shows "keeps records_ok (reconcile w cfg mutate)"
proof -
  have locked: "keeps records_ok (andThen (reconcile_locked w cfg r) (\<lambda>(as, u). give (g as u)))" if "lease_record_ok r" for r g
    by (rule keeps_upheld [OF upholds_reconcile_locked [OF assms that]]) (auto intro: keeps_rules)
  show ?thesis unfolding reconcile_def Let_def
    by (intro keeps_loaded keeps_rules records_inv.keeps_planned records_inv.keeps_require_mutation keeps_with_lock locked) simp_all
qed

subsection \<open>The handoff\<close>

lemma upholds_release:
  assumes "world_ok w" "lease_record_ok r"
  shows "upholds (lease_record_ok \<circ> fst) (handoff_release w cfg r err)"
proof -
  have fail: "upholds (lease_record_ok \<circ> fst) (andThen (set_lease_halt w cfg u reason) (\<lambda>h. give (h, x)))" if "lease_record_ok u" for u reason x
    by (rule upholds_then [OF upholds_halt [OF that]]) (auto intro: upholds_give)
  have restart: "upholds (lease_record_ok \<circ> fst) (andThen (attempt (andThen (require_recorded_handoff_checkpoint w u) (\<lambda>_. restore_trainer w cfg u)))
      (\<lambda>v. case v of Inl e \<Rightarrow> andThen (set_lease_halt w cfg u (reason e)) (\<lambda>h. give (h, x e)) | Inr r \<Rightarrow> give (r, y)))"
    if "lease_record_ok u" for u reason x y
    by (rule upholds_try [OF upholds_restart [OF assms(1) that]]) (auto intro: upholds_give fail [OF that])
  have verify: "upholds (lease_record_ok \<circ> fst) (andThen (attempt (andThen (require_clean_gpu w cfg) (\<lambda>ts.
      replace_record w cfg (\<lambda>r. r\<lparr>lr_phase := p, lr_release_clean_observation_times := ts\<rparr>) u)))
      (\<lambda>v. case v of Inl e \<Rightarrow> andThen (set_lease_halt w cfg u (reason e)) (\<lambda>h. give (h, x e))
        | Inr u \<Rightarrow> andThen (attempt (andThen (require_recorded_handoff_checkpoint w u) (\<lambda>_. restore_trainer w cfg u)))
      (\<lambda>v. case v of Inl e \<Rightarrow> andThen (set_lease_halt w cfg u (reason e)) (\<lambda>h. give (h, x e)) | Inr r \<Rightarrow> give (r, y))))"
    if "lease_record_ok u" for u p reason x y
    by (rule upholds_try [OF upholds_verified [OF assms(1) that]]) (auto intro: restart fail [OF that])
  show ?thesis unfolding handoff_release_def Let_def
    by (rule upholds_try [OF upholds_replace]) (use assms(2) in \<open>auto intro: verify fail\<close>)
qed

lemma cleanup_records:
  assumes "world_ok w" "lease_record_ok r" "is_verifiable trainer"
  shows "keeps records_ok (handoff_cleanup w cfg trainer r)"
proof -
  have drained: "upholds (lease_record_ok \<circ> fst) (if lr_handoff_checkpoint u = None
      then andThen (attempt (complete_trainer_drain w cfg u False)) (\<lambda>v.
        case v of Inl e \<Rightarrow> andThen (set_lease_halt w cfg u (reason e)) (\<lambda>h. give (h, Some e)) | Inr active \<Rightarrow> give (active, None))
      else give (u, None))" if "lease_record_ok u" for u reason
    using that assms(1) by (auto intro!: upholds_try [OF upholds_drain] upholds_give upholds_then [OF upholds_halt])
  have released: "upholds (lease_record_ok \<circ> fst) (if lr_safety_halt u then give (u, x) else handoff_release w cfg u x)" if "lease_record_ok u" for u x
    using that upholds_release [OF assms(1)] by (auto intro: upholds_give)
  have remained: "upholds (lease_record_ok \<circ> fst) (andThen (replace_record w cfg (\<lambda>r. r\<lparr>lr_phase := p, lr_trainer := Some trainer,
      lr_restoration_status := ''not_needed''\<rparr>) u) (\<lambda>active. andThen (emit w name) (\<lambda>_. give (active, x))))" if "lease_record_ok u" for u p name x
    by (rule upholds_then [OF upholds_replace])
      (use that assms(3) in \<open>auto intro!: upholds_next records_inv.keeps_emit upholds_give\<close>)
  have close: "keeps records_ok (andThen (set_active u) (\<lambda>_. give x))" if "lease_record_ok u" for u x
    by (rule keeps_upheld [OF upholds_set_active [OF that]]) (rule keeps_give)
  have after: "keeps records_ok (andThen (is_running w trainer) (\<lambda>alive.
     andThen (if alive \<and> lr_handoff_checkpoint u = None \<and> lr_evaluators u = [] then
         andThen (replace_record w cfg (\<lambda>r. r\<lparr>lr_phase := p, lr_trainer := Some trainer,
           lr_restoration_status := ''not_needed''\<rparr>) u) (\<lambda>active. andThen (emit w name) (\<lambda>_. give (active, None)))
       else andThen (if lr_handoff_checkpoint u = None
           then andThen (attempt (complete_trainer_drain w cfg u False)) (\<lambda>v.
             case v of Inr active \<Rightarrow> give (active, None)
             | Inl e \<Rightarrow> andThen (set_lease_halt w cfg u (reason e)) (\<lambda>h. give (h, Some e)))
           else give (u, None)) (\<lambda>(active, cleanup_error).
         if lr_safety_halt active then give (active, cleanup_error) else handoff_release w cfg active cleanup_error)) (\<lambda>(active, cleanup_error).
     andThen (set_active active) (\<lambda>_. give cleanup_error))))" if "lease_record_ok u" for u p name reason
    by (intro keeps_andThen [OF records_inv.keeps_calls(1)] keeps_upheld [where R = "lease_record_ok \<circ> fst"] upholds_if remained that
        upholds_then [OF drained]) (auto intro: released close that)
  show ?thesis unfolding handoff_cleanup_def Let_def
    by (rule keeps_upheld [OF upholds_get_active], rule after) (use assms(2) in \<open>auto split: option.split\<close>)
qed

lemma handoff_record_ok:
  "is_verifiable trainer \<Longrightarrow> checkpoint_ok c \<Longrightarrow> lease_record_ok (handoff_record cfg lid trainer c now)"
  by (simp add: handoff_record_def lease_record_ok_def restoration_statuses_def)

lemma run_handoff_records:
  assumes "world_ok w" "lease_record_ok r" "is_verifiable trainer" "\<And>r. lease_record_ok r \<Longrightarrow> keeps records_ok (body r)"
  shows "keeps records_ok (run_handoff w cfg body trainer r)"
proof -
  have grant: "keeps records_ok (andThen (replace_record w cfg (\<lambda>r. r\<lparr>lr_phase := p, lr_lease_clean_observation_times := ts\<rparr>) u) (\<lambda>record.
     andThen (emit w name) (\<lambda>_. andThen (ask (\<lambda>_. ()) (\<lambda>_. Granted record)) (\<lambda>_. body record))))"
    if "lease_record_ok u" "list_all time_ok ts" for u p ts name
    by (rule keeps_upheld [OF upholds_replace])
      (use that in \<open>auto intro!: keeps_andThen records_inv.keeps_emit records_inv.keeps_ask assms(4)\<close>)
  have body: "keeps records_ok (handoff_body w cfg body r)"
    unfolding handoff_body_def
    by (rule keeps_upheld [OF upholds_drain [OF assms(1,2)]], rule keeps_upheld [OF upholds_clean [OF assms(1)]], rule grant)
  show ?thesis unfolding run_handoff_def
    by (intro keeps_upheld [OF upholds_set_active [OF assms(2)]] keeps_rules upholds_save assms body records_inv.keeps_emit cleanup_records)
qed

lemma upholds_alive: "upholds (\<lambda>_. is_verifiable i) (require_identity_alive w i role)"
  by (intro upholdsI records_inv.keeps_identity)
    (simp add: returns_def require_identity_alive_def wp_andThen wp_require wp_calls split: option.split)

lemma handoff_records:
  assumes "world_ok w" "\<And>r. lease_record_ok r \<Longrightarrow> keeps records_ok (body r)"
  shows "keeps records_ok (exclusive_handoff w cfg body trainer)"
proof -
  have new: "keeps records_ok (case x of None \<Rightarrow> throw e | Some trainer \<Rightarrow>
         andThen (require_identity_alive w trainer ''trainer'') (\<lambda>_.
         andThen (wait_for_checkpoint_identity w cfg None False) (\<lambda>pre_drain.
         andThen (clock w) (\<lambda>now.
         andThen (ask (w_lease_id w) LeaseId) (\<lambda>lease_id.
         run_handoff w cfg body trainer (handoff_record cfg lease_id trainer pre_drain now))))))" for x e
    by (intro keeps_option keeps_throw keeps_upheld [OF upholds_alive] keeps_upheld [OF upholds_checkpoint [OF assms(1)]]
        keeps_andThen [OF records_inv.keeps_calls(7)] keeps_andThen [OF records_inv.keeps_ask] run_handoff_records [OF assms(1)]
        handoff_record_ok assms(2))
  have old: "keeps records_ok (andThen (case x of None \<Rightarrow> give None
         | Some r \<Rightarrow> if lr_safety_halt r then throw e else andThen (reconcile_locked w cfg r) (\<lambda>(_, r).
             if lr_safety_halt r then throw e' else give (Some r))) f)"
    if "opt_all lease_record_ok x" "\<And>y. keeps records_ok (f y)" for x e e' f
  proof (rule keeps_andThen [OF _ that(2)])
    show "keeps records_ok (case x of None \<Rightarrow> give None
         | Some r \<Rightarrow> if lr_safety_halt r then throw e else andThen (reconcile_locked w cfg r) (\<lambda>(_, r).
             if lr_safety_halt r then throw e' else give (Some r)))"
      using that(1) by (cases x) (auto intro!: keeps_rules upholds_keeps [OF upholds_reconcile_locked [OF assms(1)]])
  qed
  show ?thesis unfolding exclusive_handoff_def
    by (intro keeps_andThen [OF records_inv.keeps_require_mutation] keeps_with_lock keeps_loaded old new)
qed

subsection \<open>Evaluators\<close>

lemma upholds_worker: "world_ok w \<Longrightarrow> upholds is_verifiable (
       andThen (expand_command w cfg tmpl x y k) (\<lambda>argv.
       andThen (spawn w EvaluatorRole argv) (\<lambda>identity.
       andThen (require (is_verifiable identity) e) (\<lambda>_.
       andThen (require_identity_alive w identity role) (\<lambda>_. give identity)))))"
  by (rule upholds_next [OF records_inv.keeps_expand], rule upholds_then [OF upholds_spawn])
    (auto intro!: upholds_next keeps_require records_inv.keeps_identity upholds_give)

lemma upholds_workers:
  assumes "world_ok w"
  shows "list_all is_verifiable evs \<Longrightarrow> lease_record_ok r \<Longrightarrow>
    upholds (\<lambda>(err, evs, r). list_all is_verifiable evs \<and> lease_record_ok r) (start_workers w cfg k n evs r)"
proof (induction n arbitrary: k evs r)
  case 0
  then show ?case by (simp add: upholds_give)
next
  case (Suc n)
  let ?P = "\<lambda>(err :: lease_exn option, evs, r). list_all is_verifiable evs \<and> lease_record_ok r"
  have announced: "upholds ?P (andThen (attempt (emit w name)) (\<lambda>v. case v of Inl e \<Rightarrow> give (Some e, evs', u)
      | Inr _ \<Rightarrow> start_workers w cfg (Suc k) n evs' u))" if "list_all is_verifiable evs'" "lease_record_ok u" for name evs' u
    by (rule upholds_try [where R = "\<lambda>_. True"])
      (use that in \<open>auto intro: upholds_give Suc.IH upholdsI records_inv.keeps_emit simp: returns_def wp_True\<close>)
  have recorded: "upholds ?P (andThen (attempt (replace_record w cfg (\<lambda>r. r\<lparr>lr_evaluators := evs'\<rparr>) r)) (\<lambda>v.
      case v of Inl e \<Rightarrow> give (Some e, evs', r) | Inr u \<Rightarrow> andThen (attempt (emit w name)) (\<lambda>v. case v of Inl e \<Rightarrow> give (Some e, evs', u)
      | Inr _ \<Rightarrow> start_workers w cfg (Suc k) n evs' u)))" if "list_all is_verifiable evs'" for name evs'
    by (rule upholds_try [OF upholds_replace]) (use that Suc.prems in \<open>auto intro: upholds_give announced\<close>)
  show ?case unfolding start_workers.simps Let_def
    by (rule upholds_try [OF upholds_worker [OF assms]]) (use Suc.prems in \<open>auto intro: upholds_give recorded\<close>)
qed

lemma upholds_evaluator_try:
  assumes "world_ok w" "lease_record_ok r" "\<And>r. lease_record_ok r \<Longrightarrow> keeps records_ok (body r)"
  shows "upholds (\<lambda>(err, evs, r). list_all is_verifiable evs \<and> lease_record_ok r) (evaluator_try w cfg body r)"
proof -
  let ?P = "\<lambda>(err :: lease_exn option, evs, r). list_all is_verifiable evs \<and> lease_record_ok r"
  have run: "upholds ?P (andThen (attempt (andThen (emit w name) (\<lambda>_. body u))) (\<lambda>v. give (case v of Inl e \<Rightarrow> Some e | Inr _ \<Rightarrow> None, evs, u)))"
    if "lease_record_ok u" "list_all is_verifiable evs" for name u evs
    by (rule upholds_next) (use that in \<open>auto intro!: keeps_rules records_inv.keeps_emit assms(3) upholds_give\<close>)
  have phase: "upholds ?P (andThen (attempt (replace_record w cfg (\<lambda>r. r\<lparr>lr_phase := p\<rparr>) u)) (\<lambda>v. case v of Inl e \<Rightarrow> give (Some e, evs, u)
      | Inr u \<Rightarrow> andThen (attempt (andThen (emit w name) (\<lambda>_. body u))) (\<lambda>v. give (case v of Inl e \<Rightarrow> Some e | Inr _ \<Rightarrow> None, evs, u))))"
    if "lease_record_ok u" "list_all is_verifiable evs" for p name u evs
    by (rule upholds_try [OF upholds_replace]) (use that in \<open>auto intro: upholds_give run\<close>)
  have workers: "upholds ?P (andThen (start_workers w cfg k n [] u) (\<lambda>(err, evs, u). case err of Some e \<Rightarrow> give (Some e, evs, u)
      | None \<Rightarrow> andThen (attempt (replace_record w cfg (\<lambda>r. r\<lparr>lr_phase := p\<rparr>) u)) (\<lambda>v. case v of Inl e \<Rightarrow> give (Some e, evs, u)
        | Inr u \<Rightarrow> andThen (attempt (andThen (emit w name) (\<lambda>_. body u))) (\<lambda>v. give (case v of Inl e \<Rightarrow> Some e | Inr _ \<Rightarrow> None, evs, u)))))"
    if "lease_record_ok u" for k n p name u
    by (rule upholds_then [OF upholds_workers [OF assms(1) _ that]]) (auto intro: upholds_give phase split: option.split)
  show ?thesis unfolding evaluator_try_def
    by (rule upholds_try [OF upholds_replace]) (use assms(2) in \<open>auto intro: upholds_give workers\<close>)
qed

lemma evaluator_body_records:
  assumes "world_ok w" "lease_record_ok r" "\<And>r. lease_record_ok r \<Longrightarrow> keeps records_ok (body r)"
  shows "keeps records_ok (evaluator_body w cfg body r)"
proof -
  have chosen: "lease_record_ok (case x of None \<Rightarrow> u | Some r \<Rightarrow> r)" if "opt_all lease_record_ok x" "lease_record_ok u" for x u
    using that by (cases x) simp_all
  have drain: "keeps records_ok (andThen get_active (\<lambda>active. andThen (replace_record w cfg (\<lambda>r. r\<lparr>lr_phase := p,
      lr_evaluators := is\<rparr>) (case active of None \<Rightarrow> u | Some r \<Rightarrow> r)) (\<lambda>u. drain_evaluators w cfg u)))"
    if "lease_record_ok u" "list_all is_verifiable is" for u p "is"
    by (rule keeps_upheld [OF upholds_get_active], rule keeps_upheld [OF upholds_replace])
      (use that chosen in \<open>auto intro: upholds_keeps [OF upholds_drain_evaluators]\<close>)
  have halt: "keeps records_ok (andThen get_active (\<lambda>active. andThen (set_lease_halt w cfg (case active of None \<Rightarrow> u | Some r \<Rightarrow> r) reason) (\<lambda>_. give x)))"
    if "lease_record_ok u" for u reason x
    by (rule keeps_upheld [OF upholds_get_active], rule keeps_upheld [OF upholds_halt]) (use that chosen in \<open>auto intro: keeps_give\<close>)
  have rest: "keeps records_ok (andThen (attempt (case err of None \<Rightarrow> give () | Some e \<Rightarrow> andThen (emit w name) (\<lambda>_. throw e))) (\<lambda>outcome.
     andThen (if evs = [] \<and> lr_evaluators u = [] then give None
       else andThen (attempt (andThen get_active (\<lambda>active. andThen (replace_record w cfg (\<lambda>r. r\<lparr>lr_phase := p,
             lr_evaluators := (if evs \<noteq> [] then evs else lr_evaluators u)\<rparr>) (case active of None \<Rightarrow> u | Some r \<Rightarrow> r)) (\<lambda>u. drain_evaluators w cfg u)))) (\<lambda>v.
         case v of Inr _ \<Rightarrow> give None
         | Inl e \<Rightarrow> andThen get_active (\<lambda>active.
             andThen (set_lease_halt w cfg (case active of None \<Rightarrow> u | Some r \<Rightarrow> r) (reason e)) (\<lambda>_. give (Some e))))) (\<lambda>drain_error.
     case outcome of Inl e \<Rightarrow> throw e
     | Inr _ \<Rightarrow> (case drain_error of None \<Rightarrow> give () | Some e \<Rightarrow> throw e))))"
    if "lease_record_ok u" "list_all is_verifiable evs" for err evs u p name reason
    by (intro keeps_rules records_inv.keeps_emit drain halt that) (use that ok_parts(3) in auto)
  show ?thesis unfolding evaluator_body_def
    by (rule keeps_upheld [OF upholds_evaluator_try [OF assms]]) (auto intro: rest)
qed

lemma lease_records:
  assumes "world_ok w" "\<And>r. lease_record_ok r \<Longrightarrow> keeps records_ok (body r)"
  shows "keeps records_ok (evaluator_lease w cfg body trainer)"
  unfolding evaluator_lease_def by (rule handoff_records [OF assms(1) evaluator_body_records [OF assms(1) _ assms(2)]])

lemma halt_request_records: "keeps records_ok (request_safety_halt w cfg reason)"
proof -
  have halt: "keeps records_ok (andThen (set_lease_halt w cfg r x) (\<lambda>h. set_active h))" if "lease_record_ok r" for r x
    by (rule keeps_upheld [OF upholds_halt [OF that]]) (rule upholds_keeps [OF upholds_set_active])
  show ?thesis unfolding request_safety_halt_def
    by (intro keeps_andThen keeps_require records_inv.keeps_require_mutation keeps_upheld [OF upholds_get_active] keeps_option keeps_throw halt) simp
qed

section \<open>Any sequence of calls\<close>

inductive lease_sound :: "lease_world \<Rightarrow> runtime_config \<Rightarrow> lease_manager \<Rightarrow> bool" for w cfg where
  fresh: "opt_all lease_record_ok f \<Longrightarrow> lease_sound w cfg \<lparr>lm_history = h, lm_file = f, lm_active = None\<rparr>"
| handoff: "lease_sound w cfg s \<Longrightarrow> (\<And>r. lease_record_ok r \<Longrightarrow> keeps records_ok (body r)) \<Longrightarrow>
    exclusive_handoff w cfg body trainer s = Some (res, t) \<Longrightarrow> lease_sound w cfg t"
| evaluators: "lease_sound w cfg s \<Longrightarrow> (\<And>r. lease_record_ok r \<Longrightarrow> keeps records_ok (body r)) \<Longrightarrow>
    evaluator_lease w cfg body trainer s = Some (res, t) \<Longrightarrow> lease_sound w cfg t"
| reconciled: "lease_sound w cfg s \<Longrightarrow> reconcile w cfg mutate s = Some (rep, t) \<Longrightarrow> lease_sound w cfg t"
| halt_requested: "lease_sound w cfg s \<Longrightarrow> request_safety_halt w cfg reason s = Some (unit, t) \<Longrightarrow> lease_sound w cfg t"

lemma sound_records:
  assumes "world_ok w" "lease_sound w cfg s"
  shows "records_ok s"
  using assms(2)
proof (induction rule: lease_sound.induct)
  case (fresh f h)
  then show ?case by (simp add: records_ok_def)
next
  case (handoff s body trainer res t)
  show ?case by (rule keeps_run [OF handoff_records [OF assms(1) handoff.hyps(2)] handoff.IH handoff.hyps(3)])
next
  case (evaluators s body trainer res t)
  show ?case by (rule keeps_run [OF lease_records [OF assms(1) evaluators.hyps(2)] evaluators.IH evaluators.hyps(3)])
next
  case (reconciled s mutate rep t)
  then show ?case using keeps_run [OF reconcile_records [OF assms(1)]] by blast
next
  case (halt_requested s reason unit t)
  then show ?case using keeps_run [OF halt_request_records] by blast
qed

section \<open>Readable state\<close>

definition durable_checkpoint :: checkpoint_identity where
  "durable_checkpoint = sample_checkpoint\<lparr>ck_sha256 := replicate 64 (CHR ''c'')\<rparr>"

definition durable_world :: lease_world where
  "durable_world = (sample_world [])\<lparr>w_checkpoint_identity := \<lambda>_. Inr (Some durable_checkpoint),
     w_clock := \<lambda>h. max 0 (slept h)\<rparr>"

definition durable_drained :: lease_record where
  "durable_drained = (sample_drained 11)\<lparr>lr_pre_drain_checkpoint := Some durable_checkpoint,
     lr_handoff_checkpoint := Some durable_checkpoint, lr_checkpoint_sha256 := Some (ck_sha256 durable_checkpoint)\<rparr>"

lemma durable_ok: "checkpoint_ok durable_checkpoint" "is_verifiable (sample_process p)" "lease_record_ok durable_drained" "world_ok durable_world"
proof -
  show c: "checkpoint_ok durable_checkpoint" by code_simp
  show i: "is_verifiable (sample_process p)" for p by (simp add: is_verifiable_def sample_process_def)
  show "lease_record_ok durable_drained"
    by (simp add: durable_drained_def sample_drained_def lease_record_ok_def c i)
  show "world_ok durable_world"
    by (simp add: world_ok_def durable_world_def sample_world_def c i split: if_splits)
qed

lemma durable_reconcile:
  "\<exists>rep t r. reconcile durable_world sample_config None (sample_start (Some durable_drained)) = Some (rep, t)
     \<and> lm_file t = Some r \<and> lr_trainer r = Some (sample_process 20)"
  by (simp add: lease_eval durable_world_def durable_drained_def durable_checkpoint_def)

text \<open>
  C16. Whatever sequence of handoffs, evaluator leases, reconciliations, halt requests and restarts came
  before, the text of the record in the state file is one that \<open>_load_record\<close> accepts and that gives
  the same record back: no call leaves the lease with a file its own validation refuses. This needs a
  JSON module that reads what it wrote, a runner that launches only processes whose identity
  can be verified, checkpoint digests of 64 hexadecimal digits and a clock that is not negative.
\<close>

theorem lease_file_readable:
  assumes "json_roundtrip env" "world_ok w" "lease_sound w cfg s" "lm_file s = Some r"
  shows "load_record_file env text (Some (RegularFile (record_bytes env r))) = Inr (Some r)"
  using load_written_record [OF assms(1)] sound_records [OF assms(2,3)] assms(4) by (simp add: records_ok_def)

theorem lease_file_readable_witness:
  "\<exists>rep t r. reconcile durable_world sample_config None (sample_start (Some durable_drained)) = Some (rep, t)
     \<and> lm_file t = Some r \<and> lr_trainer r = Some (sample_process 20)
     \<and> load_record_file sample_env (\<lambda>_. []) (Some (RegularFile (record_bytes sample_env r))) = Inr (Some r)"
proof -
  obtain rep t r where run: "reconcile durable_world sample_config None (sample_start (Some durable_drained)) = Some (rep, t)"
    and r: "lm_file t = Some r" "lr_trainer r = Some (sample_process 20)" using durable_reconcile by blast
  have "lease_sound durable_world sample_config t"
    by (rule lease_sound.reconciled [OF _ run]) (unfold sample_start_def, rule lease_sound.fresh, simp add: durable_ok)
  from lease_file_readable [OF sample_roundtrip durable_ok(4) this r(1)] show ?thesis using run r by blast
qed

end
