(* ===== verification/Position_Samples.thy ===== *)
theory Position_Samples
  imports Scheduler_Codec
begin

text \<open>
  \<^verbatim>\<open>position_samples.py\<close> and the position check of \<^verbatim>\<open>generate_schedule.py\<close>: PositionSample objects, their
  normal form and their identity. An object is an association list in the order of its keys, as
  canonical JSON writes it. The argument \<open>source\<close> of the code goes into messages only and is left
  out; of a message the fixed words are kept.
\<close>

datatype sample_error = ValueErrorP string | TypeErrorP | IndexErrorP | OverflowErrorP

section \<open>Text\<close>

text \<open>
  \<open>str.upper()\<close> on the code points 0 to 255. The two letters whose capitals lie outside, the micro sign
  and y with diaeresis, are kept.
\<close>

definition upper_char :: "char \<Rightarrow> string" where
  "upper_char c = (let n = (of_char c :: nat) in
     if n = 223 then ''SS''
     else if (97 \<le> n \<and> n \<le> 122) \<or> (224 \<le> n \<and> n \<le> 254 \<and> n \<noteq> 247) then [char_of (n - 32)] else [c])"

definition py_upper :: "string \<Rightarrow> string" where
  "py_upper s = concat (map upper_char s)"

text \<open>\<open>s.rstrip("/")\<close>, \<open>s.split("/")\<close> and \<open>"/".join(rows)\<close>.\<close>

definition rstrip_slash :: "string \<Rightarrow> string" where
  "rstrip_slash s = rev (dropWhile (\<lambda>c. c = CHR ''/'') (rev s))"

fun split_slash :: "string \<Rightarrow> string list" where
  "split_slash [] = [[]]"
| "split_slash (c # s) = (if c = CHR ''/'' then [] # split_slash s
     else (case split_slash s of [] \<Rightarrow> [[c]] | r # rs \<Rightarrow> (c # r) # rs))"

fun join_slash :: "string list \<Rightarrow> string" where
  "join_slash [] = []"
| "join_slash [r] = r"
| "join_slash (r # rs) = r @ ''/'' @ join_slash rs"

definition GTP_COLUMNS :: string where
  "GTP_COLUMNS = ''ABCDEFGHJKLMNOPQRSTUVWXYZ''"

definition column_index :: "char \<Rightarrow> int" where
  "column_index c = int (length (takeWhile (\<lambda>d. d \<noteq> c) GTP_COLUMNS))"

text \<open>The regular expressions \<open>_GTP_LOCATION\<close> and \<open>_MACHINE_LOCATION\<close>, matched on the whole text.\<close>

definition gtp_match :: "string \<Rightarrow> (char \<times> string) option" where
  "gtp_match s = (case s of [] \<Rightarrow> None
     | c # ds \<Rightarrow> if c \<in> set GTP_COLUMNS \<and> ds \<noteq> [] \<and> list_all ascii_digit ds then Some (c, ds) else None)"

definition machine_match :: "string \<Rightarrow> (string \<times> string) option" where
  "machine_match s = (if take 1 s \<noteq> ''('' then None else
     (let a = dropWhile py_isspace (drop 1 s); x = takeWhile ascii_digit a;
          b = dropWhile py_isspace (dropWhile ascii_digit a);
          c = dropWhile py_isspace (drop 1 b); y = takeWhile ascii_digit c;
          d = dropWhile py_isspace (dropWhile ascii_digit c)
      in if x \<noteq> [] \<and> take 1 b = '','' \<and> y \<noteq> [] \<and> d = '')'' then Some (x, y) else None))"

definition gtp_text :: "int \<Rightarrow> int \<Rightarrow> string" where
  "gtp_text x row = GTP_COLUMNS ! nat x # fmt_0d 0 row"

section \<open>Validation\<close>

definition REQUIRED_POSITION_KEYS :: "string list" where
  "REQUIRED_POSITION_KEYS = [''board'', ''hintLoc'', ''initialTurnNumber'', ''moveLocs'', ''movePlas'',
     ''nextPla'', ''xSize'', ''ySize'']"

text \<open>The value of an instance of \<open>int\<close>; booleans are such instances.\<close>

fun int_value :: "json \<Rightarrow> int option" where
  "int_value (JInt i) = Some i"
| "int_value (JBool b) = Some (if b then 1 else 0)"
| "int_value _ = None"

definition validate_position :: "jobj \<Rightarrow> sample_error + jobj" where
  "validate_position p =
    (if \<not> list_all (jhas p) REQUIRED_POSITION_KEYS then Inl (ValueErrorP ''missing PositionSample keys'')
     else (case (int_value (jget p ''xSize''), int_value (jget p ''ySize'')) of
        (Some x, Some y) \<Rightarrow>
          if x \<le> 0 \<or> y \<le> 0 then Inl (ValueErrorP ''xSize and ySize must be positive'')
          else (case (jget p ''moveLocs'', jget p ''movePlas'') of
              (JList ls, JList ps) \<Rightarrow> if length ls \<noteq> length ps
                then Inl (ValueErrorP ''moveLocs and movePlas must have equal length'') else Inr p
            | _ \<Rightarrow> Inl (ValueErrorP ''moveLocs and movePlas must be arrays''))
      | _ \<Rightarrow> Inl (ValueErrorP ''xSize and ySize must be integers'')))"

definition null_words :: "string list" where
  "null_words = ['''', ''null'', [CHR 0x27, CHR 0x27], [CHR 0x22, CHR 0x22],
     CHR 0x27 # ''null'' @ [CHR 0x27], CHR 0x22 # ''null'' @ [CHR 0x22]]"

definition pass_words :: "string list" where
  "pass_words = [''pass'', ''pss'']"

text \<open>A location of the board, written \<open>(x,y)\<close> or as column letter and row number.\<close>

definition board_location :: "int \<Rightarrow> int \<Rightarrow> string \<Rightarrow> sample_error + string" where
  "board_location x_size y_size text = (case machine_match text of
     Some (a, b) \<Rightarrow> (let x = int (dec_val a); y = int (dec_val b) in
       if \<not> (x < x_size \<and> y < y_size) then Inl (ValueErrorP ''machine location is off board'')
       else if x \<ge> int (length GTP_COLUMNS) then Inl IndexErrorP
       else Inr (gtp_text x (y_size - y)))
   | None \<Rightarrow> (case gtp_match (py_upper text) of
       None \<Rightarrow> Inl (ValueErrorP ''malformed GTP location'')
     | Some (c, ds) \<Rightarrow> (let x = column_index c; row = int (dec_val ds) in
         if x \<ge> x_size \<or> \<not> (1 \<le> row \<and> row \<le> y_size) then Inl (ValueErrorP ''GTP location is off board'')
         else Inr (gtp_text x row))))"

definition canonical_location :: "bool \<Rightarrow> int \<Rightarrow> int \<Rightarrow> json \<Rightarrow> sample_error + string" where
  "canonical_location allow_null x_size y_size v = (case v of
     JStr value \<Rightarrow>
      (let text = py_strip value; lowered = py_lower text in
       if lowered \<in> set pass_words then Inr ''pass''
       else if lowered \<in> set null_words then
         (if allow_null then Inr ''null'' else Inl (ValueErrorP ''null is not a legal move''))
       else board_location x_size y_size text)
   | _ \<Rightarrow> Inl (ValueErrorP ''location must be a string''))"

text \<open>The rows of a board string, and their check against the dimensions.\<close>

definition rows_of :: "string \<Rightarrow> string list" where
  "rows_of board = split_slash (rstrip_slash board)"

definition board_char :: "char \<Rightarrow> bool" where
  "board_char c \<longleftrightarrow> c \<in> set ''.xXoO''"

definition rows_ok :: "int \<Rightarrow> int \<Rightarrow> string list \<Rightarrow> bool" where
  "rows_ok x_size y_size rows \<longleftrightarrow> int (length rows) = y_size \<and> list_all (\<lambda>r. int (length r) = x_size) rows
     \<and> list_all (list_all board_char) rows"

text \<open>Players: text is capitalised, and membership in \<open>{"B", "W"}\<close> raises for unhashable values.\<close>

fun player_value :: "json \<Rightarrow> json" where
  "player_value (JStr s) = JStr (py_upper s)"
| "player_value v = v"

fun is_player :: "json \<Rightarrow> sample_error + bool" where
  "is_player (JStr s) = Inr (s = ''B'' \<or> s = ''W'')"
| "is_player (JList _) = Inl TypeErrorP"
| "is_player (JObj _) = Inl TypeErrorP"
| "is_player _ = Inr False"

fun any_not_player :: "json list \<Rightarrow> sample_error + bool" where
  "any_not_player [] = Inr False"
| "any_not_player (p # ps) = bindE (is_player p) (\<lambda>b. if b then any_not_player ps else Inr True)"

text \<open>\<open>math.isfinite(float(item))\<close> of a number; \<open>float()\<close> of an integer beyond the doubles raises.\<close>

fun finite_number :: "json \<Rightarrow> sample_error + bool" where
  "finite_number (JInt i) = (if \<bar>i\<bar> \<ge> 2 ^ 1024 - 2 ^ 970 then Inl OverflowErrorP else Inr True)"
| "finite_number (JFloat x) = Inr (isfinite x)"
| "finite_number _ = Inr False"

definition OPTIONAL_POSITION_FIELDS :: "string list" where
  "OPTIONAL_POSITION_FIELDS = [''weight'', ''trainingWeight'', ''metadata'']"

definition add_optional :: "jobj \<Rightarrow> jobj \<Rightarrow> string \<Rightarrow> sample_error + jobj" where
  "add_optional checked normalized key =
    (if \<not> jhas checked key then Inr normalized
     else (let item = jget checked key in
       if key = ''metadata'' then (case item of
           JStr _ \<Rightarrow> Inr (jset normalized key item)
         | _ \<Rightarrow> Inl (ValueErrorP ''metadata must remain a string''))
       else bindE (finite_number item) (\<lambda>ok.
         if ok then Inr (jset normalized key item) else Inl (ValueErrorP ''must be finite''))))"

text \<open>A sample may be wrapped in an object under the key \<open>position\<close>.\<close>

definition unwrapped :: "jobj \<Rightarrow> jobj" where
  "unwrapped value = (case jget value ''position'' of JObj p \<Rightarrow> p | _ \<Rightarrow> value)"

definition required_fields :: "string list \<Rightarrow> string \<Rightarrow> int \<Rightarrow> string list \<Rightarrow> json list \<Rightarrow> json \<Rightarrow> int \<Rightarrow> int \<Rightarrow> jobj" where
  "required_fields rows hint turn moves move_players next_player x_size y_size =
    [(''board'', JStr (join_slash rows)), (''hintLoc'', JStr hint), (''initialTurnNumber'', JInt turn),
     (''moveLocs'', JList (map JStr moves)), (''movePlas'', JList move_players), (''nextPla'', next_player),
     (''xSize'', JInt x_size), (''ySize'', JInt y_size)]"

text \<open>The moves, the turn number, the hint and the optional fields, after board and next player.\<close>

definition normalize_moves :: "jobj \<Rightarrow> int \<Rightarrow> int \<Rightarrow> string list \<Rightarrow> json \<Rightarrow> json list \<Rightarrow> json list \<Rightarrow> sample_error + jobj" where
  "normalize_moves checked x_size y_size rows next_player locs plas =
    (let move_players = map player_value plas in
     bindE (any_not_player move_players) (\<lambda>bad.
     if bad then Inl (ValueErrorP ''movePlas must contain only B or W'')
     else (case jget checked ''initialTurnNumber'' of
       JInt turn \<Rightarrow> if turn < 0 then Inl (ValueErrorP ''initialTurnNumber must be nonnegative'')
         else bindE (mapE (canonical_location False x_size y_size) locs) (\<lambda>moves.
           bindE (canonical_location True x_size y_size (jget checked ''hintLoc'')) (\<lambda>hint.
           runE (add_optional checked) (required_fields (map py_upper rows) hint turn moves move_players next_player x_size y_size)
             OPTIONAL_POSITION_FIELDS))
     | _ \<Rightarrow> Inl (ValueErrorP ''initialTurnNumber must be nonnegative''))))"

definition normalize_board :: "jobj \<Rightarrow> int \<Rightarrow> int \<Rightarrow> sample_error + jobj" where
  "normalize_board checked x_size y_size = (case jget checked ''board'' of
     JStr board \<Rightarrow> (let rows = rows_of board in
       if \<not> rows_ok x_size y_size rows then Inl (ValueErrorP ''board string does not match its dimensions'')
       else (let next_player = player_value (jget checked ''nextPla'') in
         bindE (is_player next_player) (\<lambda>ok.
         if \<not> ok then Inl (ValueErrorP ''nextPla must be B or W'')
         else (case (jget checked ''moveLocs'', jget checked ''movePlas'') of
             (JList locs, JList plas) \<Rightarrow> normalize_moves checked x_size y_size rows next_player locs plas
           | _ \<Rightarrow> Inl TypeErrorP))))
   | _ \<Rightarrow> Inl (ValueErrorP ''board must be a string''))"

definition normalize_position_sample :: "jobj \<Rightarrow> sample_error + jobj" where
  "normalize_position_sample value =
    bindE (validate_position (unwrapped value)) (\<lambda>checked.
    case (jget checked ''xSize'', jget checked ''ySize'') of
      (JInt x_size, JInt y_size) \<Rightarrow> normalize_board checked x_size y_size
    | _ \<Rightarrow> Inl (ValueErrorP ''board dimensions may not be booleans''))"

section \<open>Identity\<close>

definition SEMANTIC_POSITION_FIELDS :: "string list" where
  "SEMANTIC_POSITION_FIELDS = [''xSize'', ''ySize'', ''board'', ''nextPla'', ''moveLocs'', ''movePlas'', ''initialTurnNumber'']"

definition restrict_keys :: "string list \<Rightarrow> jobj \<Rightarrow> jobj" where
  "restrict_keys ks p = filter (\<lambda>(k, v). k \<in> set ks) p"

definition semantic_position :: "jobj \<Rightarrow> sample_error + jobj" where
  "semantic_position position =
    bindE (normalize_position_sample (restrict_keys REQUIRED_POSITION_KEYS (unwrapped position))) (\<lambda>normalized.
    Inr (restrict_keys SEMANTIC_POSITION_FIELDS normalized))"

definition semantic_position_sha256 :: "promo_env \<Rightarrow> jobj \<Rightarrow> sample_error + string" where
  "semantic_position_sha256 env position =
    bindE (semantic_position position) (\<lambda>s. Inr (canonical_sha256 env (JObj s)))"

section \<open>Queries\<close>

definition gtp_location :: "int \<Rightarrow> int \<Rightarrow> int \<Rightarrow> sample_error + string" where
  "gtp_location x y y_size = (if x \<ge> int (length GTP_COLUMNS)
     then Inl (ValueErrorP ''analysis query generation supports boards up to 25 columns'')
     else Inr (gtp_text x (y_size - y)))"

text \<open>The cells of the rows with their coordinates, in the order of the nested loops.\<close>

definition cells :: "string list \<Rightarrow> (int \<times> int \<times> char) list" where
  "cells rows = concat (map (\<lambda>(y, row). map (\<lambda>(x, c). (int x, int y, c)) (List.enumerate 0 row)) (List.enumerate 0 rows))"

fun stones_of :: "int \<Rightarrow> (int \<times> int \<times> char) list \<Rightarrow> sample_error + (string \<times> string) list" where
  "stones_of y_size [] = Inr []"
| "stones_of y_size ((x, y, c) # cs) =
    (if c \<in> set ''xXoO'' then bindE (gtp_location x y y_size) (\<lambda>l. bindE (stones_of y_size cs) (\<lambda>ss.
       Inr ((if c \<in> set ''xX'' then ''B'' else ''W'', l) # ss)))
     else stones_of y_size cs)"

definition initial_stones :: "jobj \<Rightarrow> sample_error + (string \<times> string) list" where
  "initial_stones position = bindE (normalize_position_sample position) (\<lambda>normalized.
     case (jget normalized ''board'', jget normalized ''ySize'') of
       (JStr board, JInt y_size) \<Rightarrow> stones_of y_size (cells (rows_of board))
     | _ \<Rightarrow> Inl TypeErrorP)"

fun zip_json :: "json \<Rightarrow> json \<Rightarrow> json list" where
  "zip_json (JList xs) (JList ys) = map (\<lambda>(x, y). JList [x, y]) (zip xs ys)"
| "zip_json _ _ = []"

fun komi_value :: "json \<Rightarrow> sample_error + json" where
  "komi_value (JInt i) = (if \<bar>i\<bar> \<ge> 2 ^ 1024 - 2 ^ 970 then Inl OverflowErrorP else Inr (JFloat (Fin (of_int i))))"
| "komi_value (JFloat x) = Inr (JFloat x)"
| "komi_value _ = Inl (ValueErrorP ''analysis komi must be numeric'')"

definition build_analysis_query :: "jobj \<Rightarrow> string \<Rightarrow> int \<Rightarrow> bool \<Rightarrow> json \<Rightarrow> sample_error + jobj" where
  "build_analysis_query position query_id max_visits powered komi =
    bindE (normalize_position_sample position) (\<lambda>normalized.
    if query_id = [] then Inl (ValueErrorP ''analysis query id must be nonempty'')
    else if max_visits \<le> 0 then Inl (ValueErrorP ''analysis max_visits must be a positive integer'')
    else if \<not> (case komi of JInt _ \<Rightarrow> True | JFloat _ \<Rightarrow> True | _ \<Rightarrow> False) then Inl (ValueErrorP ''analysis komi must be numeric'')
    else bindE (initial_stones normalized) (\<lambda>stones. bindE (komi_value komi) (\<lambda>k. Inr
      [(''boardXSize'', jget normalized ''xSize''), (''boardYSize'', jget normalized ''ySize''), (''id'', JStr query_id),
       (''includePolicy'', JBool True), (''initialPlayer'', jget normalized ''nextPla''),
       (''initialStones'', JList (map (\<lambda>(c, l). JList [JStr c, JStr l]) stones)), (''komi'', k),
       (''maxVisits'', JInt max_visits), (''moves'', JList (zip_json (jget normalized ''movePlas'') (jget normalized ''moveLocs''))),
       (''overrideSettings'', JObj [(''rootNoiseEnabled'', JBool False), (''rootNumSymmetriesToSample'', JInt 1),
         (''scorePower'', JFloat (Fin (3 / 2))), (''scoreScale'', JFloat (Fin 20)),
         (''useScoreMaximizingUtility'', JBool powered), (''winWeight'', JFloat (Fin 4))]),
       (''rules'', JStr ''tromp-taylor'')])))"

section \<open>Canonical locations\<close>

lemma strip_clean: "list_all (\<lambda>c. \<not> py_isspace c) s \<Longrightarrow> py_strip s = s"
proof -
  have "dropWhile py_isspace t = t" if "list_all (\<lambda>c. \<not> py_isspace c) t" for t
    using that by (cases t) simp_all
  then show "list_all (\<lambda>c. \<not> py_isspace c) s \<Longrightarrow> py_strip s = s" by (simp add: py_strip_def)
qed

lemma digit_char: "ascii_digit c \<Longrightarrow> \<not> py_isspace c \<and> lower_char c = c \<and> upper_char c = [c]"
  by (auto simp: ascii_digit_def py_isspace_def lower_char_def upper_char_def Let_def)

lemma column_char: "list_all (\<lambda>c. \<not> py_isspace c \<and> upper_char c = [c] \<and> c \<noteq> CHR ''('') GTP_COLUMNS"
  by code_simp

lemma columns: "length GTP_COLUMNS = 25" "list_all (\<lambda>n. column_index (GTP_COLUMNS ! n) = int n) [0..<25]"
  by code_simp+

lemma column_index_nth: "0 \<le> x \<Longrightarrow> x < 25 \<Longrightarrow> column_index (GTP_COLUMNS ! nat x) = x"
  using columns(2) by (simp add: list_all_iff)

lemma column_in: "0 \<le> x \<Longrightarrow> x < 25 \<Longrightarrow> GTP_COLUMNS ! nat x \<in> set GTP_COLUMNS"
  by (simp add: columns(1))

lemma column_range: "c \<in> set GTP_COLUMNS \<Longrightarrow> 0 \<le> column_index c \<and> column_index c < 25 \<and> GTP_COLUMNS ! nat (column_index c) = c"
proof -
  assume a: "c \<in> set GTP_COLUMNS"
  have t: "length (takeWhile (\<lambda>d. d \<noteq> c) GTP_COLUMNS) < length GTP_COLUMNS"
    using a by (metis (full_types) length_takeWhile_le nat_less_le takeWhile_eq_all_conv takeWhile_eq_take take_all_iff le_refl)
  then show ?thesis using nth_length_takeWhile [OF t] columns(1) by (simp add: column_index_def)
qed

lemma decimal_digits: "0 \<le> n \<Longrightarrow> fmt_0d 0 n \<noteq> [] \<and> list_all ascii_digit (fmt_0d 0 n) \<and> int (dec_val (fmt_0d 0 n)) = n"
  using ascii_nat_digits [of "nat n"] dec_val_fmt_0d [of n 0]
  by (simp add: fmt_0d_def pad_zeros_def nat_digits.simps [of "nat n"])

text \<open>Texts of the canonical form: on the board, or a pass, or where allowed null.\<close>

definition canonical_form :: "bool \<Rightarrow> int \<Rightarrow> int \<Rightarrow> string \<Rightarrow> bool" where
  "canonical_form allow_null x_size y_size s \<longleftrightarrow> s = ''pass'' \<or> allow_null \<and> s = ''null''
     \<or> (\<exists>x row. 0 \<le> x \<and> x < 25 \<and> x < x_size \<and> 1 \<le> row \<and> row \<le> y_size \<and> s = gtp_text x row)"

lemma gtp_text_read:
  assumes "0 \<le> x" "x < 25" "0 \<le> row"
  shows "py_strip (gtp_text x row) = gtp_text x row" "py_upper (gtp_text x row) = gtp_text x row"
    "gtp_match (gtp_text x row) = Some (GTP_COLUMNS ! nat x, fmt_0d 0 row)" "machine_match (gtp_text x row) = None"
    "ascii_digit (last (py_lower (gtp_text x row)))" "gtp_text x row \<noteq> []"
proof -
  have c: "GTP_COLUMNS ! nat x \<in> set GTP_COLUMNS" by (rule column_in [OF assms(1,2)])
  note cc = column_char [unfolded list_all_iff, rule_format, OF c]
  note d = decimal_digits [OF assms(3)]
  have ds: "\<And>e. e \<in> set (fmt_0d 0 row) \<Longrightarrow> \<not> py_isspace e \<and> lower_char e = e \<and> upper_char e = [e]"
    using d digit_char by (simp add: list_all_iff)
  show "py_strip (gtp_text x row) = gtp_text x row"
    by (rule strip_clean) (use cc ds in \<open>simp add: gtp_text_def list_all_iff\<close>)
  have "concat (map upper_char (fmt_0d 0 row)) = concat (map (\<lambda>e. [e]) (fmt_0d 0 row))"
    using ds by (intro arg_cong [of _ _ concat] map_cong) simp_all
  then show "py_upper (gtp_text x row) = gtp_text x row"
    using cc by (simp add: py_upper_def gtp_text_def concat_map_singleton)
  show "gtp_match (gtp_text x row) = Some (GTP_COLUMNS ! nat x, fmt_0d 0 row)"
    using c d by (simp add: gtp_match_def gtp_text_def)
  show "machine_match (gtp_text x row) = None"
    using cc by (simp add: machine_match_def gtp_text_def)
  have "map lower_char (fmt_0d 0 row) = fmt_0d 0 row" using ds by (simp add: map_idI)
  then show "ascii_digit (last (py_lower (gtp_text x row)))"
    using d by (simp add: py_lower_def gtp_text_def list_all_iff)
  show "gtp_text x row \<noteq> []" by (simp add: gtp_text_def)
qed

lemma word_ends: "w \<in> set (pass_words @ null_words) \<Longrightarrow> w = [] \<or> \<not> ascii_digit (last w)"
proof -
  have "list_all (\<lambda>w. w = [] \<or> \<not> ascii_digit (last w)) (pass_words @ null_words)" by code_simp
  then show "w \<in> set (pass_words @ null_words) \<Longrightarrow> w = [] \<or> \<not> ascii_digit (last w)" by (simp only: list_all_iff)
qed

lemma gtp_text_no_word:
  assumes "0 \<le> x" "x < 25" "0 \<le> row"
  shows "py_lower (gtp_text x row) \<notin> set pass_words" "py_lower (gtp_text x row) \<notin> set null_words"
  using word_ends [of "py_lower (gtp_text x row)"] gtp_text_read(5,6) [OF assms] by (auto simp: py_lower_def)

lemma canonical_gtp:
  assumes "0 \<le> x" "x < 25" "x < x_size" "1 \<le> row" "row \<le> y_size"
  shows "canonical_location n x_size y_size (JStr (gtp_text x row)) = Inr (gtp_text x row)"
proof -
  have r: "0 \<le> row" using assms(4) by simp
  show ?thesis
    using assms gtp_text_read [OF assms(1,2) r] column_index_nth [OF assms(1,2)] decimal_digits [OF r] gtp_text_no_word [OF assms(1,2) r]
    by (simp add: canonical_location_def board_location_def Let_def)
qed

lemma canonical_form_fixed: "canonical_form n x_size y_size s \<Longrightarrow> canonical_location n x_size y_size (JStr s) = Inr s"
proof -
  have "py_lower (py_strip ''pass'') \<in> set pass_words" by code_simp
  then have 1: "canonical_location n x_size y_size (JStr ''pass'') = Inr ''pass''"
    by (simp add: canonical_location_def)
  have "py_lower (py_strip ''null'') \<notin> set pass_words" "py_lower (py_strip ''null'') \<in> set null_words" by code_simp+
  then have 2: "canonical_location True x_size y_size (JStr ''null'') = Inr ''null''"
    by (simp add: canonical_location_def)
  show "canonical_form n x_size y_size s \<Longrightarrow> canonical_location n x_size y_size (JStr s) = Inr s"
    using 1 2 by (auto simp: canonical_form_def canonical_gtp)
qed

lemma board_location_form:
  assumes "board_location x_size y_size text = Inr s"
  shows "\<exists>x row. 0 \<le> x \<and> x < 25 \<and> x < x_size \<and> 1 \<le> row \<and> row \<le> y_size \<and> s = gtp_text x row"
proof (cases "machine_match text")
  case (Some ab)
  obtain a b where ab: "ab = (a, b)" by (cases ab)
  show ?thesis using assms Some unfolding ab
    by (intro exI [of _ "int (dec_val a)"] exI [of _ "y_size - int (dec_val b)"])
      (auto simp: board_location_def Let_def columns(1) split: if_splits)
next
  case None
  then obtain c ds where m: "gtp_match (py_upper text) = Some (c, ds)"
    using assms by (auto simp: board_location_def split: option.splits)
  then have "c \<in> set GTP_COLUMNS" by (auto simp: gtp_match_def split: list.splits if_splits)
  then show ?thesis using assms m None column_range [of c]
    by (intro exI [of _ "column_index c"] exI [of _ "int (dec_val ds)"]) (auto simp: board_location_def Let_def split: if_splits)
qed

lemma canonical_location_form: "canonical_location n x_size y_size v = Inr s \<Longrightarrow> canonical_form n x_size y_size s"
  using board_location_form
  by (cases v) (auto simp: canonical_location_def canonical_form_def Let_def split: if_splits)

section \<open>Normal form\<close>

lemma split_no_slash: "CHR ''/'' \<notin> set r \<Longrightarrow> split_slash r = [r]"
  by (induction r) auto

lemma split_append: "CHR ''/'' \<notin> set r \<Longrightarrow> split_slash (r @ CHR ''/'' # s) = r # split_slash s"
  by (induction r) auto

lemma split_join: "rows \<noteq> [] \<Longrightarrow> list_all (\<lambda>r. CHR ''/'' \<notin> set r) rows \<Longrightarrow> split_slash (join_slash rows) = rows"
  by (induction rows rule: join_slash.induct) (simp_all add: split_no_slash split_append)

lemma join_last: "rows \<noteq> [] \<Longrightarrow> list_all (\<lambda>r. r \<noteq> []) rows \<Longrightarrow> join_slash rows \<noteq> [] \<and> last (join_slash rows) = last (last rows)"
  by (induction rows rule: join_slash.induct) auto

lemma rstrip_fixed: "s = [] \<or> last s \<noteq> CHR ''/'' \<Longrightarrow> rstrip_slash s = s"
  unfolding rstrip_slash_def by (cases s rule: rev_cases) auto

lemma rows_join:
  assumes "rows_ok x_size y_size rows" "0 < x_size" "0 < y_size"
  shows "rows_of (join_slash rows) = rows"
proof -
  have ne: "rows \<noteq> []" "list_all (\<lambda>r. r \<noteq> []) rows" using assms by (auto simp: rows_ok_def list_all_iff)
  have "\<not> board_char (CHR ''/'')" by code_simp
  then have slash: "list_all (\<lambda>r. CHR ''/'' \<notin> set r) rows" using assms(1) by (auto simp: rows_ok_def list_all_iff)
  have "last (last rows) \<in> set (last rows)" "last rows \<in> set rows" using ne by (simp_all add: list_all_iff)
  then have "last (join_slash rows) \<noteq> CHR ''/''" using join_last [OF ne] slash by (auto simp: list_all_iff)
  then show ?thesis by (simp add: rows_of_def rstrip_fixed split_join [OF ne(1) slash])
qed

lemma upper_row: "list_all board_char r \<Longrightarrow> length (py_upper r) = length r \<and> list_all board_char (py_upper r) \<and> py_upper (py_upper r) = py_upper r"
proof (induction r)
  case Nil
  then show ?case by (simp add: py_upper_def)
next
  case (Cons c r)
  have "list_all (\<lambda>c. length (upper_char c) = 1 \<and> board_char (hd (upper_char c)) \<and> upper_char (hd (upper_char c)) = upper_char c) ''.xXoO''"
    by code_simp
  moreover have "c \<in> set ''.xXoO''" using Cons.prems by (simp add: board_char_def)
  ultimately have "length (upper_char c) = 1 \<and> board_char (hd (upper_char c)) \<and> upper_char (hd (upper_char c)) = upper_char c"
    unfolding list_all_iff by blast
  then obtain d where d: "upper_char c = [d]" "board_char d" "upper_char d = [d]"
    by (cases "upper_char c") auto
  have u: "py_upper (c # r) = d # py_upper r" using d(1) by (simp add: py_upper_def)
  have v: "py_upper (d # t) = d # py_upper t" for t using d(3) by (simp add: py_upper_def)
  show ?case unfolding u v using Cons d(2) by simp
qed

lemma rows_ok_upper: "rows_ok x_size y_size rows \<Longrightarrow> rows_ok x_size y_size (map py_upper rows) \<and> map py_upper (map py_upper rows) = map py_upper rows"
  using upper_row by (auto simp: rows_ok_def list_all_iff)

lemma player_fixed: "is_player (player_value v) = Inr True \<Longrightarrow> player_value (player_value v) = player_value v"
proof -
  have "py_upper ''B'' = ''B''" "py_upper ''W'' = ''W''" by code_simp+
  then show "is_player (player_value v) = Inr True \<Longrightarrow> player_value (player_value v) = player_value v"
    by (cases v) auto
qed

lemma players_fixed: "any_not_player (map player_value ps) = Inr False \<Longrightarrow> map player_value (map player_value ps) = map player_value ps"
  by (induction ps) (auto simp: res_simps player_fixed split: if_splits)

lemma optional_fields:
  "runE (add_optional c) n ks = Inr q \<Longrightarrow>
    jget q k = (if k \<in> set ks \<and> jhas c k then jget c k else jget n k) \<and> (jhas q k \<longleftrightarrow> k \<in> set ks \<and> jhas c k \<or> jhas n k)"
proof (induction ks arbitrary: n)
  case (Cons l ks)
  then obtain m where m: "add_optional c n l = Inr m" "runE (add_optional c) m ks = Inr q" by (auto simp: res_simps)
  have "m = (if jhas c l then jset n l (jget c l) else n)"
    using m(1) by (auto simp: add_optional_def Let_def res_simps split: if_splits json.splits)
  then show ?case using Cons.IH [OF m(2)] by (auto simp: jget_jset jhas_jset)
qed simp

lemma optional_same:
  "(\<And>k. k \<in> set ks \<Longrightarrow> jhas d k = jhas c k \<and> (jhas c k \<longrightarrow> jget d k = jget c k)) \<Longrightarrow> runE (add_optional d) n ks = runE (add_optional c) n ks"
proof (induction ks arbitrary: n)
  case (Cons l ks)
  have "add_optional d n l = add_optional c n l" using Cons.prems [of l] by (simp add: add_optional_def)
  then show ?case using Cons by (cases "add_optional c n l") auto
qed simp

lemma required_keys: "jhas (required_fields rows hint turn moves ps np x y) k \<longleftrightarrow> k \<in> set REQUIRED_POSITION_KEYS"
  by (auto simp: required_fields_def REQUIRED_POSITION_KEYS_def jhas_def)

lemma required_get:
  "jget (required_fields rows hint turn moves ps np x y) ''board'' = JStr (join_slash rows)"
  "jget (required_fields rows hint turn moves ps np x y) ''hintLoc'' = JStr hint"
  "jget (required_fields rows hint turn moves ps np x y) ''initialTurnNumber'' = JInt turn"
  "jget (required_fields rows hint turn moves ps np x y) ''moveLocs'' = JList (map JStr moves)"
  "jget (required_fields rows hint turn moves ps np x y) ''movePlas'' = JList ps"
  "jget (required_fields rows hint turn moves ps np x y) ''nextPla'' = np"
  "jget (required_fields rows hint turn moves ps np x y) ''xSize'' = JInt x"
  "jget (required_fields rows hint turn moves ps np x y) ''ySize'' = JInt y"
  "jget (required_fields rows hint turn moves ps np x y) ''position'' = JNull"
  by (simp_all add: required_fields_def jget_def)

lemma no_optional: "k \<in> set REQUIRED_POSITION_KEYS \<Longrightarrow> k \<notin> set OPTIONAL_POSITION_FIELDS" "''position'' \<notin> set OPTIONAL_POSITION_FIELDS"
proof -
  have "list_all (\<lambda>k. k \<notin> set OPTIONAL_POSITION_FIELDS) (''position'' # REQUIRED_POSITION_KEYS)" by code_simp
  then show "k \<in> set REQUIRED_POSITION_KEYS \<Longrightarrow> k \<notin> set OPTIONAL_POSITION_FIELDS" "''position'' \<notin> set OPTIONAL_POSITION_FIELDS"
    by (simp_all add: list_all_iff)
qed

text \<open>What a normal form consists of.\<close>

definition parts_ok :: "string list \<Rightarrow> string \<Rightarrow> int \<Rightarrow> string list \<Rightarrow> json list \<Rightarrow> json \<Rightarrow> int \<Rightarrow> int \<Rightarrow> bool" where
  "parts_ok rows hint turn moves ps np x y \<longleftrightarrow> 0 < x \<and> 0 < y \<and> rows_ok x y rows \<and> map py_upper rows = rows
     \<and> canonical_form True x y hint \<and> 0 \<le> turn \<and> list_all (canonical_form False x y) moves \<and> length moves = length ps
     \<and> any_not_player ps = Inr False \<and> map player_value ps = ps \<and> is_player np = Inr True \<and> player_value np = np"

lemma mapE_length: "mapE f xs = Inr ys \<Longrightarrow> length ys = length xs"
  by (induction xs arbitrary: ys) (auto simp: res_simps)

lemma mapE_all: "mapE f xs = Inr ys \<Longrightarrow> (\<And>x y. f x = Inr y \<Longrightarrow> P y) \<Longrightarrow> list_all P ys"
  by (induction xs arbitrary: ys) (auto simp: res_simps)

lemma validateD:
  assumes "validate_position p = Inr c" "jget c ''xSize'' = JInt x" "jget c ''ySize'' = JInt y"
  shows "c = p" "0 < x" "0 < y" "\<exists>ls ps. jget c ''moveLocs'' = JList ls \<and> jget c ''movePlas'' = JList ps \<and> length ls = length ps"
proof -
  show c: "c = p" using assms(1) by (auto simp: validate_position_def split: if_splits option.splits json.splits)
  show "0 < x" "0 < y" using assms unfolding c by (auto simp: validate_position_def split: if_splits)
  then show "\<exists>ls ps. jget c ''moveLocs'' = JList ls \<and> jget c ''movePlas'' = JList ps \<and> length ls = length ps"
    using assms unfolding c by (cases "jget p ''moveLocs''"; cases "jget p ''movePlas''") (auto simp: validate_position_def split: if_splits)
qed

lemma normalize_movesE:
  assumes "normalize_moves c x y rows np locs plas = Inr q" "0 < x" "0 < y" "rows_ok x y rows" "is_player (player_value n) = Inr True"
    "np = player_value n" "length locs = length plas"
  shows "\<exists>rows hint turn moves ps np. parts_ok rows hint turn moves ps np x y
    \<and> runE (add_optional c) (required_fields rows hint turn moves ps np x y) OPTIONAL_POSITION_FIELDS = Inr q"
proof -
  from assms(1) obtain turn moves hint where ps: "any_not_player (map player_value plas) = Inr False" and t: "\<not> turn < 0"
    and m: "mapE (canonical_location False x y) locs = Inr moves"
    and h: "canonical_location True x y (jget c ''hintLoc'') = Inr hint"
    and q: "runE (add_optional c) (required_fields (map py_upper rows) hint turn moves (map player_value plas) np x y) OPTIONAL_POSITION_FIELDS = Inr q"
    unfolding normalize_moves_def Let_def bindE_Inr by (auto simp: bindE_Inr split: if_splits json.splits)
  have "parts_ok (map py_upper rows) hint turn moves (map player_value plas) np x y"
    using assms t ps rows_ok_upper [OF assms(4)] player_fixed [OF assms(5)] players_fixed [OF ps] mapE_length [OF m]
      canonical_location_form [OF h] mapE_all [OF m canonical_location_form] unfolding parts_ok_def by auto
  then show ?thesis using q by blast
qed

lemma normalizeE:
  assumes "normalize_position_sample v = Inr q"
  obtains rows hint turn moves ps np x y where "parts_ok rows hint turn moves ps np x y"
    "runE (add_optional (unwrapped v)) (required_fields rows hint turn moves ps np x y) OPTIONAL_POSITION_FIELDS = Inr q"
proof -
  from assms obtain c where v: "validate_position (unwrapped v) = Inr c" and n: "(case (jget c ''xSize'', jget c ''ySize'') of
      (JInt x_size, JInt y_size) \<Rightarrow> normalize_board c x_size y_size | _ \<Rightarrow> Inl (ValueErrorP ''board dimensions may not be booleans'')) = Inr q"
    unfolding normalize_position_sample_def bindE_Inr by blast
  from n obtain x y where xy: "jget c ''xSize'' = JInt x" "jget c ''ySize'' = JInt y" and b: "normalize_board c x y = Inr q"
    by (cases "jget c ''xSize''"; cases "jget c ''ySize''") simp_all
  note c = v xy
  note d = validateD [OF c]
  obtain locs plas where l: "jget c ''moveLocs'' = JList locs" "jget c ''movePlas'' = JList plas" "length locs = length plas" using d(4) by blast
  from b l obtain rows where r: "rows_ok x y rows" "is_player (player_value (jget c ''nextPla'')) = Inr True"
    and m: "normalize_moves c x y rows (player_value (jget c ''nextPla'')) locs plas = Inr q"
    unfolding normalize_board_def Let_def by (auto simp: bindE_Inr split: if_splits json.splits)
  show thesis using normalize_movesE [OF m d(2,3) r refl l(3)] that unfolding d(1) by blast
qed

lemma unwrapped_id: "jget p ''position'' = JNull \<Longrightarrow> unwrapped p = p"
  by (simp add: unwrapped_def)

lemma normalize_parts:
  assumes "parts_ok rows hint turn moves ps np x y" "\<And>k. k \<in> set REQUIRED_POSITION_KEYS \<Longrightarrow> jhas p k \<and> jget p k = jget (required_fields rows hint turn moves ps np x y) k"
    "jget p ''position'' = JNull"
  shows "normalize_position_sample p = runE (add_optional p) (required_fields rows hint turn moves ps np x y) OPTIONAL_POSITION_FIELDS"
proof -
  have a: "0 < x" "0 < y" "rows_ok x y rows" "map py_upper rows = rows" "canonical_form True x y hint" "0 \<le> turn"
    "list_all (canonical_form False x y) moves" "length moves = length ps"
    "any_not_player ps = Inr False" "map player_value ps = ps" "is_player np = Inr True" "player_value np = np"
    using assms(1) by (simp_all add: parts_ok_def)
  have get: "jget p ''board'' = JStr (join_slash rows)" "jget p ''hintLoc'' = JStr hint" "jget p ''initialTurnNumber'' = JInt turn"
    "jget p ''moveLocs'' = JList (map JStr moves)" "jget p ''movePlas'' = JList ps" "jget p ''nextPla'' = np"
    "jget p ''xSize'' = JInt x" "jget p ''ySize'' = JInt y"
    using assms(2) by (simp_all add: required_get REQUIRED_POSITION_KEYS_def)
  have has: "list_all (jhas p) REQUIRED_POSITION_KEYS" using assms(2) by (simp add: list_all_iff)
  have v: "validate_position p = Inr p" using a(1,2,8) has by (simp add: validate_position_def get)
  have m: "mapE (canonical_location False x y) (map JStr moves) = Inr moves"
    by (rule mapE_round_trip) (use a(7) canonical_form_fixed in \<open>auto simp: list_all_iff\<close>)
  have t: "(turn < 0) = False" using a(6) by simp
  show ?thesis
    by (simp add: normalize_position_sample_def unwrapped_id [OF assms(3)] v get normalize_board_def normalize_moves_def
        rows_join [OF a(3,1,2)] a(3,4,9-12) t m canonical_form_fixed [OF a(5)] Let_def)
qed

text \<open>
  The normal form of a position sample is a fixed point: normalising it again succeeds and changes
  nothing, whatever wrapper, letter case, machine locations, leading zeros, trailing slashes and
  further keys the original had.
\<close>

theorem normalize_idempotent:
  assumes "normalize_position_sample v = Inr q"
  shows "normalize_position_sample q = Inr q"
proof -
  obtain rows hint turn moves ps np x y where ok: "parts_ok rows hint turn moves ps np x y"
    and q: "runE (add_optional (unwrapped v)) (required_fields rows hint turn moves ps np x y) OPTIONAL_POSITION_FIELDS = Inr q"
    using assms by (rule normalizeE)
  note f = optional_fields [OF q]
  have "runE (add_optional q) (required_fields rows hint turn moves ps np x y) OPTIONAL_POSITION_FIELDS
      = runE (add_optional (unwrapped v)) (required_fields rows hint turn moves ps np x y) OPTIONAL_POSITION_FIELDS"
    by (rule optional_same) (use f no_optional in \<open>auto simp: required_keys\<close>)
  moreover have "normalize_position_sample q = runE (add_optional q) (required_fields rows hint turn moves ps np x y) OPTIONAL_POSITION_FIELDS"
    by (rule normalize_parts [OF ok]) (use f no_optional in \<open>auto simp: required_keys required_get(9)\<close>)
  ultimately show ?thesis using q by simp
qed

definition raw_sample :: jobj where
  "raw_sample = [(''board'', JStr ''x./.O/''), (''hintLoc'', JStr ''''), (''initialTurnNumber'', JInt 0),
     (''moveLocs'', JList [JStr '' a02 '', JStr ''(1,1)'']), (''movePlas'', JList [JStr ''b'', JStr ''W'']), (''nextPla'', JStr ''b''),
     (''source'', JNull), (''weight'', JInt 2), (''xSize'', JInt 2), (''ySize'', JInt 2)]"

definition clean_sample :: jobj where
  "clean_sample = [(''board'', JStr ''X./.O''), (''hintLoc'', JStr ''null''), (''initialTurnNumber'', JInt 0),
     (''moveLocs'', JList [JStr ''A2'', JStr ''B1'']), (''movePlas'', JList [JStr ''B'', JStr ''W'']), (''nextPla'', JStr ''B''),
     (''weight'', JInt 2), (''xSize'', JInt 2), (''ySize'', JInt 2)]"

lemma sample_normalized: "normalize_position_sample raw_sample = Inr clean_sample"
  by code_simp

theorem normalize_idempotent_witness:
  "normalize_position_sample raw_sample = Inr clean_sample \<and> normalize_position_sample clean_sample = Inr clean_sample"
  using sample_normalized normalize_idempotent [OF sample_normalized] by simp

end
