(* ===== verification/Symmetry.thy ===== *)
theory Symmetry
  imports Position_Samples
begin

text \<open>
  \<^verbatim>\<open>board_symmetry.py\<close>: the eight symmetries of the board on coordinates, on locations and on whole
  position samples, and the orbit of a sample as an identity that does not depend on its orientation.
  Parameters annotated \<open>int\<close> and \<open>str\<close> are integers and strings; the dimensions, the moves and the hint of a
  sample are JSON values, whose type the code checks.
\<close>

unbundle bit_operations_syntax

section \<open>Coordinates\<close>

definition NUM_SYMMETRIES :: int where
  "NUM_SYMMETRIES = 8"

definition NUM_SYMMETRIES_WITHOUT_TRANSPOSE :: int where
  "NUM_SYMMETRIES_WITHOUT_TRANSPOSE = 4"

definition SQUARE_SYMMETRIES :: "int list" where
  "SQUARE_SYMMETRIES = [0..NUM_SYMMETRIES - 1]"

definition RECTANGULAR_SYMMETRIES :: "int list" where
  "RECTANGULAR_SYMMETRIES = [0..NUM_SYMMETRIES_WITHOUT_TRANSPOSE - 1]"

definition validate_dimensions :: "json \<Rightarrow> json \<Rightarrow> sample_error + unit" where
  "validate_dimensions x_size y_size = (case (x_size, y_size) of
     (JInt x, JInt y) \<Rightarrow> if x \<le> 0 \<or> y \<le> 0 then Inl (ValueErrorP ''xSize and ySize must be positive integers'')
       else if x > int (length GTP_COLUMNS) then Inl (ValueErrorP ''GTP symmetry mapping supports boards up to 25 columns'')
       else Inr ()
   | _ \<Rightarrow> Inl (ValueErrorP ''xSize and ySize must be positive integers''))"

definition shape_preserving_symmetries :: "int \<Rightarrow> int \<Rightarrow> sample_error + int list" where
  "shape_preserving_symmetries x_size y_size = bindE (validate_dimensions (JInt x_size) (JInt y_size)) (\<lambda>_.
     Inr (if x_size = y_size then SQUARE_SYMMETRIES else RECTANGULAR_SYMMETRIES))"

definition validate_symmetry :: "int \<Rightarrow> int \<Rightarrow> int \<Rightarrow> sample_error + unit" where
  "validate_symmetry symmetry x_size y_size = bindE (shape_preserving_symmetries x_size y_size) (\<lambda>ss.
     if symmetry \<notin> set ss then Inl (ValueErrorP ''symmetry does not preserve the board'') else Inr ())"

definition inverse_symmetry :: "int \<Rightarrow> sample_error + int" where
  "inverse_symmetry symmetry = (if \<not> (0 \<le> symmetry \<and> symmetry < NUM_SYMMETRIES) then Inl (ValueErrorP ''symmetry must be between 0 and 7'')
     else if symmetry = 5 then Inr 6 else if symmetry = 6 then Inr 5 else Inr symmetry)"

definition transform_xy :: "int \<Rightarrow> int \<Rightarrow> int \<Rightarrow> int \<Rightarrow> int \<Rightarrow> sample_error + int \<times> int" where
  "transform_xy x y x_size y_size symmetry =
    bindE (validate_dimensions (JInt x_size) (JInt y_size)) (\<lambda>_.
    bindE (validate_symmetry symmetry x_size y_size) (\<lambda>_.
    if \<not> (0 \<le> x \<and> x < x_size) \<or> \<not> (0 \<le> y \<and> y < y_size) then Inl (ValueErrorP ''coordinate is off board'')
    else (let x = (if symmetry AND 2 \<noteq> 0 then x_size - x - 1 else x);
              y = (if symmetry AND 1 \<noteq> 0 then y_size - y - 1 else y)
          in Inr (if symmetry AND 4 \<noteq> 0 then (y, x) else (x, y)))))"

definition inverse_transform_xy :: "int \<Rightarrow> int \<Rightarrow> int \<Rightarrow> int \<Rightarrow> int \<Rightarrow> sample_error + int \<times> int" where
  "inverse_transform_xy x y x_size y_size symmetry =
    bindE (validate_dimensions (JInt x_size) (JInt y_size)) (\<lambda>_.
    bindE (validate_symmetry symmetry x_size y_size) (\<lambda>_.
    bindE (inverse_symmetry symmetry) (\<lambda>inv. transform_xy x y x_size y_size inv)))"

section \<open>Locations\<close>

definition UNCHANGED_LOCATIONS :: "string list" where
  "UNCHANGED_LOCATIONS = [''pass'', ''pss'', ''null'']"

definition parse_gtp_location :: "string \<Rightarrow> int \<Rightarrow> int \<Rightarrow> sample_error + int \<times> int" where
  "parse_gtp_location location x_size y_size = (case gtp_match (py_upper (py_strip location)) of
     None \<Rightarrow> Inl (ValueErrorP ''malformed GTP location'')
   | Some (c, ds) \<Rightarrow> (let x = column_index c; row = int (dec_val ds) in
       if x \<ge> x_size \<or> \<not> (1 \<le> row \<and> row \<le> y_size) then Inl (ValueErrorP ''GTP location is off board'')
       else Inr (x, y_size - row)))"

definition format_gtp_location :: "int \<Rightarrow> int \<Rightarrow> int \<Rightarrow> string" where
  "format_gtp_location x y y_size = gtp_text x (y_size - y)"

definition transform_gtp_location :: "json \<Rightarrow> int \<Rightarrow> int \<Rightarrow> int \<Rightarrow> sample_error + string" where
  "transform_gtp_location location x_size y_size symmetry =
    bindE (validate_dimensions (JInt x_size) (JInt y_size)) (\<lambda>_.
    bindE (validate_symmetry symmetry x_size y_size) (\<lambda>_.
    case location of
      JStr l \<Rightarrow> if py_lower (py_strip l) \<in> set UNCHANGED_LOCATIONS then Inr l
        else bindE (parse_gtp_location l x_size y_size) (\<lambda>(x, y).
          bindE (transform_xy x y x_size y_size symmetry) (\<lambda>(tx, ty). Inr (format_gtp_location tx ty y_size)))
    | _ \<Rightarrow> Inl (ValueErrorP ''location must be a string'')))"

definition inverse_transform_gtp_location :: "json \<Rightarrow> int \<Rightarrow> int \<Rightarrow> int \<Rightarrow> sample_error + string" where
  "inverse_transform_gtp_location location x_size y_size symmetry =
    bindE (validate_dimensions (JInt x_size) (JInt y_size)) (\<lambda>_.
    bindE (validate_symmetry symmetry x_size y_size) (\<lambda>_.
    case location of
      JStr l \<Rightarrow> if py_lower (py_strip l) \<in> set UNCHANGED_LOCATIONS then Inr l
        else bindE (parse_gtp_location l x_size y_size) (\<lambda>(x, y).
          bindE (inverse_transform_xy x y x_size y_size symmetry) (\<lambda>(sx, sy). Inr (format_gtp_location sx sy y_size)))
    | _ \<Rightarrow> Inl (ValueErrorP ''location must be a string'')))"

section \<open>Samples\<close>

definition position_shape :: "jobj \<Rightarrow> sample_error + int \<times> int" where
  "position_shape position =
    (if \<not> jhas position ''xSize'' then Inl (ValueErrorP ''position is missing xSize'')
     else if \<not> jhas position ''ySize'' then Inl (ValueErrorP ''position is missing ySize'')
     else bindE (validate_dimensions (jget position ''xSize'') (jget position ''ySize'')) (\<lambda>_.
       case (jget position ''xSize'', jget position ''ySize'') of (JInt x, JInt y) \<Rightarrow> Inr (x, y) | _ \<Rightarrow> Inl TypeErrorP))"

definition board_rows :: "jobj \<Rightarrow> int \<Rightarrow> int \<Rightarrow> sample_error + string list" where
  "board_rows position x_size y_size = (case jget position ''board'' of
     JStr board \<Rightarrow> (let rows = rows_of board in
       if int (length rows) \<noteq> y_size \<or> \<not> list_all (\<lambda>r. int (length r) = x_size) rows
       then Inl (ValueErrorP ''position board does not match xSize and ySize'')
       else if \<not> list_all (list_all board_char) rows then Inl (ValueErrorP ''position board contains an invalid character'')
       else Inr rows)
   | _ \<Rightarrow> Inl (ValueErrorP ''position board must be a string''))"

text \<open>The assignment \<open>transformed_rows[ty][tx] = character\<close> for every cell; a cell of the fresh table is empty text.\<close>

definition place :: "int \<Rightarrow> int \<Rightarrow> int \<Rightarrow> string list list \<Rightarrow> int \<times> int \<times> char \<Rightarrow> sample_error + string list list" where
  "place x_size y_size symmetry table = (\<lambda>(x, y, c). bindE (transform_xy x y x_size y_size symmetry) (\<lambda>(tx, ty).
     if nat ty < length table \<and> nat tx < length (table ! nat ty) then Inr (table[nat ty := (table ! nat ty)[nat tx := [c]]])
     else Inl IndexErrorP))"

definition transform_rows :: "string list \<Rightarrow> int \<Rightarrow> int \<Rightarrow> int \<Rightarrow> sample_error + string list" where
  "transform_rows rows x_size y_size symmetry =
    bindE (runE (place x_size y_size symmetry) (replicate (nat y_size) (replicate (nat x_size) [])) (cells rows)) (\<lambda>table.
    Inr (map concat table))"

definition apply_symmetry :: "jobj \<Rightarrow> int \<Rightarrow> sample_error + jobj" where
  "apply_symmetry position symmetry =
    bindE (position_shape position) (\<lambda>(x_size, y_size).
    bindE (validate_symmetry symmetry x_size y_size) (\<lambda>_.
    bindE (board_rows position x_size y_size) (\<lambda>rows.
    bindE (transform_rows rows x_size y_size symmetry) (\<lambda>new_rows.
    let transformed = jset (jset (jset position ''xSize'' (JInt x_size)) ''ySize'' (JInt y_size)) ''board'' (JStr (join_slash new_rows)) in
    case jget position ''moveLocs'' of
      JList locs \<Rightarrow> (case jget position ''movePlas'' of
        JList plas \<Rightarrow> if length locs \<noteq> length plas then Inl (ValueErrorP ''moveLocs and movePlas must have equal length'')
          else bindE (mapE (\<lambda>l. transform_gtp_location l x_size y_size symmetry) locs) (\<lambda>moves.
            let transformed = jset transformed ''moveLocs'' (JList (map JStr moves)) in
            if jhas position ''hintLoc'' then
              bindE (transform_gtp_location (jget position ''hintLoc'') x_size y_size symmetry) (\<lambda>hint.
                Inr (jset transformed ''hintLoc'' (JStr hint)))
            else Inr transformed)
      | _ \<Rightarrow> Inl (ValueErrorP ''position movePlas must be an array''))
    | _ \<Rightarrow> Inl (ValueErrorP ''position moveLocs must be an array'')))))"

definition invert_symmetry :: "jobj \<Rightarrow> int \<Rightarrow> sample_error + jobj" where
  "invert_symmetry position symmetry = bindE (inverse_symmetry symmetry) (\<lambda>inv. apply_symmetry position inv)"

section \<open>Orbits\<close>

definition hashable :: "jobj \<Rightarrow> jobj" where
  "hashable transformed = (if jhas transformed ''hintLoc'' then transformed else jset transformed ''hintLoc'' (JStr ''null''))"

definition orbit_step :: "promo_env \<Rightarrow> jobj \<Rightarrow> (string, int \<times> jobj) dict \<Rightarrow> int \<Rightarrow> sample_error + (string, int \<times> jobj) dict" where
  "orbit_step env position by_semantic_hash symmetry =
    bindE (apply_symmetry position symmetry) (\<lambda>transformed.
    bindE (semantic_position_sha256 env (hashable transformed)) (\<lambda>digest.
    Inr (if dget by_semantic_hash digest = None then dset by_semantic_hash digest (symmetry, transformed) else by_semantic_hash)))"

definition symmetry_orbit :: "promo_env \<Rightarrow> jobj \<Rightarrow> sample_error + (int \<times> jobj) list" where
  "symmetry_orbit env position =
    bindE (position_shape position) (\<lambda>(x_size, y_size).
    bindE (shape_preserving_symmetries x_size y_size) (\<lambda>ss.
    bindE (runE (orbit_step env position) [] ss) (\<lambda>by_semantic_hash.
    Inr (map snd (sort_key fst by_semantic_hash)))))"

definition symmetry_orbit_sha256 :: "promo_env \<Rightarrow> jobj \<Rightarrow> sample_error + string" where
  "symmetry_orbit_sha256 env position =
    bindE (symmetry_orbit env position) (\<lambda>orbit.
    bindE (mapE (\<lambda>(_, transformed). semantic_position_sha256 env transformed) orbit) (\<lambda>digests.
    Inr (canonical_sha256 env (JList (map JStr (sort digests))))))"

section \<open>Actions of a set of symmetries\<close>

text \<open>
  A set of symmetries acts on things when it is closed under composition and every symmetry can be
  undone; then all things of an orbit have the same orbit.
\<close>

locale symmetry_action =
  fixes S :: "int set" and ok :: "'p \<Rightarrow> bool" and act :: "int \<Rightarrow> 'p \<Rightarrow> 'p"
    and combine :: "int \<Rightarrow> int \<Rightarrow> int" and undo :: "int \<Rightarrow> int"
  assumes combine_in: "s \<in> S \<Longrightarrow> t \<in> S \<Longrightarrow> combine t s \<in> S"
    and undo_in: "s \<in> S \<Longrightarrow> undo s \<in> S"
    and act_ok: "s \<in> S \<Longrightarrow> ok p \<Longrightarrow> ok (act s p)"
    and act_act: "s \<in> S \<Longrightarrow> t \<in> S \<Longrightarrow> ok p \<Longrightarrow> act t (act s p) = act (combine t s) p"
    and act_undo: "s \<in> S \<Longrightarrow> ok p \<Longrightarrow> act (undo s) (act s p) = p"
    and undo_undo: "s \<in> S \<Longrightarrow> undo (undo s) = s"
begin

lemma act_redo: "s \<in> S \<Longrightarrow> ok p \<Longrightarrow> act s (act (undo s) p) = p"
  using act_undo [of "undo s" p] undo_in undo_undo by simp

lemma act_reaches: "s \<in> S \<Longrightarrow> ok q \<Longrightarrow> \<exists>p. ok p \<and> act s p = q"
  using act_redo act_ok undo_in by blast

lemma combine_onto: "s \<in> S \<Longrightarrow> u \<in> S \<Longrightarrow> ok p \<Longrightarrow> act (combine u (undo s)) (act s p) = act u p"
  using act_act [of "undo s" u "act s p"] act_undo act_ok undo_in by simp

lemma orbit_same: "s \<in> S \<Longrightarrow> ok p \<Longrightarrow> (\<lambda>t. act t (act s p)) ` S = (\<lambda>u. act u p) ` S"
proof (intro equalityI subsetI)
  fix q assume a: "s \<in> S" "ok p"
  show "q \<in> (\<lambda>t. act t (act s p)) ` S \<Longrightarrow> q \<in> (\<lambda>u. act u p) ` S"
    using a act_act combine_in by fastforce
  show "q \<in> (\<lambda>u. act u p) ` S \<Longrightarrow> q \<in> (\<lambda>t. act t (act s p)) ` S"
    using combine_onto [OF a(1) _ a(2), symmetric] combine_in [OF undo_in [OF a(1)]] by blast
qed

end

section \<open>The symmetries of the board\<close>

definition syms :: "int \<Rightarrow> int \<Rightarrow> int list" where
  "syms x y = (if x = y then SQUARE_SYMMETRIES else RECTANGULAR_SYMMETRIES)"

definition on_board :: "int \<Rightarrow> int \<Rightarrow> int \<times> int \<Rightarrow> bool" where
  "on_board x y p \<longleftrightarrow> 0 \<le> fst p \<and> fst p < x \<and> 0 \<le> snd p \<and> snd p < y"

definition turn :: "int \<Rightarrow> int \<Rightarrow> int \<Rightarrow> int \<times> int \<Rightarrow> int \<times> int" where
  "turn x y s p = (let a = (if s AND 2 \<noteq> 0 then x - fst p - 1 else fst p); b = (if s AND 1 \<noteq> 0 then y - snd p - 1 else snd p)
     in if s AND 4 \<noteq> 0 then (b, a) else (a, b))"

text \<open>The symmetry that is \<open>s\<close> followed by \<open>t\<close>: after a transposition the two flips of \<open>t\<close> trade places.\<close>

definition combine :: "int \<Rightarrow> int \<Rightarrow> int" where
  "combine t s = (let flips = (if s AND 4 \<noteq> 0 then (if t AND 1 \<noteq> 0 then 2 else 0) OR (if t AND 2 \<noteq> 0 then 1 else 0) else t AND 3)
     in (s AND 3) XOR flips XOR (s AND 4) XOR (t AND 4))"

definition undo_sym :: "int \<Rightarrow> int" where
  "undo_sym s = (if s = 5 then 6 else if s = 6 then 5 else s)"

lemma sym_lists: "SQUARE_SYMMETRIES = [0, 1, 2, 3, 4, 5, 6, 7]" "RECTANGULAR_SYMMETRIES = [0, 1, 2, 3]"
  by code_simp+

lemma undo_values: "undo_sym 0 = 0" "undo_sym 1 = 1" "undo_sym 2 = 2" "undo_sym 3 = 3" "undo_sym 4 = 4" "undo_sym 5 = 6"
  "undo_sym 6 = 5" "undo_sym 7 = 7"
  by (simp_all add: undo_sym_def)

lemma combine_table:
  "list_all (\<lambda>s. list_all (\<lambda>t. combine t s \<in> set SQUARE_SYMMETRIES \<and> undo_sym (combine t s) = combine (undo_sym s) (undo_sym t)) SQUARE_SYMMETRIES) SQUARE_SYMMETRIES"
  "list_all (\<lambda>s. list_all (\<lambda>t. combine t s \<in> set RECTANGULAR_SYMMETRIES) RECTANGULAR_SYMMETRIES) RECTANGULAR_SYMMETRIES"
  "list_all (\<lambda>s. undo_sym s \<in> set SQUARE_SYMMETRIES \<and> combine (undo_sym s) s = 0 \<and> undo_sym (undo_sym s) = s) SQUARE_SYMMETRIES"
  "list_all (\<lambda>s. undo_sym s \<in> set RECTANGULAR_SYMMETRIES) RECTANGULAR_SYMMETRIES"
  by (simp_all add: sym_lists combine_def undo_values)

lemma rect_square: "s \<in> set (syms x y) \<Longrightarrow> s \<in> set SQUARE_SYMMETRIES"
  by (auto simp: syms_def sym_lists split: if_splits)

lemma turn_square: "list_all (\<lambda>s. list_all (\<lambda>t. turn x x t (turn x x s p) = turn x x (combine t s) p) SQUARE_SYMMETRIES) SQUARE_SYMMETRIES"
  by (simp add: sym_lists turn_def combine_def)

lemma turn_rect: "list_all (\<lambda>s. list_all (\<lambda>t. turn x y t (turn x y s p) = turn x y (combine t s) p) RECTANGULAR_SYMMETRIES) RECTANGULAR_SYMMETRIES"
  by (simp add: sym_lists turn_def combine_def)

lemma turn_on_board: "s \<in> set (syms x y) \<Longrightarrow> on_board x y p \<Longrightarrow> on_board x y (turn x y s p)"
  by (auto simp: on_board_def turn_def Let_def syms_def sym_lists split: if_splits)

lemma turn_turn: "s \<in> set (syms x y) \<Longrightarrow> t \<in> set (syms x y) \<Longrightarrow> turn x y t (turn x y s p) = turn x y (combine t s) p"
  using turn_square [of x p] turn_rect [of x y p] unfolding list_all_iff syms_def by (auto split: if_splits)

lemma turn_0: "turn x y 0 p = p"
  by (simp add: turn_def)

lemma sym_laws:
  assumes "s \<in> set (syms x y)"
  shows "t \<in> set (syms x y) \<Longrightarrow> combine t s \<in> set (syms x y)" "undo_sym s \<in> set (syms x y)"
    "combine (undo_sym s) s = 0" "undo_sym (undo_sym s) = s"
    "t \<in> set (syms x y) \<Longrightarrow> undo_sym (combine t s) = combine (undo_sym s) (undo_sym t)"
  using assms combine_table rect_square unfolding list_all_iff syms_def by (auto split: if_splits)

lemma combine_reaches:
  assumes "s \<in> set (syms x y)" "u \<in> set (syms x y)"
  shows "combine u (undo_sym s) \<in> set (syms x y)" "combine (combine u (undo_sym s)) s = u"
proof -
  show "combine u (undo_sym s) \<in> set (syms x y)" using sym_laws(1,2) assms by blast
  have "list_all (\<lambda>s. list_all (\<lambda>u. combine (combine u (undo_sym s)) s = u) SQUARE_SYMMETRIES) SQUARE_SYMMETRIES"
    by (simp add: sym_lists undo_values combine_def)
  then show "combine (combine u (undo_sym s)) s = u" using assms rect_square unfolding list_all_iff by blast
qed

interpretation points: symmetry_action "set (syms x y)" "on_board x y" "turn x y" combine undo_sym for x y
  by unfold_locales (simp_all add: sym_laws turn_on_board turn_turn turn_0)

subsection \<open>Coordinates and locations\<close>

definition dims_ok :: "int \<Rightarrow> int \<Rightarrow> bool" where
  "dims_ok x y \<longleftrightarrow> 0 < x \<and> 0 < y \<and> x \<le> 25"

lemma validate_dims: "validate_dimensions (JInt x) (JInt y) = Inr () \<longleftrightarrow> dims_ok x y"
  by (auto simp: validate_dimensions_def dims_ok_def columns(1))

lemma validate_sym: "validate_symmetry s x y = Inr () \<longleftrightarrow> dims_ok x y \<and> s \<in> set (syms x y)"
  by (auto simp: validate_symmetry_def shape_preserving_symmetries_def bindE_Inr validate_dims syms_def)

lemma transform_xy_turn:
  "dims_ok x y \<Longrightarrow> s \<in> set (syms x y) \<Longrightarrow> on_board x y (a, b) \<Longrightarrow> transform_xy a b x y s = Inr (turn x y s (a, b))"
  using validate_dims [of x y] validate_sym [of s x y] by (simp add: transform_xy_def on_board_def turn_def Let_def)

definition unchanged :: "string \<Rightarrow> bool" where
  "unchanged l \<longleftrightarrow> py_lower (py_strip l) \<in> set UNCHANGED_LOCATIONS"

definition loc_ok :: "int \<Rightarrow> int \<Rightarrow> string \<Rightarrow> bool" where
  "loc_ok x y l \<longleftrightarrow> unchanged l \<or> (\<exists>p. parse_gtp_location l x y = Inr p)"

definition turn_loc :: "int \<Rightarrow> int \<Rightarrow> int \<Rightarrow> string \<Rightarrow> string" where
  "turn_loc x y s l = (if unchanged l then l else (case parse_gtp_location l x y of
     Inl e \<Rightarrow> l | Inr p \<Rightarrow> (case turn x y s p of (a, b) \<Rightarrow> format_gtp_location a b y)))"

lemma parse_on_board: "parse_gtp_location l x y = Inr p \<Longrightarrow> on_board x y p"
  by (auto simp: parse_gtp_location_def Let_def on_board_def column_index_def split: option.splits if_splits)

lemma format_parse:
  assumes "dims_ok x y" "on_board x y (a, b)"
  shows "parse_gtp_location (format_gtp_location a b y) x y = Inr (a, b)" "\<not> unchanged (format_gtp_location a b y)"
proof -
  have r: "0 \<le> a" "a < 25" "0 \<le> y - b" using assms by (auto simp: dims_ok_def on_board_def)
  note g = gtp_text_read [OF r]
  show "parse_gtp_location (format_gtp_location a b y) x y = Inr (a, b)"
    using assms g column_index_nth [OF r(1,2)] decimal_digits [OF r(3)]
    by (simp add: parse_gtp_location_def format_gtp_location_def on_board_def Let_def)
  have "list_all (\<lambda>w. w \<noteq> [] \<and> \<not> ascii_digit (last w)) UNCHANGED_LOCATIONS" by code_simp
  then show "\<not> unchanged (format_gtp_location a b y)"
    using g(1,5) by (auto simp: unchanged_def format_gtp_location_def list_all_iff)
qed

lemma turn_loc_parsed:
  assumes "dims_ok x y" "s \<in> set (syms x y)" "\<not> unchanged l" "parse_gtp_location l x y = Inr p"
  shows "\<not> unchanged (turn_loc x y s l)" "parse_gtp_location (turn_loc x y s l) x y = Inr (turn x y s p)"
proof -
  have "on_board x y (turn x y s p)" using parse_on_board [OF assms(4)] assms(2) turn_on_board by blast
  then show "\<not> unchanged (turn_loc x y s l)" "parse_gtp_location (turn_loc x y s l) x y = Inr (turn x y s p)"
    using format_parse [OF assms(1)] assms(3,4) by (cases "turn x y s p"; simp add: turn_loc_def)+
qed

lemma transform_loc: "dims_ok x y \<Longrightarrow> s \<in> set (syms x y) \<Longrightarrow> loc_ok x y l \<Longrightarrow> transform_gtp_location (JStr l) x y s = Inr (turn_loc x y s l)"
  using validate_dims [of x y] validate_sym [of s x y] parse_on_board [of l x y] transform_xy_turn [of x y s]
  by (auto simp: transform_gtp_location_def turn_loc_def loc_ok_def unchanged_def split: prod.split)

lemma transform_locD: "transform_gtp_location v x y s = Inr m \<Longrightarrow> \<exists>l. v = JStr l \<and> loc_ok x y l"
  by (auto simp: transform_gtp_location_def loc_ok_def unchanged_def bindE_Inr split: json.splits if_splits)

lemma turn_loc_ok: "dims_ok x y \<Longrightarrow> s \<in> set (syms x y) \<Longrightarrow> loc_ok x y l \<Longrightarrow> loc_ok x y (turn_loc x y s l)"
  using turn_loc_parsed by (cases "unchanged l") (auto simp: loc_ok_def turn_loc_def)

lemma turn_loc_turn_loc:
  assumes "dims_ok x y" "s \<in> set (syms x y)" "t \<in> set (syms x y)" "loc_ok x y l"
  shows "turn_loc x y t (turn_loc x y s l) = turn_loc x y (combine t s) l"
proof (cases "unchanged l")
  case True
  then show ?thesis by (simp add: turn_loc_def)
next
  case False
  then obtain p where p: "parse_gtp_location l x y = Inr p" using assms(4) by (auto simp: loc_ok_def)
  show ?thesis
    using turn_loc_parsed [OF assms(1,2) False p] turn_turn [OF assms(2,3)] False p
    by (simp add: turn_loc_def [of x y t] turn_loc_def [of x y "combine t s"])
qed

subsection \<open>Boards\<close>

definition cell :: "string list \<Rightarrow> int \<times> int \<Rightarrow> char" where
  "cell rows p = rows ! nat (snd p) ! nat (fst p)"

definition turn_rows :: "int \<Rightarrow> int \<Rightarrow> int \<Rightarrow> string list \<Rightarrow> string list" where
  "turn_rows x y s rows = map (\<lambda>b. map (\<lambda>a. cell rows (turn x y (undo_sym s) (int a, int b))) [0..<nat x]) [0..<nat y]"

definition table_ok :: "int \<Rightarrow> int \<Rightarrow> 'a list list \<Rightarrow> bool" where
  "table_ok x y tab \<longleftrightarrow> length tab = nat y \<and> (\<forall>b < nat y. length (tab ! b) = nat x)"

lemma place_step:
  assumes "dims_ok x y" "s \<in> set (syms x y)" "table_ok x y tab" "on_board x y (a, b)"
  obtains new where "place x y s tab (a, b, c) = Inr new" "table_ok x y new"
    "\<And>p. on_board x y p \<Longrightarrow> new ! nat (snd p) ! nat (fst p) = (if p = turn x y s (a, b) then [c] else tab ! nat (snd p) ! nat (fst p))"
proof -
  obtain d e where t: "turn x y s (a, b) = (d, e)" by fastforce
  have on: "on_board x y (d, e)" using turn_on_board [OF assms(2,4)] t by simp
  have len: "nat e < length tab" "nat d < length (tab ! nat e)" using assms(3) on by (auto simp: table_ok_def on_board_def)
  let ?new = "tab[nat e := (tab ! nat e)[nat d := [c]]]"
  have "place x y s tab (a, b, c) = Inr ?new"
    using transform_xy_turn [OF assms(1,2,4)] t len by (simp add: place_def)
  moreover have "table_ok x y ?new" using assms(3) len by (auto simp: table_ok_def nth_list_update)
  moreover have "?new ! nat (snd p) ! nat (fst p) = (if p = turn x y s (a, b) then [c] else tab ! nat (snd p) ! nat (fst p))" if "on_board x y p" for p
    using that on len t by (cases p) (auto simp: nth_list_update on_board_def)
  ultimately show thesis by (rule that)
qed

lemma place_run:
  assumes "dims_ok x y" "s \<in> set (syms x y)"
  shows "table_ok x y tab \<Longrightarrow> list_all (\<lambda>(a, b, c). on_board x y (a, b) \<and> c = f (a, b)) cs \<Longrightarrow>
    \<exists>new. runE (place x y s) tab cs = Inr new \<and> table_ok x y new \<and>
      (\<forall>p. on_board x y p \<longrightarrow> new ! nat (snd p) ! nat (fst p) =
        (if turn x y (undo_sym s) p \<in> (\<lambda>(a, b, c). (a, b)) ` set cs then [f (turn x y (undo_sym s) p)] else tab ! nat (snd p) ! nat (fst p)))"
proof (induction cs arbitrary: tab)
  case Nil
  then show ?case by simp
next
  case (Cons k cs)
  obtain a b c where k: "k = (a, b, c)" by (cases k)
  have on: "on_board x y (a, b)" and c: "c = f (a, b)" and rest: "list_all (\<lambda>(a, b, c). on_board x y (a, b) \<and> c = f (a, b)) cs"
    using Cons.prems(2) by (simp_all add: k)
  obtain new where new: "place x y s tab (a, b, c) = Inr new" "table_ok x y new"
    "\<And>p. on_board x y p \<Longrightarrow> new ! nat (snd p) ! nat (fst p) = (if p = turn x y s (a, b) then [c] else tab ! nat (snd p) ! nat (fst p))"
    using place_step [OF assms Cons.prems(1) on] by metis
  have redo: "p = turn x y s (a, b) \<longleftrightarrow> turn x y (undo_sym s) p = (a, b)" if "on_board x y p" for p
    using points.act_undo [OF assms(2) on] points.act_redo [OF assms(2) that] by auto
  obtain res where res: "runE (place x y s) new cs = Inr res" "table_ok x y res" "\<And>p. on_board x y p \<Longrightarrow> res ! nat (snd p) ! nat (fst p) =
        (if turn x y (undo_sym s) p \<in> (\<lambda>(a, b, c). (a, b)) ` set cs then [f (turn x y (undo_sym s) p)] else new ! nat (snd p) ! nat (fst p))"
    using Cons.IH [OF new(2) rest] by blast
  show ?case
    by (rule exI [of _ res]) (use res new(1,3) redo c in \<open>auto simp: k\<close>)
qed

lemma cells_eq: "cells rows = concat (map (\<lambda>b. map (\<lambda>a. (int a, int b, rows ! b ! a)) [0..<length (rows ! b)]) [0..<length rows])"
proof -
  have e: "List.enumerate 0 xs = map (\<lambda>i. (i, xs ! i)) [0..<length xs]" for xs :: "'a list"
    by (rule nth_equalityI) (simp_all add: enumerate_eq_zip)
  show ?thesis by (simp add: cells_def e comp_def case_prod_beta)
qed

lemma cells_set:
  assumes "rows_ok x y rows" "0 < x" "0 < y"
  shows "list_all (\<lambda>(a, b, c). on_board x y (a, b) \<and> c = cell rows (a, b)) (cells rows)"
    "on_board x y p \<Longrightarrow> p \<in> (\<lambda>(a, b, c). (a, b)) ` set (cells rows)"
proof -
  have len: "length rows = nat y" "\<And>b. b < nat y \<Longrightarrow> length (rows ! b) = nat x"
    using assms by (auto simp: rows_ok_def list_all_iff)
  show "list_all (\<lambda>(a, b, c). on_board x y (a, b) \<and> c = cell rows (a, b)) (cells rows)"
    using len by (auto simp: cells_eq list_all_iff on_board_def cell_def)
  assume p: "on_board x y p"
  have "(fst p, snd p, cell rows p) \<in> set (cells rows)"
    using p len by (auto simp: cells_eq on_board_def cell_def intro!: bexI [of _ "nat (snd p)"] image_eqI [of _ _ "nat (fst p)"])
  then show "p \<in> (\<lambda>(a, b, c). (a, b)) ` set (cells rows)"
    by (intro image_eqI [of _ _ "(fst p, snd p, cell rows p)"]) simp_all
qed

lemma transform_rows_turn:
  assumes "dims_ok x y" "s \<in> set (syms x y)" "rows_ok x y rows"
  shows "transform_rows rows x y s = Inr (turn_rows x y s rows)"
proof -
  have pos: "0 < x" "0 < y" using assms(1) by (simp_all add: dims_ok_def)
  have start: "table_ok x y (replicate (nat y) (replicate (nat x) []))" by (simp add: table_ok_def)
  obtain new where new: "runE (place x y s) (replicate (nat y) (replicate (nat x) [])) (cells rows) = Inr new" "table_ok x y new"
    and at: "\<And>p. on_board x y p \<Longrightarrow> new ! nat (snd p) ! nat (fst p) = [cell rows (turn x y (undo_sym s) p)]"
    using place_run [OF assms(1,2) start cells_set(1) [OF assms(3) pos]] cells_set(2) [OF assms(3) pos]
      turn_on_board [OF sym_laws(2) [OF assms(2)]] by auto
  have "new ! b = map (\<lambda>a. [cell rows (turn x y (undo_sym s) (int a, int b))]) [0..<nat x]" if "b < nat y" for b
  proof (rule nth_equalityI)
    show "length (new ! b) = length (map (\<lambda>a. [cell rows (turn x y (undo_sym s) (int a, int b))]) [0..<nat x])"
      using new(2) that by (simp add: table_ok_def)
    show "new ! b ! a = map (\<lambda>a. [cell rows (turn x y (undo_sym s) (int a, int b))]) [0..<nat x] ! a" if "a < length (new ! b)" for a
      using at [of "(int a, int b)"] new(2) that \<open>b < nat y\<close>
      by (simp add: table_ok_def on_board_def zless_nat_eq_int_zless)
  qed
  then have "map concat new = turn_rows x y s rows"
    using new(2) by (intro nth_equalityI) (simp_all add: turn_rows_def table_ok_def concat_map_singleton [unfolded map_map comp_def] flip: map_map)
  then show ?thesis using new(1) by (simp add: transform_rows_def)
qed

lemma cell_turn: "on_board x y p \<Longrightarrow> cell (turn_rows x y s rows) p = cell rows (turn x y (undo_sym s) p)"
  unfolding cell_def [of "turn_rows x y s rows"] by (cases p) (auto simp: turn_rows_def on_board_def)

lemma cell_char:
  assumes "rows_ok x y rows" "on_board x y p"
  shows "board_char (cell rows p)"
proof -
  have l: "nat (snd p) < length rows" using assms by (auto simp: rows_ok_def on_board_def)
  then have "rows ! nat (snd p) \<in> set rows" by simp
  then have "int (length (rows ! nat (snd p))) = x" "list_all board_char (rows ! nat (snd p))"
    using assms(1) by (auto simp: rows_ok_def list_all_iff)
  moreover have "nat (fst p) < length (rows ! nat (snd p))" using assms(2) calculation(1) by (auto simp: on_board_def)
  ultimately show ?thesis by (simp add: cell_def list_all_length)
qed

lemma turn_rows_ok:
  assumes "dims_ok x y" "s \<in> set (syms x y)" "rows_ok x y rows"
  shows "rows_ok x y (turn_rows x y s rows)"
proof -
  have "board_char (cell rows (turn x y (undo_sym s) (int a, int b)))" if "a < nat x" "b < nat y" for a b
    by (rule cell_char [OF assms(3) turn_on_board [OF sym_laws(2) [OF assms(2)]]]) (use that in \<open>auto simp: on_board_def\<close>)
  then show ?thesis using assms(1) by (auto simp: rows_ok_def turn_rows_def list_all_iff dims_ok_def)
qed

lemma turn_rows_turn_rows:
  assumes "s \<in> set (syms x y)" "t \<in> set (syms x y)"
  shows "turn_rows x y t (turn_rows x y s rows) = turn_rows x y (combine t s) rows"
proof -
  have "cell (turn_rows x y s rows) (turn x y (undo_sym t) p) = cell rows (turn x y (undo_sym (combine t s)) p)" if "on_board x y p" for p
    using cell_turn [OF turn_on_board [OF sym_laws(2) [OF assms(2)] that]] turn_turn [OF sym_laws(2) [OF assms(2)] sym_laws(2) [OF assms(1)]]
      sym_laws(5) [OF assms] by simp
  then show ?thesis by (auto simp: turn_rows_def [of x y t] turn_rows_def [of x y "combine t s"] on_board_def zless_nat_eq_int_zless)
qed

lemma turn_rows_0:
  assumes "rows_ok x y rows"
  shows "turn_rows x y 0 rows = rows"
proof (rule nth_equalityI)
  have len: "length rows = nat y" "\<And>b. b < nat y \<Longrightarrow> length (rows ! b) = nat x"
    using assms by (auto simp: rows_ok_def list_all_iff)
  show "length (turn_rows x y 0 rows) = length rows" by (simp add: turn_rows_def len)
  show "turn_rows x y 0 rows ! b = rows ! b" if "b < length (turn_rows x y 0 rows)" for b
    by (rule nth_equalityI) (use that len in \<open>auto simp: turn_rows_def undo_sym_def turn_0 cell_def\<close>)
qed

subsection \<open>Samples\<close>

lemma jset_twice: "jset (jset p k v) k w = jset p k w"
  by (induction p k v rule: jset.induct) auto

lemma jset_swap: "k \<noteq> l \<Longrightarrow> jset (jset p k v) l w = jset (jset p l w) k v"
  by (induction p) auto

lemma jset_fixed: "sorted_wrt (<) (map fst p) \<Longrightarrow> jhas p k \<Longrightarrow> jset p k (jget p k) = p"
  by (induction p) (force simp: jhas_def jget_def dest: order.asym)+

text \<open>The parts of a sample that a symmetry touches.\<close>

definition views :: "jobj \<Rightarrow> int \<Rightarrow> int \<Rightarrow> string list \<Rightarrow> string list \<Rightarrow> string option \<Rightarrow> bool" where
  "views p x y rows locs h \<longleftrightarrow> dims_ok x y \<and> jget p ''xSize'' = JInt x \<and> jget p ''ySize'' = JInt y
     \<and> (\<exists>b. jget p ''board'' = JStr b \<and> rows_of b = rows) \<and> rows_ok x y rows
     \<and> jget p ''moveLocs'' = JList (map JStr locs) \<and> (\<exists>ps. jget p ''movePlas'' = JList ps \<and> length ps = length locs)
     \<and> list_all (loc_ok x y) locs
     \<and> (case h of None \<Rightarrow> \<not> jhas p ''hintLoc'' | Some l \<Rightarrow> jhas p ''hintLoc'' \<and> jget p ''hintLoc'' = JStr l \<and> loc_ok x y l)"

definition rebuild :: "jobj \<Rightarrow> int \<Rightarrow> int \<Rightarrow> string list \<Rightarrow> string list \<Rightarrow> string option \<Rightarrow> jobj" where
  "rebuild p x y rows locs h =
    (let t = jset (jset (jset (jset p ''xSize'' (JInt x)) ''ySize'' (JInt y)) ''board'' (JStr (join_slash rows))) ''moveLocs'' (JList (map JStr locs))
     in case h of None \<Rightarrow> t | Some l \<Rightarrow> jset t ''hintLoc'' (JStr l))"

lemma jget_has: "jget p k \<noteq> JNull \<Longrightarrow> jhas p k"
  by (force simp: jget_def jhas_def split: option.splits dest: map_of_SomeD)

lemma jget_absent: "\<not> jhas p k \<Longrightarrow> jget p k = JNull"
  using jget_has by blast

lemma views_has: "views p x y rows locs h \<Longrightarrow> jhas p ''xSize'' \<and> jhas p ''ySize''"
  by (simp add: views_def jget_has)

lemma apply_views:
  assumes "views p x y rows locs h" "s \<in> set (syms x y)"
  shows "apply_symmetry p s = Inr (rebuild p x y (turn_rows x y s rows) (map (turn_loc x y s) locs) (map_option (turn_loc x y s) h))"
proof -
  have d: "dims_ok x y" and r: "rows_ok x y rows" using assms(1) by (simp_all add: views_def)
  have shape: "position_shape p = Inr (x, y)"
    using assms(1) views_has [OF assms(1)] validate_dims [of x y] by (simp add: position_shape_def views_def)
  have rows: "board_rows p x y = Inr rows"
    using assms(1) by (auto simp: board_rows_def views_def rows_ok_def Let_def)
  have sym: "validate_symmetry s x y = Inr ()" using d assms(2) validate_sym by simp
  have locs: "mapE (\<lambda>l. transform_gtp_location l x y s) (map JStr locs) = Inr (map (turn_loc x y s) locs)"
    by (rule mapE_map) (use assms d in \<open>auto simp: views_def list_all_iff transform_loc\<close>)
  obtain ps where ps: "jget p ''movePlas'' = JList ps" "length ps = length locs" using assms(1) by (auto simp: views_def)
  have moves: "jget p ''moveLocs'' = JList (map JStr locs)" using assms(1) by (simp add: views_def)
  show ?thesis
  proof (cases h)
    case None
    then have "\<not> jhas p ''hintLoc''" using assms(1) by (simp add: views_def)
    then show ?thesis
      by (simp add: apply_symmetry_def shape sym rows transform_rows_turn [OF d assms(2) r] locs moves ps None rebuild_def Let_def)
  next
    case (Some l)
    then have "jhas p ''hintLoc''" "transform_gtp_location (jget p ''hintLoc'') x y s = Inr (turn_loc x y s l)"
      using assms d by (simp_all add: views_def transform_loc)
    then show ?thesis
      by (simp add: apply_symmetry_def shape sym rows transform_rows_turn [OF d assms(2) r] locs moves ps Some rebuild_def Let_def)
  qed
qed

lemma shapeD: "position_shape p = Inr (x, y) \<Longrightarrow> dims_ok x y \<and> jget p ''xSize'' = JInt x \<and> jget p ''ySize'' = JInt y"
  using validate_dims by (auto simp: position_shape_def bindE_Inr split: if_splits json.splits)

lemma board_rowsD: "board_rows p x y = Inr rows \<Longrightarrow> (\<exists>b. jget p ''board'' = JStr b \<and> rows_of b = rows) \<and> rows_ok x y rows"
  by (auto simp: board_rows_def rows_ok_def Let_def split: json.splits if_splits)

lemma mapE_locs: "mapE (\<lambda>l. transform_gtp_location l x y s) vs = Inr ms \<Longrightarrow> \<exists>ls. vs = map JStr ls \<and> list_all (loc_ok x y) ls"
proof (induction vs arbitrary: ms)
  case (Cons v vs)
  then obtain m ms' where "transform_gtp_location v x y s = Inr m" "mapE (\<lambda>l. transform_gtp_location l x y s) vs = Inr ms'"
    by (auto simp: bindE_Inr)
  then obtain l ls where "v = JStr l" "loc_ok x y l" "vs = map JStr ls" "list_all (loc_ok x y) ls"
    using Cons.IH transform_locD by blast
  then show ?case by (intro exI [of _ "l # ls"]) simp
qed simp

lemma apply_viewsD:
  assumes "apply_symmetry p s = Inr q"
  obtains x y rows locs h where "views p x y rows locs h" "s \<in> set (syms x y)"
proof -
  from assms obtain x y rows where shape: "position_shape p = Inr (x, y)" and sym: "validate_symmetry s x y = Inr ()" and rows: "board_rows p x y = Inr rows"
    by (auto simp: apply_symmetry_def bindE_Inr)
  from assms shape sym rows obtain vs ps ms where vs: "jget p ''moveLocs'' = JList vs" "jget p ''movePlas'' = JList ps" "length vs = length ps"
    and m: "mapE (\<lambda>l. transform_gtp_location l x y s) vs = Inr ms"
    and h: "jhas p ''hintLoc'' \<longrightarrow> (\<exists>m. transform_gtp_location (jget p ''hintLoc'') x y s = Inr m)"
    by (cases "jget p ''moveLocs''"; cases "jget p ''movePlas''") (auto simp: apply_symmetry_def bindE_Inr Let_def split: if_splits)
  obtain ls where ls: "vs = map JStr ls" "list_all (loc_ok x y) ls" using mapE_locs [OF m] by blast
  have s: "dims_ok x y" "s \<in> set (syms x y)" using sym validate_sym by auto
  note base = shapeD [OF shape] board_rowsD [OF rows] vs ls s
  show thesis
  proof (cases "jhas p ''hintLoc''")
    case True
    then obtain l where "jget p ''hintLoc'' = JStr l" "loc_ok x y l" using h transform_locD by blast
    then show thesis using base True by (intro that [of x y rows ls "Some l"]) (auto simp: views_def)
  next
    case False
    then show thesis using base by (intro that [of x y rows ls None]) (auto simp: views_def)
  qed
qed

lemma rebuild_views:
  assumes "views p x y rows locs h" "rows_ok x y rows'" "list_all (loc_ok x y) locs'" "length locs' = length locs"
    "case h' of None \<Rightarrow> h = None | Some l \<Rightarrow> h \<noteq> None \<and> loc_ok x y l"
  shows "views (rebuild p x y rows' locs' h') x y rows' locs' h'"
proof -
  have "rows_of (join_slash rows') = rows'" using assms(1,2) by (auto simp: views_def dims_ok_def rows_join)
  then show ?thesis
    using assms by (cases h'; cases h) (auto simp: views_def rebuild_def Let_def jget_jset jhas_jset)
qed

lemma rebuild_rebuild: "(h' = None) = (h = None) \<Longrightarrow> rebuild (rebuild p x y rows locs h) x y rows' locs' h' = rebuild p x y rows' locs' h'"
  by (cases h; cases h') (simp_all add: rebuild_def Let_def jset_twice jset_swap)

lemma turned_views:
  assumes "views p x y rows locs h" "s \<in> set (syms x y)"
  shows "views (rebuild p x y (turn_rows x y s rows) (map (turn_loc x y s) locs) (map_option (turn_loc x y s) h)) x y
    (turn_rows x y s rows) (map (turn_loc x y s) locs) (map_option (turn_loc x y s) h)"
proof -
  have d: "dims_ok x y" and r: "rows_ok x y rows" and l: "list_all (loc_ok x y) locs" "opt_all (loc_ok x y) h"
    using assms(1) by (auto simp: views_def split: option.splits)
  show ?thesis
    by (rule rebuild_views [OF assms(1) turn_rows_ok [OF d assms(2) r]])
      (use l turn_loc_ok [OF d assms(2)] in \<open>auto simp: list_all_iff split: option.splits\<close>)
qed

text \<open>Two symmetries in a row are one.\<close>

lemma apply_apply:
  assumes "views p x y rows locs h" "apply_symmetry p s = Inr q" "s \<in> set (syms x y)" "t \<in> set (syms x y)"
  shows "apply_symmetry q t = apply_symmetry p (combine t s)"
proof -
  have d: "dims_ok x y" and r: "rows_ok x y rows" and l: "list_all (loc_ok x y) locs" "opt_all (loc_ok x y) h"
    using assms(1) by (auto simp: views_def split: option.splits)
  let ?rows = "turn_rows x y s rows" and ?locs = "map (turn_loc x y s) locs" and ?h = "map_option (turn_loc x y s) h"
  have q: "q = rebuild p x y ?rows ?locs ?h" using apply_views [OF assms(1,3)] assms(2) by simp
  have v: "views q x y ?rows ?locs ?h"
    unfolding q by (rule turned_views [OF assms(1,3)])
  have two: "turn_loc x y t (turn_loc x y s m) = turn_loc x y (combine t s) m" if "loc_ok x y m" for m
    by (rule turn_loc_turn_loc [OF d assms(3,4) that])
  have locs: "map (turn_loc x y t) ?locs = map (turn_loc x y (combine t s)) locs" using l two by (simp add: list_all_iff)
  have hint: "map_option (turn_loc x y t) ?h = map_option (turn_loc x y (combine t s)) h" using l two by (cases h) simp_all
  have "apply_symmetry q t = Inr (rebuild q x y (turn_rows x y (combine t s) rows) (map (turn_loc x y (combine t s)) locs)
      (map_option (turn_loc x y (combine t s)) h))"
    using apply_views [OF v assms(4)] unfolding turn_rows_turn_rows [OF assms(3,4)] locs hint .
  then show ?thesis
    unfolding apply_views [OF assms(1) sym_laws(1) [OF assms(3,4)]] by (simp add: q rebuild_rebuild)
qed

section \<open>Undoing a symmetry\<close>

lemma inverse_symmetry_undo: "s \<in> set (syms x y) \<Longrightarrow> inverse_symmetry s = Inr (undo_sym s)"
  using rect_square [of s x y] by (auto simp: inverse_symmetry_def undo_sym_def NUM_SYMMETRIES_def sym_lists)

lemma canonical_loc:
  assumes "canonical_form n x y l" "dims_ok x y" "s \<in> set (syms x y)"
  shows "loc_ok x y l" "turn_loc x y 0 l = l" "canonical_form n x y (turn_loc x y s l)"
proof -
  have words: "unchanged ''pass''" "unchanged ''null''" unfolding unchanged_def by code_simp+
  have board: "loc_ok x y l \<and> turn_loc x y 0 l = l \<and> canonical_form n x y (turn_loc x y s l)"
    if l: "0 \<le> a" "a < 25" "a < x" "1 \<le> row" "row \<le> y" "l = gtp_text a row" for a row
  proof -
    have on: "on_board x y (a, y - row)" using l by (simp add: on_board_def)
    have f: "format_gtp_location a (y - row) y = l" using l by (simp add: format_gtp_location_def)
    note p = format_parse [OF assms(2) on, unfolded f]
    obtain d e where t: "turn x y s (a, y - row) = (d, e)" by fastforce
    have de: "on_board x y (d, e)" using turn_on_board [OF assms(3) on] t by simp
    have "turn_loc x y s l = gtp_text d (y - e)" using p t by (simp add: turn_loc_def format_gtp_location_def)
    moreover have "0 \<le> d \<and> d < 25 \<and> d < x \<and> 1 \<le> y - e \<and> y - e \<le> y" using de assms(2) by (auto simp: on_board_def dims_ok_def)
    ultimately have "canonical_form n x y (turn_loc x y s l)" unfolding canonical_form_def by blast
    then show ?thesis using p f by (simp add: loc_ok_def turn_loc_def turn_0)
  qed
  have "loc_ok x y l \<and> turn_loc x y 0 l = l \<and> canonical_form n x y (turn_loc x y s l)"
    using assms(1) unfolding canonical_form_def [of n x y l]
  proof (elim disjE)
    show "l = ''pass'' \<Longrightarrow> loc_ok x y l \<and> turn_loc x y 0 l = l \<and> canonical_form n x y (turn_loc x y s l)"
      using words by (simp add: loc_ok_def turn_loc_def canonical_form_def)
    show "n \<and> l = ''null'' \<Longrightarrow> loc_ok x y l \<and> turn_loc x y 0 l = l \<and> canonical_form n x y (turn_loc x y s l)"
      using words by (simp add: loc_ok_def turn_loc_def canonical_form_def)
  qed (use board in blast)
  then show "loc_ok x y l" "turn_loc x y 0 l = l" "canonical_form n x y (turn_loc x y s l)" by simp_all
qed

lemma sorted_ext:
  assumes "sorted_wrt (<) (map fst p)" "sorted_wrt (<) (map fst q)" "\<And>k. jhas p k = jhas q k" "\<And>k. jget p k = jget q k"
  shows "p = (q :: jobj)"
proof -
  have d: "distinct (map fst r) \<and> sorted (map fst r)" if "sorted_wrt (<) (map fst r)" for r :: jobj
    using that strict_sorted_iff by blast
  have "(k, v) \<in> set r \<longleftrightarrow> jhas r k \<and> jget r k = v" if "sorted_wrt (<) (map fst r)" for r :: jobj and k v
    using d [OF that] by (force simp: jhas_def jget_def dest: map_of_is_SomeI)
  then have "set p = set q" using assms by (metis subrelI subset_antisym)
  moreover have "inj_on fst (set p \<union> set q)" using calculation d [OF assms(1)] by (simp add: distinct_map)
  ultimately show ?thesis using map_sorted_distinct_set_unique d [OF assms(1)] d [OF assms(2)] by blast
qed

lemma required_sorted: "sorted_wrt (<) (map fst (required_fields rows hint n moves ps np x y))"
  by (simp add: required_fields_def)

lemma optional_sorted: "runE (add_optional c) n ks = Inr q \<Longrightarrow> sorted_wrt (<) (map fst n) \<Longrightarrow> sorted_wrt (<) (map fst q)"
proof (induction ks arbitrary: n)
  case (Cons k ks)
  then obtain m where m: "add_optional c n k = Inr m" "runE (add_optional c) m ks = Inr q" by (auto simp: bindE_Inr)
  have "m = n \<or> (\<exists>v. m = jset n k v)" using m(1) by (auto simp: add_optional_def Let_def bindE_Inr split: if_splits json.splits)
  then show ?case using Cons.IH [OF m(2)] Cons.prems(2) jset_sorted by auto
qed simp

lemma optional_again: "runE (add_optional c) n ks = Inr q \<Longrightarrow> \<exists>r. runE (add_optional c) n' ks = Inr r"
proof (induction ks arbitrary: n n')
  case (Cons k ks)
  then obtain m where m: "add_optional c n k = Inr m" "runE (add_optional c) m ks = Inr q" by (auto simp: bindE_Inr)
  have "\<exists>m'. add_optional c n' k = Inr m'"
    using m(1) by (cases "finite_number (jget c k)") (auto simp: add_optional_def Let_def split: if_splits json.splits)
  then obtain m' where "add_optional c n' k = Inr m'" by blast
  then show ?case using Cons.IH [OF m(2)] by auto
qed simp

lemma upper_fixed: "list_all board_char r \<Longrightarrow> py_upper r = r \<longleftrightarrow> list_all (\<lambda>c. upper_char c = [c]) r"
proof (induction r)
  case (Cons c r)
  have "list_all (\<lambda>c. length (upper_char c) = 1) ''.xXoO''" by code_simp
  moreover have "c \<in> set ''.xXoO''" using Cons.prems by (simp add: board_char_def)
  ultimately have "length (upper_char c) = 1" unfolding list_all_iff by blast
  then obtain d where "upper_char c = [d]" by (cases "upper_char c") auto
  then show ?case using Cons by (auto simp: py_upper_def)
qed (simp add: py_upper_def)

lemma turn_rows_upper:
  assumes "dims_ok x y" "s \<in> set (syms x y)" "rows_ok x y rows" "map py_upper rows = rows"
  shows "map py_upper (turn_rows x y s rows) = turn_rows x y s rows"
proof -
  have fixed: "upper_char (cell rows p) = [cell rows p]" if "on_board x y p" for p
  proof -
    have l: "nat (snd p) < length rows" using assms(3) that by (auto simp: rows_ok_def on_board_def)
    then have "int (length (rows ! nat (snd p))) = x" using assms(3) by (auto simp: rows_ok_def list_all_length)
    then have m: "nat (fst p) < length (rows ! nat (snd p))" using that by (auto simp: on_board_def)
    have r: "list_all board_char (rows ! nat (snd p))" using l assms(3) by (auto simp: rows_ok_def list_all_length)
    have "py_upper (rows ! nat (snd p)) = rows ! nat (snd p)" using assms(4) l by (metis nth_map)
    then show ?thesis using upper_fixed [OF r] m by (simp add: cell_def list_all_length)
  qed
  have "py_upper (map (\<lambda>a. cell rows (turn x y (undo_sym s) (int a, int b))) [0..<nat x]) =
      map (\<lambda>a. cell rows (turn x y (undo_sym s) (int a, int b))) [0..<nat x]" if "b < nat y" for b
  proof -
    have "upper_char (cell rows (turn x y (undo_sym s) (int a, int b))) = [cell rows (turn x y (undo_sym s) (int a, int b))]" if "a < nat x" for a
      by (rule fixed [OF turn_on_board [OF sym_laws(2) [OF assms(2)]]]) (use that \<open>b < nat y\<close> in \<open>simp add: on_board_def zless_nat_eq_int_zless\<close>)
    then have "map upper_char (map (\<lambda>a. cell rows (turn x y (undo_sym s) (int a, int b))) [0..<nat x]) =
        map (\<lambda>c. [c]) (map (\<lambda>a. cell rows (turn x y (undo_sym s) (int a, int b))) [0..<nat x])" by simp
    then show ?thesis by (simp only: py_upper_def concat_map_singleton map_ident)
  qed
  then show ?thesis by (simp add: turn_rows_def)
qed

lemma normal_views:
  assumes "parts_ok rows hint n moves ps np x y" "dims_ok x y"
    "runE (add_optional c) (required_fields rows hint n moves ps np x y) OPTIONAL_POSITION_FIELDS = Inr p"
  shows "views p x y rows moves (Some hint)" "\<And>k. k \<in> set REQUIRED_POSITION_KEYS \<Longrightarrow> jget p k = jget (required_fields rows hint n moves ps np x y) k"
    "sorted_wrt (<) (map fst p)" "jget p ''position'' = JNull" "\<And>k. k \<in> set REQUIRED_POSITION_KEYS \<Longrightarrow> jhas p k"
    "runE (add_optional p) (required_fields rows hint n moves ps np x y) OPTIONAL_POSITION_FIELDS = Inr p"
proof -
  note f = optional_fields [OF assms(3)]
  show g: "jget p k = jget (required_fields rows hint n moves ps np x y) k" if "k \<in> set REQUIRED_POSITION_KEYS" for k
    using f no_optional(1) [OF that] by simp
  show h: "jhas p k" if "k \<in> set REQUIRED_POSITION_KEYS" for k using f that by (simp add: required_keys)
  show "sorted_wrt (<) (map fst p)" by (rule optional_sorted [OF assms(3) required_sorted])
  show "jget p ''position'' = JNull" using f no_optional(2) by (simp add: required_get(9))
  have get: "jget p ''board'' = JStr (join_slash rows)" "jget p ''hintLoc'' = JStr hint" "jget p ''moveLocs'' = JList (map JStr moves)"
    "jget p ''movePlas'' = JList ps" "jget p ''xSize'' = JInt x" "jget p ''ySize'' = JInt y" "jhas p ''hintLoc''"
    using g h by (simp_all add: REQUIRED_POSITION_KEYS_def required_get)
  have z: "0 \<in> set (syms x y)" by (simp add: syms_def sym_lists)
  show "views p x y rows moves (Some hint)"
    using assms(1,2) get canonical_loc(1) [OF _ assms(2) z] by (auto simp: views_def parts_ok_def rows_join list_all_iff)
  show "runE (add_optional p) (required_fields rows hint n moves ps np x y) OPTIONAL_POSITION_FIELDS = Inr p"
    using assms(3) by (subst optional_same [of _ p c]) (use f no_optional in \<open>auto simp: required_keys\<close>)
qed

lemma turned_parts:
  assumes "parts_ok rows hint n moves ps np x y" "dims_ok x y" "s \<in> set (syms x y)"
  shows "parts_ok (turn_rows x y s rows) (turn_loc x y s hint) n (map (turn_loc x y s) moves) ps np x y"
proof -
  have "list_all (canonical_form False x y) (map (turn_loc x y s) moves)"
    using assms(1) canonical_loc(3) [OF _ assms(2,3)] by (simp add: parts_ok_def list_all_iff)
  moreover have "canonical_form True x y (turn_loc x y s hint)"
    using assms(1) canonical_loc(3) [OF _ assms(2,3)] by (simp add: parts_ok_def)
  moreover have "map py_upper (turn_rows x y s rows) = turn_rows x y s rows"
    by (rule turn_rows_upper [OF assms(2,3)]) (use assms(1) in \<open>simp_all add: parts_ok_def\<close>)
  ultimately show ?thesis
    using assms(1) turn_rows_ok [OF assms(2,3)] unfolding parts_ok_def by simp
qed

lemma normal_turned:
  assumes "parts_ok rows hint n moves ps np x y" "dims_ok x y" "s \<in> set (syms x y)"
    "runE (add_optional c) (required_fields rows hint n moves ps np x y) OPTIONAL_POSITION_FIELDS = Inr p"
  shows "normalize_position_sample (rebuild p x y (turn_rows x y s rows) (map (turn_loc x y s) moves) (Some (turn_loc x y s hint)))
    = Inr (rebuild p x y (turn_rows x y s rows) (map (turn_loc x y s) moves) (Some (turn_loc x y s hint)))"
proof -
  let ?q = "rebuild p x y (turn_rows x y s rows) (map (turn_loc x y s) moves) (Some (turn_loc x y s hint))"
  let ?f = "required_fields (turn_rows x y s rows) (turn_loc x y s hint) n (map (turn_loc x y s) moves) ps np x y"
  note v = normal_views [OF assms(1,2,4)]
  have q: "jget ?q k = (if k \<in> set REQUIRED_POSITION_KEYS then jget ?f k else jget p k)" for k
    using v(2) by (auto simp: rebuild_def Let_def jget_jset REQUIRED_POSITION_KEYS_def required_get)
  have h: "jhas ?q k = jhas p k" for k
    using v(5) by (auto simp: rebuild_def Let_def jhas_jset REQUIRED_POSITION_KEYS_def)
  have same: "runE (add_optional ?q) ?f OPTIONAL_POSITION_FIELDS = runE (add_optional p) ?f OPTIONAL_POSITION_FIELDS"
    by (rule optional_same) (use q h no_optional in auto)
  obtain r where r: "runE (add_optional p) ?f OPTIONAL_POSITION_FIELDS = Inr r" using optional_again [OF v(6)] by blast
  note fr = optional_fields [OF r] and fp = optional_fields [OF v(6)]
  have pos: "''position'' \<notin> set REQUIRED_POSITION_KEYS" by code_simp
  have "r = ?q"
  proof (rule sorted_ext)
    show "sorted_wrt (<) (map fst r)" by (rule optional_sorted [OF r required_sorted])
    show "sorted_wrt (<) (map fst ?q)" using v(3) by (auto simp: rebuild_def Let_def intro!: jset_sorted)
    show "jhas r k = jhas ?q k" for k using fr fp h by (auto simp: required_keys)
    show "jget r k = jget ?q k" for k
      using fr [of k] fp [of k] q [of k] no_optional(1) [of k] by (auto simp: required_keys jget_absent)
  qed
  moreover have "normalize_position_sample ?q = runE (add_optional ?q) ?f OPTIONAL_POSITION_FIELDS"
    by (rule normalize_parts [OF turned_parts [OF assms(1-3)]]) (use q h v(4,5) pos in auto)
  ultimately show ?thesis using same r by simp
qed

lemma round_trip:
  assumes "normalize_position_sample p = Inr p" "position_shape p = Inr (x, y)" "shape_preserving_symmetries x y = Inr ss" "s \<in> set ss"
  shows "\<exists>q. apply_symmetry p s = Inr q \<and> normalize_position_sample q = Inr q \<and> invert_symmetry q s = Inr p"
proof -
  have d: "dims_ok x y" and s: "s \<in> set (syms x y)"
    using assms(3,4) validate_dims [of x y] by (auto simp: shape_preserving_symmetries_def bindE_Inr syms_def)
  obtain rows hint n moves ps np x' y' where ok: "parts_ok rows hint n moves ps np x' y'"
    and run: "runE (add_optional (unwrapped p)) (required_fields rows hint n moves ps np x' y') OPTIONAL_POSITION_FIELDS = Inr p"
    using assms(1) by (rule normalizeE)
  have xy: "x' = x" "y' = y"
    using optional_fields [OF run] no_optional(1) shapeD [OF assms(2)] by (auto simp: REQUIRED_POSITION_KEYS_def required_get)
  note ok = ok [unfolded xy] and run = run [unfolded xy]
  note v = normal_views [OF ok d run]
  let ?q = "rebuild p x y (turn_rows x y s rows) (map (turn_loc x y s) moves) (Some (turn_loc x y s hint))"
  have q: "apply_symmetry p s = Inr ?q" using apply_views [OF v(1) s] by simp
  have z: "0 \<in> set (syms x y)" by (simp add: syms_def sym_lists)
  have "apply_symmetry ?q (undo_sym s) = apply_symmetry p 0"
    using apply_apply [OF v(1) q s sym_laws(2) [OF s]] sym_laws(3) [OF s] by simp
  moreover have "apply_symmetry p 0 = Inr (rebuild p x y rows moves (Some hint))"
  proof -
    have "map (turn_loc x y 0) moves = moves" "turn_loc x y 0 hint = hint"
      using ok canonical_loc(2) [OF _ d z] by (auto simp: parts_ok_def list_all_iff intro!: map_idI)
    then show ?thesis using apply_views [OF v(1) z] ok by (simp add: parts_ok_def turn_rows_0)
  qed
  moreover have "rebuild p x y rows moves (Some hint) = p"
  proof -
    have same: "jset p k (jget (required_fields rows hint n moves ps np x y) k) = p" if "k \<in> set REQUIRED_POSITION_KEYS" for k
      using jset_fixed [OF v(3) v(5) [OF that]] v(2) [OF that] by simp
    show ?thesis using same [of "''board''"] same [of "''hintLoc''"] same [of "''moveLocs''"] same [of "''xSize''"] same [of "''ySize''"]
      by (simp add: rebuild_def REQUIRED_POSITION_KEYS_def required_get)
  qed
  ultimately have "invert_symmetry ?q s = Inr p" by (simp add: invert_symmetry_def inverse_symmetry_undo [OF s])
  then show ?thesis using q normal_turned [OF ok d s run] by blast
qed

text \<open>
  Symmetries of normalised samples can be undone: on a board of at most 25 columns, each of the
  symmetries that keep the shape, all eight on a square and four otherwise, maps a normal form to
  a normal form, and inverting it gives back exactly the sample it came from.
\<close>

theorem symmetry_round_trip:
  assumes "normalize_position_sample p = Inr p" "position_shape p = Inr (x, y)" "shape_preserving_symmetries x y = Inr ss" "s \<in> set ss"
  shows "\<exists>q. apply_symmetry p s = Inr q \<and> normalize_position_sample q = Inr q \<and> invert_symmetry q s = Inr p"
  by (rule round_trip [OF assms])

theorem symmetry_round_trip_witness:
  "\<exists>q. apply_symmetry clean_sample 5 = Inr q \<and> normalize_position_sample q = Inr q \<and> invert_symmetry q 5 = Inr clean_sample"
proof -
  have "normalize_position_sample clean_sample = Inr clean_sample" "position_shape clean_sample = Inr (2, 2)"
    "shape_preserving_symmetries 2 2 = Inr [0, 1, 2, 3, 4, 5, 6, 7]" by code_simp+
  from symmetry_round_trip [OF this, of 5] show ?thesis by simp
qed

end
