(* ===== verification/Symmetry_Orbit.thy ===== *)
theory Symmetry_Orbit
  imports Symmetry
begin

text \<open>
  The orbit of a position sample under the symmetries of the board, \<open>symmetry_orbit\<close>, and its hash
  \<open>symmetry_orbit_sha256\<close> as an identity: it is the same for all orientations of a sample, and differs
  for samples that no symmetry relates unless SHA-256 collides.
\<close>

section \<open>The identity of an orbit\<close>

lemma orbit_run:
  assumes "runE (orbit_step env p) d ss = Inr e" "dict_ok d"
  shows "dict_ok e \<and> fst ` set e = fst ` set d \<union> {h. \<exists>s \<in> set ss. \<exists>q. apply_symmetry p s = Inr q \<and> semantic_position_sha256 env (hashable q) = Inr h}
    \<and> (\<forall>h s q. (h, s, q) \<in> set e \<longrightarrow> (h, s, q) \<in> set d \<or> s \<in> set ss \<and> apply_symmetry p s = Inr q \<and> semantic_position_sha256 env (hashable q) = Inr h)"
  using assms
proof (induction ss arbitrary: d)
  case (Cons s ss)
  then obtain q h where a: "apply_symmetry p s = Inr q" "semantic_position_sha256 env (hashable q) = Inr h"
    and run: "runE (orbit_step env p) (if dget d h = None then dset d h (s, q) else d) ss = Inr e"
    by (auto simp: orbit_step_def [of env p d s] bindE_Inr)
  let ?d = "if dget d h = None then dset d h (s, q) else d"
  have new: "set (dset d h (s, q)) = insert (h, s, q) (set d)" if "dget d h = None"
    using that Cons.prems(2) by (auto simp: set_dict_iff [OF dict_ok_dset [OF Cons.prems(2)]] set_dict_iff [OF Cons.prems(2)] dget_dset split: if_splits)
  have old: "h \<in> fst ` set d" if "dget d h \<noteq> None" using that dgetD by force
  obtain d' where d': "d' = ?d" by simp
  have keys: "fst ` set d' = insert h (fst ` set d)" and entries: "set d' \<subseteq> insert (h, s, q) (set d)" and ok: "dict_ok d'"
    unfolding d' using new old Cons.prems(2) by (auto simp: insert_absorb)
  note IH = Cons.IH [OF run [folded d'] ok]
  have "fst ` set e = fst ` set d \<union> {h. \<exists>t \<in> set (s # ss). \<exists>q. apply_symmetry p t = Inr q \<and> semantic_position_sha256 env (hashable q) = Inr h}"
    using IH keys a by auto
  moreover have "(k, t, r) \<in> set d \<or> t \<in> set (s # ss) \<and> apply_symmetry p t = Inr r \<and> semantic_position_sha256 env (hashable r) = Inr k"
    if "(k, t, r) \<in> set e" for k t r using IH that entries a by fastforce
  ultimately show ?case using IH by blast
qed simp

lemma orbit_runs:
  "(\<And>s. s \<in> set ss \<Longrightarrow> \<exists>q h. apply_symmetry p s = Inr q \<and> semantic_position_sha256 env (hashable q) = Inr h) \<Longrightarrow> \<exists>e. runE (orbit_step env p) d ss = Inr e"
proof (induction ss arbitrary: d)
  case (Cons s ss)
  obtain q h where "apply_symmetry p s = Inr q" "semantic_position_sha256 env (hashable q) = Inr h" using Cons.prems [of s] by auto
  then show ?case using Cons by (simp add: orbit_step_def [of env p d s])
qed simp

lemma orbit_all:
  "runE (orbit_step env p) d ss = Inr e \<Longrightarrow> s \<in> set ss \<Longrightarrow> \<exists>q h. apply_symmetry p s = Inr q \<and> semantic_position_sha256 env (hashable q) = Inr h"
proof (induction ss arbitrary: d)
  case (Cons t ss)
  then obtain d' where d': "orbit_step env p d t = Inr d'" "runE (orbit_step env p) d' ss = Inr e" by (auto simp: bindE_Inr)
  show ?case
  proof (cases "s = t")
    case True
    then show ?thesis using d'(1) by (auto simp: orbit_step_def bindE_Inr)
  next
    case False
    then show ?thesis using Cons.IH [OF d'(2)] Cons.prems(2) by simp
  qed
qed simp

text \<open>A sample has an identity when it has a hint or wraps another sample, and then the default hint changes nothing.\<close>

definition identified :: "jobj \<Rightarrow> bool" where
  "identified r \<longleftrightarrow> jhas r ''hintLoc'' \<or> (\<exists>p. jget r ''position'' = JObj p)"

lemma restrict_has: "jhas (restrict_keys ks p) k \<longleftrightarrow> k \<in> set ks \<and> jhas p k"
  by (auto simp: restrict_keys_def jhas_def)

lemma sha_identified: "semantic_position_sha256 env r = Inr h \<Longrightarrow> identified r"
proof (rule ccontr)
  assume a: "semantic_position_sha256 env r = Inr h" "\<not> identified r"
  have u: "unwrapped r = r" using a(2) by (auto simp: identified_def unwrapped_def split: json.splits)
  let ?core = "restrict_keys REQUIRED_POSITION_KEYS r"
  have "''position'' \<notin> set REQUIRED_POSITION_KEYS" by code_simp
  then have c: "unwrapped ?core = ?core" by (simp add: unwrapped_id jget_absent restrict_has)
  have "\<not> jhas ?core ''hintLoc''" using a(2) by (simp add: restrict_has identified_def)
  moreover have "''hintLoc'' \<in> set REQUIRED_POSITION_KEYS" by code_simp
  ultimately have "\<not> list_all (jhas ?core) REQUIRED_POSITION_KEYS" unfolding list_all_iff by blast
  then have "validate_position ?core = Inl (ValueErrorP ''missing PositionSample keys'')" by (simp add: validate_position_def)
  then show False using a(1) by (simp add: semantic_position_sha256_def semantic_position_def u normalize_position_sample_def c)
qed

lemma semantic_hashable: "identified r \<Longrightarrow> semantic_position (hashable r) = semantic_position r"
  by (auto simp: identified_def hashable_def semantic_position_def unwrapped_def jget_jset)

lemma sha_hashable: "identified r \<Longrightarrow> semantic_position_sha256 env (hashable r) = semantic_position_sha256 env r"
  by (simp add: semantic_position_sha256_def semantic_hashable)

lemma rebuild_identified: "views p x y rows locs h \<Longrightarrow> (h' = None) = (h = None) \<Longrightarrow> identified (rebuild p x y rows' locs' h') = identified p"
  by (cases h; cases h') (auto simp: identified_def rebuild_def Let_def jget_jset jhas_jset views_def)

lemma apply_identified: "apply_symmetry p s = Inr q \<Longrightarrow> identified q = identified p"
proof -
  assume a: "apply_symmetry p s = Inr q"
  then obtain x y rows locs h where v: "views p x y rows locs h" "s \<in> set (syms x y)" by (rule apply_viewsD)
  have "q = rebuild p x y (turn_rows x y s rows) (map (turn_loc x y s) locs) (map_option (turn_loc x y s) h)"
    using apply_views [OF v] a by simp
  then show ?thesis using rebuild_identified [OF v(1)] by simp
qed

lemma mapE_each: "mapE f xs = Inr ys \<Longrightarrow> x \<in> set xs \<Longrightarrow> \<exists>y. f x = Inr y"
  by (induction xs arbitrary: ys) (auto simp: bindE_Inr)

lemma sort_distinct_keys: "dict_ok e \<Longrightarrow> map fst (sort_key fst e) = sorted_list_of_set (fst ` set e)"
  by (rule sorted_distinct_set_unique) (simp_all add: dict_ok_def distinct_map_sort_key)

lemma orbit_digests:
  assumes "dict_ok e" "\<And>h s q. (h, s, q) \<in> set e \<Longrightarrow> semantic_position_sha256 env q = Inr h"
  shows "mapE (\<lambda>(s, q). semantic_position_sha256 env q) (map snd (sort_key fst e)) = Inr (sorted_list_of_set (fst ` set e))"
proof -
  have "mapE (\<lambda>(s, q). semantic_position_sha256 env q) (map snd (sort_key fst e)) = Inr (map fst (sort_key fst e))"
    by (rule mapE_map) (use assms(2) in \<open>auto split: prod.split\<close>)
  then show ?thesis by (simp add: sort_distinct_keys [OF assms(1)])
qed

lemma views_shape: "views p x y rows locs h \<Longrightarrow> position_shape p = Inr (x, y) \<and> shape_preserving_symmetries x y = Inr (syms x y)"
  using views_has validate_dims [of x y]
  by (auto simp: position_shape_def views_def shape_preserving_symmetries_def syms_def)

text \<open>The digests of the orbit.\<close>

definition orbit_hashes :: "promo_env \<Rightarrow> jobj \<Rightarrow> int list \<Rightarrow> string set" where
  "orbit_hashes env p ss = {h. \<exists>s \<in> set ss. \<exists>q. apply_symmetry p s = Inr q \<and> semantic_position_sha256 env (hashable q) = Inr h}"

lemma orbit_sha:
  assumes "views p x y rows locs h" "identified p"
    "\<And>s. s \<in> set (syms x y) \<Longrightarrow> \<exists>q h. apply_symmetry p s = Inr q \<and> semantic_position_sha256 env (hashable q) = Inr h"
  shows "symmetry_orbit_sha256 env p = Inr (canonical_sha256 env (JList (map JStr (sorted_list_of_set (orbit_hashes env p (syms x y))))))"
proof -
  obtain e where e: "runE (orbit_step env p) [] (syms x y) = Inr e" using orbit_runs [OF assms(3)] by blast
  note o = orbit_run [OF e dict_ok_empty]
  have keys: "fst ` set e = orbit_hashes env p (syms x y)" using o by (simp add: orbit_hashes_def)
  have sha: "semantic_position_sha256 env q = Inr k" if "(k, s, q) \<in> set e" for k s q
  proof -
    have a: "apply_symmetry p s = Inr q" "semantic_position_sha256 env (hashable q) = Inr k" using o that by auto
    then show ?thesis using sha_hashable [of q env] apply_identified [OF a(1)] assms(2) by simp
  qed
  have digests: "mapE (\<lambda>(s, q). semantic_position_sha256 env q) (map snd (sort_key fst e)) = Inr (sorted_list_of_set (fst ` set e))"
    by (rule orbit_digests) (use o sha in blast)+
  have "symmetry_orbit_sha256 env p = Inr (canonical_sha256 env (JList (map JStr (sort (sorted_list_of_set (fst ` set e))))))"
    using views_shape [OF assms(1)] e digests by (simp add: symmetry_orbit_sha256_def symmetry_orbit_def)
  then show ?thesis unfolding keys by (simp add: sorted_sort_id)
qed

lemma orbit_sha_succeeds:
  assumes "symmetry_orbit_sha256 env p = Inr d" "views p x y rows locs h"
  shows "identified p" "\<And>s. s \<in> set (syms x y) \<Longrightarrow> \<exists>q h. apply_symmetry p s = Inr q \<and> semantic_position_sha256 env (hashable q) = Inr h"
proof -
  from assms views_shape [OF assms(2)] obtain e ds where e: "runE (orbit_step env p) [] (syms x y) = Inr e"
    and ds: "mapE (\<lambda>(s, q). semantic_position_sha256 env q) (map snd (sort_key fst e)) = Inr ds"
    by (auto simp: symmetry_orbit_sha256_def symmetry_orbit_def bindE_Inr)
  show all: "\<exists>q h. apply_symmetry p s = Inr q \<and> semantic_position_sha256 env (hashable q) = Inr h" if "s \<in> set (syms x y)" for s
    using orbit_all [OF e that] .
  note o = orbit_run [OF e dict_ok_empty]
  have "0 \<in> set (syms x y)" by (simp add: syms_def sym_lists)
  then have "fst ` set e \<noteq> {}" using o all by fastforce
  then obtain k s q where m: "(k, s, q) \<in> set e" by (metis image_is_empty list.set_intros(1) neq_Nil_conv prod_cases3 set_empty)
  then have "(s, q) \<in> set (map snd (sort_key fst e))" by force
  then have "\<exists>z. semantic_position_sha256 env q = Inr z" using mapE_each [OF ds] by fastforce
  then have "identified q" using sha_identified by blast
  moreover have "apply_symmetry p s = Inr q" using o m by auto
  ultimately show "identified p" using apply_identified by blast
qed

lemma orbit_turned:
  assumes "symmetry_orbit_sha256 env p = Inr d" "apply_symmetry p s = Inr q"
  shows "symmetry_orbit_sha256 env q = Inr d"
proof -
  obtain x y rows locs h where v: "views p x y rows locs h" and s: "s \<in> set (syms x y)" using assms(2) by (rule apply_viewsD)
  note ok = orbit_sha_succeeds [OF assms(1) v]
  let ?rows = "turn_rows x y s rows" and ?locs = "map (turn_loc x y s) locs" and ?h = "map_option (turn_loc x y s) h"
  have vq: "views q x y ?rows ?locs ?h"
    using apply_views [OF v s] assms(2) turned_views [OF v s] by simp
  have app: "apply_symmetry q t = apply_symmetry p (combine t s)" if "t \<in> set (syms x y)" for t
    by (rule apply_apply [OF v assms(2) s that])
  have onto: "\<exists>t \<in> set (syms x y). combine t s = u" if "u \<in> set (syms x y)" for u
    using combine_reaches [OF s that] by blast
  have "orbit_hashes env q (syms x y) = orbit_hashes env p (syms x y)"
  proof (intro equalityI subsetI)
    show "k \<in> orbit_hashes env p (syms x y)" if k: "k \<in> orbit_hashes env q (syms x y)" for k
    proof -
      obtain t r where "t \<in> set (syms x y)" "apply_symmetry q t = Inr r" "semantic_position_sha256 env (hashable r) = Inr k"
        using k by (auto simp: orbit_hashes_def)
      then show ?thesis using app sym_laws(1) [OF s] by (auto simp: orbit_hashes_def)
    qed
    show "k \<in> orbit_hashes env q (syms x y)" if k: "k \<in> orbit_hashes env p (syms x y)" for k
    proof -
      obtain u r where u: "u \<in> set (syms x y)" "apply_symmetry p u = Inr r" "semantic_position_sha256 env (hashable r) = Inr k"
        using k by (auto simp: orbit_hashes_def)
      then show ?thesis using onto [OF u(1)] app by (auto simp: orbit_hashes_def)
    qed
  qed
  moreover have "symmetry_orbit_sha256 env q = Inr (canonical_sha256 env (JList (map JStr (sorted_list_of_set (orbit_hashes env q (syms x y))))))"
  proof (rule orbit_sha [OF vq])
    show "identified q" using ok(1) apply_identified [OF assms(2)] by simp
    show "\<exists>r k. apply_symmetry q t = Inr r \<and> semantic_position_sha256 env (hashable r) = Inr k" if "t \<in> set (syms x y)" for t
      using ok(2) [OF sym_laws(1) [OF s that]] app [OF that] by simp
  qed
  ultimately show ?thesis using orbit_sha [OF v ok] assms(1) by simp
qed

lemma restrict_get: "jget (restrict_keys ks p) k = (if k \<in> set ks then jget p k else JNull)"
proof -
  have "map_of (restrict_keys ks p) k = (if k \<in> set ks then map_of p k else None)"
    unfolding restrict_keys_def by (induction p) auto
  then show ?thesis by (simp add: jget_def)
qed

lemma no_optionals: "(\<And>k. k \<in> set ks \<Longrightarrow> \<not> jhas c k) \<Longrightarrow> runE (add_optional c) n ks = Inr n"
  by (induction ks arbitrary: n) (simp_all add: add_optional_def)

lemma core_plain: "runE (add_optional (restrict_keys REQUIRED_POSITION_KEYS p)) n OPTIONAL_POSITION_FIELDS = Inr n"
  by (rule no_optionals) (use no_optional(1) in \<open>auto simp: restrict_has\<close>)

lemma core_unwrapped: "unwrapped (restrict_keys REQUIRED_POSITION_KEYS p) = restrict_keys REQUIRED_POSITION_KEYS p"
proof -
  have "''position'' \<notin> set REQUIRED_POSITION_KEYS" by code_simp
  then show ?thesis by (simp add: unwrapped_id restrict_get)
qed

text \<open>The semantic position of a normal form, and what any semantic position consists of.\<close>

lemma semantic_normal:
  assumes "normalize_position_sample p = Inr p"
  shows "\<exists>m. semantic_position p = Inr m"
proof -
  obtain rows hint n moves ps np x y where ok: "parts_ok rows hint n moves ps np x y"
    and run: "runE (add_optional (unwrapped p)) (required_fields rows hint n moves ps np x y) OPTIONAL_POSITION_FIELDS = Inr p"
    using assms by (rule normalizeE)
  note f = optional_fields [OF run]
  have "jget p ''position'' = JNull" using f [of "''position''"] no_optional(2) required_get(9) by simp
  then have "unwrapped p = p" by (rule unwrapped_id)
  moreover have required: "jhas p k \<and> jget p k = jget (required_fields rows hint n moves ps np x y) k" if "k \<in> set REQUIRED_POSITION_KEYS" for k
    using f [of k] no_optional(1) [OF that] required_keys [of rows hint n moves ps np x y k] that by simp
  have "''position'' \<notin> set REQUIRED_POSITION_KEYS" by code_simp
  then have "normalize_position_sample (restrict_keys REQUIRED_POSITION_KEYS p) = Inr (required_fields rows hint n moves ps np x y)"
    unfolding core_plain [symmetric, of _ p]
    by (intro normalize_parts [OF ok]) (use required in \<open>simp_all add: restrict_get restrict_has\<close>)
  ultimately show ?thesis by (simp add: semantic_position_def)
qed

lemma semantic_parts:
  assumes "semantic_position p = Inr m"
  shows "\<exists>rows hint n moves ps np x y. parts_ok rows hint n moves ps np x y \<and>
    m = restrict_keys SEMANTIC_POSITION_FIELDS (required_fields rows hint n moves ps np x y)"
proof -
  from assms obtain q where q: "normalize_position_sample (restrict_keys REQUIRED_POSITION_KEYS (unwrapped p)) = Inr q"
    and m: "m = restrict_keys SEMANTIC_POSITION_FIELDS q" by (auto simp: semantic_position_def bindE_Inr)
  from q obtain rows hint n moves ps np x y where "parts_ok rows hint n moves ps np x y"
    "q = required_fields rows hint n moves ps np x y" by (rule normalizeE) (simp add: core_unwrapped core_plain)
  then show ?thesis using m by blast
qed

lemma players_text: "any_not_player ps = Inr False \<Longrightarrow> v \<in> set ps \<Longrightarrow> \<exists>t. v = JStr t"
  by (induction ps) (auto simp: bindE_Inr split: if_splits elim: is_player.elims)

lemma semantic_payload:
  assumes "semantic_position p = Inr m"
  shows "payload_ok m"
proof -
  obtain rows hint n moves ps np x y where ok: "parts_ok rows hint n moves ps np x y"
    and m: "m = restrict_keys SEMANTIC_POSITION_FIELDS (required_fields rows hint n moves ps np x y)"
    using semantic_parts [OF assms] by blast
  have "jok (JList ps)" 
  proof (rule jok_list)
    fix v assume "v \<in> set ps"
    then obtain t where "v = JStr t" using ok players_text [of ps v] by (auto simp: parts_ok_def)
    then show "jok v" by simp
  qed
  moreover have "is_player np = Inr True" using ok by (simp add: parts_ok_def)
  then have "jok np" by (cases np) auto
  ultimately have "\<forall>v \<in> snd ` set (required_fields rows hint n moves ps np x y). jok v" by (simp add: required_fields_def)
  then show ?thesis unfolding payload_ok_jok m restrict_keys_def
    using required_sorted [of rows hint n moves ps np x y] by (auto simp: sorted_wrt_map sorted_wrt_filter)
qed

lemma orbit_exists:
  assumes "normalize_position_sample p = Inr p" "position_shape p = Inr (x, y)" "shape_preserving_symmetries x y = Inr ss"
  shows "\<exists>d. symmetry_orbit_sha256 env p = Inr d"
proof -
  have ss: "ss = syms x y" using assms(3) by (auto simp: shape_preserving_symmetries_def bindE_Inr syms_def)
  have all: "\<exists>q. apply_symmetry p s = Inr q \<and> normalize_position_sample q = Inr q" if "s \<in> set (syms x y)" for s
    using round_trip [OF assms] that ss by blast
  have "0 \<in> set (syms x y)" by (simp add: syms_def sym_lists)
  then obtain q where "apply_symmetry p 0 = Inr q" using all by blast
  then obtain x' y' rows locs h where v: "views p x' y' rows locs h" by (rule apply_viewsD)
  then have xy: "x' = x" "y' = y" using views_shape [OF v] assms(2) by auto
  have id: "identified p" using sha_identified semantic_normal [OF assms(1)] by (auto simp: semantic_position_sha256_def)
  have "\<exists>q h. apply_symmetry p s = Inr q \<and> semantic_position_sha256 env (hashable q) = Inr h" if s: "s \<in> set (syms x y)" for s
  proof -
    obtain q where q: "apply_symmetry p s = Inr q" "normalize_position_sample q = Inr q" using all [OF s] by blast
    then show ?thesis using semantic_normal [OF q(2)] sha_hashable [of q env] apply_identified [OF q(1)] id
      by (auto simp: semantic_position_sha256_def)
  qed
  then show ?thesis using orbit_sha [OF v [unfolded xy] id] by blast
qed

text \<open>
  C39. The identity of an orbit does not depend on the orientation: if the orbit hash of a sample
  exists, every sample obtained from it by a symmetry has the same orbit hash, whatever the hash
  function does.
\<close>

theorem orbit_identity_invariant:
  assumes "symmetry_orbit_sha256 env p = Inr d" "apply_symmetry p s = Inr q"
  shows "symmetry_orbit_sha256 env q = Inr d"
  by (rule orbit_turned [OF assms])

theorem orbit_identity_invariant_witness:
  "\<exists>d q. symmetry_orbit_sha256 sample_env clean_sample = Inr d \<and> apply_symmetry clean_sample 5 = Inr q \<and> q \<noteq> clean_sample
     \<and> symmetry_orbit_sha256 sample_env q = Inr d"
proof -
  have "normalize_position_sample clean_sample = Inr clean_sample" "position_shape clean_sample = Inr (2, 2)"
    "shape_preserving_symmetries 2 2 = Inr [0, 1, 2, 3, 4, 5, 6, 7]" by code_simp+
  from orbit_exists [OF this] obtain d where d: "symmetry_orbit_sha256 sample_env clean_sample = Inr d" by blast
  have "case apply_symmetry clean_sample 5 of Inl _ \<Rightarrow> False | Inr q \<Rightarrow> q \<noteq> clean_sample" by code_simp
  then obtain q where q: "apply_symmetry clean_sample 5 = Inr q" "q \<noteq> clean_sample" by (auto split: sum.splits)
  show ?thesis using orbit_identity_invariant [OF d q(1)] d q by blast
qed

text \<open>The texts that are hashed for an orbit: one for every symmetry, and the list of their digests.\<close>

definition orbit_texts :: "promo_env \<Rightarrow> jobj \<Rightarrow> string set" where
  "orbit_texts env p = {dumps env (JObj m) | s q m. apply_symmetry p s = Inr q \<and> semantic_position (hashable q) = Inr m}
     \<union> {dumps env (JList (map JStr (sorted_list_of_set (orbit_hashes env p (syms x y))))) | x y. position_shape p = Inr (x, y)}"

lemma orbit_text_inject:
  assumes "json_roundtrip env" "jok v" "jok w" "dumps env v = dumps env w"
  shows "v = w"
proof -
  have "loads env (dumps env u @ newline) = Some u" if "jok u" for u
    using assms(1) that unfolding json_roundtrip_def jok_def by blast
  then show ?thesis using assms(2-4) by (metis option.inject)
qed

lemma orbit_sha_views:
  assumes "symmetry_orbit_sha256 env p = Inr d"
  shows "\<exists>x y rows locs h. views p x y rows locs h"
proof -
  from assms obtain x y e where "position_shape p = Inr (x, y)" "runE (orbit_step env p) [] (syms x y) = Inr e"
    by (auto simp: symmetry_orbit_sha256_def symmetry_orbit_def bindE_Inr shape_preserving_symmetries_def syms_def)
  moreover have "0 \<in> set (syms x y)" by (simp add: syms_def sym_lists)
  ultimately obtain q where "apply_symmetry p 0 = Inr q" using orbit_all by blast
  then show ?thesis by (rule apply_viewsD) blast
qed

lemma finite_orbit: "finite (orbit_hashes env p ss)"
proof -
  have "orbit_hashes env p ss \<subseteq> (\<lambda>s. case apply_symmetry p s of Inl e \<Rightarrow> [] | Inr q \<Rightarrow> (case semantic_position_sha256 env (hashable q) of Inl e \<Rightarrow> [] | Inr h \<Rightarrow> h)) ` set ss"
    by (force simp: orbit_hashes_def)
  then show ?thesis by (rule finite_subset) simp
qed

text \<open>
  Orbit hashes separate: if two samples have the same orbit hash, then some symmetry of the one and
  some symmetry of the other give samples with the same semantic position, provided SHA-256 does not
  collide on the few texts hashed for the two orbits and JSON text can be read back.
\<close>

theorem orbit_identity_separates:
  assumes "json_roundtrip env" "inj_on (sha256_bytes env) (orbit_texts env p \<union> orbit_texts env q)"
    "symmetry_orbit_sha256 env p = Inr d" "symmetry_orbit_sha256 env q = Inr d"
  shows "\<exists>s t r u m. apply_symmetry p s = Inr r \<and> apply_symmetry q t = Inr u \<and> semantic_position r = Inr m \<and> semantic_position u = Inr m"
proof -
  obtain x y rows locs h where v: "views p x y rows locs h" using orbit_sha_views [OF assms(3)] by blast
  obtain x' y' rows' locs' h' where v': "views q x' y' rows' locs' h'" using orbit_sha_views [OF assms(4)] by blast
  note ok = orbit_sha_succeeds [OF assms(3) v] and ok' = orbit_sha_succeeds [OF assms(4) v']
  let ?P = "orbit_hashes env p (syms x y)" and ?Q = "orbit_hashes env q (syms x' y')"
  let ?text = "\<lambda>K. dumps env (JList (map JStr (sorted_list_of_set K)))"
  have "sha256_bytes env (?text ?P) = sha256_bytes env (?text ?Q)"
    using orbit_sha [OF v ok] orbit_sha [OF v' ok'] assms(3,4) by (simp add: canonical_sha256_def)
  moreover have "?text ?P \<in> orbit_texts env p" "?text ?Q \<in> orbit_texts env q"
    using views_shape [OF v] views_shape [OF v'] unfolding orbit_texts_def by blast+
  ultimately have "?text ?P = ?text ?Q" using assms(2) by (auto dest: inj_onD)
  then have "map JStr (sorted_list_of_set ?P) = map JStr (sorted_list_of_set ?Q)"
    using orbit_text_inject [OF assms(1) jok_strings jok_strings] by blast
  then have same: "?P = ?Q"
    by (metis finite_orbit set_sorted_list_of_set list.inj_map_strong json.inject(4))
  have "0 \<in> set (syms x y)" by (simp add: syms_def sym_lists)
  then obtain r k where r: "apply_symmetry p 0 = Inr r" "semantic_position_sha256 env (hashable r) = Inr k" using ok(2) by blast
  then have "k \<in> ?P" using \<open>0 \<in> set (syms x y)\<close> by (auto simp: orbit_hashes_def)
  then have "k \<in> ?Q" using same by simp
  then obtain t u where u: "apply_symmetry q t = Inr u" "semantic_position_sha256 env (hashable u) = Inr k"
    by (auto simp: orbit_hashes_def)
  obtain m m' where m: "semantic_position (hashable r) = Inr m" "semantic_position (hashable u) = Inr m'"
    "sha256_bytes env (dumps env (JObj m)) = sha256_bytes env (dumps env (JObj m'))"
    using r(2) u(2) by (auto simp: semantic_position_sha256_def canonical_sha256_def bindE_Inr)
  have "dumps env (JObj m) \<in> orbit_texts env p" "dumps env (JObj m') \<in> orbit_texts env q"
    using r(1) u(1) m(1,2) unfolding orbit_texts_def by blast+
  then have "dumps env (JObj m) = dumps env (JObj m')" using assms(2) m(3) by (auto dest: inj_onD)
  then have "m = m'" using orbit_text_inject [OF assms(1)] semantic_payload m(1,2) by (metis jok_obj json.inject(6))
  moreover have "semantic_position (hashable r) = semantic_position r" "semantic_position (hashable u) = semantic_position u"
    using semantic_hashable apply_identified r(1) u(1) ok(1) ok'(1) by blast+
  ultimately show ?thesis using r(1) u(1) m by metis
qed

theorem orbit_identity_separates_witness:
  "\<exists>d q s t r u m. symmetry_orbit_sha256 (sample_env\<lparr>sha256_bytes := \<lambda>b. b\<rparr>) clean_sample = Inr d
     \<and> symmetry_orbit_sha256 (sample_env\<lparr>sha256_bytes := \<lambda>b. b\<rparr>) q = Inr d \<and> apply_symmetry clean_sample s = Inr r
     \<and> apply_symmetry q t = Inr u \<and> semantic_position r = Inr m \<and> semantic_position u = Inr m"
proof -
  let ?env = "sample_env\<lparr>sha256_bytes := \<lambda>b. b\<rparr>"
  have c: "normalize_position_sample clean_sample = Inr clean_sample" "position_shape clean_sample = Inr (2, 2)"
    "shape_preserving_symmetries 2 2 = Inr [0, 1, 2, 3, 4, 5, 6, 7]" by code_simp+
  obtain d where d: "symmetry_orbit_sha256 ?env clean_sample = Inr d" using orbit_exists [OF c] by blast
  obtain q where q: "apply_symmetry clean_sample 5 = Inr q" using round_trip [OF c, of 5] by auto
  have "json_roundtrip ?env" using sample_roundtrip by (simp add: json_roundtrip_def)
  moreover have "inj_on (sha256_bytes ?env) (orbit_texts ?env clean_sample \<union> orbit_texts ?env q)" by (simp add: inj_on_def)
  ultimately show ?thesis using orbit_identity_separates [OF _ _ d orbit_turned [OF d q]] d orbit_turned [OF d q] by blast
qed

text \<open>
  Where the code falls short of its intent: \<open>symmetry_orbit\<close> gives a sample without a hint the default
  \<open>null\<close> before it hashes it, but \<open>symmetry_orbit_sha256\<close> hashes the same samples without it, and
  raises on every sample for which the default was made.
\<close>

theorem orbit_hash_needs_hint:
  assumes "\<not> jhas p ''hintLoc''" "jget p ''position'' = JNull"
  shows "\<not> (\<exists>d. symmetry_orbit_sha256 env p = Inr d)"
  using orbit_sha_succeeds(1) orbit_sha_views assms by (fastforce simp: identified_def)

definition hintless_sample :: jobj where
  "hintless_sample = [(''board'', JStr ''.''), (''initialTurnNumber'', JInt 0), (''moveLocs'', JList []),
     (''movePlas'', JList []), (''nextPla'', JStr ''B''), (''xSize'', JInt 1), (''ySize'', JInt 1)]"

theorem hintless_orbit_exists: "\<exists>orbit. symmetry_orbit env hintless_sample = Inr orbit"
proof -
  have fixed: "list_all (\<lambda>s. apply_symmetry hintless_sample s = Inr hintless_sample) (syms 1 1)" by code_simp
  have "\<not> isl (semantic_position (hashable hintless_sample))" by code_simp
  then obtain m where m: "semantic_position (hashable hintless_sample) = Inr m"
    by (cases "semantic_position (hashable hintless_sample)") simp_all
  have "\<exists>q h. apply_symmetry hintless_sample s = Inr q \<and> semantic_position_sha256 env (hashable q) = Inr h" if "s \<in> set (syms 1 1)" for s
    using fixed that m unfolding list_all_iff semantic_position_sha256_def by fastforce
  then obtain e where "runE (orbit_step env hintless_sample) [] (syms 1 1) = Inr e" using orbit_runs by blast
  moreover have "position_shape hintless_sample = Inr (1, 1)" "shape_preserving_symmetries 1 1 = Inr (syms 1 1)" by code_simp+
  ultimately show ?thesis by (simp add: symmetry_orbit_def)
qed

end
