(* ===== verification/Match_Schedule.thy ===== *)
theory Match_Schedule
  imports Position_Samples
begin

text \<open>
  \<^verbatim>\<open>generate_schedule.py\<close>: schedules of matches between two bots, a pair of games with the colours
  reversed for every repetition of every position. Rows are the JSON objects that the code writes,
  with their keys in the order of canonical JSON.
\<close>

section \<open>The generator\<close>

definition SCHEDULE_SCHEMA_VERSION :: int where
  "SCHEDULE_SCHEMA_VERSION = 1"

definition GENERATOR_CONTRACT :: string where
  "GENERATOR_CONTRACT = ''paired-color-reversal-with-per-game-seeds-v1''"

definition validate_row :: "json \<Rightarrow> sample_error + jobj" where
  "validate_row v = (case v of JObj p \<Rightarrow> validate_position p | _ \<Rightarrow> Inl (ValueErrorP ''position must be a JSON object''))"

text \<open>The arguments of \<open>build_schedule\<close> that every game depends on.\<close>

record schedule_args =
  sa_bot_a :: int
  sa_bot_b :: int
  sa_pairs_per_position :: int
  sa_base_seed :: string

definition schedule_basis :: "schedule_args \<Rightarrow> jobj list \<Rightarrow> json" where
  "schedule_basis a positions = JObj [(''baseSeed'', JStr (sa_base_seed a)), (''botA'', JInt (sa_bot_a a)), (''botB'', JInt (sa_bot_b a)),
     (''generatorContract'', JStr GENERATOR_CONTRACT), (''pairsPerPosition'', JInt (sa_pairs_per_position a)),
     (''positions'', JList (map JObj positions)), (''schemaVersion'', JInt SCHEDULE_SCHEMA_VERSION)]"

definition choose_schedule_id :: "promo_env \<Rightarrow> schedule_args \<Rightarrow> jobj list \<Rightarrow> string option \<Rightarrow> sample_error + string" where
  "choose_schedule_id env a positions schedule_id = (case schedule_id of
     None \<Rightarrow> Inr (''risk-score-v1-'' @ take 20 (canonical_sha256 env (schedule_basis a positions)))
   | Some s \<Rightarrow> if s = [] \<or> CHR 0x0A \<in> set s \<or> CHR 0x0D \<in> set s
       then Inl (ValueErrorP ''schedule_id must be a nonempty single-line string'') else Inr s)"

definition pair_id :: "string \<Rightarrow> nat \<Rightarrow> nat \<Rightarrow> nat \<Rightarrow> string" where
  "pair_id schedule_id pair_index source_index repetition =
     schedule_id @ '':pair-'' @ fmt_0d 6 (int pair_index) @ '':src-'' @ fmt_0d 6 (int source_index) @ '':rep-'' @ fmt_0d 3 (int repetition)"

definition seed_basis :: "schedule_args \<Rightarrow> string \<Rightarrow> string \<Rightarrow> nat \<Rightarrow> nat \<Rightarrow> string \<Rightarrow> json" where
  "seed_basis a schedule_id position_hash source_index repetition color_role =
     JObj [(''baseSeed'', JStr (sa_base_seed a)), (''colorRole'', JStr color_role), (''positionHash'', JStr position_hash),
       (''repetition'', JInt (int repetition)), (''scheduleId'', JStr schedule_id), (''sourceIndex'', JInt (int source_index))]"

definition game_row :: "promo_env \<Rightarrow> schedule_args \<Rightarrow> string \<Rightarrow> jobj \<Rightarrow> nat \<Rightarrow> nat \<Rightarrow> nat \<Rightarrow> string \<Rightarrow> int \<Rightarrow> int \<Rightarrow> jobj" where
  "game_row env a schedule_id position pair_index source_index repetition color_role black white =
    (let position_hash = canonical_sha256 env (JObj position); pid = pair_id schedule_id pair_index source_index repetition in
     [(''blackBot'', JInt black), (''gameId'', JStr (pid @ '':'' @ color_role)), (''generatorContract'', JStr GENERATOR_CONTRACT),
      (''pairId'', JStr pid), (''pairRepetition'', JInt (int repetition)), (''positionId'', JStr (''pos-'' @ take 20 position_hash)),
      (''scheduleId'', JStr schedule_id), (''schemaVersion'', JInt SCHEDULE_SCHEMA_VERSION),
      (''seed'', JStr (''risk-score-v1-'' @ take 32 (canonical_sha256 env (seed_basis a schedule_id position_hash source_index repetition color_role)))),
      (''sourcePositionIndex'', JInt (int source_index)), (''startPosition'', JObj position), (''whiteBot'', JInt white)])"

definition pair_rows :: "promo_env \<Rightarrow> schedule_args \<Rightarrow> string \<Rightarrow> jobj \<Rightarrow> nat \<Rightarrow> nat \<Rightarrow> nat \<Rightarrow> jobj list" where
  "pair_rows env a schedule_id position pair_index source_index repetition =
    [game_row env a schedule_id position pair_index source_index repetition ''a-black'' (sa_bot_a a) (sa_bot_b a),
     game_row env a schedule_id position pair_index source_index repetition ''a-white'' (sa_bot_b a) (sa_bot_a a)]"

text \<open>The two loops, with the pair index they count and the schedule they extend.\<close>

fun repetition_loop :: "promo_env \<Rightarrow> schedule_args \<Rightarrow> string \<Rightarrow> jobj \<Rightarrow> nat \<Rightarrow> nat list \<Rightarrow> nat \<times> jobj list \<Rightarrow> nat \<times> jobj list" where
  "repetition_loop env a sid position source_index [] st = st"
| "repetition_loop env a sid position source_index (r # rs) (pair_index, schedule) =
     repetition_loop env a sid position source_index rs (pair_index + 1, schedule @ pair_rows env a sid position pair_index source_index r)"

fun position_loop :: "promo_env \<Rightarrow> schedule_args \<Rightarrow> string \<Rightarrow> nat \<Rightarrow> jobj list \<Rightarrow> nat \<times> jobj list \<Rightarrow> nat \<times> jobj list" where
  "position_loop env a sid source_index [] st = st"
| "position_loop env a sid source_index (p # ps) st =
     position_loop env a sid (source_index + 1) ps (repetition_loop env a sid p source_index [0..<nat (sa_pairs_per_position a)] st)"

definition build_schedule :: "promo_env \<Rightarrow> schedule_args \<Rightarrow> json list \<Rightarrow> string option \<Rightarrow> sample_error + jobj list" where
  "build_schedule env a positions schedule_id =
    (if sa_bot_a a < 0 \<or> sa_bot_b a < 0 then Inl (ValueErrorP ''bot indices must be nonnegative'')
     else if sa_bot_a a = sa_bot_b a then Inl (ValueErrorP ''bot A and bot B must have different indices'')
     else if sa_pairs_per_position a \<le> 0 then Inl (ValueErrorP ''pairs_per_position must be positive'')
     else if sa_base_seed a = [] then Inl (ValueErrorP ''base_seed must not be empty'')
     else if positions = [] then Inl (ValueErrorP ''at least one position is required'')
     else bindE (mapE validate_row positions) (\<lambda>checked.
       bindE (choose_schedule_id env a checked schedule_id) (\<lambda>sid.
       Inr (snd (position_loop env a sid 0 checked (0, []))))))"

text \<open>\<open>write_schedule\<close>: the lines written, and their number.\<close>

definition write_schedule :: "promo_env \<Rightarrow> jobj list \<Rightarrow> string \<times> nat" where
  "write_schedule env rows = (concat (map (\<lambda>r. dumps env (JObj r) @ newline) rows), length rows)"

text \<open>The dictionaries that \<open>json.loads\<close> builds from the pairs of an object: of equal keys the last one counts.\<close>

fun json_dict :: "json \<Rightarrow> json" where
  "json_dict (JList xs) = JList (map json_dict xs)"
| "json_dict (JObj kvs) = JObj (foldl (\<lambda>d (k, v). jset d k v) [] (map (\<lambda>(k, v). (k, json_dict v)) kvs))"
| "json_dict j = j"

text \<open>\<open>load_positions\<close> on the lines of the files in order: blank lines are skipped, each other line is a sample.\<close>

fun load_lines :: "promo_env \<Rightarrow> string list \<Rightarrow> sample_error + json list" where
  "load_lines env [] = Inr []"
| "load_lines env (raw # rest) = (let line = py_strip raw in
     if line = [] then load_lines env rest
     else (case loads env line of
         None \<Rightarrow> Inl (ValueErrorP ''invalid JSON'')
       | Some v \<Rightarrow> bindE (validate_row (json_dict v)) (\<lambda>p. bindE (load_lines env rest) (\<lambda>vs. Inr (JObj p # vs)))))"

definition load_positions :: "promo_env \<Rightarrow> string list \<Rightarrow> sample_error + json list" where
  "load_positions env ls = bindE (load_lines env ls) (\<lambda>vs.
     if vs = [] then Inl (ValueErrorP ''no PositionSample rows were loaded'') else Inr vs)"

section \<open>The schedule in closed form\<close>

text \<open>Game pair \<open>k\<close> is repetition \<open>k mod n\<close> of position \<open>k div n\<close>.\<close>

definition pair_number :: "promo_env \<Rightarrow> schedule_args \<Rightarrow> string \<Rightarrow> jobj list \<Rightarrow> nat \<Rightarrow> jobj list" where
  "pair_number env a sid ps k = (let n = nat (sa_pairs_per_position a) in pair_rows env a sid (ps ! (k div n)) k (k div n) (k mod n))"

lemma upt_shift: "[0..<Suc n] = 0 # map Suc [0..<n]"
  by (simp add: upt_conv_Cons map_Suc_upt del: upt_Suc)

lemma repetition_loop_eq:
  "repetition_loop env a sid p i [m..<m + n] (k, s) = (k + n, s @ concat (map (\<lambda>r. pair_rows env a sid p (k + r) i (m + r)) [0..<n]))"
proof (induction n arbitrary: m k s)
  case (Suc n)
  have "[m..<m + Suc n] = m # [Suc m..<Suc m + n]" by (simp add: upt_conv_Cons)
  then have "repetition_loop env a sid p i [m..<m + Suc n] (k, s)
      = (Suc k + n, (s @ pair_rows env a sid p k i m) @ concat (map (\<lambda>r. pair_rows env a sid p (Suc k + r) i (Suc m + r)) [0..<n]))"
    using Suc [of "Suc m" "Suc k" "s @ pair_rows env a sid p k i m"] by simp
  then show ?case by (simp add: comp_def upt_shift del: upt_Suc)
qed simp

lemma position_loop_eq:
  assumes "n = nat (sa_pairs_per_position a)" "0 < n"
  shows "position_loop env a sid i ps (i * n, s) = ((i + length ps) * n,
    s @ concat (map (\<lambda>j. concat (map (\<lambda>r. pair_rows env a sid (ps ! j) ((i + j) * n + r) (i + j) r) [0..<n])) [0..<length ps]))"
proof (induction ps arbitrary: i s)
  case (Cons p ps)
  have "i * n + n = Suc i * n" by simp
  then show ?case
    using Cons [of "Suc i"] repetition_loop_eq [of env a sid p i 0 n "i * n" s] assms(1)
    by (simp add: comp_def upt_shift del: upt_Suc mult_Suc)
qed simp

lemma blocks:
  assumes "0 < n"
  shows "concat (map (\<lambda>j. concat (map (\<lambda>r. f (j * n + r) j r) [0..<n])) [0..<m]) = concat (map (\<lambda>k. f k (k div n) (k mod n)) [0..<m * n])"
proof (induction m)
  case (Suc m)
  have "[0..<Suc m * n] = [0..<m * n] @ [m * n..<m * n + n]"
    using upt_add_eq_append [of 0 "m * n" n] by (simp add: add.commute)
  moreover have "[m * n..<m * n + n] = map (\<lambda>r. m * n + r) [0..<n]"
    using map_add_upt [of "m * n" n] by (simp add: add.commute)
  ultimately have "map (\<lambda>k. f k (k div n) (k mod n)) [0..<Suc m * n] = map (\<lambda>k. f k (k div n) (k mod n)) [0..<m * n] @
      map (\<lambda>r. f (m * n + r) m r) [0..<n]" using assms by (simp add: comp_def)
  then show ?case using Suc by simp
qed simp

lemma validate_rows: "mapE validate_row vs = Inr ps \<Longrightarrow> vs = map JObj ps"
proof (induction vs arbitrary: ps)
  case (Cons v vs)
  then obtain p qs where "validate_row v = Inr p" "mapE validate_row vs = Inr qs" "ps = p # qs" by (auto simp: bindE_Inr)
  moreover have "v = JObj p" if "validate_row v = Inr p"
    using that by (auto simp: validate_row_def validate_position_def split: json.splits if_splits option.splits)
  ultimately show ?case using Cons.IH by simp
qed simp

lemma schedule_pairs:
  assumes "build_schedule env a positions schedule_id = Inr rows"
  obtains sid ps where "positions = map JObj ps" "0 < nat (sa_pairs_per_position a)"
    "rows = concat (map (pair_number env a sid ps) [0..<length ps * nat (sa_pairs_per_position a)])"
proof -
  from assms obtain sid ps where n: "0 < sa_pairs_per_position a" and ps: "mapE validate_row positions = Inr ps"
    and rows: "rows = snd (position_loop env a sid 0 ps (0, []))"
    by (auto simp: build_schedule_def bindE_Inr split: if_splits)
  let ?n = "nat (sa_pairs_per_position a)"
  have "rows = concat (map (\<lambda>j. concat (map (\<lambda>r. pair_rows env a sid (ps ! j) (j * ?n + r) j r) [0..<?n])) [0..<length ps])"
    using position_loop_eq [of ?n a env sid 0 ps "[]"] n rows by simp
  also have "\<dots> = concat (map (\<lambda>k. pair_rows env a sid (ps ! (k div ?n)) k (k div ?n) (k mod ?n)) [0..<length ps * ?n])"
    using blocks [of ?n "\<lambda>k j r. pair_rows env a sid (ps ! j) k j r"] n by simp
  finally have "rows = concat (map (pair_number env a sid ps) [0..<length ps * ?n])" by (simp add: pair_number_def [abs_def] Let_def)
  then show thesis using that [OF validate_rows [OF ps]] n by simp
qed

lemma pairs_length: "length (concat (map (\<lambda>k. [f k, g k]) [0..<m])) = 2 * m"
  by (induction m) simp_all

lemma pairs_nth: "k < m \<Longrightarrow> concat (map (\<lambda>k. [f k, g k]) [0..<m]) ! (2 * k) = f k \<and> concat (map (\<lambda>k. [f k, g k]) [0..<m]) ! (2 * k + 1) = g k"
  by (induction m) (auto simp: nth_append pairs_length less_Suc_eq)

lemma pairs_distinct:
  "(\<And>k l. k < m \<Longrightarrow> l < m \<Longrightarrow> key (f k) = key (f l) \<Longrightarrow> k = l) \<Longrightarrow> (\<And>k l. k < m \<Longrightarrow> l < m \<Longrightarrow> key (g k) = key (g l) \<Longrightarrow> k = l) \<Longrightarrow>
    (\<And>k l. k < m \<Longrightarrow> l < m \<Longrightarrow> key (f k) \<noteq> key (g l)) \<Longrightarrow> distinct (map key (concat (map (\<lambda>k. [f k, g k]) [0..<m])))"
proof (induction m)
  case (Suc m)
  have old: "x \<in> key ` set (concat (map (\<lambda>k. [f k, g k]) [0..<m])) \<Longrightarrow> \<exists>k < m. x = key (f k) \<or> x = key (g k)" for x by auto
  have "key (f m) \<notin> key ` set (concat (map (\<lambda>k. [f k, g k]) [0..<m]))" "key (g m) \<notin> key ` set (concat (map (\<lambda>k. [f k, g k]) [0..<m]))"
    using old Suc.prems by (metis less_Suc_eq less_irrefl)+
  moreover have "distinct (map key (concat (map (\<lambda>k. [f k, g k]) [0..<m])))" using Suc by simp
  ultimately show ?case using Suc.prems(3) [of m m] by simp
qed simp

subsection \<open>Identifiers\<close>

lemma digits_end: "list_all ascii_digit ds \<Longrightarrow> list_all ascii_digit es \<Longrightarrow> \<not> ascii_digit c \<Longrightarrow> ds @ c # u = es @ c # v \<Longrightarrow> ds = es"
proof -
  have "takeWhile ascii_digit (xs @ c # w) = xs" if "list_all ascii_digit xs" "\<not> ascii_digit c" for xs w
    using that by (induction xs) simp_all
  then show "list_all ascii_digit ds \<Longrightarrow> list_all ascii_digit es \<Longrightarrow> \<not> ascii_digit c \<Longrightarrow> ds @ c # u = es @ c # v \<Longrightarrow> ds = es" by metis
qed

lemma fmt_digits: "list_all ascii_digit (fmt_0d w (int n))"
  using ascii_nat_digits [of n] by (auto simp: fmt_0d_def pad_zeros_def list_all_iff ascii_digit_def)

lemma pair_id_inject:
  assumes "pair_id sid k i r @ u = pair_id sid l j q @ v"
  shows "k = l"
proof -
  have "\<not> ascii_digit (CHR '':'')" by code_simp
  moreover have "fmt_0d 6 (int k) @ CHR '':'' # ''src-'' @ fmt_0d 6 (int i) @ '':rep-'' @ fmt_0d 3 (int r) @ u
      = fmt_0d 6 (int l) @ CHR '':'' # ''src-'' @ fmt_0d 6 (int j) @ '':rep-'' @ fmt_0d 3 (int q) @ v"
    using assms by (simp add: pair_id_def)
  ultimately have "fmt_0d 6 (int k) = fmt_0d 6 (int l)" using digits_end fmt_digits by blast
  then show ?thesis using fmt_0d_inject [of "int k" "int l" 6] by simp
qed

lemma row_get:
  "jget (game_row env a sid p k i r role b w) ''blackBot'' = JInt b" "jget (game_row env a sid p k i r role b w) ''whiteBot'' = JInt w"
  "jget (game_row env a sid p k i r role b w) ''gameId'' = JStr (pair_id sid k i r @ '':'' @ role)"
  "jget (game_row env a sid p k i r role b w) ''pairId'' = JStr (pair_id sid k i r)"
  "jget (game_row env a sid p k i r role b w) ''startPosition'' = JObj p"
  "jget (game_row env a sid p k i r role b w) ''seed'' =
     JStr (''risk-score-v1-'' @ take 32 (canonical_sha256 env (seed_basis a sid (canonical_sha256 env (JObj p)) i r role)))"
  by (simp_all add: game_row_def jget_def Let_def)

text \<open>
  C40. A schedule is balanced: it has two games for every repetition of every position, no two with the
  same identifier, and games \<open>2k\<close> and \<open>2k+1\<close> form a pair that starts from the same position, given
  in the order of the input, shares the pair identifier and swaps the colours of the two bots.
\<close>

theorem schedule_balanced:
  assumes "build_schedule env a positions schedule_id = Inr rows" "n = nat (sa_pairs_per_position a)"
  shows "length rows = 2 * (length positions * n) \<and> distinct (map (\<lambda>r. jget r ''gameId'') rows) \<and>
    (\<forall>k < length positions * n.
      jget (rows ! (2 * k)) ''startPosition'' = positions ! (k div n) \<and> jget (rows ! (2 * k + 1)) ''startPosition'' = positions ! (k div n) \<and>
      jget (rows ! (2 * k)) ''pairId'' = jget (rows ! (2 * k + 1)) ''pairId'' \<and>
      jget (rows ! (2 * k)) ''blackBot'' = JInt (sa_bot_a a) \<and> jget (rows ! (2 * k)) ''whiteBot'' = JInt (sa_bot_b a) \<and>
      jget (rows ! (2 * k + 1)) ''blackBot'' = JInt (sa_bot_b a) \<and> jget (rows ! (2 * k + 1)) ''whiteBot'' = JInt (sa_bot_a a))"
proof -
  obtain sid ps where ps: "positions = map JObj ps" and n: "0 < n"
    and rows: "rows = concat (map (pair_number env a sid ps) [0..<length ps * n])"
    using assms by (auto elim: schedule_pairs)
  define f where "f k = game_row env a sid (ps ! (k div n)) k (k div n) (k mod n) ''a-black'' (sa_bot_a a) (sa_bot_b a)" for k
  define g where "g k = game_row env a sid (ps ! (k div n)) k (k div n) (k mod n) ''a-white'' (sa_bot_b a) (sa_bot_a a)" for k
  have rows: "rows = concat (map (\<lambda>k. [f k, g k]) [0..<length ps * n])"
    unfolding rows by (simp add: pair_number_def [abs_def] pair_rows_def f_def g_def assms(2) Let_def)
  have "distinct (map (\<lambda>r. jget r ''gameId'') rows)" unfolding rows
  proof (rule pairs_distinct)
    show "k = l" if "jget (f k) ''gameId'' = jget (f l) ''gameId''" for k l
      by (rule pair_id_inject [of sid k "k div n" "k mod n" "'':a-black''" l "l div n" "l mod n"]) (use that in \<open>simp add: f_def row_get\<close>)
    show "k = l" if "jget (g k) ''gameId'' = jget (g l) ''gameId''" for k l
      by (rule pair_id_inject [of sid k "k div n" "k mod n" "'':a-white''" l "l div n" "l mod n"]) (use that in \<open>simp add: g_def row_get\<close>)
    show "jget (f k) ''gameId'' \<noteq> jget (g l) ''gameId''" for k l
    proof
      assume "jget (f k) ''gameId'' = jget (g l) ''gameId''"
      then have eq: "pair_id sid k (k div n) (k mod n) @ '':a-black'' = pair_id sid l (l div n) (l mod n) @ '':a-white''"
        by (simp add: f_def g_def row_get)
      then have "k = l" by (rule pair_id_inject)
      show False using eq unfolding \<open>k = l\<close> by simp
    qed
  qed
  moreover have "length rows = 2 * (length positions * n)" unfolding rows pairs_length ps by simp
  moreover have "jget (rows ! (2 * k)) ''startPosition'' = positions ! (k div n) \<and> jget (rows ! (2 * k + 1)) ''startPosition'' = positions ! (k div n) \<and>
      jget (rows ! (2 * k)) ''pairId'' = jget (rows ! (2 * k + 1)) ''pairId'' \<and>
      jget (rows ! (2 * k)) ''blackBot'' = JInt (sa_bot_a a) \<and> jget (rows ! (2 * k)) ''whiteBot'' = JInt (sa_bot_b a) \<and>
      jget (rows ! (2 * k + 1)) ''blackBot'' = JInt (sa_bot_b a) \<and> jget (rows ! (2 * k + 1)) ''whiteBot'' = JInt (sa_bot_a a)"
    if "k < length positions * n" for k
  proof -
    have k: "k < length ps * n" using that ps by simp
    then have "k div n < length ps" by (simp add: less_mult_imp_div_less)
    moreover have "rows ! (2 * k) = f k" "rows ! (2 * k + 1) = g k" unfolding rows using pairs_nth [OF k, of f g] by blast+
    ultimately show ?thesis unfolding f_def g_def ps by (simp only: row_get nth_map)
  qed
  ultimately show ?thesis by blast
qed

definition sample_args :: schedule_args where
  "sample_args = \<lparr>sa_bot_a = 0, sa_bot_b = 1, sa_pairs_per_position = 2, sa_base_seed = ''seed''\<rparr>"

theorem schedule_balanced_witness:
  "\<exists>rows. build_schedule sample_env sample_args [JObj clean_sample] (Some ''s'') = Inr rows \<and> length rows = 4
     \<and> distinct (map (\<lambda>r. jget r ''gameId'') rows) \<and> jget (rows ! 3) ''whiteBot'' = JInt 0"
proof -
  have "case build_schedule sample_env sample_args [JObj clean_sample] (Some ''s'') of Inl _ \<Rightarrow> False | Inr _ \<Rightarrow> True" by code_simp
  then obtain rows where rows: "build_schedule sample_env sample_args [JObj clean_sample] (Some ''s'') = Inr rows" by (auto split: sum.splits)
  have "length rows = 2 * (length [JObj clean_sample] * 2) \<and> distinct (map (\<lambda>r. jget r ''gameId'') rows) \<and>
    (\<forall>k < length [JObj clean_sample] * 2.
      jget (rows ! (2 * k)) ''startPosition'' = [JObj clean_sample] ! (k div 2) \<and> jget (rows ! (2 * k + 1)) ''startPosition'' = [JObj clean_sample] ! (k div 2) \<and>
      jget (rows ! (2 * k)) ''pairId'' = jget (rows ! (2 * k + 1)) ''pairId'' \<and>
      jget (rows ! (2 * k)) ''blackBot'' = JInt (sa_bot_a sample_args) \<and> jget (rows ! (2 * k)) ''whiteBot'' = JInt (sa_bot_b sample_args) \<and>
      jget (rows ! (2 * k + 1)) ''blackBot'' = JInt (sa_bot_b sample_args) \<and> jget (rows ! (2 * k + 1)) ''whiteBot'' = JInt (sa_bot_a sample_args))"
    by (rule schedule_balanced [OF rows]) (simp add: sample_args_def)
  note balanced = this
  have "1 < length [JObj clean_sample] * (2 :: nat)" by simp
  then have "jget (rows ! (2 * 1 + 1)) ''whiteBot'' = JInt (sa_bot_a sample_args)" using balanced by blast
  then have "jget (rows ! 3) ''whiteBot'' = JInt 0" by (simp add: sample_args_def)
  then show ?thesis using rows balanced by simp
qed

end
