(* ===== verification/Spec2Isabelle.thy ===== *)
theory Spec2Isabelle
  imports Promotion_Log_Props Champion_Props Controller_Lock Scheduler_Props Scheduler_Codec Board_Props Board_Search_Props Lease_Durable
    Symmetry_Orbit Match_Schedule
begin

text \<open>
  Verification of the control plane and of the Python rules engine of the repository.

  The repository trains a Go engine and replaces the network that serves games without supervision.
  Two pieces of Python decide what may happen, and everything else (evaluation, training, curation,
  deployment) acts through them: the promotion state, \<^verbatim>\<open>src/python/risk_score/promotion_state.py\<close>,
  which says which network is champion and why, and the cluster scheduler,
  \<^verbatim>\<open>src/python/risk_score/cluster_scheduler.py\<close>, which says which job owns which GPU. Both keep their
  state in files as canonical, hashed JSON, and both must survive crashes and retries. A third,
  \<^verbatim>\<open>src/python/risk_score/gpu_lease.py\<close>, takes a GPU from the running trainer, lends it to evaluators and
  brings the trainer back. The training
  and curation code reads games through the rules engine, \<^verbatim>\<open>src/python/katago/game/board.py\<close>, which
  replays moves on a board with incrementally updated chains. Positions are kept as JSON samples;
  \<^verbatim>\<open>position_samples.py\<close>, \<^verbatim>\<open>board_symmetry.py\<close> and \<^verbatim>\<open>generate_schedule.py\<close> of \<^verbatim>\<open>src/python/risk_score\<close> give them a
  normal form, an identity that does not depend on orientation, and schedules of matches.

  Layout. \<^verbatim>\<open>Kata_Prelude\<close> holds what the components share: results of fallible code as sums with
  \<open>bindE\<close>, Python dictionaries in insertion order (\<open>dget\<close>, \<open>dset\<close>, \<open>ddel\<close>), the string functions the
  code uses, zero-padded decimals, JSON values with their canonical form, and the locale
  \<open>fallible_machine\<close>: a step function that may raise, with an invariant. The locale is interpreted
  three times, as \<open>registry\<close> on the replay of promotion events, as \<open>scheduler\<close> on the public calls of the
  scheduler and as \<open>board_machine\<close> on those of the Go board; the properties about whole histories rest on its facts \<open>run_inv\<close> and \<open>run_step_mono\<close>.

  Promotion state.
  \<^item> \<^verbatim>\<open>Promotion_Events\<close>: transition tables, the hash-chained event with \<open>build\<close>, \<open>verify\<close>, \<open>to_dict\<close> and
    \<open>from_dict\<close>. SHA-256, the \<^verbatim>\<open>json\<close> package, \<^verbatim>\<open>datetime.fromisoformat\<close> and the clock are fields of the
    parameter record \<open>promo_env\<close>.
  \<^item> \<^verbatim>\<open>Promotion_Builder\<close>: \<open>_RegistryBuilder\<close>, the replay of the log, and the retention queries.
    \<^verbatim>\<open>Promotion_Invariant\<close> and \<^verbatim>\<open>Promotion_Props\<close>: its invariant, life cycles of candidates and
    generations, how the champion moves, what may be deleted.
  \<^item> \<^verbatim>\<open>Promotion_Registry\<close>: \<open>EventRegistry\<close>, the scan of the event directory, strict reconstruction,
    append, and the idempotent operations. \<^verbatim>\<open>Promotion_Log\<close>, \<^verbatim>\<open>Promotion_Sample\<close> and
    \<^verbatim>\<open>Promotion_Log_Props\<close>: round trip of an event through its file, tamper evidence, append against
    reconstruction, retries, and a concrete JSON codec on which the hypotheses hold.
  \<^item> \<^verbatim>\<open>Champion_File\<close> and \<^verbatim>\<open>Champion_Props\<close>: \<^verbatim>\<open>champion.json\<close>, its creation and compare-and-swap.
  \<^item> \<^verbatim>\<open>Controller_Lock\<close>: the lock that keeps two controllers apart, over all interleavings.

  Cluster scheduler.
  \<^item> \<^verbatim>\<open>Scheduler\<close>: work kinds and tiers, argument normalisation, the records of the state, the checks of
    \<open>_validate_state\<close>, and one definition per operation of \<open>ClusterScheduler\<close>. An operation maps the
    loaded state to its result and the state it left, or to the exception it raised, in which case
    nothing was written. The clock is read when a sequence number is allocated, so a clock is a
    function of that number; \<open>set_safety_halt\<close>, which reads it without allocating, takes the reading.
  \<^item> \<^verbatim>\<open>Scheduler_Inv\<close>, \<^verbatim>\<open>Scheduler_Ops\<close>, \<^verbatim>\<open>Scheduler_Machine\<close>: the invariant, that it implies every check
    of the validation, and that every operation keeps it; the machine \<open>sched_step\<close> with one step per
    public call on the loaded state and the reachable states \<open>sched_reach\<close>.
  \<^item> \<^verbatim>\<open>Scheduler_History\<close>: what each successful call does to work, claims and requests.
    \<^verbatim>\<open>Scheduler_Props\<close>: mutual exclusion, priority order, progress, halts, cooperative preemption,
    retries, and that work is never lost.
  \<^item> \<^verbatim>\<open>Scheduler_Codec\<close>: \<open>to_dict\<close> and \<open>from_dict\<close> of every record, the state document with its hash,
    loading and writing, and the round trip through the file for every reachable state. \<open>durable_call\<close> is
    a public call in full, with the checks of its arguments, the load and the write; it raises the
    corruption error only for a file above the size limit.

  Go board.
  \<^item> \<^verbatim>\<open>Board\<close>: class \<open>Board\<close>. The arrays are functions on locations; a chain is a ring of links whose
    head stores the numbers of stones and liberties; \<open>add_unsafe\<close>, \<open>merge_unsafe\<close>, \<open>remove_unsafe\<close>,
    \<open>play\<close>, \<open>set_stone\<close> and the legality tests are definitions of the same names. A loop that walks a
    ring until it is back at its start is a partial function. The random table of the hash is the
    parameter \<open>zob\<close>.
  \<^item> \<^verbatim>\<open>Board_Chains\<close>: rings, the representation invariant \<open>chains_ok\<close>, placing a stone. \<^verbatim>\<open>Board_Merge\<close> and
    \<^verbatim>\<open>Board_Remove\<close>: the walks end on such boards and their results, in closed form, keep the invariant.
  \<^item> \<^verbatim>\<open>Board_Rules\<close>: the rules on bare positions, strings as connected components, \<open>rule_move\<close>.
    \<^verbatim>\<open>Board_Move\<close>: \<open>add_unsafe\<close> refines \<open>rule_move\<close>, with prisoners and ko. \<^verbatim>\<open>Board_Edit\<close>: taking one stone off.
  \<^item> \<^verbatim>\<open>Board_Machine\<close>: the empty board, sequences of calls. \<^verbatim>\<open>Board_Legality\<close>: what ko and suicide tests
    mean. \<^verbatim>\<open>Board_Props\<close>: the properties over all reached boards, and how captures break the hash.
    \<^verbatim>\<open>Board_Counts\<close>: the counts at head 0, which the code reads for empty locations, stay 0.
  \<^item> \<^verbatim>\<open>Board_Flood\<close>: the recursion of \<open>floodFillStonesHelper\<close> and \<open>rebuildChainHelper\<close>, one partial function,
    with the locale \<open>flood_search\<close> for what it visits; it is interpreted on both helpers.
    \<^verbatim>\<open>Board_Refill\<close>, \<^verbatim>\<open>Board_Rebuild\<close>, \<^verbatim>\<open>Board_Undo_Counts\<close>, \<^verbatim>\<open>Board_Undo\<close>: \<open>playRecordedUnsafe\<close> and \<open>undo\<close>,
    and that undo restores the position on any board with the position after the move.
  \<^item> \<^verbatim>\<open>Board_Queries\<close>: the queries that walk around chains. \<^verbatim>\<open>Board_Ladder\<close>: \<open>searchIsLadderCaptured\<close> as a
    loop over its stack arrays, and the recursive search it stands for. \<^verbatim>\<open>Board_Ladder_Moves\<close>: its moves
    depend on the position only. \<^verbatim>\<open>Board_Ladder_Search\<close>: the loop computes the recursion and restores the
    board. \<^verbatim>\<open>Board_Search_Props\<close>: these as properties.

  GPU lease.
  \<^item> \<^verbatim>\<open>Lease\<close>: \<open>GpuLeaseManager\<close> with its records and configuration. Processes, clock, checkpoint file, GPU
    probe, lock and storage are the parameter record \<open>lease_world\<close>, functions of the history of all
    calls made so far; the state keeps that history, the state file and \<open>_active_record\<close>. An action
    returns or raises and keeps its state either way, so \<open>try\<close>, \<open>finally\<close> and a body that fails are the
    code's; a polling loop is a partial function. The durations of the configuration are floats and may
    be infinite or NaN, as the code's checks allow. A write that raises may have replaced the file
    already. Which role a spawned process has is noted in the history only.
  \<^item> \<^verbatim>\<open>Lease_Logic\<close>: weakest preconditions with a postcondition for exceptions, invariants that actions
    keep, values they return, events they add. \<^verbatim>\<open>Lease_Guard\<close>: the evidence that precedes every start of
    the trainer and every grant, as an invariant of the history.
  \<^item> \<^verbatim>\<open>Lease_Settle\<close>: the locales \<open>history_invariant\<close> and \<open>stored_invariant\<close>, under which all observing and
    writing procedures are treated once, interpreted on the invariants of the state file; where
    handoffs and reconciliations leave the file. \<^verbatim>\<open>Lease_Faults\<close>: a run without failed writes is a run of
    a world in which writes succeed, so that what is proved there holds of every run up to a fault in
    its history. \<^verbatim>\<open>Lease_Ends\<close>: every call ends when durations are finite and the clock covers the time
    slept, and a wait without a finite timeout may not. \<^verbatim>\<open>Lease_Props\<close>: the properties over all sequences of calls, and a sample world.
  \<^item> \<^verbatim>\<open>Lease_Codec\<close>: the JSON form of the lease record, its validation and \<open>_load_record\<close>, with Python's
    conversions \<open>int\<close>, \<open>float\<close>, \<open>str\<close> and \<open>bool\<close> of JSON values; well-formed records are read back as
    they were written. \<^verbatim>\<open>Lease_Durable\<close>: all procedures write well-formed records only, so every call
    leaves a file that the next one can read.

  Positions and schedules.
  \<^item> \<^verbatim>\<open>Position_Samples\<close>: validation and normal form of a PositionSample, its semantic identity and the
    analysis query; normalising twice changes nothing.
  \<^item> \<^verbatim>\<open>Symmetry\<close>: \<^verbatim>\<open>board_symmetry.py\<close> on coordinates, locations and samples. The locale \<open>symmetry_action\<close>
    states what makes symmetries a group action, is interpreted on the points of the board and gives
    the round trip of samples. \<^verbatim>\<open>Symmetry_Orbit\<close>: the orbit hash is the same for all orientations, and
    separates orbits unless SHA-256 collides.
  \<^item> \<^verbatim>\<open>Match_Schedule\<close>: \<open>build_schedule\<close> with its two loops, loading and writing; the schedule in closed
    form, from which its balance follows.

  Bounds. Integers are unbounded, as in Python; no fuel is used: the loops of the control plane
  run over finite lists, and the walks of the board are partial functions whose end is proved. The
  16 bit arrays of the board hold locations and counts below 2700. Python's limit on the depth of
  recursion, which the floods could reach on boards with chains of about a thousand stones, is not
  modelled; the size of the ladder stack is, as the error \<open>LadderIndex\<close>. Strings range over the code points 0 to 255, and lowercasing is that
  of this range. Floats are rationals with infinities and NaN, without rounding. Sizes are compared
  with the limits of the code, 64 MiB for a state or event file.

  Not modelled. File system durability (fsync, temporary files, rename) is below the model: writing
  a file is one step; that synchronizing the directory may fail after the replacement is part of the
  lease model only. The advisory lock of the scheduler is represented by taking each call as one
  step; the controller lock is modelled as such. The promotion controller, the executor,
  suite rotation, curation and training act through the modelled interfaces but are not modelled
  yet; of the Go board the area scoring and the printing
  are left, of the lease manager the checks of its paths, the production
  runner and probe, and the text of log lines; its queries of processes are taken not to raise and
  its clock to show finite times. Tensor code rests on PyTorch and
  NumPy, which are not part of the repository, and the engine is C++.
\<close>

end
